(* ===== verification/Prelude.thy ===== *)
theory Prelude
  imports Main "HOL-Library.Word"
begin

unbundle bit_operations_syntax

text \<open>
  Shared vocabulary of the development: the C integer types of the firmware as
  machine words, tests and updates of status flags, the error numbers of
  \<^verbatim>\<open>LiteOS/utils/los_error.h\<close>, and the generic lemmas on lists and
  words that the component theories use.  The collections \<open>flag_simps\<close>
  (status words read bit by bit), \<open>errno_simps\<close> (error numbers) and
  \<open>los_defs\<close> (definitional unfoldings of small kernel helpers) are filled
  here and by the component theories.
\<close>

named_theorems flag_simps \<open>status and mask tests read bit by bit\<close>
named_theorems errno_simps \<open>error numbers as evaluated words\<close>
named_theorems los_defs \<open>unfoldings of small kernel helpers\<close>

section \<open>C integer types\<close>

type_synonym u8 = "8 word"
type_synonym u16 = "16 word"
type_synonym u32 = "32 word"
type_synonym u64 = "64 word"
type_synonym i16 = "16 word"
type_synonym i32 = "32 word"

text \<open>
  Signed objects (\<^verbatim>\<open>INT32 timeSlice\<close>) are kept as words of their width;
  signed comparisons read them with \<open>sint\<close>.
\<close>

section \<open>Flags\<close>

text \<open>
  \<open>tst s m\<close> is the C test \<^verbatim>\<open>s & m\<close> used as a condition, \<open>clr s m\<close> is
  \<^verbatim>\<open>s & ~m\<close>.
\<close>

definition tst :: "'a::len word \<Rightarrow> 'a word \<Rightarrow> bool" where
  "tst s m \<longleftrightarrow> s AND m \<noteq> 0"

definition clr :: "'a::len word \<Rightarrow> 'a word \<Rightarrow> 'a word" where
  "clr s m = s AND NOT m"

lemma tst_bit: "tst s m \<longleftrightarrow> (\<exists>n. bit s n \<and> bit m n)"
  by (auto simp: tst_def bit_eq_iff bit_and_iff intro: bit_imp_le_length)

lemma tst_exp: "n < LENGTH('a) \<Longrightarrow> tst (s :: 'a::len word) (2 ^ n) \<longleftrightarrow> bit s n"
  by (auto simp: tst_bit bit_exp_iff)

lemma bit_exp_word: "m < LENGTH('a) \<Longrightarrow> bit ((2 :: 'a::len word) ^ m) n \<longleftrightarrow> n = m"
  by (auto simp: bit_exp_iff)

lemma tst_or [simp]: "tst s (m OR m') \<longleftrightarrow> tst s m \<or> tst s m'"
  by (auto simp: tst_bit bit_or_iff)

lemma tst_or_left [simp]: "tst (s OR s') m \<longleftrightarrow> tst s m \<or> tst s' m"
  by (auto simp: tst_bit bit_or_iff)

lemma bit_clr [simp]: "bit (clr s m) n \<longleftrightarrow> bit s n \<and> \<not> bit m n"
  by (auto simp: clr_def bit_and_iff bit_not_iff bit_imp_le_length)

lemma tst_zero [simp]: "\<not> tst 0 m" "\<not> tst s 0"
  by (auto simp: tst_def)

lemma tst_clr_same [simp]: "\<not> tst (clr s m) m"
  by (auto simp: tst_bit)

lemma clr_id: "\<not> tst s m \<Longrightarrow> clr s m = s"
  by (rule bit_word_eqI) (auto simp: tst_bit)

lemma tst_clr_disjoint: "m AND m' = 0 \<Longrightarrow> tst (clr s m) m' \<longleftrightarrow> tst s m'"
  unfolding tst_bit bit_clr by (metis bit_0_eq bit_and_iff bot_apply bot_bool_def)

section \<open>Conversions\<close>

lemma unat_ucast_up:
  "LENGTH('a) \<le> LENGTH('b) \<Longrightarrow> unat (ucast (w :: 'a::len word) :: 'b::len word) = unat w"
  by (simp add: unsigned_ucast_eq take_bit_nat_eq_self less_le_trans [OF unsigned_less])

lemma unat_of_nat_small: "n < 2 ^ LENGTH('a) \<Longrightarrow> unat (of_nat n :: 'a::len word) = n"
  by (simp add: unsigned_of_nat take_bit_nat_eq_self)

lemma u16_incr: "unat (x :: u16) < unat (l :: u16) \<Longrightarrow> unat (x + 1) = Suc (unat x)"
proof -
  assume "unat x < unat l"
  moreover have "unat l < 2 ^ 16" using unsigned_less [of l] by simp
  ultimately show ?thesis by (simp add: unat_word_ariths)
qed

section \<open>Error numbers\<close>

definition LOS_ERRNO_OS_ERROR :: "u32 \<Rightarrow> u32 \<Rightarrow> u32" where
  "LOS_ERRNO_OS_ERROR moduleID errno = 0x02000000 OR push_bit 8 moduleID OR errno"

definition LOS_ERRNO_OS_FATAL :: "u32 \<Rightarrow> u32 \<Rightarrow> u32" where
  "LOS_ERRNO_OS_FATAL moduleID errno = 0x03000000 OR push_bit 8 moduleID OR errno"

abbreviation (input) LOS_OK :: u32 where "LOS_OK \<equiv> 0"
abbreviation (input) LOS_NOK :: u32 where "LOS_NOK \<equiv> 1"
abbreviation (input) OS_INVALID :: u32 where "OS_INVALID \<equiv> 0xFFFFFFFF"
abbreviation (input) OS_NULL_INT :: u32 where "OS_NULL_INT \<equiv> 0xFFFFFFFF"
abbreviation (input) OS_NULL_SHORT :: u16 where "OS_NULL_SHORT \<equiv> 0xFFFF"
abbreviation (input) LOS_NO_WAIT :: u32 where "LOS_NO_WAIT \<equiv> 0"
abbreviation (input) LOS_WAIT_FOREVER :: u32 where "LOS_WAIT_FOREVER \<equiv> 0xFFFFFFFF"

lemma errno_not_ok:
  "LOS_ERRNO_OS_ERROR m e \<noteq> LOS_OK" "LOS_ERRNO_OS_FATAL m e \<noteq> LOS_OK"
proof -
  have "bit (LOS_ERRNO_OS_ERROR m e) 25" "bit (LOS_ERRNO_OS_FATAL m e) 25"
    by (simp_all add: LOS_ERRNO_OS_ERROR_def LOS_ERRNO_OS_FATAL_def bit_or_iff)
  then show "LOS_ERRNO_OS_ERROR m e \<noteq> LOS_OK" "LOS_ERRNO_OS_FATAL m e \<noteq> LOS_OK"
    by (metis bit_0_eq bot_apply bot_bool_def)+
qed

lemmas errno_ok [simp] = errno_not_ok errno_not_ok [symmetric]

section \<open>Lists\<close>

lemma filter_neq_notin [simp]: "x \<notin> set xs \<Longrightarrow> filter (\<lambda>y. y \<noteq> x) xs = xs"
  by (simp add: filter_id_conv) blast

end
