(* ===== verification/Los_List.thy ===== *)
theory Los_List
  imports Prelude
begin

text \<open>
  The intrusive doubly linked lists of \<^verbatim>\<open>LiteOS/utils/los_list.h\<close>, on an
  explicit store: addresses are natural numbers with 0 for \<^verbatim>\<open>NULL\<close>, and the
  two pointer fields of every \<^verbatim>\<open>LOS_DL_LIST\<close> are functions of the address.
  \<open>dlist h l xs\<close> says that the ring at the list head \<open>l\<close> links exactly the nodes
  \<open>xs\<close>, in this order.  The lemmas show what each inline function does to a ring,
  and that it leaves every other ring alone; the kernel theories may therefore keep
  their lists as HOL lists.
\<close>

section \<open>The store and the operations\<close>

type_synonym addr = nat

record dl_store =
  pstPrev :: "addr \<Rightarrow> addr"
  pstNext :: "addr \<Rightarrow> addr"

definition set_next :: "addr \<Rightarrow> addr \<Rightarrow> dl_store \<Rightarrow> dl_store" where
  "set_next a v h = h\<lparr>pstNext := (pstNext h)(a := v)\<rparr>"

definition set_prev :: "addr \<Rightarrow> addr \<Rightarrow> dl_store \<Rightarrow> dl_store" where
  "set_prev a v h = h\<lparr>pstPrev := (pstPrev h)(a := v)\<rparr>"

definition LOS_ListInit :: "dl_store \<Rightarrow> addr \<Rightarrow> dl_store" where
  "LOS_ListInit h l = set_prev l l (set_next l l h)"

definition LOS_ListAdd :: "dl_store \<Rightarrow> addr \<Rightarrow> addr \<Rightarrow> dl_store" where
  "LOS_ListAdd h l node =
     (let h1 = set_next node (pstNext h l) h;
          h2 = set_prev node l h1;
          h3 = set_prev (pstNext h2 l) node h2
      in set_next l node h3)"

definition LOS_ListTailInsert :: "dl_store \<Rightarrow> addr \<Rightarrow> addr \<Rightarrow> dl_store" where
  "LOS_ListTailInsert h l node = LOS_ListAdd h (pstPrev h l) node"

definition LOS_ListHeadInsert :: "dl_store \<Rightarrow> addr \<Rightarrow> addr \<Rightarrow> dl_store" where
  "LOS_ListHeadInsert h l node = LOS_ListAdd h l node"

definition LOS_ListDelete :: "dl_store \<Rightarrow> addr \<Rightarrow> dl_store" where
  "LOS_ListDelete h node =
     (let h1 = set_prev (pstNext h node) (pstPrev h node) h;
          h2 = set_next (pstPrev h1 node) (pstNext h1 node) h1;
          h3 = set_next node 0 h2
      in set_prev node 0 h3)"

definition LOS_ListEmpty :: "dl_store \<Rightarrow> addr \<Rightarrow> bool" where
  "LOS_ListEmpty h node \<longleftrightarrow> pstNext h node = node"

definition LOS_DL_LIST_FIRST :: "dl_store \<Rightarrow> addr \<Rightarrow> addr" where
  "LOS_DL_LIST_FIRST h l = pstNext h l"

definition LOS_ListDelInit :: "dl_store \<Rightarrow> addr \<Rightarrow> dl_store" where
  "LOS_ListDelInit h l =
     (let h1 = set_prev (pstNext h l) (pstPrev h l) h;
          h2 = set_next (pstPrev h1 l) (pstNext h1 l) h1
      in LOS_ListInit h2 l)"

lemma set_next_simps [simp]:
  "pstNext (set_next a v h) = (pstNext h)(a := v)" "pstPrev (set_next a v h) = pstPrev h"
  by (simp_all add: set_next_def)

lemma set_prev_simps [simp]:
  "pstPrev (set_prev a v h) = (pstPrev h)(a := v)" "pstNext (set_prev a v h) = pstNext h"
  by (simp_all add: set_prev_def)

section \<open>Rings\<close>

text \<open>\<open>chain h a xs b\<close>: walking from \<open>a\<close> along \<open>xs\<close> arrives at \<open>b\<close>, and back.\<close>

fun chain :: "dl_store \<Rightarrow> addr \<Rightarrow> addr list \<Rightarrow> addr \<Rightarrow> bool" where
  "chain h a [] b \<longleftrightarrow> pstNext h a = b \<and> pstPrev h b = a"
| "chain h a (x # xs) b \<longleftrightarrow> pstNext h a = x \<and> pstPrev h x = a \<and> chain h x xs b"

definition dlist :: "dl_store \<Rightarrow> addr \<Rightarrow> addr list \<Rightarrow> bool" where
  "dlist h l xs \<longleftrightarrow> 0 \<notin> set (l # xs) \<and> distinct (l # xs) \<and> chain h l xs l"

lemma chain_append_Cons:
  "chain h a (xs @ y # ys) b \<longleftrightarrow> chain h a xs y \<and> chain h y ys b"
  by (induction xs arbitrary: a) auto

lemma chain_snoc: "chain h a (xs @ [y]) b \<longleftrightarrow> chain h a xs y \<and> pstNext h y = b \<and> pstPrev h b = y"
  by (simp add: chain_append_Cons)

lemma chain_ends: "chain h a xs b \<Longrightarrow>
    pstNext h a = (if xs = [] then b else hd xs) \<and> pstPrev h b = (if xs = [] then a else last xs)"
  by (induction xs arbitrary: a) auto

text \<open>A chain only reads the next fields of its nodes but the last and the previous
  fields of its nodes but the first.\<close>

lemma chain_cong:
  assumes "chain h a xs b"
    and "\<And>z. z \<in> insert a (set xs) \<Longrightarrow> pstNext h' z = pstNext h z"
    and "\<And>z. z \<in> insert b (set xs) \<Longrightarrow> pstPrev h' z = pstPrev h z"
  shows "chain h' a xs b"
  using assms by (induction xs arbitrary: a) auto

lemma dlist_cong:
  assumes "dlist h l xs"
    and "\<And>z. z \<in> set (l # xs) \<Longrightarrow> pstNext h' z = pstNext h z \<and> pstPrev h' z = pstPrev h z"
  shows "dlist h' l xs"
  using assms chain_cong [of h l xs l h'] by (auto simp: dlist_def)

lemma dlist_nonnull: "dlist h l xs \<Longrightarrow> l \<noteq> 0" "dlist h l xs \<Longrightarrow> x \<in> set xs \<Longrightarrow> x \<noteq> 0"
  unfolding dlist_def by (auto, metis neq0_conv)

lemma dlist_unique: "dlist h l xs \<Longrightarrow> dlist h l ys \<Longrightarrow> xs = ys"
proof -
  have *: "chain h a xs b \<Longrightarrow> chain h a ys b \<Longrightarrow> b \<notin> set xs \<Longrightarrow> b \<notin> set ys \<Longrightarrow> xs = ys" for a b xs ys
  proof (induction xs arbitrary: a ys)
    case Nil
    then show ?case by (cases ys) auto
  next
    case (Cons x xs)
    then show ?case by (cases ys) auto
  qed
  show "dlist h l xs \<Longrightarrow> dlist h l ys \<Longrightarrow> xs = ys"
    by (rule *) (auto simp: dlist_def)
qed

section \<open>What the operations do to a ring\<close>

lemma LOS_ListAdd_fields:
  assumes "p \<noteq> n" "pstNext h p \<noteq> n"
  shows "pstNext (LOS_ListAdd h p n) = (pstNext h)(n := pstNext h p, p := n)"
    and "pstPrev (LOS_ListAdd h p n) = (pstPrev h)(n := p, pstNext h p := n)"
  using assms by (auto simp: LOS_ListAdd_def Let_def)

lemma chain_LOS_ListAdd:
  assumes ch: "chain h p ys b" and fresh: "n \<notin> insert p (insert b (set ys))"
    and dist: "distinct (p # ys)" "b \<notin> set ys"
  shows "chain (LOS_ListAdd h p n) p (n # ys) b"
proof -
  have q: "pstNext h p = (if ys = [] then b else hd ys)"
    using chain_ends [OF ch] by simp
  then have ne: "p \<noteq> n" "pstNext h p \<noteq> n"
    using fresh by (auto split: if_splits)
  note flds = LOS_ListAdd_fields [OF ne]
  show ?thesis
  proof (cases ys)
    case Nil
    with ch ne fresh show ?thesis by (auto simp: flds)
  next
    case (Cons y ys')
    with ch have ch': "chain h y ys' b" by simp
    have "pstNext h p = y" using q Cons by simp
    then have "chain (LOS_ListAdd h p n) y ys' b"
      using dist fresh Cons by (intro chain_cong [OF ch']) (auto simp: flds)
    then show ?thesis using Cons \<open>pstNext h p = y\<close> dist fresh by (auto simp: flds)
  qed
qed

text \<open>Insertion behind any position of a ring: \<open>p\<close> is the head (\<open>xs = []\<close>) or the last
  node of the prefix \<open>xs\<close>.\<close>

lemma dlist_insert_after:
  assumes d: "dlist h l (xs @ ys)" and n: "n \<noteq> 0" "n \<notin> set (l # xs @ ys)"
  shows "dlist (LOS_ListAdd h (last (l # xs)) n) l (xs @ n # ys)"
proof (cases xs rule: rev_cases)
  case Nil
  have "chain (LOS_ListAdd h l n) l (n # ys) l"
    using d n Nil by (intro chain_LOS_ListAdd) (auto simp: dlist_def)
  with d n Nil show ?thesis by (auto simp: dlist_def)
next
  case (snoc xs' p)
  with d have ch: "chain h l xs' p" "chain h p ys l"
    by (auto simp: dlist_def chain_append_Cons)
  have q: "pstNext h p = (if ys = [] then l else hd ys)"
    using chain_ends [OF ch(2)] by simp
  have sep: "p \<notin> set (l # xs')" "set ys \<inter> set (l # xs' @ [p]) = {}" "distinct (l # xs')"
    using d snoc by (auto simp: dlist_def)
  then have qn: "pstNext h p \<notin> set (xs' @ [p, n])"
    using n snoc q by (cases ys) auto
  then have flds: "pstNext (LOS_ListAdd h p n) = (pstNext h)(n := pstNext h p, p := n)"
    "pstPrev (LOS_ListAdd h p n) = (pstPrev h)(n := p, pstNext h p := n)"
    using n snoc by (auto intro: LOS_ListAdd_fields)
  have "chain (LOS_ListAdd h p n) l xs' p"
    using sep n qn snoc by (intro chain_cong [OF ch(1)]) (auto simp: flds)
  moreover have "chain (LOS_ListAdd h p n) p (n # ys) l"
    using ch(2) d n snoc by (intro chain_LOS_ListAdd) (auto simp: dlist_def)
  ultimately show ?thesis
    using d n snoc by (auto simp: dlist_def chain_append_Cons)
qed

lemma dlist_LOS_ListInit: "l \<noteq> 0 \<Longrightarrow> dlist (LOS_ListInit h l) l []"
  by (simp add: dlist_def LOS_ListInit_def)

lemma dlist_LOS_ListAdd:
  "dlist h l xs \<Longrightarrow> n \<noteq> 0 \<Longrightarrow> n \<notin> set (l # xs) \<Longrightarrow> dlist (LOS_ListAdd h l n) l (n # xs)"
  using dlist_insert_after [of h l "[]" xs n] by simp

lemma dlist_LOS_ListTailInsert:
  assumes d: "dlist h l xs" and n: "n \<noteq> 0" "n \<notin> set (l # xs)"
  shows "dlist (LOS_ListTailInsert h l n) l (xs @ [n])"
proof -
  have "pstPrev h l = last (l # xs)"
    using d chain_ends [of h l xs l] by (auto simp: dlist_def)
  then show ?thesis
    using dlist_insert_after [of h l xs "[]" n] d n by (simp add: LOS_ListTailInsert_def)
qed

lemma dlist_LOS_ListEmpty: "dlist h l xs \<Longrightarrow> LOS_ListEmpty h l \<longleftrightarrow> xs = []"
  by (cases xs) (auto simp: dlist_def LOS_ListEmpty_def)

lemma dlist_LOS_DL_LIST_FIRST: "dlist h l (x # xs) \<Longrightarrow> LOS_DL_LIST_FIRST h l = x"
  by (simp add: dlist_def LOS_DL_LIST_FIRST_def)

text \<open>Deletion unlinks the node from the ring it is in, wherever it stands, and clears
  its two fields.\<close>

lemma LOS_ListDelete_fields:
  assumes "pstNext h n = b" "pstPrev h n = a" "a \<noteq> n" "b \<noteq> n"
  shows "pstNext (LOS_ListDelete h n) = (pstNext h)(a := b, n := 0)"
    and "pstPrev (LOS_ListDelete h n) = (pstPrev h)(b := a, n := 0)"
  using assms by (auto simp: LOS_ListDelete_def Let_def)

lemma dlist_LOS_ListDelete:
  assumes d: "dlist h l (xs @ n # ys)"
  shows "dlist (LOS_ListDelete h n) l (xs @ ys)"
    and "pstNext (LOS_ListDelete h n) n = 0" "pstPrev (LOS_ListDelete h n) n = 0"
proof -
  define a where "a = last (l # xs)"
  define b where "b = hd (ys @ [l])"
  from d have ch: "chain h l xs n" "chain h n ys l"
    by (auto simp: dlist_def chain_append_Cons)
  have ab: "pstNext h n = b" "pstPrev h n = a"
    using chain_ends [OF ch(1)] chain_ends [OF ch(2)] by (auto simp: a_def b_def hd_append)
  have dist: "n \<notin> set (l # xs @ ys)" "distinct (l # xs @ ys)"
    using d by (auto simp: dlist_def)
  have ne: "a \<noteq> n" "b \<noteq> n"
    using dist by (auto simp: a_def b_def hd_append split: if_splits dest: last_in_set)
  note flds = LOS_ListDelete_fields [OF ab ne]
  show "pstNext (LOS_ListDelete h n) n = 0" "pstPrev (LOS_ListDelete h n) n = 0"
    using ne by (simp_all add: flds)
  have fwd: "chain (LOS_ListDelete h n) a ys l"
  proof (cases ys)
    case Nil
    then show ?thesis using ne by (simp add: flds b_def)
  next
    case (Cons y ys')
    with ch(2) have ch': "chain h y ys' l" by simp
    have "a \<notin> set ys"
      using dist by (cases xs rule: rev_cases) (auto simp: a_def)
    with Cons dist have "chain (LOS_ListDelete h n) y ys' l"
      by (intro chain_cong [OF ch']) (auto simp: flds b_def)
    with Cons dist ne show ?thesis by (auto simp: flds b_def)
  qed
  show "dlist (LOS_ListDelete h n) l (xs @ ys)"
  proof (cases xs rule: rev_cases)
    case Nil
    with d fwd show ?thesis by (auto simp: dlist_def a_def)
  next
    case (snoc xs' p)
    with ch(1) have ch': "chain h l xs' p" by (simp add: chain_append_Cons)
    have "b \<notin> set (xs' @ [p])"
      using dist snoc by (cases ys) (auto simp: b_def)
    with dist snoc have "chain (LOS_ListDelete h n) l xs' p"
      by (intro chain_cong [OF ch']) (auto simp: flds a_def)
    with d fwd snoc show ?thesis by (auto simp: dlist_def a_def chain_append_Cons)
  qed
qed

text \<open>Frame: the operations only write the fields of the ring they work on.\<close>

lemma LOS_ListAdd_frame:
  assumes "dlist h l xs" "p \<in> set (l # xs)" "z \<notin> set (n # l # xs)"
  shows "pstNext (LOS_ListAdd h p n) z = pstNext h z" "pstPrev (LOS_ListAdd h p n) z = pstPrev h z"
proof -
  have "pstNext h p \<in> set (l # xs)"
  proof (cases "p = l")
    case True
    then show ?thesis using assms chain_ends [of h l xs l] by (auto simp: dlist_def)
  next
    case False
    then obtain us vs where "xs = us @ p # vs" using assms(2) by (auto dest: split_list)
    then show ?thesis
      using assms(1) chain_ends [of h p vs l] by (auto simp: dlist_def chain_append_Cons)
  qed
  then show "pstNext (LOS_ListAdd h p n) z = pstNext h z" "pstPrev (LOS_ListAdd h p n) z = pstPrev h z"
    using assms by (auto simp: LOS_ListAdd_def Let_def)
qed

lemma LOS_ListDelete_frame:
  assumes d: "dlist h l (xs @ n # ys)" and z: "z \<notin> set (l # xs @ n # ys)"
  shows "pstNext (LOS_ListDelete h n) z = pstNext h z" "pstPrev (LOS_ListDelete h n) z = pstPrev h z"
proof -
  from d have ch: "chain h l xs n" "chain h n ys l"
    by (auto simp: dlist_def chain_append_Cons)
  have "pstNext h n \<in> set (l # ys)" "pstPrev h n \<in> set (l # xs)"
    using chain_ends [OF ch(1)] chain_ends [OF ch(2)] by auto
  then show "pstNext (LOS_ListDelete h n) z = pstNext h z" "pstPrev (LOS_ListDelete h n) z = pstPrev h z"
    using z by (auto simp: LOS_ListDelete_def Let_def)
qed

section \<open>Families of lists\<close>

text \<open>
  The kernel threads one node (the \<^verbatim>\<open>pendList\<close> of a task) through many lists,
  one at a time.  A family of lists is a function from list heads to node lists;
  \<open>rings at h f\<close> says that the store \<open>h\<close> represents the family \<open>f\<close>, with the head of
  list \<open>l\<close> at address \<open>at l\<close>.
\<close>

definition pl_tail :: "'l \<Rightarrow> nat \<Rightarrow> ('l \<Rightarrow> nat list) \<Rightarrow> 'l \<Rightarrow> nat list" where
  "pl_tail l n f = f(l := f l @ [n])"

definition pl_head :: "'l \<Rightarrow> nat \<Rightarrow> ('l \<Rightarrow> nat list) \<Rightarrow> 'l \<Rightarrow> nat list" where
  "pl_head l n f = f(l := n # f l)"

definition pl_del :: "nat \<Rightarrow> ('l \<Rightarrow> nat list) \<Rightarrow> 'l \<Rightarrow> nat list" where
  "pl_del n f = (\<lambda>l. filter (\<lambda>x. x \<noteq> n) (f l))"

definition pl_disjoint :: "('l \<Rightarrow> nat list) \<Rightarrow> bool" where
  "pl_disjoint f \<longleftrightarrow> (\<forall>l. distinct (f l)) \<and> (\<forall>l l'. l \<noteq> l' \<longrightarrow> set (f l) \<inter> set (f l') = {})"

definition pl_free :: "nat \<Rightarrow> ('l \<Rightarrow> nat list) \<Rightarrow> bool" where
  "pl_free n f \<longleftrightarrow> (\<forall>l. n \<notin> set (f l))"

definition rings :: "('l \<Rightarrow> addr) \<Rightarrow> dl_store \<Rightarrow> ('l \<Rightarrow> addr list) \<Rightarrow> bool" where
  "rings at h f \<longleftrightarrow> (\<forall>l. dlist h (at l) (f l)) \<and>
     (\<forall>l l'. l \<noteq> l' \<longrightarrow> set (at l # f l) \<inter> set (at l' # f l') = {})"

lemma ringsD: "rings at h f \<Longrightarrow> dlist h (at l) (f l)"
  by (simp add: rings_def)

lemma rings_apart: "rings at h f \<Longrightarrow> l \<noteq> l' \<Longrightarrow> z \<in> set (at l' # f l') \<Longrightarrow> z \<notin> set (at l # f l)"
  unfolding rings_def by blast

lemma rings_pl_disjoint: "rings at h f \<Longrightarrow> pl_disjoint f"
  by (fastforce simp: rings_def pl_disjoint_def dlist_def)

text \<open>A change of one list of the family, and of the store outside the others.\<close>

lemma rings_update:
  assumes r: "rings at h f" and d: "dlist h' (at l) ys"
    and new: "\<And>l'. l' \<noteq> l \<Longrightarrow> set ys \<inter> set (at l' # f l') = {}"
    and frame: "\<And>z. z \<notin> set (at l # f l @ ys) \<Longrightarrow> pstNext h' z = pstNext h z \<and> pstPrev h' z = pstPrev h z"
  shows "rings at h' (f(l := ys))"
proof -
  have other: "dlist h' (at l') (f l')" if "l' \<noteq> l" for l'
  proof (rule dlist_cong [OF ringsD [OF r]])
    fix z assume z: "z \<in> set (at l' # f l')"
    then have "z \<notin> set (at l # f l)" using rings_apart [OF r, of l l'] that by blast
    moreover have "z \<notin> set ys" using new [OF that] z by blast
    ultimately show "pstNext h' z = pstNext h z \<and> pstPrev h' z = pstPrev h z"
      using frame by auto
  qed
  have apart: "set (at l # ys) \<inter> set (at l' # f l') = {}" if "l' \<noteq> l" for l'
    using new [OF that] rings_apart [OF r, of l l'] that by auto
  have rest: "set (at l1 # f l1) \<inter> set (at l2 # f l2) = {}" if "l1 \<noteq> l2" for l1 l2
    using r that unfolding rings_def by blast
  show ?thesis
    unfolding rings_def
  proof (intro conjI allI impI)
    fix l1 show "dlist h' (at l1) ((f(l := ys)) l1)"
      using other d by simp
  next
    fix l1 l2 :: 'a assume "l1 \<noteq> l2"
    then show "set (at l1 # (f(l := ys)) l1) \<inter> set (at l2 # (f(l := ys)) l2) = {}"
      using apart [of l1] apart [of l2] rest [of l1 l2]
      by (cases "l1 = l"; cases "l2 = l") (simp_all add: Int_commute)
  qed
qed

lemma rings_LOS_ListAdd:
  assumes r: "rings at h f" and n: "n \<noteq> 0" "pl_free n f" "n \<notin> range at"
  shows "rings at (LOS_ListAdd h (at l) n) (pl_head l n f)"
  unfolding pl_head_def
proof (rule rings_update [OF r])
  show "dlist (LOS_ListAdd h (at l) n) (at l) (n # f l)"
    using n ringsD [OF r] by (intro dlist_LOS_ListAdd) (auto simp: pl_free_def)
  show "set (n # f l) \<inter> set (at l' # f l') = {}" if "l' \<noteq> l" for l'
    using n rings_apart [OF r, of l' l] that by (auto simp: pl_free_def)
  show "pstNext (LOS_ListAdd h (at l) n) z = pstNext h z \<and> pstPrev (LOS_ListAdd h (at l) n) z = pstPrev h z"
    if "z \<notin> set (at l # f l @ n # f l)" for z
    using that LOS_ListAdd_frame [OF ringsD [OF r], of "at l" l z n] by auto
qed

lemma rings_LOS_ListTailInsert:
  assumes r: "rings at h f" and n: "n \<noteq> 0" "pl_free n f" "n \<notin> range at"
  shows "rings at (LOS_ListTailInsert h (at l) n) (pl_tail l n f)"
  unfolding pl_tail_def
proof (rule rings_update [OF r])
  have p: "pstPrev h (at l) \<in> set (at l # f l)"
    using ringsD [OF r, of l] chain_ends [of h "at l" "f l" "at l"] by (auto simp: dlist_def)
  show "dlist (LOS_ListTailInsert h (at l) n) (at l) (f l @ [n])"
    using n ringsD [OF r] by (intro dlist_LOS_ListTailInsert) (auto simp: pl_free_def)
  show "set (f l @ [n]) \<inter> set (at l' # f l') = {}" if "l' \<noteq> l" for l'
    using n rings_apart [OF r, of l' l] that by (auto simp: pl_free_def)
  show "pstNext (LOS_ListTailInsert h (at l) n) z = pstNext h z \<and>
      pstPrev (LOS_ListTailInsert h (at l) n) z = pstPrev h z"
    if "z \<notin> set (at l # f l @ f l @ [n])" for z
    using that LOS_ListAdd_frame [OF ringsD [OF r] p, of z n] by (auto simp: LOS_ListTailInsert_def)
qed

lemma rings_LOS_ListDelete:
  assumes r: "rings at h f" and n: "n \<in> set (f l)"
  shows "rings at (LOS_ListDelete h n) (pl_del n f)"
proof -
  obtain xs ys where split: "f l = xs @ n # ys" using n by (auto dest: split_list)
  then have dl: "dlist h (at l) (xs @ n # ys)" using ringsD [OF r, of l] by simp
  then have notin: "n \<notin> set xs" "n \<notin> set ys" by (auto simp: dlist_def)
  have "pl_del n f = f(l := xs @ ys)"
  proof
    fix l' show "pl_del n f l' = (f(l := xs @ ys)) l'"
      using rings_apart [OF r, of l' l n] n notin split by (auto simp: pl_del_def)
  qed
  moreover have "rings at (LOS_ListDelete h n) (f(l := xs @ ys))"
  proof (rule rings_update [OF r])
    show "dlist (LOS_ListDelete h n) (at l) (xs @ ys)"
      by (rule dlist_LOS_ListDelete [OF dl])
    show "set (xs @ ys) \<inter> set (at l' # f l') = {}" if "l' \<noteq> l" for l'
      using rings_apart [OF r, of l' l] that split by auto
    show "pstNext (LOS_ListDelete h n) z = pstNext h z \<and> pstPrev (LOS_ListDelete h n) z = pstPrev h z"
      if "z \<notin> set (at l # f l @ xs @ ys)" for z
      using that split LOS_ListDelete_frame [OF dl, of z] by auto
  qed
  ultimately show ?thesis by simp
qed

section \<open>The interface the kernel relies on\<close>

text \<open>
  What the scheduler and the IPC modules use of a family of lists: insertion at the
  tail or at the head, deletion of a node from whichever list it is in, and the
  contents of each list.
\<close>

locale wait_lists =
  fixes tail_insert :: "'l \<Rightarrow> nat \<Rightarrow> 's \<Rightarrow> 's"
    and head_insert :: "'l \<Rightarrow> nat \<Rightarrow> 's \<Rightarrow> 's"
    and delete :: "nat \<Rightarrow> 's \<Rightarrow> 's"
    and contents :: "'s \<Rightarrow> 'l \<Rightarrow> nat list"
  assumes contents_tail: "contents (tail_insert l n s) = (contents s)(l := contents s l @ [n])"
    and contents_head: "contents (head_insert l n s) = (contents s)(l := n # contents s l)"
    and contents_delete: "contents (delete n s) l = filter (\<lambda>x. x \<noteq> n) (contents s l)"
begin

lemma free_delete: "pl_free n (contents (delete n s))"
  by (simp add: pl_free_def contents_delete)

lemma free_delete_other: "pl_free m (contents s) \<Longrightarrow> pl_free m (contents (delete n s))"
  by (simp add: pl_free_def contents_delete)

lemma disjoint_tail:
  "pl_disjoint (contents s) \<Longrightarrow> pl_free n (contents s) \<Longrightarrow> pl_disjoint (contents (tail_insert l n s))"
  by (auto simp: pl_disjoint_def pl_free_def contents_tail)

lemma disjoint_head:
  "pl_disjoint (contents s) \<Longrightarrow> pl_free n (contents s) \<Longrightarrow> pl_disjoint (contents (head_insert l n s))"
  by (auto simp: pl_disjoint_def pl_free_def contents_head)

lemma disjoint_delete: "pl_disjoint (contents s) \<Longrightarrow> pl_disjoint (contents (delete n s))"
  by (auto simp: pl_disjoint_def contents_delete)

text \<open>Waiting is first come, first served: the node inserted at the tail of a list
  is reached after exactly those that were there before.\<close>

lemma delete_first:
  assumes "pl_disjoint (contents s)" "contents s l = n # ns"
  shows "contents (delete n s) l = ns"
proof -
  have "distinct (n # ns)" using assms by (metis pl_disjoint_def)
  then show ?thesis using assms by (simp add: contents_delete)
qed

lemma delete_frame:
  assumes "pl_disjoint (contents s)" "n \<in> set (contents s l)" "l' \<noteq> l"
  shows "contents (delete n s) l' = contents s l'"
proof -
  have "n \<notin> set (contents s l')" using assms unfolding pl_disjoint_def by blast
  then show ?thesis by (simp add: contents_delete)
qed

lemma tail_then_delete:
  assumes "pl_free n (contents s)"
  shows "contents (delete n (tail_insert l n s)) = contents s"
proof
  fix l' show "contents (delete n (tail_insert l n s)) l' = contents s l'"
    using assms by (simp add: contents_delete contents_tail pl_free_def)
qed

end

end
