(* ===== verification/Kernel_State.thy ===== *)
theory Kernel_State
  imports Los_List
begin

text \<open>
  The data model of the LiteOS-M kernel under \<^verbatim>\<open>LiteOS/kernel\<close>: the control
  blocks of \<^verbatim>\<open>los_task.h\<close>, \<^verbatim>\<open>los_sem.h\<close>, \<^verbatim>\<open>los_mux.h\<close>, \<^verbatim>\<open>los_event.h\<close>,
  \<^verbatim>\<open>los_queue.h\<close> and \<^verbatim>\<open>los_swtmr.h\<close>, and one record with the global
  variables of the kernel's C files.

  A task is named by its index in \<^verbatim>\<open>g_taskCBArray\<close>; a pointer to a control block is
  the index, with \<open>None\<close> for \<^verbatim>\<open>NULL\<close> where the code stores null.  The lists that a
  task's \<^verbatim>\<open>pendList\<close> node can be linked in are one family (see \<open>Los_List\<close>),
  indexed by the list head.  Interrupt locking is not part of the state: each function
  of the model is a stretch of code the kernel runs with interrupts off.
\<close>

section \<open>Configuration\<close>

text \<open>\<^verbatim>\<open>User/target_config.h\<close> and \<^verbatim>\<open>los_config.h\<close>.\<close>

definition LOSCFG_BASE_CORE_TSK_LIMIT :: nat where "LOSCFG_BASE_CORE_TSK_LIMIT = 12"
definition LOSCFG_BASE_IPC_SEM_LIMIT :: nat where "LOSCFG_BASE_IPC_SEM_LIMIT = 48"
definition LOSCFG_BASE_IPC_MUX_LIMIT :: nat where "LOSCFG_BASE_IPC_MUX_LIMIT = 10"
definition LOSCFG_BASE_IPC_QUEUE_LIMIT :: nat where "LOSCFG_BASE_IPC_QUEUE_LIMIT = 6"
definition LOSCFG_BASE_CORE_SWTMR_LIMIT :: nat where "LOSCFG_BASE_CORE_SWTMR_LIMIT = 6"

abbreviation (input) OS_TASK_PRIORITY_LOWEST :: nat where "OS_TASK_PRIORITY_LOWEST \<equiv> 31"

section \<open>Task control blocks\<close>

definition OS_TASK_STATUS_UNUSED :: u16 where "OS_TASK_STATUS_UNUSED = 0x0001"
definition OS_TASK_STATUS_SUSPEND :: u16 where "OS_TASK_STATUS_SUSPEND = 0x0002"
definition OS_TASK_STATUS_READY :: u16 where "OS_TASK_STATUS_READY = 0x0004"
definition OS_TASK_STATUS_PEND :: u16 where "OS_TASK_STATUS_PEND = 0x0008"
definition OS_TASK_STATUS_RUNNING :: u16 where "OS_TASK_STATUS_RUNNING = 0x0010"
definition OS_TASK_STATUS_DELAY :: u16 where "OS_TASK_STATUS_DELAY = 0x0020"
definition OS_TASK_STATUS_TIMEOUT :: u16 where "OS_TASK_STATUS_TIMEOUT = 0x0040"
definition OS_TASK_STATUS_PEND_TIME :: u16 where "OS_TASK_STATUS_PEND_TIME = 0x0080"

lemmas status_defs =
  OS_TASK_STATUS_UNUSED_def OS_TASK_STATUS_SUSPEND_def OS_TASK_STATUS_READY_def
  OS_TASK_STATUS_PEND_def OS_TASK_STATUS_RUNNING_def OS_TASK_STATUS_DELAY_def
  OS_TASK_STATUS_TIMEOUT_def OS_TASK_STATUS_PEND_TIME_def

text \<open>The status word read bit by bit: bit \<open>n\<close> for the flag \<open>2 ^ n\<close>.\<close>

lemma tst_status [flag_simps]:
  "tst s OS_TASK_STATUS_UNUSED \<longleftrightarrow> bit s 0"
  "tst s OS_TASK_STATUS_SUSPEND \<longleftrightarrow> bit s 1"
  "tst s OS_TASK_STATUS_READY \<longleftrightarrow> bit s 2"
  "tst s OS_TASK_STATUS_PEND \<longleftrightarrow> bit s 3"
  "tst s OS_TASK_STATUS_RUNNING \<longleftrightarrow> bit s 4"
  "tst s OS_TASK_STATUS_DELAY \<longleftrightarrow> bit s 5"
  "tst s OS_TASK_STATUS_TIMEOUT \<longleftrightarrow> bit s 6"
  "tst s OS_TASK_STATUS_PEND_TIME \<longleftrightarrow> bit s 7"
  using tst_exp [of 0 s] tst_exp [of 1 s] tst_exp [of 2 s] tst_exp [of 3 s] tst_exp [of 4 s]
    tst_exp [of 5 s] tst_exp [of 6 s] tst_exp [of 7 s]
  by (simp_all add: status_defs)

lemma bit_status [flag_simps]:
  "bit OS_TASK_STATUS_UNUSED n \<longleftrightarrow> n = 0"
  "bit OS_TASK_STATUS_SUSPEND n \<longleftrightarrow> n = 1"
  "bit OS_TASK_STATUS_READY n \<longleftrightarrow> n = 2"
  "bit OS_TASK_STATUS_PEND n \<longleftrightarrow> n = 3"
  "bit OS_TASK_STATUS_RUNNING n \<longleftrightarrow> n = 4"
  "bit OS_TASK_STATUS_DELAY n \<longleftrightarrow> n = 5"
  "bit OS_TASK_STATUS_TIMEOUT n \<longleftrightarrow> n = 6"
  "bit OS_TASK_STATUS_PEND_TIME n \<longleftrightarrow> n = 7"
  using bit_exp_word [where 'a = 16, of 0 n] bit_exp_word [where 'a = 16, of 1 n]
    bit_exp_word [where 'a = 16, of 2 n] bit_exp_word [where 'a = 16, of 3 n]
    bit_exp_word [where 'a = 16, of 4 n] bit_exp_word [where 'a = 16, of 5 n]
    bit_exp_word [where 'a = 16, of 6 n] bit_exp_word [where 'a = 16, of 7 n]
  by (simp_all add: status_defs)

declare bit_or_iff [flag_simps]

text \<open>
  The fields of \<^verbatim>\<open>LosTaskCB\<close>.  \<open>responseTime\<close> is the key of the embedded
  \<^verbatim>\<open>SortLinkList sortList\<close>; function and data pointers are addresses.
\<close>

record LosTaskCB =
  stackPointer :: u32
  taskStatus :: u16
  priority :: u16
  timeSlice :: i32
  waitTimes :: u32
  responseTime :: u64
  startTime :: u64
  stackSize :: u32
  topOfStack :: u32
  taskID :: u32
  taskEntry :: u32
  taskSem :: "nat option"
  taskMux :: "nat option"
  taskArg :: u32
  taskName :: "string option"
  taskEventID :: u32
  eventMask :: u32
  eventMode :: u32
  taskMsg :: u32

section \<open>IPC control blocks\<close>

record EVENT_CB_S =
  uwEventID :: u32
  eventInit :: bool \<comment> \<open>both pointers of \<^verbatim>\<open>stEventList\<close> are non-null\<close>

record LosSemCB =
  semStat :: u16
  semCount :: u16
  maxSemCount :: u16
  semID :: u16

record LosMuxCB =
  muxStat :: u8
  muxCount :: u16
  muxID :: u32
  muxOwner :: "nat option"
  muxPriority :: u16

record LosQueueCB =
  queueMem :: "u8 list" \<comment> \<open>the block of \<open>queueLen * queueSize\<close> bytes at \<^verbatim>\<open>queue\<close>\<close>
  queueState :: u16
  queueLen :: u16
  queueSize :: u16
  queueID :: u16
  queueHead :: u16
  queueTail :: u16
  readableCnt :: u16
  writableCnt :: u16

record SWTMR_CTRL_S =
  ucState :: u8
  ucMode :: u8
  ucRouses :: u8
  ucSensitive :: u8
  usTimerID :: u32
  uwCount :: u32
  uwInterval :: u32
  uwArg :: u32
  pfnHandler :: u32
  swtmrResponseTime :: u64

text \<open>\<^verbatim>\<open>SwtmrAlignData\<close>: the bit fields of a timer's alignment word.\<close>

record SwtmrAlignData =
  alignTimes :: u32
  canMultiple :: bool
  canAlign :: bool
  isAligned :: bool

section \<open>The kernel\<close>

text \<open>The list heads a \<^verbatim>\<open>pendList\<close> node can be linked behind.\<close>

datatype list_id =
    PriQueue nat      \<comment> \<open>\<^verbatim>\<open>g_priQueueList[p]\<close>\<close>
  | FreeTask          \<comment> \<open>\<^verbatim>\<open>g_losFreeTask\<close>\<close>
  | RecycleTask       \<comment> \<open>\<^verbatim>\<open>g_taskRecyleList\<close>\<close>
  | SemList nat       \<comment> \<open>\<^verbatim>\<open>g_allSem[i].semList\<close>\<close>
  | MuxList nat       \<comment> \<open>\<^verbatim>\<open>g_allMux[i].muxList\<close>\<close>
  | EventList nat     \<comment> \<open>\<^verbatim>\<open>stEventList\<close> of the event control block at an address\<close>
  | QueueReadList nat \<comment> \<open>\<^verbatim>\<open>g_allQueue[i].readWriteList[OS_QUEUE_READ]\<close>\<close>
  | QueueWriteList nat
  | QueueMemList nat

text \<open>A list of tasks that wait for an IPC object.\<close>

fun is_wait_list :: "list_id \<Rightarrow> bool" where
  "is_wait_list (PriQueue p) = False"
| "is_wait_list FreeTask = False"
| "is_wait_list RecycleTask = False"
| "is_wait_list l = True"

record kernel =
  tcb :: "nat \<Rightarrow> LosTaskCB"          \<comment> \<open>\<^verbatim>\<open>g_taskCBArray\<close>\<close>
  pend :: "list_id \<Rightarrow> nat list"
  g_queueBitmap :: u32
  taskSortLink :: "nat list"          \<comment> \<open>\<^verbatim>\<open>g_taskSortLink\<close>\<close>
  swtmrSortLink :: "nat list"         \<comment> \<open>\<^verbatim>\<open>g_swtmrSortLink\<close>\<close>
  runTask :: nat                      \<comment> \<open>\<^verbatim>\<open>g_losTask.runTask\<close>\<close>
  newTask :: nat                      \<comment> \<open>\<^verbatim>\<open>g_losTask.newTask\<close>\<close>
  g_losTaskLock :: u16
  g_taskMaxNum :: u32
  g_idleTaskID :: u32
  g_swtmrTaskID :: u32
  g_taskScheduled :: bool
  g_schedResponseID :: u32
  g_schedResponseTime :: u64
  g_schedTimerBase :: u64
  oldSchedTime :: u64                 \<comment> \<open>the static of \<^verbatim>\<open>OsGetCurrSchedTimeCycle\<close>\<close>
  sleepTimeSetSet :: bool             \<comment> \<open>\<^verbatim>\<open>SchedRealSleepTimeSet != NULL\<close>\<close>
  g_pmSleepTime :: u64                \<comment> \<open>of \<^verbatim>\<open>los_pm.c\<close>\<close>
  swtmrScanSet :: bool                \<comment> \<open>\<^verbatim>\<open>g_swtmrScan != NULL\<close>\<close>
  sysClock :: u32                     \<comment> \<open>\<^verbatim>\<open>SystemCoreClock\<close>\<close>
  g_intCount :: u32
  SysTick_CNT :: u64
  SysTick_CMP :: u64
  swiPending :: bool                  \<comment> \<open>\<^verbatim>\<open>Software_IRQn\<close> pending: a task switch is due\<close>
  assertFailed :: bool                \<comment> \<open>a \<^verbatim>\<open>LOS_ASSERT\<close> failed: the CPU spins\<close>
  g_allSem :: "nat \<Rightarrow> LosSemCB"
  g_unusedSemList :: "nat list"
  g_allMux :: "nat \<Rightarrow> LosMuxCB"
  g_unusedMuxList :: "nat list"
  eventCB :: "nat \<Rightarrow> EVENT_CB_S"
  g_allQueue :: "nat \<Rightarrow> LosQueueCB"
  g_freeQueueList :: "nat list"
  g_swtmrCBArray :: "nat \<Rightarrow> SWTMR_CTRL_S"
  g_swtmrFreeList :: "nat list"
  g_swtmrAlignID :: "nat \<Rightarrow> SwtmrAlignData"
  g_swtmrHandlerQueue :: u32

definition upd_tcb :: "nat \<Rightarrow> (LosTaskCB \<Rightarrow> LosTaskCB) \<Rightarrow> kernel \<Rightarrow> kernel" where
  "upd_tcb t f k = k\<lparr>tcb := (tcb k)(t := f (tcb k t))\<rparr>"

text \<open>The list operations of \<open>Los_List\<close> on a task's \<^verbatim>\<open>pendList\<close>.\<close>

definition pend_tail :: "list_id \<Rightarrow> nat \<Rightarrow> kernel \<Rightarrow> kernel" where
  "pend_tail l t k = k\<lparr>pend := pl_tail l t (pend k)\<rparr>"

definition pend_head :: "list_id \<Rightarrow> nat \<Rightarrow> kernel \<Rightarrow> kernel" where
  "pend_head l t k = k\<lparr>pend := pl_head l t (pend k)\<rparr>"

definition pend_del :: "nat \<Rightarrow> kernel \<Rightarrow> kernel" where
  "pend_del t k = k\<lparr>pend := pl_del t (pend k)\<rparr>"

interpretation kl: wait_lists pend_tail pend_head pend_del pend
  by unfold_locales
    (simp_all add: pend_tail_def pend_head_def pend_del_def pl_tail_def pl_head_def pl_del_def)

text \<open>Outcome of a call that may block: a return value, or the calling task is now on a
  wait list and its remaining code runs when it is scheduled again.\<close>

datatype outcome = Ret u32 | Blocked

abbreviation status :: "kernel \<Rightarrow> nat \<Rightarrow> u16" where
  "status k t \<equiv> taskStatus (tcb k t)"

definition set_status :: "nat \<Rightarrow> u16 \<Rightarrow> kernel \<Rightarrow> kernel" where
  "set_status t m = upd_tcb t (\<lambda>c. c\<lparr>taskStatus := taskStatus c OR m\<rparr>)"

definition clr_status :: "nat \<Rightarrow> u16 \<Rightarrow> kernel \<Rightarrow> kernel" where
  "clr_status t m = upd_tcb t (\<lambda>c. c\<lparr>taskStatus := clr (taskStatus c) m\<rparr>)"

end
