(* ===== verification/Los_SortLink.thy ===== *)
theory Los_SortLink
  imports Kernel_State
begin

text \<open>
  \<^verbatim>\<open>LiteOS/kernel/src/los_sortlink.c\<close>: the links of sleeping tasks and of
  running software timers, sorted by the cycle at which they are due.  The insertion is
  modelled twice: on the pointer store of \<open>Los_List\<close>, with its backward search as a
  loop that might not end, and on HOL lists, which is what the other kernel theories
  use.  The first is shown to terminate and to implement the second.
\<close>

section \<open>Time constants\<close>

definition OS_SORT_LINK_INVALID_TIME :: u64 where
  "OS_SORT_LINK_INVALID_TIME = 0xFFFFFFFFFFFFFFFF"

definition OS_SCHED_MAX_RESPONSE_TIME :: u64 where
  "OS_SCHED_MAX_RESPONSE_TIME = OS_SORT_LINK_INVALID_TIME - 1"

definition LOSCFG_BASE_CORE_TICK_PER_SECOND :: u32 where
  "LOSCFG_BASE_CORE_TICK_PER_SECOND = 1000"

definition OS_CYCLE_PER_TICK :: "kernel \<Rightarrow> u32" where
  "OS_CYCLE_PER_TICK k = sysClock k div LOSCFG_BASE_CORE_TICK_PER_SECOND"

definition OS_US_PER_TICK :: u64 where
  "OS_US_PER_TICK = 1000000 div 1000"

section \<open>Insertion into a sorted link\<close>

text \<open>The backward search of \<^verbatim>\<open>OsAddNode2SortLink\<close>: the nodes before the
  current one (nearest first), the current one at their head, and those after it.\<close>

fun insert_back :: "(nat \<Rightarrow> u64) \<Rightarrow> nat \<Rightarrow> nat list \<Rightarrow> nat list \<Rightarrow> nat list" where
  "insert_back key n [] behind = n # behind"
| "insert_back key n (p # before) behind =
     (if key p \<le> key n then rev before @ p # n # behind else insert_back key n before (p # behind))"

definition OsAddNode2SortLink :: "(nat \<Rightarrow> u64) \<Rightarrow> nat \<Rightarrow> nat list \<Rightarrow> nat list" where
  "OsAddNode2SortLink key n xs =
     (case xs of
        [] \<Rightarrow> [n]
      | first # rest \<Rightarrow>
          if key first > key n then n # xs
          else if key first = key n then first # n # rest
          else insert_back key n (rev xs) [])"

partial_function (option) search_prev ::
    "dl_store \<Rightarrow> (addr \<Rightarrow> u64) \<Rightarrow> u64 \<Rightarrow> addr \<Rightarrow> addr option" where
  "search_prev h key time prevNode =
     (if key prevNode \<le> time then Some prevNode
      else search_prev h key time (pstPrev h prevNode))"

definition OsAddNode2SortLink_store ::
    "(addr \<Rightarrow> u64) \<Rightarrow> dl_store \<Rightarrow> addr \<Rightarrow> addr \<Rightarrow> dl_store option" where
  "OsAddNode2SortLink_store key h head node =
     (if LOS_ListEmpty h head then Some (LOS_ListAdd h head node)
      else if key (pstNext h head) > key node then Some (LOS_ListAdd h head node)
      else if key (pstNext h head) = key node then Some (LOS_ListAdd h (pstNext h head) node)
      else map_option (\<lambda>prevNode. LOS_ListAdd h prevNode node)
             (search_prev h key (key node) (pstPrev h head)))"

abbreviation sorted_by :: "(nat \<Rightarrow> u64) \<Rightarrow> nat list \<Rightarrow> bool" where
  "sorted_by key xs \<equiv> sorted (map key xs)"

lemma set_insert_back [simp]: "set (insert_back key n before behind) = insert n (set before \<union> set behind)"
  by (induction key n before behind rule: insert_back.induct) auto

lemma set_OsAddNode2SortLink [simp]: "set (OsAddNode2SortLink key n xs) = insert n (set xs)"
  by (auto simp: OsAddNode2SortLink_def split: list.splits)

lemma distinct_insert_back:
  "distinct (n # rev before @ behind) \<Longrightarrow> distinct (insert_back key n before behind)"
  by (induction key n before behind rule: insert_back.induct) auto

lemma distinct_OsAddNode2SortLink:
  "distinct xs \<Longrightarrow> n \<notin> set xs \<Longrightarrow> distinct (OsAddNode2SortLink key n xs)"
  by (auto simp: OsAddNode2SortLink_def distinct_insert_back split: list.splits)

text \<open>The search stops behind the last node that is not later than the new one.\<close>

lemma insert_back_split:
  "\<exists>us vs. rev before @ behind = us @ vs \<and> insert_back key n before behind = us @ n # vs \<and>
     (us \<noteq> [] \<longrightarrow> key (last us) \<le> key n) \<and> set before \<subseteq> set us \<union> {x. key x > key n} \<and>
     (\<forall>x \<in> set vs. x \<in> set behind \<or> key x > key n)"
proof (induction key n before behind rule: insert_back.induct)
  case (2 key n p before behind)
  show ?case
  proof (cases "key p \<le> key n")
    case True
    then show ?thesis by (intro exI [of _ "rev before @ [p]"] exI [of _ behind]) auto
  next
    case False
    from 2 [OF this] obtain us vs where
      "rev before @ p # behind = us @ vs" "insert_back key n before (p # behind) = us @ n # vs"
      "us \<noteq> [] \<longrightarrow> key (last us) \<le> key n" "set before \<subseteq> set us \<union> {x. key x > key n}"
      "\<forall>x \<in> set vs. x \<in> set (p # behind) \<or> key x > key n"
      by blast
    with False show ?thesis by (intro exI [of _ us] exI [of _ vs]) auto
  qed
qed auto

lemma sorted_OsAddNode2SortLink:
  assumes "sorted_by key xs"
  shows "sorted_by key (OsAddNode2SortLink key n xs)"
proof (cases xs)
  case Nil
  then show ?thesis by (simp add: OsAddNode2SortLink_def)
next
  case (Cons x rest)
  consider "key x > key n" | "key x = key n" | "key x < key n" by fastforce
  then show ?thesis
  proof cases
    case 3
    obtain us vs where "rev (rev xs) @ [] = us @ vs" "insert_back key n (rev xs) [] = us @ n # vs"
      "us \<noteq> [] \<longrightarrow> key (last us) \<le> key n" "\<forall>x \<in> set vs. x \<in> set [] \<or> key x > key n"
      using insert_back_split [where before = "rev xs" and behind = "[]" and key = key and n = n] by blast
    then have s: "xs = us @ vs" "insert_back key n (rev xs) [] = us @ n # vs"
      "us \<noteq> [] \<longrightarrow> key (last us) \<le> key n" "\<forall>x \<in> set vs. key x > key n"
      by simp_all
    have "\<forall>u \<in> set us. key u \<le> key n"
    proof (cases us rule: rev_cases)
      case (snoc us' u)
      then show ?thesis using assms s by (fastforce simp: sorted_append)
    qed simp
    moreover have "OsAddNode2SortLink key n xs = us @ n # vs"
      using Cons 3 s by (auto simp: OsAddNode2SortLink_def)
    ultimately show ?thesis using assms s by (force simp: sorted_append less_imp_le)
  qed (use assms Cons in \<open>auto simp: OsAddNode2SortLink_def intro: less_imp_le order_trans\<close>)
qed

section \<open>The pointer version\<close>

text \<open>The search ends because the first node of the ring is not later than the new one.\<close>

lemma search_prev_chain:
  "chain h l (rev before @ [p]) q \<Longrightarrow> (\<exists>x \<in> set (p # before). key x \<le> time) \<Longrightarrow>
   \<exists>us vs. rev before @ [p] = us @ vs \<and> us \<noteq> [] \<and> search_prev h key time p = Some (last us) \<and>
     key (last us) \<le> time \<and> (\<forall>x \<in> set vs. \<not> key x \<le> time)"
proof (induction before arbitrary: p q)
  case Nil
  then show ?case by (intro exI [of _ "[p]"] exI [of _ "[]"]) (simp add: search_prev.simps)
next
  case (Cons b before)
  show ?case
  proof (cases "key p \<le> time")
    case True
    then show ?thesis
      by (intro exI [of _ "rev (b # before) @ [p]"] exI [of _ "[]"]) (simp add: search_prev.simps)
  next
    case False
    from Cons.prems(1) have ch: "chain h l (rev before @ [b]) p" and prev: "pstPrev h p = b"
      by (simp_all add: chain_append_Cons chain_snoc)
    from Cons.IH [OF ch] Cons.prems(2) False obtain us vs where
      "rev before @ [b] = us @ vs" "us \<noteq> []" "search_prev h key time b = Some (last us)"
      "key (last us) \<le> time" "\<forall>x \<in> set vs. \<not> key x \<le> time"
      by auto
    with False prev show ?thesis
      by (intro exI [of _ us] exI [of _ "vs @ [p]"]) (simp add: search_prev.simps)
  qed
qed

lemma insert_back_skip:
  "(\<forall>x \<in> set later. \<not> key x \<le> key n) \<Longrightarrow> key p \<le> key n \<Longrightarrow>
   insert_back key n (later @ p # before) behind = rev before @ p # n # rev later @ behind"
  by (induction later arbitrary: behind) auto

lemma store_insertion:
  assumes d: "dlist h l xs" and n: "n \<noteq> 0" "n \<notin> set (l # xs)"
  shows "\<exists>h'. OsAddNode2SortLink_store key h l n = Some h' \<and> dlist h' l (OsAddNode2SortLink key n xs)"
proof (cases xs)
  case Nil
  then show ?thesis
    using d n dlist_LOS_ListAdd [OF d n]
    by (simp add: OsAddNode2SortLink_store_def OsAddNode2SortLink_def dlist_LOS_ListEmpty)
next
  case (Cons x rest)
  have first: "pstNext h l = x" using d Cons by (simp add: dlist_def)
  have ne: "\<not> LOS_ListEmpty h l" using d Cons dlist_LOS_ListEmpty by blast
  consider "key x > key n" | "key x = key n" | "key x < key n" by fastforce
  then show ?thesis
  proof cases
    case 1
    then show ?thesis using dlist_LOS_ListAdd [OF d n] first ne Cons
      by (auto simp: OsAddNode2SortLink_store_def OsAddNode2SortLink_def)
  next
    case 2
    then show ?thesis using dlist_insert_after [of h l "[x]" rest n] d n first ne Cons
      by (auto simp: OsAddNode2SortLink_store_def OsAddNode2SortLink_def)
  next
    case 3
    obtain before p where bp: "xs = rev before @ [p]"
      using Cons by (metis list.distinct(1) rev_exhaust rev_rev_ident)
    with d have "chain h l (rev before @ [p]) l" "pstPrev h l = p"
      using chain_ends [of h l xs l] by (auto simp: dlist_def)
    moreover have "\<exists>y \<in> set (p # before). key y \<le> key n"
    proof
      show "key x \<le> key n" using 3 by simp
      show "x \<in> set (p # before)" using Cons bp by (metis list.set_intros(1) set_rev rev.simps(2))
    qed
    ultimately obtain us vs where s: "xs = us @ vs" "us \<noteq> []"
      "search_prev h key (key n) (pstPrev h l) = Some (last us)"
      "key (last us) \<le> key n" "\<forall>x \<in> set vs. \<not> key x \<le> key n"
      using search_prev_chain [of h l before p l key "key n"] bp by auto
    have "rev xs = rev vs @ last us # rev (butlast us)"
      using s(1,2) by (metis append.assoc append_butlast_last_id rev_append rev_eq_Cons_iff rev_rev_ident)
    then have "insert_back key n (rev xs) [] = butlast us @ last us # n # vs"
      using s(4,5) insert_back_skip [of "rev vs" key n "last us"] by simp
    moreover have "butlast us @ last us # n # vs = us @ n # vs"
      using s(2) by (metis append.assoc append_Cons append_Nil append_butlast_last_id)
    ultimately have "OsAddNode2SortLink key n xs = us @ n # vs"
      using Cons 3 by (auto simp: OsAddNode2SortLink_def simp del: rev.simps)
    then show ?thesis using s 3 dlist_insert_after [of h l us vs n] d n first ne
      by (auto simp: OsAddNode2SortLink_store_def)
  qed
qed

section \<open>Operations on the kernel's links\<close>

datatype SortLinkType = OS_SORT_LINK_TASK | OS_SORT_LINK_SWTMR

definition OsGetSortLinkAttribute :: "SortLinkType \<Rightarrow> kernel \<Rightarrow> nat list" where
  "OsGetSortLinkAttribute type k =
     (case type of OS_SORT_LINK_TASK \<Rightarrow> taskSortLink k | OS_SORT_LINK_SWTMR \<Rightarrow> swtmrSortLink k)"

definition set_link :: "SortLinkType \<Rightarrow> nat list \<Rightarrow> kernel \<Rightarrow> kernel" where
  "set_link type xs k =
     (case type of OS_SORT_LINK_TASK \<Rightarrow> k\<lparr>taskSortLink := xs\<rparr>
      | OS_SORT_LINK_SWTMR \<Rightarrow> k\<lparr>swtmrSortLink := xs\<rparr>)"

text \<open>The \<^verbatim>\<open>responseTime\<close> of a link node, and \<^verbatim>\<open>SET_SORTLIST_VALUE\<close>.\<close>

definition link_key :: "SortLinkType \<Rightarrow> kernel \<Rightarrow> nat \<Rightarrow> u64" where
  "link_key type k n =
     (case type of OS_SORT_LINK_TASK \<Rightarrow> responseTime (tcb k n)
      | OS_SORT_LINK_SWTMR \<Rightarrow> swtmrResponseTime (g_swtmrCBArray k n))"

definition SET_SORTLIST_VALUE :: "SortLinkType \<Rightarrow> nat \<Rightarrow> u64 \<Rightarrow> kernel \<Rightarrow> kernel" where
  "SET_SORTLIST_VALUE type n v k =
     (case type of
        OS_SORT_LINK_TASK \<Rightarrow> upd_tcb n (\<lambda>c. c\<lparr>responseTime := v\<rparr>) k
      | OS_SORT_LINK_SWTMR \<Rightarrow>
          k\<lparr>g_swtmrCBArray := (g_swtmrCBArray k)(n := (g_swtmrCBArray k n)\<lparr>swtmrResponseTime := v\<rparr>)\<rparr>)"

definition OsSortLinkInit :: "SortLinkType \<Rightarrow> kernel \<Rightarrow> u32 \<times> kernel" where
  "OsSortLinkInit type k = (LOS_OK, set_link type [] k)"

definition OsDeleteNodeSortLink :: "SortLinkType \<Rightarrow> nat \<Rightarrow> kernel \<Rightarrow> kernel" where
  "OsDeleteNodeSortLink type n k =
     SET_SORTLIST_VALUE type n OS_SORT_LINK_INVALID_TIME
       (set_link type (filter (\<lambda>x. x \<noteq> n) (OsGetSortLinkAttribute type k)) k)"

definition OsAdd2SortLink :: "nat \<Rightarrow> u64 \<Rightarrow> u32 \<Rightarrow> SortLinkType \<Rightarrow> kernel \<Rightarrow> kernel" where
  "OsAdd2SortLink n start waitTicks type k =
     (let k1 = SET_SORTLIST_VALUE type n (start + ucast waitTicks * ucast (OS_CYCLE_PER_TICK k)) k
      in set_link type (OsAddNode2SortLink (link_key type k1) n (OsGetSortLinkAttribute type k1)) k1)"

definition OsDeleteSortLink :: "nat \<Rightarrow> SortLinkType \<Rightarrow> kernel \<Rightarrow> kernel" where
  "OsDeleteSortLink n type k =
     (if link_key type k n \<noteq> OS_SORT_LINK_INVALID_TIME then OsDeleteNodeSortLink type n k else k)"

text \<open>The loop of \<^verbatim>\<open>OsGetSortLinkNextExpireTime\<close>: the pair of its locals
  \<^verbatim>\<open>expirTime\<close> and \<^verbatim>\<open>nextExpirTime\<close> at the end.\<close>

fun expire_scan :: "(nat \<Rightarrow> u64) \<Rightarrow> u64 \<Rightarrow> nat list \<Rightarrow> u64 \<Rightarrow> u64 \<times> u64" where
  "expire_scan key start [] expir = (expir, 0)"
| "expire_scan key start (x # xs) expir =
     (if key x \<le> start then expire_scan key start xs start else (expir, key x))"

definition OsGetSortLinkNextExpireTime :: "SortLinkType \<Rightarrow> u64 \<Rightarrow> kernel \<Rightarrow> u64" where
  "OsGetSortLinkNextExpireTime type start k =
     (let xs = OsGetSortLinkAttribute type k in
      if xs = [] then OS_SCHED_MAX_RESPONSE_TIME - ucast (OS_CYCLE_PER_TICK k)
      else
        let (expirTime, nextExpirTime) = expire_scan (link_key type k) start xs 0 in
        if expirTime = 0 then nextExpirTime
        else if nextExpirTime = 0 then expirTime
        else if nextExpirTime - expirTime \<le> OS_US_PER_TICK then nextExpirTime
        else expirTime)"

definition OsGetNextExpireTime :: "u64 \<Rightarrow> kernel \<Rightarrow> u64" where
  "OsGetNextExpireTime start k =
     (let taskExpirTime = OsGetSortLinkNextExpireTime OS_SORT_LINK_TASK start k;
          swtmrExpirTime = OsGetSortLinkNextExpireTime OS_SORT_LINK_SWTMR start k
      in if taskExpirTime < swtmrExpirTime then taskExpirTime else swtmrExpirTime)"

definition OsSortLinkGetTargetExpireTime :: "u64 \<Rightarrow> u64 \<Rightarrow> kernel \<Rightarrow> u32" where
  "OsSortLinkGetTargetExpireTime currTime target k =
     (if currTime \<ge> target then 0
      else ucast ((target - currTime) * ucast LOSCFG_BASE_CORE_TICK_PER_SECOND div ucast (sysClock k)))"

section \<open>Facts about the links\<close>

lemma link_simps [simp]:
  "OsGetSortLinkAttribute type (set_link type xs k) = xs"
  "link_key type (set_link type' xs k) = link_key type k"
  "OsGetSortLinkAttribute type (SET_SORTLIST_VALUE type' n v k) = OsGetSortLinkAttribute type k"
  "link_key type (SET_SORTLIST_VALUE type n v k) = (link_key type k)(n := v)"
  by (auto simp: OsGetSortLinkAttribute_def set_link_def link_key_def SET_SORTLIST_VALUE_def
      upd_tcb_def split: SortLinkType.splits)

text \<open>A link is well formed when it is sorted, has no duplicates and the time of its nodes is
  not the invalid one, by which the code recognises a node that is linked.\<close>

definition link_wf :: "SortLinkType \<Rightarrow> kernel \<Rightarrow> bool" where
  "link_wf type k \<longleftrightarrow>
     distinct (OsGetSortLinkAttribute type k) \<and>
     sorted_by (link_key type k) (OsGetSortLinkAttribute type k) \<and>
     (\<forall>n \<in> set (OsGetSortLinkAttribute type k). link_key type k n \<noteq> OS_SORT_LINK_INVALID_TIME)"

lemma sorted_by_filter: "sorted_by key xs \<Longrightarrow> sorted_by key (filter P xs)"
  by (rule sorted_filter)

lemma sorted_by_cong: "(\<And>x. x \<in> set xs \<Longrightarrow> f x = g x) \<Longrightarrow> sorted_by f xs = sorted_by g xs"
  by (simp cong: map_cong)

lemma sorted_by_upd: "n \<notin> set xs \<Longrightarrow> sorted_by (key(n := v)) xs = sorted_by key xs"
  by simp

lemma link_wfD:
  assumes "link_wf type k"
  shows "distinct (OsGetSortLinkAttribute type k)"
    and "sorted_by (link_key type k) (OsGetSortLinkAttribute type k)"
    and "n \<in> set (OsGetSortLinkAttribute type k) \<Longrightarrow> link_key type k n \<noteq> OS_SORT_LINK_INVALID_TIME"
  using assms unfolding link_wf_def by blast+

lemma link_wf_add:
  assumes wf: "link_wf type k" and notin: "n \<notin> set (OsGetSortLinkAttribute type k)"
    and t: "start + ucast ticks * ucast (OS_CYCLE_PER_TICK k) \<noteq> OS_SORT_LINK_INVALID_TIME"
  shows "link_wf type (OsAdd2SortLink n start ticks type k)"
proof -
  let ?t = "start + ucast ticks * ucast (OS_CYCLE_PER_TICK k)" and ?xs = "OsGetSortLinkAttribute type k"
  let ?key = "(link_key type k)(n := ?t)"
  have "sorted_by ?key ?xs" using notin link_wfD(2) [OF wf] by (simp add: sorted_by_upd)
  then have "sorted_by ?key (OsAddNode2SortLink ?key n ?xs)" by (rule sorted_OsAddNode2SortLink)
  moreover have "distinct (OsAddNode2SortLink ?key n ?xs)"
    using link_wfD(1) [OF wf] notin by (rule distinct_OsAddNode2SortLink)
  moreover have "m \<in> insert n (set ?xs) \<Longrightarrow> ?key m \<noteq> OS_SORT_LINK_INVALID_TIME" for m
    using link_wfD(3) [OF wf, of m] t by auto
  ultimately show ?thesis
    unfolding link_wf_def OsAdd2SortLink_def Let_def link_simps set_OsAddNode2SortLink by blast
qed

lemma link_wf_delete_node:
  assumes "link_wf type k"
  shows "link_wf type (OsDeleteNodeSortLink type n k)"
proof -
  let ?xs = "filter (\<lambda>x. x \<noteq> n) (OsGetSortLinkAttribute type k)"
  have "sorted_by (link_key type k) ?xs"
    using assms sorted_by_filter by (simp add: link_wf_def)
  then have "sorted_by ((link_key type k)(n := OS_SORT_LINK_INVALID_TIME)) ?xs"
    by (subst sorted_by_upd) simp_all
  moreover have "m \<in> set ?xs \<Longrightarrow> ((link_key type k)(n := OS_SORT_LINK_INVALID_TIME)) m \<noteq>
      OS_SORT_LINK_INVALID_TIME" for m
    using link_wfD(3) [OF assms, of m] by auto
  ultimately show ?thesis
    using link_wfD(1) [OF assms]
    unfolding link_wf_def OsDeleteNodeSortLink_def link_simps by (blast intro: distinct_filter)
qed

lemma link_wf_delete: "link_wf type k \<Longrightarrow> link_wf type (OsDeleteSortLink n type k)"
  by (simp add: OsDeleteSortLink_def link_wf_delete_node)

lemma OsDeleteSortLink_link:
  assumes "link_wf type k"
  shows "OsGetSortLinkAttribute type (OsDeleteSortLink n type k) =
    filter (\<lambda>x. x \<noteq> n) (OsGetSortLinkAttribute type k)"
    and "link_key type (OsDeleteSortLink n type k) =
      (link_key type k)(n := OS_SORT_LINK_INVALID_TIME)"
proof -
  have "filter (\<lambda>x. x \<noteq> n) (OsGetSortLinkAttribute type k) = OsGetSortLinkAttribute type k"
    if "link_key type k n = OS_SORT_LINK_INVALID_TIME"
    using link_wfD(3) [OF assms, of n] that by (intro filter_True) auto
  then show "OsGetSortLinkAttribute type (OsDeleteSortLink n type k) =
      filter (\<lambda>x. x \<noteq> n) (OsGetSortLinkAttribute type k)"
    and "link_key type (OsDeleteSortLink n type k) = (link_key type k)(n := OS_SORT_LINK_INVALID_TIME)"
    by (auto simp: OsDeleteSortLink_def OsDeleteNodeSortLink_def fun_upd_idem simp del: fun_upd_apply)
qed

text \<open>The next expiry: the first node still in the future when none has expired; the
  present when some have, except that a node due at most \<^verbatim>\<open>OS_US_PER_TICK\<close> cycles
  from now is waited for.\<close>

lemma expire_scan_split:
  "expire_scan key start (us @ vs) expir = (if us = [] then expir else start,
     if vs = [] then 0 else key (hd vs))"
  if "\<forall>x \<in> set us. key x \<le> start" "vs \<noteq> [] \<longrightarrow> start < key (hd vs)"
  using that
proof (induction us arbitrary: expir)
  case Nil
  then show ?case by (cases vs) auto
qed auto

lemma expire_scan_sorted:
  assumes "sorted_by key xs"
  shows "expire_scan key start xs expir =
    (if \<exists>x \<in> set xs. key x \<le> start then start else expir,
     case filter (\<lambda>x. start < key x) xs of [] \<Rightarrow> 0 | y # _ \<Rightarrow> key y)"
  using assms
proof (induction xs arbitrary: expir)
  case (Cons x xs)
  show ?case
  proof (cases "key x \<le> start")
    case True
    with Cons show ?thesis by (simp add: not_le [symmetric])
  next
    case False
    with Cons.prems have "\<forall>y \<in> set xs. \<not> key y \<le> start" by fastforce
    with False show ?thesis by auto
  qed
qed simp

end
