(* ===== verification/Los_Sched.thy ===== *)
theory Los_Sched
  imports Los_SortLink
begin

text \<open>
  \<^verbatim>\<open>LiteOS/kernel/src/los_sched.c\<close> with the parts of the port it calls
  (\<^verbatim>\<open>arch/risc-v/V4A/gcc/los_timer.c\<close>, \<^verbatim>\<open>los_context.c\<close>): the
  priority queues and their bitmap, waiting and waking, the scan of sleeping tasks, the
  choice of the next task and the programming of the tick timer.

  A \<^verbatim>\<open>LOS_ASSERT\<close> that fails stops the machine; the model records it in
  \<open>assertFailed\<close> and goes on, so that a state with the flag off is one in which every
  assertion has held.  The one function ever registered as
  \<^verbatim>\<open>SchedRealSleepTimeSet\<close> is \<^verbatim>\<open>OsPmSleepTimeSet\<close> of
  \<^verbatim>\<open>components/power/los_pm.c\<close>.  Hooks are compiled out.
\<close>

section \<open>Constants and the port\<close>

definition OS_PRIORITY_QUEUE_NUM :: nat where "OS_PRIORITY_QUEUE_NUM = 32"
definition PRIQUEUE_PRIOR0_BIT :: u32 where "PRIQUEUE_PRIOR0_BIT = 0x80000000"
definition OS_TICK_RESPONSE_TIME_MAX :: u64 where "OS_TICK_RESPONSE_TIME_MAX = 0xFFFFFF"

definition OS_NS_PER_CYCLE :: "kernel \<Rightarrow> u32" where
  "OS_NS_PER_CYCLE k = 1000000000 div sysClock k"

definition OS_SCHED_TIME_SLICES :: "kernel \<Rightarrow> u32" where
  "OS_SCHED_TIME_SLICES k = (20000 * 1000) div OS_NS_PER_CYCLE k"

definition OS_TIME_SLICE_MIN :: "kernel \<Rightarrow> i32" where
  "OS_TIME_SLICE_MIN k = (50 * 1000) div OS_NS_PER_CYCLE k"

definition LOS_ASSERT :: "bool \<Rightarrow> kernel \<Rightarrow> kernel" where
  "LOS_ASSERT judge k = (if judge then k else k\<lparr>assertFailed := True\<rparr>)"

definition HalGetTickCycle :: "kernel \<Rightarrow> u64 \<times> u32" where
  "HalGetTickCycle k = (SysTick_CNT k, ucast (SysTick_CMP k))"

definition HalSysTickReload :: "u64 \<Rightarrow> kernel \<Rightarrow> kernel" where
  "HalSysTickReload nextResponseTime k = k\<lparr>SysTick_CMP := nextResponseTime - 1, SysTick_CNT := 0\<rparr>"

definition HalTaskSchedule :: "kernel \<Rightarrow> kernel" where
  "HalTaskSchedule k = k\<lparr>swiPending := True\<rparr>"

text \<open>\<^verbatim>\<open>__builtin_clz\<close>: the number of leading zero bits.\<close>

definition CLZ :: "u32 \<Rightarrow> nat" where
  "CLZ w = length (takeWhile (\<lambda>i. \<not> bit w i) (rev [0..<32]))"

section \<open>Time\<close>

definition OsSchedUpdateSchedTimeBase :: "kernel \<Rightarrow> kernel" where
  "OsSchedUpdateSchedTimeBase k =
     k\<lparr>g_schedTimerBase := g_schedTimerBase k + ucast (snd (HalGetTickCycle k))\<rparr>"

definition OsSchedTimerBaseReset :: "u64 \<Rightarrow> kernel \<Rightarrow> kernel" where
  "OsSchedTimerBaseReset currTime k =
     (LOS_ASSERT (currTime > g_schedTimerBase k) k)
       \<lparr>g_schedTimerBase := currTime, g_schedResponseTime := OS_SCHED_MAX_RESPONSE_TIME\<rparr>"

definition OsGetCurrSchedTimeCycle :: "kernel \<Rightarrow> u64 \<times> kernel" where
  "OsGetCurrSchedTimeCycle k =
     (if \<not> g_taskScheduled k then (0, k)
      else
        let (time, period) = HalGetTickCycle k;
            k1 = (if g_schedTimerBase k + time < oldSchedTime k
                  then k\<lparr>g_schedTimerBase := g_schedTimerBase k + ucast period\<rparr> else k);
            schedTime = g_schedTimerBase k1 + time;
            k2 = LOS_ASSERT (schedTime \<ge> oldSchedTime k1) k1
        in (schedTime, k2\<lparr>oldSchedTime := schedTime\<rparr>))"

definition OsTimeSliceUpdate :: "nat \<Rightarrow> u64 \<Rightarrow> kernel \<Rightarrow> kernel" where
  "OsTimeSliceUpdate t currTime k =
     (let k1 = LOS_ASSERT (currTime \<ge> startTime (tcb k t)) k;
          incTime = (ucast (currTime - startTime (tcb k t)) :: i32);
          k2 = (if taskID (tcb k1 t) \<noteq> g_idleTaskID k1
                then upd_tcb t (\<lambda>c. c\<lparr>timeSlice := timeSlice c - incTime\<rparr>) k1 else k1)
      in upd_tcb t (\<lambda>c. c\<lparr>startTime := currTime\<rparr>) k2)"

definition OsPmSleepTimeSet :: "u64 \<Rightarrow> kernel \<Rightarrow> kernel" where
  "OsPmSleepTimeSet sleepTime k = k\<lparr>g_pmSleepTime := sleepTime\<rparr>"

text \<open>Registration takes a function pointer; \<open>False\<close> stands for \<^verbatim>\<open>NULL\<close>.\<close>

definition OsSchedRealSleepTimeSet :: "bool \<Rightarrow> kernel \<Rightarrow> u32 \<times> kernel" where
  "OsSchedRealSleepTimeSet func k =
     (if \<not> func then (LOS_NOK, k) else (LOS_OK, k\<lparr>sleepTimeSetSet := True\<rparr>))"

definition SchedRealSleepTimeSet :: "u64 \<Rightarrow> kernel \<Rightarrow> kernel" where
  "SchedRealSleepTimeSet sleepTime k =
     (if sleepTimeSetSet k then OsPmSleepTimeSet sleepTime k else k)"

definition OsSchedSetNextExpireTime :: "u64 \<Rightarrow> u32 \<Rightarrow> u64 \<Rightarrow> bool \<Rightarrow> kernel \<Rightarrow> kernel" where
  "OsSchedSetNextExpireTime start responseID taskEndTime timeUpdate k =
     (let expire0 = OsGetNextExpireTime start k;
          isTimeSlice = (taskEndTime < expire0);
          expire = (if isTimeSlice then taskEndTime else expire0);
          tick = (ucast (OS_CYCLE_PER_TICK k) :: u64);
          finish = (\<lambda>nextResponseTime nextExpireTime k.
            let k1 = k\<lparr>g_schedResponseID := (if isTimeSlice then responseID else OS_INVALID),
                       g_schedResponseTime := nextExpireTime\<rparr>;
                k2 = (if timeUpdate
                      then let (now, k') = OsGetCurrSchedTimeCycle k1 in k'\<lparr>g_schedTimerBase := now\<rparr>
                      else k1)
            in HalSysTickReload nextResponseTime k2)
      in
        if g_schedResponseTime k > expire \<and> g_schedResponseTime k - expire \<ge> tick then
          let nextResponseTime = expire - start in
          if nextResponseTime > OS_TICK_RESPONSE_TIME_MAX
          then finish OS_TICK_RESPONSE_TIME_MAX (start + OS_TICK_RESPONSE_TIME_MAX)
                 (SchedRealSleepTimeSet nextResponseTime k)
          else if nextResponseTime < tick
          then let k' = SchedRealSleepTimeSet 0 k in
               if start + tick \<ge> g_schedResponseTime k' then k' else finish tick (start + tick) k'
          else finish nextResponseTime expire k
        else k)"

definition OsSchedUpdateExpireTime :: "u64 \<Rightarrow> bool \<Rightarrow> kernel \<Rightarrow> kernel" where
  "OsSchedUpdateExpireTime start timeUpdate k =
     (let c = tcb k (runTask k);
          slice = (if timeSlice c \<le>s OS_TIME_SLICE_MIN k then OS_SCHED_TIME_SLICES k else timeSlice c);
          endTime = (if taskID c \<noteq> g_idleTaskID k then start + scast slice
                     else OS_SCHED_MAX_RESPONSE_TIME - ucast (OS_CYCLE_PER_TICK k))
      in OsSchedSetNextExpireTime start (taskID c) endTime timeUpdate k)"

section \<open>The priority queues\<close>

definition OsSchedPriQueueEnHead :: "nat \<Rightarrow> nat \<Rightarrow> kernel \<Rightarrow> kernel" where
  "OsSchedPriQueueEnHead t prio k =
     (let k1 = (if pend k (PriQueue prio) = []
                then k\<lparr>g_queueBitmap := g_queueBitmap k OR drop_bit prio PRIQUEUE_PRIOR0_BIT\<rparr> else k)
      in pend_head (PriQueue prio) t k1)"

definition OsSchedPriQueueEnTail :: "nat \<Rightarrow> nat \<Rightarrow> kernel \<Rightarrow> kernel" where
  "OsSchedPriQueueEnTail t prio k =
     (let k1 = (if pend k (PriQueue prio) = []
                then k\<lparr>g_queueBitmap := g_queueBitmap k OR drop_bit prio PRIQUEUE_PRIOR0_BIT\<rparr> else k)
      in pend_tail (PriQueue prio) t k1)"

definition OsSchedPriQueueDelete :: "nat \<Rightarrow> nat \<Rightarrow> kernel \<Rightarrow> kernel" where
  "OsSchedPriQueueDelete t prio k =
     (let k1 = pend_del t k in
      if pend k1 (PriQueue prio) = []
      then k1\<lparr>g_queueBitmap := clr (g_queueBitmap k1) (drop_bit prio PRIQUEUE_PRIOR0_BIT)\<rparr> else k1)"

definition OsSchedTaskEnQueue :: "nat \<Rightarrow> kernel \<Rightarrow> kernel" where
  "OsSchedTaskEnQueue t k =
     (let k1 = LOS_ASSERT (\<not> tst (status k t) OS_TASK_STATUS_READY) k;
          prio = unat (priority (tcb k1 t));
          k2 = (if taskID (tcb k1 t) \<noteq> g_idleTaskID k1 then
                  if OS_TIME_SLICE_MIN k1 <s timeSlice (tcb k1 t)
                  then OsSchedPriQueueEnHead t prio k1
                  else OsSchedPriQueueEnTail t prio
                         (upd_tcb t (\<lambda>c. c\<lparr>timeSlice := OS_SCHED_TIME_SLICES k1\<rparr>) k1)
                else k1);
          k3 = clr_status t (OS_TASK_STATUS_PEND OR OS_TASK_STATUS_SUSPEND OR
                 OS_TASK_STATUS_DELAY OR OS_TASK_STATUS_PEND_TIME) k2
      in set_status t OS_TASK_STATUS_READY k3)"

definition OsSchedTaskDeQueue :: "nat \<Rightarrow> kernel \<Rightarrow> kernel" where
  "OsSchedTaskDeQueue t k =
     (if tst (status k t) OS_TASK_STATUS_READY then
        clr_status t OS_TASK_STATUS_READY
          (if taskID (tcb k t) \<noteq> g_idleTaskID k
           then OsSchedPriQueueDelete t (unat (priority (tcb k t))) k else k)
      else k)"

definition OsSchedTaskExit :: "nat \<Rightarrow> kernel \<Rightarrow> kernel" where
  "OsSchedTaskExit t k =
     (let k1 = (if tst (status k t) OS_TASK_STATUS_READY then OsSchedTaskDeQueue t k
                else if tst (status k t) OS_TASK_STATUS_PEND
                then clr_status t OS_TASK_STATUS_PEND (pend_del t k) else k)
      in if tst (status k1 t) (OS_TASK_STATUS_DELAY OR OS_TASK_STATUS_PEND_TIME)
         then clr_status t (OS_TASK_STATUS_DELAY OR OS_TASK_STATUS_PEND_TIME)
                (OsDeleteSortLink t OS_SORT_LINK_TASK k1)
         else k1)"

definition OsSchedYield :: "kernel \<Rightarrow> kernel" where
  "OsSchedYield k = upd_tcb (runTask k) (\<lambda>c. c\<lparr>timeSlice := 0\<rparr>) k"

definition OsSchedDelay :: "nat \<Rightarrow> u32 \<Rightarrow> kernel \<Rightarrow> kernel" where
  "OsSchedDelay t tick k =
     upd_tcb t (\<lambda>c. c\<lparr>waitTimes := tick\<rparr>) (set_status t OS_TASK_STATUS_DELAY k)"

definition OsSchedTaskWait :: "list_id \<Rightarrow> u32 \<Rightarrow> kernel \<Rightarrow> kernel" where
  "OsSchedTaskWait l ticks k =
     (let t = runTask k;
          k1 = pend_tail l t (set_status t OS_TASK_STATUS_PEND k)
      in if ticks \<noteq> LOS_WAIT_FOREVER
         then upd_tcb t (\<lambda>c. c\<lparr>waitTimes := ticks\<rparr>) (set_status t OS_TASK_STATUS_PEND_TIME k1)
         else k1)"

definition OsSchedTaskWake :: "nat \<Rightarrow> kernel \<Rightarrow> kernel" where
  "OsSchedTaskWake t k =
     (let k1 = clr_status t OS_TASK_STATUS_PEND (pend_del t k);
          k2 = (if tst (status k1 t) OS_TASK_STATUS_PEND_TIME
                then clr_status t OS_TASK_STATUS_PEND_TIME (OsDeleteSortLink t OS_SORT_LINK_TASK k1)
                else k1)
      in if \<not> tst (status k2 t) OS_TASK_STATUS_SUSPEND \<and> \<not> tst (status k2 t) OS_TASK_STATUS_RUNNING
         then OsSchedTaskEnQueue t k2 else k2)"

definition OsSchedModifyTaskSchedParam :: "nat \<Rightarrow> u16 \<Rightarrow> kernel \<Rightarrow> bool \<times> kernel" where
  "OsSchedModifyTaskSchedParam t prio k =
     (let setp = upd_tcb t (\<lambda>c. c\<lparr>priority := prio\<rparr>) in
      if tst (status k t) OS_TASK_STATUS_READY
      then (True, OsSchedTaskEnQueue t (setp (OsSchedTaskDeQueue t k)))
      else let k1 = setp k in (tst (status k1 t) OS_TASK_STATUS_RUNNING, k1))"

definition OsSchedSetIdleTaskSchedParam :: "nat \<Rightarrow> kernel \<Rightarrow> kernel" where
  "OsSchedSetIdleTaskSchedParam t = OsSchedTaskEnQueue t"

definition OsSchedSwtmrScanRegister :: "bool \<Rightarrow> kernel \<Rightarrow> u32 \<times> kernel" where
  "OsSchedSwtmrScanRegister func k =
     (if \<not> func then (LOS_NOK, k) else (LOS_OK, k\<lparr>swtmrScanSet := True\<rparr>))"

definition OsSchedInit :: "kernel \<Rightarrow> u32 \<times> kernel" where
  "OsSchedInit k =
     (let k1 = k\<lparr>pend := (\<lambda>l. case l of PriQueue p \<Rightarrow> [] | _ \<Rightarrow> pend k l), g_queueBitmap := 0\<rparr>;
          (_, k2) = OsSortLinkInit OS_SORT_LINK_TASK k1
      in (LOS_OK, k2\<lparr>g_schedResponseTime := OS_SCHED_MAX_RESPONSE_TIME\<rparr>))"

definition OsGetTopTask :: "kernel \<Rightarrow> nat" where
  "OsGetTopTask k =
     (if g_queueBitmap k \<noteq> 0 then hd (pend k (PriQueue (CLZ (g_queueBitmap k))))
      else unat (g_idleTaskID k))"

section \<open>Sleeping tasks\<close>

definition OsSchedWakePendTimeTask :: "nat \<Rightarrow> bool \<Rightarrow> kernel \<Rightarrow> bool \<times> kernel" where
  "OsSchedWakePendTimeTask t needSchedule k =
     (let tempStatus = status k t in
      if tst tempStatus (OS_TASK_STATUS_PEND OR OS_TASK_STATUS_DELAY) then
        let k1 = clr_status t (OS_TASK_STATUS_PEND OR OS_TASK_STATUS_PEND_TIME OR OS_TASK_STATUS_DELAY) k;
            k2 = (if tst tempStatus OS_TASK_STATUS_PEND
                  then upd_tcb t (\<lambda>c. c\<lparr>taskMux := None, taskSem := None\<rparr>)
                         (pend_del t (set_status t OS_TASK_STATUS_TIMEOUT k1))
                  else k1)
        in if \<not> tst tempStatus OS_TASK_STATUS_SUSPEND then (True, OsSchedTaskEnQueue t k2)
           else (needSchedule, k2)
      else (needSchedule, k))"

lemma taskSortLink_upd [simp]:
  "taskSortLink (upd_tcb t f k) = taskSortLink k"
  "taskSortLink (pend_del t k) = taskSortLink k"
  "taskSortLink (pend_head l t k) = taskSortLink k"
  "taskSortLink (pend_tail l t k) = taskSortLink k"
  "taskSortLink (set_status t m k) = taskSortLink k"
  "taskSortLink (clr_status t m k) = taskSortLink k"
  "taskSortLink (LOS_ASSERT b k) = taskSortLink k"
  by (simp_all add: upd_tcb_def pend_del_def pend_head_def pend_tail_def set_status_def
      clr_status_def LOS_ASSERT_def)

lemma taskSortLink_EnQueue [simp]: "taskSortLink (OsSchedTaskEnQueue t k) = taskSortLink k"
  by (simp add: OsSchedTaskEnQueue_def OsSchedPriQueueEnHead_def OsSchedPriQueueEnTail_def Let_def)

lemma taskSortLink_WakePendTime [simp]:
  "taskSortLink (snd (OsSchedWakePendTimeTask t b k)) = taskSortLink k"
  by (simp add: OsSchedWakePendTimeTask_def Let_def)

lemma taskSortLink_DeleteNode [simp]:
  "taskSortLink (OsDeleteNodeSortLink OS_SORT_LINK_TASK t k) = filter (\<lambda>x. x \<noteq> t) (taskSortLink k)"
  by (simp add: OsDeleteNodeSortLink_def SET_SORTLIST_VALUE_def set_link_def OsGetSortLinkAttribute_def)

text \<open>The loop of \<^verbatim>\<open>OsSchedScanTimerList\<close>.\<close>

function scan_timer_loop :: "u64 \<Rightarrow> bool \<Rightarrow> kernel \<Rightarrow> bool \<times> kernel" where
  "scan_timer_loop currTime needSchedule k =
     (case taskSortLink k of
        [] \<Rightarrow> (needSchedule, k)
      | t # _ \<Rightarrow>
          if responseTime (tcb k t) \<le> currTime
          then let r = OsSchedWakePendTimeTask t needSchedule (OsDeleteNodeSortLink OS_SORT_LINK_TASK t k)
               in scan_timer_loop currTime (fst r) (snd r)
          else (needSchedule, k))"
  by pat_completeness auto
termination
  by (relation "measure (\<lambda>(_, _, k). length (taskSortLink k))")
    (simp_all add: split_beta less_Suc_eq_le)

declare scan_timer_loop.simps [simp del]

definition OsSchedScanTimerList :: "kernel \<Rightarrow> bool \<times> kernel" where
  "OsSchedScanTimerList k =
     (if taskSortLink k = [] then (False, k)
      else let (currTime, k1) = OsGetCurrSchedTimeCycle k in scan_timer_loop currTime False k1)"

section \<open>Switching\<close>

definition OsSchedStart :: "kernel \<Rightarrow> kernel" where
  "OsSchedStart k =
     (let t = OsGetTopTask k;
          k1 = (set_status t OS_TASK_STATUS_RUNNING k)
                 \<lparr>newTask := t, runTask := t, g_taskScheduled := True\<rparr>;
          (now, k2) = OsGetCurrSchedTimeCycle k1;
          k3 = OsSchedTaskDeQueue t (upd_tcb t (\<lambda>c. c\<lparr>startTime := now\<rparr>) k2);
          k4 = k3\<lparr>g_schedResponseTime := OS_SCHED_MAX_RESPONSE_TIME, g_schedResponseID := OS_INVALID\<rparr>;
          c = tcb k4 t
      in OsSchedSetNextExpireTime (startTime c) (taskID c) (startTime c + scast (timeSlice c)) True k4)"

definition OsSchedTaskSwitch :: "kernel \<Rightarrow> bool \<times> kernel" where
  "OsSchedTaskSwitch k =
     (let t = runTask k;
          (now, k1) = OsGetCurrSchedTimeCycle k;
          k2 = OsTimeSliceUpdate t now k1;
          k3 = (if tst (status k2 t) (OS_TASK_STATUS_PEND_TIME OR OS_TASK_STATUS_DELAY)
                then OsAdd2SortLink t (startTime (tcb k2 t)) (waitTimes (tcb k2 t)) OS_SORT_LINK_TASK k2
                else if \<not> tst (status k2 t)
                       (OS_TASK_STATUS_PEND OR OS_TASK_STATUS_SUSPEND OR OS_TASK_STATUS_UNUSED)
                then OsSchedTaskEnQueue t k2 else k2);
          t' = OsGetTopTask k3;
          k4 = k3\<lparr>newTask := t'\<rparr>;
          k5 = (if t \<noteq> t'
                then upd_tcb t' (\<lambda>c. c\<lparr>startTime := startTime (tcb k4 t)\<rparr>)
                       (set_status t' OS_TASK_STATUS_RUNNING (clr_status t OS_TASK_STATUS_RUNNING k4))
                else k4);
          k6 = OsSchedTaskDeQueue t' k5;
          c = tcb k6 t';
          endTime = (if taskID c \<noteq> g_idleTaskID k6 then startTime c + scast (timeSlice c)
                     else OS_SCHED_MAX_RESPONSE_TIME - ucast (OS_CYCLE_PER_TICK k6))
      in (t \<noteq> t', OsSchedSetNextExpireTime (startTime c) (taskID c) endTime True k6))"

text \<open>\<^verbatim>\<open>HalTaskSwitch\<close> of \<^verbatim>\<open>los_context.c\<close>, the body of the software interrupt.\<close>

definition HalTaskSwitch :: "kernel \<Rightarrow> kernel" where
  "HalTaskSwitch k = (let k1 = snd (OsSchedTaskSwitch k) in k1\<lparr>runTask := newTask k1\<rparr>)"

definition OsSortLinkGetNextExpireTime :: "SortLinkType \<Rightarrow> kernel \<Rightarrow> u32 \<times> kernel" where
  "OsSortLinkGetNextExpireTime type k =
     (case OsGetSortLinkAttribute type k of
        [] \<Rightarrow> (0, k)
      | n # _ \<Rightarrow> let (now, k1) = OsGetCurrSchedTimeCycle k
                 in (OsSortLinkGetTargetExpireTime now (link_key type k1 n) k1, k1))"

definition OsTaskNextSwitchTimeGet :: "kernel \<Rightarrow> u32 \<times> kernel" where
  "OsTaskNextSwitchTimeGet k = OsSortLinkGetNextExpireTime OS_SORT_LINK_TASK k"

definition OS_SYS_CYCLE_TO_NS :: "u64 \<Rightarrow> u32 \<Rightarrow> kernel \<Rightarrow> u64" where
  "OS_SYS_CYCLE_TO_NS cycle freq k =
     (cycle div ucast freq) * 1000000000 + (cycle mod ucast (sysClock k)) * 1000000000 div ucast freq"

definition LOS_SchedTickTimeoutNsGet :: "kernel \<Rightarrow> u64 \<times> kernel" where
  "LOS_SchedTickTimeoutNsGet k =
     (let (currTime, k1) = OsGetCurrSchedTimeCycle k;
          resp = (if g_schedResponseTime k > currTime then g_schedResponseTime k - currTime else 0)
      in (OS_SYS_CYCLE_TO_NS resp (sysClock k1) k1, k1))"

definition LOS_CHECK_SCHEDULE :: "kernel \<Rightarrow> bool" where
  "LOS_CHECK_SCHEDULE k \<longleftrightarrow> g_losTaskLock k = 0"

text \<open>The tick interrupt; \<open>swtmrScan\<close> is the function registered in \<^verbatim>\<open>g_swtmrScan\<close>.\<close>

definition LOS_SchedTickHandler :: "(kernel \<Rightarrow> bool \<times> kernel) \<Rightarrow> kernel \<Rightarrow> kernel" where
  "LOS_SchedTickHandler swtmrScan k =
     (let k0 = LOS_ASSERT (g_taskScheduled k) k;
          (needSched, k1) =
            (if g_schedResponseID k0 = OS_INVALID then
               let (n1, k') = (if swtmrScanSet k0 then swtmrScan k0 else (False, k0));
                   (n2, k'') = OsSchedScanTimerList k'
               in (n1 \<or> n2, k'')
             else (False, k0));
          k2 = k1\<lparr>g_schedResponseTime := OS_SCHED_MAX_RESPONSE_TIME\<rparr>
      in if needSched \<and> LOS_CHECK_SCHEDULE k2 then HalTaskSchedule k2
         else let (currTime, k3) = OsGetCurrSchedTimeCycle k2
              in OsSchedUpdateExpireTime currTime True (OsTimeSliceUpdate (runTask k3) currTime k3))"

definition LOS_Schedule :: "kernel \<Rightarrow> kernel" where
  "LOS_Schedule k = (if g_taskScheduled k \<and> LOS_CHECK_SCHEDULE k then HalTaskSchedule k else k)"

end
