(* ===== verification/Sched_Inv.thy ===== *)
theory Sched_Inv
  imports Los_Sched
begin

text \<open>
  The scheduler's invariant and its preservation by the operations of \<open>Los_Sched\<close>.
  \<open>sched_inv\<close> ties the status word of each task to the one list its \<^verbatim>\<open>pendList\<close> node is
  in, the bitmap to the priority queues, and the sort link to the tasks that sleep.
  Everything it reads is collected in \<open>sched_view\<close>, so that an operation which leaves
  the view alone keeps the invariant for free.
\<close>

section \<open>Reading a kernel state\<close>

abbreviation ready :: "kernel \<Rightarrow> nat \<Rightarrow> bool" where "ready k t \<equiv> bit (status k t) 2"
abbreviation pending :: "kernel \<Rightarrow> nat \<Rightarrow> bool" where "pending k t \<equiv> bit (status k t) 3"
abbreviation running :: "kernel \<Rightarrow> nat \<Rightarrow> bool" where "running k t \<equiv> bit (status k t) 4"

abbreviation prio :: "kernel \<Rightarrow> nat \<Rightarrow> nat" where "prio k t \<equiv> unat (priority (tcb k t))"
abbreviation is_idle :: "kernel \<Rightarrow> nat \<Rightarrow> bool" where "is_idle k t \<equiv> taskID (tcb k t) = g_idleTaskID k"

text \<open>Which list a task may be in, as its status word says.\<close>

definition list_ok :: "kernel \<Rightarrow> nat \<Rightarrow> list_id \<Rightarrow> bool" where
  "list_ok k t l \<longleftrightarrow>
     (case l of PriQueue p \<Rightarrow> ready k t \<and> \<not> is_idle k t \<and> p = prio k t
      | FreeTask \<Rightarrow> bit (status k t) 0 | RecycleTask \<Rightarrow> bit (status k t) 0
      | _ \<Rightarrow> pending k t)"

definition task_wf :: "kernel \<Rightarrow> nat \<Rightarrow> bool" where
  "task_wf k t \<longleftrightarrow>
     (\<not> bit (status k t) 0 \<longrightarrow> prio k t < 32) \<and>
     (\<forall>l. t \<in> set (pend k l) \<longrightarrow> list_ok k t l) \<and>
     (ready k t \<and> \<not> is_idle k t \<longrightarrow> t \<in> set (pend k (PriQueue (prio k t)))) \<and>
     (pending k t \<longrightarrow> (\<exists>l. is_wait_list l \<and> t \<in> set (pend k l))) \<and>
     (ready k t \<longrightarrow> (\<forall>b \<in> {0, 1, 3, 5, 7}. \<not> bit (status k t) b)) \<and>
     (bit (status k t) 0 \<longrightarrow> (\<forall>b \<in> {3, 5, 7}. \<not> bit (status k t) b)) \<and>
     (pending k t \<longrightarrow> \<not> bit (status k t) 5) \<and> (bit (status k t) 7 \<longrightarrow> pending k t) \<and>
     (t \<in> set (taskSortLink k) \<longrightarrow> bit (status k t) 5 \<or> bit (status k t) 7) \<and>
     (bit (status k t) 5 \<or> bit (status k t) 7 \<longrightarrow> t \<in> set (taskSortLink k) \<or> running k t)"

definition bitmap_wf :: "kernel \<Rightarrow> bool" where
  "bitmap_wf k \<longleftrightarrow>
     (\<forall>p < 32. bit (g_queueBitmap k) (31 - p) \<longleftrightarrow> pend k (PriQueue p) \<noteq> []) \<and>
     (\<forall>p \<ge> 32. pend k (PriQueue p) = [])"

definition sched_inv :: "kernel \<Rightarrow> bool" where
  "sched_inv k \<longleftrightarrow> pl_disjoint (pend k) \<and> bitmap_wf k \<and> link_wf OS_SORT_LINK_TASK k \<and> (\<forall>t. task_wf k t)"

lemma sched_invD:
  assumes "sched_inv k"
  shows "pl_disjoint (pend k)" "bitmap_wf k" "link_wf OS_SORT_LINK_TASK k" "task_wf k t"
  using assms unfolding sched_inv_def by blast+

lemma task_wfD:
  assumes "task_wf k t"
  shows "\<not> bit (status k t) 0 \<Longrightarrow> prio k t < 32" "t \<in> set (pend k l) \<Longrightarrow> list_ok k t l"
    "ready k t \<Longrightarrow> \<not> is_idle k t \<Longrightarrow> t \<in> set (pend k (PriQueue (prio k t)))"
    "pending k t \<Longrightarrow> \<exists>l. is_wait_list l \<and> t \<in> set (pend k l)"
    "ready k t \<Longrightarrow> \<not> bit (status k t) 0 \<and> \<not> bit (status k t) 1 \<and> \<not> pending k t \<and>
       \<not> bit (status k t) 5 \<and> \<not> bit (status k t) 7"
    "bit (status k t) 0 \<Longrightarrow> \<not> pending k t \<and> \<not> bit (status k t) 5 \<and> \<not> bit (status k t) 7"
    "pending k t \<Longrightarrow> \<not> bit (status k t) 5" "bit (status k t) 7 \<Longrightarrow> pending k t"
    "t \<in> set (taskSortLink k) \<Longrightarrow> bit (status k t) 5 \<or> bit (status k t) 7"
    "bit (status k t) 5 \<or> bit (status k t) 7 \<Longrightarrow> t \<in> set (taskSortLink k) \<or> running k t"
  using assms unfolding task_wf_def by (blast | metis insertCI)+

lemma list_ok_wait: "is_wait_list l \<Longrightarrow> list_ok k t l \<longleftrightarrow> pending k t"
  by (cases l) (simp_all add: list_ok_def)

lemma sched_invI:
  "pl_disjoint (pend k) \<Longrightarrow> bitmap_wf k \<Longrightarrow> link_wf OS_SORT_LINK_TASK k \<Longrightarrow> (\<And>t. task_wf k t) \<Longrightarrow>
   sched_inv k"
  unfolding sched_inv_def by blast

section \<open>The view\<close>

type_synonym task_view = "u16 \<times> u16 \<times> u64 \<times> u32"

definition task_view :: "kernel \<Rightarrow> nat \<Rightarrow> task_view" where
  "task_view k t = (taskStatus (tcb k t), priority (tcb k t), responseTime (tcb k t), taskID (tcb k t))"

definition sched_view :: "kernel \<Rightarrow> (nat \<Rightarrow> task_view) \<times> (list_id \<Rightarrow> nat list) \<times> u32 \<times> nat list \<times> u32" where
  "sched_view k = (task_view k, pend k, g_queueBitmap k, taskSortLink k, g_idleTaskID k)"

lemma sched_viewD:
  assumes "sched_view k' = sched_view k"
  shows "taskStatus (tcb k' t) = taskStatus (tcb k t)" "priority (tcb k' t) = priority (tcb k t)"
    "responseTime (tcb k' t) = responseTime (tcb k t)" "taskID (tcb k' t) = taskID (tcb k t)"
    "pend k' = pend k" "g_queueBitmap k' = g_queueBitmap k" "taskSortLink k' = taskSortLink k"
    "g_idleTaskID k' = g_idleTaskID k"
proof -
  have "task_view k' t = task_view k t" using assms by (metis sched_view_def fst_conv)
  then show "taskStatus (tcb k' t) = taskStatus (tcb k t)" "priority (tcb k' t) = priority (tcb k t)"
    "responseTime (tcb k' t) = responseTime (tcb k t)" "taskID (tcb k' t) = taskID (tcb k t)"
    by (simp_all add: task_view_def)
qed (use assms in \<open>simp_all add: sched_view_def\<close>)

lemma sched_inv_view: "sched_view k' = sched_view k \<Longrightarrow> sched_inv k \<Longrightarrow> sched_inv k'"
proof -
  assume v: "sched_view k' = sched_view k" and inv: "sched_inv k"
  note eq = sched_viewD [OF v]
  have "link_wf OS_SORT_LINK_TASK k' \<longleftrightarrow> link_wf OS_SORT_LINK_TASK k"
  proof -
    have "link_key OS_SORT_LINK_TASK k' = link_key OS_SORT_LINK_TASK k"
      by (rule ext) (simp add: link_key_def eq)
    then show ?thesis by (simp add: link_wf_def OsGetSortLinkAttribute_def eq)
  qed
  moreover have "task_wf k' t \<longleftrightarrow> task_wf k t" for t
    by (simp add: task_wf_def list_ok_def eq cong: list_id.case_cong)
  ultimately show "sched_inv k'"
    using inv by (simp add: sched_inv_def bitmap_wf_def eq)
qed

lemma task_view_eqI:
  assumes "\<And>t. taskStatus (tcb k' t) = taskStatus (tcb k t) \<and> priority (tcb k' t) = priority (tcb k t) \<and>
      responseTime (tcb k' t) = responseTime (tcb k t) \<and> taskID (tcb k' t) = taskID (tcb k t)"
  shows "task_view k' = task_view k"
  using assms by (auto simp: task_view_def)

lemma sched_viewI:
  assumes "\<And>t. taskStatus (tcb k' t) = taskStatus (tcb k t) \<and> priority (tcb k' t) = priority (tcb k t) \<and>
      responseTime (tcb k' t) = responseTime (tcb k t) \<and> taskID (tcb k' t) = taskID (tcb k t)"
    and "pend k' = pend k" "g_queueBitmap k' = g_queueBitmap k" "taskSortLink k' = taskSortLink k"
    "g_idleTaskID k' = g_idleTaskID k"
  shows "sched_view k' = sched_view k"
  using task_view_eqI [OF assms(1)] assms(2-) by (simp add: sched_view_def)

lemma view_LOS_ASSERT [simp]: "sched_view (LOS_ASSERT b k) = sched_view k"
  by (rule sched_viewI) (simp_all add: LOS_ASSERT_def)

lemma view_HalTaskSchedule [simp]: "sched_view (HalTaskSchedule k) = sched_view k"
  by (rule sched_viewI) (simp_all add: HalTaskSchedule_def)

lemma view_LOS_Schedule [simp]: "sched_view (LOS_Schedule k) = sched_view k"
  by (simp add: LOS_Schedule_def)

lemma view_HalSysTickReload [simp]: "sched_view (HalSysTickReload n k) = sched_view k"
  by (rule sched_viewI) (simp_all add: HalSysTickReload_def)

lemma view_OsGetCurrSchedTimeCycle [simp]: "sched_view (snd (OsGetCurrSchedTimeCycle k)) = sched_view k"
  by (rule sched_viewI) (simp_all add: OsGetCurrSchedTimeCycle_def HalGetTickCycle_def LOS_ASSERT_def Let_def)

lemma view_OsTimeSliceUpdate [simp]: "sched_view (OsTimeSliceUpdate t now k) = sched_view k"
  by (rule sched_viewI) (simp_all add: OsTimeSliceUpdate_def LOS_ASSERT_def upd_tcb_def Let_def)

lemma view_SchedRealSleepTimeSet [simp]: "sched_view (SchedRealSleepTimeSet n k) = sched_view k"
  by (rule sched_viewI) (simp_all add: SchedRealSleepTimeSet_def OsPmSleepTimeSet_def)

text \<open>Fields the view does not hold.\<close>

lemma view_fields [simp]:
  "sched_view (k\<lparr>g_schedResponseID := a\<rparr>) = sched_view k"
  "sched_view (k\<lparr>g_schedResponseTime := b\<rparr>) = sched_view k"
  "sched_view (k\<lparr>g_schedTimerBase := b\<rparr>) = sched_view k"
  "sched_view (k\<lparr>newTask := t\<rparr>) = sched_view k"
  "sched_view (k\<lparr>runTask := t\<rparr>) = sched_view k"
  "sched_view (k\<lparr>g_taskScheduled := c\<rparr>) = sched_view k"
  "sched_view (k\<lparr>g_losTaskLock := n\<rparr>) = sched_view k"
  "sched_view (k\<lparr>g_allSem := s\<rparr>) = sched_view k"
  "sched_view (k\<lparr>g_unusedSemList := us\<rparr>) = sched_view k"
  "sched_view (k\<lparr>g_allMux := m\<rparr>) = sched_view k"
  "sched_view (k\<lparr>g_unusedMuxList := um\<rparr>) = sched_view k"
  "sched_view (k\<lparr>eventCB := e\<rparr>) = sched_view k"
  "sched_view (k\<lparr>g_allQueue := q\<rparr>) = sched_view k"
  "sched_view (k\<lparr>g_freeQueueList := fq\<rparr>) = sched_view k"
  "sched_view (k\<lparr>g_swtmrCBArray := sw\<rparr>) = sched_view k"
  "sched_view (k\<lparr>g_swtmrFreeList := sf\<rparr>) = sched_view k"
  "sched_view (k\<lparr>g_swtmrAlignID := sa\<rparr>) = sched_view k"
  "sched_view (k\<lparr>swtmrSortLink := sl\<rparr>) = sched_view k"
  by (rule sched_viewI; simp)+

lemma view_OsSchedSetNextExpireTime [simp]:
  "sched_view (OsSchedSetNextExpireTime start rid e u k) = sched_view k"
  by (simp add: OsSchedSetNextExpireTime_def Let_def split_beta)

lemma view_OsSchedUpdateExpireTime [simp]: "sched_view (OsSchedUpdateExpireTime start u k) = sched_view k"
  by (simp add: OsSchedUpdateExpireTime_def Let_def)

text \<open>An update of a control block that keeps the four fields the view reads.\<close>

lemma view_upd_tcb:
  assumes "\<And>c. taskStatus (f c) = taskStatus c \<and> priority (f c) = priority c \<and>
      responseTime (f c) = responseTime c \<and> taskID (f c) = taskID c"
  shows "sched_view (upd_tcb t f k) = sched_view k"
  by (rule sched_viewI) (simp_all add: upd_tcb_def assms)

section \<open>Operations on one task\<close>

text \<open>\<open>only t k k'\<close>: as far as the invariant can see, the step from \<open>k\<close> to \<open>k'\<close> touches
  no task but \<open>t\<close>.\<close>

definition only :: "nat \<Rightarrow> kernel \<Rightarrow> kernel \<Rightarrow> bool" where
  "only t k k' \<longleftrightarrow> g_idleTaskID k' = g_idleTaskID k \<and>
     (\<forall>u. u \<noteq> t \<longrightarrow> task_view k' u = task_view k u \<and>
        (\<forall>l. u \<in> set (pend k' l) \<longleftrightarrow> u \<in> set (pend k l)) \<and>
        (u \<in> set (taskSortLink k') \<longleftrightarrow> u \<in> set (taskSortLink k)))"

lemma only_refl [simp]: "only t k k"
  by (simp add: only_def)

lemma only_trans: "only t k k' \<Longrightarrow> only t k' k'' \<Longrightarrow> only t k k''"
  by (simp add: only_def)

lemma only_view: "sched_view k' = sched_view k \<Longrightarrow> only t k k'"
  by (simp add: only_def sched_view_def)

lemma task_wf_only:
  assumes "only t k k'" "u \<noteq> t"
  shows "task_wf k' u \<longleftrightarrow> task_wf k u"
proof -
  have eq: "taskStatus (tcb k' u) = taskStatus (tcb k u)" "priority (tcb k' u) = priority (tcb k u)"
    "taskID (tcb k' u) = taskID (tcb k u)" "g_idleTaskID k' = g_idleTaskID k"
    "u \<in> set (taskSortLink k') \<longleftrightarrow> u \<in> set (taskSortLink k)"
    "u \<in> set (pend k' l) \<longleftrightarrow> u \<in> set (pend k l)" for l
    using assms by (auto simp: only_def task_view_def)
  show ?thesis
    by (simp add: task_wf_def list_ok_def eq cong: list_id.case_cong)
qed

lemma only_primitives:
  "only t k (upd_tcb t f k)" "only t k (set_status t m k)" "only t k (clr_status t m k)"
  "only t k (pend_del t k)" "only t k (pend_tail l t k)" "only t k (pend_head l t k)"
  "only t k (LOS_ASSERT b k)" "only t k (OsDeleteNodeSortLink OS_SORT_LINK_TASK t k)"
  "only t k (OsAdd2SortLink t start n OS_SORT_LINK_TASK k)"
  by (auto simp: only_def upd_tcb_def set_status_def clr_status_def task_view_def pend_del_def
      pend_tail_def pend_head_def pl_del_def pl_tail_def pl_head_def LOS_ASSERT_def
      OsDeleteNodeSortLink_def OsAdd2SortLink_def SET_SORTLIST_VALUE_def set_link_def
      OsGetSortLinkAttribute_def Let_def)

lemma only_bitmap: "only t k (k\<lparr>g_queueBitmap := b\<rparr>)"
  by (simp add: only_def task_view_def)

lemma only_delete_link: "only t k (OsDeleteSortLink t OS_SORT_LINK_TASK k)"
  by (simp add: OsDeleteSortLink_def only_primitives)

lemmas only_steps = only_refl only_primitives [THEN [2] only_trans] only_bitmap [THEN [2] only_trans]
  only_delete_link [THEN [2] only_trans]

lemma only_EnQueue: "only t k (OsSchedTaskEnQueue t k)"
  unfolding OsSchedTaskEnQueue_def OsSchedPriQueueEnHead_def OsSchedPriQueueEnTail_def Let_def
  by (auto intro!: only_steps)

lemma only_DeQueue: "only t k (OsSchedTaskDeQueue t k)"
  unfolding OsSchedTaskDeQueue_def OsSchedPriQueueDelete_def Let_def
  by (auto intro!: only_steps)

section \<open>Effects on the task itself\<close>

lemma bit_prior0 [flag_simps]: "p < 32 \<Longrightarrow> bit (drop_bit p PRIQUEUE_PRIOR0_BIT) n \<longleftrightarrow> n = 31 - p"
  using bit_exp_word [where 'a = 32, of 31 "p + n"]
  unfolding PRIQUEUE_PRIOR0_BIT_def bit_drop_bit_eq comp_def by simp linarith

lemma tcb_simps [simp]:
  "tcb (upd_tcb t f k) = (tcb k)(t := f (tcb k t))"
  "tcb (set_status t m k) = (tcb k)(t := (tcb k t)\<lparr>taskStatus := taskStatus (tcb k t) OR m\<rparr>)"
  "tcb (clr_status t m k) = (tcb k)(t := (tcb k t)\<lparr>taskStatus := clr (taskStatus (tcb k t)) m\<rparr>)"
  "tcb (pend_del t k) = tcb k" "tcb (pend_tail l t k) = tcb k" "tcb (pend_head l t k) = tcb k"
  "tcb (LOS_ASSERT b k) = tcb k"
  by (simp_all add: upd_tcb_def set_status_def clr_status_def pend_del_def pend_tail_def
      pend_head_def LOS_ASSERT_def)

lemma pend_simps [simp]:
  "pend (upd_tcb t f k) = pend k" "pend (set_status t m k) = pend k" "pend (clr_status t m k) = pend k"
  "pend (LOS_ASSERT b k) = pend k"
  "pend (pend_del t k) l = filter (\<lambda>x. x \<noteq> t) (pend k l)"
  "pend (pend_tail l' t k) l = (if l = l' then pend k l @ [t] else pend k l)"
  "pend (pend_head l' t k) l = (if l = l' then t # pend k l else pend k l)"
  by (simp_all add: upd_tcb_def set_status_def clr_status_def LOS_ASSERT_def kl.contents_delete
      kl.contents_tail kl.contents_head)

lemma bitmap_simps [simp]:
  "g_queueBitmap (upd_tcb t f k) = g_queueBitmap k" "g_queueBitmap (set_status t m k) = g_queueBitmap k"
  "g_queueBitmap (clr_status t m k) = g_queueBitmap k" "g_queueBitmap (LOS_ASSERT b k) = g_queueBitmap k"
  "g_queueBitmap (pend_del t k) = g_queueBitmap k" "g_queueBitmap (pend_tail l t k) = g_queueBitmap k"
  "g_queueBitmap (pend_head l t k) = g_queueBitmap k"
  "g_idleTaskID (upd_tcb t f k) = g_idleTaskID k" "g_idleTaskID (set_status t m k) = g_idleTaskID k"
  "g_idleTaskID (clr_status t m k) = g_idleTaskID k" "g_idleTaskID (LOS_ASSERT b k) = g_idleTaskID k"
  "g_idleTaskID (pend_del t k) = g_idleTaskID k" "g_idleTaskID (pend_tail l t k) = g_idleTaskID k"
  "g_idleTaskID (pend_head l t k) = g_idleTaskID k"
  by (simp_all add: upd_tcb_def set_status_def clr_status_def LOS_ASSERT_def pend_del_def
      pend_tail_def pend_head_def)

text \<open>\<open>inv_but t k\<close>: the invariant, with nothing said of the task \<open>t\<close>.\<close>

definition inv_but :: "nat \<Rightarrow> kernel \<Rightarrow> bool" where
  "inv_but t k \<longleftrightarrow> pl_disjoint (pend k) \<and> bitmap_wf k \<and> link_wf OS_SORT_LINK_TASK k \<and>
     (\<forall>u. u \<noteq> t \<longrightarrow> task_wf k u)"

lemma sched_inv_but: "sched_inv k \<longleftrightarrow> inv_but t k \<and> task_wf k t"
  unfolding sched_inv_def inv_but_def by metis

lemma inv_but_only:
  "inv_but t k \<Longrightarrow> only t k k' \<Longrightarrow> pl_disjoint (pend k') \<Longrightarrow> bitmap_wf k' \<Longrightarrow>
   link_wf OS_SORT_LINK_TASK k' \<Longrightarrow> inv_but t k'"
  using task_wf_only unfolding inv_but_def by blast

lemma inv_butD:
  assumes "inv_but t k"
  shows "pl_disjoint (pend k)" "bitmap_wf k" "link_wf OS_SORT_LINK_TASK k"
  using assms unfolding inv_but_def by blast+

lemma link_wf_same:
  assumes "taskSortLink k' = taskSortLink k"
    and key: "\<And>u. u \<in> set (taskSortLink k) \<Longrightarrow> responseTime (tcb k' u) = responseTime (tcb k u)"
  shows "link_wf OS_SORT_LINK_TASK k' \<longleftrightarrow> link_wf OS_SORT_LINK_TASK k"
proof -
  have "sorted_by (link_key OS_SORT_LINK_TASK k') (taskSortLink k) = sorted_by (link_key OS_SORT_LINK_TASK k) (taskSortLink k)"
    by (rule sorted_by_cong) (simp add: link_key_def key)
  then show ?thesis by (simp add: link_wf_def OsGetSortLinkAttribute_def assms link_key_def)
qed

lemma link_wf_primitives [simp]:
  "link_wf OS_SORT_LINK_TASK (set_status t m k) = link_wf OS_SORT_LINK_TASK k"
  "link_wf OS_SORT_LINK_TASK (clr_status t m k) = link_wf OS_SORT_LINK_TASK k"
  "link_wf OS_SORT_LINK_TASK (pend_del t k) = link_wf OS_SORT_LINK_TASK k"
  "link_wf OS_SORT_LINK_TASK (pend_tail l t k) = link_wf OS_SORT_LINK_TASK k"
  "link_wf OS_SORT_LINK_TASK (pend_head l t k) = link_wf OS_SORT_LINK_TASK k"
  by (rule link_wf_same; simp)+

lemma bitmap_wf_same:
  assumes "g_queueBitmap k' = g_queueBitmap k" "\<And>p. pend k' (PriQueue p) = pend k (PriQueue p)"
  shows "bitmap_wf k' \<longleftrightarrow> bitmap_wf k"
  by (simp add: bitmap_wf_def assms)

section \<open>Entering and leaving the ready queues\<close>

lemma EnQueue_status:
  "status (OsSchedTaskEnQueue t k) t = (clr (status k t) (OS_TASK_STATUS_PEND OR OS_TASK_STATUS_SUSPEND OR
     OS_TASK_STATUS_DELAY OR OS_TASK_STATUS_PEND_TIME)) OR OS_TASK_STATUS_READY"
  by (simp add: OsSchedTaskEnQueue_def OsSchedPriQueueEnHead_def OsSchedPriQueueEnTail_def Let_def)

lemma EnQueue_fields [simp]:
  "priority (tcb (OsSchedTaskEnQueue t k) u) = priority (tcb k u)"
  "taskID (tcb (OsSchedTaskEnQueue t k) u) = taskID (tcb k u)"
  "responseTime (tcb (OsSchedTaskEnQueue t k) u) = responseTime (tcb k u)"
  "g_idleTaskID (OsSchedTaskEnQueue t k) = g_idleTaskID k"
  by (simp_all add: OsSchedTaskEnQueue_def OsSchedPriQueueEnHead_def OsSchedPriQueueEnTail_def Let_def)

lemma EnQueue_pend:
  "pend (OsSchedTaskEnQueue t k) =
     (if is_idle k t then pend k
      else if OS_TIME_SLICE_MIN k <s timeSlice (tcb k t) then pl_head (PriQueue (prio k t)) t (pend k)
      else pl_tail (PriQueue (prio k t)) t (pend k))"
proof -
  have "OS_TIME_SLICE_MIN (LOS_ASSERT b k) = OS_TIME_SLICE_MIN k" for b
    by (simp add: OS_TIME_SLICE_MIN_def OS_NS_PER_CYCLE_def LOS_ASSERT_def)
  then show ?thesis
    by (auto simp: OsSchedTaskEnQueue_def OsSchedPriQueueEnHead_def OsSchedPriQueueEnTail_def Let_def
        pl_head_def pl_tail_def fun_eq_iff)
qed

lemma EnQueue_set_pend:
  "set (pend (OsSchedTaskEnQueue t k) l) =
     (if \<not> is_idle k t \<and> l = PriQueue (prio k t) then insert t (set (pend k l)) else set (pend k l))"
  by (simp add: EnQueue_pend pl_head_def pl_tail_def)

lemma EnQueue_bitmap:
  "g_queueBitmap (OsSchedTaskEnQueue t k) =
     (if \<not> is_idle k t \<and> pend k (PriQueue (prio k t)) = []
      then g_queueBitmap k OR drop_bit (prio k t) PRIQUEUE_PRIOR0_BIT else g_queueBitmap k)"
  by (simp add: OsSchedTaskEnQueue_def OsSchedPriQueueEnHead_def OsSchedPriQueueEnTail_def Let_def)

lemma bitmap_wf_EnQueue:
  assumes "bitmap_wf k" "prio k t < 32"
  shows "bitmap_wf (OsSchedTaskEnQueue t k)"
  unfolding bitmap_wf_def
proof (intro conjI allI impI)
  fix p :: nat assume "p < 32"
  with assms show "bit (g_queueBitmap (OsSchedTaskEnQueue t k)) (31 - p) \<longleftrightarrow>
      pend (OsSchedTaskEnQueue t k) (PriQueue p) \<noteq> []"
    by (auto simp: bitmap_wf_def EnQueue_bitmap EnQueue_pend pl_head_def pl_tail_def bit_or_iff bit_prior0)
next
  fix p :: nat assume "32 \<le> p"
  with assms show "pend (OsSchedTaskEnQueue t k) (PriQueue p) = []"
    by (auto simp: bitmap_wf_def EnQueue_pend pl_head_def pl_tail_def)
qed

lemma disjoint_EnQueue:
  "pl_disjoint (pend k) \<Longrightarrow> pl_free t (pend k) \<Longrightarrow> pl_disjoint (pend (OsSchedTaskEnQueue t k))"
  using kl.disjoint_head [of k t "PriQueue (prio k t)"] kl.disjoint_tail [of k t "PriQueue (prio k t)"]
  by (simp add: EnQueue_pend pend_head_def pend_tail_def)

lemma inv_EnQueue:
  assumes inv: "inv_but t k" and free: "pl_free t (pend k)" "t \<notin> set (taskSortLink k)"
    and t: "prio k t < 32" "\<not> bit (status k t) 0"
  shows "sched_inv (OsSchedTaskEnQueue t k)"
proof -
  let ?k = "OsSchedTaskEnQueue t k"
  have "inv_but t ?k"
  proof (rule inv_but_only [OF inv only_EnQueue])
    show "pl_disjoint (pend ?k)" using inv_butD [OF inv] free by (intro disjoint_EnQueue) auto
    show "bitmap_wf ?k" using inv_butD [OF inv] t by (intro bitmap_wf_EnQueue) auto
    show "link_wf OS_SORT_LINK_TASK ?k"
      using inv_butD [OF inv] by (subst link_wf_same) simp_all
  qed
  moreover have "task_wf ?k t"
    using free t
    by (auto simp: task_wf_def EnQueue_set_pend EnQueue_status list_ok_def pl_free_def flag_simps
        split: if_splits)
  ultimately show ?thesis using sched_inv_but by blast
qed

lemma DeQueue_fields [simp]:
  "priority (tcb (OsSchedTaskDeQueue t k) u) = priority (tcb k u)"
  "taskID (tcb (OsSchedTaskDeQueue t k) u) = taskID (tcb k u)"
  "responseTime (tcb (OsSchedTaskDeQueue t k) u) = responseTime (tcb k u)"
  "timeSlice (tcb (OsSchedTaskDeQueue t k) u) = timeSlice (tcb k u)"
  "startTime (tcb (OsSchedTaskDeQueue t k) u) = startTime (tcb k u)"
  "g_idleTaskID (OsSchedTaskDeQueue t k) = g_idleTaskID k"
  "taskSortLink (OsSchedTaskDeQueue t k) = taskSortLink k"
  by (simp_all add: OsSchedTaskDeQueue_def OsSchedPriQueueDelete_def Let_def)

lemma DeQueue_status:
  "status (OsSchedTaskDeQueue t k) u = (if u = t then clr (status k t) OS_TASK_STATUS_READY else status k u)"
  by (simp add: OsSchedTaskDeQueue_def OsSchedPriQueueDelete_def Let_def clr_id)

lemma DeQueue_pend:
  "pend (OsSchedTaskDeQueue t k) l =
     (if ready k t \<and> \<not> is_idle k t then filter (\<lambda>x. x \<noteq> t) (pend k l) else pend k l)"
  by (simp add: OsSchedTaskDeQueue_def OsSchedPriQueueDelete_def Let_def flag_simps)

lemma DeQueue_bitmap:
  "g_queueBitmap (OsSchedTaskDeQueue t k) =
     (if ready k t \<and> \<not> is_idle k t \<and> filter (\<lambda>x. x \<noteq> t) (pend k (PriQueue (prio k t))) = []
      then clr (g_queueBitmap k) (drop_bit (prio k t) PRIQUEUE_PRIOR0_BIT) else g_queueBitmap k)"
  by (simp add: OsSchedTaskDeQueue_def OsSchedPriQueueDelete_def Let_def flag_simps)

text \<open>A ready task other than the idle task is in its priority queue and nowhere else.\<close>

lemma ready_only_in:
  assumes "sched_inv k" "ready k t"
  shows "t \<in> set (pend k l) \<longleftrightarrow> \<not> is_idle k t \<and> l = PriQueue (prio k t)"
proof -
  note wf = sched_invD(4) [OF assms(1), of t]
  note no = task_wfD(5) [OF wf assms(2)]
  show ?thesis
  proof
    assume "t \<in> set (pend k l)"
    from task_wfD(2) [OF wf this] no show "\<not> is_idle k t \<and> l = PriQueue (prio k t)"
      by (cases l) (simp_all add: list_ok_def)
  next
    assume "\<not> is_idle k t \<and> l = PriQueue (prio k t)"
    with task_wfD(3) [OF wf assms(2)] show "t \<in> set (pend k l)" by simp
  qed
qed

lemma free_if:
  assumes "sched_inv k" "\<not> ready k t" "\<not> pending k t" "\<not> bit (status k t) 0"
  shows "pl_free t (pend k)"
  unfolding pl_free_def
proof (rule allI, rule notI)
  fix l assume "t \<in> set (pend k l)"
  then have "list_ok k t l" by (rule task_wfD(2) [OF sched_invD(4) [OF assms(1)]])
  with assms(2-) show False by (cases l) (auto simp: list_ok_def)
qed

lemma free_DeQueue:
  assumes "sched_inv k" "ready k t"
  shows "pl_free t (pend (OsSchedTaskDeQueue t k))"
  using assms by (auto simp: pl_free_def DeQueue_pend ready_only_in)

lemma disjoint_DeQueue: "pl_disjoint (pend k) \<Longrightarrow> pl_disjoint (pend (OsSchedTaskDeQueue t k))"
  by (auto simp: pl_disjoint_def DeQueue_pend)

lemma bitmap_wf_DeQueue:
  assumes "sched_inv k"
  shows "bitmap_wf (OsSchedTaskDeQueue t k)"
proof -
  have bm: "bitmap_wf k" using sched_invD(2) [OF assms] .
  have lt: "ready k t \<Longrightarrow> prio k t < 32" using task_wfD(1,5) [OF sched_invD(4) [OF assms]] by blast
  have other: "filter (\<lambda>x. x \<noteq> t) (pend k (PriQueue p)) = pend k (PriQueue p)"
    if "ready k t" "p \<noteq> prio k t" for p
    using ready_only_in [OF assms that(1), of "PriQueue p"] that(2) by simp
  show ?thesis
    unfolding bitmap_wf_def
  proof (intro conjI allI impI)
    fix p :: nat assume p: "p < 32"
    show "bit (g_queueBitmap (OsSchedTaskDeQueue t k)) (31 - p) \<longleftrightarrow>
        pend (OsSchedTaskDeQueue t k) (PriQueue p) \<noteq> []"
    proof (cases "p = prio k t")
      case True
      with bm p lt show ?thesis
        by (auto simp: bitmap_wf_def DeQueue_bitmap DeQueue_pend bit_prior0)
    next
      case False
      then have "ready k t \<Longrightarrow> bit (drop_bit (prio k t) PRIQUEUE_PRIOR0_BIT) (31 - p) = False"
        using p lt by (simp add: bit_prior0)
      with bm p False other [of p] show ?thesis
        by (cases "ready k t") (simp_all add: bitmap_wf_def DeQueue_bitmap DeQueue_pend)
    qed
  next
    fix p :: nat assume "32 \<le> p"
    with bm show "pend (OsSchedTaskDeQueue t k) (PriQueue p) = []"
      by (simp add: bitmap_wf_def DeQueue_pend)
  qed
qed

lemma inv_DeQueue:
  assumes inv: "sched_inv k"
  shows "sched_inv (OsSchedTaskDeQueue t k)"
proof -
  let ?k = "OsSchedTaskDeQueue t k"
  have but: "inv_but t k" and wf: "task_wf k t" using inv sched_inv_but by blast+
  have "inv_but t ?k"
  proof (rule inv_but_only [OF but only_DeQueue])
    show "pl_disjoint (pend ?k)" using inv_butD [OF but] by (intro disjoint_DeQueue) auto
    show "bitmap_wf ?k" by (rule bitmap_wf_DeQueue [OF inv])
    show "link_wf OS_SORT_LINK_TASK ?k" using inv_butD [OF but] by (subst link_wf_same) simp_all
  qed
  moreover have "task_wf ?k t"
  proof (cases "ready k t")
    case True
    with wf free_DeQueue [OF inv True] show ?thesis
      by (auto simp: task_wf_def DeQueue_status flag_simps pl_free_def)
  next
    case False
    then have "?k = k" by (simp add: OsSchedTaskDeQueue_def flag_simps)
    with wf show ?thesis by simp
  qed
  ultimately show ?thesis using sched_inv_but by blast
qed

section \<open>Waiting and waking\<close>

lemma disjoint_del: "pl_disjoint (pend k) \<Longrightarrow> pl_disjoint (pend (pend_del t k))"
  by (rule kl.disjoint_delete)

lemma pending_not_queued:
  assumes "sched_inv k" "pending k t"
  shows "t \<notin> set (pend k (PriQueue p))"
proof
  assume "t \<in> set (pend k (PriQueue p))"
  with assms(1) have "ready k t" using task_wfD(2) sched_invD(4) by (fastforce simp: list_ok_def)
  with assms show False using task_wfD(5) sched_invD(4) by blast
qed

lemma inv_but_clr_pend:
  assumes inv: "sched_inv k" and p: "pending k t"
  shows "inv_but t (clr_status t m (pend_del t k))"
proof (rule inv_but_only)
  show "inv_but t k" using inv sched_inv_but by blast
  show "only t k (clr_status t m (pend_del t k))" by (intro only_steps)
  show "pl_disjoint (pend (clr_status t m (pend_del t k)))"
    using disjoint_del sched_invD(1) [OF inv] by simp
  show "bitmap_wf (clr_status t m (pend_del t k))"
    using sched_invD(2) [OF inv] pending_not_queued [OF inv p]
    by (subst bitmap_wf_same) simp_all
  show "link_wf OS_SORT_LINK_TASK (clr_status t m (pend_del t k))"
    using sched_invD(3) [OF inv] by simp
qed

text \<open>Deletion from the sort link, for a task.\<close>

lemma DeleteSortLink_fields [simp]:
  "taskStatus (tcb (OsDeleteSortLink t OS_SORT_LINK_TASK k) u) = taskStatus (tcb k u)"
  "priority (tcb (OsDeleteSortLink t OS_SORT_LINK_TASK k) u) = priority (tcb k u)"
  "taskID (tcb (OsDeleteSortLink t OS_SORT_LINK_TASK k) u) = taskID (tcb k u)"
  "pend (OsDeleteSortLink t OS_SORT_LINK_TASK k) = pend k"
  "g_queueBitmap (OsDeleteSortLink t OS_SORT_LINK_TASK k) = g_queueBitmap k"
  "g_idleTaskID (OsDeleteSortLink t OS_SORT_LINK_TASK k) = g_idleTaskID k"
  by (simp_all add: OsDeleteSortLink_def OsDeleteNodeSortLink_def SET_SORTLIST_VALUE_def set_link_def)

lemma DeleteNode_fields [simp]:
  "taskStatus (tcb (OsDeleteNodeSortLink OS_SORT_LINK_TASK t k) u) = taskStatus (tcb k u)"
  "priority (tcb (OsDeleteNodeSortLink OS_SORT_LINK_TASK t k) u) = priority (tcb k u)"
  "taskID (tcb (OsDeleteNodeSortLink OS_SORT_LINK_TASK t k) u) = taskID (tcb k u)"
  "pend (OsDeleteNodeSortLink OS_SORT_LINK_TASK t k) = pend k"
  "g_queueBitmap (OsDeleteNodeSortLink OS_SORT_LINK_TASK t k) = g_queueBitmap k"
  "g_idleTaskID (OsDeleteNodeSortLink OS_SORT_LINK_TASK t k) = g_idleTaskID k"
  by (simp_all add: OsDeleteNodeSortLink_def SET_SORTLIST_VALUE_def set_link_def)

lemma DeleteSortLink_taskSortLink:
  "link_wf OS_SORT_LINK_TASK k \<Longrightarrow>
   taskSortLink (OsDeleteSortLink t OS_SORT_LINK_TASK k) = filter (\<lambda>x. x \<noteq> t) (taskSortLink k)"
  using OsDeleteSortLink_link(1) [of OS_SORT_LINK_TASK k t] by (simp add: OsGetSortLinkAttribute_def)

lemma inv_but_DeleteSortLink:
  assumes "inv_but t k"
  shows "inv_but t (OsDeleteSortLink t OS_SORT_LINK_TASK k)"
proof (rule inv_but_only [OF assms only_delete_link])
  show "link_wf OS_SORT_LINK_TASK (OsDeleteSortLink t OS_SORT_LINK_TASK k)"
    using inv_butD [OF assms] by (intro link_wf_delete)
  show "bitmap_wf (OsDeleteSortLink t OS_SORT_LINK_TASK k)"
    using inv_butD [OF assms] by (subst bitmap_wf_same) simp_all
qed (use inv_butD [OF assms] in simp)

lemma inv_but_status:
  assumes "inv_but t k"
  shows "inv_but t (set_status t m k)" "inv_but t (clr_status t m k)"
  using assms inv_butD [OF assms]
  by (auto intro!: inv_but_only [OF assms] only_primitives simp: bitmap_wf_def)

lemma inv_but_upd:
  assumes "inv_but t k" "\<And>c. responseTime (f c) = responseTime c"
  shows "inv_but t (upd_tcb t f k)"
proof (rule inv_but_only [OF assms(1)])
  show "link_wf OS_SORT_LINK_TASK (upd_tcb t f k)"
    using inv_butD(3) [OF assms(1)] by (subst link_wf_same) (simp_all add: assms(2))
qed (use inv_butD [OF assms(1)] in \<open>simp_all add: only_primitives bitmap_wf_def\<close>)

text \<open>A task in no list, off the link and with a clean status is well formed.\<close>

lemma task_wf_clean:
  assumes "pl_free t (pend k)" "t \<notin> set (taskSortLink k)" "prio k t < 32"
    and "\<not> ready k t" "\<not> pending k t" "\<not> bit (status k t) 5" "\<not> bit (status k t) 7"
  shows "task_wf k t"
  using assms by (simp add: task_wf_def pl_free_def)

lemma inv_OsSchedTaskWake:
  assumes inv: "sched_inv k" and p: "pending k t"
  shows "sched_inv (OsSchedTaskWake t k)"
proof -
  note wf = sched_invD(4) [OF inv, of t]
  define k1 where "k1 = clr_status t OS_TASK_STATUS_PEND (pend_del t k)"
  define k2 where "k2 = (if tst (status k1 t) OS_TASK_STATUS_PEND_TIME
    then clr_status t OS_TASK_STATUS_PEND_TIME (OsDeleteSortLink t OS_SORT_LINK_TASK k1) else k1)"
  have b1: "inv_but t k1" unfolding k1_def by (rule inv_but_clr_pend [OF inv p])
  have b2: "inv_but t k2"
    unfolding k2_def by (auto intro!: inv_but_status inv_but_DeleteSortLink b1)
  have free: "pl_free t (pend k2)" by (simp add: k2_def k1_def pl_free_def)
  have link: "t \<notin> set (taskSortLink k2)"
    using task_wfD(7,9) [OF wf] p inv_butD(3) [OF b1]
    by (auto simp: k2_def k1_def flag_simps DeleteSortLink_taskSortLink)
  have st: "prio k2 t < 32" "\<not> ready k2 t" "\<not> pending k2 t" "\<not> bit (status k2 t) 5"
    "\<not> bit (status k2 t) 7" "\<not> bit (status k2 t) 0"
    using task_wfD(1,5,6,7) [OF wf] p by (auto simp: k2_def k1_def flag_simps)
  have "OsSchedTaskWake t k =
     (if \<not> tst (status k2 t) OS_TASK_STATUS_SUSPEND \<and> \<not> tst (status k2 t) OS_TASK_STATUS_RUNNING
      then OsSchedTaskEnQueue t k2 else k2)"
    by (simp add: OsSchedTaskWake_def k2_def k1_def Let_def)
  moreover have "sched_inv k2"
    using task_wf_clean [OF free link st(1-5)] b2 sched_inv_but by blast
  moreover have "sched_inv (OsSchedTaskEnQueue t k2)"
    by (rule inv_EnQueue [OF b2 free link st(1,6)])
  ultimately show ?thesis by simp
qed

lemma task_wf_waiting:
  assumes "is_wait_list l" "\<And>l'. t \<in> set (pend k l') \<longleftrightarrow> l' = l" "t \<notin> set (taskSortLink k)" "prio k t < 32"
    and "pending k t" "running k t" "\<not> ready k t" "\<not> bit (status k t) 0" "\<not> bit (status k t) 5"
  shows "task_wf k t"
  using assms list_ok_wait [OF assms(1), of k t] by (simp add: task_wf_def)

lemma inv_OsSchedTaskWait:
  assumes inv: "sched_inv k" and l: "is_wait_list l"
    and t: "running k (runTask k)" "\<not> ready k (runTask k)" "\<not> pending k (runTask k)"
      "\<not> bit (status k (runTask k)) 0" "\<not> bit (status k (runTask k)) 5"
  shows "sched_inv (OsSchedTaskWait l ticks k)"
proof -
  let ?t = "runTask k" and ?k = "OsSchedTaskWait l ticks k"
  note wf = sched_invD(4) [OF inv, of "runTask k"]
  have no7: "\<not> bit (status k ?t) 7" using task_wfD(8) [OF wf] t(3) by blast
  have free: "pl_free ?t (pend k)" using free_if [OF inv t(2-4)] .
  have link: "?t \<notin> set (taskSortLink k)" using task_wfD(9) [OF wf] t no7 by blast
  have pend: "pend ?k = pend (pend_tail l ?t k)"
    by (rule ext) (simp add: OsSchedTaskWait_def Let_def)
  have "inv_but ?t k" using inv sched_inv_but by blast
  moreover have "only ?t k ?k" unfolding OsSchedTaskWait_def Let_def by (auto intro!: only_steps)
  moreover have "pl_disjoint (pend ?k)"
    using kl.disjoint_tail [OF sched_invD(1) [OF inv] free] by (simp add: pend)
  moreover have "bitmap_wf ?k"
    using sched_invD(2) [OF inv] l by (subst bitmap_wf_same) (auto simp: OsSchedTaskWait_def Let_def)
  moreover have "link_wf OS_SORT_LINK_TASK ?k"
    using sched_invD(3) [OF inv] by (subst link_wf_same) (auto simp: OsSchedTaskWait_def Let_def)
  ultimately have "inv_but ?t ?k" by (rule inv_but_only)
  have st: "bit (status ?k ?t) b \<longleftrightarrow>
      bit (status k ?t) b \<or> b = 3 \<or> ticks \<noteq> LOS_WAIT_FOREVER \<and> b = 7" for b
    by (auto simp: OsSchedTaskWait_def Let_def flag_simps)
  have st': "priority (tcb ?k ?t) = priority (tcb k ?t)" "taskSortLink ?k = taskSortLink k"
    by (simp_all add: OsSchedTaskWait_def Let_def)
  have mem: "?t \<in> set (pend ?k l') \<longleftrightarrow> l' = l" for l'
    using free by (auto simp: pend pl_free_def)
  have "task_wf ?k ?t"
    by (rule task_wf_waiting [OF l mem]) (use task_wfD(1) [OF wf] t link in \<open>simp_all add: st st'\<close>)
  with \<open>inv_but ?t ?k\<close> show ?thesis using sched_inv_but by blast
qed

lemma inv_OsSchedDelay:
  assumes inv: "sched_inv k"
    and t: "running k t" "\<not> ready k t" "\<not> pending k t" "\<not> bit (status k t) 0"
  shows "sched_inv (OsSchedDelay t tick k)"
proof -
  note wf = sched_invD(4) [OF inv, of t]
  have free: "pl_free t (pend k)" using free_if [OF inv t(2-4)] .
  have "inv_but t (OsSchedDelay t tick k)"
    unfolding OsSchedDelay_def using inv sched_inv_but by (intro inv_but_upd inv_but_status) auto
  moreover have "task_wf (OsSchedDelay t tick k) t"
    using wf t free by (auto simp: OsSchedDelay_def task_wf_def flag_simps pl_free_def)
  ultimately show ?thesis using sched_inv_but by blast
qed

lemma inv_OsSchedTaskExit:
  assumes inv: "sched_inv k"
  shows "sched_inv (OsSchedTaskExit t k)"
proof -
  note wf = sched_invD(4) [OF inv, of t]
  define k1 where "k1 = (if tst (status k t) OS_TASK_STATUS_READY then OsSchedTaskDeQueue t k
    else if tst (status k t) OS_TASK_STATUS_PEND then clr_status t OS_TASK_STATUS_PEND (pend_del t k)
    else k)"
  have eq: "OsSchedTaskExit t k = (if tst (status k1 t) (OS_TASK_STATUS_DELAY OR OS_TASK_STATUS_PEND_TIME)
      then clr_status t (OS_TASK_STATUS_DELAY OR OS_TASK_STATUS_PEND_TIME)
             (OsDeleteSortLink t OS_SORT_LINK_TASK k1) else k1)"
    by (simp add: OsSchedTaskExit_def k1_def Let_def)
  have b1: "inv_but t k1"
    using inv_DeQueue [OF inv, of t] inv_but_clr_pend [OF inv, of t] inv sched_inv_but
    by (auto simp: k1_def flag_simps)
  have st: "\<not> ready k1 t" "\<not> pending k1 t" "\<not> bit (status k t) 0 \<Longrightarrow> prio k1 t < 32"
    using task_wfD(1,5) [OF wf] by (auto simp: k1_def DeQueue_status flag_simps)
  have free: "\<not> bit (status k t) 0 \<Longrightarrow> pl_free t (pend k1)"
    using free_DeQueue [OF inv] free_if [OF inv]
    by (auto simp: k1_def flag_simps pl_free_def)
  show ?thesis
  proof (cases "bit (status k1 t) 5 \<or> bit (status k1 t) 7")
    case True
    then have "bit (status k t) 5 \<or> bit (status k t) 7"
      by (auto simp: k1_def DeQueue_status flag_simps split: if_splits)
    then have "\<not> bit (status k t) 0" using task_wfD(6) [OF wf] by blast
    let ?k = "clr_status t (OS_TASK_STATUS_DELAY OR OS_TASK_STATUS_PEND_TIME)
             (OsDeleteSortLink t OS_SORT_LINK_TASK k1)"
    have "inv_but t ?k" by (intro inv_but_status inv_but_DeleteSortLink b1)
    moreover have "task_wf ?k t"
      using free st \<open>\<not> bit (status k t) 0\<close> inv_butD(3) [OF b1]
      by (intro task_wf_clean) (auto simp: flag_simps DeleteSortLink_taskSortLink)
    ultimately show ?thesis using True sched_inv_but by (auto simp: eq flag_simps)
  next
    case False
    have "task_wf k1 t"
    proof (cases "ready k t \<or> pending k t")
      case True
      then have "\<not> bit (status k t) 0" using task_wfD(5,6) [OF wf] by blast
      moreover have "t \<notin> set (taskSortLink k1)"
        using task_wfD(5,7,9) [OF wf] True False
        by (auto simp: k1_def DeQueue_status flag_simps split: if_splits)
      ultimately show ?thesis using free st False by (intro task_wf_clean) auto
    next
      case False
      then have "k1 = k" by (simp add: k1_def flag_simps)
      then show ?thesis using wf by simp
    qed
    then have "sched_inv k1" using b1 sched_inv_but by blast
    then show ?thesis using False by (auto simp: eq flag_simps)
  qed
qed

lemma inv_OsSchedModifyTaskSchedParam:
  assumes inv: "sched_inv k" and p: "unat p < 32"
  shows "sched_inv (snd (OsSchedModifyTaskSchedParam t p k))"
proof (cases "ready k t")
  case True
  let ?k = "upd_tcb t (\<lambda>c. c\<lparr>priority := p\<rparr>) (OsSchedTaskDeQueue t k)"
  note wf = task_wfD(5,9) [OF sched_invD(4) [OF inv, of t]]
  have "sched_inv (OsSchedTaskEnQueue t ?k)"
  proof (rule inv_EnQueue)
    show "inv_but t ?k" using inv_DeQueue [OF inv] sched_inv_but by (intro inv_but_upd) auto
    show "pl_free t (pend ?k)" using free_DeQueue [OF inv True] by simp
  qed (use wf True p in \<open>auto simp: DeQueue_status flag_simps\<close>)
  then show ?thesis using True by (simp add: OsSchedModifyTaskSchedParam_def Let_def flag_simps)
next
  case False
  let ?k = "upd_tcb t (\<lambda>c. c\<lparr>priority := p\<rparr>) k"
  have "inv_but t ?k" using inv sched_inv_but by (intro inv_but_upd) auto
  moreover have "task_wf ?k t"
  proof -
    have "list_ok ?k t l \<longleftrightarrow> list_ok k t l" for l
      using False by (cases l) (auto simp: list_ok_def)
    then show ?thesis using sched_invD(4) [OF inv, of t] False p by (simp add: task_wf_def)
  qed
  ultimately have "sched_inv ?k" using sched_inv_but by blast
  then show ?thesis
    using False by (simp add: OsSchedModifyTaskSchedParam_def Let_def flag_simps)
qed

section \<open>Timeouts\<close>

text \<open>What the scan does to an expired task: off the link and, when it was waiting, off
  its wait list with the timeout flag; ready unless suspended.\<close>

lemma WakePendTime_inv:
  assumes inv: "sched_inv k" and t: "t \<in> set (taskSortLink k)"
  shows "sched_inv (snd (OsSchedWakePendTimeTask t b (OsDeleteNodeSortLink OS_SORT_LINK_TASK t k)))"
proof -
  note wf = sched_invD(4) [OF inv, of t]
  let ?k0 = "OsDeleteNodeSortLink OS_SORT_LINK_TASK t k"
  define m where "m = OS_TASK_STATUS_PEND OR OS_TASK_STATUS_PEND_TIME OR OS_TASK_STATUS_DELAY"
  define k2 where "k2 = (if pending k t
      then upd_tcb t (\<lambda>c. c\<lparr>taskMux := None, taskSem := None\<rparr>)
             (pend_del t (set_status t OS_TASK_STATUS_TIMEOUT (clr_status t m ?k0)))
      else clr_status t m ?k0)"
  have pd: "pending k t \<or> bit (status k t) 5"
    using task_wfD(8,9) [OF wf] t by blast
  then have eq: "snd (OsSchedWakePendTimeTask t b ?k0) =
      (if bit (status k t) 1 then k2 else OsSchedTaskEnQueue t k2)"
    by (auto simp: OsSchedWakePendTimeTask_def k2_def m_def Let_def flag_simps)
  have no: "\<not> ready k t" "\<not> bit (status k t) 0"
    using task_wfD(5,6,9) [OF wf] t by blast+
  have "inv_but t ?k0"
  proof (rule inv_but_only)
    show "inv_but t k" using inv sched_inv_but by blast
    show "link_wf OS_SORT_LINK_TASK ?k0" by (rule link_wf_delete_node [OF sched_invD(3) [OF inv]])
    show "bitmap_wf ?k0" using sched_invD(2) [OF inv] by (subst bitmap_wf_same) simp_all
  qed (simp_all add: only_primitives sched_invD(1) [OF inv])
  moreover have del: "inv_but t (pend_del t k')" if "inv_but t k'" "\<forall>p. t \<notin> set (pend k' (PriQueue p))" for k'
  proof (rule inv_but_only [OF that(1) only_primitives(4)])
    show "pl_disjoint (pend (pend_del t k'))" using disjoint_del inv_butD(1) [OF that(1)] by blast
    show "bitmap_wf (pend_del t k')"
      using inv_butD(2) [OF that(1)] that(2) by (subst bitmap_wf_same) simp_all
  qed (use inv_butD [OF that(1)] in simp)
  ultimately have b2: "inv_but t k2"
    using pending_not_queued [OF inv, of t] by (simp add: k2_def inv_but_upd inv_but_status del)
  have free: "pl_free t (pend k2)"
    using free_if [OF inv no(1) _ no(2)] by (auto simp: k2_def pl_free_def)
  have st: "prio k2 t < 32" "\<not> ready k2 t" "\<not> pending k2 t" "\<not> bit (status k2 t) 5"
    "\<not> bit (status k2 t) 7" "\<not> bit (status k2 t) 0"
    using task_wfD(1) [OF wf] no by (simp_all add: k2_def m_def flag_simps)
  have link: "t \<notin> set (taskSortLink k2)" by (simp add: k2_def)
  have "sched_inv k2" using task_wf_clean [OF free link st(1-5)] b2 sched_inv_but by blast
  moreover have "sched_inv (OsSchedTaskEnQueue t k2)"
    by (rule inv_EnQueue [OF b2 free link st(1,6)])
  ultimately show ?thesis by (simp add: eq)
qed

lemma scan_timer_loop_inv:
  "sched_inv k \<Longrightarrow> sched_inv (snd (scan_timer_loop now need k))"
proof (induction now need k rule: scan_timer_loop.induct)
  case (1 now need k)
  show ?case
  proof (cases "taskSortLink k")
    case Nil
    then show ?thesis using 1 by (simp add: scan_timer_loop.simps)
  next
    case (Cons t ts)
    show ?thesis
    proof (cases "responseTime (tcb k t) \<le> now")
      case True
      have "sched_inv (snd (OsSchedWakePendTimeTask t need (OsDeleteNodeSortLink OS_SORT_LINK_TASK t k)))"
        using 1 Cons by (intro WakePendTime_inv) auto
      then show ?thesis
        using 1 Cons True by (subst scan_timer_loop.simps) (simp add: Let_def)
    next
      case False
      then show ?thesis using 1 Cons by (subst scan_timer_loop.simps) simp
    qed
  qed
qed

lemma inv_OsSchedScanTimerList:
  assumes "sched_inv k"
  shows "sched_inv (snd (OsSchedScanTimerList k))"
proof -
  have "sched_inv (snd (OsGetCurrSchedTimeCycle k))"
    using assms by (rule sched_inv_view [OF view_OsGetCurrSchedTimeCycle])
  then show ?thesis
    using assms scan_timer_loop_inv by (auto simp: OsSchedScanTimerList_def split_beta)
qed

end
