(* ===== verification/Sched_Switch.thy ===== *)
theory Sched_Switch
  imports Sched_Inv
begin

text \<open>
  The choice of the next task and the task switch of \<open>Los_Sched\<close>: the bitmap and its
  leading-zero count find a ready task of the highest priority, and the switch keeps the
  scheduler's invariant and leaves exactly one task running, the best one.  The invariant \<open>kernel_inv\<close>
  includes that no task is lost: every task that is able to run is running or stands in its ready
  queue (\<open>none_lost\<close>).
\<close>

section \<open>The bitmap\<close>

lemma CLZ_spec:
  assumes "w \<noteq> 0"
  shows "CLZ w < 32" "bit w (31 - CLZ w)" "\<forall>p < CLZ w. \<not> bit w (31 - p)"
proof -
  let ?xs = "rev [0..<32::nat]" and ?P = "\<lambda>i. \<not> bit w i"
  have nth: "?xs ! i = 31 - i" if "i < 32" for i
    using that by (simp add: rev_nth)
  obtain n where n: "bit w n" using assms by (auto simp: bit_eq_iff)
  then have "n < 32" using bit_imp_le_length by fastforce
  then have "\<not> (\<forall>x \<in> set ?xs. ?P x)" using n by auto
  then have "length (takeWhile ?P ?xs) \<noteq> length ?xs"
    by (metis set_takeWhileD takeWhile_eq_all_conv takeWhile_eq_take take_all_iff order_refl)
  moreover have "length (takeWhile ?P ?xs) \<le> length ?xs" by (rule length_takeWhile_le)
  ultimately show lt: "CLZ w < 32" by (simp add: CLZ_def)
  have "\<not> ?P (?xs ! length (takeWhile ?P ?xs))"
    using lt by (intro nth_length_takeWhile) (simp add: CLZ_def)
  then show "bit w (31 - CLZ w)" using lt nth [of "CLZ w"] by (simp add: CLZ_def)
  show "\<forall>p < CLZ w. \<not> bit w (31 - p)"
  proof (intro allI impI)
    fix p assume p: "p < CLZ w"
    then have "takeWhile ?P ?xs ! p \<in> set (takeWhile ?P ?xs)"
      unfolding CLZ_def by (rule nth_mem)
    then have "?P (takeWhile ?P ?xs ! p)" by (rule set_takeWhileD [THEN conjunct2])
    moreover have "takeWhile ?P ?xs ! p = ?xs ! p"
      using p unfolding CLZ_def by (rule takeWhile_nth)
    ultimately show "\<not> bit w (31 - p)" using p lt nth [of p] by simp
  qed
qed

section \<open>The best ready task\<close>

text \<open>With the invariant, an empty bitmap means that no task but the idle task is ready;
  otherwise the top task is the first one of the highest priority that is.\<close>

lemma OsGetTopTask_ready:
  assumes inv: "sched_inv k" and bm: "g_queueBitmap k \<noteq> 0"
  defines "t \<equiv> OsGetTopTask k"
  shows "ready k t" "\<not> is_idle k t" "pend k (PriQueue (prio k t)) = t # tl (pend k (PriQueue (prio k t)))"
    and "\<And>u. ready k u \<Longrightarrow> \<not> is_idle k u \<Longrightarrow> prio k t \<le> prio k u"
proof -
  let ?p = "CLZ (g_queueBitmap k)"
  note bw = sched_invD(2) [OF inv, unfolded bitmap_wf_def]
  have p: "?p < 32" "pend k (PriQueue ?p) \<noteq> []" "\<And>q. q < ?p \<Longrightarrow> pend k (PriQueue q) = []"
    using CLZ_spec [OF bm] bw by auto
  then obtain ts where ts: "pend k (PriQueue ?p) = t # ts"
    using bm by (cases "pend k (PriQueue ?p)") (auto simp: t_def OsGetTopTask_def)
  then have "list_ok k t (PriQueue ?p)"
    using task_wfD(2) [OF sched_invD(4) [OF inv]] by auto
  then show r: "ready k t" "\<not> is_idle k t" and "pend k (PriQueue (prio k t)) = t # tl (pend k (PriQueue (prio k t)))"
    using ts by (auto simp: list_ok_def)
  have pt: "?p = prio k t" using \<open>list_ok k t (PriQueue ?p)\<close> by (simp add: list_ok_def)
  fix u assume u: "ready k u" "\<not> is_idle k u"
  then have "u \<in> set (pend k (PriQueue (prio k u)))"
    using task_wfD(3) [OF sched_invD(4) [OF inv]] by blast
  then have "\<not> prio k u < ?p" using p(3) [of "prio k u"] by auto
  then show "prio k t \<le> prio k u" using pt by simp
qed

lemma OsGetTopTask_none:
  assumes inv: "sched_inv k"
  shows "g_queueBitmap k = 0 \<longleftrightarrow> (\<forall>u. ready k u \<longrightarrow> is_idle k u)"
proof
  assume z: "g_queueBitmap k = 0"
  show "\<forall>u. ready k u \<longrightarrow> is_idle k u"
  proof (intro allI impI, rule ccontr)
    fix u assume u: "ready k u" "\<not> is_idle k u"
    note wf = sched_invD(4) [OF inv, of u]
    have "pend k (PriQueue (prio k u)) \<noteq> []" using task_wfD(3) [OF wf u] by auto
    then have "bit (g_queueBitmap k) (31 - prio k u)"
      using sched_invD(2) [OF inv] by (auto simp: bitmap_wf_def not_less [symmetric])
    then show False by (simp add: z)
  qed
next
  assume "\<forall>u. ready k u \<longrightarrow> is_idle k u"
  then show "g_queueBitmap k = 0" using OsGetTopTask_ready(1,2) [OF inv] by blast
qed

section \<open>The running task\<close>

text \<open>
  Between two switches: the current task has the running flag, and no other task in use has (the
  block that stands in for \<^verbatim>\<open>main\<close> keeps the flag when the kernel starts); the current task is in
  no ready queue and not asleep; every task that could run is ready or running, so that none is
  lost; the idle task is always fit to run.
\<close>

definition runnable :: "kernel \<Rightarrow> nat \<Rightarrow> bool" where
  "runnable k t \<longleftrightarrow> \<not> bit (status k t) 0 \<and> \<not> bit (status k t) 1 \<and> \<not> pending k t \<and> \<not> bit (status k t) 5"

definition none_lost :: "kernel \<Rightarrow> bool" where
  "none_lost k \<longleftrightarrow> (\<forall>t \<le> LOSCFG_BASE_CORE_TSK_LIMIT. runnable k t \<longrightarrow> ready k t \<or> running k t)"

definition idle_wf :: "kernel \<Rightarrow> bool" where
  "idle_wf k \<longleftrightarrow> (let i = unat (g_idleTaskID k) in
     is_idle k i \<and> (\<forall>b \<in> {0, 1, 3, 5, 7}. \<not> bit (status k i) b))"

definition run_wf :: "kernel \<Rightarrow> bool" where
  "run_wf k \<longleftrightarrow> g_taskScheduled k \<and> running k (runTask k) \<and>
     (\<forall>t. running k t \<longrightarrow> t = runTask k \<or> bit (status k t) 0) \<and> none_lost k \<and>
     \<not> ready k (runTask k) \<and> runTask k \<notin> set (taskSortLink k) \<and> idle_wf k"

text \<open>The kernel at a point where tasks run.\<close>

definition kernel_inv :: "kernel \<Rightarrow> bool" where
  "kernel_inv k \<longleftrightarrow> sched_inv k \<and> run_wf k"

lemma idle_wf_view:
  assumes "sched_view k' = sched_view k" "idle_wf k"
  shows "idle_wf k'"
  using assms(2) by (simp add: idle_wf_def Let_def sched_viewD [OF assms(1)])

lemma run_wf_view:
  assumes "sched_view k' = sched_view k" "runTask k' = runTask k" "g_taskScheduled k' = g_taskScheduled k"
    and "run_wf k"
  shows "run_wf k'"
  using assms(2-) idle_wf_view [OF assms(1)]
  by (simp add: run_wf_def none_lost_def runnable_def sched_viewD [OF assms(1)])

lemma none_lost_same:
  "none_lost k \<Longrightarrow> (\<And>u b. b \<noteq> 6 \<Longrightarrow> bit (status k' u) b = bit (status k u) b) \<Longrightarrow> none_lost k'"
  by (simp add: none_lost_def runnable_def)

text \<open>A step on one task, which is not lost.\<close>

lemma none_lost_only:
  assumes "none_lost k" "only t k k'" "runnable k' t \<longrightarrow> ready k' t \<or> running k' t"
  shows "none_lost k'"
  unfolding none_lost_def
proof (intro allI impI)
  fix u assume u: "u \<le> LOSCFG_BASE_CORE_TSK_LIMIT" "runnable k' u"
  show "ready k' u \<or> running k' u"
  proof (cases "u = t")
    case False
    then have "status k' u = status k u" using assms(2) by (simp add: only_def task_view_def)
    then show ?thesis using assms(1) u by (simp add: none_lost_def runnable_def)
  qed (use assms(3) u in simp)
qed

lemma kernel_inv_view:
  "sched_view k' = sched_view k \<Longrightarrow> runTask k' = runTask k \<Longrightarrow> g_taskScheduled k' = g_taskScheduled k \<Longrightarrow>
   kernel_inv k \<Longrightarrow> kernel_inv k'"
  using run_wf_view sched_inv_view unfolding kernel_inv_def by blast

lemma run_fields_time [simp]:
  "runTask (LOS_ASSERT b k) = runTask k" "g_taskScheduled (LOS_ASSERT b k) = g_taskScheduled k"
  "runTask (snd (OsGetCurrSchedTimeCycle k)) = runTask k"
  "g_taskScheduled (snd (OsGetCurrSchedTimeCycle k)) = g_taskScheduled k"
  "runTask (OsTimeSliceUpdate t now k) = runTask k"
  "g_taskScheduled (OsTimeSliceUpdate t now k) = g_taskScheduled k"
  "runTask (HalSysTickReload n k) = runTask k" "g_taskScheduled (HalSysTickReload n k) = g_taskScheduled k"
  "runTask (SchedRealSleepTimeSet n k) = runTask k"
  "g_taskScheduled (SchedRealSleepTimeSet n k) = g_taskScheduled k"
  "newTask (SchedRealSleepTimeSet n k) = newTask k" "newTask (HalSysTickReload n k) = newTask k"
  "newTask (snd (OsGetCurrSchedTimeCycle k)) = newTask k"
  by (simp_all add: LOS_ASSERT_def OsGetCurrSchedTimeCycle_def HalGetTickCycle_def OsTimeSliceUpdate_def
      upd_tcb_def HalSysTickReload_def SchedRealSleepTimeSet_def OsPmSleepTimeSet_def Let_def)

lemma run_fields_expire [simp]:
  "runTask (OsSchedSetNextExpireTime s i e u k) = runTask k"
  "g_taskScheduled (OsSchedSetNextExpireTime s i e u k) = g_taskScheduled k"
  "newTask (OsSchedSetNextExpireTime s i e u k) = newTask k"
  by (simp_all add: OsSchedSetNextExpireTime_def Let_def split_beta)

lemma run_fields_queue [simp]:
  "runTask (upd_tcb t f k) = runTask k" "g_taskScheduled (upd_tcb t f k) = g_taskScheduled k"
  "newTask (upd_tcb t f k) = newTask k"
  "runTask (set_status t m k) = runTask k" "g_taskScheduled (set_status t m k) = g_taskScheduled k"
  "newTask (set_status t m k) = newTask k"
  "runTask (clr_status t m k) = runTask k" "g_taskScheduled (clr_status t m k) = g_taskScheduled k"
  "newTask (clr_status t m k) = newTask k"
  "runTask (OsSchedTaskEnQueue t k) = runTask k"
  "g_taskScheduled (OsSchedTaskEnQueue t k) = g_taskScheduled k"
  "runTask (OsSchedTaskDeQueue t k) = runTask k"
  "g_taskScheduled (OsSchedTaskDeQueue t k) = g_taskScheduled k"
  "newTask (OsSchedTaskDeQueue t k) = newTask k"
  by (simp_all add: upd_tcb_def OsSchedTaskEnQueue_def OsSchedTaskDeQueue_def OsSchedPriQueueEnHead_def
      OsSchedPriQueueEnTail_def OsSchedPriQueueDelete_def pend_head_def pend_tail_def pend_del_def
      set_status_def clr_status_def LOS_ASSERT_def Let_def)

section \<open>The task switch\<close>

text \<open>The first half of \<^verbatim>\<open>OsSchedTaskSwitch\<close>: the task that leaves the CPU goes to the
  sort link, back to its ready queue, or stays where its wait has put it.\<close>

definition put_back :: "nat \<Rightarrow> kernel \<Rightarrow> kernel" where
  "put_back t k =
     (if tst (status k t) (OS_TASK_STATUS_PEND_TIME OR OS_TASK_STATUS_DELAY)
      then OsAdd2SortLink t (startTime (tcb k t)) (waitTimes (tcb k t)) OS_SORT_LINK_TASK k
      else if \<not> tst (status k t) (OS_TASK_STATUS_PEND OR OS_TASK_STATUS_SUSPEND OR OS_TASK_STATUS_UNUSED)
      then OsSchedTaskEnQueue t k else k)"

text \<open>The wake-up time of a sleeping task is not the one value the kernel reserves.\<close>

definition wake_ok :: "nat \<Rightarrow> kernel \<Rightarrow> bool" where
  "wake_ok t k \<longleftrightarrow> startTime (tcb k t) + ucast (waitTimes (tcb k t)) * ucast (OS_CYCLE_PER_TICK k)
     \<noteq> OS_SORT_LINK_INVALID_TIME"

lemma Add2SortLink_fields [simp]:
  "taskStatus (tcb (OsAdd2SortLink t s n OS_SORT_LINK_TASK k) u) = taskStatus (tcb k u)"
  "priority (tcb (OsAdd2SortLink t s n OS_SORT_LINK_TASK k) u) = priority (tcb k u)"
  "taskID (tcb (OsAdd2SortLink t s n OS_SORT_LINK_TASK k) u) = taskID (tcb k u)"
  "pend (OsAdd2SortLink t s n OS_SORT_LINK_TASK k) = pend k"
  "g_queueBitmap (OsAdd2SortLink t s n OS_SORT_LINK_TASK k) = g_queueBitmap k"
  "g_idleTaskID (OsAdd2SortLink t s n OS_SORT_LINK_TASK k) = g_idleTaskID k"
  "runTask (OsAdd2SortLink t s n OS_SORT_LINK_TASK k) = runTask k"
  "g_taskScheduled (OsAdd2SortLink t s n OS_SORT_LINK_TASK k) = g_taskScheduled k"
  "set (taskSortLink (OsAdd2SortLink t s n OS_SORT_LINK_TASK k)) = insert t (set (taskSortLink k))"
  by (simp_all add: OsAdd2SortLink_def SET_SORTLIST_VALUE_def set_link_def OsGetSortLinkAttribute_def
      upd_tcb_def Let_def)

lemma inv_Add2SortLink:
  assumes inv: "sched_inv k" and t: "t \<notin> set (taskSortLink k)" "bit (status k t) 5 \<or> bit (status k t) 7"
    and ok: "s + ucast n * ucast (OS_CYCLE_PER_TICK k) \<noteq> OS_SORT_LINK_INVALID_TIME"
  shows "sched_inv (OsAdd2SortLink t s n OS_SORT_LINK_TASK k)" (is "sched_inv ?k")
proof -
  have "link_wf OS_SORT_LINK_TASK ?k"
    using sched_invD(3) [OF inv] ok t by (intro link_wf_add) (simp_all add: OsGetSortLinkAttribute_def)
  moreover have "bitmap_wf ?k" using sched_invD(2) [OF inv] by (subst bitmap_wf_same) simp_all
  moreover have "inv_but t k" "task_wf k t" using inv sched_inv_but by blast+
  ultimately have "inv_but t ?k"
    using sched_invD(1) [OF inv] by (intro inv_but_only [OF \<open>inv_but t k\<close> only_primitives(9)]) simp_all
  moreover have "list_ok ?k t l = list_ok k t l" for l
    by (cases l) (simp_all add: list_ok_def)
  then have "task_wf ?k t" using \<open>task_wf k t\<close> t by (simp add: task_wf_def)
  ultimately show ?thesis using sched_inv_but by blast
qed

lemma put_back_inv:
  assumes inv: "kernel_inv k" and ok: "wake_ok (runTask k) k"
  shows "sched_inv (put_back (runTask k) k)"
proof -
  let ?t = "runTask k"
  have s: "sched_inv k" and r: "\<not> ready k ?t" "?t \<notin> set (taskSortLink k)"
    using inv by (auto simp: kernel_inv_def run_wf_def)
  note wf = sched_invD(4) [OF s, of ?t]
  consider "bit (status k ?t) 5 \<or> bit (status k ?t) 7"
    | "\<not> (bit (status k ?t) 5 \<or> bit (status k ?t) 7)" "pending k ?t \<or> bit (status k ?t) 1 \<or> bit (status k ?t) 0"
    | "\<not> pending k ?t" "\<not> bit (status k ?t) 1" "\<not> bit (status k ?t) 0" "\<not> (bit (status k ?t) 5 \<or> bit (status k ?t) 7)"
    by blast
  then show ?thesis
  proof cases
    case 1
    then have "sched_inv (OsAdd2SortLink ?t (startTime (tcb k ?t)) (waitTimes (tcb k ?t)) OS_SORT_LINK_TASK k)"
      using ok by (intro inv_Add2SortLink [OF s r(2)]) (auto simp: wake_ok_def)
    then show ?thesis using 1 by (auto simp: put_back_def flag_simps)
  next
    case 2
    then show ?thesis using s by (auto simp: put_back_def flag_simps)
  next
    case 3
    have "sched_inv (OsSchedTaskEnQueue ?t k)"
      using s sched_inv_but 3 r task_wfD(1) [OF wf] free_if [OF s r(1) 3(1,3)] by (intro inv_EnQueue) auto
    then show ?thesis using 3 by (auto simp: put_back_def flag_simps)
  qed
qed

lemma put_back_status:
  "u \<noteq> t \<Longrightarrow> status (put_back t k) u = status k u"
  "running (put_back t k) u \<longleftrightarrow> running k u"
proof -
  have o: "u \<noteq> t \<Longrightarrow> status (OsSchedTaskEnQueue t k) u = status k u"
    using only_EnQueue [of t k] by (auto simp: only_def task_view_def)
  then show "u \<noteq> t \<Longrightarrow> status (put_back t k) u = status k u" by (simp add: put_back_def)
  have "running (OsSchedTaskEnQueue t k) t \<longleftrightarrow> running k t" by (simp add: EnQueue_status flag_simps)
  with o show "running (put_back t k) u \<longleftrightarrow> running k u" by (cases "u = t") (simp_all add: put_back_def)
qed

lemma put_back_unused: "bit (status (put_back t k) u) 0 \<longleftrightarrow> bit (status k u) 0"
  by (cases "u = t") (auto simp: put_back_status(1), auto simp: put_back_def EnQueue_status flag_simps split: if_splits)

lemma put_back_fields [simp]:
  "taskID (tcb (put_back t k) u) = taskID (tcb k u)" "priority (tcb (put_back t k) u) = priority (tcb k u)"
  "g_idleTaskID (put_back t k) = g_idleTaskID k" "runTask (put_back t k) = runTask k"
  "g_taskScheduled (put_back t k) = g_taskScheduled k"
  by (simp_all add: put_back_def)

lemma put_back_flags:
  "b \<in> {0, 1, 3, 5, 7} \<Longrightarrow> bit (status (put_back t k) u) b \<longleftrightarrow> bit (status k u) b"
  by (cases "u = t") (auto simp: put_back_status(1), auto simp: put_back_def EnQueue_status flag_simps split: if_splits)

lemma put_back_ready:
  "(bit (status k t) 7 \<Longrightarrow> pending k t) \<Longrightarrow> runnable (put_back t k) t \<Longrightarrow> ready (put_back t k) t"
  by (auto simp: put_back_def runnable_def EnQueue_status flag_simps split: if_splits)

lemma put_back_asleep:
  "bit (status (put_back t k) t) 5 \<or> bit (status (put_back t k) t) 7 \<Longrightarrow> t \<in> set (taskSortLink (put_back t k))"
  by (auto simp: put_back_def EnQueue_status flag_simps split: if_splits)

lemma put_back_idle: "idle_wf k \<Longrightarrow> idle_wf (put_back t k)"
proof -
  assume i: "idle_wf k"
  let ?i = "unat (g_idleTaskID k)"
  have "\<forall>b \<in> {0, 1, 3, 5, 7}. \<not> bit (status (put_back t k) ?i) b"
  proof (cases "?i = t")
    case True
    then show ?thesis using i by (auto simp: idle_wf_def Let_def put_back_def EnQueue_status flag_simps)
  next
    case False
    then show ?thesis using i put_back_status(1) [OF False] by (simp add: idle_wf_def Let_def)
  qed
  then show "idle_wf (put_back t k)" using i by (simp add: idle_wf_def Let_def)
qed

text \<open>The task chosen can run.\<close>

lemma top_clean:
  assumes inv: "sched_inv k" and idle: "idle_wf k"
  shows "\<forall>b \<in> {0, 1, 3, 5, 7}. \<not> bit (status k (OsGetTopTask k)) b" "OsGetTopTask k \<notin> set (taskSortLink k)"
proof -
  show "\<forall>b \<in> {0, 1, 3, 5, 7}. \<not> bit (status k (OsGetTopTask k)) b"
  proof (cases "g_queueBitmap k = 0")
    case True
    then show ?thesis using idle by (simp add: OsGetTopTask_def idle_wf_def Let_def)
  next
    case False
    from task_wfD(5) [OF sched_invD(4) [OF inv] OsGetTopTask_ready(1) [OF inv False]] show ?thesis by simp
  qed
  then show "OsGetTopTask k \<notin> set (taskSortLink k)"
    using task_wfD(9) [OF sched_invD(4) [OF inv]] by blast
qed

lemma inv_set_running: "sched_inv k \<Longrightarrow> sched_inv (set_status t OS_TASK_STATUS_RUNNING k)"
proof -
  assume inv: "sched_inv k"
  let ?k = "set_status t OS_TASK_STATUS_RUNNING k"
  have "inv_but t ?k" using inv sched_inv_but by (intro inv_but_status) blast
  moreover have "list_ok ?k t l = list_ok k t l" for l
    by (cases l) (simp_all add: list_ok_def flag_simps)
  then have "task_wf ?k t" using sched_invD(4) [OF inv, of t] by (simp add: task_wf_def flag_simps)
  ultimately show ?thesis using sched_inv_but by blast
qed

lemma inv_clr_running:
  assumes inv: "sched_inv k"
    and sl: "bit (status k t) 5 \<or> bit (status k t) 7 \<Longrightarrow> t \<in> set (taskSortLink k)"
  shows "sched_inv (clr_status t OS_TASK_STATUS_RUNNING k)"
proof -
  let ?k = "clr_status t OS_TASK_STATUS_RUNNING k"
  have "inv_but t ?k" using inv sched_inv_but by (intro inv_but_status) blast
  moreover have "list_ok ?k t l = list_ok k t l" for l
    by (cases l) (simp_all add: list_ok_def flag_simps)
  then have "task_wf ?k t" using sched_invD(4) [OF inv, of t] sl by (simp add: task_wf_def flag_simps)
  ultimately show ?thesis using sched_inv_but by blast
qed

text \<open>The second half of the switch, on the state after \<open>put_back\<close>.\<close>

definition take_over :: "nat \<Rightarrow> nat \<Rightarrow> kernel \<Rightarrow> kernel" where
  "take_over t t' k = OsSchedTaskDeQueue t'
     (if t \<noteq> t' then upd_tcb t' (\<lambda>c. c\<lparr>startTime := startTime (tcb k t)\<rparr>)
          (set_status t' OS_TASK_STATUS_RUNNING (clr_status t OS_TASK_STATUS_RUNNING k)) else k)"

lemma take_over_inv:
  assumes inv: "sched_inv k" and sl: "bit (status k t) 5 \<or> bit (status k t) 7 \<Longrightarrow> t \<in> set (taskSortLink k)"
  shows "sched_inv (take_over t t' k)"
proof -
  have "sched_inv (upd_tcb t' (\<lambda>c. c\<lparr>startTime := x\<rparr>)
      (set_status t' OS_TASK_STATUS_RUNNING (clr_status t OS_TASK_STATUS_RUNNING k)))" for x
    by (rule sched_inv_view [OF view_upd_tcb]) (simp, intro inv_set_running inv_clr_running inv sl)
  then show ?thesis unfolding take_over_def using inv by (intro inv_DeQueue) simp
qed

lemma take_over_status:
  "running (take_over t t' k) u \<longleftrightarrow> (if u = t \<or> u = t' then u = t' \<and> (t \<noteq> t' \<or> running k t) else running k u)"
  "\<not> ready (take_over t t' k) t'"
  "b \<noteq> 4 \<Longrightarrow> b \<noteq> 2 \<Longrightarrow> bit (status (take_over t t' k) u) b \<longleftrightarrow> bit (status k u) b"
  "ready (take_over t t' k) u \<Longrightarrow> ready k u"
  by (auto simp: take_over_def DeQueue_status flag_simps split: if_splits)

lemma take_over_ready: "u \<noteq> t' \<Longrightarrow> ready (take_over t t' k) u \<longleftrightarrow> ready k u"
  by (auto simp: take_over_def DeQueue_status flag_simps)

lemma take_over_fields [simp]:
  "taskID (tcb (take_over t t' k) u) = taskID (tcb k u)" "priority (tcb (take_over t t' k) u) = priority (tcb k u)"
  "g_idleTaskID (take_over t t' k) = g_idleTaskID k" "taskSortLink (take_over t t' k) = taskSortLink k"
  by (simp_all add: take_over_def)

lemma OsSchedTaskSwitch_view:
  assumes "k2 = OsTimeSliceUpdate (runTask k) (fst (OsGetCurrSchedTimeCycle k)) (snd (OsGetCurrSchedTimeCycle k))"
    and "k3 = put_back (runTask k) k2" and "t' = OsGetTopTask k3"
  shows "sched_view (snd (OsSchedTaskSwitch k)) = sched_view (take_over (runTask k) t' (k3\<lparr>newTask := t'\<rparr>))"
    and "newTask (snd (OsSchedTaskSwitch k)) = t'"
    and "g_taskScheduled (snd (OsSchedTaskSwitch k)) = g_taskScheduled k"
  unfolding assms by (simp_all add: OsSchedTaskSwitch_def take_over_def put_back_def Let_def split_beta)

text \<open>The time at which the task that leaves the CPU will be woken, if it sleeps.\<close>

definition switch_time_ok :: "kernel \<Rightarrow> bool" where
  "switch_time_ok k \<longleftrightarrow>
     fst (OsGetCurrSchedTimeCycle k) + ucast (waitTimes (tcb k (runTask k))) * ucast (OS_CYCLE_PER_TICK k)
       \<noteq> OS_SORT_LINK_INVALID_TIME"

lemma tcb_OsGetCurrSchedTimeCycle [simp]:
  "tcb (snd (OsGetCurrSchedTimeCycle k)) = tcb k" "sysClock (snd (OsGetCurrSchedTimeCycle k)) = sysClock k"
  by (simp_all add: OsGetCurrSchedTimeCycle_def HalGetTickCycle_def LOS_ASSERT_def Let_def)

lemma OsTimeSliceUpdate_times:
  "startTime (tcb (OsTimeSliceUpdate t now k) t) = now"
  "waitTimes (tcb (OsTimeSliceUpdate t now k) t) = waitTimes (tcb k t)"
  "sysClock (OsTimeSliceUpdate t now k) = sysClock k"
  by (simp_all add: OsTimeSliceUpdate_def LOS_ASSERT_def upd_tcb_def Let_def)

lemma HalTaskSwitch_correct:
  assumes inv: "kernel_inv k" and ok: "switch_time_ok k"
  defines "k' \<equiv> HalTaskSwitch k"
  shows "kernel_inv k'"
    and "\<forall>b \<in> {0, 1, 3, 5, 7}. \<not> bit (status k' (runTask k')) b"
    and "ready k' u \<Longrightarrow> \<not> is_idle k' u \<Longrightarrow>
      \<not> is_idle k' (runTask k') \<and> prio k' (runTask k') \<le> prio k' u"
    and "b \<in> {0, 1, 3, 5, 7} \<Longrightarrow> bit (status k' u) b \<longleftrightarrow> bit (status k u) b"
    and "is_idle k' u \<longleftrightarrow> is_idle k u"
proof -
  let ?t = "runTask k"
  define k2 where "k2 = OsTimeSliceUpdate ?t (fst (OsGetCurrSchedTimeCycle k)) (snd (OsGetCurrSchedTimeCycle k))"
  define k3 where "k3 = put_back ?t k2"
  define t' where "t' = OsGetTopTask k3"
  define k6 where "k6 = take_over ?t t' (k3\<lparr>newTask := t'\<rparr>)"
  note sw = OsSchedTaskSwitch_view [OF k2_def k3_def t'_def]
  have v2: "sched_view k2 = sched_view k" "runTask k2 = ?t" "g_taskScheduled k2 = g_taskScheduled k"
    by (simp_all add: k2_def)
  have i2: "kernel_inv k2" by (rule kernel_inv_view [OF v2 inv])
  have "wake_ok ?t k2"
    using ok by (simp add: wake_ok_def switch_time_ok_def k2_def OsTimeSliceUpdate_times OS_CYCLE_PER_TICK_def)
  then have i3: "sched_inv k3" using put_back_inv [OF i2] v2 by (simp add: k3_def)
  have r2: "running k2 ?t" "\<And>u. running k2 u \<Longrightarrow> u = ?t \<or> bit (status k2 u) 0" "idle_wf k2" "none_lost k2"
    using i2 v2 by (auto simp: kernel_inv_def run_wf_def)
  have q3: "ready k3 u" if "u \<le> LOSCFG_BASE_CORE_TSK_LIMIT" "runnable k3 u" for u
  proof (cases "u = ?t")
    case True
    then show ?thesis
      using that task_wfD(8) [OF sched_invD(4), of k2 ?t] i2 by (simp add: kernel_inv_def k3_def put_back_ready)
  next
    case False
    then have "status k3 u = status k2 u" by (simp add: k3_def put_back_status(1))
    then show ?thesis using r2(2,4) that False by (auto simp: none_lost_def runnable_def)
  qed
  have r3: "running k3 ?t" "running k3 u \<Longrightarrow> u = ?t \<or> bit (status k3 u) 0" for u
    using r2(1,2) by (auto simp: k3_def put_back_status(2) put_back_unused)
  have idle3: "idle_wf k3" unfolding k3_def by (rule put_back_idle [OF r2(3)])
  note top = top_clean [OF i3 idle3, folded t'_def]
  have v': "sched_view (k3\<lparr>newTask := t'\<rparr>) = sched_view k3" by simp
  have i3': "sched_inv (k3\<lparr>newTask := t'\<rparr>)" by (rule sched_inv_view [OF v' i3])
  have i6: "sched_inv k6"
    unfolding k6_def using put_back_asleep [of ?t k2] by (intro take_over_inv [OF i3']) (simp add: k3_def)
  note to = take_over_status [where t = ?t and t' = t' and k = "k3\<lparr>newTask := t'\<rparr>", folded k6_def]
  have st6: "running k6 t'" "running k6 u \<Longrightarrow> u = t' \<or> bit (status k6 u) 0" "\<not> ready k6 t'"
    "b \<noteq> 4 \<Longrightarrow> b \<noteq> 2 \<Longrightarrow> bit (status k6 u) b \<longleftrightarrow> bit (status k3 u) b"
    "ready k6 u \<Longrightarrow> ready k3 u" for u b
    using r3(1) r3(2) [of u] to(1) [of u] to(1) [of t'] to(2) to(3) [of b u] to(3) [of 0 u] to(4) [of u]
    by (auto split: if_splits)
  have "none_lost k6"
    unfolding none_lost_def
  proof (intro allI impI)
    fix u assume u: "u \<le> LOSCFG_BASE_CORE_TSK_LIMIT" "runnable k6 u"
    then have "runnable k3 u" using st6(4) by (simp add: runnable_def)
    then have "ready k3 u" by (rule q3 [OF u(1)])
    then show "ready k6 u \<or> running k6 u"
      using st6(1) take_over_ready [of u t' ?t "k3\<lparr>newTask := t'\<rparr>"] by (cases "u = t'") (simp_all add: k6_def)
  qed
  then have q6: "none_lost k'" if "sched_view k' = sched_view k6" for k'
    by (simp add: none_lost_def runnable_def sched_viewD [OF that])
  have idle6: "idle_wf k6"
    using idle3 st6(4) by (simp add: idle_wf_def Let_def k6_def)
  have vk: "sched_view k' = sched_view k6" "runTask k' = t'" "g_taskScheduled k' = g_taskScheduled k"
    using sw by (simp_all add: k'_def HalTaskSwitch_def k6_def Let_def)
  note eq = sched_viewD [OF vk(1)]
  show "kernel_inv k'"
    unfolding kernel_inv_def run_wf_def
    using sched_inv_view [OF vk(1) i6] idle_wf_view [OF vk(1) idle6] q6 [OF vk(1)] inv top(2) st6(1-3)
    by (simp add: vk eq kernel_inv_def run_wf_def k6_def)
  show "\<forall>b \<in> {0, 1, 3, 5, 7}. \<not> bit (status k' (runTask k')) b"
    using top(1) st6(4) by (simp add: vk eq)
  show "is_idle k' u \<longleftrightarrow> is_idle k u" by (simp add: eq k6_def k3_def sched_viewD [OF v2(1)])
  show "bit (status k' u) b \<longleftrightarrow> bit (status k u) b" if "b \<in> {0, 1, 3, 5, 7}"
  proof -
    have "bit (status k' u) b \<longleftrightarrow> bit (status k3 u) b" unfolding eq(1) by (rule st6(4)) (use that in auto)
    then show ?thesis using put_back_flags [OF that, of ?t k2 u] sched_viewD(1) [OF v2(1)] by (simp add: k3_def)
  qed
  assume u: "ready k' u" "\<not> is_idle k' u"
  then have u3: "ready k3 u" "\<not> is_idle k3 u" using st6(5) by (simp_all add: eq k6_def)
  then have "g_queueBitmap k3 \<noteq> 0" using OsGetTopTask_none [OF i3] by blast
  from OsGetTopTask_ready(2,4) [OF i3 this] u3 show
    "\<not> is_idle k' (runTask k') \<and> prio k' (runTask k') \<le> prio k' u"
    by (simp add: vk eq k6_def t'_def)
qed

end
