(* ===== verification/Demo_State.thy ===== *)
theory Demo_State
  imports Sched_Switch
begin

text \<open>
  A concrete kernel state, used to evaluate the operations of the model: the idle task
  (task 0) is ready, task 1 runs at priority 5, task 2 is ready at priority 7, task 3
  waits at priority 6 for semaphore 0 with a timeout, the other control blocks are
  unused.  It satisfies the invariants of the scheduler.
\<close>

definition demo_tcb :: "nat \<Rightarrow> LosTaskCB" where
  "demo_tcb t =
     \<lparr>stackPointer = 0x20001000,
      taskStatus = (if t = 0 then OS_TASK_STATUS_READY else if t = 1 then OS_TASK_STATUS_RUNNING
                    else if t = 2 then OS_TASK_STATUS_READY
                    else if t = 3 then OS_TASK_STATUS_PEND OR OS_TASK_STATUS_PEND_TIME
                    else OS_TASK_STATUS_UNUSED),
      priority = (if t = 0 then 31 else if t = 1 then 5 else if t = 2 then 7 else if t = 3 then 6 else 0),
      timeSlice = 0,
      waitTimes = 10,
      responseTime = (if t = 3 then 5000000 else OS_SORT_LINK_INVALID_TIME),
      startTime = 0,
      stackSize = 0x400, topOfStack = 0x20000C00,
      taskID = (if t < 14 then of_nat t else 0xFF),
      taskEntry = 0x1000, taskSem = (if t = 3 then Some 0 else None), taskMux = None, taskArg = 0,
      taskName = Some ''demo'', taskEventID = 0, eventMask = 0, eventMode = 0, taskMsg = 0\<rparr>"

definition demo_kernel :: kernel where
  "demo_kernel =
     \<lparr>tcb = demo_tcb,
      pend = (\<lambda>l. if l = PriQueue 7 then [2] else if l = SemList 0 then [3]
                  else if l = FreeTask then [4, 5, 6, 7, 8, 9, 10, 11, 12] else []),
      g_queueBitmap = 0x1000000,
      taskSortLink = [3], swtmrSortLink = [],
      runTask = 1, newTask = 1, g_losTaskLock = 0, g_taskMaxNum = 13, g_idleTaskID = 0,
      g_swtmrTaskID = 11, g_taskScheduled = True, g_schedResponseID = OS_INVALID,
      g_schedResponseTime = 5000000, g_schedTimerBase = 1000, oldSchedTime = 1000,
      sleepTimeSetSet = True, g_pmSleepTime = 0, swtmrScanSet = True, sysClock = 96000000,
      g_intCount = 0, SysTick_CNT = 500, SysTick_CMP = 95999, swiPending = False, assertFailed = False,
      g_allSem = (\<lambda>i. \<lparr>semStat = (if i = 0 then 1 else 0), semCount = 0, maxSemCount = 1, semID = of_nat i\<rparr>),
      g_unusedSemList = [1, 2, 3],
      g_allMux = (\<lambda>i. \<lparr>muxStat = 0, muxCount = 0, muxID = of_nat i, muxOwner = None, muxPriority = 0\<rparr>),
      g_unusedMuxList = [0, 1, 2],
      eventCB = (\<lambda>a. \<lparr>uwEventID = 0, eventInit = (a = 1)\<rparr>),
      g_allQueue = (\<lambda>i. \<lparr>queueMem = [], queueState = 0, queueLen = 0, queueSize = 0,
        queueID = of_nat i, queueHead = 0, queueTail = 0, readableCnt = 0, writableCnt = 0\<rparr>),
      g_freeQueueList = [0, 1, 2],
      g_swtmrCBArray = (\<lambda>i. \<lparr>ucState = 0, ucMode = 0, ucRouses = 0, ucSensitive = 0,
        usTimerID = of_nat i, uwCount = 0, uwInterval = 0, uwArg = 0, pfnHandler = 0,
        swtmrResponseTime = OS_SORT_LINK_INVALID_TIME\<rparr>),
      g_swtmrFreeList = [0, 1, 2],
      g_swtmrAlignID = (\<lambda>i. \<lparr>alignTimes = 0, canMultiple = False, canAlign = False, isAligned = False\<rparr>),
      g_swtmrHandlerQueue = 0\<rparr>"

lemma demo_status:
  "taskStatus (demo_tcb 0) = OS_TASK_STATUS_READY" "taskStatus (demo_tcb (Suc 0)) = OS_TASK_STATUS_RUNNING"
  "taskStatus (demo_tcb 2) = OS_TASK_STATUS_READY"
  "taskStatus (demo_tcb 3) = OS_TASK_STATUS_PEND OR OS_TASK_STATUS_PEND_TIME"
  "t \<notin> {0, 1, 2, 3} \<Longrightarrow> taskStatus (demo_tcb t) = OS_TASK_STATUS_UNUSED"
  by (simp_all add: demo_tcb_def)

lemma demo_fields:
  "tcb demo_kernel = demo_tcb" "runTask demo_kernel = 1" "g_idleTaskID demo_kernel = 0"
  "taskSortLink demo_kernel = [3]" "g_queueBitmap demo_kernel = 0x1000000" "g_taskScheduled demo_kernel"
  "g_losTaskLock demo_kernel = 0" "g_intCount demo_kernel = 0"
  by (simp_all add: demo_kernel_def)

lemma demo_pend:
  "pend demo_kernel l = (if l = PriQueue 7 then [2] else if l = SemList 0 then [3]
     else if l = FreeTask then [4, 5, 6, 7, 8, 9, 10, 11, 12] else [])"
  by (simp add: demo_kernel_def)

lemma demo_task_wf: "task_wf demo_kernel t"
proof -
  consider "t = 0" | "t = 1" | "t = 2" | "t = 3" | "t \<notin> {0, 1, 2, 3}" by blast
  then show ?thesis
  proof cases
    case 5
    then show ?thesis
      by (auto simp: task_wf_def demo_fields demo_pend demo_status list_ok_def flag_simps demo_tcb_def
          split: if_splits)
  qed (auto simp: task_wf_def demo_fields demo_pend demo_status list_ok_def flag_simps demo_tcb_def)
qed

lemma demo_inv: "kernel_inv demo_kernel"
  unfolding kernel_inv_def
proof
  show "sched_inv demo_kernel"
  proof (rule sched_invI)
    show "pl_disjoint (pend demo_kernel)" by (auto simp: pl_disjoint_def demo_pend)
    have "bit (g_queueBitmap demo_kernel) (31 - p) \<longleftrightarrow> p = 7" if "p < 32" for p
    proof -
      have "(31 - p = 24) = (p = 7)" using that by linarith
      then show ?thesis using bit_exp_word [where 'a = 32, of 24 "31 - p"] by (simp add: demo_fields)
    qed
    then show "bitmap_wf demo_kernel" by (simp add: bitmap_wf_def demo_pend)
    have "OS_SORT_LINK_INVALID_TIME \<noteq> 5000000" by (simp add: OS_SORT_LINK_INVALID_TIME_def)
    then have "link_key OS_SORT_LINK_TASK demo_kernel n \<noteq> OS_SORT_LINK_INVALID_TIME \<longleftrightarrow> n = 3" for n
      by (simp add: link_key_def demo_fields demo_tcb_def)
    then show "link_wf OS_SORT_LINK_TASK demo_kernel"
      by (auto simp: link_wf_def OsGetSortLinkAttribute_def demo_fields)
  qed (rule demo_task_wf)
  have "running demo_kernel t \<longleftrightarrow> t = 1" for t
  proof -
    consider "t = 0" | "t = 1" | "t = 2" | "t = 3" | "t \<notin> {0, 1, 2, 3}" by blast
    then show ?thesis by cases (auto simp: demo_fields demo_status flag_simps)
  qed
  moreover have "none_lost demo_kernel"
    by (simp add: none_lost_def runnable_def demo_fields demo_tcb_def flag_simps)
  ultimately show "run_wf demo_kernel"
    by (simp add: run_wf_def idle_wf_def demo_fields demo_status flag_simps) (simp add: demo_tcb_def)
qed

lemma demo_switch_time_ok: "switch_time_ok demo_kernel"
  by (simp add: switch_time_ok_def OsGetCurrSchedTimeCycle_def HalGetTickCycle_def LOS_ASSERT_def
      OS_CYCLE_PER_TICK_def LOSCFG_BASE_CORE_TICK_PER_SECOND_def OS_SORT_LINK_INVALID_TIME_def
      demo_kernel_def demo_tcb_def)

end
