(* ===== verification/Sched_Spec.thy ===== *)
theory Sched_Spec
  imports Demo_State
begin

text \<open>
  What the lists, the sort link and the scheduler promise to the rest of the kernel: the
  properties of \<open>Los_List\<close>, \<open>Los_SortLink\<close> and \<open>Los_Sched\<close>, each with an evaluation at a
  concrete state where it has hypotheses.
\<close>

section \<open>The timeout scan\<close>

lemma wake_head:
  fixes b :: bool
  assumes inv: "sched_inv k" and t: "t \<in> set (taskSortLink k)"
  defines "k' \<equiv> snd (OsSchedWakePendTimeTask t b (OsDeleteNodeSortLink OS_SORT_LINK_TASK t k))"
  shows "only t k k'" "\<not> pending k' t" "bit (status k' t) 6 \<longleftrightarrow> pending k t \<or> bit (status k t) 6"
    and "ready k' t \<longleftrightarrow> \<not> bit (status k t) 1"
    and "fst (OsSchedWakePendTimeTask t b (OsDeleteNodeSortLink OS_SORT_LINK_TASK t k)) \<longleftrightarrow>
      b \<or> \<not> bit (status k t) 1"
proof -
  note wf = sched_invD(4) [OF inv, of t]
  have pd: "pending k t \<or> bit (status k t) 5" and nr: "\<not> ready k t"
    using task_wfD(5,8,9) [OF wf] t by blast+
  show "only t k k'"
    unfolding k'_def OsSchedWakePendTimeTask_def Let_def
    by (auto intro!: only_steps only_trans [OF _ only_EnQueue])
  show "\<not> pending k' t" "bit (status k' t) 6 \<longleftrightarrow> pending k t \<or> bit (status k t) 6"
    "ready k' t \<longleftrightarrow> \<not> bit (status k t) 1"
    "fst (OsSchedWakePendTimeTask t b (OsDeleteNodeSortLink OS_SORT_LINK_TASK t k)) \<longleftrightarrow>
      b \<or> \<not> bit (status k t) 1"
    using pd nr by (auto simp: k'_def OsSchedWakePendTimeTask_def Let_def EnQueue_status flag_simps)
qed

definition expired :: "u64 \<Rightarrow> kernel \<Rightarrow> nat \<Rightarrow> bool" where
  "expired now k t \<longleftrightarrow> t \<in> set (taskSortLink k) \<and> responseTime (tcb k t) \<le> now"

text \<open>The result of a scan at time \<open>now\<close>, as a relation between the state before and after.\<close>

definition scan_effect :: "u64 \<Rightarrow> bool \<Rightarrow> kernel \<Rightarrow> bool \<times> kernel \<Rightarrow> bool" where
  "scan_effect now b k r \<longleftrightarrow>
     taskSortLink (snd r) = filter (\<lambda>u. \<not> responseTime (tcb k u) \<le> now) (taskSortLink k) \<and>
     (\<forall>u. \<not> expired now k u \<longrightarrow> task_view (snd r) u = task_view k u) \<and>
     (\<forall>u. expired now k u \<longrightarrow> \<not> pending (snd r) u \<and>
        (bit (status (snd r) u) 6 \<longleftrightarrow> pending k u \<or> bit (status k u) 6) \<and>
        (ready (snd r) u \<longleftrightarrow> \<not> bit (status k u) 1)) \<and>
     (fst r \<longleftrightarrow> b \<or> (\<exists>u. expired now k u \<and> \<not> bit (status k u) 1))"

lemma sorted_link: "sched_inv k \<Longrightarrow> sorted_by (\<lambda>u. responseTime (tcb k u)) (taskSortLink k) \<and> distinct (taskSortLink k)"
  using link_wfD(1,2) [OF sched_invD(3), of k]
  by (simp add: OsGetSortLinkAttribute_def link_key_def [abs_def] cong: map_cong)

lemma scan_effect_done:
  assumes inv: "sched_inv k" and none: "taskSortLink k \<noteq> [] \<Longrightarrow> \<not> responseTime (tcb k (hd (taskSortLink k))) \<le> now"
  shows "scan_effect now b k (b, k)"
proof -
  have "\<forall>u \<in> set (taskSortLink k). \<not> responseTime (tcb k u) \<le> now"
  proof (cases "taskSortLink k")
    case (Cons t ts)
    then show ?thesis using none sorted_link [OF inv] by fastforce
  qed simp
  then show ?thesis by (auto simp: scan_effect_def expired_def filter_id_conv)
qed

lemma scan_effect_step:
  fixes b :: bool
  assumes inv: "sched_inv k" and link: "taskSortLink k = t # ts" and now: "responseTime (tcb k t) \<le> now"
  defines "r' \<equiv> OsSchedWakePendTimeTask t b (OsDeleteNodeSortLink OS_SORT_LINK_TASK t k)"
  assumes rest: "scan_effect now (fst r') (snd r') r"
  shows "scan_effect now b k r"
proof -
  have t: "t \<in> set (taskSortLink k)" by (simp add: link)
  note h = wake_head [OF inv t, of b, folded r'_def]
  have notin: "t \<notin> set ts" using sorted_link [OF inv] link by simp
  have link': "taskSortLink (snd r') = ts" using notin link by (simp add: r'_def)
  have o: "task_view (snd r') u = task_view k u" if "u \<noteq> t" for u
    using h(1) that by (simp add: only_def)
  have resp: "responseTime (tcb (snd r') u) = responseTime (tcb k u)"
    "status (snd r') u = status k u" if "u \<noteq> t" for u
    using o [OF that] by (simp_all add: task_view_def)
  have e: "expired now (snd r') u \<longleftrightarrow> u \<noteq> t \<and> expired now k u" for u
    using resp(1) [of u] notin by (cases "u = t") (auto simp: expired_def link link')
  have et: "expired now k t" using t now by (simp add: expired_def)
  have "filter (\<lambda>u. \<not> responseTime (tcb (snd r') u) \<le> now) ts = filter (\<lambda>u. \<not> responseTime (tcb k u) \<le> now) ts"
    using resp(1) notin by (intro filter_cong) (auto, metis+)
  then have 1: "taskSortLink (snd r) = filter (\<lambda>u. \<not> responseTime (tcb k u) \<le> now) (taskSortLink k)"
    using rest now by (simp add: scan_effect_def link link')
  have 2: "task_view (snd r) u = task_view k u" if "\<not> expired now k u" for u
  proof -
    have ne: "u \<noteq> t" using that et by blast
    moreover have "\<not> expired now (snd r') u" using that e by blast
    ultimately show ?thesis using rest o [OF ne] by (simp add: scan_effect_def)
  qed
  have tt: "status (snd r) t = status (snd r') t"
    using rest e [of t] by (auto simp: scan_effect_def task_view_def)
  have 3: "\<not> pending (snd r) u \<and> (bit (status (snd r) u) 6 \<longleftrightarrow> pending k u \<or> bit (status k u) 6) \<and>
      (ready (snd r) u \<longleftrightarrow> \<not> bit (status k u) 1)" if "expired now k u" for u
  proof (cases "u = t")
    case True
    then show ?thesis using h(2-4) tt by simp
  next
    case False
    then have "expired now (snd r') u" using that e by blast
    with rest show ?thesis unfolding scan_effect_def using resp(2) [OF False] by metis
  qed
  have "fst r \<longleftrightarrow> fst r' \<or> (\<exists>u. expired now (snd r') u \<and> \<not> bit (status (snd r') u) 1)"
    using rest by (simp add: scan_effect_def)
  also have "\<dots> \<longleftrightarrow> b \<or> (\<exists>u. expired now k u \<and> \<not> bit (status k u) 1)"
    using h(5) e et resp(2) by metis
  finally show ?thesis using 1 2 3 by (simp add: scan_effect_def)
qed

lemma scan_timer_loop_effect: "sched_inv k \<Longrightarrow> scan_effect now b k (scan_timer_loop now b k)"
proof (induction now b k rule: scan_timer_loop.induct)
  case (1 now b k)
  show ?case
  proof (cases "taskSortLink k \<noteq> [] \<and> responseTime (tcb k (hd (taskSortLink k))) \<le> now")
    case True
    then obtain t ts where link: "taskSortLink k = t # ts" and now: "responseTime (tcb k t) \<le> now"
      by (cases "taskSortLink k") auto
    let ?r = "OsSchedWakePendTimeTask t b (OsDeleteNodeSortLink OS_SORT_LINK_TASK t k)"
    have "sched_inv (snd ?r)" using 1(2) link by (intro WakePendTime_inv) auto
    then have "scan_effect now (fst ?r) (snd ?r) (scan_timer_loop now (fst ?r) (snd ?r))"
      using 1(1) link now by blast
    then have "scan_effect now b k (scan_timer_loop now (fst ?r) (snd ?r))"
      by (rule scan_effect_step [OF 1(2) link now])
    then show ?thesis using link now by (subst scan_timer_loop.simps) (simp add: Let_def)
  next
    case False
    then have "scan_timer_loop now b k = (b, k)"
      by (subst scan_timer_loop.simps) (auto split: list.splits)
    then show ?thesis using scan_effect_done [OF 1(2)] False by auto
  qed
qed

section \<open>Properties of the lists\<close>

text \<open>
  C4: The intrusive lists refine a family of HOL lists.  On a store that represents the
  family, inserting a node that is in no list at the tail (or head) of list \<open>l\<close> gives a store
  that represents the family with the node appended to (or put in front of) that list, with
  every other list as it was; and deleting it from there by its own address alone gives a
  store that represents the family as it was before the insertion.
\<close>

theorem lists_refine_families:
  assumes "rings at h f" "n \<noteq> 0" "pl_free n f" "n \<notin> range at"
  shows "rings at (LOS_ListTailInsert h (at l) n) (f(l := f l @ [n])) \<and>
    rings at (LOS_ListHeadInsert h (at l) n) (f(l := n # f l)) \<and>
    rings at (LOS_ListDelete (LOS_ListTailInsert h (at l) n) n) f"
proof (intro conjI)
  show t: "rings at (LOS_ListTailInsert h (at l) n) (f(l := f l @ [n]))"
    using rings_LOS_ListTailInsert [OF assms] by (simp add: pl_tail_def)
  show "rings at (LOS_ListHeadInsert h (at l) n) (f(l := n # f l))"
    using rings_LOS_ListAdd [OF assms] by (simp add: LOS_ListHeadInsert_def pl_head_def)
  have "pl_del n (f(l := f l @ [n])) = f"
    using assms(3) by (auto simp: pl_del_def pl_free_def fun_eq_iff)
  then show "rings at (LOS_ListDelete (LOS_ListTailInsert h (at l) n) n) f"
    using rings_LOS_ListDelete [OF t, of n l] by simp
qed

definition demo_store :: dl_store where
  "demo_store = \<lparr>pstPrev = (\<lambda>a. a), pstNext = (\<lambda>a. a)\<rparr>"

theorem lists_refine_families_witness:
  "rings (\<lambda>b. if b then 1 else 2) (LOS_ListTailInsert demo_store 1 5) ((\<lambda>_. [])(True := [5]))"
proof -
  have "rings (\<lambda>b. if b then 1 else 2) demo_store (\<lambda>_. [])"
    by (auto simp: rings_def dlist_def demo_store_def)
  moreover have "pl_free 5 (\<lambda>_. [])" "5 \<notin> range (\<lambda>b. if b then 1 else 2 :: nat)"
    by (auto simp: pl_free_def split: if_splits)
  ultimately show ?thesis using lists_refine_families [of _ demo_store _ 5 True] by fastforce
qed

text \<open>
  C3: Insertion into a sort link terminates and keeps it sorted.  On a ring that represents
  a link sorted by response time, the backward pointer search of
  \<^verbatim>\<open>OsAddNode2SortLink\<close> stops, and the resulting ring holds the old nodes and the
  new one, sorted and without duplicates.
\<close>

theorem sort_link_insertion:
  assumes "dlist h l xs" "n \<noteq> 0" "n \<notin> set (l # xs)" "sorted_by key xs"
  shows "\<exists>h' ys. OsAddNode2SortLink_store key h l n = Some h' \<and> dlist h' l ys \<and>
    ys = OsAddNode2SortLink key n xs \<and> set ys = insert n (set xs) \<and> distinct ys \<and> sorted_by key ys"
proof -
  obtain h' where h: "OsAddNode2SortLink_store key h l n = Some h'"
    "dlist h' l (OsAddNode2SortLink key n xs)"
    using store_insertion [OF assms(1-3)] by blast
  then have "distinct (OsAddNode2SortLink key n xs)" by (simp add: dlist_def)
  with h sorted_OsAddNode2SortLink [OF assms(4), of n] show ?thesis by auto
qed

theorem sort_link_insertion_witness:
  "\<exists>h' ys. OsAddNode2SortLink_store (\<lambda>a. of_nat a) (LOS_ListTailInsert demo_store 1 5) 1 7 = Some h' \<and>
     dlist h' 1 ys \<and> ys = [5, 7]"
proof -
  have "dlist demo_store 1 []" by (simp add: dlist_def demo_store_def)
  from dlist_LOS_ListTailInsert [OF this, of 5] have "dlist (LOS_ListTailInsert demo_store 1 5) 1 [5]" by simp
  from sort_link_insertion [OF this, of 7 "\<lambda>a. of_nat a"] show ?thesis
    by (auto simp: OsAddNode2SortLink_def)
qed

section \<open>Properties of the scheduler\<close>

text \<open>
  The scheduler picks the best task.  In a state that satisfies the invariant,
  \<^verbatim>\<open>OsGetTopTask\<close> returns the task at the head of the queue of the highest
  priority (lowest number) among all ready tasks other than the idle task, and the idle
  task exactly when no other task is ready.
\<close>

lemma top_task_is_best:
  assumes "sched_inv k"
  shows "if \<exists>u. ready k u \<and> \<not> is_idle k u
    then ready k (OsGetTopTask k) \<and> \<not> is_idle k (OsGetTopTask k) \<and>
      hd (pend k (PriQueue (prio k (OsGetTopTask k)))) = OsGetTopTask k \<and>
      (\<forall>u. ready k u \<and> \<not> is_idle k u \<longrightarrow> prio k (OsGetTopTask k) \<le> prio k u)
    else OsGetTopTask k = unat (g_idleTaskID k)"
proof (cases "g_queueBitmap k = 0")
  case True
  then show ?thesis using OsGetTopTask_none [OF assms] by (auto simp: OsGetTopTask_def)
next
  case False
  note top = OsGetTopTask_ready [OF assms False]
  have "hd (pend k (PriQueue (prio k (OsGetTopTask k)))) = OsGetTopTask k"
    by (subst top(3)) simp
  with top show ?thesis by auto
qed

lemma switch_takes_best:
  assumes "kernel_inv k" "switch_time_ok k" "u \<le> LOSCFG_BASE_CORE_TSK_LIMIT" "runnable (HalTaskSwitch k) u"
    "\<not> is_idle (HalTaskSwitch k) u"
  defines "k' \<equiv> HalTaskSwitch k"
  shows "\<not> is_idle k' (runTask k') \<and> prio k' (runTask k') \<le> prio k' u"
proof (cases "u = runTask k'")
  case False
  note c = HalTaskSwitch_correct [OF assms(1,2), folded k'_def]
  have "\<not> bit (status k' u) 0" using assms(4) by (simp add: runnable_def k'_def)
  then have "ready k' u" using c(1) assms(3,4) False by (auto simp: kernel_inv_def run_wf_def none_lost_def k'_def)
  then show ?thesis using c(3) assms(5) by (simp add: k'_def)
qed (use assms in simp)

text \<open>
  C1: A task switch is correct.  From a state in which the kernel's invariants hold (and
  the wake-up time of the outgoing task is not the one reserved value), \<^verbatim>\<open>HalTaskSwitch\<close>
  ends in such a state again: exactly one task in use has the running flag, it is able to run
  (not waiting, not suspended, not asleep, not deleted), and no other task that is able to run has
  a higher priority; the idle task runs only when no other task is able to run.  The switch changes
  for no task whether it is able to run, and a task that is taken off the CPU while it could go on
  is put back into its ready queue.
\<close>

theorem task_switch_correct:
  assumes "kernel_inv k" "switch_time_ok k"
  shows "let k' = HalTaskSwitch k; t = runTask k' in
    kernel_inv k' \<and> (\<forall>u. running k' u \<and> \<not> bit (status k' u) 0 \<longleftrightarrow> u = t) \<and>
    \<not> tst (status k' t) (OS_TASK_STATUS_UNUSED OR OS_TASK_STATUS_SUSPEND OR OS_TASK_STATUS_PEND OR
        OS_TASK_STATUS_DELAY OR OS_TASK_STATUS_PEND_TIME) \<and>
    (\<forall>u \<le> LOSCFG_BASE_CORE_TSK_LIMIT. runnable k' u \<and> \<not> is_idle k' u \<longrightarrow>
       \<not> is_idle k' t \<and> prio k' t \<le> prio k' u) \<and>
    (\<forall>u. runnable k' u \<longleftrightarrow> runnable k u) \<and>
    (runnable k (runTask k) \<and> runTask k \<le> LOSCFG_BASE_CORE_TSK_LIMIT \<and> runTask k \<noteq> t \<and> \<not> is_idle k (runTask k) \<longrightarrow>
       runTask k \<in> set (pend k' (PriQueue (prio k' (runTask k)))))"
proof -
  let ?k = "HalTaskSwitch k" let ?r = "runTask k"
  note c = HalTaskSwitch_correct [OF assms]
  have "\<forall>u. running ?k u \<and> \<not> bit (status ?k u) 0 \<longleftrightarrow> u = runTask ?k"
    using c(1,2) unfolding kernel_inv_def run_wf_def by blast
  moreover have "\<not> tst (status ?k (runTask ?k)) (OS_TASK_STATUS_UNUSED OR OS_TASK_STATUS_SUSPEND OR
      OS_TASK_STATUS_PEND OR OS_TASK_STATUS_DELAY OR OS_TASK_STATUS_PEND_TIME)"
    using c(2) by (simp add: flag_simps)
  moreover have run: "\<forall>u. runnable ?k u \<longleftrightarrow> runnable k u"
    using c(4) [of 0] c(4) [of 1] c(4) [of 3] c(4) [of 5] by (simp add: runnable_def)
  moreover have "?r \<in> set (pend ?k (PriQueue (prio ?k ?r)))"
    if "runnable k ?r" "?r \<le> LOSCFG_BASE_CORE_TSK_LIMIT" "?r \<noteq> runTask ?k" "\<not> is_idle ?k ?r"
  proof -
    have "\<not> bit (status ?k ?r) 0" using c(4) [of 0] that(1) by (simp add: runnable_def)
    then have "ready ?k ?r" using c(1) run that by (auto simp: kernel_inv_def run_wf_def none_lost_def)
    then show ?thesis using c(1) task_wfD(3) [OF sched_invD(4)] that(4) by (simp add: kernel_inv_def)
  qed
  moreover have "is_idle ?k ?r \<longleftrightarrow> is_idle k ?r" by (rule c(5))
  ultimately show ?thesis
    using c(1) switch_takes_best [OF assms] unfolding Let_def by blast
qed

theorem task_switch_correct_witness: "kernel_inv (HalTaskSwitch demo_kernel)"
  using task_switch_correct [OF demo_inv demo_switch_time_ok] by (simp add: Let_def)

text \<open>
  C2: The tick's scan wakes exactly the tasks that are due.  After a scan at time \<open>now\<close> the
  sort link holds the tasks that are not yet due, in their order; every task that was due is
  no longer waiting, carries the timeout flag if it had been, and is ready unless it is
  suspended; no other task has changed; the scan asks for a reschedule exactly when it made
  a task ready; and the invariant still holds.
\<close>

theorem timer_scan_wakes_due_tasks:
  assumes "sched_inv k"
  shows "scan_effect now b k (scan_timer_loop now b k) \<and> sched_inv (snd (scan_timer_loop now b k))"
  using scan_timer_loop_effect [OF assms] scan_timer_loop_inv [OF assms] by blast

theorem timer_scan_wakes_due_tasks_witness:
  "taskSortLink (snd (scan_timer_loop 5000000 False demo_kernel)) = [] \<and>
   ready (snd (scan_timer_loop 5000000 False demo_kernel)) 3"
proof -
  have "sched_inv demo_kernel" using demo_inv by (simp add: kernel_inv_def)
  note e = timer_scan_wakes_due_tasks [OF this, of 5000000 False, unfolded scan_effect_def]
  have "expired 5000000 demo_kernel 3" by (simp add: expired_def demo_fields demo_tcb_def)
  then show ?thesis using e by (auto simp: demo_fields demo_tcb_def flag_simps)
qed

end
