(* ===== verification/Sched_Client.thy ===== *)
theory Sched_Client
  imports Demo_State
begin

text \<open>
  The scheduler as the IPC modules see it.  Each of them blocks the running task on one of
  its lists with \<^verbatim>\<open>OsSchedTaskWait\<close>, wakes tasks with \<^verbatim>\<open>OsSchedTaskWake\<close> and
  asks for a switch with \<^verbatim>\<open>LOS_Schedule\<close>; the locale \<open>waker\<close> states what they rely on,
  and is interpreted on the scheduler's own definitions.
\<close>

section \<open>Unfoldings\<close>

text \<open>The three calls down to record updates, for the fields they leave alone.\<close>

lemmas wake_defs = OsSchedTaskWake_def OsSchedTaskEnQueue_def OsSchedPriQueueEnHead_def
  OsSchedPriQueueEnTail_def OsDeleteSortLink_def OsDeleteNodeSortLink_def SET_SORTLIST_VALUE_def
  set_link_def Let_def upd_tcb_def set_status_def clr_status_def pend_head_def pend_tail_def
  pend_del_def LOS_ASSERT_def

lemmas wait_defs = OsSchedTaskWait_def Let_def upd_tcb_def set_status_def pend_tail_def

lemmas schedule_defs = LOS_Schedule_def HalTaskSchedule_def

lemma Schedule_fields [simp]:
  "pend (LOS_Schedule k) = pend k" "tcb (LOS_Schedule k) = tcb k" "runTask (LOS_Schedule k) = runTask k"
  by (simp_all add: schedule_defs)

lemma u16_no_wrap: "w \<noteq> 0xFFFF \<Longrightarrow> w + 1 \<noteq> (0 :: u16)"
proof
  assume "w \<noteq> 0xFFFF" "w + 1 = 0"
  then have "w = - 1" by (simp add: eq_neg_iff_add_eq_0)
  then show False using \<open>w \<noteq> 0xFFFF\<close> by simp
qed

section \<open>Waking tasks\<close>

locale waker =
  fixes inv :: "'s \<Rightarrow> bool"
    and waiting :: "'s \<Rightarrow> nat \<Rightarrow> bool"
    and wake :: "nat \<Rightarrow> 's \<Rightarrow> 's"
  assumes wake_inv: "inv s \<Longrightarrow> waiting s t \<Longrightarrow> inv (wake t s)"
    and wake_done: "\<not> waiting (wake t s) t"
    and wake_frame: "u \<noteq> t \<Longrightarrow> waiting (wake t s) u \<longleftrightarrow> waiting s u"
begin

text \<open>Waking a set of waiting tasks one after the other, in any order.\<close>

lemma wake_all:
  "inv s \<Longrightarrow> distinct ts \<Longrightarrow> (\<forall>t \<in> set ts. waiting s t) \<Longrightarrow>
   inv (fold wake ts s) \<and> (\<forall>u. waiting (fold wake ts s) u \<longleftrightarrow> waiting s u \<and> u \<notin> set ts)"
proof (induction ts arbitrary: s)
  case (Cons t ts)
  have "inv (wake t s)" using Cons.prems wake_inv by simp
  moreover have "\<forall>u \<in> set ts. waiting (wake t s) u"
    using Cons.prems wake_frame by (metis distinct.simps(2) list.set_intros(2))
  ultimately have "inv (fold wake ts (wake t s)) \<and>
      (\<forall>u. waiting (fold wake ts (wake t s)) u \<longleftrightarrow> waiting (wake t s) u \<and> u \<notin> set ts)"
    using Cons.IH Cons.prems(2) by simp
  then show ?case using wake_done wake_frame by (auto, metis+)
qed simp

end

lemma Wake_status:
  "u \<noteq> t \<Longrightarrow> status (OsSchedTaskWake t k) u = status k u"
  "\<not> pending (OsSchedTaskWake t k) t"
  "running (OsSchedTaskWake t k) u \<longleftrightarrow> running k u"
  "bit (status (OsSchedTaskWake t k) u) 0 \<longleftrightarrow> bit (status k u) 0"
proof -
  have o: "only t k (OsSchedTaskWake t k)"
    unfolding OsSchedTaskWake_def Let_def
    by (auto intro!: only_steps only_trans [OF _ only_EnQueue])
  then show s: "u \<noteq> t \<Longrightarrow> status (OsSchedTaskWake t k) u = status k u"
    by (simp add: only_def task_view_def)
  show "\<not> pending (OsSchedTaskWake t k) t"
    by (auto simp: OsSchedTaskWake_def Let_def EnQueue_status flag_simps)
  have "running (OsSchedTaskWake t k) t \<longleftrightarrow> running k t"
    by (auto simp: OsSchedTaskWake_def Let_def EnQueue_status flag_simps)
  then show "running (OsSchedTaskWake t k) u \<longleftrightarrow> running k u"
    using s by (cases "u = t") auto
  have "bit (status (OsSchedTaskWake t k) t) 0 \<longleftrightarrow> bit (status k t) 0"
    by (auto simp: OsSchedTaskWake_def Let_def EnQueue_status flag_simps)
  then show "bit (status (OsSchedTaskWake t k) u) 0 \<longleftrightarrow> bit (status k u) 0"
    using s by (cases "u = t") auto
qed

lemma Wake_ready:
  "\<not> bit (status k t) 1 \<Longrightarrow> \<not> running k t \<Longrightarrow> ready (OsSchedTaskWake t k) t"
  "bit (status (OsSchedTaskWake t k) u) 1 \<longleftrightarrow> bit (status k u) 1"
proof -
  show "\<not> bit (status k t) 1 \<Longrightarrow> \<not> running k t \<Longrightarrow> ready (OsSchedTaskWake t k) t"
    by (auto simp: OsSchedTaskWake_def Let_def EnQueue_status flag_simps)
  have "bit (status (OsSchedTaskWake t k) t) 1 \<longleftrightarrow> bit (status k t) 1"
    by (auto simp: OsSchedTaskWake_def Let_def EnQueue_status flag_simps)
  then show "bit (status (OsSchedTaskWake t k) u) 1 \<longleftrightarrow> bit (status k u) 1"
    using Wake_status(1) [of u t k] by (cases "u = t") auto
qed

lemma Wake_lock: "g_losTaskLock (OsSchedTaskWake t k) = g_losTaskLock k"
  by (simp add: wake_defs)

lemma fold_Wake_lock: "g_losTaskLock (fold OsSchedTaskWake ts k) = g_losTaskLock k"
  by (induction ts arbitrary: k) (simp_all add: Wake_lock)

lemma fold_Wake_ready:
  "distinct ts \<Longrightarrow> t \<in> set ts \<Longrightarrow> \<not> bit (status k t) 1 \<Longrightarrow> \<not> running k t \<Longrightarrow> ready (fold OsSchedTaskWake ts k) t"
proof (induction ts arbitrary: k)
  case (Cons u ts)
  have keep: "t \<notin> set ts \<Longrightarrow> status (fold OsSchedTaskWake ts k') t = status k' t" for k' :: kernel and ts
    by (induction ts arbitrary: k') (simp_all add: Wake_status(1))
  show ?case
  proof (cases "t = u")
    case True
    then show ?thesis using Cons.prems keep [of ts] Wake_ready(1) by simp
  next
    case False
    then show ?thesis using Cons Wake_ready(2) [of u k t] Wake_status(3) [of u k t] by simp
  qed
qed simp

lemma waiting_pending:
  assumes "sched_inv k" "is_wait_list l" "t \<in> set (pend k l)"
  shows "pending k t"
  using task_wfD(2) [OF sched_invD(4) [OF assms(1)] assms(3)] list_ok_wait [OF assms(2)] by simp

text \<open>Waking touches no wait list but that of the task that is woken.\<close>

lemma Wake_pend_wait:
  "is_wait_list l \<Longrightarrow> pend (OsSchedTaskWake t k) l = filter (\<lambda>x. x \<noteq> t) (pend k l)"
  by (auto simp: OsSchedTaskWake_def Let_def EnQueue_pend pl_head_def pl_tail_def)

lemma only_Wake: "only t k (OsSchedTaskWake t k)"
  unfolding OsSchedTaskWake_def Let_def
  by (auto intro!: only_steps only_trans [OF _ only_EnQueue])

lemma run_fields_link [simp]:
  "runTask (OsDeleteSortLink t OS_SORT_LINK_TASK k) = runTask k"
  "g_taskScheduled (OsDeleteSortLink t OS_SORT_LINK_TASK k) = g_taskScheduled k"
  "runTask (pend_del t k) = runTask k" "g_taskScheduled (pend_del t k) = g_taskScheduled k"
  "runTask (pend_tail l t k) = runTask k" "g_taskScheduled (pend_tail l t k) = g_taskScheduled k"
  by (simp_all add: OsDeleteSortLink_def OsDeleteNodeSortLink_def SET_SORTLIST_VALUE_def set_link_def
      upd_tcb_def pend_del_def pend_tail_def)

lemma Wake_fields [simp]:
  "runTask (OsSchedTaskWake t k) = runTask k" "g_taskScheduled (OsSchedTaskWake t k) = g_taskScheduled k"
  "g_idleTaskID (OsSchedTaskWake t k) = g_idleTaskID k"
  "taskID (tcb (OsSchedTaskWake t k) u) = taskID (tcb k u)"
  "priority (tcb (OsSchedTaskWake t k) u) = priority (tcb k u)"
  by (simp_all add: OsSchedTaskWake_def Let_def)

text \<open>The idle task never waits, so it is never the task that is woken.\<close>

lemma idle_wf_only:
  assumes "only t k k'" "idle_wf k" "t \<noteq> unat (g_idleTaskID k)"
  shows "idle_wf k'"
  using assms by (simp add: idle_wf_def Let_def only_def task_view_def)

lemma kernel_inv_Wake:
  assumes inv: "kernel_inv k" and p: "pending k t"
  shows "kernel_inv (OsSchedTaskWake t k)"
proof -
  let ?k = "OsSchedTaskWake t k"
  have s: "sched_inv k" and r: "run_wf k" using inv by (simp_all add: kernel_inv_def)
  note wf = sched_invD(4) [OF s]
  have s': "sched_inv ?k" by (rule inv_OsSchedTaskWake [OF s p])
  have i: "idle_wf k" using r by (simp add: run_wf_def)
  then have "t \<noteq> unat (g_idleTaskID k)" using p by (auto simp: idle_wf_def Let_def)
  then have "idle_wf ?k" using idle_wf_only [OF only_Wake i] by blast
  moreover have "\<not> ready ?k (runTask k)"
  proof (cases "runTask k = t")
    case True
    then have "running k t" using r by (simp add: run_wf_def)
    then have "status ?k t = (if tst (status k t) OS_TASK_STATUS_PEND_TIME
        then clr (clr (status k t) OS_TASK_STATUS_PEND) OS_TASK_STATUS_PEND_TIME
        else clr (status k t) OS_TASK_STATUS_PEND)"
      by (simp add: OsSchedTaskWake_def Let_def flag_simps)
    then show ?thesis using True r by (auto simp: run_wf_def)
  next
    case False
    then show ?thesis using r Wake_status(1) [OF False] by (simp add: run_wf_def)
  qed
  moreover have "runTask k \<notin> set (taskSortLink ?k)"
  proof (cases "runTask k = t")
    case True
    have "\<not> pending ?k t" "\<not> bit (status ?k t) 5"
      using Wake_status(2) task_wfD(7) [OF wf p]
      by (auto simp: OsSchedTaskWake_def Let_def EnQueue_status flag_simps)
    then show ?thesis using True task_wfD(8,9) [OF sched_invD(4) [OF s']] by blast
  next
    case False
    then show ?thesis using only_Wake [of t k] r by (simp add: only_def run_wf_def)
  qed
  moreover have "none_lost ?k"
  proof (rule none_lost_only [OF _ only_Wake])
    show "none_lost k" using r by (simp add: run_wf_def)
    show "runnable ?k t \<longrightarrow> ready ?k t \<or> running ?k t"
      by (auto simp: runnable_def OsSchedTaskWake_def Let_def EnQueue_status flag_simps)
  qed
  ultimately show ?thesis
    using s' r Wake_status(3,4) [of t k] by (simp add: kernel_inv_def run_wf_def)
qed

interpretation kw: waker kernel_inv "\<lambda>k t. pending k t" OsSchedTaskWake
  by unfold_locales (simp_all add: kernel_inv_Wake Wake_status)

section \<open>Blocking the running task\<close>

text \<open>The running task may block: its status is clean and it is not the idle task.\<close>

definition can_block :: "kernel \<Rightarrow> bool" where
  "can_block k \<longleftrightarrow> kernel_inv k \<and> runTask k \<noteq> unat (g_idleTaskID k) \<and>
     (\<forall>b \<in> {0, 1, 3, 5, 7}. \<not> bit (status k (runTask k)) b)"

lemma can_block_view:
  assumes "sched_view k' = sched_view k" "runTask k' = runTask k" "g_taskScheduled k' = g_taskScheduled k"
    and "can_block k"
  shows "can_block k'"
  using assms kernel_inv_view [OF assms(1-3)] by (simp add: can_block_def sched_viewD [OF assms(1)])

lemma Wait_fields [simp]:
  "runTask (OsSchedTaskWait l n k) = runTask k" "g_taskScheduled (OsSchedTaskWait l n k) = g_taskScheduled k"
  "g_idleTaskID (OsSchedTaskWait l n k) = g_idleTaskID k" "taskSortLink (OsSchedTaskWait l n k) = taskSortLink k"
  "pend (OsSchedTaskWait l n k) = (pend k)(l := pend k l @ [runTask k])"
  by (auto simp: OsSchedTaskWait_def Let_def fun_eq_iff)

lemma Wait_status:
  "bit (status (OsSchedTaskWait l n k) u) b \<longleftrightarrow> bit (status k u) b \<or>
     u = runTask k \<and> (b = 3 \<or> b = 7 \<and> n \<noteq> LOS_WAIT_FOREVER)"
  by (auto simp: OsSchedTaskWait_def Let_def flag_simps)

lemma only_Wait: "only (runTask k) k (OsSchedTaskWait l n k)"
  unfolding OsSchedTaskWait_def Let_def by (auto intro!: only_steps)

lemma kernel_inv_Wait:
  assumes cb: "can_block k" and l: "is_wait_list l"
  shows "kernel_inv (OsSchedTaskWait l n k)" "pending (OsSchedTaskWait l n k) (runTask k)"
proof -
  let ?k = "OsSchedTaskWait l n k"
  have inv: "sched_inv k" and r: "run_wf k" and c: "\<forall>b \<in> {0, 1, 3, 5, 7}. \<not> bit (status k (runTask k)) b"
    and ni: "runTask k \<noteq> unat (g_idleTaskID k)"
    using cb by (simp_all add: can_block_def kernel_inv_def)
  have "sched_inv ?k"
    using r c by (intro inv_OsSchedTaskWait [OF inv l]) (simp_all add: run_wf_def)
  moreover have "idle_wf ?k"
    using r idle_wf_only [OF only_Wait _ ni] by (simp add: run_wf_def)
  moreover have "none_lost ?k"
    using r by (intro none_lost_only [OF _ only_Wait]) (simp_all add: run_wf_def runnable_def Wait_status)
  ultimately show "kernel_inv ?k"
    using r by (simp add: kernel_inv_def run_wf_def Wait_status)
  show "pending ?k (runTask k)" by (simp add: Wait_status)
qed

lemma kernel_inv_Schedule: "kernel_inv k \<Longrightarrow> kernel_inv (LOS_Schedule k)"
  by (rule kernel_inv_view [OF view_LOS_Schedule]) (simp_all add: LOS_Schedule_def HalTaskSchedule_def)

definition OS_INT_ACTIVE :: "kernel \<Rightarrow> bool" where
  "OS_INT_ACTIVE k \<longleftrightarrow> g_intCount k > 0"

text \<open>A wake-up that is not lost: \<open>t\<close> no longer waits; it is ready and in the ready queue of its
  priority unless it is suspended or still on the CPU (the idle task is in no queue); and a
  task switch is requested unless the scheduler is locked.\<close>

definition awakened :: "kernel \<Rightarrow> nat \<Rightarrow> kernel \<Rightarrow> bool" where
  "awakened k t k' \<longleftrightarrow> \<not> pending k' t \<and>
     (\<not> bit (status k t) 1 \<and> t \<noteq> runTask k \<longrightarrow>
        ready k' t \<and> (\<not> is_idle k' t \<longrightarrow> t \<in> set (pend k' (PriQueue (prio k' t))))) \<and>
     (g_losTaskLock k = 0 \<longrightarrow> swiPending k')"

lemma woken_Wake:
  assumes inv: "kernel_inv k" and p: "pending k t"
  shows "awakened k t (LOS_Schedule (OsSchedTaskWake t k))"
proof -
  let ?k = "OsSchedTaskWake t k"
  have i: "kernel_inv ?k" by (rule kernel_inv_Wake [OF inv p])
  have "ready ?k t" if "\<not> bit (status k t) 1" "t \<noteq> runTask k"
  proof (rule Wake_ready(1) [OF that(1)])
    show "\<not> running k t"
      using inv that(2) p task_wfD(6) [OF sched_invD(4), of k t] by (auto simp: kernel_inv_def run_wf_def)
  qed
  moreover have "ready ?k t \<and> \<not> is_idle ?k t \<longrightarrow> t \<in> set (pend ?k (PriQueue (prio ?k t)))"
    using i task_wfD(3) [OF sched_invD(4), of ?k t] by (simp add: kernel_inv_def)
  moreover have "g_taskScheduled ?k" using i by (simp add: kernel_inv_def run_wf_def)
  ultimately show ?thesis
    by (auto simp: awakened_def schedule_defs LOS_CHECK_SCHEDULE_def Wake_lock Wake_status(2))
qed

lemma woken_upd:
  assumes "\<And>c. taskStatus (f c) = taskStatus c"
  shows "awakened (upd_tcb u f k) t k' = awakened k t k'"
  using assms by (simp add: awakened_def upd_tcb_def)

text \<open>Control block updates of a blocked call that the invariant does not see.\<close>

lemma kernel_inv_upd:
  assumes "kernel_inv k" "\<And>c. taskStatus (f c) = taskStatus c \<and> priority (f c) = priority c \<and>
      responseTime (f c) = responseTime c \<and> taskID (f c) = taskID c"
  shows "kernel_inv (upd_tcb t f k)"
  by (rule kernel_inv_view [OF view_upd_tcb]) (simp_all add: assms)

lemma can_block_upd:
  assumes "can_block k" "\<And>c. taskStatus (f c) = taskStatus c \<and> priority (f c) = priority c \<and>
      responseTime (f c) = responseTime c \<and> taskID (f c) = taskID c"
  shows "can_block (upd_tcb t f k)"
  by (rule can_block_view [OF view_upd_tcb]) (simp_all add: assms)

text \<open>The part of a blocking call after the switch: the timeout flag is consumed.\<close>

definition consume_timeout :: "nat \<Rightarrow> kernel \<Rightarrow> bool \<times> kernel" where
  "consume_timeout t k =
     (if tst (status k t) OS_TASK_STATUS_TIMEOUT then (True, clr_status t OS_TASK_STATUS_TIMEOUT k)
      else (False, k))"

lemma task_wf_bits:
  assumes "task_wf k t" "\<And>b. b \<noteq> 6 \<Longrightarrow> bit s b \<longleftrightarrow> bit (status k t) b"
  shows "task_wf (upd_tcb t (\<lambda>c. c\<lparr>taskStatus := s\<rparr>) k) t"
proof -
  have "list_ok (upd_tcb t (\<lambda>c. c\<lparr>taskStatus := s\<rparr>) k) t l = list_ok k t l" for l
    using assms(2) by (cases l) (simp_all add: list_ok_def)
  then show ?thesis using assms by (simp add: task_wf_def)
qed

lemma kernel_inv_consume_timeout:
  assumes "kernel_inv k"
  shows "kernel_inv (snd (consume_timeout t k))"
proof -
  let ?k = "clr_status t OS_TASK_STATUS_TIMEOUT k"
  have s: "sched_inv k" using assms by (simp add: kernel_inv_def)
  have "inv_but t ?k" using s sched_inv_but by (intro inv_but_status) blast
  moreover have "task_wf ?k t"
    unfolding clr_status_def
    using task_wf_bits [OF sched_invD(4) [OF s, of t], of "clr (status k t) OS_TASK_STATUS_TIMEOUT"]
    by (simp add: flag_simps upd_tcb_def)
  ultimately have "sched_inv ?k" using sched_inv_but by blast
  moreover have "none_lost ?k"
    by (rule none_lost_same [of k]) (use assms in \<open>simp_all add: kernel_inv_def run_wf_def flag_simps\<close>)
  ultimately have "kernel_inv ?k"
    using assms by (auto simp: kernel_inv_def run_wf_def idle_wf_def Let_def flag_simps)
  then show ?thesis using assms by (simp add: consume_timeout_def)
qed

section \<open>Changing a priority\<close>

text \<open>A change of priority moves a task between ready queues and changes nothing else.\<close>

lemma Modify_fields [simp]:
  "runTask (snd (OsSchedModifyTaskSchedParam t p k)) = runTask k"
  "g_taskScheduled (snd (OsSchedModifyTaskSchedParam t p k)) = g_taskScheduled k"
  "g_idleTaskID (snd (OsSchedModifyTaskSchedParam t p k)) = g_idleTaskID k"
  "taskSortLink (snd (OsSchedModifyTaskSchedParam t p k)) = taskSortLink k"
  "priority (tcb (snd (OsSchedModifyTaskSchedParam t p k)) u) = (if u = t then p else priority (tcb k u))"
  "taskID (tcb (snd (OsSchedModifyTaskSchedParam t p k)) u) = taskID (tcb k u)"
  by (simp_all add: OsSchedModifyTaskSchedParam_def Let_def)

lemma Modify_lock: "g_losTaskLock (snd (OsSchedModifyTaskSchedParam t p k)) = g_losTaskLock k"
  by (simp add: OsSchedModifyTaskSchedParam_def OsSchedTaskDeQueue_def OsSchedPriQueueDelete_def wake_defs)

lemma Modify_pend:
  assumes "sched_inv k" "is_wait_list l"
  shows "pend (snd (OsSchedModifyTaskSchedParam t p k)) l = pend k l"
proof (cases "ready k t")
  case True
  then have "t \<notin> set (pend k l)" using ready_only_in [OF assms(1) True, of l] assms(2) by auto
  then show ?thesis
    using assms(2) True
    by (auto simp: OsSchedModifyTaskSchedParam_def Let_def EnQueue_pend DeQueue_pend pl_head_def pl_tail_def)
next
  case False
  then show ?thesis by (simp add: OsSchedModifyTaskSchedParam_def Let_def flag_simps)
qed

lemma Modify_status:
  assumes "sched_inv k"
  shows "bit (status (snd (OsSchedModifyTaskSchedParam t p k)) u) b \<longleftrightarrow> bit (status k u) b"
proof (cases "ready k t")
  case True
  note no = task_wfD(5) [OF sched_invD(4) [OF assms] True]
  have o: "status (OsSchedTaskEnQueue t k') u = status k' u" if "u \<noteq> t" for k'
    using only_EnQueue [of t k'] that by (simp add: only_def task_view_def)
  show ?thesis
    using True no o
    by (cases "u = t") (auto simp: OsSchedModifyTaskSchedParam_def Let_def EnQueue_status DeQueue_status flag_simps)
next
  case False
  then show ?thesis by (simp add: OsSchedModifyTaskSchedParam_def Let_def flag_simps)
qed

lemma kernel_inv_Modify:
  assumes "kernel_inv k" "unat p < 32"
  shows "kernel_inv (snd (OsSchedModifyTaskSchedParam t p k))"
proof -
  have s: "sched_inv k" using assms by (simp add: kernel_inv_def)
  have "none_lost (snd (OsSchedModifyTaskSchedParam t p k))"
    by (rule none_lost_same [of k]) (use assms(1) in \<open>simp_all add: kernel_inv_def run_wf_def Modify_status [OF s]\<close>)
  then show ?thesis
    using assms inv_OsSchedModifyTaskSchedParam [OF s assms(2), of t] Modify_status [OF s]
    by (simp add: kernel_inv_def run_wf_def idle_wf_def Let_def)
qed

lemma can_block_Modify:
  assumes "can_block k" "unat p < 32"
  shows "can_block (snd (OsSchedModifyTaskSchedParam t p k))"
  using assms kernel_inv_Modify [OF _ assms(2)] Modify_status
  by (simp add: can_block_def kernel_inv_def)

end
