(* ===== verification/Los_Sem.thy ===== *)
theory Los_Sem
  imports Sched_Client
begin

text \<open>
  \<^verbatim>\<open>LiteOS/kernel/src/los_sem.c\<close>: counting semaphores.  A call that blocks is split at
  its \<^verbatim>\<open>LOS_Schedule\<close>: \<open>LOS_SemPend\<close> is the part before it, \<open>LOS_SemPend_resume\<close> the
  part the task runs when it has been awakened.  \<open>sem_inv\<close> is the module's invariant: tasks
  wait only while the count is zero, and the count never exceeds its maximum.
\<close>

abbreviation "LOS_ERRNO_SEM_NO_MEMORY \<equiv> LOS_ERRNO_OS_ERROR 7 0"
abbreviation "LOS_ERRNO_SEM_INVALID \<equiv> LOS_ERRNO_OS_ERROR 7 1"
abbreviation "LOS_ERRNO_SEM_PTR_NULL \<equiv> LOS_ERRNO_OS_ERROR 7 2"
abbreviation "LOS_ERRNO_SEM_ALL_BUSY \<equiv> LOS_ERRNO_OS_ERROR 7 3"
abbreviation "LOS_ERRNO_SEM_UNAVAILABLE \<equiv> LOS_ERRNO_OS_ERROR 7 4"
abbreviation "LOS_ERRNO_SEM_PEND_INTERR \<equiv> LOS_ERRNO_OS_ERROR 7 5"
abbreviation "LOS_ERRNO_SEM_PEND_IN_LOCK \<equiv> LOS_ERRNO_OS_ERROR 7 6"
abbreviation "LOS_ERRNO_SEM_TIMEOUT \<equiv> LOS_ERRNO_OS_ERROR 7 7"
abbreviation "LOS_ERRNO_SEM_OVERFLOW \<equiv> LOS_ERRNO_OS_ERROR 7 8"
abbreviation "LOS_ERRNO_SEM_PENDED \<equiv> LOS_ERRNO_OS_ERROR 7 9"

definition OS_SEM_UNUSED :: u16 where "OS_SEM_UNUSED = 0"
definition OS_SEM_USED :: u16 where "OS_SEM_USED = 1"
definition OS_SEM_COUNTING_MAX_COUNT :: u16 where "OS_SEM_COUNTING_MAX_COUNT = 0xFFFF"
definition OS_SEM_BINARY_MAX_COUNT :: u16 where "OS_SEM_BINARY_MAX_COUNT = 1"

definition upd_sem :: "nat \<Rightarrow> (LosSemCB \<Rightarrow> LosSemCB) \<Rightarrow> kernel \<Rightarrow> kernel" where
  "upd_sem i f k = k\<lparr>g_allSem := (g_allSem k)(i := f (g_allSem k i))\<rparr>"

section \<open>Operations\<close>

text \<open>\<open>mem\<close> is the address \<^verbatim>\<open>LOS_MemAlloc\<close> returns, 0 for \<^verbatim>\<open>NULL\<close>; the \<^verbatim>\<open>semList\<close> nodes
  of the unused control blocks form \<^verbatim>\<open>g_unusedSemList\<close>.\<close>

definition OsSemInit :: "u32 \<Rightarrow> kernel \<Rightarrow> u32 \<times> kernel" where
  "OsSemInit mem k =
     (let k1 = k\<lparr>g_unusedSemList := []\<rparr> in
      if LOSCFG_BASE_IPC_SEM_LIMIT = 0 then (LOS_ERRNO_OS_ERROR 7 0xA, k1)
      else if mem = 0 then (LOS_ERRNO_SEM_NO_MEMORY, k1)
      else (LOS_OK, fold (\<lambda>i k. (upd_sem i (\<lambda>c. c\<lparr>semID := of_nat i, semStat := OS_SEM_UNUSED\<rparr>) k)
                              \<lparr>g_unusedSemList := g_unusedSemList k @ [i]\<rparr>)
                      [0..<LOSCFG_BASE_IPC_SEM_LIMIT] k1))"

text \<open>The second component of the result is what is stored through \<^verbatim>\<open>semHandle\<close>.\<close>

definition OsSemCreate :: "u16 \<Rightarrow> u16 \<Rightarrow> bool \<Rightarrow> kernel \<Rightarrow> u32 \<times> u32 option \<times> kernel" where
  "OsSemCreate count maxCount handleNull k =
     (if handleNull then (LOS_ERRNO_SEM_PTR_NULL, None, k)
      else if count > maxCount then (LOS_ERRNO_SEM_OVERFLOW, None, k)
      else case g_unusedSemList k of
        [] \<Rightarrow> (LOS_ERRNO_SEM_ALL_BUSY, None, k)
      | i # rest \<Rightarrow>
          let k1 = k\<lparr>g_unusedSemList := rest\<rparr>;
              k2 = upd_sem i (\<lambda>c. c\<lparr>semCount := count, semStat := OS_SEM_USED, maxSemCount := maxCount\<rparr>) k1;
              k3 = k2\<lparr>pend := (pend k2)(SemList i := [])\<rparr>
          in (LOS_OK, Some (ucast (semID (g_allSem k3 i))), k3))"

definition LOS_SemCreate :: "u16 \<Rightarrow> bool \<Rightarrow> kernel \<Rightarrow> u32 \<times> u32 option \<times> kernel" where
  "LOS_SemCreate count handleNull k = OsSemCreate count OS_SEM_COUNTING_MAX_COUNT handleNull k"

definition LOS_BinarySemCreate :: "u16 \<Rightarrow> bool \<Rightarrow> kernel \<Rightarrow> u32 \<times> u32 option \<times> kernel" where
  "LOS_BinarySemCreate count handleNull k = OsSemCreate count OS_SEM_BINARY_MAX_COUNT handleNull k"




definition LOS_SemPend_resume :: "nat \<Rightarrow> kernel \<Rightarrow> u32 \<times> kernel" where
  "LOS_SemPend_resume t k =
     (let (timedOut, k1) = consume_timeout t k in
      (if timedOut then LOS_ERRNO_SEM_TIMEOUT else LOS_OK, k1))"


definition LOS_SemGetValue :: "u32 \<Rightarrow> kernel \<Rightarrow> u32 \<times> i32 option" where
  "LOS_SemGetValue semHandle k =
     (let i = unat semHandle in
      if i \<ge> LOSCFG_BASE_IPC_SEM_LIMIT then (LOS_ERRNO_SEM_INVALID, None)
      else (0, Some (ucast (semCount (g_allSem k i)))))"

section \<open>Invariant\<close>


lemma sem_fields [simp]:
  "g_allSem (LOS_Schedule k) = g_allSem k" "g_unusedSemList (LOS_Schedule k) = g_unusedSemList k"
  "g_allSem (OsSchedTaskWait l n k) = g_allSem k" "g_unusedSemList (OsSchedTaskWait l n k) = g_unusedSemList k"
  "g_allSem (upd_tcb t f k) = g_allSem k" "g_unusedSemList (upd_tcb t f k) = g_unusedSemList k"
  "g_unusedSemList (upd_sem i g k) = g_unusedSemList k" "pend (upd_sem i g k) = pend k"
  "g_allSem (upd_sem i g k) = (g_allSem k)(i := g (g_allSem k i))"
  by (simp_all add: schedule_defs wait_defs upd_sem_def)

lemma sem_fields_wake [simp]:
  "g_allSem (OsSchedTaskWake t k) = g_allSem k" "g_unusedSemList (OsSchedTaskWake t k) = g_unusedSemList k"
  by (simp_all add: wake_defs)

lemma sem_view [simp]: "sched_view (upd_sem i f k) = sched_view k"
  by (simp add: upd_sem_def)








section \<open>What a semaphore is\<close>














end
