(* ===== verification/Los_Event.thy ===== *)
theory Los_Event
  imports Sched_Client
begin

text \<open>
  \<^verbatim>\<open>LiteOS/kernel/src/los_event.c\<close>: event flags.  An event control block is named by its
  address, with 0 for \<^verbatim>\<open>NULL\<close>; the tasks that wait for it are the list \<open>EventList a\<close>.
  \<open>event_inv\<close> says that no task is left waiting for flags that are already set, so no
  wake-up is lost.
\<close>

abbreviation "LOS_ERRNO_EVENT_SETBIT_INVALID \<equiv> LOS_ERRNO_OS_ERROR 0x1c 0"
abbreviation "LOS_ERRNO_EVENT_READ_TIMEOUT \<equiv> LOS_ERRNO_OS_ERROR 0x1c 1"
abbreviation "LOS_ERRNO_EVENT_EVENTMASK_INVALID \<equiv> LOS_ERRNO_OS_ERROR 0x1c 2"
abbreviation "LOS_ERRNO_EVENT_READ_IN_INTERRUPT \<equiv> LOS_ERRNO_OS_ERROR 0x1c 3"
abbreviation "LOS_ERRNO_EVENT_FLAGS_INVALID \<equiv> LOS_ERRNO_OS_ERROR 0x1c 4"
abbreviation "LOS_ERRNO_EVENT_READ_IN_LOCK \<equiv> LOS_ERRNO_OS_ERROR 0x1c 5"
abbreviation "LOS_ERRNO_EVENT_PTR_NULL \<equiv> LOS_ERRNO_OS_ERROR 0x1c 6"
abbreviation "LOS_ERRNO_EVENT_NOT_INITIALIZED \<equiv> LOS_ERRNO_OS_ERROR 0x1c 7"
abbreviation "LOS_ERRNO_EVENT_SHOULD_NOT_DESTROYED \<equiv> LOS_ERRNO_OS_ERROR 0x1c 8"

definition LOS_WAITMODE_AND :: u32 where "LOS_WAITMODE_AND = 4"
definition LOS_WAITMODE_OR :: u32 where "LOS_WAITMODE_OR = 2"
definition LOS_WAITMODE_CLR :: u32 where "LOS_WAITMODE_CLR = 1"
definition LOS_ERRTYPE_ERROR :: u32 where "LOS_ERRTYPE_ERROR = 0x02000000"

definition upd_event :: "nat \<Rightarrow> (EVENT_CB_S \<Rightarrow> EVENT_CB_S) \<Rightarrow> kernel \<Rightarrow> kernel" where
  "upd_event a f k = k\<lparr>eventCB := (eventCB k)(a := f (eventCB k a))\<rparr>"

section \<open>Operations\<close>

definition LOS_EventInit :: "nat \<Rightarrow> kernel \<Rightarrow> u32 \<times> kernel" where
  "LOS_EventInit a k =
     (if a = 0 then (LOS_ERRNO_EVENT_PTR_NULL, k)
      else (LOS_OK, (upd_event a (\<lambda>e. e\<lparr>uwEventID := 0, eventInit := True\<rparr>) k)
                      \<lparr>pend := (pend k)(EventList a := [])\<rparr>))"

text \<open>The pointer argument is the word it points to, \<open>None\<close> for \<^verbatim>\<open>NULL\<close>; the result is the
  return value and the word afterwards.\<close>

definition LOS_EventPoll :: "u32 option \<Rightarrow> u32 \<Rightarrow> u32 \<Rightarrow> u32 \<times> u32 option" where
  "LOS_EventPoll eventID msk mode =
     (case eventID of
        None \<Rightarrow> (LOS_ERRNO_EVENT_PTR_NULL, None)
      | Some ev \<Rightarrow>
          let ret = (if tst mode LOS_WAITMODE_OR
                     then (if ev AND msk \<noteq> 0 then ev AND msk else 0)
                     else (if msk \<noteq> 0 \<and> msk = ev AND msk then ev AND msk else 0))
          in (ret, Some (if ret \<noteq> 0 \<and> tst mode LOS_WAITMODE_CLR then clr ev ret else ev)))"

definition OsEventReadParamCheck :: "nat \<Rightarrow> u32 \<Rightarrow> u32 \<Rightarrow> kernel \<Rightarrow> u32" where
  "OsEventReadParamCheck a msk mode k =
     (if a = 0 then LOS_ERRNO_EVENT_PTR_NULL
      else if \<not> eventInit (eventCB k a) then LOS_ERRNO_EVENT_NOT_INITIALIZED
      else if msk = 0 then LOS_ERRNO_EVENT_EVENTMASK_INVALID
      else if tst msk LOS_ERRTYPE_ERROR then LOS_ERRNO_EVENT_SETBIT_INVALID
      else if tst mode LOS_WAITMODE_OR \<and> tst mode LOS_WAITMODE_AND \<or>
              tst mode (NOT (LOS_WAITMODE_OR OR LOS_WAITMODE_AND OR LOS_WAITMODE_CLR)) \<or>
              \<not> tst mode (LOS_WAITMODE_OR OR LOS_WAITMODE_AND)
      then LOS_ERRNO_EVENT_FLAGS_INVALID
      else LOS_OK)"

definition poll_cb :: "nat \<Rightarrow> u32 \<Rightarrow> u32 \<Rightarrow> kernel \<Rightarrow> u32 \<times> kernel" where
  "poll_cb a msk mode k =
     (let (ret, ev) = LOS_EventPoll (Some (uwEventID (eventCB k a))) msk mode
      in (ret, upd_event a (\<lambda>e. e\<lparr>uwEventID := the ev\<rparr>) k))"

definition LOS_EventRead :: "nat \<Rightarrow> u32 \<Rightarrow> u32 \<Rightarrow> u32 \<Rightarrow> kernel \<Rightarrow> outcome \<times> kernel" where
  "LOS_EventRead a msk mode timeOut k =
     (let ret = OsEventReadParamCheck a msk mode k in
      if ret \<noteq> LOS_OK then (Ret ret, k)
      else if OS_INT_ACTIVE k then (Ret LOS_ERRNO_EVENT_READ_IN_INTERRUPT, k)
      else
        let (ret, k1) = poll_cb a msk mode k in
        if ret = 0 then
          if timeOut = 0 then (Ret ret, k1)
          else if g_losTaskLock k1 \<noteq> 0 then (Ret LOS_ERRNO_EVENT_READ_IN_LOCK, k1)
          else (Blocked, LOS_Schedule (OsSchedTaskWait (EventList a) timeOut
                 (upd_tcb (runTask k1) (\<lambda>c. c\<lparr>eventMask := msk, eventMode := mode\<rparr>) k1)))
        else (Ret ret, k1))"

definition LOS_EventRead_resume :: "nat \<Rightarrow> nat \<Rightarrow> u32 \<Rightarrow> u32 \<Rightarrow> kernel \<Rightarrow> u32 \<times> kernel" where
  "LOS_EventRead_resume t a msk mode k =
     (let (timedOut, k1) = consume_timeout t k in
      if timedOut then (LOS_ERRNO_EVENT_READ_TIMEOUT, k1) else poll_cb a msk mode k1)"

text \<open>The condition under which \<^verbatim>\<open>LOS_EventWrite\<close> wakes a waiting task.\<close>

definition event_match :: "u32 \<Rightarrow> nat \<Rightarrow> nat \<Rightarrow> kernel \<Rightarrow> bool" where
  "event_match events a t k \<longleftrightarrow>
     tst (eventMode (tcb k t)) LOS_WAITMODE_OR \<and> eventMask (tcb k t) AND events \<noteq> 0 \<or>
     tst (eventMode (tcb k t)) LOS_WAITMODE_AND \<and>
       eventMask (tcb k t) AND uwEventID (eventCB k a) = eventMask (tcb k t)"

text \<open>The loop of \<^verbatim>\<open>LOS_EventWrite\<close> over the waiting tasks; the code reads the successor of a
  task before waking it, so it visits the tasks that were in the list at the start.\<close>

fun event_wake_loop :: "u32 \<Rightarrow> nat \<Rightarrow> nat list \<Rightarrow> bool \<Rightarrow> kernel \<Rightarrow> bool \<times> kernel" where
  "event_wake_loop events a [] exitFlag k = (exitFlag, k)"
| "event_wake_loop events a (t # ts) exitFlag k =
     (if event_match events a t k then event_wake_loop events a ts True (OsSchedTaskWake t k)
      else event_wake_loop events a ts exitFlag k)"

definition LOS_EventWrite :: "nat \<Rightarrow> u32 \<Rightarrow> kernel \<Rightarrow> u32 \<times> kernel" where
  "LOS_EventWrite a events k =
     (if a = 0 then (LOS_ERRNO_EVENT_PTR_NULL, k)
      else if \<not> eventInit (eventCB k a) then (LOS_ERRNO_EVENT_NOT_INITIALIZED, k)
      else if tst events LOS_ERRTYPE_ERROR then (LOS_ERRNO_EVENT_SETBIT_INVALID, k)
      else
        let k1 = upd_event a (\<lambda>e. e\<lparr>uwEventID := uwEventID e OR events\<rparr>) k in
        if pend k1 (EventList a) \<noteq> [] then
          let (exitFlag, k2) = event_wake_loop events a (pend k1 (EventList a)) False k1 in
          (LOS_OK, if exitFlag then LOS_Schedule k2 else k2)
        else (LOS_OK, k1))"

definition LOS_EventDestroy :: "nat \<Rightarrow> kernel \<Rightarrow> u32 \<times> kernel" where
  "LOS_EventDestroy a k =
     (if a = 0 then (LOS_ERRNO_EVENT_PTR_NULL, k)
      else if \<not> eventInit (eventCB k a) \<or> pend k (EventList a) \<noteq> []
      then (LOS_ERRNO_EVENT_SHOULD_NOT_DESTROYED, k)
      else (LOS_OK, upd_event a (\<lambda>e. e\<lparr>eventInit := False\<rparr>) k))"

definition LOS_EventClear :: "nat \<Rightarrow> u32 \<Rightarrow> kernel \<Rightarrow> u32 \<times> kernel" where
  "LOS_EventClear a msk k =
     (if a = 0 then (LOS_ERRNO_EVENT_PTR_NULL, k)
      else (LOS_OK, upd_event a (\<lambda>e. e\<lparr>uwEventID := uwEventID e AND msk\<rparr>) k))"

section \<open>Facts\<close>

text \<open>What a reader with \<open>mode\<close> and \<open>msk\<close> waits for.\<close>

definition event_sat :: "u32 \<Rightarrow> u32 \<Rightarrow> u32 \<Rightarrow> bool" where
  "event_sat mode msk ev \<longleftrightarrow>
     (if tst mode LOS_WAITMODE_OR then tst ev msk else msk \<noteq> 0 \<and> msk AND ev = msk)"

lemma poll_sat:
  "fst (LOS_EventPoll (Some ev) msk mode) = (if event_sat mode msk ev then ev AND msk else 0)"
  "fst (LOS_EventPoll (Some ev) msk mode) \<noteq> 0 \<longleftrightarrow> event_sat mode msk ev"
  by (auto simp: LOS_EventPoll_def event_sat_def tst_def Let_def and.commute)

lemma poll_clears:
  "snd (LOS_EventPoll (Some ev) msk mode) =
     Some (if event_sat mode msk ev \<and> tst mode LOS_WAITMODE_CLR then clr ev (ev AND msk) else ev)"
  by (auto simp: LOS_EventPoll_def event_sat_def tst_def Let_def and.commute)

lemma event_view [simp]: "sched_view (upd_event a f k) = sched_view k"
  by (simp add: upd_event_def)

lemma event_fields [simp]:
  "eventCB (upd_event a f k) = (eventCB k)(a := f (eventCB k a))" "pend (upd_event a f k) = pend k"
  "tcb (upd_event a f k) = tcb k" "runTask (upd_event a f k) = runTask k"
  "g_taskScheduled (upd_event a f k) = g_taskScheduled k" "g_losTaskLock (upd_event a f k) = g_losTaskLock k"
  "eventCB (LOS_Schedule k) = eventCB k"
  "eventCB (upd_tcb t g k) = eventCB k"
  by (simp_all add: upd_event_def LOS_Schedule_def HalTaskSchedule_def upd_tcb_def)

lemma event_fields_wait [simp]:
  "eventCB (OsSchedTaskWait l n k) = eventCB k"
  "eventMask (tcb (OsSchedTaskWait l n k) u) = eventMask (tcb k u)"
  "eventMode (tcb (OsSchedTaskWait l n k) u) = eventMode (tcb k u)"
  by (simp_all add: wait_defs)

lemma event_fields_wake [simp]:
  "eventCB (OsSchedTaskWake t k) = eventCB k"
  "eventMask (tcb (OsSchedTaskWake t k) u) = eventMask (tcb k u)"
  "eventMode (tcb (OsSchedTaskWake t k) u) = eventMode (tcb k u)"
  by (simp_all add: wake_defs)

lemma event_match_wake [simp]: "event_match ev a u (OsSchedTaskWake t k) \<longleftrightarrow> event_match ev a u k"
  by (simp add: event_match_def)

text \<open>The loop wakes the tasks that match, in the order of the list.\<close>

lemma event_wake_loop_fold:
  "event_wake_loop ev a ts b k =
     (b \<or> (\<exists>t \<in> set ts. event_match ev a t k), fold OsSchedTaskWake (filter (\<lambda>t. event_match ev a t k) ts) k)"
  by (induction ts arbitrary: b k) auto

lemma fold_wake_list:
  "is_wait_list l \<Longrightarrow> pend (fold OsSchedTaskWake ts k) l = filter (\<lambda>x. x \<notin> set ts) (pend k l)"
  by (induction ts arbitrary: k) (simp_all add: Wake_pend_wait conj_commute)

lemma fold_wake_fields [simp]:
  "eventCB (fold OsSchedTaskWake ts k) = eventCB k"
  "eventMask (tcb (fold OsSchedTaskWake ts k) u) = eventMask (tcb k u)"
  "eventMode (tcb (fold OsSchedTaskWake ts k) u) = eventMode (tcb k u)"
  by (induction ts arbitrary: k) simp_all

section \<open>No lost wake-ups\<close>

definition event_inv :: "kernel \<Rightarrow> bool" where
  "event_inv k \<longleftrightarrow> (\<forall>a. \<forall>t \<in> set (pend k (EventList a)).
     (tst (eventMode (tcb k t)) LOS_WAITMODE_OR \<longleftrightarrow> \<not> tst (eventMode (tcb k t)) LOS_WAITMODE_AND) \<and>
     eventMask (tcb k t) \<noteq> 0 \<and>
     \<not> event_sat (eventMode (tcb k t)) (eventMask (tcb k t)) (uwEventID (eventCB k a)))"

lemma event_invD:
  assumes "event_inv k" "t \<in> set (pend k (EventList a))"
  shows "tst (eventMode (tcb k t)) LOS_WAITMODE_OR \<longleftrightarrow> \<not> tst (eventMode (tcb k t)) LOS_WAITMODE_AND"
    "eventMask (tcb k t) \<noteq> 0"
    "\<not> event_sat (eventMode (tcb k t)) (eventMask (tcb k t)) (uwEventID (eventCB k a))"
  using assms unfolding event_inv_def by blast+

text \<open>For a task that waits, the code's wake-up test (which looks at the new flags only, in
  the or mode) is the condition the task waits for.\<close>

lemma event_match_sat:
  assumes "event_inv k" "t \<in> set (pend k (EventList a))"
  shows "event_match events a t (upd_event a (\<lambda>e. e\<lparr>uwEventID := uwEventID e OR events\<rparr>) k) \<longleftrightarrow>
    event_sat (eventMode (tcb k t)) (eventMask (tcb k t)) (uwEventID (eventCB k a) OR events)"
proof (cases "tst (eventMode (tcb k t)) LOS_WAITMODE_OR")
  case True
  then have "\<not> tst (uwEventID (eventCB k a)) (eventMask (tcb k t))"
    using event_invD(3) [OF assms] by (simp add: event_sat_def)
  moreover have "eventMask (tcb k t) AND events \<noteq> 0 \<longleftrightarrow> tst events (eventMask (tcb k t))"
    by (simp add: tst_def and.commute)
  ultimately show ?thesis
    using True event_invD(1) [OF assms] by (auto simp: event_match_def event_sat_def)
next
  case False
  then show ?thesis
    using event_invD(1,2) [OF assms] by (auto simp: event_match_def event_sat_def)
qed

lemma event_sat_mono_clear:
  "event_sat mode msk ev' \<Longrightarrow> (\<And>n. bit ev' n \<Longrightarrow> bit ev n) \<Longrightarrow> event_sat mode msk ev"
  by (auto simp: event_sat_def tst_bit bit_eq_iff bit_and_iff split: if_splits)

lemma event_inv_clear:
  assumes "event_inv k" "\<And>n. bit ev n \<Longrightarrow> bit (uwEventID (eventCB k a)) n"
  shows "event_inv (upd_event a (\<lambda>e. e\<lparr>uwEventID := ev\<rparr>) k)"
  using assms(1) event_sat_mono_clear [OF _ assms(2)] unfolding event_inv_def by (auto, blast)

text \<open>The state after a write that is not refused.\<close>

lemma LOS_EventWrite_ok:
  assumes "a \<noteq> 0" "eventInit (eventCB k a)" "\<not> tst events LOS_ERRTYPE_ERROR"
  defines "k1 \<equiv> upd_event a (\<lambda>e. e\<lparr>uwEventID := uwEventID e OR events\<rparr>) k"
  defines "ws \<equiv> filter (\<lambda>t. event_match events a t k1) (pend k (EventList a))"
  shows "fst (LOS_EventWrite a events k) = LOS_OK"
    "snd (LOS_EventWrite a events k) =
       (if ws = [] then fold OsSchedTaskWake ws k1 else LOS_Schedule (fold OsSchedTaskWake ws k1))"
  using assms(1-3)
  by (auto simp: LOS_EventWrite_def Let_def k1_def ws_def event_wake_loop_fold filter_empty_conv)

lemma event_write_effect:
  assumes "kernel_inv k" "event_inv k" "a \<noteq> 0" "eventInit (eventCB k a)" "\<not> tst events LOS_ERRTYPE_ERROR"
  shows "let k' = snd (LOS_EventWrite a events k); ev = uwEventID (eventCB k a) OR events;
      sat = (\<lambda>t. event_sat (eventMode (tcb k t)) (eventMask (tcb k t)) ev) in
    fst (LOS_EventWrite a events k) = LOS_OK \<and> uwEventID (eventCB k' a) = ev \<and>
    pend k' (EventList a) = filter (\<lambda>t. \<not> sat t) (pend k (EventList a)) \<and>
    (\<forall>t. pending k' t \<longleftrightarrow> pending k t \<and> \<not> (t \<in> set (pend k (EventList a)) \<and> sat t)) \<and>
    (\<forall>t \<in> set (pend k (EventList a)). sat t \<and> \<not> bit (status k t) 1 \<and> t \<noteq> runTask k \<longrightarrow>
       ready k' t \<and> (\<not> is_idle k' t \<longrightarrow> t \<in> set (pend k' (PriQueue (prio k' t))))) \<and>
    ((\<exists>t \<in> set (pend k (EventList a)). sat t) \<and> g_losTaskLock k = 0 \<longrightarrow> swiPending k') \<and>
    kernel_inv k' \<and> event_inv k'"
proof -
  define k1 where "k1 = upd_event a (\<lambda>e. e\<lparr>uwEventID := uwEventID e OR events\<rparr>) k"
  define ws where "ws = filter (\<lambda>t. event_match events a t k1) (pend k (EventList a))"
  define k2 where "k2 = fold OsSchedTaskWake ws k1"
  let ?ev = "uwEventID (eventCB k a) OR events"
  let ?sat = "\<lambda>t. event_sat (eventMode (tcb k t)) (eventMask (tcb k t)) ?ev"
  have res: "fst (LOS_EventWrite a events k) = LOS_OK"
    "snd (LOS_EventWrite a events k) = (if ws = [] then k2 else LOS_Schedule k2)"
    using LOS_EventWrite_ok [OF assms(3-5)] by (simp_all add: k2_def ws_def k1_def)
  have ws: "ws = filter ?sat (pend k (EventList a))"
    unfolding ws_def k1_def using event_match_sat [OF assms(2)] by (intro filter_cong) auto
  have s: "sched_inv k" using assms(1) by (simp add: kernel_inv_def)
  have pw: "\<forall>t \<in> set (pend k (EventList a)). pending k t"
    using waiting_pending [OF s, of "EventList a"] by simp
  have i1: "kernel_inv k1" unfolding k1_def by (rule kernel_inv_view [of _ k]) (simp_all add: assms(1))
  have dw: "distinct ws" using sched_invD(1) [OF s] by (simp add: ws pl_disjoint_def)
  then have i2: "kernel_inv k2 \<and> (\<forall>u. pending k2 u \<longleftrightarrow> pending k1 u \<and> u \<notin> set ws)"
    unfolding k2_def using pw by (intro kw.wake_all [OF i1]) (simp_all add: ws k1_def)
  have fl: "eventCB k2 = (eventCB k)(a := (eventCB k a)\<lparr>uwEventID := ?ev\<rparr>)"
    "eventMask (tcb k2 u) = eventMask (tcb k u)" "eventMode (tcb k2 u) = eventMode (tcb k u)"
    "pend k2 (EventList b) = filter (\<lambda>x. x \<notin> set ws) (pend k (EventList b))" for u b
    by (simp_all add: k2_def k1_def fold_wake_list)
  have "event_inv k2"
    using assms(2) by (auto simp: event_inv_def fl ws)
  moreover define k' where "k' = snd (LOS_EventWrite a events k)"
  then have f: "eventCB k' = eventCB k2" "pend k' = pend k2" "tcb k' = tcb k2"
    using res(2) by simp_all
  moreover have "filter (\<lambda>x. x \<notin> set ws) (pend k (EventList a)) = filter (\<lambda>t. \<not> ?sat t) (pend k (EventList a))"
    by (intro filter_cong) (auto simp: ws)
  moreover have "kernel_inv k'"
    unfolding k'_def res(2) using i2 kernel_inv_Schedule by simp
  moreover have "event_inv k'" using \<open>event_inv k2\<close> by (simp add: event_inv_def f)
  moreover have "pending k' t \<longleftrightarrow> pending k t \<and> \<not> (t \<in> set (pend k (EventList a)) \<and> ?sat t)" for t
    using i2 by (simp add: f ws k1_def)
  moreover have "ready k' t \<and> (\<not> is_idle k' t \<longrightarrow> t \<in> set (pend k' (PriQueue (prio k' t))))"
    if t: "t \<in> set (pend k (EventList a))" "?sat t" "\<not> bit (status k t) 1" "t \<noteq> runTask k" for t
  proof -
    have p: "pending k t" using pw t(1) by blast
    have "\<not> running k t"
      using assms(1) t(4) task_wfD(6) [OF sched_invD(4) [OF s, of t]] p by (auto simp: kernel_inv_def run_wf_def)
    then have "ready k2 t" unfolding k2_def using t by (intro fold_Wake_ready [OF dw]) (simp_all add: ws k1_def)
    moreover have "g_idleTaskID k' = g_idleTaskID k2" unfolding k'_def res(2) by (simp add: LOS_Schedule_def HalTaskSchedule_def)
    ultimately show ?thesis using i2 task_wfD(3) [OF sched_invD(4)] by (simp add: f kernel_inv_def)
  qed
  moreover have "swiPending k'" if "\<exists>t \<in> set (pend k (EventList a)). ?sat t" "g_losTaskLock k = 0"
  proof -
    have "ws \<noteq> []" using that(1) by (auto simp: ws filter_empty_conv)
    moreover have "g_taskScheduled k2" using i2 by (simp add: kernel_inv_def run_wf_def)
    moreover have "g_losTaskLock k2 = 0" using that(2) by (simp add: k2_def k1_def fold_Wake_lock)
    ultimately show ?thesis unfolding k'_def res(2) by (simp add: schedule_defs LOS_CHECK_SCHEDULE_def)
  qed
  ultimately show ?thesis
    unfolding Let_def k'_def [symmetric] using res(1) by (simp add: fl)
qed

text \<open>
  C8: No wake-up is lost.  When no task waits for flags that are already set, a successful
  \<^verbatim>\<open>LOS_EventWrite\<close> sets the flags, wakes exactly the waiting tasks whose condition the new
  flags satisfy, leaves the others waiting in their order, and again no task waits for flags
  that are set; the kernel's invariants hold.  A woken task that is not suspended is ready and
  stands in the ready queue of its priority (the idle task is in no queue; a task that has not
  yet been switched out keeps running), and when a task was woken and the scheduler is not
  locked a task switch is requested.
\<close>

theorem event_write_wakes_exactly:
  assumes "kernel_inv k" "event_inv k" "a \<noteq> 0" "eventInit (eventCB k a)" "\<not> tst events LOS_ERRTYPE_ERROR"
  shows "let k' = snd (LOS_EventWrite a events k); ev = uwEventID (eventCB k a) OR events;
      sat = (\<lambda>t. event_sat (eventMode (tcb k t)) (eventMask (tcb k t)) ev) in
    fst (LOS_EventWrite a events k) = LOS_OK \<and> uwEventID (eventCB k' a) = ev \<and>
    pend k' (EventList a) = filter (\<lambda>t. \<not> sat t) (pend k (EventList a)) \<and>
    (\<forall>t. pending k' t \<longleftrightarrow> pending k t \<and> \<not> (t \<in> set (pend k (EventList a)) \<and> sat t)) \<and>
    (\<forall>t \<in> set (pend k (EventList a)). sat t \<and> \<not> bit (status k t) 1 \<and> t \<noteq> runTask k \<longrightarrow>
       ready k' t \<and> (\<not> is_idle k' t \<longrightarrow> t \<in> set (pend k' (PriQueue (prio k' t))))) \<and>
    ((\<exists>t \<in> set (pend k (EventList a)). sat t) \<and> g_losTaskLock k = 0 \<longrightarrow> swiPending k') \<and>
    kernel_inv k' \<and> event_inv k'"
  using assms by (rule event_write_effect)

lemma demo_event_inv: "event_inv demo_kernel"
  by (simp add: event_inv_def demo_pend)

text \<open>The running task of the example waits for flag 0 of the event at address 1.\<close>

definition demo_reader :: kernel where
  "demo_reader = OsSchedTaskWait (EventList 1) LOS_WAIT_FOREVER
     (upd_tcb 1 (\<lambda>c. c\<lparr>eventMask := 1, eventMode := LOS_WAITMODE_OR\<rparr>) demo_kernel)"

lemma demo_reader_inv: "kernel_inv demo_reader" "event_inv demo_reader" "pend demo_reader (EventList 1) = [1]"
proof -
  have "can_block demo_kernel"
    using demo_inv by (simp add: can_block_def demo_fields demo_status flag_simps)
  then show "kernel_inv demo_reader"
    unfolding demo_reader_def by (intro kernel_inv_Wait(1) can_block_upd) simp_all
  show "pend demo_reader (EventList 1) = [1]" by (simp add: demo_reader_def demo_pend demo_fields)
  show "event_inv demo_reader"
    by (auto simp: event_inv_def demo_reader_def demo_pend demo_fields demo_kernel_def event_sat_def
        LOS_WAITMODE_OR_def LOS_WAITMODE_AND_def tst_def)
qed

theorem event_write_wakes_exactly_witness:
  "pend (snd (LOS_EventWrite 1 3 demo_reader)) (EventList 1) = [] \<and>
   kernel_inv (snd (LOS_EventWrite 1 3 demo_reader))"
proof -
  have "eventInit (eventCB demo_reader 1)" "uwEventID (eventCB demo_reader 1) = 0"
    "eventMask (tcb demo_reader 1) = 1" "eventMode (tcb demo_reader 1) = LOS_WAITMODE_OR"
    by (simp_all add: demo_reader_def demo_kernel_def)
  moreover have "\<not> tst 3 LOS_ERRTYPE_ERROR" by (simp add: tst_def LOS_ERRTYPE_ERROR_def)
  moreover have "event_sat LOS_WAITMODE_OR 1 3" by (simp add: event_sat_def tst_def LOS_WAITMODE_OR_def)
  ultimately show ?thesis
    using event_write_wakes_exactly [OF demo_reader_inv(1,2), of 1 3] demo_reader_inv(3)
    by (simp add: Let_def)
qed

lemma event_read_effect:
  assumes "can_block k" "event_inv k" "OsEventReadParamCheck a msk mode k = LOS_OK"
    and "\<not> OS_INT_ACTIVE k" "g_losTaskLock k = 0"
  shows "let ev = uwEventID (eventCB k a); (r, k') = LOS_EventRead a msk mode timeOut k in
    (if event_sat mode msk ev
     then r = Ret (ev AND msk) \<and> pend k' = pend k \<and>
       uwEventID (eventCB k' a) = (if tst mode LOS_WAITMODE_CLR then clr ev msk else ev)
     else if timeOut = 0 then r = Ret 0 \<and> pend k' = pend k \<and> uwEventID (eventCB k' a) = ev
     else r = Blocked \<and> pend k' (EventList a) = pend k (EventList a) @ [runTask k] \<and>
       pending k' (runTask k) \<and> uwEventID (eventCB k' a) = ev) \<and>
    kernel_inv k' \<and> event_inv k'"
proof -
  let ?ev = "uwEventID (eventCB k a)"
  have inv: "kernel_inv k" using assms(1) by (simp add: can_block_def)
  define ev' where "ev' = (if event_sat mode msk ?ev \<and> tst mode LOS_WAITMODE_CLR then clr ?ev (?ev AND msk) else ?ev)"
  define k1 where "k1 = upd_event a (\<lambda>e. e\<lparr>uwEventID := ev'\<rparr>) k"
  have poll: "poll_cb a msk mode k = (if event_sat mode msk ?ev then ?ev AND msk else 0, k1)"
    using poll_sat(1) [of ?ev msk mode] poll_clears [of ?ev msk mode]
    by (simp add: poll_cb_def split_beta k1_def ev'_def)
  have nz: "event_sat mode msk ?ev \<Longrightarrow> ?ev AND msk \<noteq> 0"
    using poll_sat [of ?ev msk mode] by simp
  have clr: "clr ?ev (?ev AND msk) = clr ?ev msk"
    by (rule bit_word_eqI) (auto simp: bit_and_iff)
  have "bit ev' n \<Longrightarrow> bit ?ev n" for n by (simp add: ev'_def split: if_splits)
  then have k1e: "event_inv k1" unfolding k1_def by (rule event_inv_clear [OF assms(2)])
  have k1: "kernel_inv k1" "can_block k1" "event_inv k1" "tcb k1 = tcb k" "pend k1 = pend k"
    "runTask k1 = runTask k" "g_losTaskLock k1 = g_losTaskLock k" "uwEventID (eventCB k1 a) = ev'"
    "\<And>c. c \<noteq> a \<Longrightarrow> eventCB k1 c = eventCB k c"
    using kernel_inv_view [of k1 k] can_block_view [of k1 k] inv assms(1) k1e by (simp_all add: k1_def)
  define k2 where "k2 = OsSchedTaskWait (EventList a) timeOut
    (upd_tcb (runTask k) (\<lambda>c. c\<lparr>eventMask := msk, eventMode := mode\<rparr>) k1)"
  have b: "can_block (upd_tcb (runTask k) (\<lambda>c. c\<lparr>eventMask := msk, eventMode := mode\<rparr>) k1)"
    by (rule can_block_upd [OF k1(2)]) simp
  have k2: "kernel_inv k2" "pending k2 (runTask k)"
    using kernel_inv_Wait [OF b, of "EventList a" timeOut] k1(6) by (simp_all add: k2_def)
  have notin: "runTask k \<notin> set (pend k (EventList c))" for c
    using assms(1) waiting_pending [of k "EventList c" "runTask k"] by (auto simp: can_block_def kernel_inv_def)
  have valid: "tst mode LOS_WAITMODE_OR \<longleftrightarrow> \<not> tst mode LOS_WAITMODE_AND" "msk \<noteq> 0"
    using assms(3) by (auto simp: OsEventReadParamCheck_def split: if_splits)
  have "event_inv (LOS_Schedule k2)" if "\<not> event_sat mode msk ?ev"
    using assms(2) notin that valid by (auto simp: event_inv_def k2_def k1 ev'_def)
  moreover have "LOS_EventRead a msk mode timeOut k =
     (if event_sat mode msk ?ev then (Ret (?ev AND msk), k1)
      else if timeOut = 0 then (Ret 0, k1) else (Blocked, LOS_Schedule k2))"
    using assms(3-5) nz by (simp add: LOS_EventRead_def poll Let_def k1 k2_def)
  ultimately show ?thesis
    using k1 k2 kernel_inv_Schedule [OF k2(1)]
    by (auto simp: Let_def clr ev'_def) (simp_all add: k2_def k1 ev'_def)
qed

text \<open>
  C9: \<^verbatim>\<open>LOS_EventRead\<close>, called by a task that may block with valid arguments.  When the flags
  satisfy the condition it returns the flags asked for that are set, and removes exactly
  these from the event in the clear mode; when they do not, it returns 0 without a timeout
  and otherwise appends the caller to the waiting tasks and blocks.  Both invariants hold
  afterwards.
\<close>

theorem event_read_correct:
  assumes "can_block k" "event_inv k" "OsEventReadParamCheck a msk mode k = LOS_OK"
    and "\<not> OS_INT_ACTIVE k" "g_losTaskLock k = 0"
  shows "let ev = uwEventID (eventCB k a); (r, k') = LOS_EventRead a msk mode timeOut k in
    (if event_sat mode msk ev
     then r = Ret (ev AND msk) \<and> pend k' = pend k \<and>
       uwEventID (eventCB k' a) = (if tst mode LOS_WAITMODE_CLR then clr ev msk else ev)
     else if timeOut = 0 then r = Ret 0 \<and> pend k' = pend k \<and> uwEventID (eventCB k' a) = ev
     else r = Blocked \<and> pend k' (EventList a) = pend k (EventList a) @ [runTask k] \<and>
       pending k' (runTask k) \<and> uwEventID (eventCB k' a) = ev) \<and>
    kernel_inv k' \<and> event_inv k'"
  using assms by (rule event_read_effect)

theorem event_read_correct_witness:
  "fst (LOS_EventRead 1 1 LOS_WAITMODE_OR 10 demo_kernel) = Blocked \<and>
   event_inv (snd (LOS_EventRead 1 1 LOS_WAITMODE_OR 10 demo_kernel))"
proof -
  have cb: "can_block demo_kernel"
    using demo_inv by (simp add: can_block_def demo_fields demo_status flag_simps)
  have "OsEventReadParamCheck 1 1 LOS_WAITMODE_OR demo_kernel = LOS_OK" "\<not> OS_INT_ACTIVE demo_kernel"
    "g_losTaskLock demo_kernel = 0" "\<not> event_sat LOS_WAITMODE_OR 1 (uwEventID (eventCB demo_kernel 1))"
    by (simp_all add: OsEventReadParamCheck_def OS_INT_ACTIVE_def demo_kernel_def event_sat_def tst_def
        LOS_WAITMODE_OR_def LOS_WAITMODE_AND_def LOS_WAITMODE_CLR_def LOS_ERRTYPE_ERROR_def)
  from event_read_correct [OF cb demo_event_inv this(1-3), of 10] this(4) show ?thesis
    by (simp add: split_beta Let_def)
qed

end
