(* ===== verification/Los_Mux.thy ===== *)
theory Los_Mux
  imports Sched_Client
begin

text \<open>
  \<^verbatim>\<open>LiteOS/kernel/src/los_mux.c\<close>: recursive mutexes with priority inheritance.  As for
  semaphores, \<open>LOS_MuxPend\<close> is the part of the call before its \<^verbatim>\<open>LOS_Schedule\<close>.  The
  code does not clear \<^verbatim>\<open>owner\<close> when a mutex is released with no task waiting, so the owner
  means something only while the count is positive.  \<open>mux_saved\<close> says that a mutex holds the priority
  its owner goes back to; it is set when the mutex is taken or handed over and kept until its last
  release.
\<close>

abbreviation "LOS_ERRNO_MUX_NO_MEMORY \<equiv> LOS_ERRNO_OS_ERROR 0x1d 0"
abbreviation "LOS_ERRNO_MUX_INVALID \<equiv> LOS_ERRNO_OS_ERROR 0x1d 1"
abbreviation "LOS_ERRNO_MUX_PTR_NULL \<equiv> LOS_ERRNO_OS_ERROR 0x1d 2"
abbreviation "LOS_ERRNO_MUX_ALL_BUSY \<equiv> LOS_ERRNO_OS_ERROR 0x1d 3"
abbreviation "LOS_ERRNO_MUX_UNAVAILABLE \<equiv> LOS_ERRNO_OS_ERROR 0x1d 4"
abbreviation "LOS_ERRNO_MUX_PEND_INTERR \<equiv> LOS_ERRNO_OS_ERROR 0x1d 5"
abbreviation "LOS_ERRNO_MUX_PEND_IN_LOCK \<equiv> LOS_ERRNO_OS_ERROR 0x1d 6"
abbreviation "LOS_ERRNO_MUX_TIMEOUT \<equiv> LOS_ERRNO_OS_ERROR 0x1d 7"
abbreviation "LOS_ERRNO_MUX_PENDED \<equiv> LOS_ERRNO_OS_ERROR 0x1d 9"

definition OS_MUX_UNUSED :: u8 where "OS_MUX_UNUSED = 0"
definition OS_MUX_USED :: u8 where "OS_MUX_USED = 1"

definition upd_mux :: "nat \<Rightarrow> (LosMuxCB \<Rightarrow> LosMuxCB) \<Rightarrow> kernel \<Rightarrow> kernel" where
  "upd_mux i f k = k\<lparr>g_allMux := (g_allMux k)(i := f (g_allMux k i))\<rparr>"

section \<open>Operations\<close>

definition OsMuxInit :: "u32 \<Rightarrow> kernel \<Rightarrow> u32 \<times> kernel" where
  "OsMuxInit mem k =
     (let k1 = k\<lparr>g_unusedMuxList := []\<rparr> in
      if LOSCFG_BASE_IPC_MUX_LIMIT = 0 then (LOS_ERRNO_OS_ERROR 0x1d 0xC, k1)
      else if mem = 0 then (LOS_ERRNO_MUX_NO_MEMORY, k1)
      else (LOS_OK, fold (\<lambda>i k. (upd_mux i (\<lambda>c. c\<lparr>muxID := of_nat i, muxStat := OS_MUX_UNUSED\<rparr>) k)
                              \<lparr>g_unusedMuxList := g_unusedMuxList k @ [i]\<rparr>)
                      [0..<LOSCFG_BASE_IPC_MUX_LIMIT] k1))"

definition LOS_MuxCreate :: "bool \<Rightarrow> kernel \<Rightarrow> u32 \<times> u32 option \<times> kernel" where
  "LOS_MuxCreate handleNull k =
     (if handleNull then (LOS_ERRNO_MUX_PTR_NULL, None, k)
      else case g_unusedMuxList k of
        [] \<Rightarrow> (LOS_ERRNO_MUX_ALL_BUSY, None, k)
      | i # rest \<Rightarrow>
          let k1 = k\<lparr>g_unusedMuxList := rest\<rparr>;
              k2 = upd_mux i (\<lambda>c. c\<lparr>muxCount := 0, muxStat := OS_MUX_USED, muxPriority := 0,
                                     muxOwner := None\<rparr>) k1;
              k3 = k2\<lparr>pend := (pend k2)(MuxList i := [])\<rparr>
          in (LOS_OK, Some (muxID (g_allMux k3 i)), k3))"

definition LOS_MuxDelete :: "u32 \<Rightarrow> kernel \<Rightarrow> u32 \<times> kernel" where
  "LOS_MuxDelete muxHandle k =
     (let i = unat muxHandle in
      if i \<ge> LOSCFG_BASE_IPC_MUX_LIMIT then (LOS_ERRNO_MUX_INVALID, k)
      else if muxStat (g_allMux k i) = OS_MUX_UNUSED then (LOS_ERRNO_MUX_INVALID, k)
      else if pend k (MuxList i) \<noteq> [] \<or> muxCount (g_allMux k i) \<noteq> 0 then (LOS_ERRNO_MUX_PENDED, k)
      else (LOS_OK, upd_mux i (\<lambda>c. c\<lparr>muxStat := OS_MUX_UNUSED\<rparr>)
                      (k\<lparr>g_unusedMuxList := i # g_unusedMuxList k\<rparr>)))"

definition OsMuxValidCheck :: "nat \<Rightarrow> kernel \<Rightarrow> u32" where
  "OsMuxValidCheck i k =
     (if muxStat (g_allMux k i) = OS_MUX_UNUSED then LOS_ERRNO_MUX_INVALID
      else if OS_INT_ACTIVE k then LOS_ERRNO_MUX_PEND_INTERR
      else if g_losTaskLock k \<noteq> 0 then LOS_ERRNO_MUX_PEND_IN_LOCK
      else LOS_OK)"

text \<open>A mutex with a positive count has an owner (\<open>mux_inv\<close> below), which is the pointer the
  code follows here.\<close>

definition LOS_MuxPend :: "u32 \<Rightarrow> u32 \<Rightarrow> kernel \<Rightarrow> outcome \<times> kernel" where
  "LOS_MuxPend muxHandle timeout k =
     (let i = unat muxHandle in
      if i \<ge> LOSCFG_BASE_IPC_MUX_LIMIT then (Ret LOS_ERRNO_MUX_INVALID, k)
      else
        let retErr = OsMuxValidCheck i k; t = runTask k; m = g_allMux k i in
        if retErr \<noteq> LOS_OK then (Ret retErr, k)
        else if muxCount m = 0
        then (Ret LOS_OK, upd_mux i (\<lambda>c. c\<lparr>muxCount := muxCount c + 1, muxOwner := Some t,
                                            muxPriority := priority (tcb k t)\<rparr>) k)
        else if muxOwner m = Some t
        then (Ret LOS_OK, upd_mux i (\<lambda>c. c\<lparr>muxCount := muxCount c + 1\<rparr>) k)
        else if timeout = 0 then (Ret LOS_ERRNO_MUX_UNAVAILABLE, k)
        else
          let k1 = upd_tcb t (\<lambda>c. c\<lparr>taskMux := Some i\<rparr>) k;
              own = the (muxOwner m);
              k2 = (if priority (tcb k1 own) > priority (tcb k1 t)
                    then snd (OsSchedModifyTaskSchedParam own (priority (tcb k1 t)) k1) else k1)
          in (Blocked, LOS_Schedule (OsSchedTaskWait (MuxList i) timeout k2)))"

definition LOS_MuxPend_resume :: "nat \<Rightarrow> kernel \<Rightarrow> u32 \<times> kernel" where
  "LOS_MuxPend_resume t k =
     (let (timedOut, k1) = consume_timeout t k in
      (if timedOut then LOS_ERRNO_MUX_TIMEOUT else LOS_OK, k1))"

definition LOS_MuxPost :: "u32 \<Rightarrow> kernel \<Rightarrow> u32 \<times> kernel" where
  "LOS_MuxPost muxHandle k =
     (let i = unat muxHandle; m = g_allMux k i; t = runTask k in
      if i \<ge> LOSCFG_BASE_IPC_MUX_LIMIT \<or> muxStat m = OS_MUX_UNUSED then (LOS_ERRNO_MUX_INVALID, k)
      else if muxCount m = 0 \<or> muxOwner m \<noteq> Some t then (LOS_ERRNO_MUX_INVALID, k)
      else
        let k1 = upd_mux i (\<lambda>c. c\<lparr>muxCount := muxCount c - 1\<rparr>) k in
        if muxCount (g_allMux k1 i) \<noteq> 0 then (LOS_OK, k1)
        else
          let k2 = (if priority (tcb k1 t) \<noteq> muxPriority m
                    then snd (OsSchedModifyTaskSchedParam t (muxPriority m) k1) else k1)
          in case pend k2 (MuxList i) of
               [] \<Rightarrow> (LOS_OK, k2)
             | w # _ \<Rightarrow>
                 let k3 = upd_mux i (\<lambda>c. c\<lparr>muxCount := 1, muxOwner := Some w,
                                            muxPriority := priority (tcb k2 w)\<rparr>) k2;
                     k4 = upd_tcb w (\<lambda>c. c\<lparr>taskMux := None\<rparr>) k3
                 in (LOS_OK, LOS_Schedule (OsSchedTaskWake w k4)))"

section \<open>Facts\<close>

lemma mux_fields [simp]:
  "g_allMux (upd_mux i f k) = (g_allMux k)(i := f (g_allMux k i))" "pend (upd_mux i f k) = pend k"
  "tcb (upd_mux i f k) = tcb k" "runTask (upd_mux i f k) = runTask k"
  "g_taskScheduled (upd_mux i f k) = g_taskScheduled k" "sched_view (upd_mux i f k) = sched_view k"
  "g_unusedMuxList (upd_mux i f k) = g_unusedMuxList k"
  "g_allMux (upd_tcb t g k) = g_allMux k" "g_allMux (LOS_Schedule k) = g_allMux k"
  "g_unusedMuxList (upd_tcb t g k) = g_unusedMuxList k" "g_unusedMuxList (LOS_Schedule k) = g_unusedMuxList k"
  "g_allMux (OsSchedTaskWait l n k) = g_allMux k" "g_unusedMuxList (OsSchedTaskWait l n k) = g_unusedMuxList k"
  by (simp_all add: upd_mux_def schedule_defs wait_defs)

lemma mux_fields_wake [simp]:
  "g_allMux (OsSchedTaskWake t k) = g_allMux k" "g_unusedMuxList (OsSchedTaskWake t k) = g_unusedMuxList k"
  by (simp_all add: wake_defs)

lemma mux_fields_modify [simp]:
  "g_allMux (snd (OsSchedModifyTaskSchedParam t p k)) = g_allMux k"
  "g_unusedMuxList (snd (OsSchedModifyTaskSchedParam t p k)) = g_unusedMuxList k"
  by (simp_all add: OsSchedModifyTaskSchedParam_def OsSchedTaskDeQueue_def OsSchedPriQueueDelete_def wake_defs)

section \<open>Invariant\<close>

definition mux_inv :: "kernel \<Rightarrow> bool" where
  "mux_inv k \<longleftrightarrow>
     (\<forall>i < LOSCFG_BASE_IPC_MUX_LIMIT.
        (muxStat (g_allMux k i) = OS_MUX_UNUSED \<or> muxCount (g_allMux k i) = 0 \<longrightarrow> pend k (MuxList i) = []) \<and>
        (muxStat (g_allMux k i) \<noteq> OS_MUX_UNUSED \<and> muxCount (g_allMux k i) \<noteq> 0 \<longrightarrow>
           (\<exists>t. muxOwner (g_allMux k i) = Some t \<and> t \<notin> set (pend k (MuxList i))) \<and>
           unat (muxPriority (g_allMux k i)) < 32)) \<and>
     distinct (g_unusedMuxList k) \<and>
     (\<forall>i \<in> set (g_unusedMuxList k). i < LOSCFG_BASE_IPC_MUX_LIMIT \<and> muxStat (g_allMux k i) = OS_MUX_UNUSED)"

lemma mux_invD:
  assumes "mux_inv k" "i < LOSCFG_BASE_IPC_MUX_LIMIT"
  shows "muxStat (g_allMux k i) = OS_MUX_UNUSED \<or> muxCount (g_allMux k i) = 0 \<Longrightarrow> pend k (MuxList i) = []"
    "muxStat (g_allMux k i) \<noteq> OS_MUX_UNUSED \<Longrightarrow> muxCount (g_allMux k i) \<noteq> 0 \<Longrightarrow>
       (\<exists>t. muxOwner (g_allMux k i) = Some t \<and> t \<notin> set (pend k (MuxList i))) \<and>
       unat (muxPriority (g_allMux k i)) < 32"
  using assms unfolding mux_inv_def by blast+



lemma kernel_inv_upd_mux: "kernel_inv k \<Longrightarrow> kernel_inv (upd_mux i f k)"
  by (rule kernel_inv_view [of _ k]) simp_all

lemma prio_bound: "kernel_inv k \<Longrightarrow> \<not> bit (status k t) 0 \<Longrightarrow> prio k t < 32"
  using task_wfD(1) [OF sched_invD(4)] by (simp add: kernel_inv_def)

text \<open>The state in which a call that must wait enters the wait.\<close>

definition mux_boost :: "nat \<Rightarrow> kernel \<Rightarrow> kernel" where
  "mux_boost i k =
     (let k1 = upd_tcb (runTask k) (\<lambda>c. c\<lparr>taskMux := Some i\<rparr>) k; own = the (muxOwner (g_allMux k i)) in
      if priority (tcb k1 own) > priority (tcb k1 (runTask k))
      then snd (OsSchedModifyTaskSchedParam own (priority (tcb k1 (runTask k))) k1) else k1)"

lemma mux_boost_facts:
  assumes "can_block k"
  shows "can_block (mux_boost i k)" "g_allMux (mux_boost i k) = g_allMux k"
    "g_unusedMuxList (mux_boost i k) = g_unusedMuxList k" "runTask (mux_boost i k) = runTask k"
    "pend (mux_boost i k) (MuxList j) = pend k (MuxList j)"
proof -
  let ?k1 = "upd_tcb (runTask k) (\<lambda>c. c\<lparr>taskMux := Some i\<rparr>) k"
  have b: "can_block ?k1" by (rule can_block_upd [OF assms]) simp
  then have s: "sched_inv ?k1" and p: "prio ?k1 (runTask k) < 32"
    using prio_bound [of ?k1 "runTask k"] by (auto simp: can_block_def kernel_inv_def)
  show "can_block (mux_boost i k)"
    using b can_block_Modify [OF b p] by (simp add: mux_boost_def Let_def)
  show "pend (mux_boost i k) (MuxList j) = pend k (MuxList j)"
    using Modify_pend [OF s, of "MuxList j"] by (simp add: mux_boost_def Let_def)
qed (simp_all add: mux_boost_def Let_def)

lemma LOS_MuxPend_block:
  assumes "unat h < LOSCFG_BASE_IPC_MUX_LIMIT" "OsMuxValidCheck (unat h) k = LOS_OK"
    "muxCount (g_allMux k (unat h)) \<noteq> 0" "muxOwner (g_allMux k (unat h)) \<noteq> Some (runTask k)" "n \<noteq> 0"
  shows "LOS_MuxPend h n k =
    (Blocked, LOS_Schedule (OsSchedTaskWait (MuxList (unat h)) n (mux_boost (unat h) k)))"
  using assms by (simp add: LOS_MuxPend_def mux_boost_def Let_def)

text \<open>The two updates of a successful, non-blocking pend.\<close>

lemma LOS_MuxPend_cases:
  obtains r where "LOS_MuxPend h n k = (Ret r, k)" "r \<noteq> LOS_OK"
  | f where "LOS_MuxPend h n k = (Ret LOS_OK, upd_mux (unat h) f k)" "unat h < LOSCFG_BASE_IPC_MUX_LIMIT"
      "muxStat (g_allMux k (unat h)) \<noteq> OS_MUX_UNUSED" "muxCount (g_allMux k (unat h)) = 0"
      "f = (\<lambda>c. c\<lparr>muxCount := muxCount c + 1, muxOwner := Some (runTask k), muxPriority := priority (tcb k (runTask k))\<rparr>)"
  | f where "LOS_MuxPend h n k = (Ret LOS_OK, upd_mux (unat h) f k)" "unat h < LOSCFG_BASE_IPC_MUX_LIMIT"
      "muxStat (g_allMux k (unat h)) \<noteq> OS_MUX_UNUSED"
      "muxOwner (g_allMux k (unat h)) = Some (runTask k)" "muxCount (g_allMux k (unat h)) \<noteq> 0"
      "f = (\<lambda>c. c\<lparr>muxCount := muxCount c + 1\<rparr>)"
  | "LOS_MuxPend h n k =
      (Blocked, LOS_Schedule (OsSchedTaskWait (MuxList (unat h)) n (mux_boost (unat h) k)))"
      "unat h < LOSCFG_BASE_IPC_MUX_LIMIT" "muxStat (g_allMux k (unat h)) \<noteq> OS_MUX_UNUSED"
      "muxCount (g_allMux k (unat h)) \<noteq> 0" "muxOwner (g_allMux k (unat h)) \<noteq> Some (runTask k)"
proof -
  let ?i = "unat h"
  have u: "muxStat (g_allMux k ?i) \<noteq> OS_MUX_UNUSED" if "OsMuxValidCheck ?i k = LOS_OK"
    using that by (auto simp: OsMuxValidCheck_def)
  consider "?i \<ge> LOSCFG_BASE_IPC_MUX_LIMIT \<or> OsMuxValidCheck ?i k \<noteq> LOS_OK"
    | "?i < LOSCFG_BASE_IPC_MUX_LIMIT" "OsMuxValidCheck ?i k = LOS_OK" "muxCount (g_allMux k ?i) = 0"
    | "?i < LOSCFG_BASE_IPC_MUX_LIMIT" "OsMuxValidCheck ?i k = LOS_OK" "muxCount (g_allMux k ?i) \<noteq> 0"
      "muxOwner (g_allMux k ?i) = Some (runTask k)"
    | "?i < LOSCFG_BASE_IPC_MUX_LIMIT" "OsMuxValidCheck ?i k = LOS_OK" "muxCount (g_allMux k ?i) \<noteq> 0"
      "muxOwner (g_allMux k ?i) \<noteq> Some (runTask k)"
    by fastforce
  then show thesis
  proof cases
    case 1
    then show thesis using that(1) by (cases "LOSCFG_BASE_IPC_MUX_LIMIT \<le> ?i") (auto simp: LOS_MuxPend_def Let_def)
  next
    case 2
    then show thesis using u that(2) by (simp add: LOS_MuxPend_def Let_def)
  next
    case 3
    then show thesis using u that(3) by (simp add: LOS_MuxPend_def Let_def)
  next
    case 4
    show thesis
    proof (cases "n = 0")
      case True
      then show thesis using 4 that(1) by (simp add: LOS_MuxPend_def Let_def)
    next
      case False
      show thesis by (rule that(4) [OF LOS_MuxPend_block [OF 4 False] 4(1) u [OF 4(2)] 4(3,4)])
    qed
  qed
qed


section \<open>Releasing\<close>

text \<open>The state after a final release, before the mutex is handed over: the priority the owner
  had when it took the mutex is restored.\<close>

definition mux_restore :: "nat \<Rightarrow> kernel \<Rightarrow> kernel" where
  "mux_restore i k =
     (let k1 = upd_mux i (\<lambda>c. c\<lparr>muxCount := muxCount c - 1\<rparr>) k in
      if priority (tcb k1 (runTask k)) \<noteq> muxPriority (g_allMux k i)
      then snd (OsSchedModifyTaskSchedParam (runTask k) (muxPriority (g_allMux k i)) k1) else k1)"

lemma mux_restore_facts:
  assumes "kernel_inv k" "unat (muxPriority (g_allMux k i)) < 32"
  shows "kernel_inv (mux_restore i k)" "runTask (mux_restore i k) = runTask k"
    "g_allMux (mux_restore i k) = (g_allMux k)(i := (g_allMux k i)\<lparr>muxCount := muxCount (g_allMux k i) - 1\<rparr>)"
    "g_unusedMuxList (mux_restore i k) = g_unusedMuxList k"
    "pend (mux_restore i k) (MuxList j) = pend k (MuxList j)"
    "priority (tcb (mux_restore i k) (runTask k)) = muxPriority (g_allMux k i)"
    "u \<noteq> runTask k \<Longrightarrow> priority (tcb (mux_restore i k) u) = priority (tcb k u)"
proof -
  let ?k1 = "upd_mux i (\<lambda>c. c\<lparr>muxCount := muxCount c - 1\<rparr>) k"
  have i1: "kernel_inv ?k1" by (rule kernel_inv_upd_mux [OF assms(1)])
  then have s1: "sched_inv ?k1" by (simp add: kernel_inv_def)
  show "kernel_inv (mux_restore i k)"
    using i1 kernel_inv_Modify [OF i1 assms(2)] by (simp add: mux_restore_def Let_def)
  show "pend (mux_restore i k) (MuxList j) = pend k (MuxList j)"
    using Modify_pend [OF s1, of "MuxList j"] by (simp add: mux_restore_def Let_def)
qed (auto simp: mux_restore_def Let_def)

definition mux_hand_over :: "nat \<Rightarrow> nat \<Rightarrow> kernel \<Rightarrow> kernel" where
  "mux_hand_over i w k =
     (let k3 = upd_mux i (\<lambda>c. c\<lparr>muxCount := 1, muxOwner := Some w, muxPriority := priority (tcb k w)\<rparr>) k
      in OsSchedTaskWake w (upd_tcb w (\<lambda>c. c\<lparr>taskMux := None\<rparr>) k3))"

definition mux_held_by :: "u32 \<Rightarrow> nat \<Rightarrow> kernel \<Rightarrow> bool" where
  "mux_held_by h t k \<longleftrightarrow> unat h < LOSCFG_BASE_IPC_MUX_LIMIT \<and> muxStat (g_allMux k (unat h)) \<noteq> OS_MUX_UNUSED \<and>
     muxCount (g_allMux k (unat h)) \<noteq> 0 \<and> muxOwner (g_allMux k (unat h)) = Some t"

lemma LOS_MuxPost_eq:
  "LOS_MuxPost h k =
     (if mux_held_by h (runTask k) k then
        (LOS_OK,
         if muxCount (g_allMux k (unat h)) - 1 \<noteq> 0
         then upd_mux (unat h) (\<lambda>c. c\<lparr>muxCount := muxCount c - 1\<rparr>) k
         else case pend (mux_restore (unat h) k) (MuxList (unat h)) of
                [] \<Rightarrow> mux_restore (unat h) k
              | w # _ \<Rightarrow> LOS_Schedule (mux_hand_over (unat h) w (mux_restore (unat h) k)))
      else (LOS_ERRNO_MUX_INVALID, k))"
  by (auto simp: LOS_MuxPost_def mux_held_by_def mux_restore_def mux_hand_over_def Let_def split: list.splits)


lemma mux_hand_over_fields [simp]:
  "g_allMux (mux_hand_over i w k) = (g_allMux k)(i := (g_allMux k i)\<lparr>muxCount := 1, muxOwner := Some w,
     muxPriority := priority (tcb k w)\<rparr>)"
  "g_unusedMuxList (mux_hand_over i w k) = g_unusedMuxList k"
  "priority (tcb (mux_hand_over i w k) u) = priority (tcb k u)"
  by (simp_all add: mux_hand_over_def Let_def)


section \<open>What a mutex is\<close>





definition mux_valid :: "u32 \<Rightarrow> kernel \<Rightarrow> bool" where
  "mux_valid h k \<longleftrightarrow> unat h < LOSCFG_BASE_IPC_MUX_LIMIT \<and> muxStat (g_allMux k (unat h)) \<noteq> OS_MUX_UNUSED"


text \<open>The example state with mutex 0 held by task 2.\<close>

definition demo_mux :: kernel where
  "demo_mux = upd_mux 0 (\<lambda>c. c\<lparr>muxStat := OS_MUX_USED, muxCount := 1, muxOwner := Some 2, muxPriority := 7\<rparr>)
     (demo_kernel\<lparr>g_unusedMuxList := [1, 2]\<rparr>)"

lemma demo_mux_inv: "can_block demo_mux" "mux_inv demo_mux" "mux_valid 0 demo_mux"
  "\<not> OS_INT_ACTIVE demo_mux" "g_losTaskLock demo_mux = 0"
proof -
  have "can_block demo_kernel"
    using demo_inv by (simp add: can_block_def demo_fields demo_status flag_simps)
  then show "can_block demo_mux" unfolding demo_mux_def by (rule can_block_view [of _ demo_kernel, rotated 3]) simp_all
  have "muxStat (g_allMux demo_mux i) = (if i = 0 then OS_MUX_USED else OS_MUX_UNUSED)"
    "muxCount (g_allMux demo_mux i) = (if i = 0 then 1 else 0)" "pend demo_mux (MuxList i) = []"
    "i = 0 \<Longrightarrow> muxOwner (g_allMux demo_mux i) = Some 2 \<and> muxPriority (g_allMux demo_mux i) = 7"
    "g_unusedMuxList demo_mux = [1, 2]" for i
    by (simp_all add: demo_mux_def demo_kernel_def OS_MUX_UNUSED_def)
  then show "mux_inv demo_mux"
    by (simp add: mux_inv_def OS_MUX_USED_def OS_MUX_UNUSED_def LOSCFG_BASE_IPC_MUX_LIMIT_def)
  show "mux_valid 0 demo_mux" "\<not> OS_INT_ACTIVE demo_mux" "g_losTaskLock demo_mux = 0"
    by (simp_all add: mux_valid_def demo_mux_def demo_kernel_def OS_INT_ACTIVE_def OS_MUX_USED_def
        OS_MUX_UNUSED_def LOSCFG_BASE_IPC_MUX_LIMIT_def upd_mux_def)
qed

lemma demo_mux_state: "g_allMux demo_mux 0 = \<lparr>muxStat = OS_MUX_USED, muxCount = 1, muxID = 0,
    muxOwner = Some 2, muxPriority = 7\<rparr>" "pend demo_mux (MuxList 0) = []" "runTask demo_mux = 1"
  by (simp_all add: demo_mux_def demo_kernel_def)






text \<open>A mutex held by \<open>t\<close>, which had priority \<open>p\<close> when the mutex was given to it.\<close>

definition mux_saved :: "nat \<Rightarrow> nat \<Rightarrow> u16 \<Rightarrow> kernel \<Rightarrow> bool" where
  "mux_saved i t p k \<longleftrightarrow> muxCount (g_allMux k i) \<noteq> 0 \<and> muxOwner (g_allMux k i) = Some t \<and>
     muxPriority (g_allMux k i) = p"

lemma mutex_boosts:
  assumes "can_block k" "mux_inv k" "fst (LOS_MuxPend h n k) = Blocked"
  shows "(\<exists>own. muxOwner (g_allMux k (unat h)) = Some own \<and>
      prio (snd (LOS_MuxPend h n k)) own \<le> prio (snd (LOS_MuxPend h n k)) (runTask k)) \<and>
    (\<forall>u. prio (snd (LOS_MuxPend h n k)) u \<le> prio k u)"
proof -
  let ?i = "unat h"
  have blk: "LOS_MuxPend h n k = (Blocked, LOS_Schedule (OsSchedTaskWait (MuxList ?i) n (mux_boost ?i k)))"
    "?i < LOSCFG_BASE_IPC_MUX_LIMIT" "muxStat (g_allMux k ?i) \<noteq> OS_MUX_UNUSED"
    "muxCount (g_allMux k ?i) \<noteq> 0" "muxOwner (g_allMux k ?i) \<noteq> Some (runTask k)"
    using assms(3) by (cases h n k rule: LOS_MuxPend_cases; simp)+
  obtain own where own: "muxOwner (g_allMux k ?i) = Some own" using mux_invD(2) [OF assms(2) blk(2-4)] by auto
  have pr: "priority (tcb (OsSchedTaskWait (MuxList ?i) n k') u) = priority (tcb k' u)" for k' u
    by (simp add: wait_defs)
  have "own \<noteq> runTask k" using own blk(5) by auto
  then have "prio (snd (LOS_MuxPend h n k)) own \<le> prio (snd (LOS_MuxPend h n k)) (runTask k)"
    using own by (auto simp: blk(1) pr mux_boost_def Let_def word_less_nat_alt)
  moreover have "prio (snd (LOS_MuxPend h n k)) u \<le> prio k u" for u
    using own by (auto simp: blk(1) pr mux_boost_def Let_def word_less_nat_alt)
  ultimately show ?thesis using own by blast
qed

lemma mux_saved_pend:
  assumes "can_block k" "muxCount (g_allMux k (unat h)) \<noteq> 0xFFFF"
  shows "fst (LOS_MuxPend h n k) = Ret LOS_OK \<Longrightarrow> muxCount (g_allMux k (unat h)) = 0 \<Longrightarrow>
      mux_saved (unat h) (runTask k) (priority (tcb k (runTask k))) (snd (LOS_MuxPend h n k))"
    and "mux_saved j t p k \<Longrightarrow> mux_saved j t p (snd (LOS_MuxPend h n k))"
proof -
  have "muxCount (g_allMux k (unat h)) + 1 \<noteq> 0" using assms(2) u16_no_wrap by blast
  then show "fst (LOS_MuxPend h n k) = Ret LOS_OK \<Longrightarrow> muxCount (g_allMux k (unat h)) = 0 \<Longrightarrow>
      mux_saved (unat h) (runTask k) (priority (tcb k (runTask k))) (snd (LOS_MuxPend h n k))"
    and "mux_saved j t p k \<Longrightarrow> mux_saved j t p (snd (LOS_MuxPend h n k))"
    using mux_boost_facts(2) [OF assms(1)]
    by (cases h n k rule: LOS_MuxPend_cases; simp add: mux_saved_def; fastforce)+
qed

lemma mux_saved_post:
  assumes k: "kernel_inv k" and inv: "mux_inv k"
  shows "mux_saved j t p k \<Longrightarrow> \<not> (j = unat h \<and> mux_held_by h (runTask k) k \<and> muxCount (g_allMux k j) = 1) \<Longrightarrow>
      mux_saved j t p (snd (LOS_MuxPost h k))"
    and "mux_held_by h (runTask k) k \<Longrightarrow> muxCount (g_allMux k (unat h)) = 1 \<Longrightarrow> pend k (MuxList (unat h)) = w # ws \<Longrightarrow>
      mux_saved (unat h) w (priority (tcb k w)) (snd (LOS_MuxPost h k))"
    and "mux_held_by h (runTask k) k \<Longrightarrow> muxCount (g_allMux k (unat h)) = 1 \<Longrightarrow> mux_saved (unat h) (runTask k) p k \<Longrightarrow>
      priority (tcb (snd (LOS_MuxPost h k)) (runTask k)) = p"
proof -
  let ?i = "unat h"
  have bnd: "unat (muxPriority (g_allMux k ?i)) < 32" "runTask k \<notin> set (pend k (MuxList ?i))"
    if "mux_held_by h (runTask k) k"
    using mux_invD(2) [OF inv, of ?i] that by (auto simp: mux_held_by_def)
  show "mux_saved j t p (snd (LOS_MuxPost h k))"
    if s: "mux_saved j t p k" and n: "\<not> (j = ?i \<and> mux_held_by h (runTask k) k \<and> muxCount (g_allMux k j) = 1)"
  proof (cases "mux_held_by h (runTask k) k")
    case True
    note r = mux_restore_facts [OF k bnd(1) [OF True]]
    show ?thesis
      using s n True r(3) by (auto simp: LOS_MuxPost_eq mux_saved_def split: list.splits)
  qed (use s in \<open>simp add: LOS_MuxPost_eq\<close>)
  show "mux_saved ?i w (priority (tcb k w)) (snd (LOS_MuxPost h k))"
    if h: "mux_held_by h (runTask k) k" "muxCount (g_allMux k ?i) = 1" "pend k (MuxList ?i) = w # ws"
  proof -
    note r = mux_restore_facts [OF k bnd(1) [OF h(1)]]
    have "w \<noteq> runTask k" using bnd(2) [OF h(1)] h(3) by auto
    then show ?thesis using h r(5) [of ?i] r(7) [of w] by (simp add: LOS_MuxPost_eq mux_saved_def)
  qed
  show "priority (tcb (snd (LOS_MuxPost h k)) (runTask k)) = p"
    if h: "mux_held_by h (runTask k) k" "muxCount (g_allMux k ?i) = 1" "mux_saved ?i (runTask k) p k"
    using h mux_restore_facts [OF k bnd(1) [OF h(1)]]
    by (auto simp: LOS_MuxPost_eq mux_saved_def split: list.splits)
qed

text \<open>
  C7: Priority inheritance.  When \<^verbatim>\<open>LOS_MuxPend\<close> blocks, the owner of the mutex runs at the
  caller's priority or a higher one from then on, and no task has lost priority.  A task that
  takes a free mutex, or is handed one by its last release, has its priority of that moment
  saved in the mutex; every later pend (of any task, on any mutex, below the nesting limit) and
  every post other than the last release of this mutex leaves what is saved; and the last release
  sets the owner's priority back to exactly that value.
\<close>

theorem mutex_priority_inheritance:
  assumes "can_block k" "mux_inv k" "muxCount (g_allMux k (unat h)) \<noteq> 0xFFFF"
  shows "(fst (LOS_MuxPend h n k) = Blocked \<longrightarrow>
      (\<exists>own. muxOwner (g_allMux k (unat h)) = Some own \<and>
        prio (snd (LOS_MuxPend h n k)) own \<le> prio (snd (LOS_MuxPend h n k)) (runTask k)) \<and>
      (\<forall>u. prio (snd (LOS_MuxPend h n k)) u \<le> prio k u)) \<and>
    (fst (LOS_MuxPend h n k) = Ret LOS_OK \<and> muxCount (g_allMux k (unat h)) = 0 \<longrightarrow>
      mux_saved (unat h) (runTask k) (priority (tcb k (runTask k))) (snd (LOS_MuxPend h n k))) \<and>
    (\<forall>j t p. mux_saved j t p k \<longrightarrow> mux_saved j t p (snd (LOS_MuxPend h n k))) \<and>
    (let last = mux_held_by h (runTask k) k \<and> muxCount (g_allMux k (unat h)) = 1 in
      (\<forall>j t p. mux_saved j t p k \<and> \<not> (last \<and> j = unat h) \<longrightarrow> mux_saved j t p (snd (LOS_MuxPost h k))) \<and>
      (last \<longrightarrow>
        (\<forall>p. mux_saved (unat h) (runTask k) p k \<longrightarrow> priority (tcb (snd (LOS_MuxPost h k)) (runTask k)) = p) \<and>
        (\<forall>w ws. pend k (MuxList (unat h)) = w # ws \<longrightarrow>
           mux_saved (unat h) w (priority (tcb k w)) (snd (LOS_MuxPost h k)))))"
proof -
  have k: "kernel_inv k" using assms(1) by (simp add: can_block_def)
  show ?thesis
    unfolding Let_def
  proof (intro conjI)
    show "fst (LOS_MuxPend h n k) = Blocked \<longrightarrow> (\<exists>own. muxOwner (g_allMux k (unat h)) = Some own \<and>
        prio (snd (LOS_MuxPend h n k)) own \<le> prio (snd (LOS_MuxPend h n k)) (runTask k)) \<and>
        (\<forall>u. prio (snd (LOS_MuxPend h n k)) u \<le> prio k u)"
      using mutex_boosts [OF assms(1,2)] by blast
    show "fst (LOS_MuxPend h n k) = Ret LOS_OK \<and> muxCount (g_allMux k (unat h)) = 0 \<longrightarrow>
        mux_saved (unat h) (runTask k) (priority (tcb k (runTask k))) (snd (LOS_MuxPend h n k))"
      using mux_saved_pend(1) [OF assms(1,3)] by blast
    show "\<forall>j t p. mux_saved j t p k \<longrightarrow> mux_saved j t p (snd (LOS_MuxPend h n k))"
      using mux_saved_pend(2) [OF assms(1,3)] by blast
    show "\<forall>j t p. mux_saved j t p k \<and> \<not> ((mux_held_by h (runTask k) k \<and> muxCount (g_allMux k (unat h)) = 1) \<and>
        j = unat h) \<longrightarrow> mux_saved j t p (snd (LOS_MuxPost h k))"
      by (intro allI impI, rule mux_saved_post(1) [OF k assms(2)]) auto
  qed (use mux_saved_post(2,3) [OF k assms(2)] in blast)
qed

text \<open>In the example, task 1 (priority 5) also holds mutex 1 and then waits for mutex 0, whose
  owner, task 2, is lifted from priority 7 to 5.\<close>

definition demo_mux2 :: kernel where
  "demo_mux2 = upd_mux 1 (\<lambda>c. c\<lparr>muxStat := OS_MUX_USED, muxCount := 1, muxOwner := Some 1, muxPriority := 5\<rparr>)
     (demo_mux\<lparr>g_unusedMuxList := [2]\<rparr>)"

theorem mutex_priority_inheritance_witness:
  "prio (snd (LOS_MuxPend 0 5 demo_mux2)) 2 \<le> prio (snd (LOS_MuxPend 0 5 demo_mux2)) 1"
proof -
  have cb: "can_block demo_mux2"
    unfolding demo_mux2_def using demo_mux_inv(1) by (rule can_block_view [of _ demo_mux, rotated 3]) simp_all
  have "muxStat (g_allMux demo_mux2 i) = (if i \<in> {0, 1} then OS_MUX_USED else OS_MUX_UNUSED)"
    "muxCount (g_allMux demo_mux2 i) = (if i \<in> {0, 1} then 1 else 0)" "pend demo_mux2 (MuxList i) = []"
    "i \<in> {0, 1} \<Longrightarrow> muxOwner (g_allMux demo_mux2 i) \<noteq> None \<and> unat (muxPriority (g_allMux demo_mux2 i)) < 32"
    "g_unusedMuxList demo_mux2 = [2]" for i
    by (auto simp: demo_mux2_def demo_mux_def demo_kernel_def OS_MUX_UNUSED_def)
  then have mi: "mux_inv demo_mux2"
    by (simp add: mux_inv_def OS_MUX_USED_def OS_MUX_UNUSED_def LOSCFG_BASE_IPC_MUX_LIMIT_def)
  have m0: "g_allMux demo_mux2 0 = g_allMux demo_mux 0" "runTask demo_mux2 = 1"
    "muxCount (g_allMux demo_mux2 1) = 1" "mux_held_by 1 1 demo_mux2"
    by (simp_all add: demo_mux2_def mux_held_by_def demo_mux_state OS_MUX_USED_def OS_MUX_UNUSED_def
        LOSCFG_BASE_IPC_MUX_LIMIT_def)
  have "fst (LOS_MuxPend 0 5 demo_mux2) = Blocked"
    using demo_mux_inv(3-5)
    by (subst LOS_MuxPend_block) (simp_all add: m0 demo_mux_state mux_valid_def OsMuxValidCheck_def
        OS_INT_ACTIVE_def demo_mux2_def upd_mux_def)
  moreover have "mux_held_by 1 (runTask demo_mux2) demo_mux2" "muxCount (g_allMux demo_mux2 (unat (1 :: u32))) = 1"
    using m0 by simp_all
  ultimately have "\<exists>own. muxOwner (g_allMux demo_mux2 (unat (0 :: u32))) = Some own \<and>
      prio (snd (LOS_MuxPend 0 5 demo_mux2)) own \<le> prio (snd (LOS_MuxPend 0 5 demo_mux2)) (runTask demo_mux2)"
    using mutex_priority_inheritance [OF cb mi, of 0 5] by (simp add: m0 demo_mux_state)
  then show ?thesis by (simp add: m0 demo_mux_state)
qed



end
