(* ===== verification/Los_Membox.thy ===== *)
theory Los_Membox
  imports Prelude
begin

text \<open>
  \<^verbatim>\<open>LiteOS/kernel/src/mm/los_membox.c\<close>: pools of blocks of one size.  A pool is the header
  \<^verbatim>\<open>LOS_MEMBOX_INFO\<close> at address \<open>pool\<close> and the first word of every block, which links
  the free blocks and holds a magic number while the block is allocated.  \<open>mb_inv\<close> says
  which blocks are free.
\<close>

section \<open>Operations\<close>

definition OS_MEMBOX_MAGIC :: u32 where "OS_MEMBOX_MAGIC = 0xa55a5a00"
definition OS_MEMBOX_NODE_HEAD_SIZE :: u32 where "OS_MEMBOX_NODE_HEAD_SIZE = 4"

text \<open>\<^verbatim>\<open>sizeof(LOS_MEMBOX_INFO)\<close>: four words.\<close>

definition MEMBOX_INFO_SIZE :: u32 where "MEMBOX_INFO_SIZE = 16"

record LOS_MEMBOX_INFO =
  uwBlkSize :: u32
  uwBlkNum :: u32
  uwBlkCnt :: u32
  stFreeList :: u32
  nodeNext :: "u32 \<Rightarrow> u32" \<comment> \<open>the field \<^verbatim>\<open>pstNext\<close> of the node at an address\<close>

definition LOS_MEMBOX_ALIGNED :: "u32 \<Rightarrow> u32" where
  "LOS_MEMBOX_ALIGNED a = (a + 4 - 1) AND NOT (4 - 1)"

definition OsMemBoxSetMagic :: "u8 \<Rightarrow> u32 \<Rightarrow> LOS_MEMBOX_INFO \<Rightarrow> LOS_MEMBOX_INFO" where
  "OsMemBoxSetMagic curTaskID node mb =
     mb\<lparr>nodeNext := (nodeNext mb)(node := OS_MEMBOX_MAGIC OR ucast curTaskID)\<rparr>"

definition OsMemBoxCheckMagic :: "u32 \<Rightarrow> LOS_MEMBOX_INFO \<Rightarrow> u32" where
  "OsMemBoxCheckMagic node mb =
     (let tid = nodeNext mb node AND 0xFF in
      if tid > 12 + 1 then LOS_NOK
      else if nodeNext mb node = OS_MEMBOX_MAGIC OR tid then LOS_OK else LOS_NOK)"

definition OsCheckBoxMem :: "u32 \<Rightarrow> u32 \<Rightarrow> LOS_MEMBOX_INFO \<Rightarrow> u32" where
  "OsCheckBoxMem pool node mb =
     (let offset = node - (pool + MEMBOX_INFO_SIZE) in
      if uwBlkSize mb = 0 then LOS_NOK
      else if offset mod uwBlkSize mb \<noteq> 0 then LOS_NOK
      else if offset div uwBlkSize mb \<ge> uwBlkNum mb then LOS_NOK
      else OsMemBoxCheckMagic node mb)"

text \<open>The loop of \<^verbatim>\<open>LOS_MemboxInit\<close> that links \<open>n + 1\<close> blocks starting at \<open>node\<close>.\<close>

fun membox_link :: "nat \<Rightarrow> u32 \<Rightarrow> u32 \<Rightarrow> (u32 \<Rightarrow> u32) \<Rightarrow> u32 \<Rightarrow> u32" where
  "membox_link 0 sz node next = next(node := 0)"
| "membox_link (Suc n) sz node next = membox_link n sz (node + sz) (next(node := node + sz))"

definition LOS_MemboxInit :: "u32 \<Rightarrow> u32 \<Rightarrow> u32 \<Rightarrow> LOS_MEMBOX_INFO \<Rightarrow> u32 \<times> LOS_MEMBOX_INFO" where
  "LOS_MemboxInit pool poolSize blkSize mb =
     (if pool = 0 then (LOS_NOK, mb)
      else if blkSize = 0 then (LOS_NOK, mb)
      else if poolSize < MEMBOX_INFO_SIZE then (LOS_NOK, mb)
      else
        let sz = LOS_MEMBOX_ALIGNED (blkSize + OS_MEMBOX_NODE_HEAD_SIZE);
            num = (poolSize - MEMBOX_INFO_SIZE) div sz;
            mb1 = mb\<lparr>uwBlkSize := sz, uwBlkNum := num, uwBlkCnt := 0\<rparr>;
            node = pool + MEMBOX_INFO_SIZE
        in if num = 0 then (LOS_NOK, mb1)
           else (LOS_OK, mb1\<lparr>stFreeList := node,
                  nodeNext := membox_link (unat (num - 1)) sz node (nodeNext mb1)\<rparr>))"

definition LOS_MemboxAlloc :: "u8 \<Rightarrow> u32 \<Rightarrow> LOS_MEMBOX_INFO \<Rightarrow> u32 \<times> LOS_MEMBOX_INFO" where
  "LOS_MemboxAlloc curTaskID pool mb =
     (if pool = 0 then (0, mb)
      else if stFreeList mb \<noteq> 0 then
        let nodeTmp = stFreeList mb;
            mb1 = OsMemBoxSetMagic curTaskID nodeTmp (mb\<lparr>stFreeList := nodeNext mb nodeTmp\<rparr>)
        in (nodeTmp + OS_MEMBOX_NODE_HEAD_SIZE, mb1\<lparr>uwBlkCnt := uwBlkCnt mb + 1\<rparr>)
      else (0, mb))"

definition LOS_MemboxFree :: "u32 \<Rightarrow> u32 \<Rightarrow> LOS_MEMBOX_INFO \<Rightarrow> u32 \<times> LOS_MEMBOX_INFO" where
  "LOS_MemboxFree pool box mb =
     (if pool = 0 \<or> box = 0 then (LOS_NOK, mb)
      else
        let node = box - OS_MEMBOX_NODE_HEAD_SIZE in
        if OsCheckBoxMem pool node mb \<noteq> LOS_OK then (LOS_NOK, mb)
        else (LOS_OK, mb\<lparr>nodeNext := (nodeNext mb)(node := stFreeList mb), stFreeList := node,
                         uwBlkCnt := uwBlkCnt mb - 1\<rparr>))"

text \<open>The three output pointers, \<open>None\<close> when one of the four arguments is null.\<close>

definition LOS_MemboxStatisticsGet :: "bool \<Rightarrow> LOS_MEMBOX_INFO \<Rightarrow> u32 \<times> (u32 \<times> u32 \<times> u32) option" where
  "LOS_MemboxStatisticsGet anyNull mb =
     (if anyNull then (LOS_NOK, None) else (LOS_OK, Some (uwBlkNum mb, uwBlkCnt mb, uwBlkSize mb)))"

section \<open>Blocks\<close>

definition blk :: "u32 \<Rightarrow> LOS_MEMBOX_INFO \<Rightarrow> nat \<Rightarrow> u32" where
  "blk pool mb i = pool + MEMBOX_INFO_SIZE + of_nat i * uwBlkSize mb"

definition blocks :: "u32 \<Rightarrow> LOS_MEMBOX_INFO \<Rightarrow> u32 set" where
  "blocks pool mb = blk pool mb ` {..<unat (uwBlkNum mb)}"

text \<open>The pool lies in memory below the addresses that look like magic numbers, as all RAM of
  the controller does.\<close>

definition geo :: "u32 \<Rightarrow> LOS_MEMBOX_INFO \<Rightarrow> bool" where
  "geo pool mb \<longleftrightarrow> pool \<noteq> 0 \<and> uwBlkSize mb \<noteq> 0 \<and>
     unat pool + 16 + unat (uwBlkNum mb) * unat (uwBlkSize mb) < unat OS_MEMBOX_MAGIC"

definition allocated_mark :: "u32 \<Rightarrow> bool" where
  "allocated_mark w \<longleftrightarrow> (\<exists>t::u8. unat t \<le> 13 \<and> w = OS_MEMBOX_MAGIC OR ucast t)"

fun free_chain :: "(u32 \<Rightarrow> u32) \<Rightarrow> u32 \<Rightarrow> u32 list \<Rightarrow> bool" where
  "free_chain next p [] \<longleftrightarrow> p = 0"
| "free_chain next p (x # xs) \<longleftrightarrow> p = x \<and> free_chain next (next x) xs"

definition mb_inv :: "u32 \<Rightarrow> LOS_MEMBOX_INFO \<Rightarrow> u32 list \<Rightarrow> bool" where
  "mb_inv pool mb xs \<longleftrightarrow> geo pool mb \<and> free_chain (nodeNext mb) (stFreeList mb) xs \<and> distinct xs \<and>
     set xs \<subseteq> blocks pool mb \<and> (\<forall>b \<in> blocks pool mb - set xs. allocated_mark (nodeNext mb b)) \<and>
     unat (uwBlkCnt mb) + length xs = unat (uwBlkNum mb)"

lemma unat_blk:
  assumes "geo pool mb" "i \<le> unat (uwBlkNum mb)"
  shows "unat (blk pool mb i) = unat pool + 16 + i * unat (uwBlkSize mb)"
proof -
  have m: "i * unat (uwBlkSize mb) \<le> unat (uwBlkNum mb) * unat (uwBlkSize mb)"
    by (rule mult_le_mono1 [OF assms(2)])
  have "unat pool + 16 + unat (uwBlkNum mb) * unat (uwBlkSize mb) < 2 ^ 32"
    using assms(1) by (simp add: geo_def OS_MEMBOX_MAGIC_def)
  then have lt: "unat pool + 16 + i * unat (uwBlkSize mb) < 2 ^ 32" using m by linarith
  have eq: "blk pool mb i = of_nat (unat pool + 16 + i * unat (uwBlkSize mb))"
    by (simp add: blk_def MEMBOX_INFO_SIZE_def)
  show ?thesis unfolding eq by (rule unat_of_nat_small) (use lt in simp)
qed

lemma blk_inj:
  assumes "geo pool mb" "i < unat (uwBlkNum mb)" "j < unat (uwBlkNum mb)" "blk pool mb i = blk pool mb j"
  shows "i = j"
proof -
  have "i * unat (uwBlkSize mb) = j * unat (uwBlkSize mb)"
    using unat_blk [OF assms(1) less_imp_le [OF assms(2)]] unat_blk [OF assms(1) less_imp_le [OF assms(3)]]
      assms(4) by (metis add_left_cancel)
  moreover have "unat (uwBlkSize mb) \<noteq> 0" using assms(1) by (simp add: geo_def unat_eq_zero)
  ultimately show ?thesis by simp
qed

lemma block_range:
  assumes "geo pool mb" "b \<in> blocks pool mb"
  shows "b \<noteq> 0" "unat b < unat OS_MEMBOX_MAGIC"
proof -
  obtain i where i: "i < unat (uwBlkNum mb)" "b = blk pool mb i" using assms(2) by (auto simp: blocks_def)
  note u = unat_blk [OF assms(1) less_imp_le [OF i(1)]]
  have "i * unat (uwBlkSize mb) \<le> unat (uwBlkNum mb) * unat (uwBlkSize mb)"
    by (rule mult_le_mono1 [OF less_imp_le [OF i(1)]])
  moreover have "unat pool + 16 + unat (uwBlkNum mb) * unat (uwBlkSize mb) < unat OS_MEMBOX_MAGIC"
    using assms(1) by (simp add: geo_def)
  ultimately show "unat b < unat OS_MEMBOX_MAGIC" unfolding i(2) u by linarith
  show "b \<noteq> 0" using u i(2) by (auto simp: unat_eq_zero [symmetric] simp del: unat_eq_zero)
qed

lemma blocks_cong: "uwBlkSize mb' = uwBlkSize mb \<Longrightarrow> uwBlkNum mb' = uwBlkNum mb \<Longrightarrow> blocks pool mb' = blocks pool mb"
  by (simp add: blocks_def blk_def [abs_def])

lemma geo_cong: "uwBlkSize mb' = uwBlkSize mb \<Longrightarrow> uwBlkNum mb' = uwBlkNum mb \<Longrightarrow> geo pool mb' = geo pool mb"
  by (simp add: geo_def)

lemma free_chain_upd: "x \<notin> set xs \<Longrightarrow> free_chain (next(x := v)) p xs = free_chain next p xs"
  by (induction xs arbitrary: p) auto

section \<open>The magic number\<close>

lemma low_byte: "(w :: u32) AND 0xFF = take_bit 8 w"
  by (simp add: take_bit_eq_mask mask_eq_exp_minus_1)

lemma magic_or: "unat (OS_MEMBOX_MAGIC OR ucast (t :: u8)) = unat OS_MEMBOX_MAGIC + unat t"
proof -
  have "OS_MEMBOX_MAGIC AND ucast t = 0"
  proof (rule bit_word_eqI)
    fix n assume "n < LENGTH(32)"
    have "\<not> bit OS_MEMBOX_MAGIC n" if "n < 8"
      using that unfolding OS_MEMBOX_MAGIC_def by (auto simp: less_Suc_eq numeral_eq_Suc)
    then show "bit (OS_MEMBOX_MAGIC AND ucast t) n = bit (0 :: u32) n"
      by (auto simp: bit_and_iff bit_ucast_iff dest: bit_imp_le_length)
  qed
  then have "OS_MEMBOX_MAGIC OR ucast t = OS_MEMBOX_MAGIC + ucast t"
    by (simp add: disjunctive_add_eq_or)
  moreover have "unat (ucast t :: u32) = unat t" by (simp add: unat_ucast_up)
  moreover have "unat t < 256" using unsigned_less [of t] by simp
  ultimately show ?thesis
    by (simp add: OS_MEMBOX_MAGIC_def unat_word_ariths)
qed

lemma magic_check:
  "OsMemBoxCheckMagic node mb = LOS_OK \<longleftrightarrow> allocated_mark (nodeNext mb node)"
proof
  let ?w = "nodeNext mb node"
  have cast: "ucast (ucast ?w :: u8) = ?w AND 0xFF"
  proof (rule bit_word_eqI)
    fix n assume "n < LENGTH(32)"
    show "bit (ucast (ucast ?w :: u8) :: u32) n = bit (?w AND 0xFF) n"
      using \<open>n < LENGTH(32)\<close> by (auto simp: low_byte bit_take_bit_iff bit_ucast_iff)
  qed
  {
    assume "OsMemBoxCheckMagic node mb = LOS_OK"
    then have "\<not> ?w AND 0xFF > 12 + 1" "?w = OS_MEMBOX_MAGIC OR (?w AND 0xFF)"
      by (auto simp: OsMemBoxCheckMagic_def Let_def split: if_splits)
    moreover have "unat (ucast ?w :: u8) = unat (?w AND 0xFF)"
      using unat_ucast_up [where 'b = 32, of "ucast ?w :: u8"] by (simp add: cast)
    ultimately have "unat (ucast ?w :: u8) \<le> 13" "?w = OS_MEMBOX_MAGIC OR ucast (ucast ?w :: u8)"
      by (simp_all add: cast word_le_nat_alt not_less)
    then show "allocated_mark ?w" unfolding allocated_mark_def by blast
  }
  assume "allocated_mark ?w"
  then obtain t :: u8 where t: "unat t \<le> 13" "?w = OS_MEMBOX_MAGIC OR ucast t" by (auto simp: allocated_mark_def)
  have "?w AND 0xFF = ucast t"
  proof (rule bit_word_eqI)
    fix n assume n: "n < LENGTH(32)"
    have "\<not> bit OS_MEMBOX_MAGIC n" if "n < 8"
      using that unfolding OS_MEMBOX_MAGIC_def by (auto simp: less_Suc_eq numeral_eq_Suc)
    then show "bit (?w AND 0xFF) n = bit (ucast t :: u32) n"
      by (auto simp: t(2) low_byte bit_take_bit_iff bit_or_iff bit_ucast_iff dest: bit_imp_le_length)
  qed
  moreover have "\<not> (ucast t :: u32) > 13"
    using t(1) by (simp add: word_less_nat_alt unat_ucast_up)
  ultimately show "OsMemBoxCheckMagic node mb = LOS_OK"
    using t(2) by (simp add: OsMemBoxCheckMagic_def)
qed

text \<open>A free block does not look allocated: its link is null or the address of a block.\<close>

lemma free_not_marked:
  assumes "unat w < unat OS_MEMBOX_MAGIC"
  shows "\<not> allocated_mark w"
  using assms magic_or by (auto simp: allocated_mark_def)

lemma OsCheckBoxMem_iff:
  assumes g: "geo pool mb"
  shows "OsCheckBoxMem pool node mb = LOS_OK \<longleftrightarrow>
    node \<in> blocks pool mb \<and> allocated_mark (nodeNext mb node)"
proof -
  let ?o = "node - (pool + MEMBOX_INFO_SIZE)" and ?s = "uwBlkSize mb"
  have s: "?s \<noteq> 0" using g by (simp add: geo_def)
  have "?o mod ?s = 0 \<and> ?o div ?s < uwBlkNum mb \<longleftrightarrow> node \<in> blocks pool mb"
  proof
    assume a: "?o mod ?s = 0 \<and> ?o div ?s < uwBlkNum mb"
    have "?o = ?o div ?s * ?s + ?o mod ?s" by (rule div_mult_mod_eq [symmetric])
    then have "?o = ?o div ?s * ?s" using a by simp
    then have "node = pool + MEMBOX_INFO_SIZE + ?o div ?s * ?s" by (metis add.commute diff_add_cancel)
    then have "node = blk pool mb (unat (?o div ?s))" by (simp add: blk_def)
    moreover have "unat (?o div ?s) < unat (uwBlkNum mb)" using a by (simp add: word_less_nat_alt)
    ultimately show "node \<in> blocks pool mb" by (auto simp: blocks_def)
  next
    assume "node \<in> blocks pool mb"
    then obtain i where i: "i < unat (uwBlkNum mb)" "node = blk pool mb i" by (auto simp: blocks_def)
    have o: "?o = of_nat i * ?s" using i(2) by (simp add: blk_def)
    have le: "i * unat ?s \<le> unat (uwBlkNum mb) * unat ?s" by (rule mult_le_mono1 [OF less_imp_le [OF i(1)]])
    moreover have "unat pool + 16 + unat (uwBlkNum mb) * unat ?s < 2 ^ 32"
      using g by (simp add: geo_def OS_MEMBOX_MAGIC_def)
    ultimately have lt: "i * unat ?s < 2 ^ 32" by linarith
    have eq: "?o = of_nat (i * unat ?s)" by (simp add: o)
    have uo: "unat ?o = i * unat ?s" unfolding eq by (rule unat_of_nat_small) (use lt in simp)
    have us: "unat ?s > 0" using s by (simp add: unat_gt_0)
    have "unat (?o mod ?s) = 0" by (simp add: unat_mod uo)
    moreover have "unat (?o div ?s) = i" using us by (simp add: unat_div uo)
    ultimately show "?o mod ?s = 0 \<and> ?o div ?s < uwBlkNum mb"
      using i(1) by (simp add: word_less_nat_alt unat_eq_zero)
  qed
  then show ?thesis using s magic_check [of node mb]
    unfolding OsCheckBoxMem_def Let_def by (metis not_le one_neq_zero)
qed

section \<open>Linking the blocks\<close>

lemma membox_link_other:
  "(\<And>i. i \<le> n \<Longrightarrow> z \<noteq> node + of_nat i * sz) \<Longrightarrow> membox_link n sz node next z = next z"
proof (induction n arbitrary: node "next")
  case 0
  then show ?case by (metis fun_upd_other le_refl membox_link.simps(1) mult_zero_left of_nat_0 add_0_right)
next
  case (Suc n)
  have "z \<noteq> node + sz + of_nat i * sz" if "i \<le> n" for i
    using Suc.prems [of "Suc i"] that by (simp add: algebra_simps)
  moreover have "z \<noteq> node" using Suc.prems [of 0] by simp
  ultimately show ?case using Suc.IH [of "node + sz"] by simp
qed

lemma membox_link_chain:
  "inj_on (\<lambda>i. node + of_nat i * sz) {..n} \<Longrightarrow>
   free_chain (membox_link n sz node next) node (map (\<lambda>i. node + of_nat i * sz) [0..<Suc n])"
proof (induction n arbitrary: node "next")
  case (Suc n)
  let ?f = "\<lambda>i. node + of_nat i * sz" and ?g = "\<lambda>i. node + sz + of_nat i * sz"
  have gf: "?g i = ?f (Suc i)" for i by (simp add: algebra_simps)
  have "inj_on ?g {..n}"
  proof (rule inj_onI)
    fix x y assume "x \<in> {..n}" "y \<in> {..n}" "?g x = ?g y"
    then have "Suc x = Suc y" unfolding gf using inj_onD [OF Suc.prems, of "Suc x" "Suc y"] by simp
    then show "x = y" by simp
  qed
  from Suc.IH [OF this] have ch: "free_chain (membox_link n sz (node + sz) (next(node := node + sz))) (node + sz)
      (map ?g [0..<Suc n])" .
  have "node \<noteq> ?g i" if "i \<le> n" for i
    using inj_onD [OF Suc.prems, of 0 "Suc i"] that by (auto simp: gf)
  then have "membox_link n sz (node + sz) (next(node := node + sz)) node = node + sz"
    by (simp add: membox_link_other)
  moreover have "map ?f [0..<Suc (Suc n)] = node # map ?g [0..<Suc n]"
  proof -
    have "[0..<Suc (Suc n)] = 0 # map Suc [0..<Suc n]"
      by (simp add: map_Suc_upt upt_conv_Cons del: upt_Suc)
    then show ?thesis by (simp add: gf del: upt_Suc)
  qed
  ultimately show ?case using ch by (simp del: upt_Suc)
qed simp

lemma aligned_bounds:
  assumes "unat a + 3 < 2 ^ 32"
  shows "unat a \<le> unat (LOS_MEMBOX_ALIGNED a)"
proof -
  have "LOS_MEMBOX_ALIGNED a = (a + 3) AND NOT (mask 2)"
    by (simp add: LOS_MEMBOX_ALIGNED_def mask_eq_exp_minus_1 add.commute)
  moreover have "((a + 3) AND NOT (mask 2)) OR take_bit 2 (a + 3) = a + 3"
    by (rule bit_word_eqI) (auto simp: bit_or_iff bit_and_iff bit_not_iff bit_mask_iff bit_take_bit_iff)
  moreover have "((a + 3) AND NOT (mask 2)) AND take_bit 2 (a + 3) = 0"
    by (rule bit_word_eqI) (auto simp: bit_and_iff bit_not_iff bit_mask_iff bit_take_bit_iff)
  ultimately have "LOS_MEMBOX_ALIGNED a = (a + 3) - take_bit 2 (a + 3)"
    by (metis add_diff_cancel_right' disjunctive_add_eq_or)
  moreover have "unat (a + 3) = unat a + 3" using assms by (simp add: unat_word_ariths)
  moreover have "unat (take_bit 2 (a + 3)) \<le> 3"
  proof -
    have "unat (take_bit 2 (a + 3)) = take_bit 2 (unat (a + 3))" by (simp add: unsigned_take_bit_eq)
    also have "\<dots> < 2 ^ 2" by (rule take_bit_nat_less_exp)
    finally show ?thesis by simp
  qed
  moreover have "take_bit 2 (a + 3) \<le> a + 3" by (simp add: word_le_nat_alt unsigned_take_bit_eq)
  ultimately show ?thesis by (simp add: unat_sub_if')
qed

lemma membox_init_inv:
  assumes g: "geo pool mb" and n: "uwBlkNum mb \<noteq> 0" "uwBlkCnt mb = 0" "stFreeList mb = pool + MEMBOX_INFO_SIZE"
    "nodeNext mb = membox_link (unat (uwBlkNum mb - 1)) (uwBlkSize mb) (pool + MEMBOX_INFO_SIZE) next"
  shows "mb_inv pool mb (map (blk pool mb) [0..<unat (uwBlkNum mb)])"
proof -
  let ?n = "unat (uwBlkNum mb - 1)"
  have sn: "Suc ?n = unat (uwBlkNum mb)" using n(1) by (simp add: unat_minus_one unat_gt_0)
  have inj: "inj_on (blk pool mb) {..?n}"
    using blk_inj [OF g] sn by (auto simp: inj_on_def less_Suc_eq_le [symmetric])
  then have "inj_on (\<lambda>i. pool + MEMBOX_INFO_SIZE + of_nat i * uwBlkSize mb) {..?n}"
    by (simp add: blk_def [abs_def])
  from membox_link_chain [OF this, of "next"] have "free_chain (nodeNext mb) (stFreeList mb)
      (map (blk pool mb) [0..<unat (uwBlkNum mb)])"
    unfolding n(3,4) sn blk_def [abs_def] .
  moreover have "distinct (map (blk pool mb) [0..<unat (uwBlkNum mb)])"
    using blk_inj [OF g] by (auto simp: distinct_map inj_on_def)
  ultimately show ?thesis using g n(2) by (auto simp: mb_inv_def blocks_def)
qed

lemma membox_free_marks:
  assumes "mb_inv pool mb xs" "x \<in> set xs"
  shows "\<not> allocated_mark (nodeNext mb x)"
proof -
  have g: "geo pool mb" and fc: "free_chain (nodeNext mb) (stFreeList mb) xs" and sub: "set xs \<subseteq> blocks pool mb"
    using assms(1) by (simp_all add: mb_inv_def)
  have "free_chain nx p ys \<Longrightarrow> x \<in> set ys \<Longrightarrow> nx x = 0 \<or> nx x \<in> set ys" for nx p ys
  proof (induction ys arbitrary: p)
    case (Cons y ys)
    then show ?case by (cases ys) auto
  qed simp
  from this [OF fc assms(2)] have "nodeNext mb x = 0 \<or> nodeNext mb x \<in> blocks pool mb" using sub by blast
  then have "unat (nodeNext mb x) < unat OS_MEMBOX_MAGIC"
    using block_range(2) [OF g] by (auto simp: OS_MEMBOX_MAGIC_def)
  then show ?thesis by (rule free_not_marked)
qed

section \<open>Properties\<close>

text \<open>
  Allocation from a memory box.  With free blocks \<open>xs\<close>, it returns the payload of the first
  free block, which then is allocated and no longer free, and 0 exactly when no block is
  free; the box stays well formed, with one block less to give.
\<close>

lemma membox_alloc_correct:
  assumes "mb_inv pool mb xs" "unat t \<le> 13"
  shows "case xs of
      [] \<Rightarrow> LOS_MemboxAlloc t pool mb = (0, mb)
    | x # xs' \<Rightarrow> fst (LOS_MemboxAlloc t pool mb) = x + OS_MEMBOX_NODE_HEAD_SIZE \<and>
        x \<in> blocks pool mb \<and> \<not> allocated_mark (nodeNext mb x) \<and>
        mb_inv pool (snd (LOS_MemboxAlloc t pool mb)) xs'"
proof -
  have g: "geo pool mb" and fc: "free_chain (nodeNext mb) (stFreeList mb) xs" and d: "distinct xs"
    and sub: "set xs \<subseteq> blocks pool mb" and al: "\<forall>b \<in> blocks pool mb - set xs. allocated_mark (nodeNext mb b)"
    and cnt: "unat (uwBlkCnt mb) + length xs = unat (uwBlkNum mb)"
    using assms(1) by (simp_all add: mb_inv_def)
  have p: "pool \<noteq> 0" using g by (simp add: geo_def)
  show ?thesis
  proof (cases xs)
    case Nil
    then show ?thesis using fc p by (simp add: LOS_MemboxAlloc_def)
  next
    case (Cons x xs')
    let ?mb = "snd (LOS_MemboxAlloc t pool mb)"
    have x: "stFreeList mb = x" "x \<in> blocks pool mb" "free_chain (nodeNext mb) (nodeNext mb x) xs'" "x \<notin> set xs'"
      using fc sub d Cons by auto
    then have nz: "x \<noteq> 0" using block_range [OF g] by blast
    have r: "LOS_MemboxAlloc t pool mb = (x + OS_MEMBOX_NODE_HEAD_SIZE,
        mb\<lparr>stFreeList := nodeNext mb x, nodeNext := (nodeNext mb)(x := OS_MEMBOX_MAGIC OR ucast t),
           uwBlkCnt := uwBlkCnt mb + 1\<rparr>)"
      using p x nz by (simp add: LOS_MemboxAlloc_def OsMemBoxSetMagic_def)
    have "unat (nodeNext mb x) < unat OS_MEMBOX_MAGIC"
    proof (cases xs')
      case Nil
      then show ?thesis using x(3) by (simp add: OS_MEMBOX_MAGIC_def)
    next
      case (Cons y ys)
      then have "nodeNext mb x \<in> blocks pool mb" using x(3) sub \<open>xs = x # xs'\<close> by auto
      then show ?thesis using block_range [OF g] by blast
    qed
    then have nm: "\<not> allocated_mark (nodeNext mb x)" by (rule free_not_marked)
    have "unat (uwBlkNum mb) < 2 ^ LENGTH(32)" by (rule unsigned_less)
    then have "unat (uwBlkCnt mb) + 1 < 2 ^ 32" using cnt Cons by simp
    then have c1: "unat (uwBlkCnt mb + 1) = unat (uwBlkCnt mb) + 1" by (simp add: unat_word_ariths)
    have "allocated_mark (OS_MEMBOX_MAGIC OR ucast t)" using assms(2) by (auto simp: allocated_mark_def)
    then have "mb_inv pool ?mb xs'"
      using g d sub al cnt x Cons c1
      by (auto simp: r mb_inv_def geo_cong [of ?mb mb] blocks_cong [of ?mb mb] free_chain_upd)
        (auto simp: geo_def blocks_def blk_def)
    then show ?thesis using Cons r x(2) nm by simp
  qed
qed

text \<open>
  Freeing into a memory box.  Exactly the payload addresses of allocated blocks are
  accepted; the block becomes the first free one and the box stays well formed.  Any other
  argument (null, outside the pool, inside a block, or a block that is already free, so in
  particular a double free) is refused and changes nothing.
\<close>

lemma membox_free_correct:
  assumes "mb_inv pool mb xs"
  shows "let node = box - OS_MEMBOX_NODE_HEAD_SIZE in
    if box \<noteq> 0 \<and> node \<in> blocks pool mb - set xs
    then fst (LOS_MemboxFree pool box mb) = LOS_OK \<and> mb_inv pool (snd (LOS_MemboxFree pool box mb)) (node # xs)
    else LOS_MemboxFree pool box mb = (LOS_NOK, mb)"
proof -
  let ?n = "box - OS_MEMBOX_NODE_HEAD_SIZE"
  have g: "geo pool mb" and fc: "free_chain (nodeNext mb) (stFreeList mb) xs" and d: "distinct xs"
    and sub: "set xs \<subseteq> blocks pool mb" and al: "\<forall>b \<in> blocks pool mb - set xs. allocated_mark (nodeNext mb b)"
    and cnt: "unat (uwBlkCnt mb) + length xs = unat (uwBlkNum mb)"
    using assms(1) by (simp_all add: mb_inv_def)
  have p: "pool \<noteq> 0" using g by (simp add: geo_def)
  have free: "\<not> allocated_mark (nodeNext mb x)" if "x \<in> set xs" for x
    using membox_free_marks [OF assms that] .
  have ok: "OsCheckBoxMem pool ?n mb = LOS_OK \<longleftrightarrow> ?n \<in> blocks pool mb - set xs"
    using OsCheckBoxMem_iff [OF g, of ?n] al free by blast
  show ?thesis
  proof (cases "box \<noteq> 0 \<and> ?n \<in> blocks pool mb - set xs")
    case True
    let ?mb = "mb\<lparr>nodeNext := (nodeNext mb)(?n := stFreeList mb), stFreeList := ?n, uwBlkCnt := uwBlkCnt mb - 1\<rparr>"
    have "length xs < unat (uwBlkNum mb)"
    proof -
      have "card (insert ?n (set xs)) \<le> card (blocks pool mb)"
        using True sub by (intro card_mono) (auto simp: blocks_def)
      also have "\<dots> \<le> unat (uwBlkNum mb)" unfolding blocks_def by (metis card_image_le card_lessThan finite_lessThan)
      finally show ?thesis using True d by (simp add: distinct_card)
    qed
    then have c0: "unat (uwBlkCnt mb) > 0" using cnt by linarith
    then have "uwBlkCnt mb \<noteq> 0" by auto
    then have c: "unat (uwBlkCnt mb - 1) = unat (uwBlkCnt mb) - 1" by (rule unat_minus_one)
    have "mb_inv pool ?mb (?n # xs)"
      using g fc d sub al cnt True c c0
      by (auto simp: mb_inv_def free_chain_upd geo_cong [of ?mb mb] blocks_cong [of ?mb mb])
    then show ?thesis using True ok p by (simp add: LOS_MemboxFree_def Let_def)
  next
    case False
    then show ?thesis using ok p by (auto simp: LOS_MemboxFree_def Let_def)
  qed
qed

text \<open>
  C11: Initialisation.  For a pool that lies in memory, \<^verbatim>\<open>LOS_MemboxInit\<close> succeeds exactly when at
  least one block fits, and then every block of the pool is free, none overlaps another or
  reaches beyond the pool, and each has room for the requested size and its header.
\<close>

theorem membox_init_correct:
  assumes "pool \<noteq> 0" "blkSize \<noteq> 0" "unat blkSize + 7 < 2 ^ 32" "unat pool + unat poolSize < unat OS_MEMBOX_MAGIC"
  shows "case LOS_MemboxInit pool poolSize blkSize mb of (r, mb') \<Rightarrow>
    (r = LOS_OK \<longleftrightarrow> unat poolSize \<ge> 16 + unat (LOS_MEMBOX_ALIGNED (blkSize + OS_MEMBOX_NODE_HEAD_SIZE))) \<and>
    (r = LOS_OK \<longrightarrow> mb_inv pool mb' (map (blk pool mb') [0..<unat (uwBlkNum mb')]) \<and>
       unat (uwBlkSize mb') \<ge> unat blkSize + 4 \<and>
       (\<forall>b \<in> blocks pool mb'. unat b + unat (uwBlkSize mb') \<le> unat pool + unat poolSize))"
proof -
  define sz where "sz = LOS_MEMBOX_ALIGNED (blkSize + OS_MEMBOX_NODE_HEAD_SIZE)"
  define num where "num = (poolSize - MEMBOX_INFO_SIZE) div sz"
  have b4: "unat (blkSize + OS_MEMBOX_NODE_HEAD_SIZE) = unat blkSize + 4"
    using assms(3) by (simp add: OS_MEMBOX_NODE_HEAD_SIZE_def unat_word_ariths)
  then have szge: "unat blkSize + 4 \<le> unat sz"
    using aligned_bounds [of "blkSize + OS_MEMBOX_NODE_HEAD_SIZE"] assms(3) by (simp add: sz_def)
  show ?thesis
  proof (cases "poolSize < MEMBOX_INFO_SIZE")
    case True
    then have "unat poolSize < 16" by (simp add: MEMBOX_INFO_SIZE_def word_less_nat_alt)
    then show ?thesis using True assms(1,2) by (simp add: LOS_MemboxInit_def)
  next
    case False
    then have p16: "unat poolSize \<ge> 16" "unat (poolSize - MEMBOX_INFO_SIZE) = unat poolSize - 16"
      by (simp_all add: MEMBOX_INFO_SIZE_def word_less_nat_alt unat_sub_if')
    have un: "unat num = (unat poolSize - 16) div unat sz" by (simp add: num_def unat_div p16)
    have fit: "num \<noteq> 0 \<longleftrightarrow> unat poolSize \<ge> 16 + unat sz"
      using p16 szge un by (auto simp: unat_eq_zero [symmetric] div_eq_0_iff simp del: unat_eq_zero)
    define mb' where "mb' = mb\<lparr>uwBlkSize := sz, uwBlkNum := num, uwBlkCnt := 0, stFreeList := pool + MEMBOX_INFO_SIZE,
      nodeNext := membox_link (unat (num - 1)) sz (pool + MEMBOX_INFO_SIZE) (nodeNext mb)\<rparr>"
    have r: "LOS_MemboxInit pool poolSize blkSize mb =
        (if num = 0 then (LOS_NOK, mb\<lparr>uwBlkSize := sz, uwBlkNum := num, uwBlkCnt := 0\<rparr>) else (LOS_OK, mb'))"
      using False assms(1,2) by (simp add: LOS_MemboxInit_def sz_def num_def mb'_def Let_def)
    have total: "unat num * unat sz \<le> unat poolSize - 16" by (simp add: un)
    have g: "geo pool mb'"
      using assms(1,4) szge total p16 by (auto simp: geo_def mb'_def unat_eq_zero [symmetric] simp del: unat_eq_zero)
    have inside: "unat b + unat sz \<le> unat pool + unat poolSize" if bm: "b \<in> blocks pool mb'" for b
    proof -
      have "unat (uwBlkNum mb') = unat num" by (simp add: mb'_def)
      then obtain i where i: "i < unat num" "b = blk pool mb' i" using bm unfolding blocks_def by auto
      have "Suc i * unat sz \<le> unat num * unat sz" using i(1) by (intro mult_le_mono1) simp
      then show ?thesis using unat_blk [OF g, of i] i total p16 by (simp add: mb'_def)
    qed
    have init: "mb_inv pool mb' (map (blk pool mb') [0..<unat (uwBlkNum mb')])" if nz: "num \<noteq> 0"
      using membox_init_inv [OF g] nz by (simp add: mb'_def)
    have bs: "uwBlkSize mb' = sz" by (simp add: mb'_def)
    show ?thesis
    proof (cases "num = 0")
      case True
      then show ?thesis using r fit by (simp add: sz_def)
    next
      case False
      then show ?thesis using r fit szge inside init bs by (simp add: sz_def [symmetric])
    qed
  qed
qed

definition demo_box :: LOS_MEMBOX_INFO where
  "demo_box = \<lparr>uwBlkSize = 0, uwBlkNum = 0, uwBlkCnt = 0, stFreeList = 0, nodeNext = (\<lambda>_. 0)\<rparr>"

text \<open>A pool of three blocks of 12 bytes at address \<^verbatim>\<open>0x20000000\<close>.\<close>

abbreviation "demo_pool \<equiv> snd (LOS_MemboxInit 0x20000000 52 8 demo_box)"

theorem membox_init_correct_witness:
  "mb_inv 0x20000000 demo_pool (map (blk 0x20000000 demo_pool) [0..<unat (uwBlkNum demo_pool)])"
proof -
  have "LOS_MEMBOX_ALIGNED (8 + OS_MEMBOX_NODE_HEAD_SIZE) = 12"
    by (simp add: LOS_MEMBOX_ALIGNED_def OS_MEMBOX_NODE_HEAD_SIZE_def)
  then show ?thesis
    using membox_init_correct [where pool = "0x20000000" and blkSize = 8 and poolSize = 52 and mb = demo_box]
    by (auto simp: OS_MEMBOX_MAGIC_def split: prod.splits)
qed

text \<open>A pool whose only free block is its last one.\<close>

definition demo_used :: LOS_MEMBOX_INFO where
  "demo_used = \<lparr>uwBlkSize = 12, uwBlkNum = 2, uwBlkCnt = 1, stFreeList = 0x2000001C,
     nodeNext = (\<lambda>a. if a = 0x20000010 then OS_MEMBOX_MAGIC OR 3 else 0)\<rparr>"

lemma demo_used_inv: "mb_inv 0x20000000 demo_used [0x2000001C]"
proof -
  have "{..<2 :: nat} = {0, 1}" by auto
  then have "blocks 0x20000000 demo_used = {0x20000010, 0x2000001C}"
    by (simp add: blocks_def blk_def demo_used_def MEMBOX_INFO_SIZE_def)
  moreover have "allocated_mark (OS_MEMBOX_MAGIC OR 3)"
    unfolding allocated_mark_def by (rule exI [of _ 3]) simp
  ultimately show ?thesis
    by (auto simp: mb_inv_def geo_def demo_used_def OS_MEMBOX_MAGIC_def)
qed

text \<open>
  C10: Memory boxes.  In a well-formed box with free blocks \<open>xs\<close>, allocation returns the payload of
  the first free block, which then is allocated and no longer free, and 0 exactly when no block is
  free.  Exactly the payload addresses of allocated blocks can be freed, and the block becomes the
  first free one; any other argument (null, outside the pool, inside a block, or a block that is
  already free, so in particular a double free) is refused and changes nothing.  The box stays well
  formed.
\<close>

theorem membox_correct:
  assumes "mb_inv pool mb xs"
  shows "(unat t \<le> 13 \<longrightarrow> (case xs of
        [] \<Rightarrow> LOS_MemboxAlloc t pool mb = (0, mb)
      | x # xs' \<Rightarrow> fst (LOS_MemboxAlloc t pool mb) = x + OS_MEMBOX_NODE_HEAD_SIZE \<and>
          x \<in> blocks pool mb \<and> \<not> allocated_mark (nodeNext mb x) \<and>
          mb_inv pool (snd (LOS_MemboxAlloc t pool mb)) xs')) \<and>
    (let node = box - OS_MEMBOX_NODE_HEAD_SIZE in
      if box \<noteq> 0 \<and> node \<in> blocks pool mb - set xs
      then fst (LOS_MemboxFree pool box mb) = LOS_OK \<and> mb_inv pool (snd (LOS_MemboxFree pool box mb)) (node # xs)
      else LOS_MemboxFree pool box mb = (LOS_NOK, mb))"
  using membox_alloc_correct [OF assms] membox_free_correct [OF assms] by blast

theorem membox_correct_witness:
  "fst (LOS_MemboxAlloc 5 0x20000000 demo_used) = 0x20000020 \<and>
   mb_inv 0x20000000 (snd (LOS_MemboxAlloc 5 0x20000000 demo_used)) [] \<and>
   LOS_MemboxFree 0x20000000 0x20000020 demo_used = (LOS_NOK, demo_used)"
  using membox_correct [OF demo_used_inv, where t = 5 and box = "0x20000020"]
  by (simp add: Let_def OS_MEMBOX_NODE_HEAD_SIZE_def)

end
