(* ===== verification/Bytes.thy ===== *)
theory Bytes
  imports Prelude
begin

text \<open>
  Byte buffers as lists: reading and overwriting a range, the little-endian words the
  RISC-V core stores, and the bounds-checked copy of
  \<^verbatim>\<open>LiteOS/third_party/bounds_checking_function/src/memcpy_s.c\<close>.
\<close>

definition sub_bytes :: "nat \<Rightarrow> nat \<Rightarrow> 'a list \<Rightarrow> 'a list" where
  "sub_bytes off n mem = take n (drop off mem)"

definition splice :: "nat \<Rightarrow> 'a list \<Rightarrow> 'a list \<Rightarrow> 'a list" where
  "splice off bs mem = take off mem @ bs @ drop (off + length bs) mem"

lemma length_splice [simp]: "off + length bs \<le> length mem \<Longrightarrow> length (splice off bs mem) = length mem"
  by (simp add: splice_def)

lemma length_sub_bytes [simp]: "off + n \<le> length mem \<Longrightarrow> length (sub_bytes off n mem) = n"
  by (simp add: sub_bytes_def)

lemma nth_splice:
  "off + length bs \<le> length mem \<Longrightarrow> i < length mem \<Longrightarrow>
   splice off bs mem ! i = (if off \<le> i \<and> i < off + length bs then bs ! (i - off) else mem ! i)"
  by (auto simp: splice_def nth_append)

lemma nth_sub_bytes [simp]: "i < n \<Longrightarrow> off + n \<le> length mem \<Longrightarrow> sub_bytes off n mem ! i = mem ! (off + i)"
  by (simp add: sub_bytes_def)

lemma sub_splice_same [simp]:
  "off + length bs \<le> length mem \<Longrightarrow> n = length bs \<Longrightarrow> sub_bytes off n (splice off bs mem) = bs"
  by (simp add: sub_bytes_def splice_def)

lemma sub_splice_disjoint:
  assumes "off + length bs \<le> length mem" "o' + n \<le> length mem" "o' + n \<le> off \<or> off + length bs \<le> o'"
  shows "sub_bytes o' n (splice off bs mem) = sub_bytes o' n mem"
proof (rule nth_equalityI)
  fix i
  assume "i < length (sub_bytes o' n (splice off bs mem))"
  then have "i < n" using assms by simp
  then show "sub_bytes o' n (splice off bs mem) ! i = sub_bytes o' n mem ! i"
    using assms by (auto simp: nth_splice)
qed (use assms in simp)

section \<open>Little-endian words\<close>

definition le32 :: "u32 \<Rightarrow> u8 list" where
  "le32 w = [ucast w, ucast (drop_bit 8 w), ucast (drop_bit 16 w), ucast (drop_bit 24 w)]"

fun of_le32 :: "u8 list \<Rightarrow> u32" where
  "of_le32 (a # b # c # d # _) =
     ucast a OR push_bit 8 (ucast b) OR push_bit 16 (ucast c) OR push_bit 24 (ucast d)"
| "of_le32 _ = 0"

lemma length_le32 [simp]: "length (le32 w) = 4"
  by (simp add: le32_def)

lemma of_le32_le32 [simp]: "of_le32 (le32 w) = w"
proof (rule bit_word_eqI)
  fix n
  assume "n < LENGTH(32)"
  then consider "n < 8" | "8 \<le> n" "n < 16" | "16 \<le> n" "n < 24" | "24 \<le> n" "n < 32" by (force simp: not_less)
  then show "bit (of_le32 (le32 w)) n = bit w n"
    by cases (auto simp: le32_def bit_or_iff bit_push_bit_iff bit_ucast_iff bit_drop_bit_eq dest: bit_imp_le_length)
qed

section \<open>Bounds-checked copy\<close>

definition SECUREC_MEM_MAX_LEN :: u32 where "SECUREC_MEM_MAX_LEN = 0x7FFFFFFF"
definition EOK :: u32 where "EOK = 0"
definition ERANGE :: u32 where "ERANGE = 34"
definition ERANGE_AND_RESET :: u32 where "ERANGE_AND_RESET = 162"

text \<open>\<open>src\<close> and \<open>dest\<close> are the bytes found at the two (non-null, not overlapping)
  pointers; the result is the return code and the bytes then found at \<open>dest\<close>.\<close>

definition memcpy_s :: "u8 list \<Rightarrow> u32 \<Rightarrow> u8 list \<Rightarrow> u32 \<Rightarrow> u32 \<times> u8 list" where
  "memcpy_s dest destMax src count =
     (if count \<le> destMax \<and> destMax \<le> SECUREC_MEM_MAX_LEN \<and> count > 0
      then (EOK, splice 0 (take (unat count) src) dest)
      else if destMax = 0 \<or> destMax > SECUREC_MEM_MAX_LEN then (ERANGE, dest)
      else if count > destMax then (ERANGE_AND_RESET, splice 0 (replicate (unat destMax) 0) dest)
      else (EOK, dest))"

lemma memcpy_s_ok:
  assumes "count \<le> destMax" "destMax \<le> SECUREC_MEM_MAX_LEN" "0 < destMax"
  shows "memcpy_s dest destMax src count = (EOK, splice 0 (take (unat count) src) dest)"
proof (cases "count = 0")
  case True
  then show ?thesis using assms by (auto simp: memcpy_s_def splice_def)
next
  case False
  then show ?thesis using assms by (simp add: memcpy_s_def word_gt_0)
qed

lemma splice_drop:
  "off + length bs \<le> length mem \<Longrightarrow> take off mem @ splice 0 bs (drop off mem) = splice off bs mem"
  by (simp add: splice_def add.commute)

end
