(* ===== verification/Los_Queue.thy ===== *)
theory Los_Queue
  imports Sched_Client Los_Membox Bytes
begin

text \<open>
  \<^verbatim>\<open>LiteOS/kernel/src/los_queue.c\<close>: message queues.  A queue is a ring of slots of
  \<^verbatim>\<open>queueSize\<close> bytes; the last word of a slot holds the size of a copied message.  A call
  that blocks is split at its \<^verbatim>\<open>LOS_Schedule\<close>, as for semaphores.  A buffer argument is
  the list of the bytes found at \<^verbatim>\<open>bufferAddr\<close>, and comes back as they are after the call.
\<close>

abbreviation "LOS_ERRNO_QUEUE_MAXNUM_ZERO \<equiv> LOS_ERRNO_OS_ERROR 6 0"
abbreviation "LOS_ERRNO_QUEUE_NO_MEMORY \<equiv> LOS_ERRNO_OS_ERROR 6 1"
abbreviation "LOS_ERRNO_QUEUE_CREATE_NO_MEMORY \<equiv> LOS_ERRNO_OS_ERROR 6 2"
abbreviation "LOS_ERRNO_QUEUE_SIZE_TOO_BIG \<equiv> LOS_ERRNO_OS_ERROR 6 3"
abbreviation "LOS_ERRNO_QUEUE_CB_UNAVAILABLE \<equiv> LOS_ERRNO_OS_ERROR 6 4"
abbreviation "LOS_ERRNO_QUEUE_NOT_FOUND \<equiv> LOS_ERRNO_OS_ERROR 6 5"
abbreviation "LOS_ERRNO_QUEUE_PEND_IN_LOCK \<equiv> LOS_ERRNO_OS_ERROR 6 6"
abbreviation "LOS_ERRNO_QUEUE_TIMEOUT \<equiv> LOS_ERRNO_OS_ERROR 6 7"
abbreviation "LOS_ERRNO_QUEUE_IN_TSKUSE \<equiv> LOS_ERRNO_OS_ERROR 6 8"
abbreviation "LOS_ERRNO_QUEUE_WRITE_IN_INTERRUPT \<equiv> LOS_ERRNO_OS_ERROR 6 9"
abbreviation "LOS_ERRNO_QUEUE_NOT_CREATE \<equiv> LOS_ERRNO_OS_ERROR 6 0xa"
abbreviation "LOS_ERRNO_QUEUE_IN_TSKWRITE \<equiv> LOS_ERRNO_OS_ERROR 6 0xb"
abbreviation "LOS_ERRNO_QUEUE_CREAT_PTR_NULL \<equiv> LOS_ERRNO_OS_ERROR 6 0xc"
abbreviation "LOS_ERRNO_QUEUE_PARA_ISZERO \<equiv> LOS_ERRNO_OS_ERROR 6 0xd"
abbreviation "LOS_ERRNO_QUEUE_INVALID \<equiv> LOS_ERRNO_OS_ERROR 6 0xe"
abbreviation "LOS_ERRNO_QUEUE_READ_PTR_NULL \<equiv> LOS_ERRNO_OS_ERROR 6 0xf"
abbreviation "LOS_ERRNO_QUEUE_READSIZE_ISZERO \<equiv> LOS_ERRNO_OS_ERROR 6 0x10"
abbreviation "LOS_ERRNO_QUEUE_WRITE_PTR_NULL \<equiv> LOS_ERRNO_OS_ERROR 6 0x12"
abbreviation "LOS_ERRNO_QUEUE_WRITESIZE_ISZERO \<equiv> LOS_ERRNO_OS_ERROR 6 0x13"
abbreviation "LOS_ERRNO_QUEUE_WRITE_SIZE_TOO_BIG \<equiv> LOS_ERRNO_OS_ERROR 6 0x15"
abbreviation "LOS_ERRNO_QUEUE_ISFULL \<equiv> LOS_ERRNO_OS_ERROR 6 0x16"
abbreviation "LOS_ERRNO_QUEUE_PTR_NULL \<equiv> LOS_ERRNO_OS_ERROR 6 0x17"
abbreviation "LOS_ERRNO_QUEUE_READ_IN_INTERRUPT \<equiv> LOS_ERRNO_OS_ERROR 6 0x18"
abbreviation "LOS_ERRNO_QUEUE_MAIL_HANDLE_INVALID \<equiv> LOS_ERRNO_OS_ERROR 6 0x19"
abbreviation "LOS_ERRNO_QUEUE_MAIL_PTR_INVALID \<equiv> LOS_ERRNO_OS_ERROR 6 0x1a"
abbreviation "LOS_ERRNO_QUEUE_MAIL_FREE_ERROR \<equiv> LOS_ERRNO_OS_ERROR 6 0x1b"
abbreviation "LOS_ERRNO_QUEUE_ISEMPTY \<equiv> LOS_ERRNO_OS_ERROR 6 0x1d"
abbreviation "LOS_ERRNO_QUEUE_READ_SIZE_TOO_SMALL \<equiv> LOS_ERRNO_OS_ERROR 6 0x1f"

definition OS_QUEUE_UNUSED :: u16 where "OS_QUEUE_UNUSED = 0"
definition OS_QUEUE_INUSED :: u16 where "OS_QUEUE_INUSED = 1"

section \<open>Operation types\<close>

abbreviation (input) OS_QUEUE_READ :: u32 where "OS_QUEUE_READ \<equiv> 0"
abbreviation (input) OS_QUEUE_WRITE :: u32 where "OS_QUEUE_WRITE \<equiv> 1"
abbreviation (input) OS_QUEUE_HEAD :: u32 where "OS_QUEUE_HEAD \<equiv> 0"
abbreviation (input) OS_QUEUE_TAIL :: u32 where "OS_QUEUE_TAIL \<equiv> 1"
abbreviation (input) OS_QUEUE_NOT_POINT :: u32 where "OS_QUEUE_NOT_POINT \<equiv> 0"
abbreviation (input) OS_QUEUE_POINT :: u32 where "OS_QUEUE_POINT \<equiv> 1"

definition OS_QUEUE_OPERATE_TYPE :: "u32 \<Rightarrow> u32 \<Rightarrow> u32 \<Rightarrow> u32" where
  "OS_QUEUE_OPERATE_TYPE rw ht pt = push_bit 2 pt OR push_bit 1 ht OR rw"

definition OS_QUEUE_READ_WRITE_GET :: "u32 \<Rightarrow> u32" where "OS_QUEUE_READ_WRITE_GET ty = ty AND 1"
definition OS_QUEUE_OPERATE_GET :: "u32 \<Rightarrow> u32" where "OS_QUEUE_OPERATE_GET ty = ty AND 3"
definition OS_QUEUE_IS_POINT :: "u32 \<Rightarrow> bool" where "OS_QUEUE_IS_POINT ty \<longleftrightarrow> tst ty 4"
definition OS_QUEUE_IS_READ :: "u32 \<Rightarrow> bool" where "OS_QUEUE_IS_READ ty \<longleftrightarrow> OS_QUEUE_READ_WRITE_GET ty = OS_QUEUE_READ"
definition OS_QUEUE_IS_WRITE :: "u32 \<Rightarrow> bool" where "OS_QUEUE_IS_WRITE ty \<longleftrightarrow> OS_QUEUE_READ_WRITE_GET ty = OS_QUEUE_WRITE"

definition OS_QUEUE_READ_HEAD :: u32 where "OS_QUEUE_READ_HEAD = 0"
definition OS_QUEUE_WRITE_HEAD :: u32 where "OS_QUEUE_WRITE_HEAD = 1"
definition OS_QUEUE_WRITE_TAIL :: u32 where "OS_QUEUE_WRITE_TAIL = 3"

section \<open>Control blocks\<close>

definition upd_queue :: "nat \<Rightarrow> (LosQueueCB \<Rightarrow> LosQueueCB) \<Rightarrow> kernel \<Rightarrow> kernel" where
  "upd_queue i f k = k\<lparr>g_allQueue := (g_allQueue k)(i := f (g_allQueue k i))\<rparr>"

text \<open>\<open>readWriteableCnt[rw]\<close> and \<open>readWriteList[rw]\<close>.\<close>

definition rw_cnt :: "u32 \<Rightarrow> LosQueueCB \<Rightarrow> u16" where
  "rw_cnt rw q = (if rw = OS_QUEUE_READ then readableCnt q else writableCnt q)"

definition rw_cnt_upd :: "u32 \<Rightarrow> (u16 \<Rightarrow> u16) \<Rightarrow> LosQueueCB \<Rightarrow> LosQueueCB" where
  "rw_cnt_upd rw f q =
     (if rw = OS_QUEUE_READ then q\<lparr>readableCnt := f (readableCnt q)\<rparr> else q\<lparr>writableCnt := f (writableCnt q)\<rparr>)"

definition rw_list :: "u32 \<Rightarrow> nat \<Rightarrow> list_id" where
  "rw_list rw i = (if rw = OS_QUEUE_READ then QueueReadList i else QueueWriteList i)"

definition OsQueueInit :: "u32 \<Rightarrow> kernel \<Rightarrow> u32 \<times> kernel" where
  "OsQueueInit mem k =
     (if LOSCFG_BASE_IPC_QUEUE_LIMIT = 0 then (LOS_ERRNO_QUEUE_MAXNUM_ZERO, k)
      else if mem = 0 then (LOS_ERRNO_QUEUE_NO_MEMORY, k)
      else (LOS_OK,
        fold (\<lambda>i k. (upd_queue i (\<lambda>_. \<lparr>queueMem = [], queueState = 0, queueLen = 0, queueSize = 0,
                       queueID = of_nat i, queueHead = 0, queueTail = 0, readableCnt = 0, writableCnt = 0\<rparr>) k)
                     \<lparr>g_freeQueueList := g_freeQueueList k @ [i]\<rparr>)
          [0..<LOSCFG_BASE_IPC_QUEUE_LIMIT] (k\<lparr>g_freeQueueList := []\<rparr>)))"

text \<open>\<open>mem\<close> is the block \<^verbatim>\<open>LOS_MemAlloc\<close> returns with its contents, \<open>None\<close> for
  \<^verbatim>\<open>NULL\<close>.\<close>

definition LOS_QueueCreate ::
  "u16 \<Rightarrow> bool \<Rightarrow> u16 \<Rightarrow> u8 list option \<Rightarrow> kernel \<Rightarrow> u32 \<times> u32 option \<times> kernel" where
  "LOS_QueueCreate len idNull maxMsgSize mem k =
     (if idNull then (LOS_ERRNO_QUEUE_CREAT_PTR_NULL, None, k)
      else if maxMsgSize > OS_NULL_SHORT - 4 then (LOS_ERRNO_QUEUE_SIZE_TOO_BIG, None, k)
      else if len = 0 \<or> maxMsgSize = 0 then (LOS_ERRNO_QUEUE_PARA_ISZERO, None, k)
      else
        let msgSize = maxMsgSize + 4 in
        case mem of None \<Rightarrow> (LOS_ERRNO_QUEUE_CREATE_NO_MEMORY, None, k)
        | Some queue \<Rightarrow>
          (case g_freeQueueList k of
             [] \<Rightarrow> (LOS_ERRNO_QUEUE_CB_UNAVAILABLE, None, k)
           | i # rest \<Rightarrow>
              let k1 = upd_queue i (\<lambda>q. q\<lparr>queueLen := len, queueSize := msgSize, queueMem := queue,
                         queueState := OS_QUEUE_INUSED, readableCnt := 0, writableCnt := len,
                         queueHead := 0, queueTail := 0\<rparr>) (k\<lparr>g_freeQueueList := rest\<rparr>);
                  k2 = k1\<lparr>pend := (pend k1)(QueueReadList i := [], QueueWriteList i := [], QueueMemList i := [])\<rparr>
              in (LOS_OK, Some (ucast (queueID (g_allQueue k2 i))), k2)))"

section \<open>Reading and writing\<close>

text \<open>\<open>bufNull\<close>, \<open>szNull\<close>: the pointer arguments are null.\<close>

definition OsQueueReadParameterCheck :: "u32 \<Rightarrow> bool \<Rightarrow> bool \<Rightarrow> u32 \<Rightarrow> u32 \<Rightarrow> kernel \<Rightarrow> u32" where
  "OsQueueReadParameterCheck qid bufNull szNull bufferSize timeOut k =
     (if unat qid \<ge> LOSCFG_BASE_IPC_QUEUE_LIMIT then LOS_ERRNO_QUEUE_INVALID
      else if bufNull \<or> szNull then LOS_ERRNO_QUEUE_READ_PTR_NULL
      else if bufferSize = 0 then LOS_ERRNO_QUEUE_READSIZE_ISZERO
      else if timeOut \<noteq> LOS_NO_WAIT \<and> OS_INT_ACTIVE k then LOS_ERRNO_QUEUE_READ_IN_INTERRUPT
      else LOS_OK)"

definition OsQueueWriteParameterCheck :: "u32 \<Rightarrow> bool \<Rightarrow> u32 \<Rightarrow> u32 \<Rightarrow> kernel \<Rightarrow> u32" where
  "OsQueueWriteParameterCheck qid bufNull bufferSize timeOut k =
     (if unat qid \<ge> LOSCFG_BASE_IPC_QUEUE_LIMIT then LOS_ERRNO_QUEUE_INVALID
      else if bufNull then LOS_ERRNO_QUEUE_WRITE_PTR_NULL
      else if bufferSize = 0 then LOS_ERRNO_QUEUE_WRITESIZE_ISZERO
      else if timeOut \<noteq> LOS_NO_WAIT \<and> OS_INT_ACTIVE k then LOS_ERRNO_QUEUE_WRITE_IN_INTERRUPT
      else LOS_OK)"

text \<open>The transfer between the caller's buffer and the slot at \<open>queuePosition\<close>, the second half
  of \<^verbatim>\<open>OsQueueBufferOperate\<close>.\<close>

definition queue_copy :: "u32 \<Rightarrow> u16 \<Rightarrow> u8 list \<Rightarrow> u32 \<Rightarrow> LosQueueCB \<Rightarrow> u8 list \<times> u32 \<times> LosQueueCB" where
  "queue_copy ty queuePosition buf bufferSize q =
     (let node = unat queuePosition * unat (queueSize q);
          szAt = node + unat (queueSize q) - 4
      in if OS_QUEUE_IS_POINT ty
         then if OS_QUEUE_IS_READ ty
              then (splice 0 (sub_bytes node 4 (queueMem q)) buf, bufferSize, q)
              else (buf, bufferSize, q\<lparr>queueMem := splice node (take 4 buf) (queueMem q)\<rparr>)
         else if OS_QUEUE_IS_READ ty
         then let msgDataSize = of_le32 (sub_bytes szAt 4 (queueMem q));
                  (rc, buf') = memcpy_s buf bufferSize (drop node (queueMem q)) msgDataSize
              in if rc \<noteq> EOK then (buf', bufferSize, q) else (buf', msgDataSize, q)
         else let mem = splice szAt (le32 bufferSize) (queueMem q);
                  (rc, node') = memcpy_s (drop node mem) (ucast (queueSize q)) buf bufferSize
              in (buf, bufferSize, q\<lparr>queueMem := take node mem @ node'\<rparr>))"

definition OsQueueBufferOperate :: "u32 \<Rightarrow> u8 list \<Rightarrow> u32 \<Rightarrow> LosQueueCB \<Rightarrow> u8 list \<times> u32 \<times> LosQueueCB" where
  "OsQueueBufferOperate ty buf bufferSize q =
     (let op = OS_QUEUE_OPERATE_GET ty in
      if op = OS_QUEUE_READ_HEAD then
        queue_copy ty (queueHead q) buf bufferSize
          (q\<lparr>queueHead := if unat (queueHead q) + 1 = unat (queueLen q) then 0 else queueHead q + 1\<rparr>)
      else if op = OS_QUEUE_WRITE_HEAD then
        let h = (if queueHead q = 0 then queueLen q - 1 else queueHead q - 1)
        in queue_copy ty h buf bufferSize (q\<lparr>queueHead := h\<rparr>)
      else if op = OS_QUEUE_WRITE_TAIL then
        queue_copy ty (queueTail q) buf bufferSize
          (q\<lparr>queueTail := if unat (queueTail q) + 1 = unat (queueLen q) then 0 else queueTail q + 1\<rparr>)
      else (buf, bufferSize, q))"

definition OsQueueOperateParamCheck :: "LosQueueCB \<Rightarrow> u32 \<Rightarrow> u32 \<Rightarrow> u32" where
  "OsQueueOperateParamCheck q ty bufferSize =
     (if queueState q = OS_QUEUE_UNUSED then LOS_ERRNO_QUEUE_NOT_CREATE
      else if OS_QUEUE_IS_READ ty \<and> bufferSize < ucast (queueSize q) - 4 then LOS_ERRNO_QUEUE_READ_SIZE_TOO_SMALL
      else if OS_QUEUE_IS_WRITE ty \<and> bufferSize > ucast (queueSize q) - 4 then LOS_ERRNO_QUEUE_WRITE_SIZE_TOO_BIG
      else LOS_OK)"

type_synonym queue_result = "(u8 list \<times> u32) \<times> kernel"

text \<open>The second part of \<^verbatim>\<open>OsQueueOperate\<close>: move the message, then hand the freed slot or the
  new message to a waiting task, or count it.\<close>

definition queue_transfer :: "nat \<Rightarrow> u32 \<Rightarrow> u8 list \<Rightarrow> u32 \<Rightarrow> kernel \<Rightarrow> queue_result" where
  "queue_transfer i ty buf bufferSize k =
     (let other = 1 - OS_QUEUE_READ_WRITE_GET ty;
          (buf', size', q') = OsQueueBufferOperate ty buf bufferSize (g_allQueue k i);
          k1 = upd_queue i (\<lambda>_. q') k
      in case pend k1 (rw_list other i) of
           [] \<Rightarrow> ((buf', size'), upd_queue i (rw_cnt_upd other (\<lambda>c. c + 1)) k1)
         | t # _ \<Rightarrow> ((buf', size'), LOS_Schedule (OsSchedTaskWake t k1)))"

definition OsQueueOperate ::
  "u32 \<Rightarrow> u32 \<Rightarrow> u8 list \<Rightarrow> u32 \<Rightarrow> u32 \<Rightarrow> kernel \<Rightarrow> outcome \<times> queue_result" where
  "OsQueueOperate qid ty buf bufferSize timeOut k =
     (let i = unat qid; rw = OS_QUEUE_READ_WRITE_GET ty; q = g_allQueue k i;
          ret = OsQueueOperateParamCheck q ty bufferSize
      in if ret \<noteq> LOS_OK then (Ret ret, (buf, bufferSize), k)
         else if rw_cnt rw q = 0 then
           if timeOut = LOS_NO_WAIT
           then (Ret (if OS_QUEUE_IS_READ ty then LOS_ERRNO_QUEUE_ISEMPTY else LOS_ERRNO_QUEUE_ISFULL), (buf, bufferSize), k)
           else if g_losTaskLock k \<noteq> 0 then (Ret LOS_ERRNO_QUEUE_PEND_IN_LOCK, (buf, bufferSize), k)
           else (Blocked, (buf, bufferSize), LOS_Schedule (OsSchedTaskWait (rw_list rw i) timeOut k))
         else (Ret LOS_OK, queue_transfer i ty buf bufferSize (upd_queue i (rw_cnt_upd rw (\<lambda>c. c - 1)) k)))"

definition OsQueueOperate_resume ::
  "nat \<Rightarrow> u32 \<Rightarrow> u32 \<Rightarrow> u8 list \<Rightarrow> u32 \<Rightarrow> kernel \<Rightarrow> u32 \<times> queue_result" where
  "OsQueueOperate_resume runTsk qid ty buf bufferSize k =
     (case consume_timeout runTsk k of
        (True, k1) \<Rightarrow> (LOS_ERRNO_QUEUE_TIMEOUT, (buf, bufferSize), k1)
      | (False, k1) \<Rightarrow> (LOS_OK, queue_transfer (unat qid) ty buf bufferSize k1))"

definition LOS_QueueReadCopy ::
  "u32 \<Rightarrow> bool \<Rightarrow> bool \<Rightarrow> u8 list \<Rightarrow> u32 \<Rightarrow> u32 \<Rightarrow> kernel \<Rightarrow> outcome \<times> queue_result" where
  "LOS_QueueReadCopy qid bufNull szNull buf bufferSize timeOut k =
     (let ret = OsQueueReadParameterCheck qid bufNull szNull bufferSize timeOut k in
      if ret \<noteq> LOS_OK then (Ret ret, (buf, bufferSize), k)
      else OsQueueOperate qid (OS_QUEUE_OPERATE_TYPE OS_QUEUE_READ OS_QUEUE_HEAD OS_QUEUE_NOT_POINT)
             buf bufferSize timeOut k)"

definition LOS_QueueWriteHeadCopy ::
  "u32 \<Rightarrow> bool \<Rightarrow> u8 list \<Rightarrow> u32 \<Rightarrow> u32 \<Rightarrow> kernel \<Rightarrow> outcome \<times> queue_result" where
  "LOS_QueueWriteHeadCopy qid bufNull buf bufferSize timeOut k =
     (let ret = OsQueueWriteParameterCheck qid bufNull bufferSize timeOut k in
      if ret \<noteq> LOS_OK then (Ret ret, (buf, bufferSize), k)
      else OsQueueOperate qid (OS_QUEUE_OPERATE_TYPE OS_QUEUE_WRITE OS_QUEUE_HEAD OS_QUEUE_NOT_POINT)
             buf bufferSize timeOut k)"

definition LOS_QueueWriteCopy ::
  "u32 \<Rightarrow> bool \<Rightarrow> u8 list \<Rightarrow> u32 \<Rightarrow> u32 \<Rightarrow> kernel \<Rightarrow> outcome \<times> queue_result" where
  "LOS_QueueWriteCopy qid bufNull buf bufferSize timeOut k =
     (let ret = OsQueueWriteParameterCheck qid bufNull bufferSize timeOut k in
      if ret \<noteq> LOS_OK then (Ret ret, (buf, bufferSize), k)
      else OsQueueOperate qid (OS_QUEUE_OPERATE_TYPE OS_QUEUE_WRITE OS_QUEUE_TAIL OS_QUEUE_NOT_POINT)
             buf bufferSize timeOut k)"

definition LOS_QueueRead :: "u32 \<Rightarrow> bool \<Rightarrow> u8 list \<Rightarrow> u32 \<Rightarrow> u32 \<Rightarrow> kernel \<Rightarrow> outcome \<times> queue_result" where
  "LOS_QueueRead qid bufNull buf bufferSize timeOut k =
     (let ret = OsQueueReadParameterCheck qid bufNull False bufferSize timeOut k in
      if ret \<noteq> LOS_OK then (Ret ret, (buf, bufferSize), k)
      else OsQueueOperate qid (OS_QUEUE_OPERATE_TYPE OS_QUEUE_READ OS_QUEUE_HEAD OS_QUEUE_POINT)
             buf bufferSize timeOut k)"

text \<open>The pointer variants queue the pointer \<^verbatim>\<open>bufferAddr\<close> itself, its four bytes found at
  \<^verbatim>\<open>&bufferAddr\<close>.\<close>

definition LOS_QueueWrite :: "u32 \<Rightarrow> u32 \<Rightarrow> u32 \<Rightarrow> u32 \<Rightarrow> kernel \<Rightarrow> outcome \<times> queue_result" where
  "LOS_QueueWrite qid bufferAddr bufferSize timeOut k =
     (let ret = OsQueueWriteParameterCheck qid (bufferAddr = 0) 4 timeOut k in
      if ret \<noteq> LOS_OK then (Ret ret, (le32 bufferAddr, 4), k)
      else OsQueueOperate qid (OS_QUEUE_OPERATE_TYPE OS_QUEUE_WRITE OS_QUEUE_TAIL OS_QUEUE_POINT)
             (le32 bufferAddr) 4 timeOut k)"

definition LOS_QueueWriteHead :: "u32 \<Rightarrow> u32 \<Rightarrow> u32 \<Rightarrow> u32 \<Rightarrow> kernel \<Rightarrow> outcome \<times> queue_result" where
  "LOS_QueueWriteHead qid bufferAddr bufferSize timeOut k =
     (if bufferAddr = 0 then (Ret LOS_ERRNO_QUEUE_WRITE_PTR_NULL, (le32 bufferAddr, 4), k)
      else LOS_QueueWriteHeadCopy qid False (le32 bufferAddr) 4 timeOut k)"

section \<open>Mail memory\<close>

text \<open>Blocks of a pool handed to the tasks that wait for one; \<open>mb\<close> is the pool at \<open>mailPool\<close>,
  an outcome \<open>Ret\<close> carries the address of the block.\<close>

definition cur_task :: "kernel \<Rightarrow> u8" where
  "cur_task k = ucast (taskID (tcb k (runTask k)))"

definition OsQueueMailAlloc ::
  "u32 \<Rightarrow> u32 \<Rightarrow> u32 \<Rightarrow> LOS_MEMBOX_INFO \<Rightarrow> kernel \<Rightarrow> outcome \<times> LOS_MEMBOX_INFO \<times> kernel" where
  "OsQueueMailAlloc qid mailPool timeOut mb k =
     (if unat qid \<ge> LOSCFG_BASE_IPC_QUEUE_LIMIT then (Ret 0, mb, k)
      else if mailPool = 0 then (Ret 0, mb, k)
      else if timeOut \<noteq> LOS_NO_WAIT \<and> OS_INT_ACTIVE k then (Ret 0, mb, k)
      else if queueState (g_allQueue k (unat qid)) = OS_QUEUE_UNUSED then (Ret 0, mb, k)
      else case LOS_MemboxAlloc (cur_task k) mailPool mb of (mem, mb') \<Rightarrow>
        if mem \<noteq> 0 then (Ret mem, mb', k)
        else if timeOut = LOS_NO_WAIT then (Ret 0, mb', k)
        else (Blocked, mb', LOS_Schedule (OsSchedTaskWait (QueueMemList (unat qid)) timeOut k)))"

definition OsQueueMailAlloc_resume :: "nat \<Rightarrow> kernel \<Rightarrow> u32 \<times> kernel" where
  "OsQueueMailAlloc_resume runTsk k =
     (case consume_timeout runTsk k of
        (True, k1) \<Rightarrow> (0, k1)
      | (False, k1) \<Rightarrow> (taskMsg (tcb k1 runTsk), upd_tcb runTsk (\<lambda>c. c\<lparr>taskMsg := 0\<rparr>) k1))"

definition OsQueueMailFree ::
  "u32 \<Rightarrow> u32 \<Rightarrow> u32 \<Rightarrow> LOS_MEMBOX_INFO \<Rightarrow> kernel \<Rightarrow> u32 \<times> LOS_MEMBOX_INFO \<times> kernel" where
  "OsQueueMailFree qid mailPool mailMem mb k =
     (if unat qid \<ge> LOSCFG_BASE_IPC_QUEUE_LIMIT then (LOS_ERRNO_QUEUE_MAIL_HANDLE_INVALID, mb, k)
      else if mailPool = 0 then (LOS_ERRNO_QUEUE_MAIL_PTR_INVALID, mb, k)
      else case LOS_MemboxFree mailPool mailMem mb of (r, mb1) \<Rightarrow>
        if r \<noteq> 0 then (LOS_ERRNO_QUEUE_MAIL_FREE_ERROR, mb1, k)
        else if queueState (g_allQueue k (unat qid)) = OS_QUEUE_UNUSED then (LOS_ERRNO_QUEUE_NOT_CREATE, mb1, k)
        else case pend k (QueueMemList (unat qid)) of
            [] \<Rightarrow> (LOS_OK, mb1, k)
          | t # _ \<Rightarrow>
             (let k1 = OsSchedTaskWake t k in
              case LOS_MemboxAlloc (cur_task k1) mailPool mb1 of (mem, mb2) \<Rightarrow>
                if mem = 0 then (LOS_ERRNO_QUEUE_NO_MEMORY, mb2, k1)
                else (LOS_OK, mb2, LOS_Schedule (upd_tcb t (\<lambda>c. c\<lparr>taskMsg := mem\<rparr>) k1))))"

section \<open>Deletion and information\<close>

text \<open>\<open>freed\<close> is what \<^verbatim>\<open>LOS_MemFree\<close> returns for the ring's memory.\<close>

definition LOS_QueueDelete :: "u32 \<Rightarrow> u32 \<Rightarrow> kernel \<Rightarrow> u32 \<times> kernel" where
  "LOS_QueueDelete qid freed k =
     (if unat qid \<ge> LOSCFG_BASE_IPC_QUEUE_LIMIT then (LOS_ERRNO_QUEUE_NOT_FOUND, k)
      else
        let i = unat qid; q = g_allQueue k i in
        if queueState q = OS_QUEUE_UNUSED then (LOS_ERRNO_QUEUE_NOT_CREATE, k)
        else if pend k (QueueReadList i) \<noteq> [] then (LOS_ERRNO_QUEUE_IN_TSKUSE, k)
        else if pend k (QueueWriteList i) \<noteq> [] then (LOS_ERRNO_QUEUE_IN_TSKUSE, k)
        else if pend k (QueueMemList i) \<noteq> [] then (LOS_ERRNO_QUEUE_IN_TSKUSE, k)
        else if unat (writableCnt q) + unat (readableCnt q) \<noteq> unat (queueLen q) then (LOS_ERRNO_QUEUE_IN_TSKWRITE, k)
        else (freed, upd_queue i (\<lambda>q. q\<lparr>queueMem := [], queueState := OS_QUEUE_UNUSED\<rparr>)
                       (k\<lparr>g_freeQueueList := i # g_freeQueueList k\<rparr>)))"

record QUEUE_INFO_S =
  inf_queueID :: u32
  inf_queueLen :: u16
  inf_queueSize :: u16
  inf_queueHead :: u16
  inf_queueTail :: u16
  inf_writableCnt :: u16
  inf_readableCnt :: u16
  inf_waitReadTask :: u32
  inf_waitWriteTask :: u32
  inf_waitMemTask :: u32

definition task_bits :: "nat list \<Rightarrow> kernel \<Rightarrow> u32" where
  "task_bits ts k = fold (\<lambda>t w. w OR push_bit (unat (taskID (tcb k t))) 1) ts 0"

text \<open>The information block is \<open>None\<close> when nothing is stored and zero when the queue is not in
  use.\<close>

definition LOS_QueueInfoGet :: "u32 \<Rightarrow> bool \<Rightarrow> kernel \<Rightarrow> u32 \<times> QUEUE_INFO_S option" where
  "LOS_QueueInfoGet qid infoNull k =
     (if infoNull then (LOS_ERRNO_QUEUE_PTR_NULL, None)
      else if unat qid \<ge> LOSCFG_BASE_IPC_QUEUE_LIMIT then (LOS_ERRNO_QUEUE_INVALID, None)
      else
        let i = unat qid; q = g_allQueue k i in
        if queueState q = OS_QUEUE_UNUSED
        then (LOS_ERRNO_QUEUE_NOT_CREATE, Some \<lparr>inf_queueID = 0, inf_queueLen = 0, inf_queueSize = 0, inf_queueHead = 0,
               inf_queueTail = 0, inf_writableCnt = 0, inf_readableCnt = 0, inf_waitReadTask = 0,
               inf_waitWriteTask = 0, inf_waitMemTask = 0\<rparr>)
        else (LOS_OK, Some \<lparr>inf_queueID = qid, inf_queueLen = queueLen q, inf_queueSize = queueSize q,
               inf_queueHead = queueHead q, inf_queueTail = queueTail q, inf_writableCnt = writableCnt q,
               inf_readableCnt = readableCnt q, inf_waitReadTask = task_bits (pend k (QueueReadList i)) k,
               inf_waitWriteTask = task_bits (pend k (QueueWriteList i)) k,
               inf_waitMemTask = task_bits (pend k (QueueMemList i)) k\<rparr>))"

end
