(* ===== verification/Queue_Spec.thy ===== *)
theory Queue_Spec
  imports Los_Queue
begin

text \<open>
  What the message queues of \<open>Los_Queue\<close> do: the ring of slots holds a list of messages
  (\<open>ring\<close>), and a queue with its two lists of waiting tasks implements an abstract bounded
  queue in which a freed slot or a new message is granted to the task that has waited
  longest (\<open>queue_rel\<close>).
\<close>

section \<open>The ring\<close>

text \<open>A message written by copying, with its size, or a pointer without one.\<close>

datatype qmsg = CopyMsg "u8 list" | PointMsg "u8 list"

fun holds :: "LosQueueCB \<Rightarrow> nat \<Rightarrow> qmsg \<Rightarrow> bool" where
  "holds q p (CopyMsg bs) \<longleftrightarrow>
     length bs + 4 \<le> unat (queueSize q) \<and>
     sub_bytes (p * unat (queueSize q)) (length bs) (queueMem q) = bs \<and>
     of_le32 (sub_bytes (p * unat (queueSize q) + unat (queueSize q) - 4) 4 (queueMem q)) = of_nat (length bs)"
| "holds q p (PointMsg bs) \<longleftrightarrow>
     length bs = 4 \<and> sub_bytes (p * unat (queueSize q)) 4 (queueMem q) = bs"

definition ring :: "LosQueueCB \<Rightarrow> qmsg list \<Rightarrow> bool" where
  "ring q ms \<longleftrightarrow>
     4 < unat (queueSize q) \<and> length (queueMem q) = unat (queueLen q) * unat (queueSize q) \<and>
     unat (queueHead q) < unat (queueLen q) \<and> length ms \<le> unat (queueLen q) \<and>
     unat (queueTail q) = (unat (queueHead q) + length ms) mod unat (queueLen q) \<and>
     (\<forall>i < length ms. holds q ((unat (queueHead q) + i) mod unat (queueLen q)) (ms ! i))"

lemma ring_pos_inj:
  assumes "i < n" "j < n" "(h + i) mod n = (h + j) mod (n :: nat)"
  shows "i = j"
proof -
  have *: "i = j" if "i \<le> j" "j < n" "(h + i) mod n = (h + j) mod n" for i j
  proof -
    have "n dvd (h + j) - (h + i)" using mod_eq_dvd_iff_nat [of "h + i" "h + j" n] that by simp
    then have "n dvd j - i" by simp
    then show ?thesis using that by (auto dest: dvd_imp_le)
  qed
  show ?thesis using * [of i j] * [of j i] assms by (cases "i \<le> j") auto
qed

lemma slot_disjoint:
  assumes "p \<noteq> p'" "a \<le> sz" "b \<le> sz" "x + a \<le> sz" "y + b \<le> (sz :: nat)"
  shows "p' * sz + y + b \<le> p * sz + x \<or> p * sz + x + a \<le> p' * sz + y"
proof -
  have "Suc p * sz \<le> p' * sz \<or> Suc p' * sz \<le> p * sz"
    using assms(1) by (metis mult_le_mono1 nat_neq_iff Suc_leI)
  then show ?thesis using assms by auto
qed

lemma slot_fits: "p < n \<Longrightarrow> x + a \<le> sz \<Longrightarrow> p * sz + x + a \<le> n * (sz :: nat)"
  using mult_le_mono1 [of "Suc p" n sz] by simp

text \<open>A write inside one slot leaves the other slots as they are.\<close>

lemma holds_other:
  assumes h: "holds q p' m" and p: "p \<noteq> p'" "p < n" "p' < n"
    and len: "length (queueMem q) = n * unat (queueSize q)" and sz: "4 < unat (queueSize q)"
    and x: "x + length bs \<le> unat (queueSize q)"
    and q': "queueSize q' = queueSize q" "queueMem q' = splice (p * unat (queueSize q) + x) bs (queueMem q)"
  shows "holds q' p' m"
proof -
  let ?sz = "unat (queueSize q)"
  have in_p: "p * ?sz + x + length bs \<le> length (queueMem q)" using slot_fits [OF p(2) x] len by simp
  have keep: "sub_bytes (p' * ?sz + y) b (queueMem q') = sub_bytes (p' * ?sz + y) b (queueMem q)"
    if "y + b \<le> ?sz" for y b
    unfolding q'
    using slot_disjoint [OF p(1) _ _ x that] slot_fits [OF p(3) that] in_p that x len
    by (intro sub_splice_disjoint) auto
  show ?thesis
  proof (cases m)
    case (CopyMsg cs)
    then have c: "length cs + 4 \<le> ?sz" using h by simp
    have "p' * ?sz + ?sz - 4 = p' * ?sz + (?sz - 4)" using sz by simp
    then show ?thesis using h CopyMsg q' keep [of 0 "length cs"] keep [of "?sz - 4" 4] c sz by simp
  next
    case (PointMsg cs)
    then show ?thesis using h q' keep [of 0 4] sz by simp
  qed
qed

section \<open>Moving a message\<close>

lemma holds_cong:
  "queueSize q' = queueSize q \<Longrightarrow> queueMem q' = queueMem q \<Longrightarrow> holds q' p m = holds q p m"
  by (cases m) simp_all

text \<open>The message a write operation stores.\<close>

definition written :: "u32 \<Rightarrow> u8 list \<Rightarrow> u32 \<Rightarrow> qmsg" where
  "written ty buf n = (if OS_QUEUE_IS_POINT ty then PointMsg (take 4 buf) else CopyMsg (take (unat n) buf))"

text \<open>The arguments of a write pass the checks, and the source bytes exist.\<close>

definition write_ok :: "u32 \<Rightarrow> u8 list \<Rightarrow> u32 \<Rightarrow> LosQueueCB \<Rightarrow> bool" where
  "write_ok ty buf n q \<longleftrightarrow> unat n + 4 \<le> unat (queueSize q) \<and> unat n \<le> length buf \<and>
     (OS_QUEUE_IS_POINT ty \<longrightarrow> 4 \<le> length buf)"

lemma u16_le_max: "ucast (w :: u16) \<le> SECUREC_MEM_MAX_LEN"
proof -
  have "unat (ucast w :: u32) = unat w" by (rule unat_ucast_up) simp
  moreover have "unat w < 2 ^ 16" using unsigned_less [of w] by simp
  ultimately show ?thesis by (simp add: word_le_nat_alt SECUREC_MEM_MAX_LEN_def)
qed

lemma queue_copy_write:
  assumes w: "write_ok ty buf n q" "\<not> OS_QUEUE_IS_READ ty"
    and sz: "4 < unat (queueSize q)" and len: "length (queueMem q) = N * unat (queueSize q)" and p: "unat pos < N"
  obtains mem' where "queue_copy ty pos buf n q = (buf, n, q\<lparr>queueMem := mem'\<rparr>)"
    "length mem' = length (queueMem q)" "holds (q\<lparr>queueMem := mem'\<rparr>) (unat pos) (written ty buf n)"
    "\<And>p' m. p' < N \<Longrightarrow> p' \<noteq> unat pos \<Longrightarrow> holds q p' m \<Longrightarrow> holds (q\<lparr>queueMem := mem'\<rparr>) p' m"
proof (cases "OS_QUEUE_IS_POINT ty")
  case True
  let ?mem = "splice (unat pos * unat (queueSize q)) (take 4 buf) (queueMem q)"
  have l4: "length (take 4 buf) = 4" using w True by (simp add: write_ok_def)
  have fit: "unat pos * unat (queueSize q) + 4 \<le> length (queueMem q)"
    using slot_fits [OF p, of 0 4 "unat (queueSize q)"] sz len by simp
  show ?thesis
  proof (rule that [of ?mem])
    show "queue_copy ty pos buf n q = (buf, n, q\<lparr>queueMem := ?mem\<rparr>)"
      using w True by (simp add: queue_copy_def Let_def)
    show "length ?mem = length (queueMem q)" using fit l4 by simp
    show "holds (q\<lparr>queueMem := ?mem\<rparr>) (unat pos) (written ty buf n)"
      using True fit l4 by (simp add: written_def)
    fix p' m assume "p' < N" "p' \<noteq> unat pos" "holds q p' m"
    then show "holds (q\<lparr>queueMem := ?mem\<rparr>) p' m"
      using holds_other [of q p' m "unat pos" N 0 "take 4 buf"] p len sz l4 by simp
  qed
next
  case False
  define S where "S = unat (queueSize q)"
  define node where "node = unat pos * S"
  define mem1 where "mem1 = splice (node + (S - 4)) (le32 n) (queueMem q)"
  define mem' where "mem' = splice node (take (unat n) buf) mem1"
  have n: "unat n + 4 \<le> S" "length (take (unat n) buf) = unat n"
    using w by (simp_all add: write_ok_def S_def)
  have fit: "node + S \<le> length (queueMem q)"
    using slot_fits [OF p, of 0 S S] len by (simp add: S_def node_def)
  have l1: "length mem1 = length (queueMem q)" using fit sz by (simp add: mem1_def S_def)
  have l': "length mem' = length (queueMem q)" using fit n l1 by (simp add: mem'_def)
  have ucs: "unat (ucast (queueSize q) :: u32) = S" unfolding S_def by (rule unat_ucast_up) simp
  have cp: "memcpy_s (drop node mem1) (ucast (queueSize q)) buf n =
      (EOK, splice 0 (take (unat n) buf) (drop node mem1))"
    using n sz ucs u16_le_max [of "queueSize q"] by (intro memcpy_s_ok) (simp_all add: word_le_nat_alt word_less_nat_alt)
  have nn: "node + S - 4 = node + (S - 4)" using sz by (simp add: S_def)
  have sp: "take node mem1 @ splice 0 (take (unat n) buf) (drop node mem1) = mem'"
    unfolding mem'_def using fit n l1 by (intro splice_drop) simp
  have eq: "queue_copy ty pos buf n q = (buf, n, q\<lparr>queueMem := mem'\<rparr>)"
    using w False cp sp nn
    by (simp add: queue_copy_def Let_def S_def [symmetric] node_def [symmetric] mem1_def [symmetric])
  have "sub_bytes (node + (S - 4)) 4 mem' = sub_bytes (node + (S - 4)) 4 mem1"
    unfolding mem'_def using fit n l1 sz by (intro sub_splice_disjoint) (auto simp: S_def)
  also have "\<dots> = le32 n" unfolding mem1_def using fit sz by (intro sub_splice_same) (simp_all add: S_def)
  finally have szw: "of_le32 (sub_bytes (node + S - 4) 4 mem') = n" using nn by simp
  have data: "sub_bytes node (unat n) mem' = take (unat n) buf"
    unfolding mem'_def using fit n l1 by (intro sub_splice_same) simp_all
  have hold: "holds (q\<lparr>queueMem := mem'\<rparr>) (unat pos) (written ty buf n)"
    using False n szw data by (simp add: written_def S_def node_def)
  have other: "holds (q\<lparr>queueMem := mem'\<rparr>) p' m" if "p' < N" "p' \<noteq> unat pos" "holds q p' m" for p' m
  proof -
    have "holds (q\<lparr>queueMem := mem1\<rparr>) p' m"
      using holds_other [of q p' m "unat pos" N "S - 4" "le32 n" "q\<lparr>queueMem := mem1\<rparr>"] that p len sz
      by (simp add: S_def node_def mem1_def)
    then show ?thesis
      using holds_other [of "q\<lparr>queueMem := mem1\<rparr>" p' m "unat pos" N 0 "take (unat n) buf" "q\<lparr>queueMem := mem'\<rparr>"]
        that p len sz n l1 by (simp add: S_def [symmetric] node_def [symmetric] mem'_def)
  qed
  from that [OF eq l' hold other] show ?thesis by blast
qed

text \<open>The fields \<^verbatim>\<open>OsQueueBufferOperate\<close> leaves alone.\<close>

definition q_meta :: "LosQueueCB \<Rightarrow> u16 \<times> u16 \<times> u16 \<times> u16 \<times> u16 \<times> u16" where
  "q_meta q = (queueState q, queueLen q, queueSize q, queueID q, readableCnt q, writableCnt q)"

lemma ringD:
  assumes "ring q ms"
  shows "4 < unat (queueSize q)" "length (queueMem q) = unat (queueLen q) * unat (queueSize q)"
    "unat (queueHead q) < unat (queueLen q)" "length ms \<le> unat (queueLen q)"
    "unat (queueTail q) = (unat (queueHead q) + length ms) mod unat (queueLen q)"
    "i < length ms \<Longrightarrow> holds q ((unat (queueHead q) + i) mod unat (queueLen q)) (ms ! i)"
  using assms by (auto simp: ring_def)

lemma u16_succ:
  assumes "unat (x :: u16) + 1 < unat (y :: u16)"
  shows "unat (x + 1) = unat x + 1"
proof -
  have "unat y < 2 ^ 16" using unsigned_less [of y] by simp
  then show ?thesis using assms by (simp add: unat_word_ariths)
qed

lemma u16_pred: "(x :: u16) \<noteq> 0 \<Longrightarrow> unat (x - 1) = unat x - 1"
  by (rule unat_minus_one)

text \<open>The index that follows \<open>x\<close> in the ring.\<close>

lemma next_index:
  assumes "unat (x :: u16) < unat (l :: u16)"
  shows "unat (if unat x + 1 = unat l then 0 else x + 1) = (unat x + 1) mod unat l"
proof (cases "unat x + 1 = unat l")
  case False
  then have "unat x + 1 < unat l" using assms by simp
  then show ?thesis using u16_succ [of x l] False by simp
qed simp

lemma ring_write_tail:
  assumes r: "ring q ms" and space: "length ms < unat (queueLen q)"
    and ty: "OS_QUEUE_OPERATE_GET ty = OS_QUEUE_WRITE_TAIL" "\<not> OS_QUEUE_IS_READ ty" and w: "write_ok ty buf n q"
  obtains q' where "OsQueueBufferOperate ty buf n q = (buf, n, q')" "ring q' (ms @ [written ty buf n])"
    "q_meta q' = q_meta q"
proof -
  define h l where "h = unat (queueHead q)" and "l = unat (queueLen q)"
  define q0 where "q0 = q\<lparr>queueTail := if unat (queueTail q) + 1 = unat (queueLen q) then 0 else queueTail q + 1\<rparr>"
  have l0: "0 < l" "h < l" using ringD(3) [OF r] by (simp_all add: l_def h_def)
  have tl: "unat (queueTail q) < l" and tp: "unat (queueTail q) = (h + length ms) mod l"
    using ringD(5) [OF r] l0 by (simp_all add: l_def h_def)
  have w0: "write_ok ty buf n q0" using w by (simp add: write_ok_def q0_def)
  have tl': "unat (queueTail q) < unat (queueLen q)" using tl by (simp add: l_def)
  obtain mem' where m: "queue_copy ty (queueTail q) buf n q0 = (buf, n, q0\<lparr>queueMem := mem'\<rparr>)"
    "length mem' = length (queueMem q0)" "holds (q0\<lparr>queueMem := mem'\<rparr>) (unat (queueTail q)) (written ty buf n)"
    "\<And>p' m. p' < unat (queueLen q) \<Longrightarrow> p' \<noteq> unat (queueTail q) \<Longrightarrow> holds q0 p' m \<Longrightarrow> holds (q0\<lparr>queueMem := mem'\<rparr>) p' m"
    by (rule queue_copy_write [OF w0 ty(2) _ _ tl']) (use ringD(1,2) [OF r] in \<open>auto simp: q0_def\<close>)
  let ?q = "q0\<lparr>queueMem := mem'\<rparr>"
  have op: "OsQueueBufferOperate ty buf n q = (buf, n, ?q)"
    using m(1) ty(1) by (simp add: OsQueueBufferOperate_def Let_def q0_def OS_QUEUE_READ_HEAD_def
        OS_QUEUE_WRITE_HEAD_def OS_QUEUE_WRITE_TAIL_def)
  have old: "holds ?q ((h + i) mod l) (ms ! i)" if i: "i < length ms" for i
  proof (rule m(4))
    show "(h + i) mod l < unat (queueLen q)" using l0 by (simp add: l_def)
    show "(h + i) mod l \<noteq> unat (queueTail q)"
      using ring_pos_inj [of i l "length ms" h] i space tp by (auto simp: l_def)
    show "holds q0 ((h + i) mod l) (ms ! i)"
      using ringD(6) [OF r i] holds_cong [of q0 q] by (simp add: q0_def h_def l_def)
  qed
  have "holds ?q ((h + i) mod l) ((ms @ [written ty buf n]) ! i)" if "i < Suc (length ms)" for i
    using old [of i] m(3) tp that by (cases "i = length ms") (auto simp: nth_append)
  moreover have "unat (queueTail ?q) = (h + Suc (length ms)) mod l"
  proof -
    have "unat (queueTail ?q) = (unat (queueTail q) + 1) mod l"
      using next_index [OF tl'] by (simp add: q0_def l_def)
    then show ?thesis by (simp add: tp mod_simps)
  qed
  ultimately have "ring ?q (ms @ [written ty buf n])"
    using ringD(1-3) [OF r] space m(2) by (simp add: ring_def q0_def h_def l_def)
  moreover have "q_meta ?q = q_meta q" by (simp add: q_meta_def q0_def)
  ultimately show ?thesis using that op by blast
qed

lemma ring_write_head:
  assumes r: "ring q ms" and space: "length ms < unat (queueLen q)"
    and ty: "OS_QUEUE_OPERATE_GET ty = OS_QUEUE_WRITE_HEAD" "\<not> OS_QUEUE_IS_READ ty" and w: "write_ok ty buf n q"
  obtains q' where "OsQueueBufferOperate ty buf n q = (buf, n, q')" "ring q' (written ty buf n # ms)"
    "q_meta q' = q_meta q"
proof -
  define h l where "h = unat (queueHead q)" and "l = unat (queueLen q)"
  define hw where "hw = (if queueHead q = 0 then queueLen q - 1 else queueHead q - 1)"
  define q0 where "q0 = q\<lparr>queueHead := hw\<rparr>"
  have l0: "0 < l" "h < l" using ringD(3) [OF r] by (simp_all add: l_def h_def)
  have hw: "unat hw = (h + (l - 1)) mod l"
  proof (cases "queueHead q = 0")
    case True
    then have "h = 0" by (simp add: h_def)
    moreover have "queueLen q \<noteq> 0" using l0 by (auto simp: l_def)
    ultimately show ?thesis using True l0 by (simp add: hw_def u16_pred l_def)
  next
    case False
    then have "0 < h" by (simp add: h_def unat_gt_0)
    then have "(h + (l - 1)) mod l = h - 1" using l0
      by (metis Nat.add_diff_assoc Nat.add_diff_assoc2 One_nat_def Suc_leI less_imp_diff_less mod_add_self2 mod_less
          gr_implies_not0 not_gr0)
    moreover have "unat hw = h - 1" using False by (simp add: hw_def u16_pred h_def)
    ultimately show ?thesis by simp
  qed
  have hwl: "unat hw < unat (queueLen q)" using hw l0 by (simp add: l_def)
  have w0: "write_ok ty buf n q0" using w by (simp add: write_ok_def q0_def)
  obtain mem' where m: "queue_copy ty hw buf n q0 = (buf, n, q0\<lparr>queueMem := mem'\<rparr>)"
    "length mem' = length (queueMem q0)" "holds (q0\<lparr>queueMem := mem'\<rparr>) (unat hw) (written ty buf n)"
    "\<And>p' m. p' < unat (queueLen q) \<Longrightarrow> p' \<noteq> unat hw \<Longrightarrow> holds q0 p' m \<Longrightarrow> holds (q0\<lparr>queueMem := mem'\<rparr>) p' m"
    by (rule queue_copy_write [OF w0 ty(2) _ _ hwl]) (use ringD(1,2) [OF r] in \<open>auto simp: q0_def\<close>)
  let ?q = "q0\<lparr>queueMem := mem'\<rparr>"
  have op: "OsQueueBufferOperate ty buf n q = (buf, n, ?q)"
    using m(1) ty(1) by (simp add: OsQueueBufferOperate_def Let_def q0_def hw_def OS_QUEUE_READ_HEAD_def
        OS_QUEUE_WRITE_HEAD_def OS_QUEUE_WRITE_TAIL_def)
  have shift: "(unat hw + Suc i) mod l = (h + i) mod l" for i
  proof -
    have "(unat hw + Suc i) mod l = (h + (l - 1) + Suc i) mod l" using hw by (metis mod_add_left_eq)
    also have "h + (l - 1) + Suc i = (h + i) + l" using l0 by simp
    finally show ?thesis by simp
  qed
  have old: "holds ?q ((h + i) mod l) (ms ! i)" if i: "i < length ms" for i
  proof (rule m(4))
    show "(h + i) mod l < unat (queueLen q)" using l0 by (simp add: l_def)
    show "(h + i) mod l \<noteq> unat hw"
      using ring_pos_inj [of i l "l - 1" h] i space hw l0 by (auto simp: l_def)
    show "holds q0 ((h + i) mod l) (ms ! i)"
      using ringD(6) [OF r i] holds_cong [of q0 q] by (simp add: q0_def h_def l_def)
  qed
  have "holds ?q ((unat hw + i) mod l) ((written ty buf n # ms) ! i)" if "i < Suc (length ms)" for i
  proof (cases i)
    case 0
    then show ?thesis using m(3) hwl by (simp add: l_def)
  next
    case (Suc j)
    then show ?thesis using old [of j] shift [of j] that by simp
  qed
  moreover have "unat (queueTail ?q) = (unat hw + Suc (length ms)) mod l"
    using ringD(5) [OF r] shift by (simp add: q0_def h_def l_def)
  ultimately have "ring ?q (written ty buf n # ms)"
    using ringD(1,2) [OF r] space m(2) hwl by (simp add: ring_def q0_def h_def l_def)
  moreover have "q_meta ?q = q_meta q" by (simp add: q_meta_def q0_def)
  ultimately show ?thesis using that op by blast
qed

text \<open>What a read of the message \<open>m\<close> leaves in a buffer, and the size it reports.\<close>

fun received :: "u32 \<Rightarrow> qmsg \<Rightarrow> u8 list \<Rightarrow> u32 \<Rightarrow> u8 list \<times> u32" where
  "received ty (CopyMsg bs) buf n =
     (if OS_QUEUE_IS_POINT ty then (take 4 bs @ drop 4 buf, n) else (bs @ drop (length bs) buf, of_nat (length bs)))"
| "received ty (PointMsg bs) buf n = (bs @ drop 4 buf, n)"

text \<open>The head message can be read this way: a pointer was written as one or as four copied
  bytes, and a copied message is read by copying.\<close>

fun readable :: "u32 \<Rightarrow> qmsg \<Rightarrow> bool" where
  "readable ty (CopyMsg bs) \<longleftrightarrow> (OS_QUEUE_IS_POINT ty \<longrightarrow> 4 \<le> length bs)"
| "readable ty (PointMsg bs) \<longleftrightarrow> OS_QUEUE_IS_POINT ty"

definition read_ok :: "u32 \<Rightarrow> LosQueueCB \<Rightarrow> bool" where
  "read_ok n q \<longleftrightarrow> unat (queueSize q) \<le> unat n + 4 \<and> n \<le> SECUREC_MEM_MAX_LEN"

lemma queue_copy_read:
  assumes h: "holds q (unat pos) m" and rd: "readable ty m" "read_ok n q" "OS_QUEUE_IS_READ ty"
    and sz: "4 < unat (queueSize q)" and len: "length (queueMem q) = N * unat (queueSize q)" and p: "unat pos < N"
  shows "queue_copy ty pos buf n q = (fst (received ty m buf n), snd (received ty m buf n), q)"
proof (cases m)
  case (PointMsg bs)
  then show ?thesis using h rd by (simp add: queue_copy_def Let_def splice_def)
next
  case (CopyMsg bs)
  define S node where "S = unat (queueSize q)" and "node = unat pos * S"
  have fit: "node + S \<le> length (queueMem q)"
    using slot_fits [OF p, of 0 S S] len by (simp add: S_def node_def)
  have b: "length bs + 4 \<le> S" "take (length bs) (drop node (queueMem q)) = bs"
    "of_le32 (sub_bytes (node + S - 4) 4 (queueMem q)) = of_nat (length bs)"
    using h CopyMsg by (simp_all add: S_def node_def sub_bytes_def)
  show ?thesis
  proof (cases "OS_QUEUE_IS_POINT ty")
    case True
    then have "4 \<le> length bs" using rd CopyMsg by simp
    then have "take 4 (drop node (queueMem q)) = take 4 bs" using b(2) by (metis min.absorb1 take_take)
    moreover have "length (take 4 bs) = 4" using \<open>4 \<le> length bs\<close> by simp
    ultimately show ?thesis
      using True CopyMsg rd
      by (simp add: queue_copy_def Let_def splice_def sub_bytes_def S_def [symmetric] node_def [symmetric]
          del: length_take)
  next
    case False
    have "unat (queueSize q) < 2 ^ 16" using unsigned_less [of "queueSize q"] by simp
    then have u: "unat (of_nat (length bs) :: u32) = length bs"
      using b(1) by (intro unat_of_nat_small) (simp add: S_def)
    have "memcpy_s buf n (drop node (queueMem q)) (of_nat (length bs)) = (EOK, splice 0 bs buf)"
      using rd(2) b sz u
      by (subst memcpy_s_ok) (simp_all add: word_le_nat_alt word_less_nat_alt read_ok_def S_def)
    then show ?thesis
      using False CopyMsg rd b(3)
      by (simp add: queue_copy_def Let_def splice_def S_def [symmetric] node_def [symmetric])
  qed
qed

lemma ring_read:
  assumes r: "ring q (m # ms)" and ty: "OS_QUEUE_OPERATE_GET ty = OS_QUEUE_READ_HEAD" "OS_QUEUE_IS_READ ty"
    and rd: "readable ty m" "read_ok n q"
  obtains q' where "OsQueueBufferOperate ty buf n q = (fst (received ty m buf n), snd (received ty m buf n), q')"
    "ring q' ms" "q_meta q' = q_meta q"
proof -
  define h l where "h = unat (queueHead q)" and "l = unat (queueLen q)"
  define q' where "q' = q\<lparr>queueHead := if unat (queueHead q) + 1 = unat (queueLen q) then 0 else queueHead q + 1\<rparr>"
  have l0: "h < l" using ringD(3) [OF r] by (simp add: l_def h_def)
  have hd: "holds q' (unat (queueHead q)) m"
    using ringD(6) [OF r, of 0] l0 holds_cong [of q' q] by (simp add: q'_def h_def l_def)
  have "queue_copy ty (queueHead q) buf n q' = (fst (received ty m buf n), snd (received ty m buf n), q')"
    by (rule queue_copy_read [OF hd rd(1) _ ty(2) _ _ ringD(3) [OF r]])
      (use rd(2) ringD(1,2) [OF r] in \<open>simp_all add: q'_def read_ok_def\<close>)
  then have op: "OsQueueBufferOperate ty buf n q = (fst (received ty m buf n), snd (received ty m buf n), q')"
    using ty(1) by (simp add: OsQueueBufferOperate_def Let_def q'_def)
  have hq: "unat (queueHead q') = (h + 1) mod l"
    using next_index [OF ringD(3) [OF r]] by (simp add: q'_def h_def l_def)
  have shift: "(unat (queueHead q') + i) mod l = (h + Suc i) mod l" for i
    by (simp add: hq mod_simps)
  have "holds q' ((unat (queueHead q') + i) mod l) (ms ! i)" if "i < length ms" for i
    using ringD(6) [OF r, of "Suc i"] that holds_cong [of q' q] shift [of i] by (simp add: q'_def h_def l_def)
  then have "ring q' ms"
    using ringD(1-5) [OF r] shift [of "length ms"] hq l0 by (simp add: ring_def q'_def h_def l_def)
  moreover have "q_meta q' = q_meta q" by (simp add: q_meta_def q'_def)
  ultimately show ?thesis using that op by blast
qed

section \<open>The scheduler calls\<close>

lemma Wake_queue [simp]: "g_allQueue (OsSchedTaskWake t k) = g_allQueue k"
  by (simp add: wake_defs)

lemma Wait_queue [simp]: "g_allQueue (OsSchedTaskWait l n k) = g_allQueue k"
  by (simp add: wait_defs)

lemma Schedule_queue [simp]: "g_allQueue (LOS_Schedule k) = g_allQueue k"
  by (simp add: schedule_defs)

lemma upd_queue_simps [simp]:
  "g_allQueue (upd_queue i f k) = (g_allQueue k)(i := f (g_allQueue k i))"
  "pend (upd_queue i f k) = pend k" "runTask (upd_queue i f k) = runTask k" "tcb (upd_queue i f k) = tcb k"
  by (simp_all add: upd_queue_def)

lemma view_upd_queue: "sched_view (upd_queue i f k) = sched_view k"
  by (rule sched_viewI) (simp_all add: upd_queue_def)

lemma kernel_inv_upd_queue: "kernel_inv k \<Longrightarrow> kernel_inv (upd_queue i f k)"
  by (rule kernel_inv_view [OF view_upd_queue]) (simp_all add: upd_queue_def)

lemma can_block_upd_queue: "can_block k \<Longrightarrow> can_block (upd_queue i f k)"
  by (rule can_block_view [OF view_upd_queue]) (simp_all add: upd_queue_def)

text \<open>Waking the first task of a wait list.\<close>

lemma Wake_first:
  assumes "kernel_inv k" "pend k l = t # ts" "is_wait_list l'"
  shows "pend (OsSchedTaskWake t k) l' = (if l' = l then ts else pend k l')"
proof -
  have dis: "pl_disjoint (pend k)" using assms(1) by (simp add: kernel_inv_def sched_inv_def)
  show ?thesis
    using kl.delete_first [OF dis assms(2)] kl.delete_frame [OF dis, of t l l'] assms(2)
    by (auto simp: kl.contents_delete Wake_pend_wait [OF assms(3)])
qed

lemma wait_rw_list [simp]: "is_wait_list (rw_list rw i)"
  by (simp add: rw_list_def)

text \<open>The effect of \<^verbatim>\<open>OsQueueOperate\<close> after the space or the message has been secured.\<close>

lemma queue_transfer_effect:
  assumes inv: "kernel_inv k" and op: "OsQueueBufferOperate ty buf n (g_allQueue k i) = (b', n', q')"
    and oth: "oth = 1 - OS_QUEUE_READ_WRITE_GET ty"
  obtains k' where "queue_transfer i ty buf n k = ((b', n'), k')" "kernel_inv k'"
    "g_allQueue k' = (g_allQueue k)(i := if pend k (rw_list oth i) = [] then rw_cnt_upd oth (\<lambda>c. c + 1) q' else q')"
    "\<And>l. is_wait_list l \<Longrightarrow> pend k' l = (if l = rw_list oth i then tl (pend k l) else pend k l)"
proof (cases "pend k (rw_list oth i)")
  case Nil
  show ?thesis
  proof (rule that)
    show "queue_transfer i ty buf n k = ((b', n'), upd_queue i (rw_cnt_upd oth (\<lambda>c. c + 1)) (upd_queue i (\<lambda>_. q') k))"
      using Nil by (simp add: queue_transfer_def Let_def op oth)
  qed (use Nil in \<open>simp_all add: kernel_inv_upd_queue inv\<close>)
next
  case (Cons t ts)
  let ?k = "upd_queue i (\<lambda>_. q') k"
  have p: "pending ?k t" and kv: "kernel_inv ?k" and c: "pend ?k (rw_list oth i) = t # ts"
    using waiting_pending [OF _ wait_rw_list, of k t oth i] inv Cons kernel_inv_upd_queue [OF inv]
    by (simp_all add: kernel_inv_def)
  show ?thesis
  proof (rule that)
    show "queue_transfer i ty buf n k = ((b', n'), LOS_Schedule (OsSchedTaskWake t ?k))"
      using Cons by (simp add: queue_transfer_def Let_def op oth)
    show "kernel_inv (LOS_Schedule (OsSchedTaskWake t ?k))"
      by (rule kernel_inv_Schedule) (rule kernel_inv_Wake [OF kv p])
    show "pend (LOS_Schedule (OsSchedTaskWake t ?k)) l = (if l = rw_list oth i then tl (pend k l) else pend k l)"
      if "is_wait_list l" for l
      using Wake_first [OF kv c that] Cons by simp
  qed (use Cons in simp)
qed

section \<open>The abstract queue\<close>

text \<open>A bounded queue with the tasks that wait to read and to write.  \<open>rgrants\<close> messages are
  promised to readers that have been woken and have not run yet, \<open>wgrants\<close> free slots to such
  writers.\<close>

datatype aqueue =
  AQ (cap: nat) (msgs: "qmsg list") (readers: "nat list") (writers: "nat list") (rgrants: nat) (wgrants: nat)

definition aq_full :: "aqueue \<Rightarrow> bool" where "aq_full a \<longleftrightarrow> length (msgs a) + wgrants a \<ge> cap a"
definition aq_empty :: "aqueue \<Rightarrow> bool" where "aq_empty a \<longleftrightarrow> length (msgs a) \<le> rgrants a"

fun aq_put :: "bool \<Rightarrow> qmsg \<Rightarrow> aqueue \<Rightarrow> aqueue" where
  "aq_put front m (AQ c ms rs ws r w) =
     AQ c (if front then m # ms else ms @ [m]) (tl rs) ws (if rs = [] then r else r + 1) w"

fun aq_get :: "aqueue \<Rightarrow> aqueue" where
  "aq_get (AQ c ms rs ws r w) = AQ c (tl ms) rs (tl ws) r (if ws = [] then w else w + 1)"

fun aq_wait_read :: "nat \<Rightarrow> aqueue \<Rightarrow> aqueue" where
  "aq_wait_read t (AQ c ms rs ws r w) = AQ c ms (rs @ [t]) ws r w"

fun aq_wait_write :: "nat \<Rightarrow> aqueue \<Rightarrow> aqueue" where
  "aq_wait_write t (AQ c ms rs ws r w) = AQ c ms rs (ws @ [t]) r w"

text \<open>A woken reader or writer that runs gives its grant back before it reads or writes.\<close>

fun aq_use_rgrant :: "aqueue \<Rightarrow> aqueue" where
  "aq_use_rgrant (AQ c ms rs ws r w) = AQ c ms rs ws (r - 1) w"

fun aq_use_wgrant :: "aqueue \<Rightarrow> aqueue" where
  "aq_use_wgrant (AQ c ms rs ws r w) = AQ c ms rs ws r (w - 1)"

definition queue_rel :: "kernel \<Rightarrow> nat \<Rightarrow> aqueue \<Rightarrow> bool" where
  "queue_rel k i a \<longleftrightarrow>
     (let q = g_allQueue k i in
      queueState q \<noteq> OS_QUEUE_UNUSED \<and> ring q (msgs a) \<and> cap a = unat (queueLen q) \<and>
      readers a = pend k (QueueReadList i) \<and> writers a = pend k (QueueWriteList i) \<and>
      length (msgs a) = unat (readableCnt q) + rgrants a \<and>
      cap a = length (msgs a) + unat (writableCnt q) + wgrants a \<and>
      (readers a \<noteq> [] \<longrightarrow> readableCnt q = 0) \<and> (writers a \<noteq> [] \<longrightarrow> writableCnt q = 0))"

lemma queue_relD:
  assumes "queue_rel k i (AQ c ms rs ws r w)"
  shows "queueState (g_allQueue k i) \<noteq> OS_QUEUE_UNUSED" "ring (g_allQueue k i) ms"
    "c = unat (queueLen (g_allQueue k i))" "rs = pend k (QueueReadList i)" "ws = pend k (QueueWriteList i)"
    "length ms = unat (readableCnt (g_allQueue k i)) + r"
    "c = length ms + unat (writableCnt (g_allQueue k i)) + w"
    "rs \<noteq> [] \<Longrightarrow> readableCnt (g_allQueue k i) = 0" "ws \<noteq> [] \<Longrightarrow> writableCnt (g_allQueue k i) = 0"
  using assms by (simp_all add: queue_rel_def Let_def)

lemma queue_rel_cong:
  assumes "g_allQueue k' i = g_allQueue k i" "pend k' (QueueReadList i) = pend k (QueueReadList i)"
    "pend k' (QueueWriteList i) = pend k (QueueWriteList i)"
  shows "queue_rel k' i a = queue_rel k i a"
  using assms by (simp add: queue_rel_def)

lemma ring_meta:
  "ring (q\<lparr>readableCnt := x\<rparr>) ms = ring q ms" "ring (q\<lparr>writableCnt := x\<rparr>) ms = ring q ms"
proof -
  have "holds (q\<lparr>readableCnt := x\<rparr>) p m = holds q p m" "holds (q\<lparr>writableCnt := x\<rparr>) p m = holds q p m" for p m
    by (rule holds_cong; simp)+
  then show "ring (q\<lparr>readableCnt := x\<rparr>) ms = ring q ms" "ring (q\<lparr>writableCnt := x\<rparr>) ms = ring q ms"
    by (simp_all add: ring_def)
qed

text \<open>Decrementing a count secures a slot or a message for the running task.\<close>

lemma take_wgrant:
  assumes r: "queue_rel k i (AQ c ms rs ws r w)" and nz: "writableCnt (g_allQueue k i) \<noteq> 0"
  shows "queue_rel (upd_queue i (rw_cnt_upd 1 (\<lambda>c. c - 1)) k) i (AQ c ms rs ws r (w + 1))"
proof -
  have "Suc (unat (writableCnt (g_allQueue k i) - 1)) = unat (writableCnt (g_allQueue k i))"
    using u16_pred [OF nz] nz by (metis Suc_diff_1 unat_gt_0)
  then show ?thesis
    using queue_relD [OF r] nz by (auto simp: queue_rel_def rw_cnt_upd_def ring_meta)
qed

lemma take_rgrant:
  assumes r: "queue_rel k i (AQ c ms rs ws r w)" and nz: "readableCnt (g_allQueue k i) \<noteq> 0"
  shows "queue_rel (upd_queue i (rw_cnt_upd 0 (\<lambda>c. c - 1)) k) i (AQ c ms rs ws (r + 1) w)"
proof -
  have "Suc (unat (readableCnt (g_allQueue k i) - 1)) = unat (readableCnt (g_allQueue k i))"
    using u16_pred [OF nz] nz by (metis Suc_diff_1 unat_gt_0)
  then show ?thesis
    using queue_relD [OF r] nz by (auto simp: queue_rel_def rw_cnt_upd_def ring_meta)
qed

definition write_type :: "bool \<Rightarrow> u32 \<Rightarrow> bool" where
  "write_type front ty \<longleftrightarrow> OS_QUEUE_READ_WRITE_GET ty = OS_QUEUE_WRITE \<and>
     OS_QUEUE_OPERATE_GET ty = (if front then OS_QUEUE_WRITE_HEAD else OS_QUEUE_WRITE_TAIL)"

definition read_type :: "u32 \<Rightarrow> bool" where
  "read_type ty \<longleftrightarrow> OS_QUEUE_READ_WRITE_GET ty = OS_QUEUE_READ \<and> OS_QUEUE_OPERATE_GET ty = OS_QUEUE_READ_HEAD"

lemma transfer_put:
  assumes inv: "kernel_inv k" and rel: "queue_rel k i a" and g: "0 < wgrants a"
    and ty: "write_type front ty" and w: "write_ok ty buf n (g_allQueue k i)"
  obtains k' where "queue_transfer i ty buf n k = ((buf, n), k')" "kernel_inv k'"
    "queue_rel k' i (aq_put front (written ty buf n) (aq_use_wgrant a))"
    "\<And>j b. j \<noteq> i \<Longrightarrow> queue_rel k' j b = queue_rel k j b"
proof -
  obtain c ms rs ws r wg where a: "a = AQ c ms rs ws r wg" by (cases a) auto
  note d = queue_relD [OF rel [unfolded a]]
  have space: "length ms < unat (queueLen (g_allQueue k i))" using d(3,7) g a by simp
  have nr: "\<not> OS_QUEUE_IS_READ ty" using ty by (simp add: write_type_def OS_QUEUE_IS_READ_def)
  let ?ms = "if front then written ty buf n # ms else ms @ [written ty buf n]"
  obtain q' where q': "OsQueueBufferOperate ty buf n (g_allQueue k i) = (buf, n, q')" "ring q' ?ms"
    "q_meta q' = q_meta (g_allQueue k i)"
  proof (cases front)
    case True
    then have "OS_QUEUE_OPERATE_GET ty = OS_QUEUE_WRITE_HEAD" using ty by (simp add: write_type_def)
    then show ?thesis using ring_write_head [OF d(2) space _ nr w] True that by auto
  next
    case False
    then have "OS_QUEUE_OPERATE_GET ty = OS_QUEUE_WRITE_TAIL" using ty by (simp add: write_type_def)
    then show ?thesis using ring_write_tail [OF d(2) space _ nr w] False that by auto
  qed
  have o: "0 = 1 - OS_QUEUE_READ_WRITE_GET ty" using ty by (simp add: write_type_def)
  from queue_transfer_effect [OF inv q'(1) o]
  obtain k' where k': "queue_transfer i ty buf n k = ((buf, n), k')" "kernel_inv k'"
    "g_allQueue k' = (g_allQueue k)(i := if pend k (rw_list 0 i) = [] then rw_cnt_upd 0 (\<lambda>c. c + 1) q' else q')"
    "\<And>l. is_wait_list l \<Longrightarrow> pend k' l = (if l = rw_list 0 i then tl (pend k l) else pend k l)"
    by blast
  have meta: "queueState q' = queueState (g_allQueue k i)" "queueLen q' = queueLen (g_allQueue k i)"
    "readableCnt q' = readableCnt (g_allQueue k i)" "writableCnt q' = writableCnt (g_allQueue k i)"
    using q'(3) by (simp_all add: q_meta_def)
  have inc: "unat (readableCnt (g_allQueue k i) + 1) = Suc (unat (readableCnt (g_allQueue k i)))"
    by (rule u16_incr [of _ "queueLen (g_allQueue k i)"]) (use d(6) space in simp)
  have len: "length ?ms = Suc (length ms)" by simp
  have "queue_rel k' i (aq_put front (written ty buf n) (aq_use_wgrant a))"
  proof (cases "rs = []")
    case True
    then show ?thesis
      using d k'(3,4) q'(2) meta inc len g a
      by (simp add: queue_rel_def rw_list_def rw_cnt_upd_def ring_meta split del: if_split)
  next
    case False
    then show ?thesis
      using d k'(3,4) q'(2) meta len g a
      by (simp add: queue_rel_def rw_list_def split del: if_split)
  qed
  moreover have "queue_rel k' j b = queue_rel k j b" if "j \<noteq> i" for j b
    using that k'(3,4) by (intro queue_rel_cong) (simp_all add: rw_list_def)
  ultimately show ?thesis using that k'(1,2) by blast
qed

lemma transfer_get:
  assumes inv: "kernel_inv k" and rel: "queue_rel k i a" and g: "0 < rgrants a"
    and ty: "read_type ty" and rd: "readable ty (hd (msgs a))" "read_ok n (g_allQueue k i)"
  obtains k' where "queue_transfer i ty buf n k = (received ty (hd (msgs a)) buf n, k')" "kernel_inv k'"
    "queue_rel k' i (aq_get (aq_use_rgrant a))" "\<And>j b. j \<noteq> i \<Longrightarrow> queue_rel k' j b = queue_rel k j b"
proof -
  obtain c ms0 rs ws r wg where a: "a = AQ c ms0 rs ws r wg" by (cases a) auto
  have "ms0 \<noteq> []" using queue_relD(6) [OF rel [unfolded a]] g a by auto
  then obtain m ms where ms: "ms0 = m # ms" by (cases ms0) auto
  note d = queue_relD [OF rel [unfolded a ms]]
  have rt: "OS_QUEUE_OPERATE_GET ty = OS_QUEUE_READ_HEAD" "OS_QUEUE_IS_READ ty"
    using ty by (simp_all add: read_type_def OS_QUEUE_IS_READ_def)
  have rm: "readable ty m" using rd(1) a ms by simp
  obtain q' where q': "OsQueueBufferOperate ty buf n (g_allQueue k i) = (fst (received ty m buf n), snd (received ty m buf n), q')"
    "ring q' ms" "q_meta q' = q_meta (g_allQueue k i)"
    using ring_read [OF d(2) rt rm rd(2)] by blast
  have o: "1 = 1 - OS_QUEUE_READ_WRITE_GET ty" using ty by (simp add: read_type_def)
  from queue_transfer_effect [OF inv q'(1) o]
  obtain k' where k': "queue_transfer i ty buf n k = (received ty m buf n, k')" "kernel_inv k'"
    "g_allQueue k' = (g_allQueue k)(i := if pend k (rw_list 1 i) = [] then rw_cnt_upd 1 (\<lambda>c. c + 1) q' else q')"
    "\<And>l. is_wait_list l \<Longrightarrow> pend k' l = (if l = rw_list 1 i then tl (pend k l) else pend k l)"
    using prod.collapse [of "received ty m buf n"] by auto
  have meta: "queueState q' = queueState (g_allQueue k i)" "queueLen q' = queueLen (g_allQueue k i)"
    "readableCnt q' = readableCnt (g_allQueue k i)" "writableCnt q' = writableCnt (g_allQueue k i)"
    using q'(3) by (simp_all add: q_meta_def)
  have inc: "unat (writableCnt (g_allQueue k i) + 1) = Suc (unat (writableCnt (g_allQueue k i)))"
    by (rule u16_incr [of _ "queueLen (g_allQueue k i)"]) (use d(3,7) in simp)
  have "queue_rel k' i (aq_get (aq_use_rgrant a))"
  proof (cases "ws = []")
    case True
    then show ?thesis
      using d k'(3,4) q'(2) meta inc g a ms
      by (simp add: queue_rel_def rw_list_def rw_cnt_upd_def ring_meta split del: if_split)
  next
    case False
    then show ?thesis
      using d k'(3,4) q'(2) meta g a ms
      by (simp add: queue_rel_def rw_list_def split del: if_split)
  qed
  moreover have "queue_rel k' j b = queue_rel k j b" if "j \<noteq> i" for j b
    using that k'(3,4) by (intro queue_rel_cong) (simp_all add: rw_list_def)
  ultimately show ?thesis using that [of k'] k'(1,2) a ms by simp
qed

section \<open>Refinement\<close>

lemma u16_to_u32: "unat (ucast (x :: u16) :: u32) = unat x"
  by (rule unat_ucast_up) simp

lemma slot_room: "4 < unat (s :: u16) \<Longrightarrow> unat ((ucast s :: u32) - 4) = unat s - 4"
proof -
  assume "4 < unat s"
  then have "(4 :: u32) \<le> ucast s" by (simp add: word_le_nat_alt u16_to_u32)
  then show ?thesis by (simp add: unat_sub u16_to_u32)
qed

lemma kernel_inv_block:
  assumes "can_block k" "is_wait_list l"
  shows "kernel_inv (LOS_Schedule (OsSchedTaskWait l n k))"
  using kernel_inv_Wait(1) [OF assms] by (rule kernel_inv_Schedule)

definition put_post :: "nat \<Rightarrow> bool \<Rightarrow> qmsg \<Rightarrow> u8 list \<times> u32 \<Rightarrow> u32 \<Rightarrow> kernel \<Rightarrow> aqueue \<Rightarrow> outcome \<times> queue_result \<Rightarrow> bool" where
  "put_post i front m buf timeOut k a = (\<lambda>(res, out, k').
     (if \<not> aq_full a then res = Ret LOS_OK \<and> queue_rel k' i (aq_put front m a)
      else if timeOut = LOS_NO_WAIT then res = Ret LOS_ERRNO_QUEUE_ISFULL \<and> k' = k
      else res = Blocked \<and> queue_rel k' i (aq_wait_write (runTask k) a)) \<and>
     out = buf \<and> kernel_inv k' \<and> (\<forall>j b. j \<noteq> i \<longrightarrow> queue_rel k' j b = queue_rel k j b))"

definition get_post :: "nat \<Rightarrow> u32 \<Rightarrow> u8 list \<Rightarrow> u32 \<Rightarrow> u32 \<Rightarrow> kernel \<Rightarrow> aqueue \<Rightarrow> outcome \<times> queue_result \<Rightarrow> bool" where
  "get_post i ty buf n timeOut k a = (\<lambda>(res, out, k').
     (if \<not> aq_empty a
      then res = Ret LOS_OK \<and> out = received ty (hd (msgs a)) buf n \<and> queue_rel k' i (aq_get a)
      else if timeOut = LOS_NO_WAIT then res = Ret LOS_ERRNO_QUEUE_ISEMPTY \<and> k' = k \<and> out = (buf, n)
      else res = Blocked \<and> out = (buf, n) \<and> queue_rel k' i (aq_wait_read (runTask k) a)) \<and>
     kernel_inv k' \<and> (\<forall>j b. j \<noteq> i \<longrightarrow> queue_rel k' j b = queue_rel k j b))"

lemma OsQueueOperate_put:
  assumes inv: "kernel_inv k" and cb: "timeOut \<noteq> LOS_NO_WAIT \<Longrightarrow> can_block k \<and> g_losTaskLock k = 0"
    and rel: "queue_rel k (unat qid) a"
    and ty: "write_type front ty" and w: "write_ok ty buf n (g_allQueue k (unat qid))"
  shows "put_post (unat qid) front (written ty buf n) (buf, n) timeOut k a (OsQueueOperate qid ty buf n timeOut k)"
proof -
  let ?i = "unat qid" and ?q = "g_allQueue k (unat qid)"
  obtain c ms rs ws r wg where a: "a = AQ c ms rs ws r wg" by (cases a) auto
  note d = queue_relD [OF rel [unfolded a]]
  have nr: "\<not> OS_QUEUE_IS_READ ty" "OS_QUEUE_READ_WRITE_GET ty = 1"
    using ty by (simp_all add: write_type_def OS_QUEUE_IS_READ_def)
  have chk: "OsQueueOperateParamCheck ?q ty n = LOS_OK"
    using d(1) w nr slot_room [OF ringD(1) [OF d(2)]]
    by (auto simp: OsQueueOperateParamCheck_def write_ok_def word_less_nat_alt)
  have "writableCnt ?q = 0 \<longleftrightarrow> unat (writableCnt ?q) = 0" by (simp add: unat_eq_0)
  moreover have "length ms + wg \<ge> c \<longleftrightarrow> unat (writableCnt ?q) = 0" using d(7) by linarith
  ultimately have full: "aq_full a \<longleftrightarrow> writableCnt ?q = 0" using a by (simp add: aq_full_def)
  show ?thesis
  proof (cases "writableCnt ?q = 0")
    case True
    let ?k = "LOS_Schedule (OsSchedTaskWait (rw_list 1 ?i) timeOut k)"
    have "queue_rel ?k ?i (aq_wait_write (runTask k) a)"
      using d True a by (simp add: queue_rel_def rw_list_def)
    moreover have "queue_rel ?k j b = queue_rel k j b" if "j \<noteq> ?i" for j b
      using that by (intro queue_rel_cong) (simp_all add: rw_list_def)
    ultimately show ?thesis
      using True full chk nr inv cb kernel_inv_block [OF _ wait_rw_list]
      by (simp add: put_post_def OsQueueOperate_def Let_def rw_cnt_def)
  next
    case False
    let ?k = "upd_queue ?i (rw_cnt_upd 1 (\<lambda>c. c - 1)) k"
    have rel1: "queue_rel ?k ?i (AQ c ms rs ws r (wg + 1))"
      by (rule take_wgrant [OF rel [unfolded a] False])
    have w1: "write_ok ty buf n (g_allQueue ?k ?i)" using w by (simp add: write_ok_def rw_cnt_upd_def)
    obtain k' where k': "queue_transfer ?i ty buf n ?k = ((buf, n), k')" "kernel_inv k'"
      "queue_rel k' ?i (aq_put front (written ty buf n) (aq_use_wgrant (AQ c ms rs ws r (wg + 1))))"
      "\<And>j b. j \<noteq> ?i \<Longrightarrow> queue_rel k' j b = queue_rel ?k j b"
      using transfer_put [OF kernel_inv_upd_queue [OF inv] rel1 _ ty w1] by auto
    have "queue_rel ?k j b = queue_rel k j b" if "j \<noteq> ?i" for j b
      using that by (intro queue_rel_cong) simp_all
    then show ?thesis
      using False full chk nr k' a by (simp add: put_post_def OsQueueOperate_def Let_def rw_cnt_def)
  qed
qed

lemma OsQueueOperate_get:
  assumes cb: "can_block k" and rel: "queue_rel k (unat qid) a" and lock: "g_losTaskLock k = 0"
    and ty: "read_type ty" and rd: "read_ok n (g_allQueue k (unat qid))"
    and hd: "\<not> aq_empty a \<Longrightarrow> readable ty (hd (msgs a))"
  shows "get_post (unat qid) ty buf n timeOut k a (OsQueueOperate qid ty buf n timeOut k)"
proof -
  let ?i = "unat qid" and ?q = "g_allQueue k (unat qid)"
  have inv: "kernel_inv k" using cb by (simp add: can_block_def)
  obtain c ms rs ws r wg where a: "a = AQ c ms rs ws r wg" by (cases a) auto
  note d = queue_relD [OF rel [unfolded a]]
  have nr: "OS_QUEUE_IS_READ ty" "\<not> OS_QUEUE_IS_WRITE ty" "OS_QUEUE_READ_WRITE_GET ty = 0"
    using ty by (simp_all add: read_type_def OS_QUEUE_IS_READ_def OS_QUEUE_IS_WRITE_def)
  have chk: "OsQueueOperateParamCheck ?q ty n = LOS_OK"
    using d(1) rd nr slot_room [OF ringD(1) [OF d(2)]]
    by (auto simp: OsQueueOperateParamCheck_def read_ok_def word_less_nat_alt)
  have "readableCnt ?q = 0 \<longleftrightarrow> unat (readableCnt ?q) = 0" by (simp add: unat_eq_0)
  moreover have "length ms \<le> r \<longleftrightarrow> unat (readableCnt ?q) = 0" using d(6) by linarith
  ultimately have empt: "aq_empty a \<longleftrightarrow> readableCnt ?q = 0" using a by (simp add: aq_empty_def)
  show ?thesis
  proof (cases "readableCnt ?q = 0")
    case True
    let ?k = "LOS_Schedule (OsSchedTaskWait (rw_list 0 ?i) timeOut k)"
    have "queue_rel ?k ?i (aq_wait_read (runTask k) a)"
      using d True a by (simp add: queue_rel_def rw_list_def)
    moreover have "queue_rel ?k j b = queue_rel k j b" if "j \<noteq> ?i" for j b
      using that by (intro queue_rel_cong) (simp_all add: rw_list_def)
    ultimately show ?thesis
      using True empt chk nr lock inv kernel_inv_block [OF cb wait_rw_list]
      by (simp add: get_post_def OsQueueOperate_def Let_def rw_cnt_def)
  next
    case False
    let ?k = "upd_queue ?i (rw_cnt_upd 0 (\<lambda>c. c - 1)) k"
    have rel1: "queue_rel ?k ?i (AQ c ms rs ws (r + 1) wg)"
      by (rule take_rgrant [OF rel [unfolded a] False])
    have rd1: "read_ok n (g_allQueue ?k ?i)" using rd by (simp add: read_ok_def rw_cnt_upd_def)
    have hd1: "readable ty (hd (msgs (AQ c ms rs ws (r + 1) wg)))" using hd False empt a by simp
    obtain k' where k': "queue_transfer ?i ty buf n ?k = (received ty (hd ms) buf n, k')" "kernel_inv k'"
      "queue_rel k' ?i (aq_get (aq_use_rgrant (AQ c ms rs ws (r + 1) wg)))"
      "\<And>j b. j \<noteq> ?i \<Longrightarrow> queue_rel k' j b = queue_rel ?k j b"
      using transfer_get [OF kernel_inv_upd_queue [OF inv] rel1 _ ty hd1 rd1, of buf] by auto
    have "queue_rel ?k j b = queue_rel k j b" if "j \<noteq> ?i" for j b
      using that by (intro queue_rel_cong) simp_all
    then show ?thesis
      using False empt chk nr k' a by (simp add: get_post_def OsQueueOperate_def Let_def rw_cnt_def)
  qed
qed

lemmas op_type_defs = OS_QUEUE_OPERATE_TYPE_def OS_QUEUE_READ_WRITE_GET_def OS_QUEUE_OPERATE_GET_def
  OS_QUEUE_IS_POINT_def OS_QUEUE_READ_HEAD_def OS_QUEUE_WRITE_HEAD_def OS_QUEUE_WRITE_TAIL_def tst_def

text \<open>
  A write refines the abstract queue.  \<^verbatim>\<open>LOS_QueueWriteCopy\<close> (at the tail) and
  \<^verbatim>\<open>LOS_QueueWriteHeadCopy\<close> (at the head), called by a task that may block, with a message
  that fits a slot, store exactly the message when the queue is not full and grant it to the
  reader that has waited longest, if any; on a full queue they return
  \<^verbatim>\<open>LOS_ERRNO_QUEUE_ISFULL\<close> and change nothing, or block the caller at the end of the
  writers.  The kernel invariants hold afterwards, and no other queue changes.
\<close>

lemma queue_write_refines:
  assumes "can_block k" "unat qid < LOSCFG_BASE_IPC_QUEUE_LIMIT" "queue_rel k (unat qid) a"
    and "\<not> OS_INT_ACTIVE k" "g_losTaskLock k = 0" "n \<noteq> 0" "unat n \<le> length buf"
    and "unat n + 4 \<le> unat (queueSize (g_allQueue k (unat qid)))"
  shows "put_post (unat qid) False (CopyMsg (take (unat n) buf)) (buf, n) timeOut k a
      (LOS_QueueWriteCopy qid False buf n timeOut k) \<and>
    put_post (unat qid) True (CopyMsg (take (unat n) buf)) (buf, n) timeOut k a
      (LOS_QueueWriteHeadCopy qid False buf n timeOut k)"
proof -
  have inv: "kernel_inv k" using assms(1) by (simp add: can_block_def)
  have chk: "OsQueueWriteParameterCheck qid False n timeOut k = LOS_OK"
    using assms by (simp add: OsQueueWriteParameterCheck_def)
  have ty: "write_type False (OS_QUEUE_OPERATE_TYPE 1 1 0)" "write_type True (OS_QUEUE_OPERATE_TYPE 1 0 0)"
    and np: "\<not> OS_QUEUE_IS_POINT (OS_QUEUE_OPERATE_TYPE 1 1 0)" "\<not> OS_QUEUE_IS_POINT (OS_QUEUE_OPERATE_TYPE 1 0 0)"
    by (simp_all add: write_type_def op_type_defs)
  have w: "write_ok (OS_QUEUE_OPERATE_TYPE 1 1 0) buf n (g_allQueue k (unat qid))"
    "write_ok (OS_QUEUE_OPERATE_TYPE 1 0 0) buf n (g_allQueue k (unat qid))"
    using assms(7,8) np by (simp_all add: write_ok_def)
  show ?thesis
    using OsQueueOperate_put [OF inv _ assms(3) ty(1) w(1), of timeOut]
      OsQueueOperate_put [OF inv _ assms(3) ty(2) w(2), of timeOut] assms(1,5) chk np
    by (simp add: LOS_QueueWriteCopy_def LOS_QueueWriteHeadCopy_def written_def)
qed

text \<open>
  A read refines the abstract queue.  \<^verbatim>\<open>LOS_QueueReadCopy\<close> (\<open>pt\<close> is 0) and
  \<^verbatim>\<open>LOS_QueueRead\<close> (\<open>pt\<close> is 1, for pointers), called by a task that may block with a buffer
  that is large enough, deliver the oldest message and its size when one is free, remove it,
  and grant its slot to the writer that has waited longest, if any; on an empty queue they
  return \<^verbatim>\<open>LOS_ERRNO_QUEUE_ISEMPTY\<close> and change nothing, or block the caller at the end of
  the readers.  The kernel invariants hold afterwards, and no other queue changes.
\<close>

lemma queue_read_refines:
  assumes "can_block k" "unat qid < LOSCFG_BASE_IPC_QUEUE_LIMIT" "queue_rel k (unat qid) a"
    and "\<not> OS_INT_ACTIVE k" "g_losTaskLock k = 0" "n \<noteq> 0" "n \<le> SECUREC_MEM_MAX_LEN"
    and "unat (queueSize (g_allQueue k (unat qid))) \<le> unat n + 4" "pt \<in> {0, 1}"
    and "\<not> aq_empty a \<Longrightarrow> readable (OS_QUEUE_OPERATE_TYPE 0 0 pt) (hd (msgs a))"
  shows "get_post (unat qid) (OS_QUEUE_OPERATE_TYPE 0 0 pt) buf n timeOut k a
    (if pt = 0 then LOS_QueueReadCopy qid False False buf n timeOut k else LOS_QueueRead qid False buf n timeOut k)"
proof -
  have chk: "OsQueueReadParameterCheck qid False False n timeOut k = LOS_OK"
    using assms by (simp add: OsQueueReadParameterCheck_def)
  have ty: "read_type (OS_QUEUE_OPERATE_TYPE 0 0 pt)"
    using assms(9) by (auto simp: read_type_def op_type_defs)
  have rd: "read_ok n (g_allQueue k (unat qid))" using assms(7,8) by (simp add: read_ok_def)
  show ?thesis
    using OsQueueOperate_get [OF assms(1,3,5) ty rd assms(10), of buf timeOut] chk assms(9)
    by (auto simp: LOS_QueueReadCopy_def LOS_QueueRead_def)
qed

text \<open>
  C17: A blocked call completes when its task runs again.  If the wait has timed out, the call
  returns \<^verbatim>\<open>LOS_ERRNO_QUEUE_TIMEOUT\<close> and leaves the queue alone; otherwise the task was
  granted a slot or a message, the ring has it although other tasks may have run in between,
  and the call uses it up and returns \<^verbatim>\<open>LOS_OK\<close>.
\<close>

theorem queue_resume_refines:
  assumes "kernel_inv k" "queue_rel k (unat qid) a"
  shows "if tst (status k t) OS_TASK_STATUS_TIMEOUT
    then OsQueueOperate_resume t qid ty buf n k =
      (LOS_ERRNO_QUEUE_TIMEOUT, (buf, n), clr_status t OS_TASK_STATUS_TIMEOUT k) \<and>
      queue_rel (snd (snd (OsQueueOperate_resume t qid ty buf n k))) (unat qid) a
    else (case OsQueueOperate_resume t qid ty buf n k of (res, out, k') \<Rightarrow>
      (write_type front ty \<and> write_ok ty buf n (g_allQueue k (unat qid)) \<and> 0 < wgrants a \<longrightarrow>
        res = LOS_OK \<and> kernel_inv k' \<and> queue_rel k' (unat qid) (aq_put front (written ty buf n) (aq_use_wgrant a))) \<and>
      (read_type ty \<and> read_ok n (g_allQueue k (unat qid)) \<and> readable ty (hd (msgs a)) \<and> 0 < rgrants a \<longrightarrow>
        res = LOS_OK \<and> out = received ty (hd (msgs a)) buf n \<and> kernel_inv k' \<and>
        queue_rel k' (unat qid) (aq_get (aq_use_rgrant a))))"
proof (cases "tst (status k t) OS_TASK_STATUS_TIMEOUT")
  case True
  have "queue_rel (clr_status t OS_TASK_STATUS_TIMEOUT k) (unat qid) a = queue_rel k (unat qid) a"
    by (rule queue_rel_cong) (simp_all add: clr_status_def upd_tcb_def)
  then show ?thesis using True assms(2) by (simp add: OsQueueOperate_resume_def consume_timeout_def)
next
  case False
  have res: "OsQueueOperate_resume t qid ty buf n k = (LOS_OK, queue_transfer (unat qid) ty buf n k)"
    using False by (simp add: OsQueueOperate_resume_def consume_timeout_def)
  have w: "case queue_transfer (unat qid) ty buf n k of (out, k') \<Rightarrow>
      kernel_inv k' \<and> queue_rel k' (unat qid) (aq_put front (written ty buf n) (aq_use_wgrant a))"
    if h: "write_type front ty" "write_ok ty buf n (g_allQueue k (unat qid))" "0 < wgrants a"
    by (rule transfer_put [OF assms h(3,1,2)]) simp
  have r: "case queue_transfer (unat qid) ty buf n k of (out, k') \<Rightarrow>
      out = received ty (hd (msgs a)) buf n \<and> kernel_inv k' \<and> queue_rel k' (unat qid) (aq_get (aq_use_rgrant a))"
    if h: "read_type ty" "read_ok n (g_allQueue k (unat qid))" "readable ty (hd (msgs a))" "0 < rgrants a"
    by (rule transfer_get [OF assms h(4,1,3,2), of buf]) simp
  show ?thesis
    using False w r unfolding res by (auto split: prod.splits)
qed

section \<open>Examples\<close>

text \<open>Queue 0 has three slots of twelve bytes and holds the message \<open>[7, 9]\<close>.\<close>

definition demo_queue :: kernel where
  "demo_queue = upd_queue 0 (\<lambda>q. q\<lparr>
     queueMem := replicate 12 0 @ [7, 9] @ replicate 6 0 @ [2, 0, 0, 0] @ replicate 12 0, queueState := 1,
     queueLen := 3, queueSize := 12, queueHead := 1, queueTail := 2, readableCnt := 1, writableCnt := 2\<rparr>) demo_kernel"

lemma demo_queue_rel: "queue_rel demo_queue 0 (AQ 3 [CopyMsg [7, 9]] [] [] 0 0)"
  by (simp add: queue_rel_def demo_queue_def demo_pend ring_def OS_QUEUE_UNUSED_def sub_bytes_def
      numeral_2_eq_2 [symmetric])

lemma demo_queue_block: "can_block demo_queue"
proof -
  have "can_block demo_kernel"
    using demo_inv by (simp add: can_block_def demo_fields demo_status flag_simps)
  then show ?thesis unfolding demo_queue_def by (rule can_block_upd_queue)
qed

lemma demo_queue_fields:
  "g_losTaskLock demo_queue = 0" "\<not> OS_INT_ACTIVE demo_queue" "queueSize (g_allQueue demo_queue 0) = 12"
  "runTask demo_queue = 1"
  by (simp_all add: demo_queue_def upd_queue_def demo_fields OS_INT_ACTIVE_def)

text \<open>
  C16: Message queues refine the abstract queue.  Called by a task that may block, outside
  interrupts and with the scheduler unlocked.  \<^verbatim>\<open>LOS_QueueWriteCopy\<close> (at the tail) and
  \<^verbatim>\<open>LOS_QueueWriteHeadCopy\<close> (at the head), with a message that fits a slot, store exactly the
  message when the queue is not full and grant it to the reader that has waited longest, if any;
  on a full queue they return \<^verbatim>\<open>LOS_ERRNO_QUEUE_ISFULL\<close> and change nothing, or block the caller
  at the end of the writers.  \<^verbatim>\<open>LOS_QueueReadCopy\<close> (\<open>pt\<close> is 0) and \<^verbatim>\<open>LOS_QueueRead\<close> (\<open>pt\<close> is 1, for
  pointers), with a buffer that is large enough, deliver the oldest message and its size, remove it
  and grant its slot to the writer that has waited longest; on an empty queue they return
  \<^verbatim>\<open>LOS_ERRNO_QUEUE_ISEMPTY\<close> and change nothing, or block the caller at the end of the readers.
  The kernel invariants hold afterwards, and no other queue changes.
\<close>

theorem queue_refines:
  assumes "can_block k" "unat qid < LOSCFG_BASE_IPC_QUEUE_LIMIT" "queue_rel k (unat qid) a"
    and "\<not> OS_INT_ACTIVE k" "g_losTaskLock k = 0"
  shows "(n \<noteq> 0 \<and> unat n \<le> length buf \<and> unat n + 4 \<le> unat (queueSize (g_allQueue k (unat qid))) \<longrightarrow>
      put_post (unat qid) False (CopyMsg (take (unat n) buf)) (buf, n) timeOut k a
        (LOS_QueueWriteCopy qid False buf n timeOut k) \<and>
      put_post (unat qid) True (CopyMsg (take (unat n) buf)) (buf, n) timeOut k a
        (LOS_QueueWriteHeadCopy qid False buf n timeOut k)) \<and>
    (n \<noteq> 0 \<and> n \<le> SECUREC_MEM_MAX_LEN \<and> unat (queueSize (g_allQueue k (unat qid))) \<le> unat n + 4 \<and> pt \<in> {0, 1} \<and>
        (\<not> aq_empty a \<longrightarrow> readable (OS_QUEUE_OPERATE_TYPE 0 0 pt) (hd (msgs a))) \<longrightarrow>
      get_post (unat qid) (OS_QUEUE_OPERATE_TYPE 0 0 pt) buf n timeOut k a
        (if pt = 0 then LOS_QueueReadCopy qid False False buf n timeOut k else LOS_QueueRead qid False buf n timeOut k))"
  using queue_write_refines [OF assms, of n buf timeOut] queue_read_refines [OF assms, of n pt buf timeOut] by blast

theorem queue_refines_witness:
  "put_post 0 False (CopyMsg [1, 2, 3]) ([1, 2, 3], 3) 0 demo_queue (AQ 3 [CopyMsg [7, 9]] [] [] 0 0)
     (LOS_QueueWriteCopy 0 False [1, 2, 3] 3 0 demo_queue) \<and>
   get_post 0 0 [5, 5, 5, 5, 5, 5, 5, 5] 8 0 demo_queue (AQ 3 [CopyMsg [7, 9]] [] [] 0 0)
     (LOS_QueueReadCopy 0 False False [5, 5, 5, 5, 5, 5, 5, 5] 8 0 demo_queue)"
  using queue_refines [of demo_queue 0 "AQ 3 [CopyMsg [7, 9]] [] [] 0 0" 3 "[1, 2, 3]" 0 0]
    queue_refines [of demo_queue 0 "AQ 3 [CopyMsg [7, 9]] [] [] 0 0" 8 "[5, 5, 5, 5, 5, 5, 5, 5]" 0 0]
    demo_queue_block demo_queue_rel demo_queue_fields
  by (simp add: LOSCFG_BASE_IPC_QUEUE_LIMIT_def SECUREC_MEM_MAX_LEN_def op_type_defs)

text \<open>The same queue, with one slot granted to a writer that has been woken.\<close>

definition demo_granted :: kernel where
  "demo_granted = upd_queue 0 (\<lambda>q. q\<lparr>writableCnt := 1\<rparr>) demo_queue"

theorem queue_resume_refines_witness:
  "case OsQueueOperate_resume 1 0 3 [4] 1 demo_granted of (res, out, k') \<Rightarrow>
     res = LOS_OK \<and> kernel_inv k' \<and> queue_rel k' 0 (AQ 3 [CopyMsg [7, 9], CopyMsg [4]] [] [] 0 0)"
proof -
  have kv: "kernel_inv demo_granted"
    unfolding demo_granted_def using demo_queue_block by (intro kernel_inv_upd_queue) (simp add: can_block_def)
  have rel: "queue_rel demo_granted 0 (AQ 3 [CopyMsg [7, 9]] [] [] 0 1)"
    using queue_relD [OF demo_queue_rel] by (simp add: queue_rel_def demo_granted_def ring_meta demo_queue_def)
  have st: "\<not> tst (status demo_granted 1) OS_TASK_STATUS_TIMEOUT"
    by (simp add: demo_granted_def demo_queue_def demo_fields demo_status flag_simps)
  have ty: "write_type False 3" "written 3 [4] 1 = CopyMsg [4]"
    by (simp_all add: write_type_def op_type_defs written_def)
  have w: "write_ok 3 [4] 1 (g_allQueue demo_granted 0)"
    by (simp add: write_ok_def demo_granted_def demo_queue_fields op_type_defs)
  show ?thesis
    using queue_resume_refines [OF kv, of 0 "AQ 3 [CopyMsg [7, 9]] [] [] 0 1" 1 3 "[4]" 1 False] rel st ty w
    by (auto split: prod.splits)
qed

end
