(* ===== verification/Los_Task.thy ===== *)
theory Los_Task
  imports Sched_Client
begin

text \<open>
  \<^verbatim>\<open>LiteOS/kernel/src/los_task.c\<close> with the initial stack frame of
  \<^verbatim>\<open>los_context.c\<close> and the conversions of \<^verbatim>\<open>los_tick.c\<close>: creation, suspension,
  deletion, delays and priorities of tasks.  \<open>LOS_TaskCreateOnly\<close> allocates between two
  stretches of code that run with interrupts off; the model runs them one after the other.
  The diagnostic output and the compiled-out monitor and usage counters are left out.
\<close>

abbreviation "LOS_ERRNO_TSK_NO_MEMORY \<equiv> LOS_ERRNO_OS_FATAL 2 0"
abbreviation "LOS_ERRNO_TSK_PTR_NULL \<equiv> LOS_ERRNO_OS_ERROR 2 1"
abbreviation "LOS_ERRNO_TSK_PRIOR_ERROR \<equiv> LOS_ERRNO_OS_ERROR 2 3"
abbreviation "LOS_ERRNO_TSK_ENTRY_NULL \<equiv> LOS_ERRNO_OS_ERROR 2 4"
abbreviation "LOS_ERRNO_TSK_NAME_EMPTY \<equiv> LOS_ERRNO_OS_ERROR 2 5"
abbreviation "LOS_ERRNO_TSK_STKSZ_TOO_SMALL \<equiv> LOS_ERRNO_OS_ERROR 2 6"
abbreviation "LOS_ERRNO_TSK_ID_INVALID \<equiv> LOS_ERRNO_OS_ERROR 2 7"
abbreviation "LOS_ERRNO_TSK_ALREADY_SUSPENDED \<equiv> LOS_ERRNO_OS_ERROR 2 8"
abbreviation "LOS_ERRNO_TSK_NOT_SUSPENDED \<equiv> LOS_ERRNO_OS_ERROR 2 9"
abbreviation "LOS_ERRNO_TSK_NOT_CREATED \<equiv> LOS_ERRNO_OS_ERROR 2 0xa"
abbreviation "LOS_ERRNO_TSK_DELAY_IN_INT \<equiv> LOS_ERRNO_OS_FATAL 2 0xd"
abbreviation "LOS_ERRNO_TSK_DELAY_IN_LOCK \<equiv> LOS_ERRNO_OS_ERROR 2 0xe"
abbreviation "LOS_ERRNO_TSK_TCB_UNAVAILABLE \<equiv> LOS_ERRNO_OS_ERROR 2 0x11"
abbreviation "LOS_ERRNO_TSK_OPERATE_IDLE \<equiv> LOS_ERRNO_OS_ERROR 2 0x14"
abbreviation "LOS_ERRNO_TSK_SUSPEND_LOCKED \<equiv> LOS_ERRNO_OS_FATAL 2 0x15"
abbreviation "LOS_ERRNO_TSK_STKSZ_TOO_LARGE \<equiv> LOS_ERRNO_OS_ERROR 2 0x20"
abbreviation "LOS_ERRNO_TSK_SUSPEND_SWTMR_NOT_ALLOWED \<equiv> LOS_ERRNO_OS_ERROR 2 0x21"
abbreviation "LOS_ERRNO_TSK_OPERATE_SWTMR \<equiv> LOS_ERRNO_OS_ERROR 2 0x22"

definition LOSCFG_SYS_HEAP_SIZE :: u32 where "LOSCFG_SYS_HEAP_SIZE = 0x8000"
definition LOSCFG_BASE_CORE_TSK_IDLE_STACK_SIZE :: u32 where "LOSCFG_BASE_CORE_TSK_IDLE_STACK_SIZE = 0x500"
definition LOSCFG_BASE_CORE_TSK_DEFAULT_STACK_SIZE :: u32 where "LOSCFG_BASE_CORE_TSK_DEFAULT_STACK_SIZE = 0x2D0"
definition LOSCFG_BASE_CORE_TSK_MIN_STACK_SIZE :: u32 where "LOSCFG_BASE_CORE_TSK_MIN_STACK_SIZE = 0x130"
definition OS_TASK_STACK_ADDR_ALIGN :: u32 where "OS_TASK_STACK_ADDR_ALIGN = 8"
definition OS_TASK_MAGIC_WORD :: u32 where "OS_TASK_MAGIC_WORD = 0xCCCCCCCC"
definition OS_TASK_STACK_INIT :: u32 where "OS_TASK_STACK_INIT = 0xCACACACA"
definition INITIAL_MSTATUS :: u32 where "INITIAL_MSTATUS = 0x7880"

text \<open>Addresses the linker assigns.\<close>

record symbols =
  sym_OsIdleTask :: u32
  sym_OsSwtmrTask :: u32
  sym_OsTaskEntry :: u32
  sym_HalSysExit :: u32

record TSK_INIT_PARAM_S =
  pfnTaskEntry :: u32
  usTaskPrio :: u16
  param_uwArg :: u32
  uwStackSize :: u32
  pcName :: "string option"

section \<open>Ticks\<close>

definition OsTickHandler :: "(kernel \<Rightarrow> bool \<times> kernel) \<Rightarrow> kernel \<Rightarrow> kernel" where
  "OsTickHandler swtmrScan k = LOS_SchedTickHandler swtmrScan (OsSchedUpdateSchedTimeBase k)"

definition LOS_SysCycleGet :: "kernel \<Rightarrow> u64 \<times> kernel" where
  "LOS_SysCycleGet k = OsGetCurrSchedTimeCycle k"

definition LOS_TickCountGet :: "kernel \<Rightarrow> u64 \<times> kernel" where
  "LOS_TickCountGet k = (let (c, k1) = OsGetCurrSchedTimeCycle k in (c div ucast (OS_CYCLE_PER_TICK k1), k1))"

definition LOS_MS2Tick :: "u32 \<Rightarrow> u32" where
  "LOS_MS2Tick millisec =
     (if millisec = OS_NULL_INT then OS_NULL_INT
      else ucast ((ucast millisec :: u64) * ucast LOSCFG_BASE_CORE_TICK_PER_SECOND div 1000))"

definition LOS_Tick2MS :: "u32 \<Rightarrow> u32" where
  "LOS_Tick2MS ticks = ucast ((ucast ticks :: u64) * 1000 div ucast LOSCFG_BASE_CORE_TICK_PER_SECOND)"

section \<open>The initial stack frame\<close>

text \<open>\<^verbatim>\<open>TaskContext\<close> is 30 words (the floating point registers are compiled out).  The result
  is the frame's address and the words written, in order.\<close>

definition CONTEXT_WORDS :: nat where "CONTEXT_WORDS = 30"

definition HalTskStackInit :: "symbols \<Rightarrow> u32 \<Rightarrow> u32 \<Rightarrow> u32 \<Rightarrow> u32 \<times> (u32 \<times> u32) list" where
  "HalTskStackInit ld tid stkSize topStack =
     (let stk = (topStack + stkSize + 4) AND NOT (4 - 1);
          context = stk - of_nat (4 * CONTEXT_WORDS)
      in (context,
          [(topStack, OS_TASK_MAGIC_WORD)] @
          map (\<lambda>index. (context + of_nat (4 * index), OS_TASK_STACK_INIT)) [1..<CONTEXT_WORDS] @
          [(context + 4, sym_HalSysExit ld), (context + 28, tid), (context, sym_OsTaskEntry ld),
           (context + 116, INITIAL_MSTATUS)]))"

section \<open>Creation\<close>

definition OsCheckTaskIDValid :: "u32 \<Rightarrow> kernel \<Rightarrow> u32" where
  "OsCheckTaskIDValid tid k =
     (if tid = g_idleTaskID k then LOS_ERRNO_TSK_OPERATE_IDLE
      else if tid = g_swtmrTaskID k then LOS_ERRNO_TSK_SUSPEND_SWTMR_NOT_ALLOWED
      else if tid \<ge> g_taskMaxNum k then LOS_ERRNO_TSK_ID_INVALID
      else LOS_OK)"

text \<open>The stacks go back to the allocator; the control blocks to the head of the free list.\<close>

function OsRecyleFinishedTask :: "kernel \<Rightarrow> kernel" where
  "OsRecyleFinishedTask k =
     (case pend k RecycleTask of
        [] \<Rightarrow> k
      | t # _ \<Rightarrow> OsRecyleFinishedTask
                   (upd_tcb t (\<lambda>c. c\<lparr>topOfStack := 0\<rparr>) (pend_head FreeTask t (pend_del t k))))"
  by pat_completeness auto
termination
  by (relation "measure (\<lambda>k. length (pend k RecycleTask))") (simp_all add: less_Suc_eq_le)

declare OsRecyleFinishedTask.simps [simp del]

definition LOS_Align :: "u32 \<Rightarrow> u32 \<Rightarrow> u32" where
  "LOS_Align addr boundary =
     (addr + (if addr + (boundary - 1) > addr then boundary - 1 else 0)) AND NOT (boundary - 1)"

text \<open>The check may round up the stack size in the caller's parameter block.\<close>

definition OsTaskInitParamCheck ::
  "symbols \<Rightarrow> TSK_INIT_PARAM_S option \<Rightarrow> u32 \<times> TSK_INIT_PARAM_S option" where
  "OsTaskInitParamCheck ld param =
     (case param of
        None \<Rightarrow> (LOS_ERRNO_TSK_PTR_NULL, None)
      | Some p \<Rightarrow>
          if pcName p = None then (LOS_ERRNO_TSK_NAME_EMPTY, param)
          else if pfnTaskEntry p = 0 then (LOS_ERRNO_TSK_ENTRY_NULL, param)
          else if unat (usTaskPrio p) > OS_TASK_PRIORITY_LOWEST then (LOS_ERRNO_TSK_PRIOR_ERROR, param)
          else if unat (usTaskPrio p) = OS_TASK_PRIORITY_LOWEST \<and> pfnTaskEntry p \<noteq> sym_OsIdleTask ld
          then (LOS_ERRNO_TSK_PRIOR_ERROR, param)
          else if uwStackSize p > LOSCFG_SYS_HEAP_SIZE then (LOS_ERRNO_TSK_STKSZ_TOO_LARGE, param)
          else
            let s0 = (if uwStackSize p = 0 then LOSCFG_BASE_CORE_TSK_DEFAULT_STACK_SIZE else uwStackSize p);
                s1 = LOS_Align s0 OS_TASK_STACK_ADDR_ALIGN
            in (if s1 < LOSCFG_BASE_CORE_TSK_MIN_STACK_SIZE then LOS_ERRNO_TSK_STKSZ_TOO_SMALL else LOS_OK,
                Some (p\<lparr>uwStackSize := s1\<rparr>)))"

definition OsNewTaskInit :: "symbols \<Rightarrow> nat \<Rightarrow> TSK_INIT_PARAM_S \<Rightarrow> u32 \<Rightarrow> kernel \<Rightarrow> u32 \<times> kernel" where
  "OsNewTaskInit ld t p stk k =
     (LOS_OK, upd_tcb t (\<lambda>c. c\<lparr>
        stackPointer := fst (HalTskStackInit ld (taskID c) (uwStackSize p) stk),
        taskArg := param_uwArg p, topOfStack := stk, stackSize := uwStackSize p, taskSem := None,
        taskMux := None, taskStatus := OS_TASK_STATUS_SUSPEND, priority := usTaskPrio p, timeSlice := 0,
        waitTimes := 0, taskEntry := pfnTaskEntry p, taskEventID := OS_NULL_INT, eventMask := 0,
        taskName := pcName p, taskMsg := 0, responseTime := OS_SORT_LINK_INVALID_TIME\<rparr>) k)"

text \<open>\<open>stk\<close> is what \<^verbatim>\<open>LOS_MemAllocAlign\<close> returns; the second component of the result is what
  is stored through \<^verbatim>\<open>taskID\<close>.\<close>

definition LOS_TaskCreateOnly ::
  "symbols \<Rightarrow> bool \<Rightarrow> TSK_INIT_PARAM_S option \<Rightarrow> u32 \<Rightarrow> kernel \<Rightarrow> u32 \<times> u32 option \<times> kernel" where
  "LOS_TaskCreateOnly ld idNull param stk k =
     (if idNull then (LOS_ERRNO_TSK_ID_INVALID, None, k)
      else case OsTaskInitParamCheck ld param of (ret, param') \<Rightarrow>
        if ret \<noteq> LOS_OK then (ret, None, k)
        else
          let k1 = OsRecyleFinishedTask k in
          case pend k1 FreeTask of
            [] \<Rightarrow> (LOS_ERRNO_TSK_TCB_UNAVAILABLE, None, k1)
          | t # _ \<Rightarrow>
              let k2 = pend_del t k1 in
              if stk = 0 then (LOS_ERRNO_TSK_NO_MEMORY, None, pend_head FreeTask t k2)
              else let (ret, k3) = OsNewTaskInit ld t (the param') stk k2
                   in (ret, Some (taskID (tcb k3 t)), k3))"

definition LOS_TaskCreate ::
  "symbols \<Rightarrow> bool \<Rightarrow> TSK_INIT_PARAM_S option \<Rightarrow> u32 \<Rightarrow> kernel \<Rightarrow> u32 \<times> u32 option \<times> kernel" where
  "LOS_TaskCreate ld idNull param stk k =
     (case LOS_TaskCreateOnly ld idNull param stk k of (ret, tid, k1) \<Rightarrow>
        if ret \<noteq> LOS_OK then (ret, tid, k1)
        else let k2 = OsSchedTaskEnQueue (unat (the tid)) k1
             in (LOS_OK, tid, if g_taskScheduled k2 then LOS_Schedule k2 else k2))"

definition OsTaskInit :: "u32 \<Rightarrow> kernel \<Rightarrow> u32 \<times> kernel" where
  "OsTaskInit mem k =
     (if mem = 0 then (LOS_ERRNO_TSK_NO_MEMORY, k)
      else
        let boot = unat (g_taskMaxNum k);
            z = \<lparr>stackPointer = 0, taskStatus = 0, priority = 0, timeSlice = 0, waitTimes = 0,
                 responseTime = 0, startTime = 0, stackSize = 0, topOfStack = 0, taskID = 0, taskEntry = 0,
                 taskSem = None, taskMux = None, taskArg = 0, taskName = None, taskEventID = 0, eventMask = 0,
                 eventMode = 0, taskMsg = 0\<rparr>;
            k1 = k\<lparr>tcb := (\<lambda>t. if t \<le> boot then z else tcb k t),
                   pend := (pend k)(FreeTask := [], RecycleTask := [])\<rparr>;
            k2 = fold (\<lambda>index k. pend_tail FreeTask index
                        (upd_tcb index (\<lambda>c. c\<lparr>taskStatus := OS_TASK_STATUS_UNUSED, taskID := of_nat index\<rparr>) k))
                   [0..<LOSCFG_BASE_CORE_TSK_LIMIT + 1] k1;
            k3 = upd_tcb boot (\<lambda>c. c\<lparr>taskID := of_nat (LOSCFG_BASE_CORE_TSK_LIMIT + 1),
                   taskStatus := OS_TASK_STATUS_UNUSED OR OS_TASK_STATUS_RUNNING,
                   priority := of_nat (OS_TASK_PRIORITY_LOWEST + 1)\<rparr>) (k2\<lparr>runTask := boot\<rparr>)
        in OsSchedInit (k3\<lparr>g_idleTaskID := OS_INVALID\<rparr>))"

definition OsIdleTaskCreate :: "symbols \<Rightarrow> u32 \<Rightarrow> kernel \<Rightarrow> u32 \<times> kernel" where
  "OsIdleTaskCreate ld stk k =
     (case LOS_TaskCreateOnly ld False
        (Some \<lparr>pfnTaskEntry = sym_OsIdleTask ld, usTaskPrio = of_nat OS_TASK_PRIORITY_LOWEST, param_uwArg = 0,
               uwStackSize = LOSCFG_BASE_CORE_TSK_IDLE_STACK_SIZE, pcName = Some ''IdleCore000''\<rparr>) stk k of
        (ret, tid, k1) \<Rightarrow>
          let k2 = (case tid of None \<Rightarrow> k1 | Some i \<Rightarrow> k1\<lparr>g_idleTaskID := i\<rparr>) in
          if ret \<noteq> LOS_OK then (ret, k2)
          else (LOS_OK, OsSchedSetIdleTaskSchedParam (unat (g_idleTaskID k2)) k2))"

section \<open>Suspension, deletion, delay\<close>

definition OS_CHECK_TASK_BLOCK :: u16 where
  "OS_CHECK_TASK_BLOCK = OS_TASK_STATUS_DELAY OR OS_TASK_STATUS_PEND OR OS_TASK_STATUS_SUSPEND"

definition LOS_TaskResume :: "u32 \<Rightarrow> kernel \<Rightarrow> u32 \<times> kernel" where
  "LOS_TaskResume tid k =
     (if unat tid > LOSCFG_BASE_CORE_TSK_LIMIT then (LOS_ERRNO_TSK_ID_INVALID, k)
      else
        let t = unat tid; tempStatus = status k t in
        if tst tempStatus OS_TASK_STATUS_UNUSED then (LOS_ERRNO_TSK_NOT_CREATED, k)
        else if \<not> tst tempStatus OS_TASK_STATUS_SUSPEND then (LOS_ERRNO_TSK_NOT_SUSPENDED, k)
        else
          let k1 = clr_status t OS_TASK_STATUS_SUSPEND k in
          if \<not> tst (status k1 t) OS_CHECK_TASK_BLOCK
          then let k2 = OsSchedTaskEnQueue t k1
               in (LOS_OK, if g_taskScheduled k2 then LOS_Schedule k2 else k2)
          else (LOS_OK, k1))"

definition LOS_TaskSuspend :: "u32 \<Rightarrow> kernel \<Rightarrow> u32 \<times> kernel" where
  "LOS_TaskSuspend tid k =
     (let ret = OsCheckTaskIDValid tid k in
      if ret \<noteq> LOS_OK then (ret, k)
      else
        let t = unat tid; tempStatus = status k t in
        if tst tempStatus OS_TASK_STATUS_UNUSED then (LOS_ERRNO_TSK_NOT_CREATED, k)
        else if tst tempStatus OS_TASK_STATUS_SUSPEND then (LOS_ERRNO_TSK_ALREADY_SUSPENDED, k)
        else if tst tempStatus OS_TASK_STATUS_RUNNING \<and> g_losTaskLock k \<noteq> 0
        then (LOS_ERRNO_TSK_SUSPEND_LOCKED, k)
        else
          let k1 = (if tst tempStatus OS_TASK_STATUS_READY then OsSchedTaskDeQueue t k else k);
              k2 = set_status t OS_TASK_STATUS_SUSPEND k1
          in (LOS_OK, if tid = taskID (tcb k2 (runTask k2)) then LOS_Schedule k2 else k2))"

definition OsRunningTaskDelete :: "u32 \<Rightarrow> nat \<Rightarrow> kernel \<Rightarrow> kernel" where
  "OsRunningTaskDelete tid t k =
     (let boot = unat (g_taskMaxNum k);
          k1 = (pend_tail RecycleTask t k)\<lparr>runTask := boot\<rparr>
      in upd_tcb boot (\<lambda>c. c\<lparr>taskID := tid, taskStatus := status k1 t OR OS_TASK_STATUS_RUNNING,
           topOfStack := topOfStack (tcb k1 t), taskName := taskName (tcb k1 t)\<rparr>) k1)"

definition LOS_TaskDelete :: "u32 \<Rightarrow> kernel \<Rightarrow> u32 \<times> kernel" where
  "LOS_TaskDelete tid k =
     (let t = unat tid; ret = OsCheckTaskIDValid tid k in
      if ret \<noteq> LOS_OK then (ret, k)
      else if tst (status k t) OS_TASK_STATUS_UNUSED then (LOS_ERRNO_TSK_NOT_CREATED, k)
      else
        let k1 = (if tst (status k t) OS_TASK_STATUS_RUNNING \<and> g_losTaskLock k \<noteq> 0
                  then k\<lparr>g_losTaskLock := 0\<rparr> else k);
            k2 = upd_tcb t (\<lambda>c. c\<lparr>taskEventID := OS_NULL_INT, eventMask := 0\<rparr>) (OsSchedTaskExit t k1);
            k3 = upd_tcb t (\<lambda>c. c\<lparr>taskStatus := OS_TASK_STATUS_UNUSED\<rparr>) k2
        in if tst (status k2 t) OS_TASK_STATUS_RUNNING
           then (LOS_OK, LOS_Schedule (OsRunningTaskDelete tid t k3))
           else (LOS_OK, upd_tcb t (\<lambda>c. c\<lparr>topOfStack := 0\<rparr>) (pend_head FreeTask t k3)))"

definition LOS_TaskYield :: "kernel \<Rightarrow> u32 \<times> kernel" where
  "LOS_TaskYield k = (LOS_OK, LOS_Schedule (OsSchedYield k))"

definition LOS_TaskDelay :: "u32 \<Rightarrow> kernel \<Rightarrow> u32 \<times> kernel" where
  "LOS_TaskDelay tick k =
     (if OS_INT_ACTIVE k then (LOS_ERRNO_TSK_DELAY_IN_INT, k)
      else if g_losTaskLock k \<noteq> 0 then (LOS_ERRNO_TSK_DELAY_IN_LOCK, k)
      else if tick = 0 then LOS_TaskYield k
      else (LOS_OK, LOS_Schedule (OsSchedDelay (runTask k) tick k)))"

definition LOS_Msleep :: "u32 \<Rightarrow> kernel \<Rightarrow> kernel" where
  "LOS_Msleep mSecs k =
     (if OS_INT_ACTIVE k then k
      else
        let interval = (if mSecs = 0 then 0
                        else let i = LOS_MS2Tick mSecs in if i = 0 then 1 else i)
        in snd (LOS_TaskDelay interval k))"

section \<open>Priorities, lock, queries\<close>

definition LOS_TaskPriGet :: "u32 \<Rightarrow> kernel \<Rightarrow> u16" where
  "LOS_TaskPriGet tid k =
     (if tid \<ge> g_taskMaxNum k then ucast OS_INVALID
      else if tst (status k (unat tid)) OS_TASK_STATUS_UNUSED then ucast OS_INVALID
      else priority (tcb k (unat tid)))"

definition LOS_TaskPriSet :: "u32 \<Rightarrow> u16 \<Rightarrow> kernel \<Rightarrow> u32 \<times> kernel" where
  "LOS_TaskPriSet tid taskPrio k =
     (if unat taskPrio > OS_TASK_PRIORITY_LOWEST then (LOS_ERRNO_TSK_PRIOR_ERROR, k)
      else if tid = g_idleTaskID k then (LOS_ERRNO_TSK_OPERATE_IDLE, k)
      else if tid = g_swtmrTaskID k then (LOS_ERRNO_TSK_OPERATE_SWTMR, k)
      else if tid \<ge> g_taskMaxNum k then (LOS_ERRNO_TSK_ID_INVALID, k)
      else if tst (status k (unat tid)) OS_TASK_STATUS_UNUSED then (LOS_ERRNO_TSK_NOT_CREATED, k)
      else case OsSchedModifyTaskSchedParam (unat tid) taskPrio k of (isReady, k1) \<Rightarrow>
        (LOS_OK, if isReady then LOS_Schedule k1 else k1))"

definition LOS_CurTaskPriSet :: "u16 \<Rightarrow> kernel \<Rightarrow> u32 \<times> kernel" where
  "LOS_CurTaskPriSet taskPrio k = LOS_TaskPriSet (taskID (tcb k (runTask k))) taskPrio k"

definition LOS_TaskLock :: "kernel \<Rightarrow> kernel" where
  "LOS_TaskLock k = k\<lparr>g_losTaskLock := g_losTaskLock k + 1\<rparr>"

definition LOS_TaskUnlock :: "kernel \<Rightarrow> kernel" where
  "LOS_TaskUnlock k =
     (if g_losTaskLock k > 0
      then let k1 = k\<lparr>g_losTaskLock := g_losTaskLock k - 1\<rparr>
           in if g_losTaskLock k1 = 0 then LOS_Schedule k1 else k1
      else k)"

definition LOS_CurTaskIDGet :: "kernel \<Rightarrow> u32" where
  "LOS_CurTaskIDGet k = taskID (tcb k (runTask k))"

definition LOS_NextTaskIDGet :: "kernel \<Rightarrow> u32" where
  "LOS_NextTaskIDGet k = taskID (tcb k (OsGetTopTask k))"

definition LOS_CurTaskNameGet :: "kernel \<Rightarrow> string option" where
  "LOS_CurTaskNameGet k = taskName (tcb k (runTask k))"

definition LOS_TaskNameGet :: "u32 \<Rightarrow> kernel \<Rightarrow> string option" where
  "LOS_TaskNameGet tid k =
     (if tid \<ge> g_taskMaxNum k then None
      else if tst (status k (unat tid)) OS_TASK_STATUS_UNUSED then None
      else taskName (tcb k (unat tid)))"

definition LOS_TaskStatusGet :: "u32 \<Rightarrow> bool \<Rightarrow> kernel \<Rightarrow> u32 \<times> u32 option" where
  "LOS_TaskStatusGet tid statNull k =
     (if statNull then (LOS_ERRNO_TSK_PTR_NULL, None)
      else if tid \<ge> g_taskMaxNum k then (LOS_ERRNO_TSK_ID_INVALID, None)
      else if tst (status k (unat tid)) OS_TASK_STATUS_UNUSED then (LOS_ERRNO_TSK_NOT_CREATED, None)
      else (LOS_OK, Some (ucast (status k (unat tid)))))"

definition LOS_TaskIsRunning :: "kernel \<Rightarrow> bool" where
  "LOS_TaskIsRunning k = g_taskScheduled k"

definition OsConvertTskStatus :: "u16 \<Rightarrow> string" where
  "OsConvertTskStatus s =
     (if tst s OS_TASK_STATUS_RUNNING then ''Running''
      else if tst s OS_TASK_STATUS_READY then ''Ready''
      else if tst s OS_TASK_STATUS_DELAY then ''Delay''
      else if tst s OS_TASK_STATUS_PEND
      then if tst s OS_TASK_STATUS_PEND_TIME then ''PendTime'' else ''Pend''
      else if tst s OS_TASK_STATUS_SUSPEND then ''Suspend''
      else ''Impossible'')"

end
