(* ===== verification/Task_Spec.thy ===== *)
theory Task_Spec
  imports Los_Task
begin

text \<open>
  What the task operations of \<open>Los_Task\<close> keep and do.  \<open>task_inv\<close> adds to the kernel
  invariants that task control blocks are never lost: a block is marked unused exactly
  while it is on the free list or waits there to be recycled.
\<close>

section \<open>The invariant\<close>

text \<open>The control block after the last task's stands in for a task that has deleted itself.\<close>

abbreviation (input) boot :: nat where "boot \<equiv> 13"

definition task_inv :: "kernel \<Rightarrow> bool" where
  "task_inv k \<longleftrightarrow> kernel_inv k \<and> g_taskMaxNum k = 13 \<and> unat (g_idleTaskID k) < boot \<and>
     (\<forall>t < boot. taskID (tcb k t) = of_nat t) \<and>
     (\<forall>t < boot. bit (status k t) 0 \<longleftrightarrow> t \<in> set (pend k FreeTask) \<union> set (pend k RecycleTask)) \<and>
     (\<forall>l. set (pend k l) \<subseteq> {..<boot}) \<and> bit (status k boot) 0 \<and>
     (runTask k = boot \<or> runTask k < boot \<and> \<not> bit (status k (runTask k)) 0)"

lemma task_invD:
  assumes "task_inv k"
  shows "kernel_inv k" "g_taskMaxNum k = 13" "unat (g_idleTaskID k) < boot"
    "t < boot \<Longrightarrow> taskID (tcb k t) = of_nat t"
    "t < boot \<Longrightarrow> bit (status k t) 0 \<longleftrightarrow> t \<in> set (pend k FreeTask) \<union> set (pend k RecycleTask)"
    "t \<in> set (pend k l) \<Longrightarrow> t < boot" "bit (status k boot) 0" "sched_inv k" "run_wf k"
    "runTask k = boot \<or> runTask k < boot \<and> \<not> bit (status k (runTask k)) 0"
  using assms unfolding task_inv_def kernel_inv_def by blast+

text \<open>An operation on one task keeps the invariant if the kernel's holds and the block is
  accounted for.\<close>

lemma task_inv_only:
  assumes inv: "task_inv k" and o: "only t k k'" and t: "t < boot" and kv: "kernel_inv k'"
    and max: "g_taskMaxNum k' = g_taskMaxNum k" and tid: "taskID (tcb k' t) = taskID (tcb k t)"
    and acc: "bit (status k' t) 0 \<longleftrightarrow> t \<in> set (pend k' FreeTask) \<union> set (pend k' RecycleTask)"
    and run: "runTask k' = runTask k" "t = runTask k \<Longrightarrow> \<not> bit (status k' t) 0"
  shows "task_inv k'"
proof -
  have eq: "taskStatus (tcb k' u) = taskStatus (tcb k u)" "taskID (tcb k' u) = taskID (tcb k u)"
    "u \<in> set (pend k' l) \<longleftrightarrow> u \<in> set (pend k l)" if "u \<noteq> t" for u l
    using o that by (auto simp: only_def task_view_def)
  have "taskID (tcb k' u) = of_nat u" if "u < boot" for u
    using eq(2) tid task_invD(4) [OF inv that] by (cases "u = t") auto
  moreover have "bit (status k' u) 0 \<longleftrightarrow> u \<in> set (pend k' FreeTask) \<union> set (pend k' RecycleTask)" if "u < boot" for u
    using eq acc task_invD(5) [OF inv that] by (cases "u = t") auto
  moreover have "set (pend k' l) \<subseteq> {..<boot}" for l
    using eq(3) task_invD(6) [OF inv] t by (metis lessThan_iff subsetI)
  moreover have "runTask k' = boot \<or> runTask k' < boot \<and> \<not> bit (status k' (runTask k')) 0"
    using run t task_invD(10) [OF inv] eq(1) [of "runTask k"] by (cases "t = runTask k") auto
  ultimately show ?thesis
    using kv max o task_invD(2,3,7) [OF inv] eq(1) [of boot] t by (simp add: task_inv_def only_def)
qed

text \<open>A step that leaves the scheduler's view alone.\<close>

lemma task_inv_view:
  assumes "task_inv k" "sched_view k' = sched_view k" "runTask k' = runTask k"
    "g_taskScheduled k' = g_taskScheduled k" "g_taskMaxNum k' = g_taskMaxNum k"
  shows "task_inv k'"
  using assms(1,3,5) kernel_inv_view [OF assms(2-4)] by (simp add: task_inv_def sched_viewD [OF assms(2)])

lemma task_inv_Schedule: "task_inv k \<Longrightarrow> task_inv (LOS_Schedule k)"
  by (rule task_inv_view [OF _ view_LOS_Schedule]) (simp_all add: schedule_defs)

lemma max_fields [simp]:
  "g_taskMaxNum (OsSchedTaskEnQueue t k) = g_taskMaxNum k" "g_taskMaxNum (set_status t m k) = g_taskMaxNum k"
  "g_taskMaxNum (clr_status t m k) = g_taskMaxNum k" "g_taskMaxNum (upd_tcb t f k) = g_taskMaxNum k"
  "g_taskMaxNum (pend_del t k) = g_taskMaxNum k" "g_taskMaxNum (pend_head l t k) = g_taskMaxNum k"
  "g_taskMaxNum (pend_tail l t k) = g_taskMaxNum k" "g_taskMaxNum (OsSchedTaskDeQueue t k) = g_taskMaxNum k"
  "g_taskMaxNum (OsDeleteSortLink t OS_SORT_LINK_TASK k) = g_taskMaxNum k"
  "g_taskMaxNum (OsSchedDelay t n k) = g_taskMaxNum k" "g_taskMaxNum (OsSchedYield k) = g_taskMaxNum k"
  by (simp_all add: wake_defs OsSchedTaskDeQueue_def OsSchedPriQueueDelete_def OsSchedDelay_def OsSchedYield_def)

section \<open>Suspending and resuming\<close>

text \<open>The suspend flag matters to the scheduler's invariant only while a task is ready.\<close>

lemma task_wf_suspend:
  assumes "task_wf k t" "\<not> ready k t" "\<And>b. b \<noteq> 1 \<Longrightarrow> bit s b \<longleftrightarrow> bit (status k t) b"
  shows "task_wf (upd_tcb t (\<lambda>c. c\<lparr>taskStatus := s\<rparr>) k) t"
proof -
  have "list_ok (upd_tcb t (\<lambda>c. c\<lparr>taskStatus := s\<rparr>) k) t l = list_ok k t l" for l
    using assms(3) by (cases l) (simp_all add: list_ok_def)
  then show ?thesis using assms by (simp add: task_wf_def)
qed

lemma inv_suspend_flag:
  assumes inv: "sched_inv k" and nr: "\<not> ready k t"
  shows "sched_inv (set_status t OS_TASK_STATUS_SUSPEND k)" "sched_inv (clr_status t OS_TASK_STATUS_SUSPEND k)"
proof -
  have b: "inv_but t k" using inv sched_inv_but by blast
  have u: "set_status t OS_TASK_STATUS_SUSPEND k =
      upd_tcb t (\<lambda>c. c\<lparr>taskStatus := status k t OR OS_TASK_STATUS_SUSPEND\<rparr>) k"
    "clr_status t OS_TASK_STATUS_SUSPEND k =
      upd_tcb t (\<lambda>c. c\<lparr>taskStatus := clr (status k t) OS_TASK_STATUS_SUSPEND\<rparr>) k"
    by (simp_all add: set_status_def clr_status_def upd_tcb_def)
  have "task_wf (set_status t OS_TASK_STATUS_SUSPEND k) t" "task_wf (clr_status t OS_TASK_STATUS_SUSPEND k) t"
    unfolding u using sched_invD(4) [OF inv] nr by (auto intro!: task_wf_suspend simp: flag_simps)
  then show "sched_inv (set_status t OS_TASK_STATUS_SUSPEND k)" "sched_inv (clr_status t OS_TASK_STATUS_SUSPEND k)"
    using inv_but_status [OF b] sched_inv_but by blast+
qed

text \<open>The running flags and the idle task after a step on a task that is neither.\<close>

lemma run_wf_only:
  assumes r: "run_wf k" and o: "only t k k'" and "runTask k' = runTask k" "g_taskScheduled k' = g_taskScheduled k"
    and "t \<noteq> unat (g_idleTaskID k)"
    and run: "running k' t \<Longrightarrow> running k t \<and> (bit (status k t) 0 \<longrightarrow> bit (status k' t) 0)"
    and t: "t = runTask k \<Longrightarrow> running k' t \<and> \<not> ready k' t \<and> t \<notin> set (taskSortLink k')"
    and lost: "runnable k' t \<Longrightarrow> ready k' t \<or> running k' t"
  shows "run_wf k'"
proof -
  have "none_lost k'" using r lost by (intro none_lost_only [OF _ o]) (simp_all add: run_wf_def)
  moreover
  have "idle_wf k'" using idle_wf_only [OF o] r assms(5) by (simp add: run_wf_def)
  moreover have "u = runTask k \<or> bit (status k' u) 0" if "running k' u" for u
    using o run that r by (cases "u = t") (auto simp: only_def task_view_def run_wf_def)
  moreover have "running k' (runTask k) \<and> \<not> ready k' (runTask k) \<and> runTask k \<notin> set (taskSortLink k')"
    using r o t by (cases "t = runTask k") (auto simp: only_def task_view_def run_wf_def)
  ultimately show ?thesis using r assms(3,4) by (simp add: run_wf_def)
qed

lemma used_not_listed:
  assumes "task_inv k" "t < boot" "\<not> bit (status k t) 0"
  shows "t \<notin> set (pend k FreeTask)" "t \<notin> set (pend k RecycleTask)"
  using task_invD(5) [OF assms(1,2)] assms(3) by auto

lemma run_fields_status [simp]:
  "runTask (set_status t m k) = runTask k" "g_taskScheduled (set_status t m k) = g_taskScheduled k"
  "runTask (clr_status t m k) = runTask k" "g_taskScheduled (clr_status t m k) = g_taskScheduled k"
  "runTask (upd_tcb t f k) = runTask k" "g_taskScheduled (upd_tcb t f k) = g_taskScheduled k"
  "runTask (pend_head l t k) = runTask k" "g_taskScheduled (pend_head l t k) = g_taskScheduled k"
  by (simp_all add: set_status_def clr_status_def upd_tcb_def pend_head_def)

definition suspended :: "nat \<Rightarrow> kernel \<Rightarrow> kernel" where
  "suspended t k = set_status t OS_TASK_STATUS_SUSPEND
     (if ready k t then OsSchedTaskDeQueue t k else k)"

lemma suspended_status:
  "bit (status (suspended t k) u) b \<longleftrightarrow> (if u = t then b = 1 \<or> b \<noteq> 2 \<and> bit (status k t) b else bit (status k u) b)"
  by (auto simp: suspended_def DeQueue_status flag_simps)

lemma task_inv_suspended:
  assumes inv: "task_inv k" and t: "t < boot" "t \<noteq> unat (g_idleTaskID k)" "\<not> bit (status k t) 0"
  shows "task_inv (suspended t k)"
proof (rule task_inv_only [OF inv _ t(1)])
  note s = task_invD(8) [OF inv] and r = task_invD(9) [OF inv]
  show o: "only t k (suspended t k)"
    unfolding suspended_def by (rule only_trans [OF _ only_primitives(2)]) (simp add: only_DeQueue)
  have "sched_inv (suspended t k)"
    using inv_suspend_flag(1) [OF s] inv_suspend_flag(1) [OF inv_DeQueue [OF s]]
    by (simp add: suspended_def DeQueue_status flag_simps)
  moreover have "run_wf (suspended t k)"
  proof (rule run_wf_only [OF r o _ _ t(2)])
    show "runTask (suspended t k) = runTask k" "g_taskScheduled (suspended t k) = g_taskScheduled k"
      by (simp_all add: suspended_def)
    show "running (suspended t k) t \<and> \<not> ready (suspended t k) t \<and> t \<notin> set (taskSortLink (suspended t k))" if "t = runTask k"
      using r that unfolding suspended_status by (simp add: suspended_def run_wf_def)
  qed (simp_all add: suspended_status runnable_def)
  ultimately show "kernel_inv (suspended t k)" by (simp add: kernel_inv_def)
  show "bit (status (suspended t k) t) 0 \<longleftrightarrow>
      t \<in> set (pend (suspended t k) FreeTask) \<union> set (pend (suspended t k) RecycleTask)"
    using used_not_listed [OF inv t(1,3)] t(3) unfolding suspended_status
    by (auto simp: suspended_def DeQueue_pend)
  show "\<not> bit (status (suspended t k) t) 0" using t(3) unfolding suspended_status by simp
qed (simp_all add: suspended_def)

text \<open>A task that is in no list and not asleep can be made ready.\<close>

lemma task_inv_made_ready:
  assumes inv: "task_inv k" and t: "t < boot" "t \<noteq> unat (g_idleTaskID k)" "t \<noteq> runTask k"
    and o: "only t k k0" and s: "sched_inv k0" and f: "runTask k0 = runTask k" "g_taskScheduled k0 = g_taskScheduled k"
      "g_taskMaxNum k0 = g_taskMaxNum k" "taskID (tcb k0 t) = taskID (tcb k t)"
    and st: "\<not> bit (status k t) 0" "\<not> bit (status k0 t) 0" "\<not> ready k0 t" "\<not> pending k0 t" "\<not> bit (status k0 t) 5"
    and run: "running k0 t \<Longrightarrow> running k t"
  shows "task_inv (OsSchedTaskEnQueue t k0)"
proof (rule task_inv_only [OF inv _ t(1)])
  let ?k = "OsSchedTaskEnQueue t k0"
  note r = task_invD(9) [OF inv]
  note wf = sched_invD(4) [OF s, of t]
  show o': "only t k ?k" by (rule only_trans [OF o only_EnQueue])
  have free: "pl_free t (pend k0)" by (rule free_if [OF s st(3,4,2)])
  have link: "t \<notin> set (taskSortLink k0)" using task_wfD(8,9) [OF wf] st by blast
  have "sched_inv ?k"
    using inv_EnQueue [OF _ free link task_wfD(1) [OF wf st(2)] st(2)] s sched_inv_but by blast
  moreover have "run_wf ?k"
    by (rule run_wf_only [OF r o' _ _ t(2)]) (use t f run st in \<open>auto simp: EnQueue_status flag_simps\<close>)
  ultimately show "kernel_inv ?k" by (simp add: kernel_inv_def)
  show "bit (status ?k t) 0 \<longleftrightarrow> t \<in> set (pend ?k FreeTask) \<union> set (pend ?k RecycleTask)"
    using free st(2) by (simp add: pl_free_def EnQueue_status EnQueue_pend flag_simps pl_head_def pl_tail_def)
qed (use t f in simp_all)

lemma task_inv_EnQueue:
  assumes inv: "task_inv k" and t: "t < boot" "t \<noteq> unat (g_idleTaskID k)" "t \<noteq> runTask k"
    and st: "\<not> bit (status k t) 0" "\<not> ready k t" "\<not> pending k t" "\<not> bit (status k t) 5"
  shows "task_inv (OsSchedTaskEnQueue t k)"
  by (rule task_inv_made_ready [OF inv t only_refl task_invD(8) [OF inv]]) (use st in simp_all)

text \<open>The suspend flag is cleared while the task waits for something else.\<close>

lemma task_inv_clr_suspend:
  assumes inv: "task_inv k" and t: "t < boot" "t \<noteq> unat (g_idleTaskID k)" "\<not> bit (status k t) 0" "\<not> ready k t"
    and w: "pending k t \<or> bit (status k t) 5"
  shows "task_inv (clr_status t OS_TASK_STATUS_SUSPEND k)"
proof (rule task_inv_only [OF inv only_primitives(3) t(1)])
  let ?k = "clr_status t OS_TASK_STATUS_SUSPEND k"
  note r = task_invD(9) [OF inv]
  have "run_wf ?k"
    by (rule run_wf_only [OF r only_primitives(3) _ _ t(2)]) (use r t w in \<open>auto simp: flag_simps run_wf_def runnable_def\<close>)
  then show "kernel_inv ?k" using inv_suspend_flag(2) [OF task_invD(8) [OF inv] t(4)] by (simp add: kernel_inv_def)
  show "bit (status ?k t) 0 \<longleftrightarrow> t \<in> set (pend ?k FreeTask) \<union> set (pend ?k RecycleTask)"
    using used_not_listed [OF inv t(1,3)] t(3) by (simp add: flag_simps)
qed (use t(3) in \<open>simp_all add: flag_simps\<close>)

section \<open>Releasing a control block\<close>

text \<open>A task in no list and not asleep, marked unused and put on one of the two lists of unused
  blocks.\<close>

lemma inv_release:
  assumes b: "inv_but t k" and free: "pl_free t (pend k)" "t \<notin> set (taskSortLink k)"
    and l: "l = FreeTask \<or> l = RecycleTask"
    and k': "k' = upd_tcb t (\<lambda>c. c\<lparr>taskStatus := OS_TASK_STATUS_UNUSED\<rparr>) k"
  shows "sched_inv (pend_head l t k')" "sched_inv (pend_tail l t k')"
proof -
  have b': "inv_but t k'" unfolding k' by (rule inv_but_upd [OF b]) simp
  have free': "pl_free t (pend k')" using free(1) by (simp add: k')
  have bm: "bitmap_wf (pend_head l t k')" "bitmap_wf (pend_tail l t k')"
    using inv_butD(2) [OF b'] l by (auto simp: bitmap_wf_def)
  have "inv_but t (pend_head l t k')"
    by (rule inv_but_only [OF b' only_primitives(6) kl.disjoint_head [OF inv_butD(1) [OF b'] free'] bm(1)])
      (use inv_butD(3) [OF b'] in simp)
  moreover have "task_wf (pend_head l t k') t"
    using free' free(2) l by (auto simp: task_wf_def pl_free_def list_ok_def k' flag_simps)
  ultimately show "sched_inv (pend_head l t k')" using sched_inv_but by blast
  have "inv_but t (pend_tail l t k')"
    by (rule inv_but_only [OF b' only_primitives(5) kl.disjoint_tail [OF inv_butD(1) [OF b'] free'] bm(2)])
      (use inv_butD(3) [OF b'] in simp)
  moreover have "task_wf (pend_tail l t k') t"
    using free' free(2) l by (auto simp: task_wf_def pl_free_def list_ok_def k' flag_simps)
  ultimately show "sched_inv (pend_tail l t k')" using sched_inv_but by blast
qed

lemma only_Exit: "only t k (OsSchedTaskExit t k)"
proof -
  define k1 where "k1 = (if tst (status k t) OS_TASK_STATUS_READY then OsSchedTaskDeQueue t k
     else if tst (status k t) OS_TASK_STATUS_PEND then clr_status t OS_TASK_STATUS_PEND (pend_del t k) else k)"
  have "only t k k1" unfolding k1_def by (auto intro!: only_DeQueue only_steps)
  moreover have "only t k1 (OsSchedTaskExit t k)"
    unfolding OsSchedTaskExit_def k1_def [symmetric] Let_def by (auto intro!: only_steps)
  ultimately show ?thesis by (rule only_trans)
qed

lemma Exit_fields [simp]:
  "runTask (OsSchedTaskExit t k) = runTask k" "g_taskScheduled (OsSchedTaskExit t k) = g_taskScheduled k"
  "g_taskMaxNum (OsSchedTaskExit t k) = g_taskMaxNum k" "taskID (tcb (OsSchedTaskExit t k) u) = taskID (tcb k u)"
  "g_idleTaskID (OsSchedTaskExit t k) = g_idleTaskID k" "priority (tcb (OsSchedTaskExit t k) u) = priority (tcb k u)"
  by (simp_all add: OsSchedTaskExit_def Let_def)

text \<open>After \<^verbatim>\<open>OsSchedTaskExit\<close> nothing refers to the task any more.\<close>

lemma Exit_clean:
  assumes s: "sched_inv k" and u: "\<not> bit (status k t) 0"
  shows "pl_free t (pend (OsSchedTaskExit t k))" "t \<notin> set (taskSortLink (OsSchedTaskExit t k))"
    "running (OsSchedTaskExit t k) t = running k t"
proof -
  let ?k = "OsSchedTaskExit t k"
  have st: "\<not> ready ?k t" "\<not> pending ?k t" "\<not> bit (status ?k t) 5" "\<not> bit (status ?k t) 7" "\<not> bit (status ?k t) 0"
    "running ?k t = running k t"
    using u task_wfD(5) [OF sched_invD(4) [OF s, of t]]
    by (auto simp: OsSchedTaskExit_def Let_def DeQueue_status flag_simps)
  have s': "sched_inv ?k" by (rule inv_OsSchedTaskExit [OF s])
  show "pl_free t (pend ?k)" by (rule free_if [OF s' st(1,2,5)])
  show "t \<notin> set (taskSortLink ?k)" using task_wfD(9) [OF sched_invD(4) [OF s']] st by blast
  show "running ?k t = running k t" by (rule st)
qed

lemma task_inv_delete_other:
  assumes inv: "task_inv k" and t: "t < boot" "t \<noteq> unat (g_idleTaskID k)" "\<not> bit (status k t) 0" "t \<noteq> runTask k"
    and k': "k' = upd_tcb t (\<lambda>c. c\<lparr>taskStatus := OS_TASK_STATUS_UNUSED\<rparr>)
      (upd_tcb t (\<lambda>c. c\<lparr>taskEventID := e, eventMask := m\<rparr>) (OsSchedTaskExit t k))"
  shows "task_inv (upd_tcb t (\<lambda>c. c\<lparr>topOfStack := 0\<rparr>) (pend_head FreeTask t k'))"
proof -
  note s = task_invD(8) [OF inv] and r = task_invD(9) [OF inv]
  let ?e = "OsSchedTaskExit t k" let ?k = "pend_head FreeTask t k'"
  have o: "only t k ?k"
    unfolding k' by (intro only_steps only_trans [OF only_Exit] only_primitives)
  have se: "inv_but t (upd_tcb t (\<lambda>c. c\<lparr>taskEventID := e, eventMask := m\<rparr>) ?e)"
    using inv_OsSchedTaskExit [OF s] sched_inv_but by (intro inv_but_upd) auto
  have "sched_inv ?k"
    by (rule inv_release(1) [OF se _ _ _ k']) (use Exit_clean [OF s t(3)] in simp_all)
  moreover have nr: "\<not> running k t" using r t(3,4) by (auto simp: run_wf_def)
  have "run_wf ?k"
    by (rule run_wf_only [OF r o _ _ t(2)]) (use nr t in \<open>simp_all add: k' flag_simps runnable_def\<close>)
  ultimately have kv: "kernel_inv ?k" by (simp add: kernel_inv_def)
  have "task_inv ?k"
    by (rule task_inv_only [OF inv o t(1) kv]) (use t(4) in \<open>simp_all add: k' flag_simps\<close>)
  then show ?thesis by (rule task_inv_view [OF _ view_upd_tcb]) simp_all
qed

text \<open>A task that deletes itself goes to the recycle list, and the spare control block becomes
  the running one.\<close>

lemma task_inv_delete_self:
  assumes inv: "task_inv k" and t: "t < boot" "t \<noteq> unat (g_idleTaskID k)" "\<not> bit (status k t) 0" "t = runTask k"
    and k': "k' = upd_tcb t (\<lambda>c. c\<lparr>taskStatus := OS_TASK_STATUS_UNUSED\<rparr>)
      (upd_tcb t (\<lambda>c. c\<lparr>taskEventID := e, eventMask := m\<rparr>) (OsSchedTaskExit t k))"
  shows "task_inv (OsRunningTaskDelete tid t k')"
proof -
  note s = task_invD(8) [OF inv] and r = task_invD(9) [OF inv]
  let ?e = "OsSchedTaskExit t k" let ?k1 = "pend_tail RecycleTask t k'" let ?k = "OsRunningTaskDelete tid t k'"
  have o: "only t k ?k1"
    unfolding k' by (intro only_steps only_trans [OF only_Exit] only_primitives)
  have se: "inv_but t (upd_tcb t (\<lambda>c. c\<lparr>taskEventID := e, eventMask := m\<rparr>) ?e)"
    using inv_OsSchedTaskExit [OF s] sched_inv_but by (intro inv_but_upd) auto
  have s1: "sched_inv ?k1"
    by (rule inv_release(2) [OF se _ _ _ k']) (use Exit_clean [OF s t(3)] in simp_all)
  have max: "g_taskMaxNum k' = 13" using task_invD(2) [OF inv] by (simp add: k')
  define f where "f = (\<lambda>c :: LosTaskCB. c\<lparr>taskID := tid, taskStatus := OS_TASK_STATUS_UNUSED OR OS_TASK_STATUS_RUNNING,
      topOfStack := topOfStack (tcb ?k1 t), taskName := taskName (tcb ?k1 t)\<rparr>)"
  have k: "?k = upd_tcb boot f (?k1\<lparr>runTask := boot\<rparr>)"
    using max by (simp add: OsRunningTaskDelete_def Let_def f_def k' upd_tcb_def pend_tail_def)
  have tb: "boot \<noteq> t" using t(1) by simp
  have ob: "\<And>l. boot \<notin> set (pend ?k1 l)" using o task_invD(6) [OF inv] tb by (auto simp: only_def)
  have ok: "only boot ?k1 ?k" unfolding k by (simp add: only_def task_view_def upd_tcb_def)
  have sb: "boot \<notin> set (taskSortLink ?k1)"
    using task_wfD(6,9) [OF sched_invD(4) [OF s1, of boot]] o task_invD(7) [OF inv] tb
    by (auto simp: only_def task_view_def)
  have "inv_but boot ?k"
  proof (rule inv_but_only [OF _ ok])
    show "inv_but boot ?k1" using s1 sched_inv_but by blast
    show "link_wf OS_SORT_LINK_TASK ?k"
      using sched_invD(3) [OF s1] unfolding k by (subst link_wf_same) (simp_all add: f_def upd_tcb_def)
  qed (use sched_invD(1,2) [OF s1] in \<open>simp_all add: k bitmap_wf_def upd_tcb_def\<close>)
  moreover have "task_wf ?k boot"
    using ob sb unfolding k by (simp add: task_wf_def f_def flag_simps upd_tcb_def)
  ultimately have sk: "sched_inv ?k" using sched_inv_but by blast
  have run: "running ?k u \<Longrightarrow> u = boot \<or> bit (status ?k u) 0" for u
  proof (cases "u = boot \<or> u = t")
    case True
    then show ?thesis using tb unfolding k by (auto simp: f_def upd_tcb_def k' flag_simps)
  next
    case False
    then have "status ?k u = status k u"
      using o ok by (auto simp: only_def task_view_def)
    moreover assume "running ?k u"
    ultimately show ?thesis using False r t(4) by (auto simp: run_wf_def)
  qed
  have "none_lost ?k1"
    by (rule none_lost_only [OF _ o]) (use r in \<open>simp_all add: run_wf_def runnable_def k' flag_simps\<close>)
  then have "none_lost ?k"
    by (rule none_lost_only [OF _ ok]) (simp add: k runnable_def upd_tcb_def f_def flag_simps)
  have "idle_wf ?k1" using idle_wf_only [OF o] r t(2) by (simp add: run_wf_def)
  moreover have ib: "boot \<noteq> unat (g_idleTaskID ?k1)" using o task_invD(3) [OF inv] by (simp add: only_def)
  ultimately have "idle_wf ?k" using idle_wf_only [OF ok] by blast
  then have kv: "kernel_inv ?k"
    using sk run r sb \<open>none_lost ?k\<close> unfolding kernel_inv_def run_wf_def k by (simp add: upd_tcb_def k' f_def flag_simps)
  have eq: "taskStatus (tcb ?k u) = taskStatus (tcb k u)" "taskID (tcb ?k u) = taskID (tcb k u)"
    "u \<in> set (pend ?k l) \<longleftrightarrow> u \<in> set (pend k l)" if "u \<noteq> t" "u \<noteq> boot" for u l
    using o ok that by (auto simp: only_def task_view_def)
  have tt: "taskID (tcb ?k t) = taskID (tcb k t)" "bit (status ?k t) 0" "t \<in> set (pend ?k RecycleTask)" "bit (status ?k boot) 0"
    "g_taskMaxNum ?k = 13" "g_idleTaskID ?k = g_idleTaskID k"
    using tb max unfolding k by (simp_all add: upd_tcb_def k' f_def flag_simps)
  have "taskID (tcb ?k u) = of_nat u" if "u < boot" for u
    using eq(2) [of u] tt(1) task_invD(4) [OF inv that] that by (cases "u = t") auto
  moreover have "bit (status ?k u) 0 \<longleftrightarrow> u \<in> set (pend ?k FreeTask) \<union> set (pend ?k RecycleTask)" if "u < boot" for u
    using eq(1,3) [of u] tt(2,3) task_invD(5) [OF inv that] that by (cases "u = t") auto
  moreover have "set (pend ?k l) \<subseteq> {..<boot}" for l
  proof
    fix u assume "u \<in> set (pend ?k l)"
    moreover have "pend ?k l = pend ?k1 l" unfolding k by simp
    ultimately show "u \<in> {..<boot}" using eq(3) [of u l] ob task_invD(6) [OF inv, of u l] t(1) by auto
  qed
  moreover have "runTask ?k = boot" unfolding k by simp
  ultimately show ?thesis
    using kv tt task_invD(3) [OF inv] by (simp add: task_inv_def)
qed

section \<open>Recycling and creating\<close>

lemma inv_but_del:
  assumes inv: "sched_inv k" and "bit (status k t) 0"
  shows "inv_but t (pend_del t k)"
proof (rule inv_but_only [OF _ only_primitives(4)])
  show "inv_but t k" using inv sched_inv_but by blast
  have "t \<notin> set (pend k (PriQueue p))" for p
    using task_wfD(2,5) [OF sched_invD(4) [OF inv, of t]] assms(2) by (fastforce simp: list_ok_def)
  then show "bitmap_wf (pend_del t k)" using sched_invD(2) [OF inv] by (subst bitmap_wf_same) simp_all
qed (use disjoint_del sched_invD(1,3) [OF inv] in simp_all)

lemma unused_asleep:
  assumes "sched_inv k" "bit (status k t) 0"
  shows "t \<notin> set (taskSortLink k)" "\<not> ready k t" "\<not> pending k t" "\<not> bit (status k t) 5" "\<not> bit (status k t) 7"
  using task_wfD(5,6,9) [OF sched_invD(4) [OF assms(1)]] assms(2) by blast+

text \<open>An unused block of a task is neither the idle task's nor the running one.\<close>

lemma unused_other:
  assumes "task_inv k" "t < boot" "bit (status k t) 0"
  shows "t \<noteq> unat (g_idleTaskID k)" "t \<noteq> runTask k"
  using task_invD(9,10) [OF assms(1)] assms(2,3) by (auto simp: run_wf_def idle_wf_def Let_def)

lemma task_inv_to_free:
  assumes inv: "task_inv k" and t: "t < boot" "bit (status k t) 0"
  shows "task_inv (pend_head FreeTask t (pend_del t k))"
proof (rule task_inv_only [OF inv _ t(1)])
  let ?k = "pend_head FreeTask t (pend_del t k)"
  note s = task_invD(8) [OF inv] and r = task_invD(9) [OF inv]
  note z = unused_asleep [OF s t(2)]
  have b: "inv_but t (pend_del t k)" by (rule inv_but_del [OF s t(2)])
  show o: "only t k ?k" by (intro only_steps)
  have "inv_but t ?k"
  proof (rule inv_but_only [OF b only_primitives(6) kl.disjoint_head [OF inv_butD(1) [OF b]]])
    show "pl_free t (pend (pend_del t k))" by (rule kl.free_delete)
    show "bitmap_wf ?k" using inv_butD(2) [OF b] by (simp add: bitmap_wf_def)
  qed (use inv_butD(3) [OF b] in simp)
  moreover have "task_wf ?k t"
    using z t(2) by (auto simp: task_wf_def list_ok_def)
  moreover have "run_wf ?k"
    by (rule run_wf_only [OF r o _ _ unused_other(1) [OF inv t]])
      (use unused_other [OF inv t] t(2) in \<open>simp_all add: runnable_def\<close>)
  ultimately show "kernel_inv ?k" using sched_inv_but by (auto simp: kernel_inv_def)
qed (use t unused_other [OF inv t] in simp_all)

lemma task_inv_Recycle: "task_inv k \<Longrightarrow> task_inv (OsRecyleFinishedTask k)"
proof (induction k rule: OsRecyleFinishedTask.induct)
  case (1 k)
  show ?case
  proof (cases "pend k RecycleTask")
    case Nil
    then show ?thesis using 1 by (simp add: OsRecyleFinishedTask.simps [of k])
  next
    case (Cons t ts)
    then have t: "t < boot" "bit (status k t) 0"
      using task_invD(5) [OF "1.prems", of t] task_invD(6) [OF "1.prems", of t RecycleTask] by auto
    have "task_inv (upd_tcb t (\<lambda>c. c\<lparr>topOfStack := 0\<rparr>) (pend_head FreeTask t (pend_del t k)))"
      by (rule task_inv_view [OF task_inv_to_free [OF "1.prems" t] view_upd_tcb]) simp_all
    then show ?thesis using 1(1) [OF Cons] Cons by (simp add: OsRecyleFinishedTask.simps [of k])
  qed
qed

text \<open>A new task: its block leaves the free list, suspended and with a valid priority.\<close>

lemma task_inv_new:
  assumes inv: "task_inv k" and t: "t < boot" "bit (status k t) 0"
    and f: "\<And>c. taskStatus (f c) = OS_TASK_STATUS_SUSPEND" "\<And>c. unat (priority (f c)) < 32"
      "\<And>c. taskID (f c) = taskID c" "\<And>c. responseTime (f c) = OS_SORT_LINK_INVALID_TIME"
  shows "task_inv (upd_tcb t f (pend_del t k))"
proof (rule task_inv_only [OF inv _ t(1)])
  let ?k = "upd_tcb t f (pend_del t k)"
  note s = task_invD(8) [OF inv] and r = task_invD(9) [OF inv]
  have b: "inv_but t (pend_del t k)" by (rule inv_but_del [OF s t(2)])
  show o: "only t k ?k" by (intro only_steps)
  have nl: "t \<notin> set (taskSortLink k)" by (rule unused_asleep(1) [OF s t(2)])
  have "inv_but t ?k"
  proof (rule inv_but_only [OF b only_primitives(1)])
    show "link_wf OS_SORT_LINK_TASK ?k"
      using inv_butD(3) [OF b] nl by (subst link_wf_same) auto
  qed (use inv_butD [OF b] in \<open>simp_all add: bitmap_wf_def\<close>)
  moreover have "task_wf ?k t"
    using nl f by (simp add: task_wf_def list_ok_def flag_simps)
  moreover have "run_wf ?k"
    by (rule run_wf_only [OF r o _ _ unused_other(1) [OF inv t]])
      (use unused_other [OF inv t] f(1) in \<open>simp_all add: flag_simps runnable_def\<close>)
  ultimately show "kernel_inv ?k" using sched_inv_but by (auto simp: kernel_inv_def)
qed (use t f unused_other [OF inv t] in \<open>simp_all add: flag_simps\<close>)

section \<open>Every operation keeps the invariant\<close>

lemma valid_id:
  assumes "task_inv k" "OsCheckTaskIDValid tid k = LOS_OK"
  shows "unat tid < boot" "unat tid \<noteq> unat (g_idleTaskID k)"
proof -
  have "tid \<noteq> g_idleTaskID k \<and> \<not> g_taskMaxNum k \<le> tid"
    using assms(2) by (auto simp: OsCheckTaskIDValid_def split: if_splits)
  then show "unat tid < boot" "unat tid \<noteq> unat (g_idleTaskID k)"
    using task_invD(2) [OF assms(1)] by (simp_all add: word_le_nat_alt word_unat_eq_iff)
qed

lemma task_inv_Suspend:
  assumes inv: "task_inv k"
  shows "task_inv (snd (LOS_TaskSuspend tid k))"
proof (cases "OsCheckTaskIDValid tid k = LOS_OK \<and> \<not> bit (status k (unat tid)) 0 \<and>
    \<not> bit (status k (unat tid)) 1 \<and> \<not> (running k (unat tid) \<and> g_losTaskLock k \<noteq> 0)")
  case True
  note v = valid_id [OF inv conjunct1 [OF True]]
  have "task_inv (suspended (unat tid) k)" using task_inv_suspended [OF inv v(1,2)] True by blast
  moreover have "snd (LOS_TaskSuspend tid k) = suspended (unat tid) k \<or>
      snd (LOS_TaskSuspend tid k) = LOS_Schedule (suspended (unat tid) k)"
    using True by (auto simp: LOS_TaskSuspend_def Let_def suspended_def flag_simps)
  ultimately show ?thesis using task_inv_Schedule by metis
next
  case False
  then have "snd (LOS_TaskSuspend tid k) = k" by (auto simp: LOS_TaskSuspend_def Let_def flag_simps)
  then show ?thesis using inv by simp
qed

text \<open>\<^verbatim>\<open>LOS_TaskResume\<close> does not look at the running flag, so it must not be applied to a task
  that has suspended itself and has not been switched out yet.\<close>

lemma task_inv_Resume:
  assumes inv: "task_inv k" and nr: "\<not> running k (unat tid)"
  shows "task_inv (snd (LOS_TaskResume tid k))"
proof (cases "unat tid \<le> LOSCFG_BASE_CORE_TSK_LIMIT \<and> \<not> bit (status k (unat tid)) 0 \<and> bit (status k (unat tid)) 1")
  case True
  let ?t = "unat tid" let ?k = "clr_status (unat tid) OS_TASK_STATUS_SUSPEND k"
  have t: "?t < boot" using True by (simp add: LOSCFG_BASE_CORE_TSK_LIMIT_def)
  note s = task_invD(8) [OF inv]
  have nready: "\<not> ready k ?t" using task_wfD(5) [OF sched_invD(4) [OF s]] True by blast
  have ni: "?t \<noteq> unat (g_idleTaskID k)"
    using task_invD(9) [OF inv] True by (auto simp: run_wf_def idle_wf_def Let_def)
  have k1: "task_inv ?k" if "pending k ?t \<or> bit (status k ?t) 5"
    using task_inv_clr_suspend [OF inv t ni _ nready that] True by blast
  have tr: "?t \<noteq> runTask k" using nr task_invD(9) [OF inv] True by (auto simp: run_wf_def)
  have "task_inv (OsSchedTaskEnQueue ?t ?k)" if "\<not> pending k ?t" "\<not> bit (status k ?t) 5"
    by (rule task_inv_made_ready [OF inv t ni tr only_primitives(3) inv_suspend_flag(2) [OF s nready]])
      (use that True nready in \<open>simp_all add: flag_simps\<close>)
  then show ?thesis
    using True k1 task_inv_Schedule
    by (auto simp: LOS_TaskResume_def Let_def flag_simps OS_CHECK_TASK_BLOCK_def)
next
  case False
  then have "snd (LOS_TaskResume tid k) = k" by (auto simp: LOS_TaskResume_def Let_def flag_simps)
  then show ?thesis using inv by simp
qed

lemma task_inv_Delete:
  assumes inv: "task_inv k"
  shows "task_inv (snd (LOS_TaskDelete tid k))"
proof (cases "OsCheckTaskIDValid tid k = LOS_OK \<and> \<not> bit (status k (unat tid)) 0")
  case True
  let ?t = "unat tid"
  define k1 where "k1 = (if running k ?t \<and> g_losTaskLock k \<noteq> 0 then k\<lparr>g_losTaskLock := 0\<rparr> else k)"
  have inv1: "task_inv k1"
    unfolding k1_def using inv by (auto intro!: task_inv_view [of k] sched_viewI)
  have same: "tcb k1 = tcb k" "runTask k1 = runTask k" "g_idleTaskID k1 = g_idleTaskID k" by (simp_all add: k1_def)
  note v = valid_id [OF inv conjunct1 [OF True]]
  have u: "\<not> bit (status k1 ?t) 0" "?t \<noteq> unat (g_idleTaskID k1)" using True v by (simp_all add: same)
  have run: "running k ?t \<longleftrightarrow> ?t = runTask k1" using task_invD(9) [OF inv] True by (auto simp: run_wf_def same)
  define k3 where "k3 = upd_tcb ?t (\<lambda>c. c\<lparr>taskStatus := OS_TASK_STATUS_UNUSED\<rparr>)
      (upd_tcb ?t (\<lambda>c. c\<lparr>taskEventID := OS_NULL_INT, eventMask := 0\<rparr>) (OsSchedTaskExit ?t k1))"
  have eq: "snd (LOS_TaskDelete tid k) = (if running k ?t then LOS_Schedule (OsRunningTaskDelete tid ?t k3)
      else upd_tcb ?t (\<lambda>c. c\<lparr>topOfStack := 0\<rparr>) (pend_head FreeTask ?t k3))"
    using True Exit_clean(3) [OF task_invD(8) [OF inv1] u(1)]
    by (simp add: LOS_TaskDelete_def Let_def flag_simps k1_def [symmetric] k3_def [symmetric] same)
  show ?thesis
    unfolding eq
    using task_inv_delete_self [OF inv1 v(1) u(2,1) _ k3_def, of tid]
      task_inv_delete_other [OF inv1 v(1) u(2,1) _ k3_def] run task_inv_Schedule by (cases "running k ?t") simp_all
next
  case False
  then have "snd (LOS_TaskDelete tid k) = k" by (auto simp: LOS_TaskDelete_def Let_def flag_simps)
  then show ?thesis using inv by simp
qed

lemma param_checked:
  assumes "OsTaskInitParamCheck ld param = (LOS_OK, param')"
  obtains p where "param' = Some p" "unat (usTaskPrio p) < 32"
  using assms by (auto simp: OsTaskInitParamCheck_def Let_def split: option.splits if_splits)

lemma boot_u32: "t < boot \<Longrightarrow> unat (of_nat t :: u32) = t"
  by (rule unat_of_nat_small) simp

text \<open>The possible outcomes of \<^verbatim>\<open>LOS_TaskCreateOnly\<close>.\<close>

lemma LOS_TaskCreateOnly_cases:
  assumes inv: "task_inv k"
  obtains (param) r where "LOS_TaskCreateOnly ld idn param stk k = (r, None, k)" "r \<noteq> LOS_OK"
      "r = LOS_ERRNO_TSK_ID_INVALID \<or> r = fst (OsTaskInitParamCheck ld param)"
  | (full) "LOS_TaskCreateOnly ld idn param stk k = (LOS_ERRNO_TSK_TCB_UNAVAILABLE, None, OsRecyleFinishedTask k)"
      "pend (OsRecyleFinishedTask k) FreeTask = []"
  | (memory) t ts where "stk = 0" "pend (OsRecyleFinishedTask k) FreeTask = t # ts"
      "LOS_TaskCreateOnly ld idn param stk k =
         (LOS_ERRNO_TSK_NO_MEMORY, None, pend_head FreeTask t (pend_del t (OsRecyleFinishedTask k)))"
  | (new) t ts p where "stk \<noteq> 0" "pend (OsRecyleFinishedTask k) FreeTask = t # ts" "t < boot"
      "OsTaskInitParamCheck ld param = (LOS_OK, Some p)" "unat (usTaskPrio p) < 32"
      "LOS_TaskCreateOnly ld idn param stk k =
         (LOS_OK, Some (of_nat t), snd (OsNewTaskInit ld t p stk (pend_del t (OsRecyleFinishedTask k))))"
proof -
  obtain r param' where chk: "OsTaskInitParamCheck ld param = (r, param')" by fastforce
  let ?k = "OsRecyleFinishedTask k"
  consider "idn \<or> r \<noteq> LOS_OK" | "\<not> idn" "r = LOS_OK" by blast
  then show thesis
  proof cases
    case 1
    then show thesis
      using chk that(1) [of LOS_ERRNO_TSK_ID_INVALID] that(1) [of r] by (cases idn) (auto simp: LOS_TaskCreateOnly_def)
  next
    case 2
    obtain p where p: "param' = Some p" "unat (usTaskPrio p) < 32"
      using param_checked chk 2(2) by blast
    show thesis
    proof (cases "pend ?k FreeTask")
      case Nil
      then show thesis using 2 chk that(2) by (simp add: LOS_TaskCreateOnly_def Let_def)
    next
      case (Cons t ts)
      have t: "t < boot" using task_invD(6) [OF task_inv_Recycle [OF inv], of t FreeTask] Cons by simp
      have tid: "taskID (tcb ?k t) = of_nat t" by (rule task_invD(4) [OF task_inv_Recycle [OF inv] t])
      show thesis
      proof (cases "stk = 0")
        case True
        then show thesis using 2 chk Cons that(3) by (simp add: LOS_TaskCreateOnly_def Let_def)
      next
        case False
        then show thesis
          using 2 chk Cons p t tid that(4) [OF False Cons t]
          by (simp add: LOS_TaskCreateOnly_def Let_def OsNewTaskInit_def)
      qed
    qed
  qed
qed

lemma task_inv_created:
  assumes inv: "task_inv k" and t: "t < boot" "bit (status k t) 0" and p: "unat (usTaskPrio p) < 32"
  shows "task_inv (snd (OsNewTaskInit ld t p stk (pend_del t k)))"
  unfolding OsNewTaskInit_def snd_conv by (rule task_inv_new [OF inv t]) (simp_all add: p)

lemma task_inv_CreateOnly:
  assumes inv: "task_inv k"
  shows "task_inv (snd (snd (LOS_TaskCreateOnly ld idn param stk k)))"
proof -
  note r = task_inv_Recycle [OF inv]
  have free: "t < boot" "bit (status (OsRecyleFinishedTask k) t) 0" if "pend (OsRecyleFinishedTask k) FreeTask = t # ts" for t ts
    using task_invD(5) [OF r, of t] task_invD(6) [OF r, of t FreeTask] that by auto
  show ?thesis
    using inv
  proof (cases rule: LOS_TaskCreateOnly_cases [where ld = ld and idn = idn and param = param and stk = stk])
    case (memory t ts)
    then show ?thesis using task_inv_to_free [OF r free [OF memory(2)]] by simp
  next
    case (new t ts p)
    then show ?thesis using task_inv_created [OF r free [OF new(2)] new(5)] by simp
  qed (use inv r in simp_all)
qed

lemma new_task_status:
  "status (snd (OsNewTaskInit ld t p stk k)) t = OS_TASK_STATUS_SUSPEND"
  "priority (tcb (snd (OsNewTaskInit ld t p stk k)) t) = usTaskPrio p"
  by (simp_all add: OsNewTaskInit_def)

lemma task_inv_Create:
  assumes inv: "task_inv k"
  shows "task_inv (snd (snd (LOS_TaskCreate ld idn param stk k)))"
  using inv
proof (cases rule: LOS_TaskCreateOnly_cases [where ld = ld and idn = idn and param = param and stk = stk])
  case (new t ts p)
  let ?k = "snd (OsNewTaskInit ld t p stk (pend_del t (OsRecyleFinishedTask k)))"
  have kv: "task_inv ?k" using task_inv_CreateOnly [OF inv, of ld idn param stk] new by simp
  have u: "bit (status (OsRecyleFinishedTask k) t) 0"
    using task_invD(5) [OF task_inv_Recycle [OF inv] new(3)] new(2) by simp
  note other = unused_other [OF task_inv_Recycle [OF inv] new(3) u]
  have "task_inv (OsSchedTaskEnQueue t ?k)"
    by (rule task_inv_EnQueue [OF kv new(3)])
      (use other in \<open>simp_all add: new_task_status flag_simps\<close>, simp_all add: OsNewTaskInit_def)
  then show ?thesis using new task_inv_Schedule by (simp add: LOS_TaskCreate_def Let_def boot_u32)
qed (use task_inv_CreateOnly [OF inv, of ld idn param stk] in \<open>simp_all add: LOS_TaskCreate_def Let_def\<close>)

lemma task_inv_Delay:
  assumes inv: "task_inv k" and cb: "can_block k"
  shows "task_inv (snd (LOS_TaskDelay n k))"
proof -
  let ?t = "runTask k" let ?k = "OsSchedDelay (runTask k) n k"
  note s = task_invD(8) [OF inv] and r = task_invD(9) [OF inv]
  have c: "\<not> bit (status k ?t) 0" "\<not> pending k ?t" "?t \<noteq> unat (g_idleTaskID k)"
    using cb by (simp_all add: can_block_def)
  have t: "?t < boot" using task_invD(7,10) [OF inv] c(1) by auto
  have o: "only ?t k ?k" unfolding OsSchedDelay_def by (intro only_steps)
  have "task_inv ?k"
  proof (rule task_inv_only [OF inv o t])
    have "sched_inv ?k" using r c by (intro inv_OsSchedDelay [OF s]) (simp_all add: run_wf_def)
    moreover have "run_wf ?k"
      by (rule run_wf_only [OF r o _ _ c(3)]) (use r in \<open>simp_all add: OsSchedDelay_def flag_simps run_wf_def runnable_def\<close>)
    ultimately show "kernel_inv ?k" by (simp add: kernel_inv_def)
    show "bit (status ?k ?t) 0 \<longleftrightarrow> ?t \<in> set (pend ?k FreeTask) \<union> set (pend ?k RecycleTask)"
      using used_not_listed [OF inv t c(1)] c(1) by (simp add: OsSchedDelay_def flag_simps)
  qed (use c in \<open>simp_all add: OsSchedDelay_def flag_simps\<close>)
  moreover have "task_inv (OsSchedYield k)"
    unfolding OsSchedYield_def by (rule task_inv_view [OF inv view_upd_tcb]) simp_all
  ultimately show ?thesis
    using inv task_inv_Schedule by (simp add: LOS_TaskDelay_def LOS_TaskYield_def)
qed

lemma task_inv_PriSet:
  assumes inv: "task_inv k"
  shows "task_inv (snd (LOS_TaskPriSet tid p k))"
proof -
  let ?k = "snd (OsSchedModifyTaskSchedParam (unat tid) p k)"
  note s = task_invD(8) [OF inv]
  have "task_inv ?k" if p: "unat p < 32" and tid: "tid < g_taskMaxNum k" and u: "\<not> bit (status k (unat tid)) 0"
  proof (rule task_inv_only [OF inv])
    show t: "unat tid < boot" using tid task_invD(2) [OF inv] by (simp add: word_less_nat_alt)
    show "only (unat tid) k ?k"
      unfolding OsSchedModifyTaskSchedParam_def Let_def
      by (auto intro: only_primitives only_trans [OF only_trans [OF only_DeQueue only_primitives(1)] only_EnQueue])
    show "kernel_inv ?k" by (rule kernel_inv_Modify [OF task_invD(1) [OF inv] p])
    show "bit (status ?k (unat tid)) 0 \<longleftrightarrow> unat tid \<in> set (pend ?k FreeTask) \<union> set (pend ?k RecycleTask)"
      using used_not_listed [OF inv t u] u unfolding Modify_status [OF s]
      by (auto simp: OsSchedModifyTaskSchedParam_def Let_def EnQueue_pend DeQueue_pend pl_head_def pl_tail_def)
    show "\<not> bit (status ?k (unat tid)) 0" using u unfolding Modify_status [OF s] .
  qed (simp_all, simp add: OsSchedModifyTaskSchedParam_def Let_def)
  then show ?thesis
    using inv task_inv_Schedule
    by (auto simp: LOS_TaskPriSet_def flag_simps not_le not_less less_Suc_eq_le split: prod.splits)
qed

text \<open>
  C18: The task operations keep the kernel invariants and lose no control block: creation,
  suspension, deletion (of another task and of the caller), priority changes, yielding and
  unlocking in any state, on every branch, errors included.  There are two exceptions.  A delay is
  covered when it fails (in an interrupt or with the scheduler locked), when its time is zero, and
  when its caller may block, but not when the idle task calls it or a task that is already on its way
  into a wait.  And \<^verbatim>\<open>LOS_TaskResume\<close> is covered in every state but one: of a task that has been
  suspended and still runs, which it puts into a ready queue.
\<close>

theorem task_operations_invariant:
  assumes "task_inv k"
  shows "task_inv (snd (snd (LOS_TaskCreate ld idn param stk k))) \<and> task_inv (snd (LOS_TaskSuspend tid k)) \<and>
    task_inv (snd (LOS_TaskDelete tid k)) \<and> task_inv (snd (LOS_TaskPriSet tid p k)) \<and>
    task_inv (snd (LOS_TaskYield k)) \<and> task_inv (LOS_TaskUnlock k) \<and> task_inv (OsRecyleFinishedTask k) \<and>
    (OS_INT_ACTIVE k \<or> g_losTaskLock k \<noteq> 0 \<or> n = 0 \<or> can_block k \<longrightarrow> task_inv (snd (LOS_TaskDelay n k))) \<and>
    (\<not> (running k (unat tid) \<and> bit (status k (unat tid)) 1) \<longrightarrow> task_inv (snd (LOS_TaskResume tid k)))"
proof -
  have "snd (LOS_TaskResume tid k) = k" if "\<not> bit (status k (unat tid)) 1"
    using that by (simp add: LOS_TaskResume_def Let_def flag_simps)
  then have r: "task_inv (snd (LOS_TaskResume tid k))" if "\<not> (running k (unat tid) \<and> bit (status k (unat tid)) 1)"
    using that task_inv_Resume [OF assms, of tid] assms by (cases "bit (status k (unat tid)) 1") auto
  have "task_inv (OsSchedYield k)"
    unfolding OsSchedYield_def by (rule task_inv_view [OF assms view_upd_tcb]) simp_all
  then have y: "task_inv (snd (LOS_TaskYield k))" using task_inv_Schedule by (simp add: LOS_TaskYield_def)
  have d: "task_inv (snd (LOS_TaskDelay n k))" if "OS_INT_ACTIVE k \<or> g_losTaskLock k \<noteq> 0 \<or> n = 0 \<or> can_block k"
    using that task_inv_Delay [OF assms, of n] assms y by (auto simp: LOS_TaskDelay_def)
  have "task_inv (k\<lparr>g_losTaskLock := l\<rparr>)" for l
    by (rule task_inv_view [OF assms]) (auto intro: sched_viewI)
  then have "task_inv (LOS_TaskUnlock k)"
    using assms task_inv_Schedule by (simp add: LOS_TaskUnlock_def Let_def)
  then show ?thesis
    using task_inv_Create [OF assms] task_inv_Suspend [OF assms] task_inv_Delete [OF assms] y
      task_inv_PriSet [OF assms] task_inv_Recycle [OF assms] d r
    by blast
qed

lemma demo_task_inv: "task_inv demo_kernel"
proof -
  have st: "bit (status demo_kernel t) 0 \<longleftrightarrow> t \<notin> {0, 1, 2, 3}" for t
    by (auto simp: demo_fields demo_tcb_def flag_simps)
  have "t \<in> set [4, 5, 6, 7, 8, 9, 10, 11, 12 :: nat] \<longleftrightarrow> 4 \<le> t \<and> t < boot" for t
    by (simp only: list.set insert_iff empty_iff) presburger
  then have free: "t \<in> set (pend demo_kernel FreeTask) \<longleftrightarrow> 4 \<le> t \<and> t < boot" for t
    by (simp add: demo_pend)
  have tid: "taskID (tcb demo_kernel t) = of_nat t" if "t < boot" for t
    using that by (simp add: demo_fields demo_tcb_def)
  have acc: "bit (status demo_kernel t) 0 \<longleftrightarrow> t \<in> set (pend demo_kernel FreeTask) \<union> set (pend demo_kernel RecycleTask)"
    if "t < boot" for t
    using that free [of t] unfolding st by (auto simp: demo_pend)
  have "set (pend demo_kernel l) \<subseteq> {..<boot}" for l by (auto simp: demo_pend)
  then show ?thesis
    using demo_inv tid acc st [of boot] unfolding task_inv_def
    by (simp add: demo_fields demo_status flag_simps) (simp add: demo_kernel_def)
qed

theorem task_operations_invariant_witness:
  "task_inv (snd (LOS_TaskDelete 1 demo_kernel)) \<and> task_inv (snd (LOS_TaskResume 3 demo_kernel))"
proof -
  have "\<not> running demo_kernel (unat (3 :: u32))" by (simp add: demo_fields demo_status flag_simps)
  then show ?thesis
    using task_operations_invariant [OF demo_task_inv, where tid = 1]
      task_operations_invariant [OF demo_task_inv, where tid = 3] by blast
qed

section \<open>What the operations do\<close>

lemma Recycle_tcb:
  "taskStatus (tcb (OsRecyleFinishedTask k) u) = taskStatus (tcb k u) \<and>
   priority (tcb (OsRecyleFinishedTask k) u) = priority (tcb k u) \<and>
   pend (OsRecyleFinishedTask k) RecycleTask = []"
proof (induction k rule: OsRecyleFinishedTask.induct)
  case (1 k)
  show ?case
  proof (cases "pend k RecycleTask")
    case Nil
    then show ?thesis by (simp add: OsRecyleFinishedTask.simps [of k])
  next
    case (Cons t ts)
    then show ?thesis using 1 [OF Cons] by (simp add: OsRecyleFinishedTask.simps [of k])
  qed
qed

text \<open>
  C19: \<^verbatim>\<open>LOS_TaskCreate\<close>.  When it succeeds, the identifier it returns was unused, and the new
  task is ready with the requested priority and stands in the ready queue of that priority; the
  status of every other task is unchanged.  It fails for lack of a control block exactly when no
  block is unused, and a failed creation changes no status.
\<close>

theorem task_create_correct:
  assumes "task_inv k"
  shows "case LOS_TaskCreate ld idn param stk k of (ret, tid, k') \<Rightarrow>
    (ret = LOS_OK \<longrightarrow> (\<exists>t p. tid = Some (of_nat t) \<and> t < boot \<and> bit (status k t) 0 \<and>
       OsTaskInitParamCheck ld param = (LOS_OK, Some p) \<and> status k' t = OS_TASK_STATUS_READY \<and>
       priority (tcb k' t) = usTaskPrio p \<and> t \<in> set (pend k' (PriQueue (unat (usTaskPrio p)))) \<and>
       (\<forall>u. u \<noteq> t \<longrightarrow> status k' u = status k u))) \<and>
    (ret = LOS_ERRNO_TSK_TCB_UNAVAILABLE \<longrightarrow> (\<forall>t < boot. \<not> bit (status k t) 0)) \<and>
    (ret \<noteq> LOS_OK \<longrightarrow> tid = None \<and> (\<forall>u. status k' u = status k u))"
  using assms
proof (cases rule: LOS_TaskCreateOnly_cases [where ld = ld and idn = idn and param = param and stk = stk])
  case (param r)
  have "r \<noteq> LOS_ERRNO_TSK_TCB_UNAVAILABLE"
    using param(3)
    by (auto simp: OsTaskInitParamCheck_def Let_def LOS_ERRNO_OS_ERROR_def split: if_splits option.splits)
  then show ?thesis using param by (simp add: LOS_TaskCreate_def)
next
  case full
  then have "\<not> bit (status k t) 0" if "t < boot" for t
    using task_invD(5) [OF task_inv_Recycle [OF assms] that] Recycle_tcb [of k] by simp
  then show ?thesis using full Recycle_tcb [of k] by (simp add: LOS_TaskCreate_def)
next
  case (memory t ts)
  then show ?thesis
    using Recycle_tcb [of k] by (simp add: LOS_TaskCreate_def LOS_ERRNO_OS_ERROR_def LOS_ERRNO_OS_FATAL_def)
next
  case (new t ts p)
  let ?n = "snd (OsNewTaskInit ld t p stk (pend_del t (OsRecyleFinishedTask k)))"
  let ?k = "OsSchedTaskEnQueue t ?n"
  have inv: "task_inv ?n" using task_inv_CreateOnly [OF assms, of ld idn param stk] new by simp
  have u: "bit (status (OsRecyleFinishedTask k) t) 0"
    using task_invD(5) [OF task_inv_Recycle [OF assms] new(3)] new(2) by simp
  have ni: "t \<noteq> unat (g_idleTaskID ?n)"
    using unused_other(1) [OF task_inv_Recycle [OF assms] new(3) u] by (simp add: OsNewTaskInit_def)
  then have id: "\<not> is_idle ?n t" using task_invD(4) [OF inv new(3)] boot_u32 [OF new(3)] by auto
  have st: "status ?k t = OS_TASK_STATUS_READY"
    by (rule bit_word_eqI) (auto simp: EnQueue_status new_task_status flag_simps)
  have other: "status ?k v = status k v" if "v \<noteq> t" for v
    using only_EnQueue [of t ?n] that Recycle_tcb [of k v] by (simp add: only_def task_view_def OsNewTaskInit_def)
  have "t \<in> set (pend ?k (PriQueue (unat (usTaskPrio p))))"
    using id by (simp add: EnQueue_pend new_task_status pl_head_def pl_tail_def)
  moreover have "LOS_TaskCreate ld idn param stk k = (LOS_OK, Some (of_nat t), if g_taskScheduled ?k then LOS_Schedule ?k else ?k)"
    using new by (simp add: LOS_TaskCreate_def Let_def boot_u32)
  ultimately show ?thesis using new st other u Recycle_tcb [of k t] by (auto simp: new_task_status)
qed

definition demo_param :: TSK_INIT_PARAM_S where
  "demo_param = \<lparr>pfnTaskEntry = 0x800, usTaskPrio = 4, param_uwArg = 0, uwStackSize = 0x200, pcName = Some ''app''\<rparr>"

definition demo_symbols :: symbols where
  "demo_symbols = \<lparr>sym_OsIdleTask = 0x100, sym_OsSwtmrTask = 0x180, sym_OsTaskEntry = 0x200, sym_HalSysExit = 0x300\<rparr>"

theorem task_create_correct_witness:
  "\<exists>t. fst (snd (LOS_TaskCreate demo_symbols False (Some demo_param) 0x20004000 demo_kernel)) = Some (of_nat t) \<and>
     4 \<le> t \<and> t < 13"
proof -
  have rec: "OsRecyleFinishedTask demo_kernel = demo_kernel"
    by (simp add: OsRecyleFinishedTask.simps [of demo_kernel] demo_pend)
  have "LOS_Align 0x200 8 = 0x200" by (simp add: LOS_Align_def)
  then have ok: "fst (LOS_TaskCreate demo_symbols False (Some demo_param) 0x20004000 demo_kernel) = LOS_OK"
    by (simp add: LOS_TaskCreate_def LOS_TaskCreateOnly_def OsTaskInitParamCheck_def demo_param_def demo_symbols_def
        LOSCFG_SYS_HEAP_SIZE_def LOSCFG_BASE_CORE_TSK_MIN_STACK_SIZE_def OS_TASK_STACK_ADDR_ALIGN_def Let_def
        rec demo_pend OsNewTaskInit_def)
  have "bit (status demo_kernel t) 0 \<Longrightarrow> 4 \<le> t" for t
    by (rule ccontr) (auto simp: demo_fields demo_tcb_def flag_simps not_le less_Suc_eq eval_nat_numeral)
  then show ?thesis
    using task_create_correct [OF demo_task_inv, where ld = demo_symbols and idn = False and
        param = "Some demo_param" and stk = "0x20004000"] ok
    by (auto split: prod.splits)
qed

text \<open>
  C20: Suspending a task and resuming it is invisible to what it waits for: for a task that is
  ready, waiting or asleep, both calls return \<^verbatim>\<open>LOS_OK\<close>, the status word is what it was, every
  wait list is what it was, and a task that was ready is in its ready queue again.
\<close>

theorem suspend_resume_roundtrip:
  assumes "task_inv k" "OsCheckTaskIDValid tid k = LOS_OK" "\<not> bit (status k (unat tid)) 0"
    and "\<not> bit (status k (unat tid)) 1" "\<not> running k (unat tid)"
    and "ready k (unat tid) \<or> pending k (unat tid) \<or> bit (status k (unat tid)) 5"
  shows "let k1 = snd (LOS_TaskSuspend tid k); k2 = snd (LOS_TaskResume tid k1) in
    fst (LOS_TaskSuspend tid k) = LOS_OK \<and> fst (LOS_TaskResume tid k1) = LOS_OK \<and>
    \<not> ready k1 (unat tid) \<and> status k2 (unat tid) = status k (unat tid) \<and>
    (\<forall>l. is_wait_list l \<longrightarrow> pend k2 l = pend k l) \<and>
    (ready k (unat tid) \<longrightarrow> unat tid \<in> set (pend k2 (PriQueue (prio k (unat tid)))))"
proof -
  let ?t = "unat tid"
  note v = valid_id [OF assms(1,2)]
  have s: "sched_inv k" by (rule task_invD(8) [OF assms(1)])
  note no = task_wfD(5) [OF sched_invD(4) [OF s, of ?t]]
  have idle: "\<not> is_idle k ?t" using task_invD(4) [OF assms(1) v(1)] v boot_u32 by auto
  define k1 where "k1 = snd (LOS_TaskSuspend tid k)"
  have "k1 = suspended ?t k \<or> k1 = LOS_Schedule (suspended ?t k)"
    using assms by (auto simp: k1_def LOS_TaskSuspend_def Let_def suspended_def flag_simps)
  then have k1: "tcb k1 = tcb (suspended ?t k)" "pend k1 = pend (suspended ?t k)" "g_idleTaskID k1 = g_idleTaskID k"
    by (auto simp: suspended_def schedule_defs)
  have st1: "bit (status k1 ?t) b \<longleftrightarrow> b = 1 \<or> b \<noteq> 2 \<and> bit (status k ?t) b" for b
    by (simp add: k1 suspended_status)
  have ok: "fst (LOS_TaskSuspend tid k) = LOS_OK"
    using assms by (simp add: LOS_TaskSuspend_def Let_def flag_simps)
  define kr where "kr = clr_status ?t OS_TASK_STATUS_SUSPEND k1"
  have lim: "?t \<le> LOSCFG_BASE_CORE_TSK_LIMIT" using v(1) by (simp add: LOSCFG_BASE_CORE_TSK_LIMIT_def)
  show ?thesis
  proof (cases "ready k ?t")
    case True
    let ?k2 = "OsSchedTaskEnQueue ?t kr"
    have "LOS_TaskResume tid k1 = (LOS_OK, if g_taskScheduled ?k2 then LOS_Schedule ?k2 else ?k2)"
      using lim True no assms(3) by (simp add: LOS_TaskResume_def Let_def kr_def st1 flag_simps OS_CHECK_TASK_BLOCK_def)
    moreover have "status ?k2 ?t = status k ?t"
      by (rule bit_word_eqI) (use True no st1 in \<open>auto simp: EnQueue_status kr_def flag_simps\<close>)
    moreover have "pend ?k2 l = pend k l" if "is_wait_list l" for l
      using that True idle ready_only_in [OF s True, of l]
      by (auto simp: EnQueue_pend kr_def k1 suspended_def DeQueue_pend pl_head_def pl_tail_def)
    moreover have "?t \<in> set (pend ?k2 (PriQueue (prio k ?t)))"
      using idle True by (auto simp: EnQueue_pend kr_def k1 suspended_def pl_head_def pl_tail_def)
    ultimately show ?thesis using ok st1 [of 2] by (simp add: k1_def [symmetric] Let_def)
  next
    case False
    have "LOS_TaskResume tid k1 = (LOS_OK, kr)"
      using lim assms(3,6) False by (auto simp: LOS_TaskResume_def Let_def kr_def st1 flag_simps OS_CHECK_TASK_BLOCK_def)
    moreover have "status kr ?t = status k ?t"
      by (rule bit_word_eqI) (use False assms(4) st1 in \<open>auto simp: kr_def flag_simps\<close>)
    moreover have "pend kr = pend k" using False by (simp add: kr_def k1 suspended_def)
    ultimately show ?thesis using ok st1 [of 2] False by (simp add: k1_def [symmetric] Let_def)
  qed
qed

theorem suspend_resume_roundtrip_witness:
  "status (snd (LOS_TaskResume 3 (snd (LOS_TaskSuspend 3 demo_kernel)))) 3 = OS_TASK_STATUS_PEND OR OS_TASK_STATUS_PEND_TIME"
proof -
  have "OsCheckTaskIDValid 3 demo_kernel = LOS_OK" by (simp add: OsCheckTaskIDValid_def demo_kernel_def)
  then show ?thesis
    using suspend_resume_roundtrip [OF demo_task_inv, of 3]
    by (simp add: demo_fields demo_status flag_simps Let_def)
qed

lemma assert_mono:
  "assertFailed k \<Longrightarrow> assertFailed (LOS_ASSERT b k)" "assertFailed (upd_tcb t f k) = assertFailed k"
  "assertFailed (set_status t m k) = assertFailed k" "assertFailed (clr_status t m k) = assertFailed k"
  "assertFailed (HalSysTickReload n k) = assertFailed k" "assertFailed (SchedRealSleepTimeSet n k) = assertFailed k"
  "assertFailed (OsSchedTaskDeQueue t k) = assertFailed k"
  by (simp_all add: LOS_ASSERT_def upd_tcb_def set_status_def clr_status_def HalSysTickReload_def
      SchedRealSleepTimeSet_def OsPmSleepTimeSet_def OsSchedTaskDeQueue_def OsSchedPriQueueDelete_def Let_def pend_del_def)

lemma assert_time: "assertFailed k \<Longrightarrow> assertFailed (snd (OsGetCurrSchedTimeCycle k))"
  by (simp add: OsGetCurrSchedTimeCycle_def HalGetTickCycle_def Let_def LOS_ASSERT_def)

lemma assert_expire: "assertFailed k \<Longrightarrow> assertFailed (OsSchedSetNextExpireTime s i e u k)"
  by (simp add: OsSchedSetNextExpireTime_def Let_def assert_mono assert_time split_beta)

lemma assert_EnQueue: "ready k t \<Longrightarrow> assertFailed (OsSchedTaskEnQueue t k)"
  by (simp add: OsSchedTaskEnQueue_def OsSchedPriQueueEnHead_def OsSchedPriQueueEnTail_def Let_def assert_mono
      pend_head_def pend_tail_def LOS_ASSERT_def flag_simps)

lemma assert_TaskSwitch:
  assumes "k2 = OsTimeSliceUpdate (runTask k) (fst (OsGetCurrSchedTimeCycle k)) (snd (OsGetCurrSchedTimeCycle k))"
    and "assertFailed (put_back (runTask k) k2)"
  shows "assertFailed (snd (OsSchedTaskSwitch k))"
proof -
  let ?k3 = "put_back (runTask k) k2"
  have "\<exists>k6 s i e. assertFailed k6 \<and> snd (OsSchedTaskSwitch k) = OsSchedSetNextExpireTime s i e True k6"
  proof (intro exI conjI)
    show "assertFailed (take_over (runTask k) (OsGetTopTask ?k3) (?k3\<lparr>newTask := OsGetTopTask ?k3\<rparr>))"
      using assms(2) by (simp add: take_over_def assert_mono)
  qed (simp add: OsSchedTaskSwitch_def take_over_def put_back_def Let_def split_beta assms(1))
  then show ?thesis using assert_expire by auto
qed

text \<open>
  C21: Resuming a task too early stops the kernel.  A task that has suspended itself keeps its
  running flag until it has been switched out.  If \<^verbatim>\<open>LOS_TaskResume\<close> is applied to it before
  that, from an interrupt, the task becomes ready while it still runs, and the pending task
  switch then fails its assertion that a task which is put back was not ready:
  \<^verbatim>\<open>LOS_TaskResume\<close> lacks the test of the running flag that \<^verbatim>\<open>OsSchedTaskWake\<close> makes.
\<close>

theorem resume_of_running_task_asserts:
  assumes "task_inv k" "unat tid = runTask k" "runTask k < boot" "bit (status k (runTask k)) 1"
    and "\<not> pending k (runTask k)" "\<not> bit (status k (runTask k)) 5" "\<not> bit (status k (runTask k)) 7"
  shows "let k' = snd (LOS_TaskResume tid k) in
    ready k' (runTask k) \<and> running k' (runTask k) \<and> assertFailed (snd (OsSchedTaskSwitch k'))"
proof -
  let ?t = "runTask k" let ?k = "OsSchedTaskEnQueue (runTask k) (clr_status (runTask k) OS_TASK_STATUS_SUSPEND k)"
  have u: "\<not> bit (status k ?t) 0" using task_invD(10) [OF assms(1)] assms(3) by auto
  have run: "running k ?t" using task_invD(9) [OF assms(1)] by (simp add: run_wf_def)
  have k': "snd (LOS_TaskResume tid k) = ?k \<or> snd (LOS_TaskResume tid k) = LOS_Schedule ?k"
    using assms u by (auto simp: LOS_TaskResume_def Let_def flag_simps OS_CHECK_TASK_BLOCK_def LOSCFG_BASE_CORE_TSK_LIMIT_def)
  define k1 where "k1 = snd (LOS_TaskResume tid k)"
  have t1: "tcb k1 = tcb ?k" "runTask k1 = ?t" using k' by (auto simp: k1_def)
  have st: "bit (status k1 ?t) b \<longleftrightarrow> b = 2 \<or> b \<notin> {1, 3, 5, 7} \<and> bit (status k ?t) b" for b
    by (auto simp: t1 EnQueue_status flag_simps)
  define k2 where "k2 = OsTimeSliceUpdate ?t (fst (OsGetCurrSchedTimeCycle k1)) (snd (OsGetCurrSchedTimeCycle k1))"
  have st2: "status k2 ?t = status k1 ?t"
    using sched_viewD(1) [OF trans [OF view_OsTimeSliceUpdate view_OsGetCurrSchedTimeCycle]] by (simp add: k2_def)
  have "assertFailed (OsSchedTaskEnQueue ?t k2)" by (rule assert_EnQueue) (simp add: st2 st)
  then have "assertFailed (put_back ?t k2)" using u by (simp add: put_back_def st2 st flag_simps)
  then have "assertFailed (snd (OsSchedTaskSwitch k1))"
    using assert_TaskSwitch [of k2 k1] by (simp add: k2_def t1(2))
  then show ?thesis using st run by (simp add: k1_def Let_def)
qed

theorem resume_of_running_task_asserts_witness:
  "assertFailed (snd (OsSchedTaskSwitch (snd (LOS_TaskResume 1 (suspended 1 demo_kernel)))))"
proof -
  have "task_inv (suspended 1 demo_kernel)"
    by (rule task_inv_suspended [OF demo_task_inv]) (simp_all add: demo_fields demo_status flag_simps)
  moreover have "runTask (suspended 1 demo_kernel) = 1" by (simp add: suspended_def demo_fields demo_status flag_simps)
  ultimately show ?thesis
    using resume_of_running_task_asserts [of "suspended 1 demo_kernel" 1]
    by (simp add: suspended_status demo_fields demo_status flag_simps Let_def)
qed

section \<open>The initial stack frame\<close>

lemma aligned4:
  assumes "unat (w :: u32) mod 4 = 0"
  shows "w AND NOT 3 = w"
proof (rule bit_word_eqI)
  fix n
  have "unat (take_bit 2 w) = take_bit 2 (unat w)" by (rule unsigned_take_bit_eq)
  then have "unat (take_bit 2 w) = 0" using assms by (simp add: take_bit_eq_mod [of 2 "unat w"])
  then have "take_bit 2 w = 0" by (simp only: unat_eq_0)
  then have "n < 2 \<Longrightarrow> \<not> bit w n" by (metis bit_0_eq bit_take_bit_iff bot_apply bot_bool_def)
  then have "bit (w AND NOT (mask 2)) n = bit w n"
    by (auto simp: bit_and_iff bit_not_iff bit_mask_iff dest: bit_imp_le_length)
  moreover have "(3 :: u32) = mask 2" by (simp add: mask_eq_exp_minus_1)
  ultimately show "bit (w AND NOT 3) n = bit w n" by simp
qed

text \<open>
  C22: The initial frame overruns the stack by one word.  For a stack whose address and size are
  multiples of four, every word that \<^verbatim>\<open>HalTskStackInit\<close> writes lies in the stack or in the one
  word after its end, and that word is written: it receives the machine status of the new
  task's frame, although \<^verbatim>\<open>LOS_TaskCreateOnly\<close> has asked the allocator for
  \<^verbatim>\<open>uwStackSize\<close> bytes only.
\<close>

theorem stack_frame_overrun:
  assumes "unat base + unat sz + 4 < 2 ^ 32" "unat base mod 4 = 0" "unat sz mod 4 = 0" "120 \<le> unat sz"
  shows "let (context, ws) = HalTskStackInit ld tid sz base in
    unat context = unat base + unat sz + 4 - 120 \<and>
    (\<forall>(a, w) \<in> set ws. unat base \<le> unat a \<and> unat a + 4 \<le> unat base + unat sz + 4) \<and>
    (base + sz, INITIAL_MSTATUS) \<in> set ws"
proof -
  have s: "unat (base + sz + 4) = unat base + unat sz + 4" using assms(1) by (simp add: unat_word_ariths)
  have "(unat base + unat sz + 4) mod 4 = 0" using assms(2,3) by (simp add: mod_add_eq [symmetric])
  then have al: "(base + sz + 4) AND NOT 3 = base + sz + 4" by (intro aligned4) (simp only: s)
  define c where "c = base + sz + 4 - 120"
  have c: "unat c = unat base + unat sz + 4 - 120"
  proof -
    have "(120 :: u32) \<le> base + sz + 4" using assms(4) s by (simp add: word_le_nat_alt)
    from unat_sub [OF this] show ?thesis using s unfolding c_def by simp
  qed
  have off: "unat (c + of_nat (4 * i)) = unat c + 4 * i" if "i < 30" for i
  proof -
    have "unat (of_nat (4 * i) :: u32) = 4 * i" using that by (intro unat_of_nat_small) simp
    moreover have "unat c + 4 * i < 2 ^ 32" using c assms that by simp
    ultimately show ?thesis by (simp add: unat_word_ariths)
  qed
  have h: "HalTskStackInit ld tid sz base = (c, [(base, OS_TASK_MAGIC_WORD)] @
      map (\<lambda>i. (c + of_nat (4 * i), OS_TASK_STACK_INIT)) [1..<30] @
      [(c + of_nat (4 * 1), sym_HalSysExit ld), (c + of_nat (4 * 7), tid), (c + of_nat (4 * 0), sym_OsTaskEntry ld),
       (c + of_nat (4 * 29), INITIAL_MSTATUS)])"
    using al by (simp add: HalTskStackInit_def Let_def CONTEXT_WORDS_def c_def)
  have inside: "unat base \<le> unat (c + of_nat (4 * i)) \<and> unat (c + of_nat (4 * i)) + 4 \<le> unat base + unat sz + 4"
    if "i < 30" for i
    unfolding off [OF that] c using that assms(4) by linarith
  have "c + of_nat (4 * 29) = base + sz" by (simp add: c_def)
  then have last: "(base + sz, INITIAL_MSTATUS) = (c + of_nat (4 * 29), INITIAL_MSTATUS)" by simp
  have "\<forall>(a, w) \<in> set (snd (HalTskStackInit ld tid sz base)). unat base \<le> unat a \<and> unat a + 4 \<le> unat base + unat sz + 4"
    unfolding h using inside [of 1] inside [of 7] inside [of 0] inside [of 29] inside by auto
  moreover have "(base + sz, INITIAL_MSTATUS) \<in> set (snd (HalTskStackInit ld tid sz base))"
    unfolding last h by simp
  ultimately show ?thesis using c h by (simp add: split_beta)
qed

theorem stack_frame_overrun_witness:
  "(0x20004200, INITIAL_MSTATUS) \<in> set (snd (HalTskStackInit demo_symbols 4 0x200 0x20004000))"
  using stack_frame_overrun [of "0x20004000" "0x200" demo_symbols 4] by (simp add: split_beta)

end
