(* ===== verification/Los_Swtmr.thy ===== *)
theory Los_Swtmr
  imports Queue_Spec Los_Task
begin

text \<open>
  \<^verbatim>\<open>LiteOS/kernel/src/los_swtmr.c\<close>: software timers, in the configuration of
  \<^verbatim>\<open>User/target_config.h\<close> (\<^verbatim>\<open>LOSCFG_BASE_CORE_SWTMR_ALIGN\<close> is 1).  A timer is named by
  its index in \<^verbatim>\<open>g_swtmrCBArray\<close>; the list of unused control blocks is a list of indices, and
  the running timers are in the sort link \<open>swtmrSortLink\<close>.  The expired timers' handlers are
  sent as eight byte messages to the queue that the timer task reads.
\<close>

abbreviation "LOS_ERRNO_SWTMR_PTR_NULL \<equiv> LOS_ERRNO_OS_ERROR 3 0"
abbreviation "LOS_ERRNO_SWTMR_INTERVAL_NOT_SUITED \<equiv> LOS_ERRNO_OS_ERROR 3 1"
abbreviation "LOS_ERRNO_SWTMR_MODE_INVALID \<equiv> LOS_ERRNO_OS_ERROR 3 2"
abbreviation "LOS_ERRNO_SWTMR_RET_PTR_NULL \<equiv> LOS_ERRNO_OS_ERROR 3 3"
abbreviation "LOS_ERRNO_SWTMR_MAXSIZE \<equiv> LOS_ERRNO_OS_ERROR 3 4"
abbreviation "LOS_ERRNO_SWTMR_ID_INVALID \<equiv> LOS_ERRNO_OS_ERROR 3 5"
abbreviation "LOS_ERRNO_SWTMR_NOT_CREATED \<equiv> LOS_ERRNO_OS_ERROR 3 6"
abbreviation "LOS_ERRNO_SWTMR_NO_MEMORY \<equiv> LOS_ERRNO_OS_ERROR 3 7"
abbreviation "LOS_ERRNO_SWTMR_QUEUE_CREATE_FAILED \<equiv> LOS_ERRNO_OS_ERROR 3 0xb"
abbreviation "LOS_ERRNO_SWTMR_TASK_CREATE_FAILED \<equiv> LOS_ERRNO_OS_ERROR 3 0xc"
abbreviation "LOS_ERRNO_SWTMR_NOT_STARTED \<equiv> LOS_ERRNO_OS_ERROR 3 0xd"
abbreviation "LOS_ERRNO_SWTMR_STATUS_INVALID \<equiv> LOS_ERRNO_OS_ERROR 3 0xe"
abbreviation "LOS_ERRNO_SWTMR_TICK_PTR_NULL \<equiv> LOS_ERRNO_OS_ERROR 3 0x10"
abbreviation "OS_ERRNO_SWTMR_ROUSES_INVALID \<equiv> LOS_ERRNO_OS_ERROR 3 0x11"
abbreviation "OS_ERRNO_SWTMR_ALIGN_INVALID \<equiv> LOS_ERRNO_OS_ERROR 3 0x12"

abbreviation (input) OS_SWTMR_STATUS_UNUSED :: u8 where "OS_SWTMR_STATUS_UNUSED \<equiv> 0"
abbreviation (input) OS_SWTMR_STATUS_CREATED :: u8 where "OS_SWTMR_STATUS_CREATED \<equiv> 1"
abbreviation (input) OS_SWTMR_STATUS_TICKING :: u8 where "OS_SWTMR_STATUS_TICKING \<equiv> 2"
abbreviation (input) LOS_SWTMR_MODE_ONCE :: u8 where "LOS_SWTMR_MODE_ONCE \<equiv> 0"
abbreviation (input) LOS_SWTMR_MODE_PERIOD :: u8 where "LOS_SWTMR_MODE_PERIOD \<equiv> 1"
abbreviation (input) LOS_SWTMR_MODE_NO_SELFDELETE :: u8 where "LOS_SWTMR_MODE_NO_SELFDELETE \<equiv> 2"
abbreviation (input) OS_SWTMR_ALIGN_SENSITIVE :: u8 where "OS_SWTMR_ALIGN_SENSITIVE \<equiv> 0"
abbreviation (input) OS_SWTMR_ALIGN_INSENSITIVE :: u8 where "OS_SWTMR_ALIGN_INSENSITIVE \<equiv> 1"
abbreviation (input) OS_SWTMR_ROUSES_IGNORE :: u8 where "OS_SWTMR_ROUSES_IGNORE \<equiv> 0"
abbreviation (input) OS_SWTMR_ROUSES_ALLOW :: u8 where "OS_SWTMR_ROUSES_ALLOW \<equiv> 1"

definition SWTMR_LIMIT :: u32 where "SWTMR_LIMIT = of_nat LOSCFG_BASE_CORE_SWTMR_LIMIT"
definition OS_SWTMR_MAX_TIMERID :: u32 where "OS_SWTMR_MAX_TIMERID = (0xFFFFFFFF div SWTMR_LIMIT) * SWTMR_LIMIT"
definition LOS_COMMON_DIVISOR :: u32 where "LOS_COMMON_DIVISOR = 10"
definition OS_SWTMR_HANDLE_QUEUE_SIZE :: u16 where "OS_SWTMR_HANDLE_QUEUE_SIZE = of_nat LOSCFG_BASE_CORE_SWTMR_LIMIT + 0"
definition SWTMR_HANDLER_ITEM_SIZE :: u32 where "SWTMR_HANDLER_ITEM_SIZE = 8"

section \<open>Control blocks\<close>

definition upd_swtmr :: "nat \<Rightarrow> (SWTMR_CTRL_S \<Rightarrow> SWTMR_CTRL_S) \<Rightarrow> kernel \<Rightarrow> kernel" where
  "upd_swtmr i f k = k\<lparr>g_swtmrCBArray := (g_swtmrCBArray k)(i := f (g_swtmrCBArray k i))\<rparr>"

definition upd_align :: "nat \<Rightarrow> (SwtmrAlignData \<Rightarrow> SwtmrAlignData) \<Rightarrow> kernel \<Rightarrow> kernel" where
  "upd_align i f k = k\<lparr>g_swtmrAlignID := (g_swtmrAlignID k)(i := f (g_swtmrAlignID k i))\<rparr>"

text \<open>\<^verbatim>\<open>usTimerID % LOSCFG_BASE_CORE_SWTMR_LIMIT\<close>, the index of an identifier.\<close>

definition timer_index :: "u32 \<Rightarrow> nat" where "timer_index swtmrId = unat (swtmrId mod SWTMR_LIMIT)"

text \<open>The index of a control block's alignment word.\<close>

definition align_index :: "nat \<Rightarrow> kernel \<Rightarrow> nat" where
  "align_index i k = timer_index (usTimerID (g_swtmrCBArray k i))"

definition no_align :: SwtmrAlignData where
  "no_align = \<lparr>alignTimes = 0, canMultiple = False, canAlign = False, isAligned = False\<rparr>"

section \<open>The timer task\<close>

text \<open>A message of the handler queue.\<close>

definition handler_item :: "u32 \<Rightarrow> u32 \<Rightarrow> u8 list" where
  "handler_item handler arg = le32 handler @ le32 arg"

text \<open>The body of the loop of \<^verbatim>\<open>OsSwtmrTask\<close> after \<^verbatim>\<open>LOS_QueueReadCopy\<close> has returned
  \<open>ret\<close> with \<open>readSize\<close> bytes in \<open>item\<close>.  \<open>call f a\<close> is the effect of the application's
  function at address \<open>f\<close>.  The warning it may print is not part of the state.\<close>

definition OsSwtmrTask ::
  "(u32 \<Rightarrow> u32 \<Rightarrow> kernel \<Rightarrow> kernel) \<Rightarrow> u32 \<Rightarrow> u8 list \<Rightarrow> u32 \<Rightarrow> kernel \<Rightarrow> kernel" where
  "OsSwtmrTask call ret item readSize k =
     (if ret = LOS_OK \<and> readSize = SWTMR_HANDLER_ITEM_SIZE then
        let handler = of_le32 (take 4 item); arg = of_le32 (drop 4 item) in
        if handler = 0 then k
        else let k1 = snd (LOS_TickCountGet k); k2 = call handler arg k1 in snd (LOS_TickCountGet k2)
      else k)"

definition OsSwtmrTaskCreate :: "symbols \<Rightarrow> u32 \<Rightarrow> kernel \<Rightarrow> u32 \<times> kernel" where
  "OsSwtmrTaskCreate ld stk k =
     (case LOS_TaskCreate ld False
        (Some \<lparr>pfnTaskEntry = sym_OsSwtmrTask ld, usTaskPrio = 0, param_uwArg = 0,
               uwStackSize = LOSCFG_BASE_CORE_TSK_DEFAULT_STACK_SIZE, pcName = Some ''Swt_Task''\<rparr>) stk k of
        (ret, tid, k1) \<Rightarrow> (ret, case tid of None \<Rightarrow> k1 | Some i \<Rightarrow> k1\<lparr>g_swtmrTaskID := i\<rparr>))"

section \<open>Alignment\<close>

definition OsSwtmrCalcAlignCount :: "u64 \<Rightarrow> u32 \<Rightarrow> u32 \<Rightarrow> kernel \<Rightarrow> u32" where
  "OsSwtmrCalcAlignCount currTime interval timerId k =
     (if interval = 0 then interval
      else
        let cur = g_swtmrCBArray k (timer_index timerId);
            count = OsSortLinkGetTargetExpireTime currTime (swtmrResponseTime cur) k
        in interval - (uwInterval cur - count) mod interval)"

text \<open>The loop of \<^verbatim>\<open>OsSwtmrFindAlignPos\<close> over the timers of the link, for timer \<open>i\<close>.  The
  two pairs are the candidates \<^verbatim>\<open>minInLarge\<close> and \<^verbatim>\<open>maxInLittle\<close> with their values; the
  result is the value assigned to \<^verbatim>\<open>uwCount\<close>, or \<open>None\<close> when it is left alone.\<close>

fun align_search ::
  "u64 \<Rightarrow> nat \<Rightarrow> kernel \<Rightarrow> nat list \<Rightarrow> nat option \<times> u32 \<Rightarrow> nat option \<times> u32 \<Rightarrow> u32 option" where
  "align_search currTime i k [] (minInLarge, _) (maxInLittle, _) =
     (case minInLarge of
        Some c \<Rightarrow> Some (OsSwtmrCalcAlignCount currTime (uwInterval (g_swtmrCBArray k i)) (usTimerID (g_swtmrCBArray k c)) k)
      | None \<Rightarrow>
          (case maxInLittle of
             Some c \<Rightarrow> Some (OsSortLinkGetTargetExpireTime currTime (swtmrResponseTime (g_swtmrCBArray k c)) k)
           | None \<Rightarrow> None))"
| "align_search currTime i k (cur # rest) (minInLarge, minInLargeVal) (maxInLittle, maxInLittleVal) =
     (let alg = g_swtmrAlignID k (align_index cur k); me = g_swtmrAlignID k (align_index i k);
          c = g_swtmrCBArray k cur; t = alignTimes alg; m = alignTimes me in
      if \<not> isAligned alg \<or> \<not> canAlign alg
      then align_search currTime i k rest (minInLarge, minInLargeVal) (maxInLittle, maxInLittleVal)
      else if uwInterval c = uwInterval (g_swtmrCBArray k i)
      then Some (OsSortLinkGetTargetExpireTime currTime (swtmrResponseTime c) k)
      else if \<not> canMultiple me \<or> t = 0
      then align_search currTime i k rest (minInLarge, minInLargeVal) (maxInLittle, maxInLittleVal)
      else if m = 0 then None
      else if t \<ge> m \<and> t mod m = 0
      then align_search currTime i k rest
             (if minInLargeVal > t div m then (Some cur, t div m) else (minInLarge, minInLargeVal))
             (maxInLittle, maxInLittleVal)
      else if t < m \<and> m mod t = 0
      then align_search currTime i k rest (minInLarge, minInLargeVal)
             (if maxInLittleVal > m div t then (Some cur, m div t) else (maxInLittle, maxInLittleVal))
      else align_search currTime i k rest (minInLarge, minInLargeVal) (maxInLittle, maxInLittleVal))"

definition OsSwtmrFindAlignPos :: "u64 \<Rightarrow> nat \<Rightarrow> kernel \<Rightarrow> kernel" where
  "OsSwtmrFindAlignPos currTime i k =
     (case align_search currTime i k (swtmrSortLink k) (None, OS_NULL_INT) (None, OS_NULL_INT) of
        None \<Rightarrow> k
      | Some n \<Rightarrow> upd_swtmr i (\<lambda>c. c\<lparr>uwCount := n\<rparr>) k)"

section \<open>Starting, stopping, expiry\<close>

definition OsSwtmrStart :: "nat \<Rightarrow> kernel \<Rightarrow> kernel" where
  "OsSwtmrStart i k =
     (let (currTime, k1) = OsGetCurrSchedTimeCycle k;
          k2 = upd_swtmr i (\<lambda>c. c\<lparr>uwCount := uwInterval c, ucState := OS_SWTMR_STATUS_TICKING\<rparr>) k1;
          a = align_index i k2;
          k3 = (if canAlign (g_swtmrAlignID k2 a) \<and> \<not> isAligned (g_swtmrAlignID k2 a)
                then OsSwtmrFindAlignPos currTime i (upd_align a (\<lambda>d. d\<lparr>isAligned := True\<rparr>) k2)
                else k2);
          k4 = OsAdd2SortLink i currTime (uwCount (g_swtmrCBArray k3 i)) OS_SORT_LINK_SWTMR k3
      in if LOS_TaskIsRunning k4 then OsSchedUpdateExpireTime currTime True k4 else k4)"

definition OsSwtmrDelete :: "nat \<Rightarrow> kernel \<Rightarrow> kernel" where
  "OsSwtmrDelete i k =
     (let k1 = upd_swtmr i (\<lambda>c. c\<lparr>ucState := OS_SWTMR_STATUS_UNUSED\<rparr>)
                 (k\<lparr>g_swtmrFreeList := i # g_swtmrFreeList k\<rparr>)
      in upd_align (align_index i k1) (\<lambda>_. no_align) k1)"

definition OsSwtmrStop :: "nat \<Rightarrow> kernel \<Rightarrow> kernel" where
  "OsSwtmrStop i k =
     (let k1 = upd_swtmr i (\<lambda>c. c\<lparr>ucState := OS_SWTMR_STATUS_CREATED\<rparr>)
                 (OsDeleteSortLink i OS_SORT_LINK_SWTMR k)
      in if LOS_TaskIsRunning k1 then
           let (now, k2) = OsGetCurrSchedTimeCycle k1;
               k3 = OsSchedUpdateExpireTime now True k2
           in upd_align (align_index i k3) (\<lambda>d. d\<lparr>isAligned := False\<rparr>) k3
         else k1)"

text \<open>The call does not wait, so it cannot block; its result is ignored.\<close>

definition OsSwtmrTimeoutHandle :: "nat \<Rightarrow> kernel \<Rightarrow> kernel" where
  "OsSwtmrTimeoutHandle i k =
     (let c = g_swtmrCBArray k i;
          (_, _, k1) = LOS_QueueWriteCopy (g_swtmrHandlerQueue k) False (handler_item (pfnHandler c) (uwArg c))
                         SWTMR_HANDLER_ITEM_SIZE LOS_NO_WAIT k
      in if ucMode (g_swtmrCBArray k1 i) = LOS_SWTMR_MODE_ONCE then
           upd_swtmr i (\<lambda>c. c\<lparr>usTimerID :=
             if usTimerID c < OS_SWTMR_MAX_TIMERID - SWTMR_LIMIT then usTimerID c + SWTMR_LIMIT
             else usTimerID c mod SWTMR_LIMIT\<rparr>) (OsSwtmrDelete i k1)
         else if ucMode (g_swtmrCBArray k1 i) = LOS_SWTMR_MODE_PERIOD then OsSwtmrStart i k1
         else if ucMode (g_swtmrCBArray k1 i) = LOS_SWTMR_MODE_NO_SELFDELETE
         then upd_swtmr i (\<lambda>c. c\<lparr>ucState := OS_SWTMR_STATUS_CREATED\<rparr>) k1
         else k1)"

text \<open>The loop of \<^verbatim>\<open>OsSwtmrScan\<close>; not returning is \<open>None\<close>.\<close>

partial_function (option) swtmr_scan_loop :: "u64 \<Rightarrow> kernel \<Rightarrow> kernel option" where
  "swtmr_scan_loop currTime k =
     (case swtmrSortLink k of
        [] \<Rightarrow> Some k
      | i # _ \<Rightarrow>
          if swtmrResponseTime (g_swtmrCBArray k i) \<le> currTime
          then swtmr_scan_loop currTime (OsSwtmrTimeoutHandle i (OsDeleteNodeSortLink OS_SORT_LINK_SWTMR i k))
          else Some k)"

definition OsSwtmrScan :: "kernel \<Rightarrow> (bool \<times> kernel) option" where
  "OsSwtmrScan k =
     (case swtmrSortLink k of
        [] \<Rightarrow> Some (False, k)
      | i # _ \<Rightarrow>
          let (currTime, k1) = OsGetCurrSchedTimeCycle k
          in map_option (Pair (swtmrResponseTime (g_swtmrCBArray k1 i) \<le> currTime)) (swtmr_scan_loop currTime k1))"

definition OsSwtmrGetNextTimeout :: "kernel \<Rightarrow> u32 \<times> kernel" where
  "OsSwtmrGetNextTimeout k = OsSortLinkGetNextExpireTime OS_SORT_LINK_SWTMR k"

definition OsSwtmrTimeGet :: "nat \<Rightarrow> kernel \<Rightarrow> u32 \<times> kernel" where
  "OsSwtmrTimeGet i k =
     (let (now, k1) = OsGetCurrSchedTimeCycle k
      in (OsSortLinkGetTargetExpireTime now (swtmrResponseTime (g_swtmrCBArray k1 i)) k1, k1))"

section \<open>Initialisation\<close>

text \<open>\<open>mem\<close>, \<open>queue\<close> and \<open>stk\<close> are the results of the three allocations.\<close>

definition OsSwtmrInit :: "symbols \<Rightarrow> u32 \<Rightarrow> u8 list option \<Rightarrow> u32 \<Rightarrow> kernel \<Rightarrow> u32 \<times> kernel" where
  "OsSwtmrInit ld mem queue stk k =
     (let k0 = k\<lparr>g_swtmrAlignID := (\<lambda>i. if i < LOSCFG_BASE_CORE_SWTMR_LIMIT then no_align else g_swtmrAlignID k i)\<rparr> in
      if mem = 0 then (LOS_ERRNO_SWTMR_NO_MEMORY, k0)
      else
        let k1 = k0\<lparr>g_swtmrCBArray := (\<lambda>i. if i < LOSCFG_BASE_CORE_SWTMR_LIMIT
                     then \<lparr>ucState = 0, ucMode = 0, ucRouses = 0, ucSensitive = 0, usTimerID = of_nat i, uwCount = 0,
                           uwInterval = 0, uwArg = 0, pfnHandler = 0, swtmrResponseTime = 0\<rparr>
                     else g_swtmrCBArray k i),
                   g_swtmrFreeList := [0..<LOSCFG_BASE_CORE_SWTMR_LIMIT]\<rparr>
        in case LOS_QueueCreate OS_SWTMR_HANDLE_QUEUE_SIZE False (ucast SWTMR_HANDLER_ITEM_SIZE) queue k1 of
             (ret, qid, k2) \<Rightarrow>
               let k2 = (case qid of None \<Rightarrow> k2 | Some q \<Rightarrow> k2\<lparr>g_swtmrHandlerQueue := q\<rparr>) in
               if ret \<noteq> LOS_OK then (LOS_ERRNO_SWTMR_QUEUE_CREATE_FAILED, k2)
               else case OsSwtmrTaskCreate ld stk k2 of (ret, k3) \<Rightarrow>
                 if ret \<noteq> LOS_OK then (LOS_ERRNO_SWTMR_TASK_CREATE_FAILED, k3)
                 else case OsSortLinkInit OS_SORT_LINK_SWTMR k3 of (ret, k4) \<Rightarrow>
                   if ret \<noteq> LOS_OK then (LOS_NOK, k4)
                   else case OsSchedSwtmrScanRegister True k4 of (ret, k5) \<Rightarrow>
                     if ret \<noteq> LOS_OK then (LOS_NOK, k5) else (LOS_OK, k5))"

section \<open>The programming interface\<close>

definition LOS_SwtmrCreate ::
  "u32 \<Rightarrow> u8 \<Rightarrow> u32 \<Rightarrow> bool \<Rightarrow> u32 \<Rightarrow> u8 \<Rightarrow> u8 \<Rightarrow> kernel \<Rightarrow> u32 \<times> u32 option \<times> kernel" where
  "LOS_SwtmrCreate interval mode handler idNull arg rouses sensitive k =
     (if interval = 0 then (LOS_ERRNO_SWTMR_INTERVAL_NOT_SUITED, None, k)
      else if mode \<noteq> LOS_SWTMR_MODE_ONCE \<and> mode \<noteq> LOS_SWTMR_MODE_PERIOD \<and> mode \<noteq> LOS_SWTMR_MODE_NO_SELFDELETE
      then (LOS_ERRNO_SWTMR_MODE_INVALID, None, k)
      else if handler = 0 then (LOS_ERRNO_SWTMR_PTR_NULL, None, k)
      else if idNull then (LOS_ERRNO_SWTMR_RET_PTR_NULL, None, k)
      else if rouses \<noteq> OS_SWTMR_ROUSES_IGNORE \<and> rouses \<noteq> OS_SWTMR_ROUSES_ALLOW
      then (OS_ERRNO_SWTMR_ROUSES_INVALID, None, k)
      else if sensitive \<noteq> OS_SWTMR_ALIGN_INSENSITIVE \<and> sensitive \<noteq> OS_SWTMR_ALIGN_SENSITIVE
      then (OS_ERRNO_SWTMR_ALIGN_INVALID, None, k)
      else case g_swtmrFreeList k of
          [] \<Rightarrow> (LOS_ERRNO_SWTMR_MAXSIZE, None, k)
        | i # rest \<Rightarrow>
            let k1 = upd_swtmr i (\<lambda>c. c\<lparr>pfnHandler := handler, ucMode := mode, uwInterval := interval, uwCount := 0,
                       uwArg := arg, ucRouses := rouses, ucSensitive := sensitive,
                       ucState := OS_SWTMR_STATUS_CREATED\<rparr>) (k\<lparr>g_swtmrFreeList := rest\<rparr>)
            in (LOS_OK, Some (usTimerID (g_swtmrCBArray k1 i)),
                SET_SORTLIST_VALUE OS_SORT_LINK_SWTMR i OS_SORT_LINK_INVALID_TIME k1))"

text \<open>What \<^verbatim>\<open>LOS_SwtmrStart\<close> stores in the alignment word before it looks at the state.\<close>

definition mark_align :: "nat \<Rightarrow> kernel \<Rightarrow> kernel" where
  "mark_align i k =
     (let c = g_swtmrCBArray k i in
      if ucSensitive c = OS_SWTMR_ALIGN_INSENSITIVE \<and> ucMode c = LOS_SWTMR_MODE_PERIOD then
        upd_align (align_index i k)
          (\<lambda>d. if uwInterval c mod LOS_COMMON_DIVISOR = 0
               then d\<lparr>canAlign := True, canMultiple := True,
                      alignTimes := take_bit 24 (uwInterval c div LOS_COMMON_DIVISOR)\<rparr>
               else d\<lparr>canAlign := True\<rparr>) k
      else k)"

definition LOS_SwtmrStart :: "u32 \<Rightarrow> kernel \<Rightarrow> u32 \<times> kernel" where
  "LOS_SwtmrStart swtmrId k =
     (if swtmrId \<ge> OS_SWTMR_MAX_TIMERID then (LOS_ERRNO_SWTMR_ID_INVALID, k)
      else
        let i = timer_index swtmrId in
        if usTimerID (g_swtmrCBArray k i) \<noteq> swtmrId then (LOS_ERRNO_SWTMR_ID_INVALID, k)
        else
          let k1 = mark_align i k; state = ucState (g_swtmrCBArray k1 i) in
          if state = OS_SWTMR_STATUS_UNUSED then (LOS_ERRNO_SWTMR_NOT_CREATED, k1)
          else if state = OS_SWTMR_STATUS_TICKING then (LOS_OK, OsSwtmrStart i (OsSwtmrStop i k1))
          else if state = OS_SWTMR_STATUS_CREATED then (LOS_OK, OsSwtmrStart i k1)
          else (LOS_ERRNO_SWTMR_STATUS_INVALID, k1))"

definition LOS_SwtmrStop :: "u32 \<Rightarrow> kernel \<Rightarrow> u32 \<times> kernel" where
  "LOS_SwtmrStop swtmrId k =
     (if swtmrId \<ge> OS_SWTMR_MAX_TIMERID then (LOS_ERRNO_SWTMR_ID_INVALID, k)
      else
        let i = timer_index swtmrId; state = ucState (g_swtmrCBArray k i) in
        if usTimerID (g_swtmrCBArray k i) \<noteq> swtmrId then (LOS_ERRNO_SWTMR_ID_INVALID, k)
        else if state = OS_SWTMR_STATUS_UNUSED then (LOS_ERRNO_SWTMR_NOT_CREATED, k)
        else if state = OS_SWTMR_STATUS_CREATED then (LOS_ERRNO_SWTMR_NOT_STARTED, k)
        else if state = OS_SWTMR_STATUS_TICKING then (LOS_OK, OsSwtmrStop i k)
        else (LOS_ERRNO_SWTMR_STATUS_INVALID, k))"

definition LOS_SwtmrTimeGet :: "u32 \<Rightarrow> bool \<Rightarrow> kernel \<Rightarrow> u32 \<times> u32 option \<times> kernel" where
  "LOS_SwtmrTimeGet swtmrId tickNull k =
     (if swtmrId \<ge> OS_SWTMR_MAX_TIMERID then (LOS_ERRNO_SWTMR_ID_INVALID, None, k)
      else if tickNull then (LOS_ERRNO_SWTMR_TICK_PTR_NULL, None, k)
      else
        let i = timer_index swtmrId; state = ucState (g_swtmrCBArray k i) in
        if usTimerID (g_swtmrCBArray k i) \<noteq> swtmrId then (LOS_ERRNO_SWTMR_ID_INVALID, None, k)
        else if state = OS_SWTMR_STATUS_UNUSED then (LOS_ERRNO_SWTMR_NOT_CREATED, None, k)
        else if state = OS_SWTMR_STATUS_CREATED then (LOS_ERRNO_SWTMR_NOT_STARTED, None, k)
        else if state = OS_SWTMR_STATUS_TICKING
        then (case OsSwtmrTimeGet i k of (n, k1) \<Rightarrow> (LOS_OK, Some n, k1))
        else (LOS_ERRNO_SWTMR_STATUS_INVALID, None, k))"

definition LOS_SwtmrDelete :: "u32 \<Rightarrow> kernel \<Rightarrow> u32 \<times> kernel" where
  "LOS_SwtmrDelete swtmrId k =
     (if swtmrId \<ge> OS_SWTMR_MAX_TIMERID then (LOS_ERRNO_SWTMR_ID_INVALID, k)
      else
        let i = timer_index swtmrId; state = ucState (g_swtmrCBArray k i) in
        if usTimerID (g_swtmrCBArray k i) \<noteq> swtmrId then (LOS_ERRNO_SWTMR_ID_INVALID, k)
        else if state = OS_SWTMR_STATUS_UNUSED then (LOS_ERRNO_SWTMR_NOT_CREATED, k)
        else if state = OS_SWTMR_STATUS_TICKING then (LOS_OK, OsSwtmrDelete i (OsSwtmrStop i k))
        else if state = OS_SWTMR_STATUS_CREATED then (LOS_OK, OsSwtmrDelete i k)
        else (LOS_ERRNO_SWTMR_STATUS_INVALID, k))"

end
