(* ===== verification/Swtmr_Spec.thy ===== *)
theory Swtmr_Spec
  imports Los_Swtmr
begin

text \<open>
  Correctness of the software timers: the invariant that ties a timer's state to the list its
  control block is in, its preservation by every operation, and the scan of the tick interrupt,
  which ends, leaves nothing due, and sends the handlers of the expired timers in order.

  Within a stretch of code that runs with interrupts off the tick counter of the model does not
  advance, so \<open>clock\<close> is constant there.
\<close>

section \<open>The clock\<close>

definition clock :: "kernel \<Rightarrow> u64" where
  "clock k = fst (OsGetCurrSchedTimeCycle k)"

definition clock_view :: "kernel \<Rightarrow> bool \<times> u64 \<times> u64 \<times> u64 \<times> u64" where
  "clock_view k = (g_taskScheduled k, SysTick_CNT k, SysTick_CMP k, g_schedTimerBase k, oldSchedTime k)"

lemma clock_cong: "clock_view k' = clock_view k \<Longrightarrow> clock k' = clock k"
  by (auto simp: clock_def clock_view_def OsGetCurrSchedTimeCycle_def HalGetTickCycle_def LOS_ASSERT_def Let_def)

lemma clock_read [simp]: "clock (snd (OsGetCurrSchedTimeCycle k)) = clock k"
  by (auto simp: clock_def OsGetCurrSchedTimeCycle_def HalGetTickCycle_def LOS_ASSERT_def Let_def)

lemma clock_reload:
  "clock (HalSysTickReload n ((snd (OsGetCurrSchedTimeCycle k))
      \<lparr>g_schedTimerBase := fst (OsGetCurrSchedTimeCycle k)\<rparr>)) = clock k"
  by (auto simp: clock_def OsGetCurrSchedTimeCycle_def HalGetTickCycle_def HalSysTickReload_def LOS_ASSERT_def
      Let_def)

lemma clock_sleep: "clock (SchedRealSleepTimeSet n k) = clock k"
  by (rule clock_cong) (simp add: clock_view_def SchedRealSleepTimeSet_def OsPmSleepTimeSet_def)

lemma clock_response: "clock (k\<lparr>g_schedResponseID := i, g_schedResponseTime := t\<rparr>) = clock k"
  by (rule clock_cong) (simp add: clock_view_def)

lemma clock_expire [simp]: "clock (OsSchedUpdateExpireTime start True k) = clock k"
  by (simp add: OsSchedUpdateExpireTime_def OsSchedSetNextExpireTime_def Let_def split_beta clock_reload
      clock_sleep clock_response)

section \<open>What the timers depend on\<close>

definition swtmr_view where
  "swtmr_view k = (g_swtmrCBArray k, swtmrSortLink k, g_swtmrFreeList k, g_swtmrAlignID k)"

text \<open>The rest of the state an operation on timers reads.\<close>

definition timer_env where
  "timer_env k = (clock k, sysClock k, g_swtmrHandlerQueue k)"

lemma swtmr_viewD:
  assumes "swtmr_view k' = swtmr_view k"
  shows "g_swtmrCBArray k' = g_swtmrCBArray k" "swtmrSortLink k' = swtmrSortLink k"
    "g_swtmrFreeList k' = g_swtmrFreeList k" "g_swtmrAlignID k' = g_swtmrAlignID k"
  using assms by (simp_all add: swtmr_view_def)

lemma timer_envD:
  assumes "timer_env k' = timer_env k"
  shows "clock k' = clock k" "sysClock k' = sysClock k" "g_swtmrHandlerQueue k' = g_swtmrHandlerQueue k"
    "OS_CYCLE_PER_TICK k' = OS_CYCLE_PER_TICK k"
  using assms by (simp_all add: timer_env_def OS_CYCLE_PER_TICK_def)

text \<open>Timers, queues and the clock rate, which the bookkeeping of the tick timer leaves alone.\<close>

definition timer_frame where
  "timer_frame k = (swtmr_view k, sysClock k, g_swtmrHandlerQueue k, g_allQueue k)"

lemma frame_primitives [simp]:
  "timer_frame (LOS_ASSERT b k) = timer_frame k" "timer_frame (HalSysTickReload n k) = timer_frame k"
  "timer_frame (SchedRealSleepTimeSet n k) = timer_frame k"
  "timer_frame (k\<lparr>g_schedResponseID := a\<rparr>) = timer_frame k" "timer_frame (k\<lparr>g_schedResponseTime := t\<rparr>) = timer_frame k"
  "timer_frame (k\<lparr>g_schedTimerBase := t\<rparr>) = timer_frame k" "timer_frame (k\<lparr>oldSchedTime := t\<rparr>) = timer_frame k"
  by (simp_all add: timer_frame_def swtmr_view_def LOS_ASSERT_def HalSysTickReload_def SchedRealSleepTimeSet_def
      OsPmSleepTimeSet_def)

lemma frame_read [simp]: "timer_frame (snd (OsGetCurrSchedTimeCycle k)) = timer_frame k"
  by (simp add: OsGetCurrSchedTimeCycle_def HalGetTickCycle_def Let_def)

lemma frame_expire [simp]: "timer_frame (OsSchedUpdateExpireTime start u k) = timer_frame k"
  by (simp add: OsSchedUpdateExpireTime_def OsSchedSetNextExpireTime_def Let_def split_beta)

lemma timer_frameD:
  assumes "timer_frame k' = timer_frame k"
  shows "swtmr_view k' = swtmr_view k" "g_allQueue k' = g_allQueue k"
    "clock k' = clock k \<Longrightarrow> timer_env k' = timer_env k"
  using assms by (simp_all add: timer_frame_def timer_env_def)

lemmas read_swtmr [simp] = timer_frameD [OF frame_read] timer_frameD(3) [OF frame_read clock_read]
lemmas expire_swtmr [simp] = timer_frameD [OF frame_expire] timer_frameD(3) [OF frame_expire clock_expire]

text \<open>Timer fields are not seen by the scheduler's invariant or by the queues.\<close>

lemma upd_swtmr_fields [simp]:
  "sched_view (upd_swtmr i f k) = sched_view k" "sched_view (upd_align i g k) = sched_view k"
  "runTask (upd_swtmr i f k) = runTask k" "runTask (upd_align i g k) = runTask k"
  "g_taskScheduled (upd_swtmr i f k) = g_taskScheduled k" "g_taskScheduled (upd_align i g k) = g_taskScheduled k"
  "g_allQueue (upd_swtmr i f k) = g_allQueue k" "g_allQueue (upd_align i g k) = g_allQueue k"
  "pend (upd_swtmr i f k) = pend k" "pend (upd_align i g k) = pend k"
  by (simp_all add: upd_swtmr_def upd_align_def)

lemma timer_env_cong:
  "clock_view k' = clock_view k \<Longrightarrow> sysClock k' = sysClock k \<Longrightarrow> g_swtmrHandlerQueue k' = g_swtmrHandlerQueue k \<Longrightarrow>
   timer_env k' = timer_env k"
  by (simp add: timer_env_def clock_cong [of k' k])

lemma swtmr_fields [simp]:
  "g_swtmrCBArray (upd_swtmr i f k) = (g_swtmrCBArray k)(i := f (g_swtmrCBArray k i))"
  "swtmrSortLink (upd_swtmr i f k) = swtmrSortLink k" "g_swtmrFreeList (upd_swtmr i f k) = g_swtmrFreeList k"
  "g_swtmrAlignID (upd_swtmr i f k) = g_swtmrAlignID k"
  "g_swtmrAlignID (upd_align i g k) = (g_swtmrAlignID k)(i := g (g_swtmrAlignID k i))"
  "swtmrSortLink (upd_align i g k) = swtmrSortLink k" "g_swtmrFreeList (upd_align i g k) = g_swtmrFreeList k"
  "g_swtmrCBArray (upd_align i g k) = g_swtmrCBArray k"
  by (simp_all add: upd_swtmr_def upd_align_def)

text \<open>\<open>same_sched\<close>: nothing but timers and the clock's bookkeeping changed.\<close>

definition same_sched :: "kernel \<Rightarrow> kernel \<Rightarrow> bool" where
  "same_sched k k' \<longleftrightarrow> sched_view k' = sched_view k \<and> runTask k' = runTask k \<and>
     g_taskScheduled k' = g_taskScheduled k \<and> g_allQueue k' = g_allQueue k \<and> timer_env k' = timer_env k"

lemma same_sched_refl [simp]: "same_sched k k"
  by (simp add: same_sched_def)

lemma same_sched_trans: "same_sched k k' \<Longrightarrow> same_sched k' k'' \<Longrightarrow> same_sched k k''"
  by (simp add: same_sched_def)

lemma same_sched_inv: "same_sched k k' \<Longrightarrow> kernel_inv k \<Longrightarrow> kernel_inv k'"
  using kernel_inv_view [of k' k] by (simp add: same_sched_def)

lemma same_sched_queue: "same_sched k k' \<Longrightarrow> queue_rel k' q a = queue_rel k q a"
  using queue_rel_cong [of k' q k a] sched_viewD(5) [of k' k] by (simp add: same_sched_def)

lemma run_fields_expire':
  "runTask (OsSchedUpdateExpireTime start u k) = runTask k"
  "g_taskScheduled (OsSchedUpdateExpireTime start u k) = g_taskScheduled k"
  by (simp_all add: OsSchedUpdateExpireTime_def Let_def)

lemma same_sched_fields:
  "same_sched k (k\<lparr>g_swtmrCBArray := a\<rparr>)" "same_sched k (k\<lparr>g_swtmrAlignID := b\<rparr>)"
  "same_sched k (k\<lparr>swtmrSortLink := l\<rparr>)" "same_sched k (k\<lparr>g_swtmrFreeList := fl\<rparr>)"
  unfolding same_sched_def
  by (simp_all, (rule timer_env_cong; simp add: clock_view_def)+)

lemma same_sched_clock:
  "same_sched k (snd (OsGetCurrSchedTimeCycle k))" "same_sched k (OsSchedUpdateExpireTime start True k)"
  by (simp_all add: same_sched_def run_fields_expire')

lemma same_sched_upd:
  "same_sched k (upd_swtmr i f k)" "same_sched k (upd_align i g k)"
  "same_sched k (SET_SORTLIST_VALUE OS_SORT_LINK_SWTMR i v k)"
  "same_sched k (set_link OS_SORT_LINK_SWTMR xs k)"
  by (simp_all add: upd_swtmr_def upd_align_def SET_SORTLIST_VALUE_def set_link_def same_sched_fields)

lemma same_sched_link:
  "same_sched k (OsAdd2SortLink i s n OS_SORT_LINK_SWTMR k)"
  "same_sched k (OsDeleteNodeSortLink OS_SORT_LINK_SWTMR i k)"
  "same_sched k (OsDeleteSortLink i OS_SORT_LINK_SWTMR k)"
  unfolding OsAdd2SortLink_def OsDeleteSortLink_def OsDeleteNodeSortLink_def Let_def
  by (auto intro: same_sched_trans same_sched_upd)

lemma env_upd [simp]:
  "timer_env (upd_swtmr i f k) = timer_env k" "timer_env (upd_align i g k) = timer_env k"
  using same_sched_upd(1,2) by (simp_all add: same_sched_def)

lemmas same_sched_steps = same_sched_fields same_sched_clock same_sched_upd same_sched_link

lemmas same_sched_chain = same_sched_refl same_sched_steps [THEN [2] same_sched_trans]

section \<open>Effects\<close>

lemma time_pair: "OsGetCurrSchedTimeCycle k = (clock k, snd (OsGetCurrSchedTimeCycle k))"
  by (simp add: clock_def)

lemma OsSwtmrFindAlignPos_upd:
  "\<exists>n. OsSwtmrFindAlignPos t i k = upd_swtmr i (\<lambda>c. c\<lparr>uwCount := n\<rparr>) k"
proof (cases "align_search t i k (swtmrSortLink k) (None, OS_NULL_INT) (None, OS_NULL_INT)")
  case None
  then have "OsSwtmrFindAlignPos t i k = upd_swtmr i (\<lambda>c. c\<lparr>uwCount := uwCount (g_swtmrCBArray k i)\<rparr>) k"
    by (simp add: OsSwtmrFindAlignPos_def upd_swtmr_def)
  then show ?thesis ..
qed (auto simp: OsSwtmrFindAlignPos_def)

lemma Add2SortLink_swtmr:
  "g_swtmrCBArray (OsAdd2SortLink i t n OS_SORT_LINK_SWTMR k) =
     (g_swtmrCBArray k)(i := (g_swtmrCBArray k i)\<lparr>swtmrResponseTime := t + ucast n * ucast (OS_CYCLE_PER_TICK k)\<rparr>)"
  "swtmrSortLink (OsAdd2SortLink i t n OS_SORT_LINK_SWTMR k) =
     OsAddNode2SortLink (\<lambda>j. swtmrResponseTime (g_swtmrCBArray (OsAdd2SortLink i t n OS_SORT_LINK_SWTMR k) j)) i
       (swtmrSortLink k)"
  "g_swtmrFreeList (OsAdd2SortLink i t n OS_SORT_LINK_SWTMR k) = g_swtmrFreeList k"
  "g_swtmrAlignID (OsAdd2SortLink i t n OS_SORT_LINK_SWTMR k) = g_swtmrAlignID k"
  by (simp_all add: OsAdd2SortLink_def SET_SORTLIST_VALUE_def set_link_def Let_def OsGetSortLinkAttribute_def
      link_key_def [abs_def])

text \<open>A step of the clock's bookkeeping, seen from the timers.\<close>

lemma expire_if_swtmr:
  "swtmr_view (if b then OsSchedUpdateExpireTime t True k else k) = swtmr_view k"
  by simp

lemma OsSwtmrStart_effect:
  fixes i k
  defines "k' \<equiv> OsSwtmrStart i k" and "a \<equiv> align_index i k"
  obtains n where
    "g_swtmrCBArray k' = (g_swtmrCBArray k)(i := (g_swtmrCBArray k i)\<lparr>uwCount := n,
       ucState := OS_SWTMR_STATUS_TICKING, swtmrResponseTime := clock k + ucast n * ucast (OS_CYCLE_PER_TICK k)\<rparr>)"
    "swtmrSortLink k' = OsAddNode2SortLink (\<lambda>j. swtmrResponseTime (g_swtmrCBArray k' j)) i (swtmrSortLink k)"
    "g_swtmrFreeList k' = g_swtmrFreeList k"
    "g_swtmrAlignID k' = (g_swtmrAlignID k)(a := (g_swtmrAlignID k a)
       \<lparr>isAligned := isAligned (g_swtmrAlignID k a) \<or> canAlign (g_swtmrAlignID k a)\<rparr>)"
    "\<not> canAlign (g_swtmrAlignID k a) \<or> isAligned (g_swtmrAlignID k a) \<Longrightarrow> n = uwInterval (g_swtmrCBArray k i)"
proof -
  let ?k1 = "snd (OsGetCurrSchedTimeCycle k)" and ?d = "g_swtmrAlignID k a"
  let ?k2 = "upd_swtmr i (\<lambda>c. c\<lparr>uwCount := uwInterval c, ucState := OS_SWTMR_STATUS_TICKING\<rparr>) ?k1"
  note v = swtmr_viewD [OF read_swtmr(1) [of k]]
  have swap: "c\<lparr>ucState := s, uwCount := n\<rparr> = c\<lparr>uwCount := n, ucState := s\<rparr>" for c :: SWTMR_CTRL_S and s n by simp
  have a2: "align_index i ?k2 = a" by (simp add: align_index_def a_def v)
  let ?k3 = "if canAlign ?d \<and> \<not> isAligned ?d
     then OsSwtmrFindAlignPos (clock k) i (upd_align a (\<lambda>d. d\<lparr>isAligned := True\<rparr>) ?k2) else ?k2"
  obtain n where n: "g_swtmrCBArray ?k3 = (g_swtmrCBArray k)(i := (g_swtmrCBArray k i)\<lparr>uwCount := n,
       ucState := OS_SWTMR_STATUS_TICKING\<rparr>)" "swtmrSortLink ?k3 = swtmrSortLink k"
     "g_swtmrFreeList ?k3 = g_swtmrFreeList k" "g_swtmrAlignID ?k3 = (g_swtmrAlignID k)(a := ?d
       \<lparr>isAligned := isAligned ?d \<or> canAlign ?d\<rparr>)"
     "\<not> canAlign ?d \<or> isAligned ?d \<Longrightarrow> n = uwInterval (g_swtmrCBArray k i)" "timer_env ?k3 = timer_env k"
  proof (cases "canAlign ?d \<and> \<not> isAligned ?d")
    case True
    obtain n where "OsSwtmrFindAlignPos (clock k) i (upd_align a (\<lambda>d. d\<lparr>isAligned := True\<rparr>) ?k2) =
        upd_swtmr i (\<lambda>c. c\<lparr>uwCount := n\<rparr>) (upd_align a (\<lambda>d. d\<lparr>isAligned := True\<rparr>) ?k2)"
      using OsSwtmrFindAlignPos_upd by blast
    with True show ?thesis using that [of n] by (simp add: v swap)
  next
    case False
    then have k3: "?k3 = ?k2" by (simp only: if_False)
    have d: "?d\<lparr>isAligned := isAligned ?d \<or> canAlign ?d\<rparr> = ?d" using False by (cases ?d) auto
    show ?thesis
      by (rule that [of "uwInterval (g_swtmrCBArray k i)"]; simp only: k3 d) (simp_all add: v)
  qed
  let ?k4 = "OsAdd2SortLink i (clock k) (uwCount (g_swtmrCBArray ?k3 i)) OS_SORT_LINK_SWTMR ?k3"
  have "k' = (if LOS_TaskIsRunning ?k4 then OsSchedUpdateExpireTime (clock k) True ?k4 else ?k4)"
    unfolding k'_def OsSwtmrStart_def Let_def by (subst time_pair) (simp add: a2 v)
  then have w: "swtmr_view k' = swtmr_view ?k4" by (simp only: expire_if_swtmr)
  show ?thesis
    by (rule that [of n]; simp only: swtmr_viewD [OF w] Add2SortLink_swtmr n timer_envD [OF n(6)]) (simp_all add: n(5))
qed

lemma same_sched_Start: "same_sched k (OsSwtmrStart i k)"
proof -
  have f: "same_sched k (OsSwtmrFindAlignPos t i k)" for t k
    using OsSwtmrFindAlignPos_upd [of t i k] same_sched_upd(1) by auto
  show ?thesis
    unfolding OsSwtmrStart_def Let_def by (subst time_pair)
      (auto intro!: same_sched_chain same_sched_trans [OF _ f])
qed

lemma DeleteNode_swtmr:
  "g_swtmrCBArray (OsDeleteNodeSortLink OS_SORT_LINK_SWTMR i k) =
     (g_swtmrCBArray k)(i := (g_swtmrCBArray k i)\<lparr>swtmrResponseTime := OS_SORT_LINK_INVALID_TIME\<rparr>)"
  "swtmrSortLink (OsDeleteNodeSortLink OS_SORT_LINK_SWTMR i k) = filter (\<lambda>x. x \<noteq> i) (swtmrSortLink k)"
  "g_swtmrFreeList (OsDeleteNodeSortLink OS_SORT_LINK_SWTMR i k) = g_swtmrFreeList k"
  "g_swtmrAlignID (OsDeleteNodeSortLink OS_SORT_LINK_SWTMR i k) = g_swtmrAlignID k"
  by (simp_all add: OsDeleteNodeSortLink_def SET_SORTLIST_VALUE_def set_link_def OsGetSortLinkAttribute_def)

lemma OsSwtmrStop_effect:
  fixes i k
  defines "k' \<equiv> OsSwtmrStop i k" and "a \<equiv> align_index i k"
  assumes key: "swtmrResponseTime (g_swtmrCBArray k i) \<noteq> OS_SORT_LINK_INVALID_TIME"
  shows "g_swtmrCBArray k' = (g_swtmrCBArray k)(i := (g_swtmrCBArray k i)
       \<lparr>swtmrResponseTime := OS_SORT_LINK_INVALID_TIME, ucState := OS_SWTMR_STATUS_CREATED\<rparr>)"
    and "swtmrSortLink k' = filter (\<lambda>x. x \<noteq> i) (swtmrSortLink k)" and "g_swtmrFreeList k' = g_swtmrFreeList k"
    and "\<exists>b. g_swtmrAlignID k' = (g_swtmrAlignID k)(a := (g_swtmrAlignID k a)\<lparr>isAligned := b\<rparr>)"
proof -
  let ?k1 = "upd_swtmr i (\<lambda>c. c\<lparr>ucState := OS_SWTMR_STATUS_CREATED\<rparr>) (OsDeleteNodeSortLink OS_SORT_LINK_SWTMR i k)"
  let ?k3 = "OsSchedUpdateExpireTime (clock ?k1) True (snd (OsGetCurrSchedTimeCycle ?k1))"
  have "link_key OS_SORT_LINK_SWTMR k i \<noteq> OS_SORT_LINK_INVALID_TIME" using key by (simp add: link_key_def)
  then have eq: "k' = (if LOS_TaskIsRunning ?k1
      then upd_align (align_index i ?k3) (\<lambda>d. d\<lparr>isAligned := False\<rparr>) ?k3 else ?k1)"
    unfolding k'_def OsSwtmrStop_def Let_def OsDeleteSortLink_def by (subst time_pair) simp
  have v: "swtmr_view ?k3 = swtmr_view ?k1" by (simp only: expire_swtmr read_swtmr)
  have a: "align_index i ?k3 = a"
    by (simp add: align_index_def a_def swtmr_viewD [OF v] DeleteNode_swtmr)
  have same: "d\<lparr>isAligned := isAligned d\<rparr> = d" for d :: SwtmrAlignData by simp
  show "g_swtmrCBArray k' = (g_swtmrCBArray k)(i := (g_swtmrCBArray k i)
       \<lparr>swtmrResponseTime := OS_SORT_LINK_INVALID_TIME, ucState := OS_SWTMR_STATUS_CREATED\<rparr>)"
    "swtmrSortLink k' = filter (\<lambda>x. x \<noteq> i) (swtmrSortLink k)" "g_swtmrFreeList k' = g_swtmrFreeList k"
    by (simp_all add: eq swtmr_viewD [OF v] DeleteNode_swtmr)
  show "\<exists>b. g_swtmrAlignID k' = (g_swtmrAlignID k)(a := (g_swtmrAlignID k a)\<lparr>isAligned := b\<rparr>)"
  proof (cases "LOS_TaskIsRunning ?k1")
    case True
    then show ?thesis by (intro exI [of _ False]) (simp add: eq a swtmr_viewD [OF v] DeleteNode_swtmr)
  next
    case False
    then show ?thesis
      by (intro exI [of _ "isAligned (g_swtmrAlignID k a)"]) (simp add: eq DeleteNode_swtmr same)
  qed
qed

lemma same_sched_Stop: "same_sched k (OsSwtmrStop i k)"
  unfolding OsSwtmrStop_def Let_def by (subst time_pair) (auto intro!: same_sched_chain)

lemma OsSwtmrDelete_effect:
  "g_swtmrCBArray (OsSwtmrDelete i k) = (g_swtmrCBArray k)(i := (g_swtmrCBArray k i)\<lparr>ucState := OS_SWTMR_STATUS_UNUSED\<rparr>)"
  "swtmrSortLink (OsSwtmrDelete i k) = swtmrSortLink k" "g_swtmrFreeList (OsSwtmrDelete i k) = i # g_swtmrFreeList k"
  "g_swtmrAlignID (OsSwtmrDelete i k) = (g_swtmrAlignID k)(align_index i k := no_align)"
  by (simp_all add: OsSwtmrDelete_def Let_def align_index_def)

lemma same_sched_Delete: "same_sched k (OsSwtmrDelete i k)"
  unfolding OsSwtmrDelete_def Let_def by (intro same_sched_chain)

section \<open>The invariant\<close>

lemma limits: "SWTMR_LIMIT = 6" "OS_SWTMR_MAX_TIMERID = 4294967292"
  by (simp_all add: SWTMR_LIMIT_def OS_SWTMR_MAX_TIMERID_def LOSCFG_BASE_CORE_SWTMR_LIMIT_def)

lemma timer_index_mod: "timer_index w = unat w mod 6"
  by (simp add: timer_index_def limits unat_mod_distrib)

lemma timer_index_less: "timer_index w < LOSCFG_BASE_CORE_SWTMR_LIMIT"
  by (simp add: timer_index_mod LOSCFG_BASE_CORE_SWTMR_LIMIT_def)

text \<open>The identifier of a timer that is used again keeps its index.\<close>

lemma timer_index_next:
  "w < OS_SWTMR_MAX_TIMERID - SWTMR_LIMIT \<Longrightarrow> timer_index (w + SWTMR_LIMIT) = timer_index w \<and> w + SWTMR_LIMIT < OS_SWTMR_MAX_TIMERID"
  "timer_index (w mod SWTMR_LIMIT) = timer_index w \<and> w mod SWTMR_LIMIT < OS_SWTMR_MAX_TIMERID"
proof -
  assume "w < OS_SWTMR_MAX_TIMERID - SWTMR_LIMIT"
  then have w: "unat w < 4294967286" by (simp add: limits word_less_nat_alt)
  then have "unat (w + 6) = unat w + 6" by (simp add: unat_word_ariths)
  then show "timer_index (w + SWTMR_LIMIT) = timer_index w \<and> w + SWTMR_LIMIT < OS_SWTMR_MAX_TIMERID"
    using w by (simp add: timer_index_mod limits word_less_nat_alt)
next
  have u: "unat (w mod 6) = unat w mod 6" by (simp add: unat_mod_distrib)
  have "unat w mod 6 < 6" by simp
  then have "unat (w mod 6) < 4294967292" using u by linarith
  then show "timer_index (w mod SWTMR_LIMIT) = timer_index w \<and> w mod SWTMR_LIMIT < OS_SWTMR_MAX_TIMERID"
    using u by (simp add: timer_index_mod limits word_less_nat_alt)
qed

definition timer_wf :: "kernel \<Rightarrow> nat \<Rightarrow> bool" where
  "timer_wf k i \<longleftrightarrow>
     (let c = g_swtmrCBArray k i; d = g_swtmrAlignID k i in
      timer_index (usTimerID c) = i \<and> usTimerID c < OS_SWTMR_MAX_TIMERID \<and>
      ucState c \<in> {OS_SWTMR_STATUS_UNUSED, OS_SWTMR_STATUS_CREATED, OS_SWTMR_STATUS_TICKING} \<and>
      (i \<in> set (swtmrSortLink k) \<longleftrightarrow> ucState c = OS_SWTMR_STATUS_TICKING) \<and>
      (i \<in> set (g_swtmrFreeList k) \<longleftrightarrow> ucState c = OS_SWTMR_STATUS_UNUSED) \<and>
      (ucState c \<noteq> OS_SWTMR_STATUS_UNUSED \<longrightarrow> uwInterval c \<noteq> 0 \<and>
         ucMode c \<in> {LOS_SWTMR_MODE_ONCE, LOS_SWTMR_MODE_PERIOD, LOS_SWTMR_MODE_NO_SELFDELETE}) \<and>
      (ucState c = OS_SWTMR_STATUS_CREATED \<longrightarrow> swtmrResponseTime c = OS_SORT_LINK_INVALID_TIME) \<and>
      (ucState c = OS_SWTMR_STATUS_TICKING \<longrightarrow> swtmrResponseTime c \<noteq> OS_SORT_LINK_INVALID_TIME \<and>
         (canAlign d \<longrightarrow> isAligned d)))"

definition timer_lists_wf :: "kernel \<Rightarrow> bool" where
  "timer_lists_wf k \<longleftrightarrow>
     distinct (swtmrSortLink k) \<and> sorted_by (\<lambda>i. swtmrResponseTime (g_swtmrCBArray k i)) (swtmrSortLink k) \<and>
     distinct (g_swtmrFreeList k) \<and>
     set (swtmrSortLink k) \<union> set (g_swtmrFreeList k) \<subseteq> {..<LOSCFG_BASE_CORE_SWTMR_LIMIT}"

definition swtmr_inv :: "kernel \<Rightarrow> bool" where
  "swtmr_inv k \<longleftrightarrow> timer_lists_wf k \<and> (\<forall>i < LOSCFG_BASE_CORE_SWTMR_LIMIT. timer_wf k i)"

text \<open>The clock is far enough from its wrap-around that every expiry time can be represented.\<close>

definition time_room :: "kernel \<Rightarrow> bool" where
  "time_room k \<longleftrightarrow> OS_CYCLE_PER_TICK k \<noteq> 0 \<and>
     unat (clock k) + (2 ^ 32 - 1) * unat (OS_CYCLE_PER_TICK k) < 2 ^ 64 - 1"

lemma expiry_time:
  assumes "time_room k"
  defines "t \<equiv> \<lambda>n :: u32. clock k + ucast n * ucast (OS_CYCLE_PER_TICK k)"
  shows "unat (t n) = unat (clock k) + unat n * unat (OS_CYCLE_PER_TICK k)"
    and "t n \<noteq> OS_SORT_LINK_INVALID_TIME" and "n \<noteq> 0 \<Longrightarrow> clock k < t n"
proof -
  let ?c = "OS_CYCLE_PER_TICK k"
  have "unat n < 2 ^ 32" using unsigned_less [of n] by simp
  then have n: "unat n \<le> 2 ^ 32 - 1" by simp
  have "unat n * unat ?c \<le> (2 ^ 32 - 1) * unat ?c" using n by (rule mult_le_mono1)
  then have b: "unat (clock k) + unat n * unat ?c < 2 ^ 64 - 1"
    using assms(1) unfolding time_room_def by linarith
  have u: "unat (ucast n :: u64) = unat n" "unat (ucast ?c :: u64) = unat ?c"
    by (rule unat_ucast_up, simp)+
  have "unat (ucast n * ucast ?c :: u64) = unat n * unat ?c"
    using b u by (subst unat_mult_lem [THEN iffD1]) simp_all
  then show e: "unat (t n) = unat (clock k) + unat n * unat ?c"
    unfolding t_def using b by (subst unat_add_lem [THEN iffD1]) simp_all
  then show "t n \<noteq> OS_SORT_LINK_INVALID_TIME"
    using b by (auto simp: OS_SORT_LINK_INVALID_TIME_def)
  show "clock k < t n" if "n \<noteq> 0"
  proof -
    have "0 < unat n * unat ?c" using that assms(1) by (simp add: time_room_def unat_gt_0)
    then show ?thesis using e by (simp add: word_less_nat_alt)
  qed
qed

lemma time_room_same: "same_sched k k' \<Longrightarrow> time_room k' = time_room k"
  using timer_envD [of k' k] by (simp add: same_sched_def time_room_def)

text \<open>An operation that touches one timer.\<close>

definition timer_only :: "nat \<Rightarrow> kernel \<Rightarrow> kernel \<Rightarrow> bool" where
  "timer_only i k k' \<longleftrightarrow> (\<forall>j. j \<noteq> i \<longrightarrow>
     g_swtmrCBArray k' j = g_swtmrCBArray k j \<and> g_swtmrAlignID k' j = g_swtmrAlignID k j \<and>
     (j \<in> set (swtmrSortLink k') \<longleftrightarrow> j \<in> set (swtmrSortLink k)) \<and>
     (j \<in> set (g_swtmrFreeList k') \<longleftrightarrow> j \<in> set (g_swtmrFreeList k)))"

text \<open>Timer \<open>i\<close> is out of the sort link, everything else is in order.\<close>

definition detached :: "nat \<Rightarrow> kernel \<Rightarrow> bool" where
  "detached i k \<longleftrightarrow> timer_lists_wf k \<and> (\<forall>j < LOSCFG_BASE_CORE_SWTMR_LIMIT. j \<noteq> i \<longrightarrow> timer_wf k j) \<and>
     i < LOSCFG_BASE_CORE_SWTMR_LIMIT \<and> i \<notin> set (swtmrSortLink k) \<and> i \<notin> set (g_swtmrFreeList k) \<and>
     timer_index (usTimerID (g_swtmrCBArray k i)) = i \<and> usTimerID (g_swtmrCBArray k i) < OS_SWTMR_MAX_TIMERID"

lemma detachedD:
  assumes "detached i k"
  shows "timer_lists_wf k" "i < LOSCFG_BASE_CORE_SWTMR_LIMIT" "i \<notin> set (swtmrSortLink k)"
    "i \<notin> set (g_swtmrFreeList k)" "align_index i k = i" "timer_index (usTimerID (g_swtmrCBArray k i)) = i"
    "usTimerID (g_swtmrCBArray k i) < OS_SWTMR_MAX_TIMERID"
  using assms by (simp_all add: detached_def align_index_def)

lemma timer_wf_only: "timer_only i k k' \<Longrightarrow> j \<noteq> i \<Longrightarrow> timer_wf k' j = timer_wf k j"
  by (simp add: timer_only_def timer_wf_def)

lemma swtmr_inv_attach:
  assumes "detached i k" "timer_only i k k'" "timer_lists_wf k'" "timer_wf k' i"
  shows "swtmr_inv k'"
  unfolding swtmr_inv_def
proof (intro conjI allI impI)
  fix j
  assume "j < LOSCFG_BASE_CORE_SWTMR_LIMIT"
  then show "timer_wf k' j"
    using assms timer_wf_only [OF assms(2)] by (cases "j = i") (auto simp: detached_def)
qed fact

lemma swtmr_invD:
  assumes "swtmr_inv k"
  shows "timer_lists_wf k" "i < LOSCFG_BASE_CORE_SWTMR_LIMIT \<Longrightarrow> timer_wf k i"
  using assms by (simp_all add: swtmr_inv_def)

lemma timer_wfD:
  assumes "timer_wf k i"
  shows "timer_index (usTimerID (g_swtmrCBArray k i)) = i" "usTimerID (g_swtmrCBArray k i) < OS_SWTMR_MAX_TIMERID"
    "i \<in> set (swtmrSortLink k) \<longleftrightarrow> ucState (g_swtmrCBArray k i) = OS_SWTMR_STATUS_TICKING"
    "i \<in> set (g_swtmrFreeList k) \<longleftrightarrow> ucState (g_swtmrCBArray k i) = OS_SWTMR_STATUS_UNUSED"
    "ucState (g_swtmrCBArray k i) \<noteq> OS_SWTMR_STATUS_UNUSED \<Longrightarrow> uwInterval (g_swtmrCBArray k i) \<noteq> 0 \<and>
       ucMode (g_swtmrCBArray k i) \<in> {LOS_SWTMR_MODE_ONCE, LOS_SWTMR_MODE_PERIOD, LOS_SWTMR_MODE_NO_SELFDELETE}"
    "ucState (g_swtmrCBArray k i) = OS_SWTMR_STATUS_CREATED \<Longrightarrow>
       swtmrResponseTime (g_swtmrCBArray k i) = OS_SORT_LINK_INVALID_TIME"
    "ucState (g_swtmrCBArray k i) = OS_SWTMR_STATUS_TICKING \<Longrightarrow>
       swtmrResponseTime (g_swtmrCBArray k i) \<noteq> OS_SORT_LINK_INVALID_TIME \<and>
       (canAlign (g_swtmrAlignID k i) \<longrightarrow> isAligned (g_swtmrAlignID k i))"
    "align_index i k = i"
  using assms unfolding timer_wf_def Let_def align_index_def by blast+

lemma detached_created:
  assumes inv: "swtmr_inv k" and i: "i < LOSCFG_BASE_CORE_SWTMR_LIMIT"
    and st: "ucState (g_swtmrCBArray k i) = OS_SWTMR_STATUS_CREATED"
  shows "detached i k"
  using swtmr_invD [OF inv] timer_wfD(1-4) [OF swtmr_invD(2) [OF inv i]] i st by (simp add: detached_def)

text \<open>Taking a timer out of the link.\<close>

lemma lists_wf_remove:
  assumes "timer_lists_wf k" "swtmrSortLink k' = filter (\<lambda>x. x \<noteq> i) (swtmrSortLink k)"
    "g_swtmrFreeList k' = g_swtmrFreeList k" "\<And>j. j \<noteq> i \<Longrightarrow> g_swtmrCBArray k' j = g_swtmrCBArray k j"
  shows "timer_lists_wf k'"
proof -
  have "sorted_by (\<lambda>j. swtmrResponseTime (g_swtmrCBArray k' j)) (swtmrSortLink k') =
      sorted_by (\<lambda>j. swtmrResponseTime (g_swtmrCBArray k j)) (swtmrSortLink k')"
    using assms(2,4) by (intro sorted_by_cong) simp
  moreover have "sorted_by (\<lambda>j. swtmrResponseTime (g_swtmrCBArray k j)) (swtmrSortLink k')"
    unfolding assms(2) using assms(1) by (intro sorted_by_filter) (simp add: timer_lists_wf_def)
  ultimately show ?thesis using assms(1-3) by (auto simp: timer_lists_wf_def)
qed

lemma detached_remove:
  assumes inv: "swtmr_inv k" and i: "ucState (g_swtmrCBArray k i) = OS_SWTMR_STATUS_TICKING" "i < LOSCFG_BASE_CORE_SWTMR_LIMIT"
    and only: "timer_only i k k'" and link: "swtmrSortLink k' = filter (\<lambda>x. x \<noteq> i) (swtmrSortLink k)"
    and free: "g_swtmrFreeList k' = g_swtmrFreeList k"
    and id: "usTimerID (g_swtmrCBArray k' i) = usTimerID (g_swtmrCBArray k i)"
  shows "detached i k'"
proof -
  note wf = timer_wfD [OF swtmr_invD(2) [OF inv i(2)]]
  have "timer_lists_wf k'"
    using lists_wf_remove [OF swtmr_invD(1) [OF inv] link free] only by (simp add: timer_only_def)
  moreover have "timer_wf k' j" if "j < LOSCFG_BASE_CORE_SWTMR_LIMIT" "j \<noteq> i" for j
    using timer_wf_only [OF only that(2)] swtmr_invD(2) [OF inv that(1)] by simp
  ultimately show ?thesis using wf(1,2,4) i link free id by (simp add: detached_def)
qed

lemma detached_node:
  assumes inv: "swtmr_inv k" and i: "ucState (g_swtmrCBArray k i) = OS_SWTMR_STATUS_TICKING" "i < LOSCFG_BASE_CORE_SWTMR_LIMIT"
  shows "detached i (OsDeleteNodeSortLink OS_SORT_LINK_SWTMR i k)"
  by (rule detached_remove [OF assms]) (auto simp: timer_only_def DeleteNode_swtmr)

lemma stop_inv:
  assumes inv: "swtmr_inv k" and i: "ucState (g_swtmrCBArray k i) = OS_SWTMR_STATUS_TICKING" "i < LOSCFG_BASE_CORE_SWTMR_LIMIT"
  shows "swtmr_inv (OsSwtmrStop i k)" "detached i (OsSwtmrStop i k)"
    "g_swtmrCBArray (OsSwtmrStop i k) i = (g_swtmrCBArray k i)
       \<lparr>swtmrResponseTime := OS_SORT_LINK_INVALID_TIME, ucState := OS_SWTMR_STATUS_CREATED\<rparr>"
proof -
  note wf = timer_wfD [OF swtmr_invD(2) [OF inv i(2)]]
  have key: "swtmrResponseTime (g_swtmrCBArray k i) \<noteq> OS_SORT_LINK_INVALID_TIME" using wf(7) i by blast
  note e = OsSwtmrStop_effect [OF key]
  have only: "timer_only i k (OsSwtmrStop i k)" using e wf(8) by (auto simp: timer_only_def)
  show c: "g_swtmrCBArray (OsSwtmrStop i k) i = (g_swtmrCBArray k i)
       \<lparr>swtmrResponseTime := OS_SORT_LINK_INVALID_TIME, ucState := OS_SWTMR_STATUS_CREATED\<rparr>"
    using e(1) by simp
  show d: "detached i (OsSwtmrStop i k)"
    by (rule detached_remove [OF assms only e(2,3)]) (simp add: c)
  have "timer_wf (OsSwtmrStop i k) i"
    using wf i c e(2,3) by (simp add: timer_wf_def)
  then show "swtmr_inv (OsSwtmrStop i k)"
    using swtmr_inv_attach [OF d _ detachedD(1) [OF d]] by (simp add: timer_only_def)
qed

text \<open>Putting a detached timer back: into the link, into the free list, or as a timer that is not
  running.\<close>

lemma start_inv:
  assumes d: "detached i k" and room: "time_room k" and int: "uwInterval (g_swtmrCBArray k i) \<noteq> 0"
    and mode: "ucMode (g_swtmrCBArray k i) \<in> {LOS_SWTMR_MODE_ONCE, LOS_SWTMR_MODE_PERIOD, LOS_SWTMR_MODE_NO_SELFDELETE}"
  shows "swtmr_inv (OsSwtmrStart i k)"
    and "canAlign (g_swtmrAlignID k i) \<longrightarrow> isAligned (g_swtmrAlignID k i) \<Longrightarrow>
      clock k < swtmrResponseTime (g_swtmrCBArray (OsSwtmrStart i k) i)"
proof -
  let ?k = "OsSwtmrStart i k"
  note wf = detachedD [OF d]
  obtain n where n: "g_swtmrCBArray ?k = (g_swtmrCBArray k)(i := (g_swtmrCBArray k i)\<lparr>uwCount := n,
       ucState := OS_SWTMR_STATUS_TICKING, swtmrResponseTime := clock k + ucast n * ucast (OS_CYCLE_PER_TICK k)\<rparr>)"
    "swtmrSortLink ?k = OsAddNode2SortLink (\<lambda>j. swtmrResponseTime (g_swtmrCBArray ?k j)) i (swtmrSortLink k)"
    "g_swtmrFreeList ?k = g_swtmrFreeList k"
    "g_swtmrAlignID ?k = (g_swtmrAlignID k)(i := (g_swtmrAlignID k i)
       \<lparr>isAligned := isAligned (g_swtmrAlignID k i) \<or> canAlign (g_swtmrAlignID k i)\<rparr>)"
    "\<not> canAlign (g_swtmrAlignID k i) \<or> isAligned (g_swtmrAlignID k i) \<Longrightarrow> n = uwInterval (g_swtmrCBArray k i)"
    by (rule OsSwtmrStart_effect [of i k]) (simp add: wf)
  have "sorted_by (\<lambda>j. swtmrResponseTime (g_swtmrCBArray ?k j)) (swtmrSortLink k) =
      sorted_by (\<lambda>j. swtmrResponseTime (g_swtmrCBArray k j)) (swtmrSortLink k)"
    using wf(3) n(1) by (intro sorted_by_cong) auto
  then have "sorted_by (\<lambda>j. swtmrResponseTime (g_swtmrCBArray ?k j)) (swtmrSortLink k)"
    using wf(1) by (simp add: timer_lists_wf_def)
  then have "sorted_by (\<lambda>j. swtmrResponseTime (g_swtmrCBArray ?k j)) (swtmrSortLink ?k)"
    unfolding n(2) by (rule sorted_OsAddNode2SortLink)
  moreover have "distinct (swtmrSortLink ?k)"
    unfolding n(2) using wf(1,3) by (intro distinct_OsAddNode2SortLink) (simp_all add: timer_lists_wf_def)
  moreover have s: "set (swtmrSortLink ?k) = insert i (set (swtmrSortLink k))" by (simp only: n(2) set_OsAddNode2SortLink)
  ultimately have l: "timer_lists_wf ?k" using wf(1,2) n(3) by (simp add: timer_lists_wf_def)
  have only: "timer_only i k ?k" using n(1,3,4) s by (simp add: timer_only_def)
  have "timer_wf ?k i"
    using wf int mode s n(1,3,4) expiry_time(2) [OF room, of n] by (simp add: timer_wf_def)
  then show "swtmr_inv ?k" by (rule swtmr_inv_attach [OF d only l])
  assume "canAlign (g_swtmrAlignID k i) \<longrightarrow> isAligned (g_swtmrAlignID k i)"
  then have "n \<noteq> 0" using n(5) int by auto
  then show "clock k < swtmrResponseTime (g_swtmrCBArray ?k i)"
    using expiry_time(3) [OF room] n(1) by simp
qed

lemma delete_inv:
  assumes d: "detached i k"
  shows "swtmr_inv (OsSwtmrDelete i k)"
proof -
  note wf = detachedD [OF d] and e = OsSwtmrDelete_effect [of i k]
  have "sorted_by (\<lambda>j. swtmrResponseTime (g_swtmrCBArray (OsSwtmrDelete i k) j)) (swtmrSortLink k) =
      sorted_by (\<lambda>j. swtmrResponseTime (g_swtmrCBArray k j)) (swtmrSortLink k)"
    by (rule sorted_by_cong) (simp add: e)
  then have "timer_lists_wf (OsSwtmrDelete i k)"
    using wf(1,2,4) unfolding timer_lists_wf_def e(2,3) by simp
  moreover have "timer_only i k (OsSwtmrDelete i k)" using e wf(5) by (simp add: timer_only_def)
  moreover have "timer_wf (OsSwtmrDelete i k) i" using wf e by (simp add: timer_wf_def)
  ultimately show ?thesis using swtmr_inv_attach [OF d] by blast
qed

section \<open>The programming interface\<close>

text \<open>Everything the timers rely on between two calls.\<close>

definition timers_ok :: "kernel \<Rightarrow> bool" where
  "timers_ok k \<longleftrightarrow> swtmr_inv k \<and> kernel_inv k \<and> time_room k"

lemma timers_okI: "timers_ok k \<Longrightarrow> same_sched k k' \<Longrightarrow> swtmr_inv k' \<Longrightarrow> timers_ok k'"
  using same_sched_inv time_room_same by (simp add: timers_ok_def)

lemma same_sched_mark: "same_sched k (mark_align i k)"
  by (simp add: mark_align_def Let_def same_sched_steps)

lemma mark_align_effect:
  assumes "align_index i k = i"
  shows "g_swtmrCBArray (mark_align i k) = g_swtmrCBArray k" "swtmrSortLink (mark_align i k) = swtmrSortLink k"
    "g_swtmrFreeList (mark_align i k) = g_swtmrFreeList k"
    "j \<noteq> i \<Longrightarrow> g_swtmrAlignID (mark_align i k) j = g_swtmrAlignID k j"
  using assms by (simp_all add: mark_align_def Let_def)

lemma mark_only: "align_index i k = i \<Longrightarrow> timer_only i k (mark_align i k)"
  by (simp add: timer_only_def mark_align_effect)

lemma timer_only_trans: "timer_only i k k' \<Longrightarrow> timer_only i k' k'' \<Longrightarrow> timer_only i k k''"
  by (simp add: timer_only_def)

lemma mark_stop_detached:
  assumes inv: "swtmr_inv k" and i: "ucState (g_swtmrCBArray k i) = OS_SWTMR_STATUS_TICKING" "i < LOSCFG_BASE_CORE_SWTMR_LIMIT"
  shows "detached i (OsSwtmrStop i (mark_align i k))"
    "g_swtmrCBArray (OsSwtmrStop i (mark_align i k)) i = (g_swtmrCBArray k i)
       \<lparr>swtmrResponseTime := OS_SORT_LINK_INVALID_TIME, ucState := OS_SWTMR_STATUS_CREATED\<rparr>"
proof -
  let ?m = "mark_align i k"
  note wf = timer_wfD [OF swtmr_invD(2) [OF inv i(2)]] and m = mark_align_effect [OF timer_wfD(8) [OF swtmr_invD(2) [OF inv i(2)]]]
  have key: "swtmrResponseTime (g_swtmrCBArray ?m i) \<noteq> OS_SORT_LINK_INVALID_TIME" using wf(7) i m by simp
  note e = OsSwtmrStop_effect [OF key]
  have "align_index i ?m = i" using wf(8) m by (simp add: align_index_def)
  then have "timer_only i ?m (OsSwtmrStop i ?m)" using e by (auto simp: timer_only_def)
  then have only: "timer_only i k (OsSwtmrStop i ?m)" using timer_only_trans mark_only wf(8) by blast
  show "detached i (OsSwtmrStop i ?m)"
    by (rule detached_remove [OF assms only]) (use e m in simp_all)
  show "g_swtmrCBArray (OsSwtmrStop i ?m) i = (g_swtmrCBArray k i)
       \<lparr>swtmrResponseTime := OS_SORT_LINK_INVALID_TIME, ucState := OS_SWTMR_STATUS_CREATED\<rparr>"
    using e(1) m by simp
qed

lemma mark_created_detached:
  assumes inv: "swtmr_inv k" and i: "i < LOSCFG_BASE_CORE_SWTMR_LIMIT"
    and st: "ucState (g_swtmrCBArray k i) = OS_SWTMR_STATUS_CREATED"
  shows "detached i (mark_align i k)"
proof -
  note d = detached_created [OF assms]
  note m = mark_align_effect [OF detachedD(5) [OF d]]
  have "timer_wf (mark_align i k) j = timer_wf k j" if "j \<noteq> i" for j
    using timer_wf_only [OF mark_only [OF detachedD(5) [OF d]] that] .
  moreover have "timer_lists_wf (mark_align i k)" using detachedD(1) [OF d] m by (simp add: timer_lists_wf_def)
  ultimately show ?thesis using d m by (simp add: detached_def)
qed

lemma mark_unused_inv:
  assumes inv: "swtmr_inv k" and i: "i < LOSCFG_BASE_CORE_SWTMR_LIMIT"
    and st: "ucState (g_swtmrCBArray k i) = OS_SWTMR_STATUS_UNUSED"
  shows "swtmr_inv (mark_align i k)"
proof -
  note wf = timer_wfD [OF swtmr_invD(2) [OF inv i]]
  note m = mark_align_effect [OF wf(8)]
  have "timer_wf (mark_align i k) i" using swtmr_invD(2) [OF inv i] m st by (simp add: timer_wf_def)
  then have "timer_wf (mark_align i k) j" if "j < LOSCFG_BASE_CORE_SWTMR_LIMIT" for j
    using timer_wf_only [OF mark_only [OF wf(8)], of j] swtmr_invD(2) [OF inv that] by (cases "j = i") auto
  moreover have "timer_lists_wf (mark_align i k)" using swtmr_invD(1) [OF inv] m by (simp add: timer_lists_wf_def)
  ultimately show ?thesis by (simp add: swtmr_inv_def)
qed

lemma timers_ok_Start:
  assumes ok: "timers_ok k"
  shows "timers_ok (snd (LOS_SwtmrStart sid k))"
proof -
  let ?i = "timer_index sid" and ?c = "g_swtmrCBArray k (timer_index sid)"
  have inv: "swtmr_inv k" and room: "time_room k" using ok by (simp_all add: timers_ok_def)
  have i: "?i < LOSCFG_BASE_CORE_SWTMR_LIMIT" by (rule timer_index_less)
  note wf = timer_wfD [OF swtmr_invD(2) [OF inv i]]
  note m = mark_align_effect [OF wf(8)]
  have "ucState ?c = 0 \<or> ucState ?c = 2 \<or> ucState ?c = 1"
    using swtmr_invD(2) [OF inv i] by (auto simp: timer_wf_def Let_def)
  then consider (unused) "ucState ?c = 0" | (ticking) "ucState ?c = 2" | (created) "ucState ?c = 1" by blast
  then show ?thesis
  proof cases
    case unused
    then have "timers_ok (mark_align ?i k)"
      using timers_okI [OF ok same_sched_mark mark_unused_inv [OF inv i]] by blast
    then show ?thesis using ok m unused by (simp add: LOS_SwtmrStart_def Let_def)
  next
    case ticking
    let ?k = "OsSwtmrStop ?i (mark_align ?i k)"
    have s: "same_sched k ?k" using same_sched_trans [OF same_sched_mark same_sched_Stop] .
    have "swtmr_inv (OsSwtmrStart ?i ?k)"
      using mark_stop_detached [OF inv ticking i] wf(5) ticking room time_room_same [OF s] by (intro start_inv(1)) simp_all
    then have "timers_ok (OsSwtmrStart ?i ?k)"
      using timers_okI [OF ok same_sched_trans [OF s same_sched_Start]] by blast
    then show ?thesis using ok m ticking by (simp add: LOS_SwtmrStart_def Let_def)
  next
    case created
    let ?k = "mark_align ?i k"
    have "swtmr_inv (OsSwtmrStart ?i ?k)"
      using mark_created_detached [OF inv i created] wf(5) created m room time_room_same [OF same_sched_mark]
      by (intro start_inv(1)) simp_all
    then have "timers_ok (OsSwtmrStart ?i ?k)"
      using timers_okI [OF ok same_sched_trans [OF same_sched_mark same_sched_Start]] by blast
    then show ?thesis using ok m created by (simp add: LOS_SwtmrStart_def Let_def)
  qed
qed

lemma timers_ok_Stop:
  assumes ok: "timers_ok k"
  shows "timers_ok (snd (LOS_SwtmrStop sid k))"
proof -
  have inv: "swtmr_inv k" using ok by (simp add: timers_ok_def)
  have "timers_ok (OsSwtmrStop (timer_index sid) k)" if "ucState (g_swtmrCBArray k (timer_index sid)) = 2"
    using timers_okI [OF ok same_sched_Stop stop_inv(1) [OF inv that timer_index_less]] .
  then show ?thesis using ok by (simp add: LOS_SwtmrStop_def Let_def)
qed

lemma timers_ok_Delete:
  assumes ok: "timers_ok k"
  shows "timers_ok (snd (LOS_SwtmrDelete sid k))"
proof -
  let ?i = "timer_index sid"
  have inv: "swtmr_inv k" using ok by (simp add: timers_ok_def)
  have "timers_ok (OsSwtmrDelete ?i (OsSwtmrStop ?i k))" if "ucState (g_swtmrCBArray k ?i) = 2"
    using timers_okI [OF ok same_sched_trans [OF same_sched_Stop same_sched_Delete]
        delete_inv [OF stop_inv(2) [OF inv that timer_index_less]]] .
  moreover have "timers_ok (OsSwtmrDelete ?i k)" if "ucState (g_swtmrCBArray k ?i) = 1"
    using timers_okI [OF ok same_sched_Delete delete_inv [OF detached_created [OF inv timer_index_less that]]] .
  ultimately show ?thesis using ok by (simp add: LOS_SwtmrDelete_def Let_def)
qed

lemma timers_ok_TimeGet:
  assumes ok: "timers_ok k"
  shows "timers_ok (snd (snd (LOS_SwtmrTimeGet sid tickNull k)))"
proof -
  have "swtmr_inv (snd (OsGetCurrSchedTimeCycle k))"
    using ok swtmr_viewD [OF read_swtmr(1) [of k]]
    by (simp add: timers_ok_def swtmr_inv_def timer_lists_wf_def timer_wf_def)
  then have "timers_ok (snd (OsGetCurrSchedTimeCycle k))" using timers_okI [OF ok same_sched_clock(1)] by blast
  then show ?thesis
    using ok by (simp add: LOS_SwtmrTimeGet_def OsSwtmrTimeGet_def Let_def split_beta)
qed

lemma timers_ok_Create:
  assumes ok: "timers_ok k"
  shows "timers_ok (snd (snd (LOS_SwtmrCreate interval mode handler idNull arg rouses sensitive k)))"
proof (cases "interval \<noteq> 0 \<and> mode \<in> {0, 1, 2} \<and> g_swtmrFreeList k \<noteq> []")
  case True
  then obtain i rest where fl: "g_swtmrFreeList k = i # rest" by (cases "g_swtmrFreeList k") auto
  have inv: "swtmr_inv k" using ok by (simp add: timers_ok_def)
  note l = swtmr_invD(1) [OF inv]
  have i: "i < LOSCFG_BASE_CORE_SWTMR_LIMIT" "i \<notin> set rest" using l fl by (auto simp: timer_lists_wf_def)
  note wf = timer_wfD [OF swtmr_invD(2) [OF inv i(1)]]
  let ?k = "SET_SORTLIST_VALUE OS_SORT_LINK_SWTMR i OS_SORT_LINK_INVALID_TIME
      (upd_swtmr i (\<lambda>c. c\<lparr>pfnHandler := handler, ucMode := mode, uwInterval := interval, uwCount := 0,
         uwArg := arg, ucRouses := rouses, ucSensitive := sensitive, ucState := OS_SWTMR_STATUS_CREATED\<rparr>)
         (k\<lparr>g_swtmrFreeList := rest\<rparr>))"
  have e: "g_swtmrCBArray ?k = (g_swtmrCBArray k)(i := (g_swtmrCBArray k i)\<lparr>pfnHandler := handler, ucMode := mode,
       uwInterval := interval, uwCount := 0, uwArg := arg, ucRouses := rouses, ucSensitive := sensitive,
       ucState := OS_SWTMR_STATUS_CREATED, swtmrResponseTime := OS_SORT_LINK_INVALID_TIME\<rparr>)"
    "swtmrSortLink ?k = swtmrSortLink k" "g_swtmrFreeList ?k = rest" "g_swtmrAlignID ?k = g_swtmrAlignID k"
    by (simp_all add: SET_SORTLIST_VALUE_def)
  have notin: "i \<notin> set (swtmrSortLink k)" using wf(3,4) fl by simp
  have "timer_only i k ?k" unfolding timer_only_def e by (simp add: fl)
  then have "timer_wf ?k j" if "j < LOSCFG_BASE_CORE_SWTMR_LIMIT" "j \<noteq> i" for j
    using timer_wf_only [OF _ that(2)] swtmr_invD(2) [OF inv that(1)] by blast
  moreover have "timer_wf ?k i" unfolding timer_wf_def e using wf(1,2) True i notin by auto
  moreover have "timer_lists_wf ?k"
  proof -
    have "sorted_by (\<lambda>j. swtmrResponseTime (g_swtmrCBArray ?k j)) (swtmrSortLink k) =
        sorted_by (\<lambda>j. swtmrResponseTime (g_swtmrCBArray k j)) (swtmrSortLink k)"
      using notin by (intro sorted_by_cong) (auto simp: e)
    then show ?thesis using l fl unfolding timer_lists_wf_def e(2,3) by simp
  qed
  ultimately have "swtmr_inv ?k" unfolding swtmr_inv_def by blast
  moreover have "same_sched k ?k" by (intro same_sched_chain)
  ultimately have ok': "timers_ok ?k" using timers_okI [OF ok] by blast
  show ?thesis
    unfolding LOS_SwtmrCreate_def fl list.case Let_def
    by (simp only: if_distrib [of "\<lambda>r. timers_ok (snd (snd r))"] snd_conv ok ok' if_cancel)
next
  case False
  then show ?thesis using ok by (auto simp: LOS_SwtmrCreate_def split: list.splits)
qed

text \<open>
  C25: The timer invariant.  In every state a control block is in exactly the list its state says
  (unused: the free list, running: the sort link, which is ordered by expiry time, created: none),
  its identifier maps to its index, and a timer in use has a mode and an interval that can run.
  Creating, starting, restarting, stopping, deleting a timer and asking for its remaining time
  keep this and the scheduler's invariants, whatever the arguments and whether they fail or not,
  as long as the clock is not about to wrap around.
\<close>

theorem swtmr_operations_invariant:
  assumes "timers_ok k"
  shows "timers_ok (snd (snd (LOS_SwtmrCreate interval mode handler idNull arg rouses sensitive k))) \<and>
    timers_ok (snd (LOS_SwtmrStart sid k)) \<and> timers_ok (snd (LOS_SwtmrStop sid k)) \<and>
    timers_ok (snd (LOS_SwtmrDelete sid k)) \<and> timers_ok (snd (snd (LOS_SwtmrTimeGet sid tickNull k)))"
  using assms timers_ok_Create timers_ok_Start timers_ok_Stop timers_ok_Delete timers_ok_TimeGet by blast

section \<open>Expiry\<close>

definition wake_frame where
  "wake_frame k = (swtmr_view k, clock_view k, sysClock k, g_swtmrHandlerQueue k)"

lemma wake_frame_primitives [simp]:
  "wake_frame (upd_tcb t f k) = wake_frame k" "wake_frame (set_status t m k) = wake_frame k"
  "wake_frame (clr_status t m k) = wake_frame k" "wake_frame (pend_del t k) = wake_frame k"
  "wake_frame (pend_head l t k) = wake_frame k" "wake_frame (pend_tail l t k) = wake_frame k"
  "wake_frame (LOS_ASSERT b k) = wake_frame k" "wake_frame (k\<lparr>g_queueBitmap := w\<rparr>) = wake_frame k"
  "wake_frame (OsDeleteSortLink t OS_SORT_LINK_TASK k) = wake_frame k"
  by (simp_all add: wake_frame_def swtmr_view_def clock_view_def wake_defs)

lemma wake_frame_Wake: "wake_frame (OsSchedTaskWake t k) = wake_frame k"
  by (simp add: OsSchedTaskWake_def OsSchedTaskEnQueue_def OsSchedPriQueueEnHead_def OsSchedPriQueueEnTail_def Let_def)

lemma Wake_swtmr [simp]:
  "swtmr_view (OsSchedTaskWake t k) = swtmr_view k" "clock_view (OsSchedTaskWake t k) = clock_view k"
  "sysClock (OsSchedTaskWake t k) = sysClock k" "g_swtmrHandlerQueue (OsSchedTaskWake t k) = g_swtmrHandlerQueue k"
  using wake_frame_Wake [of t k] by (simp_all add: wake_frame_def)

lemma Schedule_swtmr [simp]:
  "swtmr_view (LOS_Schedule k) = swtmr_view k" "clock_view (LOS_Schedule k) = clock_view k"
  "sysClock (LOS_Schedule k) = sysClock k" "g_swtmrHandlerQueue (LOS_Schedule k) = g_swtmrHandlerQueue k"
  by (simp_all add: schedule_defs swtmr_view_def clock_view_def)

lemma upd_queue_swtmr [simp]:
  "swtmr_view (upd_queue i f k) = swtmr_view k" "clock_view (upd_queue i f k) = clock_view k"
  "sysClock (upd_queue i f k) = sysClock k" "g_swtmrHandlerQueue (upd_queue i f k) = g_swtmrHandlerQueue k"
  by (simp_all add: upd_queue_def swtmr_view_def clock_view_def)

lemma queueSize_operate:
  "queueSize (snd (snd (OsQueueBufferOperate ty buf n q))) = queueSize q"
  by (simp add: OsQueueBufferOperate_def queue_copy_def Let_def split_beta)

lemma queue_transfer_frame:
  "swtmr_view (snd (queue_transfer i ty buf n k)) = swtmr_view k"
  "clock_view (snd (queue_transfer i ty buf n k)) = clock_view k"
  "sysClock (snd (queue_transfer i ty buf n k)) = sysClock k"
  "g_swtmrHandlerQueue (snd (queue_transfer i ty buf n k)) = g_swtmrHandlerQueue k"
  "queueSize (g_allQueue (snd (queue_transfer i ty buf n k)) j) = queueSize (g_allQueue k j)"
  by (simp_all add: queue_transfer_def Let_def split_beta rw_cnt_upd_def queueSize_operate split: list.split)

lemma queue_write_frame:
  fixes qid buf n k
  defines "k' \<equiv> snd (snd (LOS_QueueWriteCopy qid False buf n LOS_NO_WAIT k))"
  shows "swtmr_view k' = swtmr_view k" "timer_env k' = timer_env k" "queueSize (g_allQueue k' j) = queueSize (g_allQueue k j)"
proof -
  have f: "swtmr_view k' = swtmr_view k \<and> clock_view k' = clock_view k \<and> sysClock k' = sysClock k \<and>
      g_swtmrHandlerQueue k' = g_swtmrHandlerQueue k \<and> queueSize (g_allQueue k' j) = queueSize (g_allQueue k j)"
    by (simp add: k'_def LOS_QueueWriteCopy_def OsQueueOperate_def Let_def queue_transfer_frame rw_cnt_upd_def)
  then show "swtmr_view k' = swtmr_view k" "queueSize (g_allQueue k' j) = queueSize (g_allQueue k j)" by simp_all
  show "timer_env k' = timer_env k" by (rule timer_env_cong) (use f in simp_all)
qed

text \<open>The handler queue: it exists, its slots hold an item, and it represents \<open>a\<close>.\<close>

definition handler_queue :: "kernel \<Rightarrow> aqueue \<Rightarrow> bool" where
  "handler_queue k a \<longleftrightarrow>
     (let q = unat (g_swtmrHandlerQueue k) in
      q < LOSCFG_BASE_IPC_QUEUE_LIMIT \<and> queue_rel k q a \<and> 12 \<le> unat (queueSize (g_allQueue k q)))"

definition handler_msg :: "SWTMR_CTRL_S \<Rightarrow> qmsg" where
  "handler_msg c = CopyMsg (handler_item (pfnHandler c) (uwArg c))"

text \<open>An expired timer's message is appended, or lost when the queue is full.\<close>

definition deliver :: "qmsg \<Rightarrow> aqueue \<Rightarrow> aqueue" where
  "deliver m a = (if aq_full a then a else aq_put False m a)"

lemma handler_write:
  fixes h x
  assumes inv: "kernel_inv k" and hq: "handler_queue k a"
  defines "k' \<equiv> snd (snd (LOS_QueueWriteCopy (g_swtmrHandlerQueue k) False (handler_item h x) SWTMR_HANDLER_ITEM_SIZE LOS_NO_WAIT k))"
  shows "kernel_inv k' \<and> handler_queue k' (deliver (CopyMsg (handler_item h x)) a) \<and>
    swtmr_view k' = swtmr_view k \<and> timer_env k' = timer_env k"
proof -
  let ?q = "unat (g_swtmrHandlerQueue k)" and ?ty = "OS_QUEUE_OPERATE_TYPE 1 1 0" and ?buf = "handler_item h x"
  have q: "?q < LOSCFG_BASE_IPC_QUEUE_LIMIT" "queue_rel k ?q a" "12 \<le> unat (queueSize (g_allQueue k ?q))"
    using hq by (simp_all add: handler_queue_def Let_def)
  have ty: "write_type False ?ty" "\<not> OS_QUEUE_IS_POINT ?ty" by (simp_all add: write_type_def op_type_defs)
  have len: "length ?buf = 8" by (simp add: handler_item_def)
  have w: "write_ok ?ty ?buf SWTMR_HANDLER_ITEM_SIZE (g_allQueue k ?q)"
    using q(3) ty(2) len by (simp add: write_ok_def SWTMR_HANDLER_ITEM_SIZE_def)
  have wr: "written ?ty ?buf SWTMR_HANDLER_ITEM_SIZE = CopyMsg ?buf"
    using ty(2) len by (simp add: written_def SWTMR_HANDLER_ITEM_SIZE_def)
  have "OsQueueWriteParameterCheck (g_swtmrHandlerQueue k) False SWTMR_HANDLER_ITEM_SIZE LOS_NO_WAIT k = LOS_OK"
    using q(1) by (simp add: OsQueueWriteParameterCheck_def SWTMR_HANDLER_ITEM_SIZE_def)
  then have "LOS_QueueWriteCopy (g_swtmrHandlerQueue k) False ?buf SWTMR_HANDLER_ITEM_SIZE LOS_NO_WAIT k =
      OsQueueOperate (g_swtmrHandlerQueue k) ?ty ?buf SWTMR_HANDLER_ITEM_SIZE LOS_NO_WAIT k"
    by (simp add: LOS_QueueWriteCopy_def)
  then have "put_post ?q False (CopyMsg ?buf) (?buf, SWTMR_HANDLER_ITEM_SIZE) LOS_NO_WAIT k a
      (LOS_QueueWriteCopy (g_swtmrHandlerQueue k) False ?buf SWTMR_HANDLER_ITEM_SIZE LOS_NO_WAIT k)"
    using OsQueueOperate_put [OF inv _ q(2) ty(1) w, of LOS_NO_WAIT] wr by simp
  then have p: "kernel_inv k'" "queue_rel k' ?q (deliver (CopyMsg ?buf) a)"
    using q(2) by (auto simp: put_post_def k'_def deliver_def split_beta split: if_splits)
  have f: "swtmr_view k' = swtmr_view k" "timer_env k' = timer_env k" "queueSize (g_allQueue k' ?q) = queueSize (g_allQueue k ?q)"
    unfolding k'_def by (rule queue_write_frame)+
  then show ?thesis using p q timer_envD(3) [OF f(2)] by (simp add: handler_queue_def)
qed

text \<open>What becomes of a timer that expires.\<close>

definition expired_state :: "SWTMR_CTRL_S \<Rightarrow> u8" where
  "expired_state c =
     (if ucMode c = LOS_SWTMR_MODE_ONCE then OS_SWTMR_STATUS_UNUSED
      else if ucMode c = LOS_SWTMR_MODE_PERIOD then OS_SWTMR_STATUS_TICKING else OS_SWTMR_STATUS_CREATED)"

definition due :: "kernel \<Rightarrow> nat list" where
  "due k = filter (\<lambda>i. swtmrResponseTime (g_swtmrCBArray k i) \<le> clock k) (swtmrSortLink k)"

lemma filter_insert_back: "\<not> P n \<Longrightarrow> filter P (insert_back key n before behind) = filter P (rev before @ behind)"
  by (induction key n before behind rule: insert_back.induct) auto

lemma filter_add_node: "\<not> P n \<Longrightarrow> filter P (OsAddNode2SortLink key n xs) = filter P xs"
  using filter_insert_back [of P n key "rev xs" "[]"] by (auto simp: OsAddNode2SortLink_def split: list.splits)

lemma inv_renumber:
  assumes inv: "swtmr_inv k" and i: "timer_index w = i" "w < OS_SWTMR_MAX_TIMERID" "timer_index (usTimerID (g_swtmrCBArray k i)) = i"
  shows "swtmr_inv (upd_swtmr i (\<lambda>c. c\<lparr>usTimerID := w\<rparr>) k)"
proof -
  let ?k = "upd_swtmr i (\<lambda>c. c\<lparr>usTimerID := w\<rparr>) k"
  have "timer_wf ?k j" if "j < LOSCFG_BASE_CORE_SWTMR_LIMIT" for j
    using swtmr_invD(2) [OF inv that] i by (cases "j = i") (simp_all add: timer_wf_def Let_def)
  moreover have "sorted_by (\<lambda>j. swtmrResponseTime (g_swtmrCBArray ?k j)) (swtmrSortLink k) =
      sorted_by (\<lambda>j. swtmrResponseTime (g_swtmrCBArray k j)) (swtmrSortLink k)"
    by (rule sorted_by_cong) simp
  ultimately show ?thesis
    using swtmr_invD(1) [OF inv] unfolding swtmr_inv_def timer_lists_wf_def swtmr_fields(2,3) by blast
qed

lemma detached_view:
  assumes "swtmr_view k' = swtmr_view k"
  shows "detached i k' = detached i k"
  by (simp add: detached_def timer_lists_wf_def timer_wf_def swtmr_viewD [OF assms])

text \<open>The effect of the three modes on a timer that is out of the link: the others stay as they
  are, the timer gets its new state, and it is not due again.\<close>

definition expires :: "nat \<Rightarrow> kernel \<Rightarrow> kernel \<Rightarrow> bool" where
  "expires i k k' \<longleftrightarrow> swtmr_inv k' \<and> (\<forall>j. j \<noteq> i \<longrightarrow> g_swtmrCBArray k' j = g_swtmrCBArray k j) \<and>
     ucState (g_swtmrCBArray k' i) = expired_state (g_swtmrCBArray k i) \<and>
     filter (\<lambda>j. swtmrResponseTime (g_swtmrCBArray k' j) \<le> clock k) (swtmrSortLink k') = due k"

lemma due_unlinked:
  assumes "i \<notin> set (swtmrSortLink k)" "\<And>j. j \<noteq> i \<Longrightarrow> g_swtmrCBArray k' j = g_swtmrCBArray k j"
  shows "filter (\<lambda>j. swtmrResponseTime (g_swtmrCBArray k' j) \<le> clock k) (swtmrSortLink k) = due k"
  unfolding due_def
proof (rule filter_cong)
  fix x
  assume "x \<in> set (swtmrSortLink k)"
  then have "x \<noteq> i" using assms(1) by blast
  then show "(swtmrResponseTime (g_swtmrCBArray k' x) \<le> clock k) = (swtmrResponseTime (g_swtmrCBArray k x) \<le> clock k)"
    using assms(2) by simp
qed simp

lemma expires_once:
  assumes d: "detached i k" and "ucMode (g_swtmrCBArray k i) = LOS_SWTMR_MODE_ONCE"
  shows "expires i k (upd_swtmr i (\<lambda>c. c\<lparr>usTimerID :=
     if usTimerID c < OS_SWTMR_MAX_TIMERID - SWTMR_LIMIT then usTimerID c + SWTMR_LIMIT
     else usTimerID c mod SWTMR_LIMIT\<rparr>) (OsSwtmrDelete i k))" (is "expires i k (upd_swtmr i (\<lambda>c. c\<lparr>usTimerID := ?w c\<rparr>) _)")
proof -
  note e = OsSwtmrDelete_effect [of i k] and wf = detachedD [OF d]
  let ?k = "upd_swtmr i (\<lambda>c. c\<lparr>usTimerID := ?w c\<rparr>) (OsSwtmrDelete i k)" and ?n = "?w (g_swtmrCBArray k i)"
  have "timer_index ?n = i" "?n < OS_SWTMR_MAX_TIMERID"
    using timer_index_next [of "usTimerID (g_swtmrCBArray k i)"] wf(6) by simp_all
  moreover have k: "?k = upd_swtmr i (\<lambda>c. c\<lparr>usTimerID := ?n\<rparr>) (OsSwtmrDelete i k)" by (simp add: upd_swtmr_def e)
  ultimately have inv: "swtmr_inv ?k"
    using inv_renumber [OF delete_inv [OF d], of ?n i] wf(6) e(1) by (simp add: k)
  have "filter (\<lambda>j. swtmrResponseTime (g_swtmrCBArray ?k j) \<le> clock k) (swtmrSortLink k) = due k"
    by (rule due_unlinked [OF wf(3)]) (simp add: e)
  then show ?thesis unfolding expires_def using inv e assms(2) by (simp add: expired_state_def)
qed

lemma expires_period:
  assumes d: "detached i k" and room: "time_room k" and int: "uwInterval (g_swtmrCBArray k i) \<noteq> 0"
    and mode: "ucMode (g_swtmrCBArray k i) = LOS_SWTMR_MODE_PERIOD"
    and al: "canAlign (g_swtmrAlignID k i) \<longrightarrow> isAligned (g_swtmrAlignID k i)"
  shows "expires i k (OsSwtmrStart i k)"
proof -
  let ?k = "OsSwtmrStart i k"
  note wf = detachedD [OF d]
  obtain n where n: "g_swtmrCBArray ?k = (g_swtmrCBArray k)(i := (g_swtmrCBArray k i)\<lparr>uwCount := n,
       ucState := OS_SWTMR_STATUS_TICKING, swtmrResponseTime := clock k + ucast n * ucast (OS_CYCLE_PER_TICK k)\<rparr>)"
    "swtmrSortLink ?k = OsAddNode2SortLink (\<lambda>j. swtmrResponseTime (g_swtmrCBArray ?k j)) i (swtmrSortLink k)"
    by (rule OsSwtmrStart_effect [of i k])
  have s: "swtmr_inv ?k" "clock k < swtmrResponseTime (g_swtmrCBArray ?k i)"
    using start_inv [OF d room int] mode al by simp_all
  then have "\<not> swtmrResponseTime (g_swtmrCBArray ?k i) \<le> clock k" by simp
  then have "filter (\<lambda>j. swtmrResponseTime (g_swtmrCBArray ?k j) \<le> clock k) (swtmrSortLink ?k) =
      filter (\<lambda>j. swtmrResponseTime (g_swtmrCBArray ?k j) \<le> clock k) (swtmrSortLink k)"
    unfolding n(2) by (rule filter_add_node)
  moreover have "\<dots> = due k" by (rule due_unlinked [OF wf(3)]) (simp add: n(1))
  ultimately show ?thesis unfolding expires_def using s(1) n(1) mode by (simp add: expired_state_def)
qed

lemma expires_kept:
  assumes d: "detached i k" and int: "uwInterval (g_swtmrCBArray k i) \<noteq> 0"
    and mode: "ucMode (g_swtmrCBArray k i) = LOS_SWTMR_MODE_NO_SELFDELETE"
    and key: "swtmrResponseTime (g_swtmrCBArray k i) = OS_SORT_LINK_INVALID_TIME"
  shows "expires i k (upd_swtmr i (\<lambda>c. c\<lparr>ucState := OS_SWTMR_STATUS_CREATED\<rparr>) k)"
proof -
  let ?k = "upd_swtmr i (\<lambda>c. c\<lparr>ucState := OS_SWTMR_STATUS_CREATED\<rparr>) k"
  note wf = detachedD [OF d]
  have "sorted_by (\<lambda>j. swtmrResponseTime (g_swtmrCBArray ?k j)) (swtmrSortLink k) =
      sorted_by (\<lambda>j. swtmrResponseTime (g_swtmrCBArray k j)) (swtmrSortLink k)"
    by (rule sorted_by_cong) simp
  then have "timer_lists_wf ?k" using wf(1) unfolding timer_lists_wf_def swtmr_fields(2,3) by simp
  moreover have "timer_only i k ?k" by (simp add: timer_only_def)
  moreover have "timer_wf ?k i" using wf int mode key by (simp add: timer_wf_def)
  ultimately have "swtmr_inv ?k" using swtmr_inv_attach [OF d] by blast
  moreover have "filter (\<lambda>j. swtmrResponseTime (g_swtmrCBArray ?k j) \<le> clock k) (swtmrSortLink k) = due k"
    by (rule due_unlinked [OF wf(3)]) simp
  ultimately show ?thesis unfolding expires_def using mode by (simp add: expired_state_def)
qed

lemma expires_view:
  assumes "swtmr_view k1 = swtmr_view k" "clock k1 = clock k"
  shows "expires i k1 k' = expires i k k'"
  by (simp add: expires_def due_def swtmr_viewD [OF assms(1)] assms(2))

text \<open>The message of an expired timer.\<close>

definition timeout_write :: "nat \<Rightarrow> kernel \<Rightarrow> kernel" where
  "timeout_write i k = snd (snd (LOS_QueueWriteCopy (g_swtmrHandlerQueue k) False
     (handler_item (pfnHandler (g_swtmrCBArray k i)) (uwArg (g_swtmrCBArray k i))) SWTMR_HANDLER_ITEM_SIZE LOS_NO_WAIT k))"

text \<open>Handling one expired timer, already out of the link; what the queue makes of the message does
  not matter to the timers.\<close>

lemma handle_timer:
  assumes d: "detached i k" and kv: "kernel_inv (timeout_write i k)" and room: "time_room k"
    and int: "uwInterval (g_swtmrCBArray k i) \<noteq> 0"
    and mode: "ucMode (g_swtmrCBArray k i) \<in> {LOS_SWTMR_MODE_ONCE, LOS_SWTMR_MODE_PERIOD, LOS_SWTMR_MODE_NO_SELFDELETE}"
    and key: "swtmrResponseTime (g_swtmrCBArray k i) = OS_SORT_LINK_INVALID_TIME"
    and al: "canAlign (g_swtmrAlignID k i) \<longrightarrow> isAligned (g_swtmrAlignID k i)"
  defines "k' \<equiv> OsSwtmrTimeoutHandle i k"
  shows "timers_ok k'" "timer_env k' = timer_env k" "expires i k k'" "same_sched (timeout_write i k) k'"
proof -
  let ?c = "g_swtmrCBArray k i"
  define k1 where "k1 = timeout_write i k"
  have w: "kernel_inv k1" "swtmr_view k1 = swtmr_view k" "timer_env k1 = timer_env k"
    using kv queue_write_frame(1,2) by (simp_all add: k1_def timeout_write_def)
  note v = swtmr_viewD [OF w(2)] and env = timer_envD [OF w(3)]
  have d1: "detached i k1" using d detached_view [OF w(2)] by simp
  have room1: "time_room k1" using room env by (simp add: time_room_def)
  have k': "k' = (if ucMode ?c = 0 then upd_swtmr i (\<lambda>c. c\<lparr>usTimerID :=
             if usTimerID c < OS_SWTMR_MAX_TIMERID - SWTMR_LIMIT then usTimerID c + SWTMR_LIMIT
             else usTimerID c mod SWTMR_LIMIT\<rparr>) (OsSwtmrDelete i k1)
         else if ucMode ?c = 1 then OsSwtmrStart i k1
         else upd_swtmr i (\<lambda>c. c\<lparr>ucState := OS_SWTMR_STATUS_CREATED\<rparr>) k1)"
    using mode
    by (auto simp: k'_def OsSwtmrTimeoutHandle_def Let_def split_beta timeout_write_def [symmetric] k1_def [symmetric] v)
  have "expires i k1 k'"
    unfolding k' using mode expires_once [OF d1] expires_period [OF d1 room1] expires_kept [OF d1] int key al v by auto
  then show e: "expires i k k'" using expires_view [OF w(2)] env by blast
  have same: "same_sched k1 k'"
    unfolding k' by (auto intro: same_sched_steps same_sched_trans [OF same_sched_Delete] same_sched_Start)
  then show "same_sched (timeout_write i k) k'" by (simp add: k1_def)
  show "timer_env k' = timer_env k" using same w(3) by (simp add: same_sched_def)
  show "timers_ok k'"
    using same_sched_inv [OF same w(1)] time_room_same [OF same] room1 e by (simp add: timers_ok_def expires_def)
qed

text \<open>One round of the scan: the first timer of the link is due.\<close>

lemma scan_step:
  assumes ok: "timers_ok k" and first: "swtmrSortLink k = i # rest"
    and t: "swtmrResponseTime (g_swtmrCBArray k i) \<le> clock k"
    and kv: "kernel_inv (timeout_write i (OsDeleteNodeSortLink OS_SORT_LINK_SWTMR i k))"
  defines "k' \<equiv> OsSwtmrTimeoutHandle i (OsDeleteNodeSortLink OS_SORT_LINK_SWTMR i k)"
  shows "timers_ok k'" "timer_env k' = timer_env k"
    "same_sched (timeout_write i (OsDeleteNodeSortLink OS_SORT_LINK_SWTMR i k)) k'"
    "due k = i # due k'" "\<And>j. j \<noteq> i \<Longrightarrow> g_swtmrCBArray k' j = g_swtmrCBArray k j"
    "ucState (g_swtmrCBArray k' i) = expired_state (g_swtmrCBArray k i)"
proof -
  let ?d = "OsDeleteNodeSortLink OS_SORT_LINK_SWTMR i k" and ?c = "g_swtmrCBArray k i"
  have inv: "swtmr_inv k" "kernel_inv k" "time_room k" using ok by (simp_all add: timers_ok_def)
  have i: "i < LOSCFG_BASE_CORE_SWTMR_LIMIT" using swtmr_invD(1) [OF inv(1)] first by (auto simp: timer_lists_wf_def)
  note wf = timer_wfD [OF swtmr_invD(2) [OF inv(1) i]]
  have tick: "ucState ?c = OS_SWTMR_STATUS_TICKING" using wf(3) first by simp
  have same: "same_sched k ?d" by (rule same_sched_link)
  have env: "timer_env ?d = timer_env k" using same by (simp add: same_sched_def)
  have room: "time_room ?d" using time_room_same [OF same] inv(3) by simp
  note h = handle_timer [OF detached_node [OF inv(1) tick i] kv room]
  have h: "timers_ok k'" "timer_env k' = timer_env ?d" "expires i ?d k'" "same_sched (timeout_write i ?d) k'"
    using h wf(5,7) tick unfolding k'_def by (simp_all add: DeleteNode_swtmr)
  show "timers_ok k'" "timer_env k' = timer_env k" "same_sched (timeout_write i ?d) k'"
    using h env by simp_all
  show "\<And>j. j \<noteq> i \<Longrightarrow> g_swtmrCBArray k' j = g_swtmrCBArray k j" "ucState (g_swtmrCBArray k' i) = expired_state ?c"
    using h(3) by (simp_all add: expires_def DeleteNode_swtmr expired_state_def)
  have notin: "i \<notin> set rest" "swtmrSortLink ?d = rest"
    using swtmr_invD(1) [OF inv(1)] first by (auto simp: timer_lists_wf_def DeleteNode_swtmr)
  have "due k' = due ?d" using h(2,3) env timer_envD(1) [of k' ?d] by (simp add: expires_def due_def)
  moreover have "due ?d = filter (\<lambda>j. swtmrResponseTime (g_swtmrCBArray k j) \<le> clock k) rest"
    unfolding due_def notin(2) using notin(1) timer_envD(1) [OF env] by (intro filter_cong) (auto simp: DeleteNode_swtmr)
  ultimately show "due k = i # due k'" using first t by (simp add: due_def)
qed

text \<open>With the handler queue in order, its message is delivered.\<close>

lemma scan_step_deliver:
  assumes ok: "timers_ok k" and hq: "handler_queue k a" and first: "swtmrSortLink k = i # rest"
    and t: "swtmrResponseTime (g_swtmrCBArray k i) \<le> clock k"
  defines "d \<equiv> OsDeleteNodeSortLink OS_SORT_LINK_SWTMR i k"
  shows "kernel_inv (timeout_write i d)"
    "handler_queue (OsSwtmrTimeoutHandle i d) (deliver (handler_msg (g_swtmrCBArray k i)) a)"
proof -
  have same: "same_sched k d" unfolding d_def by (rule same_sched_link)
  have inv: "kernel_inv d" using ok same_sched_inv [OF same] by (simp add: timers_ok_def)
  have hqd: "handler_queue d a"
    using hq same same_sched_queue [OF same] timer_envD(3) [of d k] by (simp add: handler_queue_def same_sched_def)
  have m: "CopyMsg (handler_item (pfnHandler (g_swtmrCBArray d i)) (uwArg (g_swtmrCBArray d i))) = handler_msg (g_swtmrCBArray k i)"
    by (simp add: d_def DeleteNode_swtmr handler_msg_def)
  note w = handler_write [OF inv hqd, of "pfnHandler (g_swtmrCBArray d i)" "uwArg (g_swtmrCBArray d i)",
      folded timeout_write_def, unfolded m]
  then show kv: "kernel_inv (timeout_write i d)" by blast
  note same' = scan_step(3) [OF ok first t kv [unfolded d_def], folded d_def]
  then show "handler_queue (OsSwtmrTimeoutHandle i d) (deliver (handler_msg (g_swtmrCBArray k i)) a)"
    using w timer_envD(3) [of "OsSwtmrTimeoutHandle i d" "timeout_write i d"] same_sched_queue [OF same']
    by (simp add: handler_queue_def same_sched_def)
qed

text \<open>The whole scan.\<close>

definition delivered :: "kernel \<Rightarrow> nat list \<Rightarrow> aqueue \<Rightarrow> aqueue" where
  "delivered k xs a = fold (\<lambda>i. deliver (handler_msg (g_swtmrCBArray k i))) xs a"

definition scan_post :: "kernel \<Rightarrow> aqueue \<Rightarrow> kernel \<Rightarrow> bool" where
  "scan_post k a k' \<longleftrightarrow> timers_ok k' \<and> timer_env k' = timer_env k \<and> handler_queue k' (delivered k (due k) a) \<and>
     due k' = [] \<and>
     (\<forall>i \<in> set (due k). ucState (g_swtmrCBArray k' i) = expired_state (g_swtmrCBArray k i)) \<and>
     (\<forall>i. i \<notin> set (due k) \<longrightarrow> g_swtmrCBArray k' i = g_swtmrCBArray k i)"

lemma due_head:
  assumes "timers_ok k" "swtmrSortLink k = i # rest"
  shows "due k = [] \<longleftrightarrow> \<not> swtmrResponseTime (g_swtmrCBArray k i) \<le> clock k"
proof -
  have "sorted_by (\<lambda>j. swtmrResponseTime (g_swtmrCBArray k j)) (i # rest)"
    using assms by (simp add: timers_ok_def swtmr_inv_def timer_lists_wf_def)
  then have "\<forall>j \<in> set rest. swtmrResponseTime (g_swtmrCBArray k i) \<le> swtmrResponseTime (g_swtmrCBArray k j)" by simp
  then show ?thesis using assms(2) by (auto simp: due_def filter_empty_conv dest: order_trans)
qed

lemma distinct_due: "timers_ok k \<Longrightarrow> distinct (due k)"
  by (simp add: timers_ok_def swtmr_inv_def timer_lists_wf_def due_def)

lemma scan_loop_correct:
  "timers_ok k \<Longrightarrow> handler_queue k a \<Longrightarrow> \<exists>k'. swtmr_scan_loop (clock k) k = Some k' \<and> scan_post k a k'"
proof (induction "due k" arbitrary: k a)
  case Nil
  then have d: "due k = []" by simp
  then have "swtmr_scan_loop (clock k) k = Some k"
    using due_head [OF Nil.prems(1)] by (subst swtmr_scan_loop.simps) (auto split: list.split)
  then show ?case using Nil.prems d by (simp add: scan_post_def delivered_def)
next
  case (Cons i xs)
  then have "due k \<noteq> []" by (metis list.distinct(1))
  then obtain j rest where l: "swtmrSortLink k = j # rest" by (cases "swtmrSortLink k") (auto simp: due_def)
  have t: "swtmrResponseTime (g_swtmrCBArray k j) \<le> clock k" using due_head [OF Cons.prems(1) l] \<open>due k \<noteq> []\<close> by blast
  let ?k = "OsSwtmrTimeoutHandle j (OsDeleteNodeSortLink OS_SORT_LINK_SWTMR j k)"
  note h = scan_step_deliver [OF Cons.prems l t] and s = scan_step [OF Cons.prems(1) l t scan_step_deliver(1) [OF Cons.prems l t]]
  have ij: "j = i" "xs = due ?k" using s(4) Cons.hyps(2) by simp_all
  have c: "clock ?k = clock k" using timer_envD(1) [OF s(2)] .
  obtain k' where k': "swtmr_scan_loop (clock k) ?k = Some k'"
    "scan_post ?k (deliver (handler_msg (g_swtmrCBArray k j)) a) k'"
    using Cons.hyps(1) [OF ij(2) s(1) h(2)] c by auto
  have "swtmr_scan_loop (clock k) k = Some k'"
    using l t k'(1) by (subst swtmr_scan_loop.simps) simp
  moreover have "scan_post k a k'"
  proof -
    have n: "j \<notin> set (due ?k)" using distinct_due [OF Cons.prems(1)] s(4) by simp
    then have eq: "g_swtmrCBArray ?k x = g_swtmrCBArray k x" if "x \<in> set (due ?k)" for x using s(5) that by metis
    then have "delivered ?k (due ?k) (deliver (handler_msg (g_swtmrCBArray k j)) a) = delivered k (due k) a"
      unfolding delivered_def s(4) by (simp, intro fold_cong) simp_all
    moreover have "ucState (g_swtmrCBArray k' x) = expired_state (g_swtmrCBArray k x)" if "x \<in> set (due k)" for x
      using that k'(2) s(4,6) n eq by (cases "x = j") (simp_all add: scan_post_def)
    moreover have "g_swtmrCBArray k' x = g_swtmrCBArray k x" if "x \<notin> set (due k)" for x
      using that k'(2) s(4,5) by (simp add: scan_post_def)
    ultimately show ?thesis using k'(2) s(2) by (simp add: scan_post_def)
  qed
  ultimately show ?case by blast
qed

lemma OsSwtmrScan_post:
  assumes "timers_ok k" "handler_queue k a"
  shows "\<exists>k'. OsSwtmrScan k = Some (due k \<noteq> [], k') \<and> scan_post k a k'"
proof -
  let ?k = "snd (OsGetCurrSchedTimeCycle k)"
  note v = swtmr_viewD [OF read_swtmr(1) [of k]] and s = same_sched_clock(1) [of k]
  have env: "timer_env ?k = timer_env k" using s by (simp add: same_sched_def)
  have inv: "swtmr_inv ?k"
    using assms(1) by (simp add: timers_ok_def swtmr_inv_def timer_lists_wf_def timer_wf_def v)
  have hq: "handler_queue ?k a"
    using assms(2) s same_sched_queue [OF s] timer_envD(3) [OF env] by (simp add: handler_queue_def same_sched_def)
  obtain k' where k': "swtmr_scan_loop (clock k) ?k = Some k'" "scan_post ?k a k'"
    using scan_loop_correct [OF timers_okI [OF assms(1) s inv] hq] timer_envD(1) [OF env] by auto
  have post: "scan_post k a k'"
    using k'(2) env timer_envD(1) [OF env] by (simp add: scan_post_def due_def delivered_def v)
  show ?thesis
  proof (cases "swtmrSortLink k")
    case Nil
    then have "due k = []" by (simp add: due_def)
    then show ?thesis using assms Nil by (simp add: OsSwtmrScan_def scan_post_def delivered_def)
  next
    case (Cons i rest)
    then have "OsSwtmrScan k = Some (due k \<noteq> [], k')"
      using due_head [OF assms(1) Cons] k'(1) unfolding OsSwtmrScan_def by (subst time_pair) (simp add: v)
    then show ?thesis using post by blast
  qed
qed

text \<open>
  C23: The timer scan.  When the tick interrupt runs \<^verbatim>\<open>OsSwtmrScan\<close>, the scan ends; it asks
  for a task switch exactly when a timer was due.  Afterwards no running timer is due.  The
  handler queue has received, in order of expiry, the handler and argument of every timer that was
  due (as far as it had room), a one-shot timer is free again, a one-shot timer that keeps itself is
  stopped, a periodic one runs again, and no other timer has changed; the invariants of timers,
  scheduler and queue hold.
\<close>

theorem swtmr_scan_correct:
  assumes "timers_ok k" "handler_queue k a"
  shows "\<exists>k'. OsSwtmrScan k = Some (due k \<noteq> [], k') \<and> scan_post k a k'"
  using assms by (rule OsSwtmrScan_post)

section \<open>Remaining time\<close>

lemma target_of_interval:
  assumes room: "time_room k" and clk: "sysClock k mod LOSCFG_BASE_CORE_TICK_PER_SECOND = 0" and n: "n \<noteq> 0"
  shows "OsSortLinkGetTargetExpireTime (clock k) (clock k + ucast n * ucast (OS_CYCLE_PER_TICK k)) k = n"
proof -
  let ?c = "OS_CYCLE_PER_TICK k" and ?s = "sysClock k"
  have less: "clock k < clock k + ucast n * ucast ?c" by (rule expiry_time(3) [OF room n])
  have "unat ?s mod 1000 = unat (?s mod 1000)" by (simp add: unat_mod_distrib)
  then have "unat ?s mod 1000 = 0" using clk by (simp add: LOSCFG_BASE_CORE_TICK_PER_SECOND_def)
  moreover have "unat ?c = unat ?s div 1000"
    by (simp add: OS_CYCLE_PER_TICK_def LOSCFG_BASE_CORE_TICK_PER_SECOND_def unat_div_distrib)
  ultimately have cs: "unat ?c * 1000 = unat ?s" by fastforce
  have "0 < unat ?c" using room by (simp add: time_room_def unat_gt_0)
  then have s0: "0 < unat ?s" using cs by linarith
  have u: "unat (ucast n :: u64) = unat n" "unat (ucast ?c :: u64) = unat ?c" "unat (ucast ?s :: u64) = unat ?s"
    by (rule unat_ucast_up, simp)+
  have "unat n < 2 ^ 32" "unat ?s < 2 ^ 32" using unsigned_less [of n] unsigned_less [of ?s] by simp_all
  then have "unat n * unat ?s < 2 ^ 32 * 2 ^ 32" by (intro mult_strict_mono) simp_all
  then have b: "unat n * unat ?c * 1000 < 2 ^ 64" using cs by (simp add: mult.assoc)
  then have "unat (ucast n * ucast ?c :: u64) = unat n * unat ?c"
    using u by (subst unat_mult_lem [THEN iffD1]) simp_all
  then have "unat (ucast n * ucast ?c * 1000 :: u64) = unat n * unat ?s"
    using b cs by (subst unat_mult_lem [THEN iffD1]) (simp_all add: mult.assoc)
  then have "unat (ucast n * ucast ?c * 1000 div ucast ?s :: u64) = unat (ucast n :: u64)"
    using s0 u by (simp add: unat_div_distrib)
  then have "ucast n * ucast ?c * 1000 div ucast ?s = (ucast n :: u64)" by (rule unsigned_word_eqI)
  moreover have "ucast (ucast n :: u64) = n" by (rule bit_word_eqI) (simp add: bit_ucast_iff)
  moreover have "\<not> clock k + ucast n * ucast ?c \<le> clock k" using less by (simp only: not_le)
  ultimately show ?thesis by (simp add: OsSortLinkGetTargetExpireTime_def LOSCFG_BASE_CORE_TICK_PER_SECOND_def)
qed

lemma target_clock:
  "sysClock k' = sysClock k \<Longrightarrow> OsSortLinkGetTargetExpireTime t x k' = OsSortLinkGetTargetExpireTime t x k"
  by (simp add: OsSortLinkGetTargetExpireTime_def)

lemma mark_align_none:
  "\<not> (ucSensitive (g_swtmrCBArray k i) = 1 \<and> ucMode (g_swtmrCBArray k i) = 1) \<Longrightarrow> mark_align i k = k"
  by (auto simp: mark_align_def Let_def)

text \<open>A target of zero ticks is read back as zero.\<close>

lemma target_of_count:
  assumes "time_room k" "sysClock k mod LOSCFG_BASE_CORE_TICK_PER_SECOND = 0"
  shows "OsSortLinkGetTargetExpireTime (clock k) (clock k + ucast n * ucast (OS_CYCLE_PER_TICK k)) k = n"
proof (cases "n = 0")
  case True
  then show ?thesis by (simp add: OsSortLinkGetTargetExpireTime_def)
qed (rule target_of_interval [OF assms])

text \<open>A start that is not refused ends in \<^verbatim>\<open>OsSwtmrStart\<close>, whatever the timer did before.\<close>

lemma LOS_SwtmrStart_starts:
  assumes inv: "swtmr_inv k"
    and sid: "sid < OS_SWTMR_MAX_TIMERID" "usTimerID (g_swtmrCBArray k (timer_index sid)) = sid"
    and used: "ucState (g_swtmrCBArray k (timer_index sid)) \<noteq> OS_SWTMR_STATUS_UNUSED"
  obtains k1 where "LOS_SwtmrStart sid k = (LOS_OK, OsSwtmrStart (timer_index sid) k1)" "same_sched k k1"
    "uwInterval (g_swtmrCBArray k1 (timer_index sid)) = uwInterval (g_swtmrCBArray k (timer_index sid))"
    "usTimerID (g_swtmrCBArray k1 (timer_index sid)) = sid"
    "canAlign (g_swtmrAlignID k1 (timer_index sid)) = canAlign (g_swtmrAlignID (mark_align (timer_index sid) k) (timer_index sid))"
proof -
  let ?i = "timer_index sid" and ?c = "g_swtmrCBArray k (timer_index sid)"
  note wf = timer_wfD [OF swtmr_invD(2) [OF inv timer_index_less [of sid]]]
  note m = mark_align_effect [OF wf(8)]
  have "ucState ?c = 1 \<or> ucState ?c = 2"
    using swtmr_invD(2) [OF inv timer_index_less [of sid]] used by (auto simp: timer_wf_def Let_def)
  then show thesis
  proof (elim disjE)
    assume "ucState ?c = 1"
    then show thesis
      using that [of "mark_align ?i k"] sid m same_sched_mark by (simp add: LOS_SwtmrStart_def Let_def not_le)
  next
    assume t: "ucState ?c = 2"
    then have key: "swtmrResponseTime (g_swtmrCBArray (mark_align ?i k) ?i) \<noteq> OS_SORT_LINK_INVALID_TIME"
      using wf(7) m by simp
    note e = OsSwtmrStop_effect [OF key]
    have "align_index ?i (mark_align ?i k) = ?i" using wf(8) m(1) by (simp add: align_index_def)
    then have "canAlign (g_swtmrAlignID (OsSwtmrStop ?i (mark_align ?i k)) ?i) = canAlign (g_swtmrAlignID (mark_align ?i k) ?i)"
      using e(4) by auto
    then show thesis
      using that [of "OsSwtmrStop ?i (mark_align ?i k)"] t sid m e(1) same_sched_trans [OF same_sched_mark same_sched_Stop]
      by (simp add: LOS_SwtmrStart_def Let_def not_le)
  qed
qed

text \<open>
  C26: Starting a timer and asking for its remaining time, when the system clock is a multiple of
  the tick rate.  Whether the timer was stopped or running, \<^verbatim>\<open>LOS_SwtmrStart\<close> followed by
  \<^verbatim>\<open>LOS_SwtmrTimeGet\<close> at the same time returns the count of ticks the timer was armed with: the
  conversion to cycles and back loses nothing and does not overflow.  For a timer that does not
  take part in alignment (it is not marked as alignable, and is not periodic and insensitive,
  which would mark it) this count is its interval.
\<close>

theorem swtmr_start_timeget_roundtrip:
  assumes ok: "timers_ok k" and clk: "sysClock k mod LOSCFG_BASE_CORE_TICK_PER_SECOND = 0"
    and sid: "sid < OS_SWTMR_MAX_TIMERID" "usTimerID (g_swtmrCBArray k (timer_index sid)) = sid"
    and used: "ucState (g_swtmrCBArray k (timer_index sid)) \<noteq> OS_SWTMR_STATUS_UNUSED"
  shows "let (r, k') = LOS_SwtmrStart sid k; c = g_swtmrCBArray k' (timer_index sid);
        (ret, ticks, k'') = LOS_SwtmrTimeGet sid False k' in
    r = LOS_OK \<and> ret = LOS_OK \<and> ticks = Some (uwCount c) \<and>
    swtmrResponseTime c = clock k + ucast (uwCount c) * ucast (OS_CYCLE_PER_TICK k) \<and>
    (\<not> canAlign (g_swtmrAlignID k (timer_index sid)) \<and>
      \<not> (ucSensitive (g_swtmrCBArray k (timer_index sid)) = OS_SWTMR_ALIGN_INSENSITIVE \<and>
          ucMode (g_swtmrCBArray k (timer_index sid)) = LOS_SWTMR_MODE_PERIOD) \<longrightarrow>
      uwCount c = uwInterval (g_swtmrCBArray k (timer_index sid)))"
proof -
  let ?i = "timer_index sid" and ?c = "g_swtmrCBArray k (timer_index sid)"
  have inv: "swtmr_inv k" and room: "time_room k" using ok by (simp_all add: timers_ok_def)
  obtain k1 where k1: "LOS_SwtmrStart sid k = (LOS_OK, OsSwtmrStart ?i k1)" "same_sched k k1"
    "uwInterval (g_swtmrCBArray k1 ?i) = uwInterval ?c" "usTimerID (g_swtmrCBArray k1 ?i) = sid"
    "canAlign (g_swtmrAlignID k1 ?i) = canAlign (g_swtmrAlignID (mark_align ?i k) ?i)"
    using LOS_SwtmrStart_starts [OF inv sid used] .
  have a: "align_index ?i k1 = ?i" using k1(4) by (simp add: align_index_def)
  obtain n where n: "g_swtmrCBArray (OsSwtmrStart ?i k1) = (g_swtmrCBArray k1)(?i := (g_swtmrCBArray k1 ?i)\<lparr>uwCount := n,
       ucState := 2, swtmrResponseTime := clock k1 + ucast n * ucast (OS_CYCLE_PER_TICK k1)\<rparr>)"
    "\<not> canAlign (g_swtmrAlignID k1 ?i) \<Longrightarrow> n = uwInterval (g_swtmrCBArray k1 ?i)"
    by (rule OsSwtmrStart_effect [of ?i k1]) (use a in simp)
  let ?k2 = "OsSwtmrStart ?i k1"
  have s2: "same_sched k ?k2" using same_sched_trans [OF k1(2) same_sched_Start] .
  have env: "timer_env k1 = timer_env k" "timer_env ?k2 = timer_env k" "timer_env (snd (OsGetCurrSchedTimeCycle ?k2)) = timer_env k"
    using k1(2) s2 by (simp_all add: same_sched_def)
  have "OsSortLinkGetTargetExpireTime (clock k) (clock k + ucast n * ucast (OS_CYCLE_PER_TICK k)) k = n"
    by (rule target_of_count [OF room clk])
  then have "OsSwtmrTimeGet ?i ?k2 = (n, snd (OsGetCurrSchedTimeCycle ?k2))"
    unfolding OsSwtmrTimeGet_def Let_def
    by (subst time_pair) (simp add: swtmr_viewD [OF read_swtmr(1)] n(1) target_clock [OF timer_envD(2) [OF env(3)]]
        timer_envD [OF env(1)] timer_envD [OF env(2)])
  moreover have "n = uwInterval ?c" if "\<not> canAlign (g_swtmrAlignID k ?i)"
    "\<not> (ucSensitive ?c = OS_SWTMR_ALIGN_INSENSITIVE \<and> ucMode ?c = LOS_SWTMR_MODE_PERIOD)"
    using n(2) k1(3,5) that mark_align_none [of k ?i] by auto
  ultimately show ?thesis
    using k1(1,4) sid n(1) timer_envD [OF env(1)] by (simp add: LOS_SwtmrTimeGet_def Let_def not_le)
qed

section \<open>Alignment of a timer that was deleted\<close>

lemma start_aligned_count:
  assumes a: "align_index i k = i" and al: "canAlign (g_swtmrAlignID k i)" "\<not> isAligned (g_swtmrAlignID k i)"
    and link: "swtmrSortLink k = j # rest" "j \<noteq> i" "align_index j k = j"
    and j: "canAlign (g_swtmrAlignID k j)" "isAligned (g_swtmrAlignID k j)"
      "uwInterval (g_swtmrCBArray k j) = uwInterval (g_swtmrCBArray k i)"
  shows "uwCount (g_swtmrCBArray (OsSwtmrStart i k) i) =
    OsSortLinkGetTargetExpireTime (clock k) (swtmrResponseTime (g_swtmrCBArray k j)) k"
proof -
  let ?k1 = "snd (OsGetCurrSchedTimeCycle k)"
  let ?k2 = "upd_swtmr i (\<lambda>c. c\<lparr>uwCount := uwInterval c, ucState := OS_SWTMR_STATUS_TICKING\<rparr>) ?k1"
  let ?k3 = "upd_align i (\<lambda>d. d\<lparr>isAligned := True\<rparr>) ?k2"
  let ?n = "OsSortLinkGetTargetExpireTime (clock k) (swtmrResponseTime (g_swtmrCBArray k j)) k"
  note v = swtmr_viewD [OF read_swtmr(1) [of k]]
  have env: "timer_env ?k3 = timer_env k" by simp
  have ix: "align_index i ?k2 = i" "align_index j ?k3 = j" using a link(2,3) by (simp_all add: align_index_def v)
  have "align_search (clock k) i ?k3 (swtmrSortLink ?k3) (None, OS_NULL_INT) (None, OS_NULL_INT) = Some ?n"
    using link j ix by (simp add: v Let_def target_clock [OF timer_envD(2) [OF env]])
  then have k4: "OsSwtmrFindAlignPos (clock k) i ?k3 = upd_swtmr i (\<lambda>c. c\<lparr>uwCount := ?n\<rparr>) ?k3"
    by (simp add: OsSwtmrFindAlignPos_def)
  let ?k5 = "OsAdd2SortLink i (clock k) (uwCount (g_swtmrCBArray (OsSwtmrFindAlignPos (clock k) i ?k3) i))
    OS_SORT_LINK_SWTMR (OsSwtmrFindAlignPos (clock k) i ?k3)"
  have "OsSwtmrStart i k = (if LOS_TaskIsRunning ?k5 then OsSchedUpdateExpireTime (clock k) True ?k5 else ?k5)"
    unfolding OsSwtmrStart_def Let_def using al by (subst time_pair) (simp add: ix v)
  then have w: "swtmr_view (OsSwtmrStart i k) = swtmr_view ?k5" by (simp only: expire_if_swtmr)
  show ?thesis by (simp add: swtmr_viewD [OF w] Add2SortLink_swtmr k4)
qed

text \<open>The ticks that remain until a time, taken from now, do not reach beyond it.\<close>

lemma target_not_late:
  assumes "time_room k" "clock k \<le> r"
  shows "clock k + ucast (OsSortLinkGetTargetExpireTime (clock k) r k) * ucast (OS_CYCLE_PER_TICK k) \<le> r"
proof (cases "clock k = r")
  case True
  then show ?thesis by (simp add: OsSortLinkGetTargetExpireTime_def)
next
  case False
  let ?n = "OsSortLinkGetTargetExpireTime (clock k) r k" and ?s = "sysClock k" and ?c = "OS_CYCLE_PER_TICK k"
  let ?q = "(r - clock k) * 1000 div ucast ?s :: u64"
  have le: "unat (d * 1000) \<le> unat d * 1000" for d :: u64 by (simp add: unat_word_ariths)
  have "?n = ucast ?q"
    using False assms(2) by (simp add: OsSortLinkGetTargetExpireTime_def LOSCFG_BASE_CORE_TICK_PER_SECOND_def)
  then have "unat ?n \<le> unat ?q" by (simp add: unsigned_ucast_eq take_bit_eq_mod)
  also have "\<dots> = unat ((r - clock k) * 1000) div unat ?s"
    by (simp add: unat_div_distrib unat_ucast_up)
  also have "\<dots> \<le> unat (r - clock k) * 1000 div unat ?s"
    using le [of "r - clock k"] by (intro div_le_mono)
  finally have "unat ?n * (unat ?s div 1000) \<le> unat (r - clock k) * 1000 div unat ?s * (unat ?s div 1000)" by simp
  also have "\<dots> \<le> unat (r - clock k)"
  proof -
    have "1000 * (unat (r - clock k) * 1000 div unat ?s * (unat ?s div 1000)) \<le>
        unat (r - clock k) * 1000 div unat ?s * unat ?s" by simp
    also have "\<dots> \<le> unat (r - clock k) * 1000" by (rule div_times_less_eq_dividend)
    finally show ?thesis by simp
  qed
  finally have "unat (clock k) + unat ?n * unat ?c \<le> unat r"
    using assms(2) by (simp add: OS_CYCLE_PER_TICK_def LOSCFG_BASE_CORE_TICK_PER_SECOND_def unat_div_distrib
        unat_sub word_le_nat_alt)
  then show ?thesis using expiry_time(1) [OF assms(1), of ?n] by (simp add: word_le_nat_alt)
qed

text \<open>
  C27: A failed start leaves alignment data behind.  \<^verbatim>\<open>LOS_SwtmrStart\<close> on a timer that has
  been deleted returns \<^verbatim>\<open>LOS_ERRNO_SWTMR_NOT_CREATED\<close>, but it has already marked the control
  block as one that can be aligned when the deleted timer was periodic and insensitive.  The next
  timer created in that control block takes part in alignment although it is a one-shot timer
  declared \<^verbatim>\<open>OS_SWTMR_ALIGN_SENSITIVE\<close>: started beside a running aligned timer of the same
  interval, it is armed with the remaining ticks of that timer: its expiry time is the current time
  plus these ticks, so at the latest the other timer's expiry time, and not its own interval away.
\<close>

theorem swtmr_stale_alignment:
  fixes arg :: u32
  assumes ok: "timers_ok k" and free: "g_swtmrFreeList k = i # rest"
    and old: "ucSensitive (g_swtmrCBArray k i) = OS_SWTMR_ALIGN_INSENSITIVE" "ucMode (g_swtmrCBArray k i) = LOS_SWTMR_MODE_PERIOD"
      "g_swtmrAlignID k i = no_align" "usTimerID (g_swtmrCBArray k i) = sid"
    and link: "swtmrSortLink k = j # others" "canAlign (g_swtmrAlignID k j)"
      "uwInterval (g_swtmrCBArray k j) = n"
    and params: "n \<noteq> 0" "handler \<noteq> 0"
  defines "k1 \<equiv> snd (LOS_SwtmrStart sid k)"
  defines "k2 \<equiv> snd (snd (LOS_SwtmrCreate n LOS_SWTMR_MODE_ONCE handler False arg OS_SWTMR_ROUSES_ALLOW OS_SWTMR_ALIGN_SENSITIVE k1))"
  shows "fst (LOS_SwtmrStart sid k) = LOS_ERRNO_SWTMR_NOT_CREATED \<and>
    fst (snd (LOS_SwtmrCreate n LOS_SWTMR_MODE_ONCE handler False arg OS_SWTMR_ROUSES_ALLOW OS_SWTMR_ALIGN_SENSITIVE k1)) = Some sid \<and>
    fst (LOS_SwtmrStart sid k2) = LOS_OK \<and>
    (let c = g_swtmrCBArray (snd (LOS_SwtmrStart sid k2)) i; r = swtmrResponseTime (g_swtmrCBArray k j) in
      uwCount c = OsSortLinkGetTargetExpireTime (clock k) r k \<and>
      swtmrResponseTime c = clock k + ucast (uwCount c) * ucast (OS_CYCLE_PER_TICK k) \<and>
      (clock k \<le> r \<longrightarrow> swtmrResponseTime c \<le> r))"
proof -
  have inv: "swtmr_inv k" using ok by (simp add: timers_ok_def)
  have lim: "i < LOSCFG_BASE_CORE_SWTMR_LIMIT" "j < LOSCFG_BASE_CORE_SWTMR_LIMIT"
    using swtmr_invD(1) [OF inv] free link(1) by (auto simp: timer_lists_wf_def)
  note wi = timer_wfD [OF swtmr_invD(2) [OF inv lim(1)]] and wj = timer_wfD [OF swtmr_invD(2) [OF inv lim(2)]]
  have st: "ucState (g_swtmrCBArray k i) = 0" "ucState (g_swtmrCBArray k j) = 2" using wi(4) wj(3) free link(1) by simp_all
  then have ij: "j \<noteq> i" by auto
  have sid: "timer_index sid = i" "\<not> OS_SWTMR_MAX_TIMERID \<le> sid" using wi(1,2) old(4) by (simp_all only: not_le)
  note m = mark_align_effect [OF wi(8)]
  have s1: "LOS_SwtmrStart sid k = (LOS_ERRNO_SWTMR_NOT_CREATED, mark_align i k)"
    using sid st old(4) m by (simp add: LOS_SwtmrStart_def Let_def)
  then have k1: "k1 = mark_align i k" by (simp add: k1_def)
  have ai: "canAlign (g_swtmrAlignID k1 i)" "\<not> isAligned (g_swtmrAlignID k1 i)"
    using old(1-3) wi(8) by (auto simp: k1 mark_align_def Let_def no_align_def)
  have k2: "k2 = SET_SORTLIST_VALUE OS_SORT_LINK_SWTMR i OS_SORT_LINK_INVALID_TIME
      (upd_swtmr i (\<lambda>c. c\<lparr>pfnHandler := handler, ucMode := 0, uwInterval := n, uwCount := 0,
         uwArg := arg, ucRouses := 1, ucSensitive := 0, ucState := OS_SWTMR_STATUS_CREATED\<rparr>)
         (k1\<lparr>g_swtmrFreeList := rest\<rparr>))"
    and id: "fst (snd (LOS_SwtmrCreate n 0 handler False arg 1 0 k1)) = Some sid"
    using params free m old(4) by (simp_all add: k2_def k1 LOS_SwtmrCreate_def Let_def)
  have e: "g_swtmrCBArray k2 = (g_swtmrCBArray k)(i := (g_swtmrCBArray k i)\<lparr>pfnHandler := handler, ucMode := 0,
       uwInterval := n, uwCount := 0, uwArg := arg, ucRouses := 1, ucSensitive := 0,
       ucState := OS_SWTMR_STATUS_CREATED, swtmrResponseTime := OS_SORT_LINK_INVALID_TIME\<rparr>)"
    "swtmrSortLink k2 = swtmrSortLink k" "g_swtmrAlignID k2 = g_swtmrAlignID k1"
    using m by (simp_all add: k2 k1 SET_SORTLIST_VALUE_def)
  have "same_sched k k2" unfolding k2 k1 by (intro same_sched_chain same_sched_mark)
  then have env: "timer_env k2 = timer_env k" by (simp add: same_sched_def)
  have mk: "mark_align i k2 = k2" by (rule mark_align_none) (simp add: e)
  have s3: "LOS_SwtmrStart sid k2 = (LOS_OK, OsSwtmrStart i k2)"
    using sid mk old(4) e(1) by (simp add: LOS_SwtmrStart_def Let_def)
  have "uwCount (g_swtmrCBArray (OsSwtmrStart i k2) i) =
      OsSortLinkGetTargetExpireTime (clock k2) (swtmrResponseTime (g_swtmrCBArray k2 j)) k2"
  proof (rule start_aligned_count)
    show "align_index i k2 = i" "align_index j k2 = j" using wi(8) wj(8) ij by (simp_all add: align_index_def e)
    show "canAlign (g_swtmrAlignID k2 j)" "isAligned (g_swtmrAlignID k2 j)"
      using link(2) wj(7) st(2) m(4) [OF ij] by (simp_all add: e k1)
  qed (use ai link ij e in simp_all)
  then have cnt: "uwCount (g_swtmrCBArray (OsSwtmrStart i k2) i) =
      OsSortLinkGetTargetExpireTime (clock k) (swtmrResponseTime (g_swtmrCBArray k j)) k"
    using ij timer_envD(1) [OF env] target_clock [OF timer_envD(2) [OF env]] by (simp add: e)
  obtain c where c: "g_swtmrCBArray (OsSwtmrStart i k2) = (g_swtmrCBArray k2)(i := (g_swtmrCBArray k2 i)\<lparr>uwCount := c,
      ucState := OS_SWTMR_STATUS_TICKING, swtmrResponseTime := clock k2 + ucast c * ucast (OS_CYCLE_PER_TICK k2)\<rparr>)"
    using OsSwtmrStart_effect [of i k2] by metis
  have "time_room k" using ok by (simp add: timers_ok_def)
  then show ?thesis
    using s1 id s3 cnt timer_envD [OF env] target_not_late by (simp add: c Let_def)
qed

section \<open>A concrete state\<close>

text \<open>Timer 0 is periodic and due, timer 1 is a one-shot timer that is due a little later, timer 2
  is an aligned periodic timer due in one tick, timer 3 has been created.  Control block 4 is the
  first free one; it held a periodic timer before.  The handler queue is queue 0.\<close>

definition demo_cb :: "nat \<Rightarrow> SWTMR_CTRL_S" where
  "demo_cb i = \<lparr>ucState = (if i < 3 then 2 else if i = 3 then 1 else 0),
     ucMode = (if i = 1 \<or> i = 3 then 0 else 1), ucRouses = 0, ucSensitive = (if i = 2 \<or> i = 4 then 1 else 0),
     usTimerID = of_nat i, uwCount = 5, uwInterval = (if i = 2 then 100 else 5), uwArg = of_nat i, pfnHandler = 0x4000,
     swtmrResponseTime = (if i = 0 then 1200 else if i = 1 then 1400 else if i = 2 then 97500 else OS_SORT_LINK_INVALID_TIME)\<rparr>"

definition demo_timers :: kernel where
  "demo_timers = demo_queue\<lparr>g_swtmrCBArray := demo_cb, swtmrSortLink := [0, 1, 2], g_swtmrFreeList := [4, 5],
     g_swtmrAlignID := (\<lambda>i. if i = 2 then \<lparr>alignTimes = 10, canMultiple = True, canAlign = True, isAligned = True\<rparr>
        else no_align)\<rparr>"

lemma demo_timers_fields:
  "g_swtmrCBArray demo_timers = demo_cb" "swtmrSortLink demo_timers = [0, 1, 2]" "g_swtmrFreeList demo_timers = [4, 5]"
  "g_swtmrAlignID demo_timers i = (if i = 2 then \<lparr>alignTimes = 10, canMultiple = True, canAlign = True, isAligned = True\<rparr>
     else no_align)" "g_swtmrHandlerQueue demo_timers = 0" "sysClock demo_timers = 96000000"
  "g_allQueue demo_timers = g_allQueue demo_queue"
  by (simp_all add: demo_timers_def demo_queue_def upd_queue_def demo_kernel_def)

lemma demo_clock: "clock demo_timers = 1500"
  by (simp add: clock_def OsGetCurrSchedTimeCycle_def HalGetTickCycle_def LOS_ASSERT_def demo_timers_def
      demo_queue_def upd_queue_def demo_kernel_def)

lemma demo_timer_wf:
  assumes "i < LOSCFG_BASE_CORE_SWTMR_LIMIT"
  shows "timer_wf demo_timers i"
proof -
  have "i \<in> {0, 1, 2, 3, 4, 5}" using assms by (auto simp: LOSCFG_BASE_CORE_SWTMR_LIMIT_def)
  then show ?thesis
    by (auto simp: timer_wf_def Let_def demo_timers_fields demo_cb_def timer_index_def limits no_align_def
        OS_SORT_LINK_INVALID_TIME_def)
qed

lemma demo_timers_same: "same_sched demo_queue demo_timers"
  unfolding demo_timers_def by (intro same_sched_chain)

lemma demo_timers_ok: "timers_ok demo_timers"
proof -
  have "timer_lists_wf demo_timers"
    by (auto simp: timer_lists_wf_def demo_timers_fields demo_cb_def LOSCFG_BASE_CORE_SWTMR_LIMIT_def)
  moreover have "kernel_inv demo_timers"
    using same_sched_inv [OF demo_timers_same] demo_queue_block by (simp add: can_block_def)
  moreover have "time_room demo_timers"
    by (simp add: time_room_def demo_clock OS_CYCLE_PER_TICK_def demo_timers_fields LOSCFG_BASE_CORE_TICK_PER_SECOND_def)
  ultimately show ?thesis using demo_timer_wf by (simp add: timers_ok_def swtmr_inv_def)
qed

lemma demo_handler_queue: "handler_queue demo_timers (AQ 3 [CopyMsg [7, 9]] [] [] 0 0)"
  using demo_queue_rel demo_queue_fields same_sched_queue [OF demo_timers_same]
  by (simp add: handler_queue_def demo_timers_fields LOSCFG_BASE_IPC_QUEUE_LIMIT_def)

theorem swtmr_operations_invariant_witness:
  "timers_ok (snd (LOS_SwtmrStart 3 demo_timers)) \<and> timers_ok (snd (LOS_SwtmrDelete 0 demo_timers))"
  using swtmr_operations_invariant [OF demo_timers_ok] by blast

theorem swtmr_scan_correct_witness:
  "\<exists>k'. OsSwtmrScan demo_timers = Some (True, k') \<and> due k' = [] \<and>
     handler_queue k' (AQ 3 [CopyMsg [7, 9], CopyMsg (handler_item 0x4000 0), CopyMsg (handler_item 0x4000 1)] [] [] 0 0) \<and>
     ucState (g_swtmrCBArray k' 0) = OS_SWTMR_STATUS_TICKING \<and> ucState (g_swtmrCBArray k' 1) = OS_SWTMR_STATUS_UNUSED"
proof -
  have d: "due demo_timers = [0, 1]"
    by (simp add: due_def demo_timers_fields demo_cb_def demo_clock)
  have a: "delivered demo_timers [0, 1] (AQ 3 [CopyMsg [7, 9]] [] [] 0 0) =
      AQ 3 [CopyMsg [7, 9], CopyMsg (handler_item 0x4000 0), CopyMsg (handler_item 0x4000 1)] [] [] 0 0"
    by (simp add: delivered_def deliver_def aq_full_def handler_msg_def demo_timers_fields demo_cb_def)
  show ?thesis
    using swtmr_scan_correct [OF demo_timers_ok demo_handler_queue] a
    by (auto simp: d scan_post_def expired_state_def demo_timers_fields demo_cb_def)
qed

theorem swtmr_start_timeget_roundtrip_witness:
  "fst (LOS_SwtmrStart 3 demo_timers) = LOS_OK \<and>
   fst (LOS_SwtmrTimeGet 3 False (snd (LOS_SwtmrStart 3 demo_timers))) = LOS_OK \<and>
   fst (snd (LOS_SwtmrTimeGet 3 False (snd (LOS_SwtmrStart 3 demo_timers)))) = Some 5"
proof -
  have i: "timer_index 3 = 3" by (simp add: timer_index_def limits)
  show ?thesis
    using swtmr_start_timeget_roundtrip [OF demo_timers_ok, of 3]
    by (simp add: i demo_timers_fields demo_cb_def no_align_def limits LOSCFG_BASE_CORE_TICK_PER_SECOND_def split_beta Let_def)
qed

text \<open>Timer 2, which has an interval of 100 ticks, first in the link and due in one tick.\<close>

definition demo_stale :: kernel where
  "demo_stale = demo_timers\<lparr>swtmrSortLink := [2], g_swtmrCBArray := (\<lambda>i. if i < 2 then
     (demo_cb i)\<lparr>ucState := 1, swtmrResponseTime := OS_SORT_LINK_INVALID_TIME\<rparr> else demo_cb i)\<rparr>"

lemma demo_stale_fields:
  "g_swtmrCBArray demo_stale = (\<lambda>i. if i < 2 then
     (demo_cb i)\<lparr>ucState := 1, swtmrResponseTime := OS_SORT_LINK_INVALID_TIME\<rparr> else demo_cb i)"
  "swtmrSortLink demo_stale = [2]" "g_swtmrFreeList demo_stale = [4, 5]"
  "g_swtmrAlignID demo_stale = g_swtmrAlignID demo_timers" "sysClock demo_stale = 96000000"
  by (simp_all add: demo_stale_def demo_timers_fields)

lemma demo_stale_same: "same_sched demo_timers demo_stale"
  unfolding demo_stale_def by (intro same_sched_chain)

lemma demo_stale_clock: "clock demo_stale = 1500"
  using demo_stale_same demo_clock timer_envD(1) [of demo_stale demo_timers] by (simp add: same_sched_def)

lemma demo_stale_ok: "timers_ok demo_stale"
proof (rule timers_okI [OF demo_timers_ok demo_stale_same])
  have "timer_wf demo_stale i" if "i < LOSCFG_BASE_CORE_SWTMR_LIMIT" for i
  proof -
    have "i \<in> {0, 1, 2, 3, 4, 5}" using that by (auto simp: LOSCFG_BASE_CORE_SWTMR_LIMIT_def)
    then show ?thesis
      by (auto simp: timer_wf_def Let_def demo_stale_fields demo_timers_fields demo_cb_def timer_index_def limits
          no_align_def OS_SORT_LINK_INVALID_TIME_def)
  qed
  then show "swtmr_inv demo_stale"
    by (auto simp: swtmr_inv_def timer_lists_wf_def demo_stale_fields LOSCFG_BASE_CORE_SWTMR_LIMIT_def)
qed

theorem swtmr_stale_alignment_witness:
  "let k2 = snd (snd (LOS_SwtmrCreate 100 0 0x5000 False 7 1 0 (snd (LOS_SwtmrStart 4 demo_stale)))) in
   fst (LOS_SwtmrStart 4 demo_stale) = LOS_ERRNO_SWTMR_NOT_CREATED \<and>
   fst (LOS_SwtmrStart 4 k2) = LOS_OK \<and> uwCount (g_swtmrCBArray (snd (LOS_SwtmrStart 4 k2)) 4) = 1 \<and>
   swtmrResponseTime (g_swtmrCBArray (snd (LOS_SwtmrStart 4 k2)) 4) = 97500"
proof -
  have t: "OsSortLinkGetTargetExpireTime 1500 97500 demo_stale = 1"
    by (simp add: OsSortLinkGetTargetExpireTime_def demo_stale_fields LOSCFG_BASE_CORE_TICK_PER_SECOND_def)
  show ?thesis
    using swtmr_stale_alignment [OF demo_stale_ok, of 4 "[5]" 4 2 "[]" 100 "0x5000" 7] t
    by (simp add: demo_stale_fields demo_timers_fields demo_cb_def demo_stale_clock Let_def OS_CYCLE_PER_TICK_def
        LOSCFG_BASE_CORE_TICK_PER_SECOND_def)
qed

end
