(* ===== verification/Tick_Spec.thy ===== *)
theory Tick_Spec
  imports Sched_Spec Swtmr_Spec
begin

text \<open>
  The tick interrupt: \<^verbatim>\<open>OsTickHandler\<close> runs the scan that the software timers registered with
  the scheduler and then the scheduler's own scan of sleeping tasks.  What the scheduler relies on
  is the locale \<open>timer_scan\<close>; it is interpreted on \<^verbatim>\<open>OsSwtmrScan\<close>.  A tick that ends a
  time slice runs neither scan and leaves timers and tasks alone.
\<close>

section \<open>The scheduler's scan beside the timers\<close>

definition timer_state where "timer_state k = (swtmr_view k, clock k)"

lemma timer_state_wake: "wake_frame k' = wake_frame k \<Longrightarrow> timer_state k' = timer_state k"
  using clock_cong [of k' k] by (simp add: timer_state_def wake_frame_def)

lemma timer_state_due: "timer_state k' = timer_state k \<Longrightarrow> due k' = due k"
  using swtmr_viewD [of k' k] by (simp add: timer_state_def due_def)

lemma scan_fields:
  fixes t b k
  defines "k' \<equiv> snd (OsSchedWakePendTimeTask t b (OsDeleteNodeSortLink OS_SORT_LINK_TASK t k))"
  shows "running k' u \<longleftrightarrow> running k u" "bit (status k' u) 1 \<longleftrightarrow> bit (status k u) 1"
    "runTask k' = runTask k" "g_taskScheduled k' = g_taskScheduled k" "g_idleTaskID k' = g_idleTaskID k" "wake_frame k' = wake_frame k"
proof -
  have o: "only t k k'"
    unfolding k'_def OsSchedWakePendTimeTask_def Let_def
    by (auto intro!: only_steps only_trans [OF _ only_EnQueue])
  then show "g_idleTaskID k' = g_idleTaskID k" by (simp add: only_def)
  have "running k' t \<longleftrightarrow> running k t"
    by (auto simp: k'_def OsSchedWakePendTimeTask_def Let_def EnQueue_status flag_simps)
  then show "running k' u \<longleftrightarrow> running k u" using o by (cases "u = t") (auto simp: only_def task_view_def)
  have "bit (status k' t) 1 \<longleftrightarrow> bit (status k t) 1"
    by (auto simp: k'_def OsSchedWakePendTimeTask_def Let_def EnQueue_status flag_simps)
  then show "bit (status k' u) 1 \<longleftrightarrow> bit (status k u) 1" using o by (cases "u = t") (auto simp: only_def task_view_def)
  have d: "runTask (OsDeleteNodeSortLink OS_SORT_LINK_TASK t k) = runTask k"
    "g_taskScheduled (OsDeleteNodeSortLink OS_SORT_LINK_TASK t k) = g_taskScheduled k"
    "wake_frame (OsDeleteNodeSortLink OS_SORT_LINK_TASK t k) = wake_frame k"
    by (simp_all add: OsDeleteNodeSortLink_def SET_SORTLIST_VALUE_def set_link_def upd_tcb_def wake_frame_def
        swtmr_view_def clock_view_def)
  show "runTask k' = runTask k" "g_taskScheduled k' = g_taskScheduled k"
    by (simp_all add: k'_def OsSchedWakePendTimeTask_def Let_def d)
  show "wake_frame k' = wake_frame k"
    by (simp add: k'_def OsSchedWakePendTimeTask_def OsSchedTaskEnQueue_def OsSchedPriQueueEnHead_def
        OsSchedPriQueueEnTail_def Let_def d)
qed

lemma scan_loop_fields:
  "(running (snd (scan_timer_loop now b k)) u \<longleftrightarrow> running k u) \<and>
   (bit (status (snd (scan_timer_loop now b k)) u) 1 \<longleftrightarrow> bit (status k u) 1) \<and> runTask (snd (scan_timer_loop now b k)) = runTask k \<and>
   g_taskScheduled (snd (scan_timer_loop now b k)) = g_taskScheduled k \<and>
   g_idleTaskID (snd (scan_timer_loop now b k)) = g_idleTaskID k \<and>
   wake_frame (snd (scan_timer_loop now b k)) = wake_frame k"
proof (induction now b k rule: scan_timer_loop.induct)
  case (1 now b k)
  show ?case
  proof (cases "taskSortLink k")
    case Nil
    then show ?thesis by (simp add: scan_timer_loop.simps)
  next
    case (Cons t ts)
    then show ?thesis
      using 1 [OF Cons] scan_fields [of t b k] by (subst (1 2 3 4 5 6) scan_timer_loop.simps) (simp add: Let_def)
  qed
qed

lemma kernel_inv_scan:
  assumes inv: "kernel_inv k"
  shows "kernel_inv (snd (scan_timer_loop now b k))"
proof -
  let ?k = "snd (scan_timer_loop now b k)" and ?i = "unat (g_idleTaskID k)"
  have s: "sched_inv k" and r: "run_wf k" using inv by (simp_all add: kernel_inv_def)
  note e = scan_timer_loop_effect [OF s, of now b, unfolded scan_effect_def] and f = scan_loop_fields [of now b k]
  have v: "task_view ?k u = task_view k u" if "u \<notin> set (taskSortLink k)" for u
    using that e by (simp add: expired_def)
  have run: "runTask k \<notin> set (taskSortLink k)" using r by (simp add: run_wf_def)
  have idle: "is_idle k ?i" "\<forall>b \<in> {0, 1, 3, 5, 7}. \<not> bit (status k ?i) b"
    using r by (simp_all add: run_wf_def idle_wf_def Let_def)
  then have "?i \<notin> set (taskSortLink k)" using task_wfD(9) [OF sched_invD(4) [OF s]] by blast
  then have "task_view ?k ?i = task_view k ?i" by (rule v)
  then have "idle_wf ?k" using idle f by (simp add: idle_wf_def Let_def task_view_def)
  moreover have "\<not> ready ?k (runTask k)" "runTask k \<notin> set (taskSortLink ?k)"
    using v [OF run] r e run by (simp_all add: task_view_def run_wf_def)
  moreover have "u = runTask k \<or> bit (status ?k u) 0" if "running k u" for u
  proof (cases "bit (status k u) 0")
    case True
    then have "u \<notin> set (taskSortLink k)" using task_wfD(6,9) [OF sched_invD(4) [OF s]] by blast
    then show ?thesis using v True by (simp add: task_view_def)
  qed (use r that in \<open>auto simp: run_wf_def\<close>)
  moreover have "none_lost ?k"
    unfolding none_lost_def
  proof (intro allI impI)
    fix u assume u: "u \<le> LOSCFG_BASE_CORE_TSK_LIMIT" "runnable ?k u"
    show "ready ?k u \<or> running ?k u"
    proof (cases "expired now k u")
      case True
      then show ?thesis using e u(2) scan_loop_fields [of now b k u] by (simp add: runnable_def)
    next
      case False
      then have "task_view ?k u = task_view k u" using e by blast
      then show ?thesis using u r by (simp add: task_view_def runnable_def run_wf_def none_lost_def)
    qed
  qed
  ultimately have "run_wf ?k" using r f scan_loop_fields [of now b k] by (simp add: run_wf_def)
  then show ?thesis using scan_timer_loop_inv [OF s] by (simp add: kernel_inv_def)
qed

lemma OsSchedScanTimerList_correct:
  assumes inv: "kernel_inv k"
  defines "k' \<equiv> snd (OsSchedScanTimerList k)"
  shows "kernel_inv k'" "timer_state k' = timer_state k" "\<forall>t \<in> set (taskSortLink k'). clock k < responseTime (tcb k' t)"
proof -
  let ?k = "snd (OsGetCurrSchedTimeCycle k)"
  have i: "kernel_inv ?k" by (rule same_sched_inv [OF same_sched_clock(1) inv])
  then have s: "sched_inv ?k" by (simp add: kernel_inv_def)
  have ts: "timer_state ?k = timer_state k" by (simp add: timer_state_def)
  have k': "k' = (if taskSortLink k = [] then k else snd (scan_timer_loop (clock k) False ?k))"
    unfolding k'_def OsSchedScanTimerList_def by (subst time_pair) simp
  show "kernel_inv k'" using inv kernel_inv_scan [OF i] by (simp add: k')
  show "timer_state k' = timer_state k"
    using ts timer_state_wake [of "snd (scan_timer_loop (clock k) False ?k)" ?k] scan_loop_fields [of "clock k" False ?k]
    by (simp add: k')
  note e = scan_timer_loop_effect [OF s, of "clock k" False, unfolded scan_effect_def]
  show "\<forall>t \<in> set (taskSortLink k'). clock k < responseTime (tcb k' t)"
  proof
    fix t
    assume t: "t \<in> set (taskSortLink k')"
    then have k2: "k' = snd (scan_timer_loop (clock k) False ?k)" by (auto simp: k' split: if_splits)
    with t e have "\<not> expired (clock k) ?k t" "\<not> responseTime (tcb ?k t) \<le> clock k" by (auto simp: expired_def)
    with e k2 have "responseTime (tcb k' t) = responseTime (tcb ?k t)" by (simp add: task_view_def)
    then show "clock k < responseTime (tcb k' t)" using \<open>\<not> responseTime (tcb ?k t) \<le> clock k\<close> by simp
  qed
qed

section \<open>The interrupt\<close>

lemma wake_frame_TimeSlice [simp]: "wake_frame (OsTimeSliceUpdate t now k) = wake_frame k"
  by (simp add: OsTimeSliceUpdate_def Let_def)

text \<open>The end of the interrupt: a switch is requested, or the timer is set again for the running
  task.\<close>

lemma tick_end:
  fixes need k
  defines "k2 \<equiv> k\<lparr>g_schedResponseTime := OS_SCHED_MAX_RESPONSE_TIME\<rparr>"
  defines "k' \<equiv> (if need \<and> LOS_CHECK_SCHEDULE k2 then HalTaskSchedule k2
    else let (currTime, k3) = OsGetCurrSchedTimeCycle k2
         in OsSchedUpdateExpireTime currTime True (OsTimeSliceUpdate (runTask k3) currTime k3))"
  assumes inv: "kernel_inv k"
  shows "kernel_inv k'" "timer_state k' = timer_state k" "taskSortLink k' = taskSortLink k"
    "responseTime (tcb k' t) = responseTime (tcb k t)" "sched_view k' = sched_view k"
proof -
  have e: "k' = (if need \<and> LOS_CHECK_SCHEDULE k2 then HalTaskSchedule k2
    else OsSchedUpdateExpireTime (clock k2) True (OsTimeSliceUpdate (runTask k) (clock k2) (snd (OsGetCurrSchedTimeCycle k2))))"
    unfolding k'_def Let_def by (subst time_pair) (simp add: k2_def)
  show v: "sched_view k' = sched_view k" by (simp add: e k2_def)
  show "kernel_inv k'"
  proof (rule kernel_inv_view [OF v _ _ inv])
    show "runTask k' = runTask k" "g_taskScheduled k' = g_taskScheduled k"
      by (simp_all add: e k2_def HalTaskSchedule_def run_fields_expire')
  qed
  show "taskSortLink k' = taskSortLink k" "responseTime (tcb k' t) = responseTime (tcb k t)"
    using sched_viewD [OF v] by simp_all
  have w: "timer_state k2 = timer_state k" "timer_state (HalTaskSchedule k2) = timer_state k2"
    by (rule timer_state_wake, simp add: wake_frame_def swtmr_view_def clock_view_def k2_def HalTaskSchedule_def)+
  have x: "timer_state (OsSchedUpdateExpireTime u True j) = timer_state j"
    "timer_state (snd (OsGetCurrSchedTimeCycle j)) = timer_state j" for u j
    by (simp_all add: timer_state_def)
  show "timer_state k' = timer_state k"
    using w x timer_state_wake [OF wake_frame_TimeSlice] by (simp add: e)
qed

text \<open>A tick that only ends a time slice scans nothing.\<close>

lemma tick_slice:
  fixes scan k
  assumes inv: "kernel_inv k" and resp: "g_schedResponseID k \<noteq> OS_INVALID"
  defines "k' \<equiv> LOS_SchedTickHandler scan k"
  shows "kernel_inv k' \<and> timer_state k' = timer_state k \<and> sched_view k' = sched_view k"
proof -
  have "g_taskScheduled k" using inv by (simp add: kernel_inv_def run_wf_def)
  then have k': "k' = (let k2 = k\<lparr>g_schedResponseTime := OS_SCHED_MAX_RESPONSE_TIME\<rparr> in
     if False \<and> LOS_CHECK_SCHEDULE k2 then HalTaskSchedule k2
     else let (currTime, k3) = OsGetCurrSchedTimeCycle k2
          in OsSchedUpdateExpireTime currTime True (OsTimeSliceUpdate (runTask k3) currTime k3))"
    using resp by (simp add: k'_def LOS_SchedTickHandler_def LOS_ASSERT_def Let_def split_beta)
  show ?thesis using tick_end [OF inv, of False] unfolding k' Let_def by simp
qed

text \<open>A registered scan: when it may run, it keeps the kernel's invariants and the time, and settles
  what it is responsible for.\<close>

locale timer_scan =
  fixes scan :: "kernel \<Rightarrow> bool \<times> kernel"
    and pre :: "kernel \<Rightarrow> bool"
    and settled :: "kernel \<Rightarrow> bool"
  assumes scan_inv: "pre k \<Longrightarrow> kernel_inv (snd (scan k))"
    and scan_clock: "pre k \<Longrightarrow> clock (snd (scan k)) = clock k"
    and scan_settled: "pre k \<Longrightarrow> settled (snd (scan k))"
    and settled_state: "settled k \<Longrightarrow> timer_state k' = timer_state k \<Longrightarrow> settled k'"
begin

lemma tick_handler:
  assumes inv: "kernel_inv k" and pre: "pre k" and reg: "swtmrScanSet k" and resp: "g_schedResponseID k = OS_INVALID"
  defines "k' \<equiv> LOS_SchedTickHandler scan k"
  shows "kernel_inv k' \<and> settled k' \<and> clock k' = clock k \<and> (\<forall>t \<in> set (taskSortLink k'). clock k < responseTime (tcb k' t))"
proof -
  let ?a = "snd (scan k)" and ?b = "snd (OsSchedScanTimerList (snd (scan k)))"
  let ?need = "fst (scan k) \<or> fst (OsSchedScanTimerList (snd (scan k)))"
  note a = scan_inv [OF pre] scan_clock [OF pre] scan_settled [OF pre]
  note b = OsSchedScanTimerList_correct [OF a(1)]
  have "g_taskScheduled k" using inv by (simp add: kernel_inv_def run_wf_def)
  then have k': "k' = (let k2 = ?b\<lparr>g_schedResponseTime := OS_SCHED_MAX_RESPONSE_TIME\<rparr> in
     if ?need \<and> LOS_CHECK_SCHEDULE k2 then HalTaskSchedule k2
     else let (currTime, k3) = OsGetCurrSchedTimeCycle k2
          in OsSchedUpdateExpireTime currTime True (OsTimeSliceUpdate (runTask k3) currTime k3))"
    using reg resp by (simp add: k'_def LOS_SchedTickHandler_def LOS_ASSERT_def Let_def split_beta)
  note c = tick_end [OF b(1), of ?need, folded k' [unfolded Let_def]]
  have t: "timer_state k' = timer_state ?a" using c b(2) unfolding k' Let_def by simp
  have "clock k' = clock k" using t a(2) by (simp add: timer_state_def)
  moreover have "settled k'" using settled_state [OF a(3) t] .
  ultimately show ?thesis using c b(3) a(2) unfolding k' Let_def by simp
qed

end

text \<open>The scan of the software timers.\<close>

interpretation swtmr: timer_scan "\<lambda>k. the (OsSwtmrScan k)" "\<lambda>k. timers_ok k \<and> (\<exists>a. handler_queue k a)" "\<lambda>k. due k = []"
proof unfold_locales
  fix k
  assume "timers_ok k \<and> (\<exists>a. handler_queue k a)"
  then obtain a k' where "OsSwtmrScan k = Some (due k \<noteq> [], k')" "scan_post k a k'"
    using OsSwtmrScan_post by blast
  then show "kernel_inv (snd (the (OsSwtmrScan k)))" "clock (snd (the (OsSwtmrScan k))) = clock k"
    "due (snd (the (OsSwtmrScan k))) = []"
    using timer_envD(1) [of k' k] by (simp_all add: scan_post_def timers_ok_def)
next
  fix k k'
  assume "due k = []" "timer_state k' = timer_state k"
  then show "due k' = []" using timer_state_due [of k' k] by simp
qed

lemma time_base_inv: "kernel_inv k \<Longrightarrow> kernel_inv (OsSchedUpdateSchedTimeBase k)"
  by (rule kernel_inv_view) (simp_all add: OsSchedUpdateSchedTimeBase_def)

text \<open>
  C24: The tick interrupt.  \<^verbatim>\<open>OsTickHandler\<close> first moves the time base forward by one period.  When
  the timer was set for an expiry (\<^verbatim>\<open>g_schedResponseID\<close> is \<^verbatim>\<open>OS_INVALID\<close>), the scan of the software
  timers, which ends, and the scan of sleeping tasks run; afterwards, at the time the handler
  started with, no software timer and no sleeping task is due.  When the timer was set for the end
  of the running task's time slice, nothing is scanned: timers and lists, statuses and expiry times
  of all tasks are left as they were, due or not.  In both cases the time is unchanged and the
  scheduler's invariants hold.
\<close>

theorem tick_interrupt_correct:
  fixes k
  defines "k0 \<equiv> OsSchedUpdateSchedTimeBase k" and "k' \<equiv> OsTickHandler (\<lambda>k. the (OsSwtmrScan k)) k"
  assumes "kernel_inv k" "timers_ok k0" "handler_queue k0 a" "swtmrScanSet k"
  shows "OsSwtmrScan k0 \<noteq> None \<and> kernel_inv k' \<and> clock k' = clock k0 \<and>
    (if g_schedResponseID k = OS_INVALID
     then due k' = [] \<and> (\<forall>t \<in> set (taskSortLink k'). clock k0 < responseTime (tcb k' t))
     else sched_view k' = sched_view k0 \<and> swtmr_view k' = swtmr_view k0)"
proof -
  have k': "k' = LOS_SchedTickHandler (\<lambda>k. the (OsSwtmrScan k)) k0" by (simp add: k'_def k0_def OsTickHandler_def)
  have r: "swtmrScanSet k0" "g_schedResponseID k0 = g_schedResponseID k"
    using assms(6) by (simp_all add: k0_def OsSchedUpdateSchedTimeBase_def)
  have s: "OsSwtmrScan k0 \<noteq> None" using OsSwtmrScan_post [OF assms(4,5)] by auto
  have i: "kernel_inv k0" using time_base_inv [OF assms(3)] by (simp add: k0_def)
  show ?thesis
  proof (cases "g_schedResponseID k = OS_INVALID")
    case True
    then show ?thesis using swtmr.tick_handler [OF i _ r(1), folded k'] assms(4,5) r(2) s by auto
  next
    case False
    then show ?thesis using tick_slice [OF i, of "\<lambda>k. the (OsSwtmrScan k)", folded k'] r(2) s
      by (simp add: timer_state_def)
  qed
qed

text \<open>The interrupt that ends the period in which the timers of \<open>demo_timers\<close> fall due.\<close>

definition demo_tick :: kernel where
  "demo_tick = demo_timers\<lparr>SysTick_CNT := 500, SysTick_CMP := 0\<rparr>"

lemma demo_tick_base: "OsSchedUpdateSchedTimeBase demo_tick = demo_tick"
  by (simp add: OsSchedUpdateSchedTimeBase_def HalGetTickCycle_def demo_tick_def)

theorem tick_interrupt_correct_witness:
  "due (OsTickHandler (\<lambda>k. the (OsSwtmrScan k)) demo_tick) = [] \<and> due demo_tick = [0, 1]"
proof -
  have c: "clock demo_tick = 1500"
    by (simp add: clock_def OsGetCurrSchedTimeCycle_def HalGetTickCycle_def LOS_ASSERT_def demo_tick_def demo_timers_def
      demo_queue_def upd_queue_def demo_kernel_def)
  have v: "swtmr_view demo_tick = swtmr_view demo_timers" by (simp add: demo_tick_def swtmr_view_def)
  have "sched_view demo_tick = sched_view demo_timers" by (rule sched_viewI) (simp_all add: demo_tick_def)
  moreover have "timer_env demo_tick = timer_env demo_timers"
    using c demo_clock by (simp add: timer_env_def demo_tick_def)
  ultimately have s: "same_sched demo_timers demo_tick" by (simp add: same_sched_def demo_tick_def)
  have "swtmr_inv demo_tick"
    using demo_timers_ok
    by (simp add: timers_ok_def swtmr_inv_def timer_lists_wf_def timer_wf_def swtmr_viewD [OF v])
  then have ok: "timers_ok demo_tick" by (rule timers_okI [OF demo_timers_ok s])
  have hq: "handler_queue demo_tick (AQ 3 [CopyMsg [7, 9]] [] [] 0 0)"
    using demo_handler_queue same_sched_queue [OF s] by (simp add: handler_queue_def demo_tick_def)
  have r: "swtmrScanSet demo_tick" "g_schedResponseID demo_tick = OS_INVALID"
    by (simp_all add: demo_tick_def demo_timers_def demo_queue_def upd_queue_def demo_kernel_def)
  have "due demo_tick = [0, 1]"
    by (simp add: due_def swtmr_viewD [OF v] demo_timers_fields demo_cb_def c)
  then show ?thesis
    using tick_interrupt_correct [of demo_tick] ok hq r
    by (simp add: demo_tick_base timers_ok_def)
qed

end
