(* ===== verification/App_State.thy ===== *)
theory App_State
  imports Los_Event Los_Task Bytes
begin

text \<open>
  The state of the application under \<^verbatim>\<open>User/\<close> and \<^verbatim>\<open>Device/\<close>: the frame that the
  interrupt handler assembles (\<^verbatim>\<open>user.h\<close>, \<^verbatim>\<open>ch32v30x_it.c\<close>), the flags of the Wi-Fi
  module's driver (\<^verbatim>\<open>ESP8266.c\<close>), the statics of the threads, and the kernel below them.
  Output goes to two histories, the bytes sent to the Wi-Fi module and what is done to the pins of
  the display; text printed on the debug port is not part of the state.

  A store into an array goes through \<open>put_at\<close>; an index outside the array leaves the array
  alone and is recorded in \<open>oob\<close>, so that a state with the flag off is one in which every
  access was inside its array.
\<close>

section \<open>Arrays\<close>

definition put_at :: "nat \<Rightarrow> 'a \<Rightarrow> 'a list \<Rightarrow> bool \<times> 'a list" where
  "put_at i v xs = (if i < length xs then (False, xs[i := v]) else (True, xs))"

definition get_at :: "nat \<Rightarrow> 'a \<Rightarrow> 'a list \<Rightarrow> bool \<times> 'a" where
  "get_at i d xs = (if i < length xs then (False, xs ! i) else (True, d))"

lemma put_at_ok [simp]: "i < length xs \<Longrightarrow> put_at i v xs = (False, xs[i := v])"
  by (simp add: put_at_def)

lemma length_put_at [simp]: "length (snd (put_at i v xs)) = length xs"
  by (simp add: put_at_def)

section \<open>Frames\<close>

definition FRAME_HEADER1 :: u8 where "FRAME_HEADER1 = 0xA5"
definition FRAME_HEADER2 :: u8 where "FRAME_HEADER2 = 0x5A"
definition CMD_TYPE_IMAGE :: u8 where "CMD_TYPE_IMAGE = 0xD1"
definition CMD_IMAGE_TRANSFER :: u8 where "CMD_IMAGE_TRANSFER = 0x01"
definition MAX_DATA_LEN :: nat where "MAX_DATA_LEN = 1024"
definition WIFI_EVENT_RECV :: u32 where "WIFI_EVENT_RECV = 0x01"

datatype RecvState_t =
    RECV_STATE_HEADER1 | RECV_STATE_HEADER2 | RECV_STATE_CMD_TYPE | RECV_STATE_CMD
  | RECV_STATE_LEN_HIGH | RECV_STATE_LEN_LOW | RECV_STATE_DATA | RECV_STATE_CRC_HIGH
  | RECV_STATE_CRC_LOW

record FrameData_t =
  cmd_type :: u8
  cmd :: u8
  data_len :: u16
  data_buffer :: "u8 list"
  total_packets :: u8
  current_packet :: u8
  crc_received :: u16

section \<open>Display pins and buttons\<close>

datatype epd_pin = EPD_MOSI | EPD_CLK | EPD_CS | EPD_DC | EPD_RST

text \<open>What the display sees: a pin is set or cleared, the program waits until \<^verbatim>\<open>BUSY\<close> is
  released, or it waits for some milliseconds.\<close>

datatype epd_event = Pin epd_pin bool | WaitBusy | Wait u32

datatype ButtonState_t = BUTTON_STATE_IDLE | BUTTON_STATE_PRESSED | BUTTON_STATE_WAIT_RELEASE

record Button_t =
  btn_state :: ButtonState_t
  debounce_counter :: u8

section \<open>The application\<close>

record app =
  kern :: kernel
  g_frame_data :: FrameData_t
  recState :: RecvState_t          \<comment> \<open>statics of \<^verbatim>\<open>recDataProcessing\<close>\<close>
  data_index :: u16
  WIFI_CMD :: "u8 list"            \<comment> \<open>128 bytes\<close>
  cmd_index :: u16                 \<comment> \<open>static of \<^verbatim>\<open>WIFI_USART_IRQHandler\<close>\<close>
  WIFI_RECVSTOP :: u8
  WIFI_CONNECT_STATE :: u8
  WIFI_AP_STATE :: u8
  WIFI_SEND_STATE :: u8
  WIFI_BOOTFLAG :: u8
  WIFI_CMD_FLAG :: u8
  MODE_TYPE :: u8
  last_packet :: u8                \<comment> \<open>static of \<^verbatim>\<open>ProcessImageData\<close>\<close>
  rx_due :: "u8 list list"         \<comment> \<open>bytes the module will send, one element per stretch of waiting\<close>
  uart_out :: "u8 list"            \<comment> \<open>bytes sent to the Wi-Fi module\<close>
  epd_out :: "epd_event list"      \<comment> \<open>events at the display's pins\<close>
  oob :: bool                      \<comment> \<open>an access outside an array\<close>

text \<open>The address of the event control block \<^verbatim>\<open>gWifiEventGroup\<close>.\<close>

definition gWifiEventGroup :: nat where "gWifiEventGroup = 1"

text \<open>The application after start-up, before the first byte, used to evaluate the model.\<close>

definition demo_app :: app where
  "demo_app =
     \<lparr>kern = demo_kernel,
      g_frame_data = \<lparr>cmd_type = 0, cmd = 0, data_len = 0, data_buffer = replicate MAX_DATA_LEN 0,
        total_packets = 0, current_packet = 0, crc_received = 0\<rparr>,
      recState = RECV_STATE_HEADER1, data_index = 0, WIFI_CMD = replicate 128 0, cmd_index = 0,
      WIFI_RECVSTOP = 0, WIFI_CONNECT_STATE = 0, WIFI_AP_STATE = 0, WIFI_SEND_STATE = 0, WIFI_BOOTFLAG = 0,
      WIFI_CMD_FLAG = 0, MODE_TYPE = 0, last_packet = 0, rx_due = [], uart_out = [], epd_out = [], oob = False\<rparr>"

end
