(* ===== verification/Frame_Rx.thy ===== *)
theory Frame_Rx
  imports App_State
begin

text \<open>
  \<^verbatim>\<open>User/ch32v30x_it.c\<close>: the receive interrupt of the Wi-Fi module's UART.  In data mode each
  byte goes to the state machine \<^verbatim>\<open>recDataProcessing\<close>, which assembles a frame, checks its
  CRC and sets the event the Wi-Fi thread waits for; in command mode the bytes are collected as the
  module's answer to an AT command.  A byte that arrives is an argument of the handler.
\<close>

section \<open>CRC\<close>

definition crc_shift :: "u16 \<Rightarrow> u16" where
  "crc_shift crc = (if crc AND 1 \<noteq> 0 then drop_bit 1 crc XOR 0xA001 else drop_bit 1 crc)"

definition crc_byte :: "u16 \<Rightarrow> u8 \<Rightarrow> u16" where
  "crc_byte crc d = (crc_shift ^^ 8) (crc XOR ucast d)"

definition CRC16_Calculate :: "u8 list \<Rightarrow> u16 \<Rightarrow> u16" where
  "CRC16_Calculate xs len = fold (\<lambda>d crc. crc_byte crc d) (take (unat len) xs) 0xFFFF"

section \<open>The frame receiver\<close>

text \<open>The bytes the CRC is taken of: the array \<^verbatim>\<open>crc_data\<close> up to \<^verbatim>\<open>crc_len\<close>.\<close>

definition crc_data :: "FrameData_t \<Rightarrow> u8 list" where
  "crc_data f = [cmd_type f, cmd f, ucast (drop_bit 8 (data_len f) AND 0xFF), ucast (data_len f AND 0xFF)] @
     take (unat (data_len f)) (data_buffer f)"

definition recDataProcessing :: "u8 \<Rightarrow> app \<Rightarrow> app" where
  "recDataProcessing d s =
     (let f = g_frame_data s in
      case recState s of
        RECV_STATE_HEADER1 \<Rightarrow> if d = FRAME_HEADER1 then s\<lparr>recState := RECV_STATE_HEADER2\<rparr> else s
      | RECV_STATE_HEADER2 \<Rightarrow>
          if d = FRAME_HEADER2 then s\<lparr>recState := RECV_STATE_CMD_TYPE\<rparr>
          else s\<lparr>recState := RECV_STATE_HEADER1\<rparr>
      | RECV_STATE_CMD_TYPE \<Rightarrow> s\<lparr>g_frame_data := f\<lparr>cmd_type := d\<rparr>, recState := RECV_STATE_CMD\<rparr>
      | RECV_STATE_CMD \<Rightarrow> s\<lparr>g_frame_data := f\<lparr>cmd := d\<rparr>, recState := RECV_STATE_LEN_HIGH\<rparr>
      | RECV_STATE_LEN_HIGH \<Rightarrow>
          s\<lparr>g_frame_data := f\<lparr>data_len := push_bit 8 (ucast d)\<rparr>, recState := RECV_STATE_LEN_LOW\<rparr>
      | RECV_STATE_LEN_LOW \<Rightarrow>
          let f' = f\<lparr>data_len := data_len f OR ucast d\<rparr>; s' = s\<lparr>g_frame_data := f'\<rparr> in
          if data_len f' > 0 \<and> unat (data_len f') \<le> MAX_DATA_LEN
          then s'\<lparr>data_index := 0, recState := RECV_STATE_DATA\<rparr>
          else s'\<lparr>recState := RECV_STATE_HEADER1\<rparr>
      | RECV_STATE_DATA \<Rightarrow>
          if data_index s < data_len f then
            let (bad, buf) = put_at (unat (data_index s)) d (data_buffer f);
                s' = s\<lparr>g_frame_data := f\<lparr>data_buffer := buf\<rparr>, data_index := data_index s + 1, oob := oob s \<or> bad\<rparr>
            in if data_index s' \<ge> data_len f then s'\<lparr>recState := RECV_STATE_CRC_HIGH\<rparr> else s'
          else s
      | RECV_STATE_CRC_HIGH \<Rightarrow>
          s\<lparr>g_frame_data := f\<lparr>crc_received := push_bit 8 (ucast d)\<rparr>, recState := RECV_STATE_CRC_LOW\<rparr>
      | RECV_STATE_CRC_LOW \<Rightarrow>
          let f' = f\<lparr>crc_received := crc_received f OR ucast d\<rparr>;
              crc_calculated = CRC16_Calculate (crc_data f') (of_nat (length (crc_data f')));
              s' = s\<lparr>g_frame_data := f'\<rparr>;
              s'' = (if crc_received f' = crc_calculated
                     then s'\<lparr>kern := snd (LOS_EventWrite gWifiEventGroup WIFI_EVENT_RECV (kern s'))\<rparr> else s')
          in s''\<lparr>data_index := 0, recState := RECV_STATE_HEADER1\<rparr>)"

section \<open>Answers to commands\<close>

text \<open>The string found in a buffer, and \<^verbatim>\<open>strstr\<close> used as a condition.\<close>

definition c_string :: "u8 list \<Rightarrow> u8 list" where
  "c_string xs = takeWhile (\<lambda>c. c \<noteq> 0) xs"

fun is_prefix :: "u8 list \<Rightarrow> u8 list \<Rightarrow> bool" where
  "is_prefix [] ys = True"
| "is_prefix (x # xs) [] = False"
| "is_prefix (x # xs) (y # ys) = (x = y \<and> is_prefix xs ys)"

fun strstr :: "u8 list \<Rightarrow> u8 list \<Rightarrow> bool" where
  "strstr [] needle = (needle = [])"
| "strstr (y # ys) needle = (is_prefix needle (y # ys) \<or> strstr ys needle)"

text \<open>String literals as bytes.\<close>

definition bytes :: "string \<Rightarrow> u8 list" where
  "bytes = map (\<lambda>c. word_of_nat (of_char c))"

definition WIFI_CMD_ReturnCheck :: "app \<Rightarrow> app" where
  "WIFI_CMD_ReturnCheck s =
     (let str = c_string (WIFI_CMD s) in
      if strstr str (bytes ''OK'') then s\<lparr>WIFI_CMD_FLAG := 1\<rparr>
      else if strstr str (bytes ''ERROR'') \<or> strstr str (bytes ''FAIL'') then s\<lparr>WIFI_CMD_FLAG := 2\<rparr>
      else s)"

abbreviation (input) WIFI_RECV_DATA :: u8 where "WIFI_RECV_DATA \<equiv> 0"
abbreviation (input) WIFI_RECV_CMD :: u8 where "WIFI_RECV_CMD \<equiv> 1"

definition WIFI_CMD_SIZE :: nat where "WIFI_CMD_SIZE = 128"

section \<open>The interrupt\<close>

text \<open>\<open>rxne\<close> is the receive flag of the UART, \<open>d\<close> the byte in its data register.\<close>

definition WIFI_USART_IRQHandler :: "bool \<Rightarrow> u8 \<Rightarrow> app \<Rightarrow> app" where
  "WIFI_USART_IRQHandler rxne d s =
     (if \<not> rxne then s
      else if WIFI_RECVSTOP s = WIFI_RECV_DATA then recDataProcessing d s
      else if WIFI_RECVSTOP s = WIFI_RECV_CMD then
        if unat (cmd_index s) < WIFI_CMD_SIZE - 1 then
          let (bad, buf) = put_at (unat (cmd_index s)) d (WIFI_CMD s);
              s1 = s\<lparr>WIFI_CMD := buf, cmd_index := cmd_index s + 1, oob := oob s \<or> bad\<rparr>
          in if d = 10 then
               let (bad', buf') = put_at (unat (cmd_index s1)) 0 (WIFI_CMD s1);
                   s2 = s1\<lparr>WIFI_CMD := buf', oob := oob s1 \<or> bad'\<rparr>
               in (WIFI_CMD_ReturnCheck s2)\<lparr>cmd_index := 0\<rparr>
             else s1
        else
          let (bad, buf) = put_at (WIFI_CMD_SIZE - 1) 0 (WIFI_CMD s)
          in s\<lparr>WIFI_CMD := buf, oob := oob s \<or> bad, cmd_index := 0, WIFI_CMD_FLAG := 2\<rparr>
      else s\<lparr>cmd_index := 0\<rparr>)"

end
