(* ===== verification/Frame_Spec.thy ===== *)
theory Frame_Spec
  imports Frame_Rx "HOL-Library.Sublist"
begin

text \<open>
  Correctness of the frame receiver: the CRC routine computes the bit-serial CRC-16/MODBUS and
  detects every error burst of up to sixteen bits in the bytes it covers (but not every burst that
  reaches into the two bytes of the CRC itself), a frame that is sent is the frame that is stored, an event is signalled only for a complete frame with the right CRC, and no byte is
  stored outside the buffer, whatever the bytes received.
\<close>

section \<open>The bit-serial CRC\<close>

definition crc_bit :: "bool \<Rightarrow> u16 \<Rightarrow> u16" where
  "crc_bit b c = (if bit c 0 \<noteq> b then drop_bit 1 c XOR 0xA001 else drop_bit 1 c)"

definition byte_bits :: "u8 \<Rightarrow> bool list" where
  "byte_bits d = map (bit d) [0..<8]"

definition bits_of :: "u8 list \<Rightarrow> bool list" where
  "bits_of xs = concat (map byte_bits xs)"

definition crc_serial :: "u8 list \<Rightarrow> u16" where
  "crc_serial xs = fold crc_bit (bits_of xs) 0xFFFF"

definition crc16 :: "u8 list \<Rightarrow> u16" where
  "crc16 xs = fold (\<lambda>d crc. crc_byte crc d) xs 0xFFFF"

lemma and_one_bit: "(w :: u16) AND 1 \<noteq> 0 \<longleftrightarrow> bit w 0"
  using tst_exp [of 0 w] by (simp add: tst_def)

lemma crc_shift_bit: "crc_shift c = crc_bit False c"
  by (simp add: crc_shift_def crc_bit_def and_one_bit)

lemma crc_shift_xor: "crc_shift (c XOR e) = crc_bit (bit e 0) c XOR drop_bit 1 e"
  by (auto simp: crc_shift_bit crc_bit_def bit_xor_iff drop_bit_xor ac_simps)

lemma crc_shift_bits:
  "(crc_shift ^^ n) (c XOR e) = fold crc_bit (map (bit e) [0..<n]) c XOR drop_bit n e"
proof (induction n)
  case (Suc n)
  have "(crc_shift ^^ Suc n) (c XOR e) = crc_shift (fold crc_bit (map (bit e) [0..<n]) c XOR drop_bit n e)"
    using Suc by simp
  also have "\<dots> = crc_bit (bit e n) (fold crc_bit (map (bit e) [0..<n]) c) XOR drop_bit (Suc n) e"
    by (simp add: crc_shift_xor bit_drop_bit_eq)
  finally show ?case by simp
qed simp

lemma crc_byte_serial: "crc_byte c d = fold crc_bit (byte_bits d) c"
proof -
  have e: "drop_bit 8 (ucast d :: u16) = 0"
    by (rule bit_word_eqI) (auto simp: bit_drop_bit_eq bit_ucast_iff dest: bit_imp_le_length)
  have m: "map (bit (ucast d :: u16)) [0..<8] = map (bit d) [0..<8]" by (simp add: bit_ucast_iff)
  show ?thesis unfolding crc_byte_def crc_shift_bits byte_bits_def e m by simp
qed

lemma crc16_serial: "crc16 xs = crc_serial xs"
proof -
  have "fold (\<lambda>d crc. crc_byte crc d) xs c = fold crc_bit (bits_of xs) c" for c
    by (induction xs arbitrary: c) (simp_all add: bits_of_def crc_byte_serial)
  then show ?thesis by (simp add: crc16_def crc_serial_def)
qed

lemma CRC16_Calculate_crc16:
  "length xs < 2 ^ 16 \<Longrightarrow> CRC16_Calculate xs (of_nat (length xs)) = crc16 xs"
  by (simp add: CRC16_Calculate_def crc16_def unat_of_nat_small)

text \<open>
  C30: The CRC routine is the bit-serial CRC.  For every array of less than 65536 bytes
  \<^verbatim>\<open>CRC16_Calculate\<close>, which folds each byte into the register and then shifts eight times,
  computes the CRC-16/MODBUS of the message taken bit by bit, least significant bit first.
\<close>

theorem crc16_is_serial:
  assumes "length xs < 2 ^ 16"
  shows "CRC16_Calculate xs (of_nat (length xs)) = crc_serial xs"
  using assms CRC16_Calculate_crc16 crc16_serial by simp

text \<open>Evaluation of the routine on numerals.\<close>

lemma crc_byte_eval:
  "crc_byte c d = crc_shift (crc_shift (crc_shift (crc_shift (crc_shift (crc_shift (crc_shift (crc_shift (c XOR ucast d))))))))"
  by (simp add: crc_byte_def eval_nat_numeral)

theorem crc16_is_serial_witness: "crc_serial [0x31, 0x32] = 0xF595"
proof -
  have "crc_byte 0xFFFF 0x31 = 0x947E" "crc_byte 0x947E 0x32 = 0xF595"
    by (simp_all add: crc_byte_eval crc_shift_def)
  then have "CRC16_Calculate [0x31, 0x32] 2 = 0xF595" by (simp add: CRC16_Calculate_def)
  then show ?thesis using crc16_is_serial [of "[0x31, 0x32]"] by simp
qed

section \<open>Error bursts\<close>

lemma xor_back: "(x XOR a) XOR a = (x :: u16)"
  by (simp add: xor.assoc)

lemma crc_bit_inj: "crc_bit b c = crc_bit b' c' \<Longrightarrow> (bit c 0 \<noteq> b) = (bit c' 0 \<noteq> b') \<and> drop_bit 1 c = drop_bit 1 c'"
proof -
  assume eq: "crc_bit b c = crc_bit b' c'"
  have top: "bit (crc_bit b c) 15 \<longleftrightarrow> bit c 0 \<noteq> b" for b c
  proof -
    have "\<not> bit (drop_bit 1 c) 15" using bit_imp_le_length [of c 16] by (auto simp: bit_drop_bit_eq)
    moreover have "bit (0xA001 :: u16) 15" by simp
    ultimately show ?thesis by (simp add: crc_bit_def bit_xor_iff)
  qed
  have t: "(bit c 0 \<noteq> b) = (bit c' 0 \<noteq> b')" using top [of b c] top [of b' c'] by (simp only: eq)
  moreover have "drop_bit 1 c = drop_bit 1 c'"
  proof (cases "bit c 0 \<noteq> b")
    case True
    then have "drop_bit 1 c XOR 0xA001 = drop_bit 1 c' XOR 0xA001"
      using eq t by (simp only: crc_bit_def if_True not_False_eq_True)
    then have "(drop_bit 1 c XOR 0xA001) XOR 0xA001 = (drop_bit 1 c' XOR 0xA001) XOR 0xA001" by (rule arg_cong)
    then show ?thesis by (simp only: xor_back)
  next
    case False
    then show ?thesis using eq t by (simp only: crc_bit_def if_False)
  qed
  ultimately show ?thesis by blast
qed

lemma crc_bit_inj_state: "crc_bit b c = crc_bit b c' \<Longrightarrow> c = c'"
proof -
  assume "crc_bit b c = crc_bit b c'"
  then have "bit c 0 = bit c' 0" "drop_bit 1 c = drop_bit 1 c'" using crc_bit_inj by blast+
  moreover have "bit c (Suc n) = bit (drop_bit 1 c) n" for c :: u16 and n by (simp add: bit_drop_bit_eq)
  ultimately have "bit c n = bit c' n" for n by (cases n) auto
  then show "c = c'" by (simp add: bit_eq_iff)
qed

lemma crc_bits_inj_state: "fold crc_bit bs c = fold crc_bit bs c' \<Longrightarrow> c = c'"
  by (induction bs arbitrary: c c') (auto dest: crc_bit_inj_state)

text \<open>Up to sixteen bits can be read back from the register.\<close>

lemma crc_bits_inj:
  assumes "length v = length v'" "length v \<le> 16" "fold crc_bit v c = fold crc_bit v' c"
  shows "v = v'"
proof -
  define word_of :: "bool list \<Rightarrow> u16" where "word_of v = horner_sum of_bool 2 v" for v
  have bits: "map (bit (word_of v)) [0..<length v] = v" if "length v \<le> 16" for v
    using that by (intro nth_equalityI) (simp_all add: word_of_def bit_horner_sum_bit_word_iff)
  have d: "drop_bit (length v) (word_of v) = 0" if "length v \<le> 16" for v
    using that by (intro bit_word_eqI) (auto simp: word_of_def bit_drop_bit_eq bit_horner_sum_bit_word_iff)
  have "(crc_shift ^^ length v) (c XOR word_of v) = fold crc_bit v c" if "length v \<le> 16" for v
    unfolding crc_shift_bits bits [OF that] d [OF that] by simp
  then have "(crc_shift ^^ length v) (c XOR word_of v) = (crc_shift ^^ length v) (c XOR word_of v')"
    using assms by metis
  moreover have "inj (crc_shift ^^ n)" for n
    by (rule inj_fn) (metis crc_bit_inj_state crc_shift_bit injI)
  ultimately have "c XOR word_of v = c XOR word_of v'" by (simp add: inj_eq)
  then have "word_of v XOR c = word_of v' XOR c" by (simp only: xor.commute)
  then have "word_of v = word_of v'" using xor_back by metis
  then show "v = v'" using bits assms by metis
qed

text \<open>\<open>burst n xs ys\<close>: the two messages differ, and only within \<open>n\<close> consecutive bits.\<close>

definition burst :: "nat \<Rightarrow> u8 list \<Rightarrow> u8 list \<Rightarrow> bool" where
  "burst n xs ys \<longleftrightarrow> (\<exists>u v v' w. bits_of xs = u @ v @ w \<and> bits_of ys = u @ v' @ w \<and>
     length v = length v' \<and> length v \<le> n \<and> v \<noteq> v')"

lemma crc_detects_burst:
  assumes "burst 16 xs ys"
  shows "crc16 xs \<noteq> crc16 ys"
proof
  assume eq: "crc16 xs = crc16 ys"
  obtain u v v' w where b: "bits_of xs = u @ v @ w" "bits_of ys = u @ v' @ w" "length v = length v'"
    "length v \<le> 16" "v \<noteq> v'"
    using assms by (auto simp: burst_def)
  from eq have "fold crc_bit w (fold crc_bit v (fold crc_bit u 0xFFFF)) =
      fold crc_bit w (fold crc_bit v' (fold crc_bit u 0xFFFF))"
    by (simp add: crc16_serial crc_serial_def b)
  then have "fold crc_bit v (fold crc_bit u 0xFFFF) = fold crc_bit v' (fold crc_bit u 0xFFFF)"
    by (rule crc_bits_inj_state)
  then show False using crc_bits_inj [OF b(3,4)] b(5) by blast
qed

text \<open>The register is linear in the last byte; two changed bits in it change two bits of the high
  byte of the CRC.\<close>

lemma crc_shift_linear: "crc_shift (x XOR y) = crc_shift x XOR crc_shift y"
proof -
  have "drop_bit 1 (x XOR y) = drop_bit 1 x XOR drop_bit 1 y" by (rule drop_bit_xor)
  then show ?thesis
    by (cases "bit x 0"; cases "bit y 0")
      (simp_all add: crc_shift_bit crc_bit_def bit_xor_iff xor.assoc xor.left_commute, simp_all add: ac_simps)
qed

lemma ucast_xor: "(ucast (a XOR b) :: 'b :: len word) = ucast a XOR ucast (b :: 'a :: len word)"
  by (rule bit_word_eqI) (auto simp: bit_ucast_iff bit_xor_iff)

lemma crc_last_byte: "crc16 (xs @ [d XOR 0x0C]) = crc16 (xs @ [d]) XOR 0x0500"
proof -
  have e: "ucast (d XOR 0x0C) = ucast d XOR (0x0C :: u16)"
    by (simp add: ucast_xor)
  have z: "crc_shift 0 = 0" by (simp add: crc_shift_def)
  have "crc_byte c (d XOR 0x0C) = crc_byte c d XOR crc_byte 0 0x0C" for c
    unfolding crc_byte_eval e xor.assoc [symmetric] crc_shift_linear by (simp add: z)
  moreover have "crc_byte 0 0x0C = 0x0500" by (simp add: crc_byte_eval crc_shift_def)
  ultimately show ?thesis by (simp add: crc16_def)
qed

section \<open>Frames on the wire\<close>

definition frame_head :: "u8 \<Rightarrow> u8 \<Rightarrow> u16 \<Rightarrow> u8 list" where
  "frame_head ty c n = [ty, c, ucast (drop_bit 8 n), ucast n]"

definition be16 :: "u16 \<Rightarrow> u8 list" where
  "be16 w = [ucast (drop_bit 8 w), ucast w]"

text \<open>What the CRC covers, and a frame with the CRC word \<open>w\<close>.\<close>

definition frame_body :: "u8 \<Rightarrow> u8 \<Rightarrow> u8 list \<Rightarrow> u8 list" where
  "frame_body ty c p = frame_head ty c (of_nat (length p)) @ p"

definition frame_with :: "u8 \<Rightarrow> u8 \<Rightarrow> u8 list \<Rightarrow> u16 \<Rightarrow> u8 list" where
  "frame_with ty c p w = [FRAME_HEADER1, FRAME_HEADER2] @ frame_body ty c p @ be16 w"

definition frame_bytes :: "u8 \<Rightarrow> u8 \<Rightarrow> u8 list \<Rightarrow> u8 list" where
  "frame_bytes ty c p = frame_with ty c p (crc16 (frame_body ty c p))"

definition rx_run :: "u8 list \<Rightarrow> app \<Rightarrow> app" where
  "rx_run bs s = fold recDataProcessing bs s"

lemma rx_run_simps [simp]: "rx_run [] s = s" "rx_run (b # bs) s = rx_run bs (recDataProcessing b s)"
  "rx_run (as @ bs) s = rx_run bs (rx_run as s)"
  by (simp_all add: rx_run_def)

lemma be16_word: "push_bit 8 (ucast (ucast (drop_bit 8 w) :: u8)) OR ucast (ucast w :: u8) = (w :: u16)"
proof (rule bit_word_eqI)
  fix n
  assume "n < LENGTH(16)"
  then consider "n < 8" | "8 \<le> n" "n < 16" by fastforce
  then show "bit (push_bit 8 (ucast (ucast (drop_bit 8 w) :: u8)) OR ucast (ucast w :: u8) :: u16) n = bit w n"
    by cases (auto simp: bit_or_iff bit_push_bit_iff bit_ucast_iff bit_drop_bit_eq dest: bit_imp_le_length)
qed

text \<open>The frame a run of the receiver stores.\<close>

definition stored :: "u8 \<Rightarrow> u8 \<Rightarrow> u8 list \<Rightarrow> u16 \<Rightarrow> FrameData_t \<Rightarrow> FrameData_t" where
  "stored ty c p w f = f\<lparr>cmd_type := ty, cmd := c, data_len := of_nat (length p),
     data_buffer := splice 0 p (data_buffer f), crc_received := w\<rparr>"

lemma rx_head:
  assumes "recState s = RECV_STATE_HEADER1" "0 < unat n" "unat n \<le> MAX_DATA_LEN"
  shows "rx_run ([FRAME_HEADER1, FRAME_HEADER2] @ frame_head ty c n) s =
    s\<lparr>g_frame_data := (g_frame_data s)\<lparr>cmd_type := ty, cmd := c, data_len := n\<rparr>,
      data_index := 0, recState := RECV_STATE_DATA\<rparr>"
proof -
  have "n \<noteq> 0" using assms(2) by auto
  then show ?thesis
    using assms by (simp add: frame_head_def recDataProcessing_def Let_def be16_word word_gt_0)
qed

lemma rx_data:
  assumes "recState s = RECV_STATE_DATA" "unat (data_len (g_frame_data s)) \<le> length (data_buffer (g_frame_data s))"
    and "p \<noteq> []" "unat (data_index s) + length p = unat (data_len (g_frame_data s))"
  shows "rx_run p s = s\<lparr>g_frame_data := (g_frame_data s)\<lparr>data_buffer :=
      splice (unat (data_index s)) p (data_buffer (g_frame_data s))\<rparr>,
    data_index := data_len (g_frame_data s), recState := RECV_STATE_CRC_HIGH\<rparr>"
  using assms
proof (induction p arbitrary: s)
  case (Cons d p)
  let ?f = "g_frame_data s" and ?i = "unat (data_index s)"
  have i: "?i < length (data_buffer ?f)" "data_index s < data_len ?f"
    using Cons.prems by (simp_all add: word_less_nat_alt)
  have n: "unat (data_index s + 1) = Suc ?i"
    by (rule u16_incr [of _ "data_len ?f"]) (use i in \<open>simp add: word_less_nat_alt\<close>)
  let ?s = "s\<lparr>g_frame_data := ?f\<lparr>data_buffer := (data_buffer ?f)[?i := d]\<rparr>, data_index := data_index s + 1\<rparr>"
  show ?case
  proof (cases "p = []")
    case True
    then have "unat (data_index s + 1) = unat (data_len ?f)" using Cons.prems(4) n by simp
    then have e: "data_index s + 1 = data_len ?f" by (rule unsigned_word_eqI)
    have "splice ?i [d] (data_buffer ?f) = (data_buffer ?f)[?i := d]"
      using i by (simp add: splice_def upd_conv_take_nth_drop)
    then show ?thesis using True e i Cons.prems(1) by (simp add: recDataProcessing_def Let_def)
  next
    case False
    then have lt: "\<not> data_len ?f \<le> data_index s + 1"
      using n Cons.prems(4) by (cases p) (simp_all add: word_le_nat_alt)
    have "recDataProcessing d s = ?s" using i lt Cons.prems(1) by (simp add: recDataProcessing_def Let_def)
    moreover have "splice (Suc ?i) p ((data_buffer ?f)[?i := d]) = splice ?i (d # p) (data_buffer ?f)"
      using i by (simp add: splice_def take_Suc_conv_app_nth)
    ultimately show ?thesis using Cons.IH [of ?s] False Cons.prems n by simp
  qed
qed simp

lemma low_byte16: "(ucast ((w :: u16) AND 0xFF) :: u8) = ucast w"
proof -
  have m: "(0xFF :: u16) = mask 8" by (simp add: mask_eq_exp_minus_1)
  show ?thesis
    unfolding m by (rule bit_word_eqI) (simp add: bit_ucast_iff bit_and_iff bit_mask_iff del: mask_numeral)
qed

lemma crc_data_stored:
  assumes "length p \<le> length (data_buffer f)" "length p < 2 ^ 16"
  shows "crc_data (stored ty c p w f) = frame_body ty c p"
  using assms
  by (simp add: crc_data_def stored_def frame_body_def frame_head_def low_byte16 splice_def unat_of_nat_small)

lemma rx_frame:
  assumes st: "recState s = RECV_STATE_HEADER1" and p: "p \<noteq> []" "length p \<le> MAX_DATA_LEN"
    and buf: "length (data_buffer (g_frame_data s)) = MAX_DATA_LEN"
  shows "rx_run (frame_with ty c p w) s =
    s\<lparr>kern := (if w = crc16 (frame_body ty c p)
               then snd (LOS_EventWrite gWifiEventGroup WIFI_EVENT_RECV (kern s)) else kern s),
      g_frame_data := stored ty c p w (g_frame_data s), data_index := 0, recState := RECV_STATE_HEADER1\<rparr>"
proof -
  let ?n = "of_nat (length p) :: u16" and ?f = "g_frame_data s"
  have n: "unat ?n = length p" using p(2) by (intro unat_of_nat_small) (simp add: MAX_DATA_LEN_def)
  have len: "length (frame_body ty c p) < 2 ^ 16" using p(2) by (simp add: frame_body_def frame_head_def MAX_DATA_LEN_def)
  let ?h = "s\<lparr>g_frame_data := ?f\<lparr>cmd_type := ty, cmd := c, data_len := ?n\<rparr>, data_index := 0, recState := RECV_STATE_DATA\<rparr>"
  have h: "rx_run ([FRAME_HEADER1, FRAME_HEADER2] @ frame_head ty c ?n) s = ?h"
    by (rule rx_head) (use st n p in simp_all)
  let ?d = "s\<lparr>g_frame_data := ?f\<lparr>cmd_type := ty, cmd := c, data_len := ?n, data_buffer := splice 0 p (data_buffer ?f)\<rparr>,
    data_index := ?n, recState := RECV_STATE_CRC_HIGH\<rparr>"
  have d: "rx_run p ?h = ?d" using rx_data [of ?h p] n p buf by simp
  have f: "?f\<lparr>cmd_type := ty, cmd := c, data_len := ?n, data_buffer := splice 0 p (data_buffer ?f), crc_received := w\<rparr> =
      stored ty c p w ?f" by (simp add: stored_def)
  have crc: "CRC16_Calculate (crc_data (stored ty c p w ?f)) (of_nat (length (crc_data (stored ty c p w ?f)))) =
      crc16 (frame_body ty c p)"
    using crc_data_stored [of p ?f] CRC16_Calculate_crc16 [OF len] p(2) buf by (simp add: MAX_DATA_LEN_def)
  have "rx_run (be16 w) ?d = s\<lparr>kern := (if w = crc16 (frame_body ty c p)
               then snd (LOS_EventWrite gWifiEventGroup WIFI_EVENT_RECV (kern s)) else kern s),
      g_frame_data := stored ty c p w ?f, data_index := 0, recState := RECV_STATE_HEADER1\<rparr>"
    by (simp add: be16_def recDataProcessing_def Let_def be16_word f crc) (simp add: stored_def)
  then show ?thesis using h d by (simp add: frame_with_def frame_body_def)
qed

text \<open>The frame with bits 2 and 3 of its last data byte and bits 0 and 2 of the next byte, the high
  byte of the CRC, changed: four bits among nine that are sent one after the other.\<close>

lemma bits_of_simps [simp]: "bits_of [] = []" "bits_of (d # xs) = byte_bits d @ bits_of xs"
  "bits_of (xs @ ys) = bits_of xs @ bits_of ys"
  by (simp_all add: bits_of_def)

lemma byte_bits_list: "byte_bits d = [bit d 0, bit d 1, bit d 2, bit d 3, bit d 4, bit d 5, bit d 6, bit d 7]"
  by (simp add: byte_bits_def upt_rec numeral_eq_Suc)

lemma burst_into_crc:
  "burst 9 (frame_with ty c (p @ [d]) w) (frame_with ty c (p @ [d XOR 0x0C]) (w XOR 0x0500))"
proof -
  let ?u = "bits_of ([FRAME_HEADER1, FRAME_HEADER2] @ frame_head ty c (of_nat (length (p @ [d]))) @ p) @ [bit d 0, bit d 1]"
  let ?h = "ucast (drop_bit 8 w) :: u8"
  let ?w = "[bit ?h 3, bit ?h 4, bit ?h 5, bit ?h 6, bit ?h 7] @ byte_bits (ucast w)"
  have zero: "(1280 :: u8) = 0" by simp
  have h: "ucast (drop_bit 8 (w XOR 0x0500)) = ?h XOR 0x05" "ucast (w XOR 0x0500) = (ucast w :: u8)"
    by (simp_all add: ucast_xor drop_bit_xor zero)
  have 1: "bits_of (frame_with ty c (p @ [d]) w) =
      ?u @ [bit d 2, bit d 3, bit d 4, bit d 5, bit d 6, bit d 7, bit ?h 0, bit ?h 1, bit ?h 2] @ ?w"
    by (simp add: frame_with_def frame_body_def be16_def byte_bits_list)
  have 2: "bits_of (frame_with ty c (p @ [d XOR 0x0C]) (w XOR 0x0500)) =
      ?u @ [\<not> bit d 2, \<not> bit d 3, bit d 4, bit d 5, bit d 6, bit d 7, \<not> bit ?h 0, bit ?h 1, \<not> bit ?h 2] @ ?w"
    by (simp add: frame_with_def frame_body_def be16_def h, simp add: byte_bits_list bit_xor_iff bit_ucast_iff)
  show ?thesis
    unfolding burst_def 1 2
    by (rule exI [of _ ?u], rule exI, rule exI, rule exI [of _ ?w], intro conjI, rule refl, rule refl) simp_all
qed

text \<open>
  C28: A frame that is sent is the frame that is received.  When a frame of a type, a command and
  up to 1024 bytes of data arrives between frames, the receiver is ready for the next frame, has
  stored exactly the type, the command, the length, the data and the CRC, and has signalled the
  Wi-Fi thread once.  When a burst of up to sixteen bits has changed type, command or data on the
  way, while length and CRC have arrived as they were sent, it signals nothing.  This does not hold
  for bursts that reach into the CRC, which is sent with its high byte first: in every frame, a
  certain burst of nine bits across the last data byte and the CRC is accepted and signalled.
\<close>

theorem frame_receive_roundtrip:
  fixes ty c
  assumes "recState s = RECV_STATE_HEADER1" "length (data_buffer (g_frame_data s)) = MAX_DATA_LEN"
    and "p \<noteq> []" "length p \<le> MAX_DATA_LEN"
  defines "s' \<equiv> rx_run (frame_bytes ty c p) s"
  shows "recState s' = RECV_STATE_HEADER1 \<and> cmd_type (g_frame_data s') = ty \<and> cmd (g_frame_data s') = c \<and>
    unat (data_len (g_frame_data s')) = length p \<and> take (length p) (data_buffer (g_frame_data s')) = p \<and>
    kern s' = snd (LOS_EventWrite gWifiEventGroup WIFI_EVENT_RECV (kern s)) \<and> oob s' = oob s \<and>
    (\<forall>ty' c' p'. length p' = length p \<and> burst 16 (frame_body ty c p) (frame_body ty' c' p') \<longrightarrow>
       kern (rx_run (frame_with ty' c' p' (crc16 (frame_body ty c p))) s) = kern s) \<and>
    (\<exists>bs. burst 9 (frame_bytes ty c p) bs \<and>
       kern (rx_run bs s) = snd (LOS_EventWrite gWifiEventGroup WIFI_EVENT_RECV (kern s)))"
proof (intro conjI allI impI)
  note e = rx_frame [OF assms(1,3,4,2), of ty c "crc16 (frame_body ty c p)", folded frame_bytes_def s'_def]
  show "recState s' = RECV_STATE_HEADER1" "cmd_type (g_frame_data s') = ty" "cmd (g_frame_data s') = c"
    "kern s' = snd (LOS_EventWrite gWifiEventGroup WIFI_EVENT_RECV (kern s))" "oob s' = oob s"
    "take (length p) (data_buffer (g_frame_data s')) = p"
    by (simp_all add: e stored_def splice_def)
  show "unat (data_len (g_frame_data s')) = length p"
    using assms(4) by (simp add: e stored_def unat_of_nat_small MAX_DATA_LEN_def)
  obtain q d where p: "p = q @ [d]" using assms(3) by (cases p rule: rev_cases) auto
  let ?w = "crc16 (frame_body ty c p) XOR 0x0500"
  have "crc16 (frame_body ty c (q @ [d XOR 0x0C])) = ?w"
    using crc_last_byte [of "frame_head ty c (of_nat (length p)) @ q" d] by (simp add: frame_body_def p)
  then have "kern (rx_run (frame_with ty c (q @ [d XOR 0x0C]) ?w) s) = snd (LOS_EventWrite gWifiEventGroup WIFI_EVENT_RECV (kern s))"
    using rx_frame [OF assms(1) _ _ assms(2), of "q @ [d XOR 0x0C]" ty c ?w] assms(4) by (simp add: p)
  then show "\<exists>bs. burst 9 (frame_bytes ty c p) bs \<and>
      kern (rx_run bs s) = snd (LOS_EventWrite gWifiEventGroup WIFI_EVENT_RECV (kern s))"
    using burst_into_crc [of ty c q d "crc16 (frame_body ty c p)"] by (auto simp: frame_bytes_def p)
  fix ty' c' p'
  assume b: "length p' = length p \<and> burst 16 (frame_body ty c p) (frame_body ty' c' p')"
  then have "crc16 (frame_body ty c p) \<noteq> crc16 (frame_body ty' c' p')" using crc_detects_burst by blast
  moreover have "p' \<noteq> []" "length p' \<le> MAX_DATA_LEN" using b assms(3,4) by auto
  ultimately show "kern (rx_run (frame_with ty' c' p' (crc16 (frame_body ty c p))) s) = kern s"
    using rx_frame [OF assms(1) _ _ assms(2)] by simp
qed

theorem frame_receive_roundtrip_witness:
  "let s' = rx_run (frame_bytes 0xD1 0x01 [7, 9]) demo_app in
   take 2 (data_buffer (g_frame_data s')) = [7, 9] \<and> data_len (g_frame_data s') = 2 \<and>
   kern s' = snd (LOS_EventWrite gWifiEventGroup WIFI_EVENT_RECV demo_kernel)"
proof -
  let ?s = "rx_run (frame_bytes 0xD1 0x01 [7, 9]) demo_app"
  have "recState demo_app = RECV_STATE_HEADER1" "length (data_buffer (g_frame_data demo_app)) = MAX_DATA_LEN"
    "[7, 9 :: u8] \<noteq> []" "length [7, 9 :: u8] \<le> MAX_DATA_LEN" "kern demo_app = demo_kernel"
    by (simp_all add: demo_app_def MAX_DATA_LEN_def)
  note r = frame_receive_roundtrip [OF this(1-4), of "0xD1" "0x01"] this(5)
  then have "unat (data_len (g_frame_data ?s)) = unat (2 :: u16)" by simp
  then have "data_len (g_frame_data ?s) = 2" by (rule unsigned_word_eqI)
  then show ?thesis using r by (simp add: numeral_2_eq_2)
qed

section \<open>Any stream of bytes\<close>

text \<open>The bytes of the frame in progress, read off the receiver's state.\<close>

definition in_progress :: "app \<Rightarrow> u8 list" where
  "in_progress s =
     (let f = g_frame_data s; h = [FRAME_HEADER1, FRAME_HEADER2]; n = unat (data_len f) in
      case recState s of
        RECV_STATE_HEADER1 \<Rightarrow> []
      | RECV_STATE_HEADER2 \<Rightarrow> [FRAME_HEADER1]
      | RECV_STATE_CMD_TYPE \<Rightarrow> h
      | RECV_STATE_CMD \<Rightarrow> h @ [cmd_type f]
      | RECV_STATE_LEN_HIGH \<Rightarrow> h @ [cmd_type f, cmd f]
      | RECV_STATE_LEN_LOW \<Rightarrow> h @ [cmd_type f, cmd f, ucast (drop_bit 8 (data_len f))]
      | RECV_STATE_DATA \<Rightarrow> h @ frame_head (cmd_type f) (cmd f) (data_len f) @ take (unat (data_index s)) (data_buffer f)
      | RECV_STATE_CRC_HIGH \<Rightarrow> h @ frame_head (cmd_type f) (cmd f) (data_len f) @ take n (data_buffer f)
      | RECV_STATE_CRC_LOW \<Rightarrow> h @ frame_head (cmd_type f) (cmd f) (data_len f) @ take n (data_buffer f) @
          [ucast (drop_bit 8 (crc_received f))])"

text \<open>Lengths and indices, and the low bytes that are still to come.\<close>

definition rx_wf :: "app \<Rightarrow> bool" where
  "rx_wf s \<longleftrightarrow>
     (let f = g_frame_data s; n = unat (data_len f) in
      length (data_buffer f) = MAX_DATA_LEN \<and> \<not> oob s \<and>
      (recState s \<in> {RECV_STATE_DATA, RECV_STATE_CRC_HIGH, RECV_STATE_CRC_LOW} \<longrightarrow> 0 < n \<and> n \<le> MAX_DATA_LEN) \<and>
      (recState s = RECV_STATE_DATA \<longrightarrow> unat (data_index s) < n) \<and>
      (recState s = RECV_STATE_LEN_LOW \<longrightarrow> (\<exists>b :: u8. data_len f = push_bit 8 (ucast b))) \<and>
      (recState s = RECV_STATE_CRC_LOW \<longrightarrow> (\<exists>b :: u8. crc_received f = push_bit 8 (ucast b))))"

lemma high_low:
  fixes b d :: u8
  shows "(ucast (drop_bit 8 (push_bit 8 (ucast b) OR ucast d :: u16)) :: u8) = b"
    "(ucast (push_bit 8 (ucast b) OR ucast d :: u16) :: u8) = d"
    "(ucast (drop_bit 8 (push_bit 8 (ucast b) :: u16)) :: u8) = b"
  by (rule bit_word_eqI; auto simp: bit_ucast_iff bit_or_iff bit_push_bit_iff bit_drop_bit_eq dest: bit_imp_le_length)+

text \<open>The receiver stays well formed, what is in progress are the last bytes received, and the
  kernel is called only when they are a frame.\<close>

definition accepted :: "u8 list \<Rightarrow> app \<Rightarrow> app \<Rightarrow> bool" where
  "accepted h s s' \<longleftrightarrow>
     kern s' = snd (LOS_EventWrite gWifiEventGroup WIFI_EVENT_RECV (kern s)) \<and>
     (let f = g_frame_data s' in
      suffix (frame_bytes (cmd_type f) (cmd f) (take (unat (data_len f)) (data_buffer f))) h)"

definition rx_ok :: "u8 list \<Rightarrow> app \<Rightarrow> app \<Rightarrow> bool" where
  "rx_ok h s s' \<longleftrightarrow> rx_wf s' \<and> suffix (in_progress s') h \<and> (kern s' \<noteq> kern s \<longrightarrow> accepted h s s')"

text \<open>A state that stores nothing beyond its own field.\<close>

lemma rx_okI:
  assumes "rx_wf s'" "in_progress s' = in_progress s @ [d] \<or> in_progress s' = []" "kern s' = kern s"
    and "suffix (in_progress s) h"
  shows "rx_ok (h @ [d]) s s'"
  using assms by (auto simp: rx_ok_def suffix_def)

lemma rx_ok_header:
  assumes wf: "rx_wf s" and hist: "suffix (in_progress s) h"
    and st: "recState s \<in> {RECV_STATE_HEADER1, RECV_STATE_HEADER2, RECV_STATE_CMD_TYPE, RECV_STATE_CMD, RECV_STATE_LEN_HIGH}"
  shows "rx_ok (h @ [d]) s (recDataProcessing d s)"
proof (rule rx_okI [OF _ _ _ hist])
  from st consider "recState s = RECV_STATE_HEADER1" | "recState s = RECV_STATE_HEADER2"
    | "recState s = RECV_STATE_CMD_TYPE" | "recState s = RECV_STATE_CMD" | "recState s = RECV_STATE_LEN_HIGH"
    by auto
  note state_cases = this
  show "rx_wf (recDataProcessing d s)"
    using state_cases by cases (use wf in \<open>auto simp: rx_wf_def recDataProcessing_def Let_def\<close>)
  show "in_progress (recDataProcessing d s) = in_progress s @ [d] \<or> in_progress (recDataProcessing d s) = []"
    using state_cases by cases (simp_all add: recDataProcessing_def in_progress_def high_low Let_def)
  show "kern (recDataProcessing d s) = kern s"
    using state_cases by cases (simp_all add: recDataProcessing_def Let_def)
qed

lemma rx_ok_length:
  assumes wf: "rx_wf s" and hist: "suffix (in_progress s) h" and st: "recState s = RECV_STATE_LEN_LOW"
  shows "rx_ok (h @ [d]) s (recDataProcessing d s)"
proof -
  let ?f = "g_frame_data s"
  obtain b :: u8 where b: "data_len ?f = push_bit 8 (ucast b)" using wf st by (auto simp: rx_wf_def Let_def)
  define n where "n = (push_bit 8 (ucast b) OR ucast d :: u16)"
  have hl: "ucast (drop_bit 8 n) = b" "ucast n = d" "ucast (drop_bit 8 (data_len ?f)) = b"
    by (simp_all add: n_def b high_low del: drop_bit_or)
  have e: "recDataProcessing d s =
      (if n > 0 \<and> unat n \<le> MAX_DATA_LEN
       then s\<lparr>g_frame_data := ?f\<lparr>data_len := n\<rparr>, data_index := 0, recState := RECV_STATE_DATA\<rparr>
       else s\<lparr>g_frame_data := ?f\<lparr>data_len := n\<rparr>, recState := RECV_STATE_HEADER1\<rparr>)"
    by (simp add: recDataProcessing_def st b n_def Let_def)
  show ?thesis
  proof (rule rx_okI [OF _ _ _ hist])
    show "rx_wf (recDataProcessing d s)"
      using wf unfolding e by (auto simp: rx_wf_def Let_def word_gt_0 unat_gt_0)
    show "in_progress (recDataProcessing d s) = in_progress s @ [d] \<or> in_progress (recDataProcessing d s) = []"
      unfolding e by (simp add: in_progress_def st frame_head_def hl Let_def)
    show "kern (recDataProcessing d s) = kern s" unfolding e by simp
  qed
qed

lemma rx_ok_data:
  assumes wf: "rx_wf s" and hist: "suffix (in_progress s) h" and st: "recState s = RECV_STATE_DATA"
  shows "rx_ok (h @ [d]) s (recDataProcessing d s)"
proof -
  let ?f = "g_frame_data s" and ?i = "unat (data_index s)"
  have i: "?i < unat (data_len ?f)" "unat (data_len ?f) \<le> MAX_DATA_LEN" "length (data_buffer ?f) = MAX_DATA_LEN" "\<not> oob s"
    using wf st by (auto simp: rx_wf_def Let_def)
  have n: "unat (data_index s + 1) = Suc ?i" by (rule u16_incr [OF i(1)])
  let ?s = "s\<lparr>g_frame_data := ?f\<lparr>data_buffer := (data_buffer ?f)[?i := d]\<rparr>, data_index := data_index s + 1,
     recState := if data_len ?f \<le> data_index s + 1 then RECV_STATE_CRC_HIGH else RECV_STATE_DATA\<rparr>"
  have e: "recDataProcessing d s = ?s"
    using st i by (simp add: recDataProcessing_def Let_def word_less_nat_alt)
  have t: "take (Suc ?i) ((data_buffer ?f)[?i := d]) = take ?i (data_buffer ?f) @ [d]"
    using i by (simp add: take_Suc_conv_app_nth)
  have full: "unat (data_len ?f) = Suc ?i" if "data_len ?f \<le> data_index s + 1"
    using that i n by (simp add: word_le_nat_alt)
  show ?thesis
  proof (rule rx_okI [OF _ _ _ hist])
    show "rx_wf (recDataProcessing d s)"
      using i n by (auto simp: e rx_wf_def Let_def word_le_nat_alt)
    show "in_progress (recDataProcessing d s) = in_progress s @ [d] \<or> in_progress (recDataProcessing d s) = []"
      using full n t by (cases "data_len ?f \<le> data_index s + 1") (simp_all add: e in_progress_def st Let_def)
    show "kern (recDataProcessing d s) = kern s" by (simp add: e)
  qed
qed

lemma crc_data_body:
  assumes "unat (data_len f) \<le> length (data_buffer f)"
  shows "crc_data f = frame_body (cmd_type f) (cmd f) (take (unat (data_len f)) (data_buffer f))"
  using assms by (simp add: crc_data_def frame_body_def frame_head_def low_byte16 min_absorb2)

lemma rx_ok_crc:
  assumes wf: "rx_wf s" and hist: "suffix (in_progress s) h" and st: "recState s = RECV_STATE_CRC_LOW"
  shows "rx_ok (h @ [d]) s (recDataProcessing d s)"
proof -
  let ?f = "g_frame_data s"
  obtain g where g: "h = g @ in_progress s" using hist by (auto simp: suffix_def)
  obtain b :: u8 where b: "crc_received ?f = push_bit 8 (ucast b)" using wf st by (auto simp: rx_wf_def Let_def)
  let ?w = "push_bit 8 (ucast b) OR ucast d :: u16"
  let ?f' = "?f\<lparr>crc_received := ?w\<rparr>"
  have n: "unat (data_len ?f) \<le> MAX_DATA_LEN" "length (data_buffer ?f) = MAX_DATA_LEN"
    using wf st by (auto simp: rx_wf_def Let_def)
  let ?p = "take (unat (data_len ?f)) (data_buffer ?f)"
  let ?body = "frame_body (cmd_type ?f) (cmd ?f) ?p"
  have cd: "crc_data ?f' = ?body" using crc_data_body [of ?f'] n by simp
  have "length ?body < 2 ^ 16" using n by (simp add: frame_body_def frame_head_def MAX_DATA_LEN_def)
  then have crc: "CRC16_Calculate (crc_data ?f') (of_nat (length (crc_data ?f'))) = crc16 ?body"
    using CRC16_Calculate_crc16 cd by simp
  have e: "recDataProcessing d s = s\<lparr>g_frame_data := ?f', data_index := 0, recState := RECV_STATE_HEADER1,
      kern := if ?w = crc16 ?body then snd (LOS_EventWrite gWifiEventGroup WIFI_EVENT_RECV (kern s)) else kern s\<rparr>"
    using st b crc by (simp add: recDataProcessing_def Let_def)
  have "suffix (frame_bytes (cmd_type ?f) (cmd ?f) ?p) (h @ [d])" if "?w = crc16 ?body"
  proof -
    have "frame_bytes (cmd_type ?f) (cmd ?f) ?p = in_progress s @ [d]"
      using n b unfolding frame_bytes_def that [symmetric]
      by (simp add: st in_progress_def frame_with_def frame_body_def be16_def high_low Let_def min_absorb2 del: drop_bit_or)
    then show ?thesis by (simp add: g suffix_def)
  qed
  then show ?thesis
    using wf st by (auto simp: e rx_ok_def accepted_def rx_wf_def in_progress_def Let_def)
qed

lemma rx_step:
  assumes wf: "rx_wf s" and hist: "suffix (in_progress s) h"
  shows "rx_ok (h @ [d]) s (recDataProcessing d s)"
proof (cases "recState s")
  case RECV_STATE_CRC_HIGH
  show ?thesis
  proof (rule rx_okI [OF _ _ _ hist])
    show "rx_wf (recDataProcessing d s)"
      using RECV_STATE_CRC_HIGH wf by (auto simp: rx_wf_def recDataProcessing_def Let_def)
    show "in_progress (recDataProcessing d s) = in_progress s @ [d] \<or> in_progress (recDataProcessing d s) = []"
      using RECV_STATE_CRC_HIGH by (simp add: recDataProcessing_def in_progress_def high_low Let_def)
    show "kern (recDataProcessing d s) = kern s"
      using RECV_STATE_CRC_HIGH by (simp add: recDataProcessing_def Let_def)
  qed
qed (use rx_ok_header [OF assms] rx_ok_length [OF assms] rx_ok_data [OF assms] rx_ok_crc [OF assms] in simp_all)

lemma rx_history:
  assumes "rx_wf s" "recState s = RECV_STATE_HEADER1"
  shows "rx_wf (rx_run h s) \<and> suffix (in_progress (rx_run h s)) h"
proof (induction h rule: rev_induct)
  case Nil
  then show ?case using assms by (simp add: in_progress_def)
next
  case (snoc d h)
  then show ?case using rx_step [of "rx_run h s" h d] by (simp add: rx_ok_def)
qed

text \<open>
  C29: Only frames are accepted, and nothing is stored outside the buffer.  Whatever bytes arrive,
  no store is outside the frame buffer; and when a byte makes the receiver signal the Wi-Fi thread,
  the bytes received end with a frame whose header, length and CRC are right, and the stored frame
  is that frame.
\<close>

theorem frame_accept_sound:
  fixes h d
  assumes "rx_wf s0" "recState s0 = RECV_STATE_HEADER1"
  defines "s \<equiv> rx_run h s0"
  defines "f' \<equiv> g_frame_data (recDataProcessing d s)"
  shows "\<not> oob (recDataProcessing d s) \<and>
    (kern (recDataProcessing d s) \<noteq> kern s \<longrightarrow>
       kern (recDataProcessing d s) = snd (LOS_EventWrite gWifiEventGroup WIFI_EVENT_RECV (kern s)) \<and>
       suffix (frame_bytes (cmd_type f') (cmd f') (take (unat (data_len f')) (data_buffer f'))) (h @ [d]))"
proof -
  have "rx_ok (h @ [d]) s (recDataProcessing d s)"
    using rx_step rx_history [OF assms(1,2), of h] by (simp add: s_def)
  then show ?thesis by (simp add: rx_ok_def rx_wf_def accepted_def f'_def Let_def)
qed

theorem frame_accept_sound_witness:
  "\<not> oob (recDataProcessing 0xFF (rx_run [0xA5, 0x5A, 0xD1, 1, 4, 1] demo_app))"
proof -
  have "rx_wf demo_app" "recState demo_app = RECV_STATE_HEADER1"
    by (simp_all add: demo_app_def rx_wf_def MAX_DATA_LEN_def)
  from frame_accept_sound [OF this] show ?thesis by blast
qed

section \<open>Resynchronisation\<close>

lemma rx_skip:
  "recState s = RECV_STATE_HEADER1 \<Longrightarrow> FRAME_HEADER1 \<notin> set bs \<Longrightarrow> rx_run bs s = s"
  by (induction bs) (auto simp: recDataProcessing_def)

text \<open>
  C31: A stray header byte loses the frame behind it.  The byte \<^verbatim>\<open>0xA5\<close> just before a frame
  makes the receiver take the frame's own \<^verbatim>\<open>0xA5\<close> for a wrong second header byte and go back to
  the start without considering that it may begin a frame: a frame in which \<^verbatim>\<open>0xA5\<close> does not
  occur again is skipped entirely, its data is not stored and nothing is signalled.
\<close>

theorem stray_header_loses_frame:
  assumes "recState s = RECV_STATE_HEADER1"
    and "FRAME_HEADER1 \<notin> set (frame_body ty c p @ be16 (crc16 (frame_body ty c p)))"
  shows "rx_run (FRAME_HEADER1 # frame_bytes ty c p) s = s"
proof -
  have "FRAME_HEADER1 \<noteq> FRAME_HEADER2" by (simp add: FRAME_HEADER1_def FRAME_HEADER2_def)
  then have "rx_run [FRAME_HEADER1, FRAME_HEADER1, FRAME_HEADER2] s = s"
    using assms(1) by (simp add: recDataProcessing_def)
  then show ?thesis
    using rx_skip [OF assms] by (simp add: frame_bytes_def frame_with_def)
qed

theorem stray_header_loses_frame_witness:
  "rx_run (0xA5 # frame_bytes 0xD1 0x01 [7]) demo_app = demo_app"
proof -
  have "frame_body 0xD1 0x01 [7] = [0xD1, 1, 0, 1, 7]" by (simp add: frame_body_def frame_head_def)
  moreover have "crc_byte 0xFFFF 0xD1 = 0x1C7F" "crc_byte 0x1C7F 1 = 0x209C" "crc_byte 0x209C 0 = 0x6920" "crc_byte 0x6920 1 = 0x18A9" "crc_byte 0x18A9 7 = 0xBC99"
    by (simp_all add: crc_byte_eval crc_shift_def)
  then have "crc16 [0xD1, 1, 0, 1, 7] = 0xBC99" by (simp add: crc16_def)
  ultimately show ?thesis
    using stray_header_loses_frame [of demo_app "0xD1" "0x01" "[7]"]
    by (simp add: FRAME_HEADER1_def demo_app_def be16_def)
qed

end
