(* ===== verification/Esp8266.thy ===== *)
theory Esp8266
  imports Frame_Rx
begin

text \<open>
  \<^verbatim>\<open>Device/ESP8266.c\<close> and \<^verbatim>\<open>User/user_usart.c\<close>: the driver of the Wi-Fi module.  The
  driver waits by counting (\<^verbatim>\<open>ESP8266_Delay\<close>); what the module sends meanwhile is handled by
  the receive interrupt.  The field \<open>rx_due\<close> holds these bytes: every wait and every
  transmission takes one element and runs the interrupt handler for each of its bytes, so that a
  list of lists stands for one interleaving of the interrupt with the driver.  The set-up of clocks,
  pins and interrupt controller is not modelled; neither are the messages on the debug port.
\<close>

section \<open>Serial port\<close>

definition arrive :: "app \<Rightarrow> app" where
  "arrive s = (case rx_due s of [] \<Rightarrow> s | bs # rest \<Rightarrow> fold (WIFI_USART_IRQHandler True) bs (s\<lparr>rx_due := rest\<rparr>))"

definition USER_UART_Transmit :: "u8 list \<Rightarrow> u32 \<Rightarrow> app \<Rightarrow> app" where
  "USER_UART_Transmit Data n s =
     arrive (s\<lparr>uart_out := uart_out s @ take (unat n) Data, oob := oob s \<or> length Data < unat n\<rparr>)"

definition USER_UART_SendString :: "u8 list \<Rightarrow> app \<Rightarrow> app" where
  "USER_UART_SendString Data s = arrive (s\<lparr>uart_out := uart_out s @ c_string Data, oob := oob s \<or> 0 \<notin> set Data\<rparr>)"

definition ESP8266_Delay :: "u32 \<Rightarrow> app \<Rightarrow> app" where
  "ESP8266_Delay ms s = arrive s"

section \<open>Texts\<close>

text \<open>\<^verbatim>\<open>"\r\n"\<close> and the quote, decimal numbers, and \<^verbatim>\<open>sprintf\<close> into a buffer of
  \<open>n\<close> bytes, which is overrun when the text and its terminator are longer.\<close>

definition CRLF :: "u8 list" where "CRLF = [13, 10]"
definition quoted :: "u8 list \<Rightarrow> u8 list" where "quoted str = 34 # c_string str @ [34]"

fun decimal :: "nat \<Rightarrow> u8 list" where
  "decimal n = (if n < 10 then [of_nat (48 + n)] else decimal (n div 10) @ [of_nat (48 + n mod 10)])"

declare decimal.simps [simp del]

definition sprintf_to :: "nat \<Rightarrow> u8 list \<Rightarrow> app \<Rightarrow> u8 list \<times> app" where
  "sprintf_to n str s = (str @ [0], s\<lparr>oob := oob s \<or> n \<le> length str\<rparr>)"

definition WIFI_MODE_SET :: "u8 list" where "WIFI_MODE_SET = bytes ''AT+CWMODE=''"
definition WIFI_AUTO_LINK_OFF :: "u8 list" where "WIFI_AUTO_LINK_OFF = bytes ''AT+CWAUTOCONN=0'' @ CRLF"
definition WIFI_CIP_MODE :: "u8 list" where "WIFI_CIP_MODE = bytes ''AT+CIPMODE=''"
definition WIFI_START :: "u8 list" where "WIFI_START = bytes ''AT+CIPSTART=''"
definition WIFI_CLOSE :: "u8 list" where "WIFI_CLOSE = bytes ''AT+CIPCLOSE'' @ CRLF"
definition WIFI_STA_IP :: "u8 list" where "WIFI_STA_IP = bytes ''AT+CIPSTA=''"

abbreviation (input) WIFI_OK :: u8 where "WIFI_OK \<equiv> 0"
abbreviation (input) WIFI_ERROR :: u8 where "WIFI_ERROR \<equiv> 1"
abbreviation (input) WIFI_NORESPONSE :: u8 where "WIFI_NORESPONSE \<equiv> 2"
abbreviation (input) WIFI_STATION :: u8 where "WIFI_STATION \<equiv> 1"

section \<open>Commands\<close>

definition MAX_RETRY :: u8 where "MAX_RETRY = 3"
definition TIMEOUT_MS :: u16 where "TIMEOUT_MS = 20000"
definition CHECK_INTERVAL_MS :: u16 where "CHECK_INTERVAL_MS = 10"

text \<open>The loop that waits for the answer: whether it saw success, the time waited, the state.\<close>

function wait_answer :: "u16 \<Rightarrow> app \<Rightarrow> bool \<times> u16 \<times> app" where
  "wait_answer waitTime s =
     (if waitTime < TIMEOUT_MS then
        if WIFI_CMD_FLAG s = 1 then (True, waitTime, s)
        else if WIFI_CMD_FLAG s = 2 then (False, waitTime, s)
        else wait_answer (waitTime + CHECK_INTERVAL_MS) (ESP8266_Delay (ucast CHECK_INTERVAL_MS) s)
      else (False, waitTime, s))"
  by pat_completeness auto

text \<open>One turn of the outer loop per \<^verbatim>\<open>retryCount\<close>.\<close>

function send_attempts :: "u8 \<Rightarrow> u8 list \<Rightarrow> app \<Rightarrow> u8 \<times> app" where
  "send_attempts retryCount cmdstring s =
     (if retryCount < MAX_RETRY then
        (case wait_answer 0 (USER_UART_SendString cmdstring s) of
           (ok, waitTime, s1) \<Rightarrow>
             if ok then (WIFI_OK, s1\<lparr>WIFI_RECVSTOP := WIFI_RECV_DATA\<rparr>)
             else if waitTime \<ge> TIMEOUT_MS \<and> WIFI_CMD_FLAG s1 = 0
             then (WIFI_NORESPONSE, s1\<lparr>WIFI_RECVSTOP := WIFI_RECV_DATA\<rparr>)
             else send_attempts (retryCount + 1) cmdstring
                    (if retryCount + 1 < MAX_RETRY then ESP8266_Delay 100 s1 else s1))
      else (WIFI_ERROR, s\<lparr>WIFI_RECVSTOP := WIFI_RECV_DATA\<rparr>))"
  by pat_completeness auto

lemma wait_step: "w < TIMEOUT_MS \<Longrightarrow> unat (w + CHECK_INTERVAL_MS) = unat w + 10"
proof -
  assume "w < TIMEOUT_MS"
  then have "unat w < 20000" by (simp add: word_less_nat_alt TIMEOUT_MS_def)
  then show ?thesis by (subst unat_plus_simple [THEN iffD1]) (simp_all add: CHECK_INTERVAL_MS_def word_le_nat_alt unat_word_ariths)
qed

lemma retry_step: "r < MAX_RETRY \<Longrightarrow> unat (r + 1) = Suc (unat r)"
proof -
  assume "r < MAX_RETRY"
  then have "unat r < 3" by (simp add: word_less_nat_alt MAX_RETRY_def)
  then show ?thesis by (simp add: unat_word_ariths)
qed

termination wait_answer
  by (relation "measure (\<lambda>(w, s). 20000 - unat w)")
    (auto simp: wait_step, simp add: word_less_nat_alt TIMEOUT_MS_def)

declare wait_answer.simps [simp del]

termination send_attempts
proof (relation "measure (\<lambda>(r, c, s). 3 - unat r)")
  fix r :: u8 and c s x ok y w s1
  assume "r < MAX_RETRY"
  then have "unat r < 3" "unat (r + 1) = Suc (unat r)"
    using retry_step by (simp_all add: word_less_nat_alt MAX_RETRY_def)
  then show "((r + 1, c, if r + 1 < MAX_RETRY then ESP8266_Delay 100 s1 else s1), r, c, s) \<in> measure (\<lambda>(r, c, s). 3 - unat r)"
    by simp
qed simp

declare send_attempts.simps [simp del]

definition WIFI_SendCMD :: "u8 list \<Rightarrow> app \<Rightarrow> u8 \<times> app" where
  "WIFI_SendCMD cmdstring s =
     send_attempts 0 cmdstring (s\<lparr>WIFI_CMD_FLAG := 0, WIFI_RECVSTOP := WIFI_RECV_CMD\<rparr>)"

definition WIFI_SetMode :: "u8 \<Rightarrow> app \<Rightarrow> u8 \<times> app" where
  "WIFI_SetMode modetype s =
     (if modetype < 1 \<or> modetype > 3 then (WIFI_ERROR, s)
      else let (cmd, s1) = sprintf_to 14 (WIFI_MODE_SET @ decimal (unat modetype) @ CRLF) s
           in WIFI_SendCMD cmd s1)"

definition WIFI_SetTxMode :: "u8 \<Rightarrow> app \<Rightarrow> u8 \<times> app" where
  "WIFI_SetTxMode modetype s =
     (if modetype < 0 \<or> modetype > 1 then (WIFI_ERROR, s)
      else let (cmd, s1) = sprintf_to 14 (WIFI_CIP_MODE @ decimal (unat modetype) @ CRLF) s
           in if modetype = 1 then
                let (r, s2) = WIFI_SendCMD cmd s1;
                    (cmd', s3) = sprintf_to 14 (bytes ''AT+CIPSEND'' @ CRLF) s2
                in WIFI_SendCMD cmd' s3
              else WIFI_SendCMD cmd s1)"

section \<open>Checks of addresses\<close>

text \<open>
  The loop over the characters: \<open>None\<close> is the early \<^verbatim>\<open>return 0\<close>; otherwise whether an
  access left an array, the length and the numbers.  A text without terminator is read past its end.
\<close>

fun check_ip_loop :: "u8 list \<Rightarrow> u16 \<Rightarrow> u8 \<Rightarrow> u8 \<Rightarrow> u16 list \<Rightarrow> bool \<Rightarrow> bool \<times> (u16 \<times> u16 list) option" where
  "check_ip_loop [] len i j num bad = (True, None)"
| "check_ip_loop (c # ip) len i j num bad =
     (if c = 0 \<or> len > 15 then (bad, Some (len, num))
      else if c = 46 then
        if j = 0 \<or> j > 3 then (bad, None) else check_ip_loop ip (len + 1) (i + 1) 0 num bad
      else if 48 \<le> c \<and> c \<le> 57 then
        let (bad1, v) = get_at (unat i) 0 num;
            (bad2, num') = put_at (unat i) (v * 10 + ucast (c - 48)) num
        in check_ip_loop ip (len + 1) i (j + 1) num' (bad \<or> bad1 \<or> bad2)
      else (bad, None))"

definition WIFI_CheckIP :: "u8 list \<Rightarrow> bool \<times> u8" where
  "WIFI_CheckIP ip =
     (case check_ip_loop ip 0 0 0 [0, 0, 0, 0] False of
        (bad, None) \<Rightarrow> (bad, 0)
      | (bad, Some (len, num)) \<Rightarrow>
          (bad, if len > 15 then 0 else if \<not> list_all (\<lambda>n. n < 256) num then 0 else 1))"

fun check_port_loop :: "u8 list \<Rightarrow> u8 \<Rightarrow> u32 \<Rightarrow> bool \<times> (u8 \<times> u32) option" where
  "check_port_loop [] len num = (True, None)"
| "check_port_loop (c # port) len num =
     (if c = 0 \<or> \<not> len < 5 then (False, Some (len, num))
      else if 48 \<le> c \<and> c \<le> 57 then check_port_loop port (len + 1) (num * 10 + ucast (c - 48))
      else (False, None))"

definition WIFI_CheckPort :: "u8 list \<Rightarrow> bool \<times> u8" where
  "WIFI_CheckPort port =
     (case check_port_loop port 0 0 of
        (bad, None) \<Rightarrow> (bad, 0)
      | (bad, Some (len, num)) \<Rightarrow> (bad, if len > 5 then 0 else if num > 65535 then 0 else 1))"

section \<open>Connections\<close>

definition WIFI_SetIP :: "u8 list \<Rightarrow> app \<Rightarrow> u8 \<times> app" where
  "WIFI_SetIP ip s =
     (let (bad, ok) = WIFI_CheckIP ip; s1 = s\<lparr>oob := oob s \<or> bad\<rparr> in
      if ok = 0 then (WIFI_ERROR, s1)
      else let (cmd, s2) = sprintf_to 30 (WIFI_STA_IP @ quoted ip @ CRLF) s1 in WIFI_SendCMD cmd s2)"

definition WIFI_LinkSSID :: "u8 list \<Rightarrow> u8 list \<Rightarrow> app \<Rightarrow> u8 \<times> app" where
  "WIFI_LinkSSID ssid password s =
     (let (cmd, s1) = sprintf_to 40 (bytes ''AT+CWJAP='' @ quoted ssid @ bytes '','' @ quoted password @ CRLF) s;
          (flag, s2) = WIFI_SendCMD cmd s1
      in (flag, if flag = WIFI_OK then s2\<lparr>WIFI_AP_STATE := 1\<rparr> else s2))"

definition WIFI_TCPConnect :: "u8 list \<Rightarrow> u8 list \<Rightarrow> app \<Rightarrow> u8 \<times> app" where
  "WIFI_TCPConnect server_ip server_port s =
     (if WIFI_SEND_STATE s = 1 then (2, s)
      else let (bad, ok) = WIFI_CheckIP server_ip; s1 = s\<lparr>oob := oob s \<or> bad\<rparr> in
        if ok = 0 then (WIFI_ERROR, s1)
        else let (bad', ok') = WIFI_CheckPort server_port; s2 = s1\<lparr>oob := oob s1 \<or> bad'\<rparr> in
          if ok' = 0 then (WIFI_ERROR, s2)
          else let (cmd, s3) = sprintf_to 100 (WIFI_START @ quoted (bytes ''TCP'') @ bytes '','' @ quoted server_ip @
                                 bytes '','' @ c_string server_port @ CRLF) s2;
                   (flag, s4) = WIFI_SendCMD cmd s3
               in (flag, if flag = WIFI_OK then s4\<lparr>WIFI_CONNECT_STATE := 1\<rparr> else s4))"

definition WIFI_Disconnnect :: "app \<Rightarrow> u8 \<times> app" where
  "WIFI_Disconnnect s = WIFI_SendCMD (WIFI_CLOSE @ [0]) s"

definition WIFI_Init :: "u8 \<Rightarrow> app \<Rightarrow> app" where
  "WIFI_Init mode_type s =
     (let s1 = s\<lparr>WIFI_RECVSTOP := 0, WIFI_CONNECT_STATE := 0, WIFI_AP_STATE := 0, WIFI_SEND_STATE := 0,
                 WIFI_BOOTFLAG := 0, WIFI_CMD_FLAG := 0\<rparr>;
          s2 = ESP8266_Delay 500 (s1\<lparr>WIFI_RECVSTOP := 3\<rparr>);
          s3 = ESP8266_Delay 500 (USER_UART_SendString (bytes ''+++'' @ [0]) s2);
          (state, s4) = WIFI_SendCMD (bytes ''ATE0'' @ CRLF @ [0]) (s3\<lparr>WIFI_RECVSTOP := WIFI_RECV_DATA\<rparr>)
      in if mode_type = WIFI_STATION then
           let (r, s5) = WIFI_SetMode WIFI_STATION s4
           in snd (WIFI_SendCMD (WIFI_AUTO_LINK_OFF @ [0]) (s5\<lparr>MODE_TYPE := 0\<rparr>))
         else s4)"

end
