(* ===== verification/Esp_Spec.thy ===== *)
theory Esp_Spec
  imports Esp8266 Frame_Spec
begin

text \<open>
  Correctness of the Wi-Fi driver: what a command does on every outcome and how long it may wait,
  why a repeated command does not wait for its answer, which addresses are accepted, and which
  command buffers are large enough.
\<close>

section \<open>The receive interrupt leaves the driver's output alone\<close>

lemma recDataProcessing_frame:
  "uart_out (recDataProcessing d s) = uart_out s \<and> rx_due (recDataProcessing d s) = rx_due s \<and>
   WIFI_RECVSTOP (recDataProcessing d s) = WIFI_RECVSTOP s \<and> WIFI_CMD_FLAG (recDataProcessing d s) = WIFI_CMD_FLAG s"
  by (cases "recState s") (simp_all add: recDataProcessing_def put_at_def Let_def split: prod.splits)

lemma WIFI_CMD_ReturnCheck_frame:
  "uart_out (WIFI_CMD_ReturnCheck s) = uart_out s \<and> rx_due (WIFI_CMD_ReturnCheck s) = rx_due s \<and>
   WIFI_RECVSTOP (WIFI_CMD_ReturnCheck s) = WIFI_RECVSTOP s"
  by (simp add: WIFI_CMD_ReturnCheck_def Let_def)

lemma irq_frame:
  "uart_out (WIFI_USART_IRQHandler f d s) = uart_out s \<and> rx_due (WIFI_USART_IRQHandler f d s) = rx_due s \<and>
   WIFI_RECVSTOP (WIFI_USART_IRQHandler f d s) = WIFI_RECVSTOP s"
  by (simp add: WIFI_USART_IRQHandler_def recDataProcessing_frame WIFI_CMD_ReturnCheck_frame put_at_def Let_def)

lemma irqs_frame:
  "uart_out (fold (WIFI_USART_IRQHandler f) bs s) = uart_out s \<and> rx_due (fold (WIFI_USART_IRQHandler f) bs s) = rx_due s \<and>
   WIFI_RECVSTOP (fold (WIFI_USART_IRQHandler f) bs s) = WIFI_RECVSTOP s"
  by (induction bs arbitrary: s) (simp_all add: irq_frame)

lemma arrive_frame [simp]:
  "uart_out (arrive s) = uart_out s" "rx_due (arrive s) = tl (rx_due s)" "WIFI_RECVSTOP (arrive s) = WIFI_RECVSTOP s"
  by (cases "rx_due s"; simp add: arrive_def irqs_frame)+

text \<open>Silence: nothing arrives.\<close>

lemma arrive_silent: "rx_due s = [] # rest \<Longrightarrow> arrive s = s\<lparr>rx_due := rest\<rparr>"
  by (simp add: arrive_def)

section \<open>Commands\<close>


















text \<open>
  A repeated command does not wait for its answer.  When the answer to the first transmission
  is an error and the module is silent while the command is repeated, \<^verbatim>\<open>WIFI_SendCMD\<close>
  reports the error as soon as the third transmission is out: the flag of the first answer is still
  set, so whatever the module answers to the second and the third transmission comes too late.
\<close>

theorem wifi_retries_do_not_wait:
  fixes cs s
  defines "s1 \<equiv> USER_UART_SendString cs (s\<lparr>WIFI_CMD_FLAG := 0, WIFI_RECVSTOP := WIFI_RECV_CMD\<rparr>)"
  assumes "WIFI_CMD_FLAG s1 = 2" "rx_due s1 = [] # [] # [] # [] # later"
  shows "fst (WIFI_SendCMD cs s) = WIFI_ERROR \<and> rx_due (snd (WIFI_SendCMD cs s)) = later \<and>
    uart_out (snd (WIFI_SendCMD cs s)) = uart_out s @ c_string cs @ c_string cs @ c_string cs"
proof -
  have w: "wait_answer 0 t = (False, 0, t)" if "WIFI_CMD_FLAG t = 2" for t
    using that by (simp add: wait_answer.simps TIMEOUT_MS_def)
  let ?s = "s\<lparr>WIFI_CMD_FLAG := 0, WIFI_RECVSTOP := WIFI_RECV_CMD\<rparr>"
  have flag: "WIFI_CMD_FLAG (USER_UART_SendString cs ?s) = 2" using assms(2) by (simp add: s1_def)
  have due: "rx_due (USER_UART_SendString cs ?s) = [] # [] # [] # [] # later" using assms(3) by (simp add: s1_def)
  have out: "uart_out (USER_UART_SendString cs ?s) = uart_out s @ c_string cs" by (simp add: USER_UART_SendString_def)
  show ?thesis
    by (simp add: WIFI_SendCMD_def send_attempts.simps [of 0] send_attempts.simps [of 1] send_attempts.simps [of 2]
        send_attempts.simps [of 3] w flag due out MAX_RETRY_def TIMEOUT_MS_def ESP8266_Delay_def arrive_silent
        USER_UART_SendString_def [of _ "_\<lparr>rx_due := _\<rparr>"])
qed

theorem wifi_retries_do_not_wait_witness:
  "fst (WIFI_SendCMD [65, 84, 0] (demo_app\<lparr>WIFI_CMD := bytes ''ERROR'' @ 0 # 0 # replicate 121 0, cmd_index := 5,
     rx_due := [[10], [], [], [], [], [79, 75, 10]]\<rparr>)) = WIFI_ERROR"
proof -
  let ?s = "demo_app\<lparr>WIFI_CMD := bytes ''ERROR'' @ 0 # 0 # replicate 121 0, cmd_index := 5,
     rx_due := [[10], [], [], [], [], [79, 75, 10]]\<rparr>"
  let ?s1 = "USER_UART_SendString [65, 84, 0] (?s\<lparr>WIFI_CMD_FLAG := 0, WIFI_RECVSTOP := WIFI_RECV_CMD\<rparr>)"
  have "WIFI_CMD_FLAG ?s1 = 2"
    by (simp add: USER_UART_SendString_def arrive_def WIFI_USART_IRQHandler_def demo_app_def WIFI_CMD_ReturnCheck_def
        WIFI_CMD_SIZE_def c_string_def bytes_def put_at_def list_update_append Let_def)
  moreover have "rx_due ?s1 = [] # [] # [] # [] # [[79, 75, 10]]" by (simp add: USER_UART_SendString_def)
  ultimately show ?thesis using wifi_retries_do_not_wait by blast
qed

section \<open>Addresses\<close>

definition digits :: "u8 list \<Rightarrow> bool" where
  "digits b \<longleftrightarrow> (\<forall>c\<in>set b. 48 \<le> c \<and> c \<le> 57)"

definition number :: "u8 list \<Rightarrow> nat" where
  "number b = foldl (\<lambda>n c. n * 10 + unat (c - 48)) 0 b"

text \<open>Blocks that end with a dot, of one to three digits.\<close>

definition block :: "u8 list \<Rightarrow> bool" where
  "block b \<longleftrightarrow> digits b \<and> b \<noteq> [] \<and> length b \<le> 3"

definition dotted :: "u8 list list \<Rightarrow> u8 list" where
  "dotted as = concat (map (\<lambda>b. b @ [46]) as)"

abbreviation word_value :: "u16 \<Rightarrow> u8 list \<Rightarrow> u16" where
  "word_value v b \<equiv> foldl (\<lambda>n c. n * 10 + ucast (c - 48)) v b"

lemma word_value_number: "word_value (of_nat n) b = of_nat (foldl (\<lambda>n c. n * 10 + unat (c - 48)) n b)"
proof (induction b arbitrary: n)
  case (Cons c b)
  have "of_nat n * 10 + ucast (c - 48) = (of_nat (n * 10 + unat (c - 48)) :: u16)"
    by simp
  then show ?case using Cons [of "n * 10 + unat (c - 48)"] by simp
qed simp

lemma unat_small_len: "n \<le> 15 \<Longrightarrow> \<not> 15 < (of_nat n :: u16)"
  by (simp add: word_less_nat_alt unat_of_nat_small)

lemma check_ip_digits:
  assumes "digits b" "l + length b \<le> 16" "i < length num" "i < 256"
  shows "check_ip_loop (b @ rest) (of_nat l) (of_nat i) (of_nat j) num bad =
    check_ip_loop rest (of_nat (l + length b)) (of_nat i) (of_nat (j + length b))
      (num[i := word_value (num ! i) b]) bad"
  using assms
proof (induction b arbitrary: l j num)
  case (Cons c b)
  have c: "48 \<le> c" "c \<le> 57" "c \<noteq> 0" "c \<noteq> 46" using Cons.prems(1) by (auto simp: digits_def)
  have i: "unat (of_nat i :: u8) = i" by (rule unat_of_nat_small) (use Cons.prems(4) in simp)
  have l: "\<not> 15 < (of_nat l :: u16)" using Cons.prems(2) by (intro unat_small_len) simp
  have "check_ip_loop ((c # b) @ rest) (of_nat l) (of_nat i) (of_nat j) num bad =
      check_ip_loop (b @ rest) (of_nat (Suc l)) (of_nat i) (of_nat (Suc j)) (num[i := num ! i * 10 + ucast (c - 48)]) bad"
    using c l Cons.prems(3) by (simp add: i get_at_def put_at_def Let_def add.commute)
  then show ?case
    using Cons.IH [of "Suc l" "num[i := num ! i * 10 + ucast (c - 48)]" "Suc j"] Cons.prems by (simp add: digits_def)
qed simp

lemma check_ip_dotted:
  assumes "\<forall>b\<in>set as. block b" "l + length (dotted as) \<le> 16" "i + length as \<le> 4" "length num = 4"
    and "drop i num = replicate (4 - i) 0"
  shows "check_ip_loop (dotted as @ rest) (of_nat l) (of_nat i) 0 num bad =
    check_ip_loop rest (of_nat (l + length (dotted as))) (of_nat (i + length as)) 0
      (take i num @ map (word_value 0) as @ replicate (4 - i - length as) 0) bad"
  using assms
proof (induction as arbitrary: l i num)
  case Nil
  then show ?case by (simp add: dotted_def) (metis append_take_drop_id)
next
  case (Cons b as)
  have b: "digits b" "b \<noteq> []" "length b \<le> 3" using Cons.prems(1) by (auto simp: block_def)
  have len: "l + length b + 1 + length (dotted as) \<le> 16" using Cons.prems(2) by (simp add: dotted_def)
  have z: "num ! i = 0" using Cons.prems(3,4,5) by (metis add_leD1 diff_diff_cancel drop_eq_nths le_antisym length_Cons
        length_drop nat_less_le not_less_eq_eq nth_drop nth_replicate add_0_right zero_less_diff add_Suc_right le_add1)
  let ?num = "num[i := word_value 0 b]"
  have "check_ip_loop (dotted (b # as) @ rest) (of_nat l) (of_nat i) 0 num bad =
      check_ip_loop (46 # dotted as @ rest) (of_nat (l + length b)) (of_nat i) (of_nat (0 + length b)) ?num bad"
    using check_ip_digits [of b l i num "46 # dotted as @ rest" 0] b len Cons.prems(3,4) by (simp add: dotted_def z)
  also have "\<dots> = check_ip_loop (dotted as @ rest) (of_nat (l + length b + 1)) (of_nat (Suc i)) 0 ?num bad"
  proof -
    have "\<not> 15 < (of_nat (l + length b) :: u16)" using len by (intro unat_small_len) simp
    moreover have "(of_nat (length b) :: u8) \<noteq> 0 \<and> \<not> 3 < (of_nat (length b) :: u8)"
    proof -
      have "unat (of_nat (length b) :: u8) = length b" using b by (intro unat_of_nat_small) simp
      then show ?thesis using b by (auto simp: word_less_nat_alt)
    qed
    moreover have "(46 :: u8) \<noteq> 0" by (rule notI, drule arg_cong [of _ _ unat]) simp
    ultimately show ?thesis by (simp only: check_ip_loop.simps) (simp add: add.commute)
  qed
  also have "\<dots> = check_ip_loop rest (of_nat (l + length b + 1 + length (dotted as))) (of_nat (Suc i + length as)) 0
      (take (Suc i) ?num @ map (word_value 0) as @ replicate (4 - Suc i - length as) 0) bad"
  proof (rule Cons.IH)
    show "drop (Suc i) ?num = replicate (4 - Suc i) 0"
      using arg_cong [OF Cons.prems(5), of tl] by (subst drop_update_cancel) (simp_all add: drop_Suc flip: drop_tl)
  qed (use Cons.prems len in simp_all)
  also have "take (Suc i) ?num = take i num @ [word_value 0 b]"
    using Cons.prems(3,4) by (simp add: take_Suc_conv_app_nth)
  finally show ?case by (simp add: dotted_def add.assoc)
qed

lemma check_ip_bad: "fst (check_ip_loop ip len i j num True)"
  by (induction ip len i j num "True" rule: check_ip_loop.induct) (auto simp: Let_def split: prod.splits)

lemma fst_CheckIP: "fst (WIFI_CheckIP ip) = fst (check_ip_loop ip 0 0 0 [0, 0, 0, 0] False)"
  by (cases "check_ip_loop ip 0 0 0 [0, 0, 0, 0] False") (simp add: WIFI_CheckIP_def split: option.splits prod.splits)

lemma word_value_small: "word_value 0 b < 256 \<longleftrightarrow> number b mod 2 ^ 16 < 256"
  using word_value_number [of 0 b] by (simp add: number_def word_less_nat_alt unat_of_nat)

lemma check_ip_len:
  "check_ip_loop (str @ 0 # rest) (of_nat l) i j num bad = (bad', Some (len, num')) \<Longrightarrow> 0 \<notin> set str \<Longrightarrow> l + length str \<le> 16 \<Longrightarrow>
   len = of_nat (l + length str)"
proof (induction str arbitrary: l i j num bad)
  case (Cons c str)
  have "\<not> 15 < (of_nat l :: u16)" using Cons.prems(3) by (intro unat_small_len) simp
  moreover have "(of_nat l + 1 :: u16) = of_nat (Suc l)" by simp
  ultimately show ?case
    using Cons.prems Cons.IH [of "Suc l"] by (auto simp: Let_def add.commute split: if_split_asm prod.splits)
qed (auto split: if_split_asm)

text \<open>No more than sixteen characters are looked at.\<close>

lemma check_ip_take:
  "l \<le> 16 \<Longrightarrow> 0 \<notin> set str \<Longrightarrow>
   check_ip_loop (str @ 0 # rest) (of_nat l) i j num bad = check_ip_loop (take (16 - l) str @ 0 # rest) (of_nat l) i j num bad"
proof (induction str arbitrary: l i j num bad)
  case (Cons c str)
  show ?case
  proof (cases "l = 16")
    case True
    then show ?thesis by simp
  next
    case False
    then have s: "16 - l = Suc (16 - Suc l)" "(of_nat (Suc l) :: u16) = of_nat l + 1" using Cons.prems(1) by simp_all
    have "check_ip_loop (str @ 0 # rest) (of_nat l + 1) i j num bad =
        check_ip_loop (take (16 - Suc l) str @ 0 # rest) (of_nat l + 1) i j num bad" for i j num bad
      using Cons.IH [of "Suc l"] Cons.prems False unfolding s(2) by simp
    then show ?thesis using s(1) by (simp add: Let_def split_beta del: diff_Suc_Suc)
  qed
qed simp

lemma CheckIP_take:
  assumes "0 \<notin> set str"
  shows "check_ip_loop (str @ 0 # rest) 0 0 0 num False = check_ip_loop (take 16 str @ 0 # rest) 0 0 0 num False"
  using check_ip_take [of 0 str rest 0 0 num False] assms by simp

text \<open>Texts that are accepted, and texts that lead out of the array \<^verbatim>\<open>num[4]\<close>.\<close>

definition ip_accepted :: "u8 list \<Rightarrow> bool" where
  "ip_accepted str \<longleftrightarrow> length str \<le> 15 \<and> (\<exists>as b. str = dotted as @ b \<and> (\<forall>a\<in>set as. block a) \<and> digits b \<and>
     (length as \<le> 3 \<or> length as = 4 \<and> b = []) \<and> (\<forall>a\<in>set (as @ [b]). number a mod 2 ^ 16 < 256))"

definition ip_overrun :: "u8 list \<Rightarrow> bool" where
  "ip_overrun str \<longleftrightarrow> (\<exists>as c suf. str = dotted as @ c # suf \<and> length as = 4 \<and> (\<forall>a\<in>set as. block a) \<and> digits [c] \<and>
     length (dotted as) \<le> 15)"

text \<open>The loop after well-formed blocks and digits that fit into the array.\<close>

lemma check_ip_run:
  assumes as: "\<forall>a\<in>set as. block a" and b: "digits b" and len: "length (dotted as @ b) \<le> 16"
    and n: "length as \<le> 3 \<or> length as = 4 \<and> b = []"
  obtains num where "length num = 4"
    "check_ip_loop (dotted as @ b @ suf) 0 0 0 [0, 0, 0, 0] False =
      check_ip_loop suf (of_nat (length (dotted as @ b))) (of_nat (length as)) (of_nat (length b)) num False"
    "list_all (\<lambda>n. n < 256) num \<longleftrightarrow> (\<forall>a\<in>set (as @ [b]). number a mod 2 ^ 16 < 256)"
proof -
  let ?num = "map (word_value 0) as @ replicate (4 - length as) (0 :: u16)"
  have e: "check_ip_loop (dotted as @ b @ suf) 0 0 0 [0, 0, 0, 0] False =
      check_ip_loop (b @ suf) (of_nat (length (dotted as))) (of_nat (length as)) 0 ?num False"
    using check_ip_dotted [of as 0 0 "[0, 0, 0, 0]" "b @ suf" False] as len n by (auto simp: numeral_eq_Suc)
  have w: "word_value 0 a < 256 \<longleftrightarrow> number a mod 2 ^ 16 < 256" for a by (rule word_value_small)
  show thesis
  proof (cases "length as \<le> 3")
    case True
    have "?num[length as := word_value 0 b] = map (word_value 0) (as @ [b]) @ replicate (3 - length as) 0"
      using True by (simp add: list_update_append Suc_diff_le numeral_eq_Suc)
    moreover have "list_all (\<lambda>n. n < 256) (map (word_value 0) (as @ [b]) @ replicate (3 - length as) 0) =
        (\<forall>a\<in>set (as @ [b]). word_value 0 a < 256)"
      by (auto simp: list_all_iff)
    ultimately have "list_all (\<lambda>n. n < 256) (?num[length as := word_value 0 b]) \<longleftrightarrow> (\<forall>a\<in>set (as @ [b]). number a mod 2 ^ 16 < 256)"
      by (simp only: w)
    moreover have "check_ip_loop (b @ suf) (of_nat (length (dotted as))) (of_nat (length as)) 0 ?num False =
        check_ip_loop suf (of_nat (length (dotted as @ b))) (of_nat (length as)) (of_nat (length b))
          (?num[length as := word_value 0 b]) False"
      using check_ip_digits [of b "length (dotted as)" "length as" ?num suf 0 False] b len True by (simp add: nth_append)
    ultimately show thesis using e True by (intro that [of "?num[length as := word_value 0 b]"]) simp_all
  next
    case False
    then have "length as = 4" "b = []" using n by simp_all
    moreover have "list_all (\<lambda>n. n < 256) ?num \<longleftrightarrow> (\<forall>a\<in>set (as @ [b]). number a mod 2 ^ 16 < 256)"
      using calculation by (auto simp: list_all_iff w number_def)
    ultimately show thesis using e by (intro that [of ?num]) simp_all
  qed
qed

lemma check_ip_accepts: "ip_accepted str \<Longrightarrow> WIFI_CheckIP (str @ 0 # rest) = (False, 1)"
proof -
  assume acc: "ip_accepted str"
  then obtain as b where s: "str = dotted as @ b" "\<forall>a\<in>set as. block a" "digits b" "length as \<le> 3 \<or> length as = 4 \<and> b = []"
    "\<forall>a\<in>set (as @ [b]). number a mod 2 ^ 16 < 256"
    unfolding ip_accepted_def by blast
  have l: "length (dotted as @ b) \<le> 15" using acc unfolding ip_accepted_def s(1) by blast
  then have "length (dotted as @ b) \<le> 16" by simp
  then obtain num where n: "check_ip_loop (dotted as @ b @ 0 # rest) 0 0 0 [0, 0, 0, 0] False =
      check_ip_loop (0 # rest) (of_nat (length (dotted as @ b))) (of_nat (length as)) (of_nat (length b)) num False"
    "list_all (\<lambda>n. n < 256) num"
    using check_ip_run [OF s(2,3) _ s(4), of "0 # rest"] s(5) by metis
  then show ?thesis using unat_small_len [OF l] by (simp add: WIFI_CheckIP_def s(1))
qed

lemma check_ip_overruns:
  assumes "ip_overrun str"
  shows "fst (WIFI_CheckIP (str @ 0 # rest))"
proof -
  obtain as c suf where s: "str = dotted as @ c # suf" "length as = 4" "\<forall>a\<in>set as. block a" "digits [c]"
    "length (dotted as) \<le> 15"
    using assms by (auto simp: ip_overrun_def)
  have "digits []" "length (dotted as @ []) \<le> 16" "length as \<le> 3 \<or> length as = 4 \<and> [] = ([] :: u8 list)"
    using s(2,5) by (simp_all add: digits_def)
  from check_ip_run [OF s(3) this, of "c # suf @ 0 # rest"] obtain num where
    n: "length num = 4" "check_ip_loop (dotted as @ [] @ c # suf @ 0 # rest) 0 0 0 [0, 0, 0, 0] False =
      check_ip_loop (c # suf @ 0 # rest) (of_nat (length (dotted as @ []))) (of_nat (length as)) (of_nat (length ([] :: u8 list))) num False"
    by blast
  have c: "48 \<le> c" "c \<le> 57" "c \<noteq> 0" "c \<noteq> 46" using s(4) by (auto simp: digits_def)
  have "unat (of_nat (length as) :: u8) = 4" using s(2) by simp
  then have "fst (check_ip_loop (c # suf @ 0 # rest) (of_nat (length (dotted as @ []))) (of_nat (length as)) (of_nat (length ([] :: u8 list))) num False)"
    using c unat_small_len [OF s(5)] n(1) by (simp add: get_at_def put_at_def check_ip_bad)
  then show ?thesis using n(2) by (simp only: fst_CheckIP s(1)) simp
qed

text \<open>Every text is a number of blocks, digits, and then its end or a character that stops the loop.\<close>

lemma digits_all: "digits b \<longleftrightarrow> (\<forall>c\<in>set b. digits [c])"
  by (simp add: digits_def)

lemma ip_split:
  "\<exists>as b suf. str = dotted as @ b @ suf \<and> (\<forall>a\<in>set as. block a) \<and> digits b \<and>
     (suf = [] \<or> (\<exists>c cs. suf = c # cs \<and> \<not> digits [c] \<and> (c = 46 \<longrightarrow> b = [] \<or> 3 < length b)))"
proof (induction str rule: length_induct)
  case (1 str)
  let ?b = "takeWhile (\<lambda>c. digits [c]) str" and ?r = "dropWhile (\<lambda>c. digits [c]) str"
  have b: "digits ?b" by (subst digits_all) (blast dest: set_takeWhileD)
  show ?case
  proof (cases ?r)
    case Nil
    then have "?b = str" using takeWhile_dropWhile_id [of "\<lambda>c. digits [c]" str] by (simp only: append_Nil2)
    then have "str = dotted [] @ ?b @ []" by (simp only: dotted_def) simp
    then show ?thesis using b by (intro exI [of _ "[]"] exI [of _ ?b]) simp
  next
    case (Cons c cs)
    have s: "str = ?b @ c # cs" using takeWhile_dropWhile_id [of "\<lambda>c. digits [c]" str] Cons by simp
    have c: "\<not> digits [c]" using hd_dropWhile [of "\<lambda>c. digits [c]" str] Cons by simp
    show ?thesis
    proof (cases "c = 46 \<and> ?b \<noteq> [] \<and> length ?b \<le> 3")
      case True
      have "length cs < length str" by (subst s) simp
      then obtain as b suf where i: "cs = dotted as @ b @ suf" "\<forall>a\<in>set as. block a" "digits b"
        "suf = [] \<or> (\<exists>c cs. suf = c # cs \<and> \<not> digits [c] \<and> (c = 46 \<longrightarrow> b = [] \<or> 3 < length b))"
        using 1 by blast
      have "str = dotted (?b # as) @ b @ suf" using True by (subst s) (simp add: dotted_def i(1))
      moreover have "block ?b" using True b by (simp add: block_def)
      ultimately show ?thesis using i(2-4) by (intro exI [of _ "?b # as"] exI [of _ b] exI [of _ suf]) auto
    next
      case False
      have "str = dotted [] @ ?b @ c # cs" using s by (simp add: dotted_def)
      moreover have "c = 46 \<longrightarrow> ?b = [] \<or> 3 < length ?b" using False by auto
      ultimately show ?thesis using b c by (intro exI [of _ "[]"] exI [of _ ?b] exI [of _ "c # cs"]) auto
    qed
  qed
qed

lemma check_ip_rejects:
  assumes "0 \<notin> set str"
  shows "ip_overrun str \<or> ip_accepted str \<or> WIFI_CheckIP (str @ 0 # rest) = (False, 0)"
proof -
  let ?s = "take 16 str"
  have z: "0 \<notin> set ?s" using assms by (meson in_set_takeD)
  obtain as b suf where s: "?s = dotted as @ b @ suf" and as: "\<forall>a\<in>set as. block a" and b: "digits b"
    and suf: "suf = [] \<or> (\<exists>c cs. suf = c # cs \<and> \<not> digits [c] \<and> (c = 46 \<longrightarrow> b = [] \<or> 3 < length b))"
    using ip_split [of ?s] by blast
  have "length ?s \<le> 16" by simp
  then have len: "length (dotted as @ b @ suf) \<le> 16" by (simp only: s)
  show ?thesis
  proof (cases "length as \<le> 3 \<or> length as = 4 \<and> b = []")
    case n: True
    have "length (dotted as @ b) \<le> 16" using len by simp
    from check_ip_run [OF as b this n, of "suf @ 0 # rest"] obtain num where
      run: "check_ip_loop (dotted as @ b @ suf @ 0 # rest) 0 0 0 [0, 0, 0, 0] False =
        check_ip_loop (suf @ 0 # rest) (of_nat (length (dotted as @ b))) (of_nat (length as)) (of_nat (length b)) num False"
      and num: "list_all (\<lambda>n. n < 256) num \<longleftrightarrow> (\<forall>a\<in>set (as @ [b]). number a mod 2 ^ 16 < 256)" by blast
    have loop: "check_ip_loop (str @ 0 # rest) 0 0 0 [0, 0, 0, 0] False =
        check_ip_loop (suf @ 0 # rest) (of_nat (length (dotted as @ b))) (of_nat (length as)) (of_nat (length b)) num False"
      using CheckIP_take [OF assms, of rest "[0, 0, 0, 0]"] run by (simp only: s append_assoc)
    show ?thesis
    proof (cases suf)
      case Nil
      have e: "check_ip_loop (str @ 0 # rest) 0 0 0 [0, 0, 0, 0] False = (False, Some (of_nat (length ?s), num))"
        unfolding loop by (simp add: Nil s)
      show ?thesis
      proof (cases "length str \<le> 15")
        case True
        then have "str = dotted as @ b" using s Nil by simp
        then show ?thesis
          using e True num n as b unat_small_len [of "length str"] by (auto simp: WIFI_CheckIP_def ip_accepted_def)
      next
        case False
        then have "length ?s = 16" by simp
        then have "15 < (of_nat (length ?s) :: u16)" by (simp only:) simp
        then show ?thesis using e by (simp add: WIFI_CheckIP_def)
      qed
    next
      case (Cons c cs)
      have c: "\<not> (48 \<le> c \<and> c \<le> 57)" "c = 46 \<longrightarrow> b = [] \<or> 3 < length b" "c \<noteq> 0"
        using suf z s by (auto simp: Cons digits_def)
      have l: "length (dotted as @ b) \<le> 15" using len Cons by simp
      have j: "of_nat (length b) = (0 :: u8) \<or> 3 < (of_nat (length b) :: u8)" if "c = 46"
      proof -
        have "unat (of_nat (length b) :: u8) = length b" using l by (intro unat_of_nat_small) simp
        then show ?thesis using c(2) that by (auto simp: word_less_nat_alt)
      qed
      have "check_ip_loop (str @ 0 # rest) 0 0 0 [0, 0, 0, 0] False = (False, None)"
        unfolding loop using c j unat_small_len [OF l] by (auto simp: Cons)
      then show ?thesis by (simp add: WIFI_CheckIP_def)
    qed
  next
    case False
    then have n: "4 \<le> length as" "length as = 4 \<longrightarrow> b \<noteq> []" by auto
    have d: "dotted as = dotted (take 4 as) @ dotted (drop 4 as)"
      unfolding dotted_def by (metis append_take_drop_id concat_append map_append)
    have "\<exists>c cs. dotted (drop 4 as) @ b = c # cs \<and> digits [c]"
    proof (cases "drop 4 as")
      case Nil
      then show ?thesis using n b by (cases b) (auto simp: digits_def dotted_def)
    next
      case (Cons a as')
      then have "block a" using as by (metis in_set_dropD list.set_intros(1))
      then show ?thesis by (cases a) (auto simp: Cons block_def digits_def dotted_def)
    qed
    then obtain c cs where c: "dotted (drop 4 as) @ b = c # cs" "digits [c]" by blast
    have "str = ?s @ drop 16 str" by simp
    also have "\<dots> = dotted (take 4 as) @ (dotted (drop 4 as) @ b) @ suf @ drop 16 str" by (simp only: s d append_assoc)
    finally have "str = dotted (take 4 as) @ c # cs @ suf @ drop 16 str" by (simp only: c append_Cons)
    moreover have "length (dotted (take 4 as)) \<le> 15" using len arg_cong [OF c(1), of length] by (simp add: d)
    moreover have "\<forall>a\<in>set (take 4 as). block a" using as by (meson in_set_takeD)
    ultimately have "ip_overrun str" unfolding ip_overrun_def using n(1) c(2)
      by (intro exI [of _ "take 4 as"] exI [of _ c] exI [of _ "cs @ suf @ drop 16 str"]) simp
    then show ?thesis ..
  qed
qed

text \<open>
  C33: Which texts are addresses.  A C string of any characters and length is accepted by
  \<^verbatim>\<open>WIFI_CheckIP\<close>, without an access outside its arrays, exactly if it has at most fifteen
  characters and consists of blocks of one to three digits, each with its dot, followed by a last
  block of digits, which may be empty and has no length limit of its own; at most three dots, or
  four with nothing after the last; and every block is below 256, counted modulo 65536.  So dotted
  quads pass, but so do fewer than four blocks, an empty last block, and a last block such as 65536.
  It writes outside the array \<^verbatim>\<open>num[4]\<close> exactly if a digit follows four well-formed blocks with
  their dots.  Every other text is rejected.
\<close>

theorem check_ip_characterised:
  assumes "0 \<notin> set str"
  shows "(WIFI_CheckIP (str @ 0 # rest) = (False, 1) \<longleftrightarrow> ip_accepted str) \<and>
    (fst (WIFI_CheckIP (str @ 0 # rest)) \<longleftrightarrow> ip_overrun str) \<and>
    (\<not> ip_accepted str \<and> \<not> ip_overrun str \<longrightarrow> WIFI_CheckIP (str @ 0 # rest) = (False, 0))"
  using check_ip_rejects [OF assms, of rest] check_ip_accepts [of str rest] check_ip_overruns [of str rest] by force

theorem check_ip_characterised_witness:
  "WIFI_CheckIP ([49, 46] @ [54, 53, 53, 51, 54] @ [0]) = (False, 1)"
proof -
  have "ip_accepted ([49, 46] @ [54, 53, 53, 51, 54])"
    unfolding ip_accepted_def
    by (intro conjI exI [of _ "[[49]]"] exI [of _ "[54, 53, 53, 51, 54]"])
      (simp_all add: block_def digits_def dotted_def number_def)
  moreover have "0 \<notin> set ([49, 46, 54, 53, 53, 51, 54] :: u8 list)" by simp
  ultimately show ?thesis using check_ip_characterised [of "[49, 46, 54, 53, 53, 51, 54]" "[]"] by simp
qed

section \<open>Buffers\<close>

definition wifi_wf :: "app \<Rightarrow> bool" where
  "wifi_wf s \<longleftrightarrow> rx_wf s \<and> length (WIFI_CMD s) = WIFI_CMD_SIZE"

lemma recDataProcessing_wf: "rx_wf s \<Longrightarrow> rx_wf (recDataProcessing d s)"
  using rx_step [of s "in_progress s" d] by (simp add: rx_ok_def)

lemma recDataProcessing_WIFI_CMD: "WIFI_CMD (recDataProcessing d s) = WIFI_CMD s"
  by (cases "recState s") (simp_all add: recDataProcessing_def put_at_def Let_def)

lemma ReturnCheck_frame [simp]:
  "WIFI_CMD (WIFI_CMD_ReturnCheck s) = WIFI_CMD s" "g_frame_data (WIFI_CMD_ReturnCheck s) = g_frame_data s"
  "recState (WIFI_CMD_ReturnCheck s) = recState s" "data_index (WIFI_CMD_ReturnCheck s) = data_index s"
  "oob (WIFI_CMD_ReturnCheck s) = oob s"
  by (simp_all add: WIFI_CMD_ReturnCheck_def Let_def)

text \<open>In data mode the interrupt is the frame receiver, otherwise it stays inside its buffer.\<close>

lemma irq_command:
  assumes "length (WIFI_CMD s) = WIFI_CMD_SIZE" "\<not> (f \<and> WIFI_RECVSTOP s = WIFI_RECV_DATA)"
  shows "g_frame_data (WIFI_USART_IRQHandler f d s) = g_frame_data s \<and> recState (WIFI_USART_IRQHandler f d s) = recState s \<and>
    data_index (WIFI_USART_IRQHandler f d s) = data_index s \<and> oob (WIFI_USART_IRQHandler f d s) = oob s \<and>
    length (WIFI_CMD (WIFI_USART_IRQHandler f d s)) = WIFI_CMD_SIZE"
proof (cases "f \<and> WIFI_RECVSTOP s = WIFI_RECV_CMD")
  case cmd: True
  show ?thesis
  proof (cases "unat (cmd_index s) < WIFI_CMD_SIZE - 1")
    case True
    have "unat (cmd_index s + 1) = Suc (unat (cmd_index s))"
      by (rule u16_incr [of _ "of_nat WIFI_CMD_SIZE"]) (use True in \<open>simp add: WIFI_CMD_SIZE_def unat_of_nat\<close>)
    then have "unat (cmd_index s + 1) < WIFI_CMD_SIZE" "unat (cmd_index s) < WIFI_CMD_SIZE" using True by simp_all
    then show ?thesis
      using True cmd assms by (cases "d = 10") (simp_all add: WIFI_USART_IRQHandler_def Let_def)
  next
    case False
    moreover have "WIFI_CMD_SIZE - 1 < WIFI_CMD_SIZE" by (simp add: WIFI_CMD_SIZE_def)
    ultimately show ?thesis using cmd assms by (simp add: WIFI_USART_IRQHandler_def Let_def)
  qed
next
  case False
  then show ?thesis using assms by (auto simp: WIFI_USART_IRQHandler_def)
qed

lemma irq_wf:
  assumes "wifi_wf s"
  shows "wifi_wf (WIFI_USART_IRQHandler f d s)"
proof (cases "f \<and> WIFI_RECVSTOP s = WIFI_RECV_DATA")
  case True
  then have "WIFI_USART_IRQHandler f d s = recDataProcessing d s" by (simp add: WIFI_USART_IRQHandler_def)
  then show ?thesis using assms by (simp add: wifi_wf_def recDataProcessing_wf recDataProcessing_WIFI_CMD)
next
  case False
  then show ?thesis using assms irq_command [of s f d] by (simp add: wifi_wf_def rx_wf_def)
qed

lemma recDataProcessing_oob_mono: "oob s \<Longrightarrow> oob (recDataProcessing d s)"
  by (cases "recState s") (simp_all add: recDataProcessing_def Let_def split: prod.splits)

lemma irq_oob_mono: "oob s \<Longrightarrow> oob (WIFI_USART_IRQHandler f d s)"
  by (simp add: WIFI_USART_IRQHandler_def recDataProcessing_oob_mono Let_def split: prod.splits)

text \<open>What the interrupt and the driver's own fields keep, a command keeps.\<close>

definition kept :: "(app \<Rightarrow> bool) \<Rightarrow> bool" where
  "kept P \<longleftrightarrow> (\<forall>s d. P s \<longrightarrow> P (WIFI_USART_IRQHandler True d s)) \<and>
     (\<forall>s x y z. P s \<longrightarrow> P (s\<lparr>rx_due := x\<rparr>) \<and> P (s\<lparr>uart_out := y\<rparr>) \<and> P (s\<lparr>WIFI_RECVSTOP := z\<rparr>) \<and>
        P (s\<lparr>WIFI_CMD_FLAG := z\<rparr>))"

lemma keptD:
  assumes "kept P" "P s"
  shows "P (WIFI_USART_IRQHandler True d s)" "P (s\<lparr>rx_due := x\<rparr>)" "P (s\<lparr>uart_out := y\<rparr>)"
    "P (s\<lparr>WIFI_RECVSTOP := z\<rparr>)" "P (s\<lparr>WIFI_CMD_FLAG := z\<rparr>)"
  using assms by (simp_all add: kept_def)

lemma kept_arrive:
  assumes "kept P" "P s"
  shows "P (arrive s)"
proof -
  have "P (fold (WIFI_USART_IRQHandler True) bs t)" if "P t" for bs t
    using that by (induction bs arbitrary: t) (simp_all add: keptD(1) [OF assms(1)])
  then show ?thesis using keptD(2) [OF assms] assms(2) by (simp add: arrive_def split: list.splits)
qed

lemma kept_string:
  assumes "kept P" "P s" "0 \<in> set cs"
  shows "P (USER_UART_SendString cs s)"
proof -
  have "USER_UART_SendString cs s = arrive (s\<lparr>uart_out := uart_out s @ c_string cs\<rparr>)"
    using assms(3) by (simp add: USER_UART_SendString_def)
  then show ?thesis by (simp add: kept_arrive [OF assms(1)] keptD(3) [OF assms(1,2)])
qed

lemma kept_wait: "kept P \<Longrightarrow> P s \<Longrightarrow> P (snd (snd (wait_answer w s)))"
proof (induction w s rule: wait_answer.induct)
  case (1 w s)
  then show ?case by (subst wait_answer.simps) (simp add: ESP8266_Delay_def kept_arrive)
qed

lemma kept_attempts: "kept P \<Longrightarrow> P s \<Longrightarrow> 0 \<in> set cs \<Longrightarrow> P (snd (send_attempts r cs s))"
proof (induction r cs s rule: send_attempts.induct)
  case (1 r cs s)
  obtain ok w s1 where w: "wait_answer 0 (USER_UART_SendString cs s) = (ok, w, s1)" by (metis prod_cases3)
  have s1: "P s1" using kept_wait [OF "1.prems"(1) kept_string [OF "1.prems"], of 0] by (simp add: w)
  show ?case
  proof (cases "r < MAX_RETRY \<and> \<not> ok \<and> \<not> (TIMEOUT_MS \<le> w \<and> WIFI_CMD_FLAG s1 = 0)")
    case True
    have "P (if r + 1 < MAX_RETRY then ESP8266_Delay 100 s1 else s1)"
      using s1 "1.prems"(1) by (simp add: ESP8266_Delay_def kept_arrive)
    with True "1.IH" [OF _ w [symmetric] refl] "1.prems"
    have "P (snd (send_attempts (r + 1) cs (if r + 1 < MAX_RETRY then ESP8266_Delay 100 s1 else s1)))" by blast
    then show ?thesis using True by (subst send_attempts.simps) (auto simp: w)
  next
    case False
    then show ?thesis
      using s1 "1.prems"(2) keptD(4) [OF "1.prems"(1)] by (subst send_attempts.simps) (auto simp: w)
  qed
qed

lemma kept_SendCMD: "kept P \<Longrightarrow> P s \<Longrightarrow> 0 \<in> set cs \<Longrightarrow> P (snd (WIFI_SendCMD cs s))"
  by (simp add: WIFI_SendCMD_def kept_attempts keptD)

lemma kept_oob: "kept oob" by (simp add: kept_def irq_oob_mono)

lemma kept_wifi_wf: "kept wifi_wf"
  unfolding kept_def using irq_wf by (simp add: wifi_wf_def rx_wf_def)

lemma SendCMD_oob:
  assumes "wifi_wf (s\<lparr>oob := False\<rparr>)" "0 \<in> set cs"
  shows "oob (snd (WIFI_SendCMD cs s)) = oob s"
proof (cases "oob s")
  case True
  then show ?thesis using kept_SendCMD [OF kept_oob] assms by blast
next
  case False
  then have "wifi_wf s" using assms(1) by (simp add: wifi_wf_def rx_wf_def)
  then show ?thesis using False kept_SendCMD [OF kept_wifi_wf _ assms(2), of s] by (simp add: wifi_wf_def rx_wf_def Let_def)
qed

lemma sprintf_oob:
  "wifi_wf s \<Longrightarrow> oob (snd (WIFI_SendCMD (fst (sprintf_to n str s)) (snd (sprintf_to n str s)))) = (n \<le> length str)"
  by (subst SendCMD_oob) (simp_all add: sprintf_to_def wifi_wf_def rx_wf_def Let_def)

lemma check_ip_length:
  "check_ip_loop ip (of_nat l) i j num bad = (b, Some (len, n)) \<Longrightarrow> l \<le> 16 \<Longrightarrow> \<not> 15 < len \<Longrightarrow>
   l + length (c_string ip) \<le> 15"
proof (induction ip arbitrary: l i j num bad)
  case (Cons c ip)
  have l: "15 < (of_nat l :: u16) \<longleftrightarrow> l = 16"
    using Cons.prems(2) by (auto simp: word_less_nat_alt unat_of_nat_small)
  show ?case
  proof (cases "c = 0 \<or> l = 16")
    case True
    then have "len = of_nat l" using Cons.prems(1) l by auto
    then show ?thesis using True Cons.prems(2,3) l by (auto simp: c_string_def)
  next
    case False
    then obtain i' j' num' bad' where
      "check_ip_loop ip (of_nat (Suc l)) i' j' num' bad' = (b, Some (len, n))"
      using Cons.prems(1) l by (auto simp: Let_def add.commute split: if_splits prod.splits)
    then show ?thesis using Cons.IH [of "Suc l"] Cons.prems(2,3) False by (simp add: c_string_def)
  qed
qed simp

lemma CheckIP_length: "WIFI_CheckIP ip = (bad, 1) \<Longrightarrow> length (c_string ip) \<le> 15"
  using check_ip_length [of ip 0] by (auto simp: WIFI_CheckIP_def split: prod.splits option.splits if_splits)

text \<open>
  C34: Which command buffers are large enough.  With the receiver's state well formed, whatever the
  module sends, \<^verbatim>\<open>WIFI_SetMode\<close> and, for an address that passes the check,
  \<^verbatim>\<open>WIFI_SetIP\<close> stay inside their buffers; \<^verbatim>\<open>WIFI_SetTxMode\<close> overruns its buffer for
  both valid modes; \<^verbatim>\<open>WIFI_LinkSSID\<close> overruns it if and only if name and password have 24 or
  more characters, and \<^verbatim>\<open>WIFI_TCPConnect\<close>, once its checks have passed, if and only if
  address and port have 77 or more.
\<close>

theorem wifi_command_buffers:
  assumes "wifi_wf s"
  shows "\<not> oob (snd (WIFI_SetMode m s)) \<and> (oob (snd (WIFI_SetTxMode m s)) \<longleftrightarrow> m \<le> 1) \<and>
    (WIFI_CheckIP ip = (False, 1) \<longrightarrow> \<not> oob (snd (WIFI_SetIP ip s))) \<and>
    (oob (snd (WIFI_LinkSSID ssid pw s)) \<longleftrightarrow> 24 \<le> length (c_string ssid) + length (c_string pw)) \<and>
    (WIFI_SEND_STATE s \<noteq> 1 \<and> WIFI_CheckIP ip = (False, 1) \<and> WIFI_CheckPort port = (False, 1) \<longrightarrow>
       (oob (snd (WIFI_TCPConnect ip port s)) \<longleftrightarrow> 77 \<le> length (c_string ip) + length (c_string port)))"
proof (intro conjI impI)
  note len = bytes_def quoted_def CRLF_def
  have no: "\<not> oob s" using assms by (simp add: wifi_wf_def rx_wf_def Let_def)
  have one: "length (decimal (unat k)) = 1" if "k \<le> 3" for k :: u8
    using that by (simp add: decimal.simps word_le_nat_alt)
  show "\<not> oob (snd (WIFI_SetMode m s))"
    using sprintf_oob [OF assms, of 14 "WIFI_MODE_SET @ decimal (unat m) @ CRLF"] no one [of m]
    by (auto simp: WIFI_SetMode_def WIFI_MODE_SET_def len sprintf_to_def not_less)
  show "oob (snd (WIFI_SetTxMode m s)) \<longleftrightarrow> m \<le> 1"
  proof (cases "m \<le> 1")
    case True
    have "m \<le> 3" using True by (simp add: word_le_nat_alt)
    then have "length (WIFI_CIP_MODE @ decimal (unat m) @ CRLF) = 14" using one by (simp add: WIFI_CIP_MODE_def len)
    then have "oob (snd (WIFI_SendCMD (fst (sprintf_to 14 (WIFI_CIP_MODE @ decimal (unat m) @ CRLF) s))
        (snd (sprintf_to 14 (WIFI_CIP_MODE @ decimal (unat m) @ CRLF) s))))"
      using sprintf_oob [OF assms] by simp
    then show ?thesis using True kept_SendCMD [OF kept_oob]
      by (auto simp: WIFI_SetTxMode_def sprintf_to_def Let_def not_less split: prod.splits)
  qed (use no in \<open>simp add: WIFI_SetTxMode_def not_le\<close>)
  have upd: "s\<lparr>oob := oob s\<rparr> = s" by simp
  show "\<not> oob (snd (WIFI_SetIP ip s))" if ip: "WIFI_CheckIP ip = (False, 1)"
    using sprintf_oob [OF assms, of 30 "WIFI_STA_IP @ quoted ip @ CRLF"] CheckIP_length [OF ip]
    by (simp add: WIFI_SetIP_def ip WIFI_STA_IP_def len sprintf_to_def)
  have "oob (snd (WIFI_LinkSSID ssid pw s)) =
      oob (snd (WIFI_SendCMD (fst (sprintf_to 40 (bytes ''AT+CWJAP='' @ quoted ssid @ bytes '','' @ quoted pw @ CRLF) s))
        (snd (sprintf_to 40 (bytes ''AT+CWJAP='' @ quoted ssid @ bytes '','' @ quoted pw @ CRLF) s))))"
    by (simp add: WIFI_LinkSSID_def sprintf_to_def Let_def split: prod.splits)
  also have "\<dots> \<longleftrightarrow> 24 \<le> length (c_string ssid) + length (c_string pw)"
    unfolding sprintf_oob [OF assms] by (simp add: len)
  finally show "oob (snd (WIFI_LinkSSID ssid pw s)) \<longleftrightarrow> 24 \<le> length (c_string ssid) + length (c_string pw)" .
  assume c: "WIFI_SEND_STATE s \<noteq> 1 \<and> WIFI_CheckIP ip = (False, 1) \<and> WIFI_CheckPort port = (False, 1)"
  let ?t = "WIFI_START @ quoted (bytes ''TCP'') @ bytes '','' @ quoted ip @ bytes '','' @ c_string port @ CRLF"
  have tcp: "c_string (bytes ''TCP'') = bytes ''TCP''" by (simp add: c_string_def bytes_def)
  have "oob (snd (WIFI_TCPConnect ip port s)) = oob (snd (WIFI_SendCMD (fst (sprintf_to 100 ?t s)) (snd (sprintf_to 100 ?t s))))"
    using c by (simp add: WIFI_TCPConnect_def sprintf_to_def Let_def split: prod.splits)
  also have "\<dots> \<longleftrightarrow> 77 \<le> length (c_string ip) + length (c_string port)"
    unfolding sprintf_oob [OF assms] by (simp add: quoted_def tcp) (simp add: len WIFI_START_def)
  finally show "oob (snd (WIFI_TCPConnect ip port s)) \<longleftrightarrow> 77 \<le> length (c_string ip) + length (c_string port)" .
qed

theorem wifi_command_buffers_witness:
  "oob (snd (WIFI_SetTxMode 1 demo_app)) \<and> \<not> oob (snd (WIFI_SetMode 1 demo_app))"
proof -
  have "wifi_wf demo_app"
    by (simp add: wifi_wf_def rx_wf_def demo_app_def MAX_DATA_LEN_def WIFI_CMD_SIZE_def)
  from wifi_command_buffers [OF this] show ?thesis by blast
qed

end
