(* ===== verification/Epd.thy ===== *)
theory Epd
  imports App_State
begin

text \<open>
  \<^verbatim>\<open>Device/EPD_SPI.c\<close> and \<^verbatim>\<open>Device/EPD.c\<close>: the display, driven by setting and clearing
  pins.  What a function does to the display is appended to the history \<open>epd_out\<close>, pin by pin;
  waiting until \<^verbatim>\<open>BUSY\<close> is released is one event, so a display that stays busy for ever is
  not modelled, and neither is the set-up of the pins in \<^verbatim>\<open>EPD_SPI_Init\<close>.
\<close>

definition EPD_WIDTH :: nat where "EPD_WIDTH = 128"
definition EPD_HEIGHT :: nat where "EPD_HEIGHT = 250"
definition EPD_BUFFER_SIZE :: nat where "EPD_BUFFER_SIZE = EPD_WIDTH * EPD_HEIGHT div 4"

definition EPD_COLOR_BLACK :: u8 where "EPD_COLOR_BLACK = 0"
definition EPD_COLOR_WHITE :: u8 where "EPD_COLOR_WHITE = 1"
definition EPD_COLOR_YELLOW :: u8 where "EPD_COLOR_YELLOW = 2"
definition EPD_COLOR_RED :: u8 where "EPD_COLOR_RED = 3"

section \<open>Pins\<close>

definition epd_event :: "epd_event \<Rightarrow> app \<Rightarrow> app" where
  "epd_event e s = s\<lparr>epd_out := epd_out s @ [e]\<rparr>"

text \<open>One turn of the loop of \<^verbatim>\<open>EPD_Write\<close> per bit.\<close>

fun epd_bits :: "nat \<Rightarrow> u8 \<Rightarrow> app \<Rightarrow> app" where
  "epd_bits 0 d s = s"
| "epd_bits (Suc n) d s =
     (let s1 = epd_event (Pin EPD_CLK False) s;
          s2 = epd_event (Pin EPD_MOSI (d AND 0x80 \<noteq> 0)) s1;
          s3 = epd_event (Pin EPD_CLK True) s2
      in epd_bits n (push_bit 1 d) s3)"

definition EPD_Write :: "u8 \<Rightarrow> app \<Rightarrow> app" where
  "EPD_Write d s = epd_bits 8 d s"

definition EPD_WriteCMD :: "u8 \<Rightarrow> app \<Rightarrow> app" where
  "EPD_WriteCMD c s =
     epd_event (Pin EPD_CS True) (EPD_Write c (epd_event (Pin EPD_DC False) (epd_event (Pin EPD_CS False) s)))"

definition EPD_WriteDATA :: "u8 \<Rightarrow> app \<Rightarrow> app" where
  "EPD_WriteDATA d s =
     epd_event (Pin EPD_CS True) (EPD_Write d (epd_event (Pin EPD_DC True) (epd_event (Pin EPD_CS False) s)))"

definition EPD_CheckBusy :: "app \<Rightarrow> app" where
  "EPD_CheckBusy s = epd_event WaitBusy s"

definition EPD_Delay :: "u32 \<Rightarrow> app \<Rightarrow> app" where
  "EPD_Delay ms s = epd_event (Wait ms) s"

section \<open>Commands\<close>

definition EPD_Init :: "app \<Rightarrow> app" where
  "EPD_Init s =
     (let s1 = EPD_Delay 20 s; s2 = epd_event (Pin EPD_RST False) s1; s3 = EPD_Delay 40 s2;
          s4 = epd_event (Pin EPD_RST True) s3; s5 = EPD_Delay 50 s4; s6 = EPD_CheckBusy s5;
          s7 = EPD_WriteCMD 0xE9 s6; s8 = EPD_WriteDATA 0x01 s7; s9 = EPD_WriteCMD 0x04 s8
      in EPD_CheckBusy s9)"

definition EPD_Init_Fast :: "app \<Rightarrow> app" where
  "EPD_Init_Fast s =
     (let s1 = EPD_Delay 100 s; s2 = epd_event (Pin EPD_RST False) s1; s3 = EPD_Delay 10 s2;
          s4 = epd_event (Pin EPD_RST True) s3; s5 = EPD_Delay 10 s4; s6 = EPD_CheckBusy s5;
          s7 = EPD_WriteCMD 0xE0 s6; s8 = EPD_WriteDATA 0x02 s7; s9 = EPD_WriteCMD 0x04 s8
      in EPD_CheckBusy s9)"

definition EPD_Sleep :: "app \<Rightarrow> app" where
  "EPD_Sleep s =
     (let s1 = EPD_WriteCMD 0x02 s; s2 = EPD_WriteDATA 0x00 s1; s3 = EPD_CheckBusy s2;
          s4 = EPD_WriteCMD 0x07 s3
      in EPD_WriteDATA 0xA5 s4)"

definition EPD_Update :: "app \<Rightarrow> app" where
  "EPD_Update s = EPD_CheckBusy (EPD_WriteDATA 0x00 (EPD_WriteCMD 0x12 s))"

definition EPD_Clean :: "u8 \<Rightarrow> app \<Rightarrow> app" where
  "EPD_Clean color s =
     (let data = (if color = EPD_COLOR_WHITE then 0x55 else if color = EPD_COLOR_BLACK then 0x00
                  else if color = EPD_COLOR_YELLOW then 0xAA else if color = EPD_COLOR_RED then 0xFF else 0x00)
      in EPD_Update ((EPD_WriteDATA data ^^ EPD_BUFFER_SIZE) (EPD_WriteCMD 0x10 s)))"

section \<open>Images\<close>

definition Color_get :: "u8 \<Rightarrow> u8" where
  "Color_get color =
     (if color = 0x00 then EPD_COLOR_BLACK else if color = 0x01 then EPD_COLOR_WHITE
      else if color = 0x02 then EPD_COLOR_YELLOW else if color = 0x03 then EPD_COLOR_RED
      else EPD_COLOR_WHITE)"

text \<open>The body of the loops over the image: the four pixels of a byte, recoloured and packed.\<close>

definition recolour :: "u8 \<Rightarrow> u8" where
  "recolour temp1 =
     (let data_H1 = push_bit 6 (Color_get (drop_bit 6 temp1 AND 0x03));
          data_H2 = push_bit 4 (Color_get (drop_bit 4 temp1 AND 0x03));
          data_L1 = push_bit 2 (Color_get (drop_bit 2 temp1 AND 0x03));
          data_L2 = Color_get (temp1 AND 0x03)
      in data_H1 OR data_H2 OR data_L1 OR data_L2)"

definition write_pixels :: "u8 list \<Rightarrow> nat \<Rightarrow> app \<Rightarrow> app" where
  "write_pixels picData i s =
     (let (bad, temp1) = get_at i 0 picData in EPD_WriteDATA (recolour temp1) (s\<lparr>oob := oob s \<or> bad\<rparr>))"

definition EPD_DisplayImage :: "u8 list \<Rightarrow> app \<Rightarrow> app" where
  "EPD_DisplayImage picData s =
     EPD_Update (fold (write_pixels picData) [0..<EPD_BUFFER_SIZE] (EPD_WriteCMD 0x10 s))"

definition EPD_DisplayImage_Paragraph :: "u8 list \<Rightarrow> u32 \<Rightarrow> u8 \<Rightarrow> app \<Rightarrow> app" where
  "EPD_DisplayImage_Paragraph picData len number s =
     fold (write_pixels picData) [0..<unat len] (if number = 1 then EPD_WriteCMD 0x10 s else s)"

end
