(* ===== verification/App_Threads.thy ===== *)
theory App_Threads
  imports Epd Esp8266 Los_Task
begin

text \<open>
  \<^verbatim>\<open>User/thread_WiFi.c\<close>, the buttons of \<^verbatim>\<open>User/thread_Eink.c\<close>, and
  \<^verbatim>\<open>User/main.c\<close>.  A thread is modelled by its start-up and by one pass of its endless loop.
\<close>

section \<open>Images from the network\<close>

definition ProcessImageData :: "u8 \<Rightarrow> u8 \<Rightarrow> u8 list \<Rightarrow> u16 \<Rightarrow> app \<Rightarrow> app" where
  "ProcessImageData totalPackets packet_num data len s =
     (let s1 = (if packet_num = 1 then EPD_Init_Fast s else s);
          s2 = EPD_DisplayImage_Paragraph data (ucast len) packet_num s1
      in if packet_num = totalPackets then (EPD_Sleep (EPD_Update s2))\<lparr>last_packet := 0\<rparr>
         else s2\<lparr>last_packet := packet_num\<rparr>)"

definition ProcessFrame :: "FrameData_t \<Rightarrow> app \<Rightarrow> app" where
  "ProcessFrame frame s =
     (if cmd_type frame = CMD_TYPE_IMAGE then
        if cmd frame = CMD_IMAGE_TRANSFER then
          if data_len frame > 2 then
            ProcessImageData (data_buffer frame ! 0) (data_buffer frame ! 1) (drop 2 (data_buffer frame))
              (data_len frame - 2) s
          else s
        else s
      else s)"

text \<open>One pass of the loop of \<^verbatim>\<open>thread_WIFI_Start\<close>: the call that waits for a frame, and what
  follows it when it returns at once or after the thread (task \<open>t\<close>) was blocked.\<close>

definition wifi_received :: "u32 \<Rightarrow> app \<Rightarrow> app" where
  "wifi_received uwRet s = (if uwRet = WIFI_EVENT_RECV then ProcessFrame (g_frame_data s) s else s)"

definition thread_WIFI_pass :: "app \<Rightarrow> bool \<times> app" where
  "thread_WIFI_pass s =
     (case LOS_EventRead gWifiEventGroup WIFI_EVENT_RECV (LOS_WAITMODE_AND OR LOS_WAITMODE_CLR) LOS_WAIT_FOREVER (kern s) of
        (Ret uwRet, k) \<Rightarrow> (False, wifi_received uwRet (s\<lparr>kern := k\<rparr>))
      | (Blocked, k) \<Rightarrow> (True, s\<lparr>kern := k\<rparr>))"

definition thread_WIFI_resume :: "nat \<Rightarrow> app \<Rightarrow> app" where
  "thread_WIFI_resume t s =
     (let (uwRet, k) = LOS_EventRead_resume t gWifiEventGroup WIFI_EVENT_RECV (LOS_WAITMODE_AND OR LOS_WAITMODE_CLR) (kern s)
      in wifi_received uwRet (s\<lparr>kern := k\<rparr>))"

text \<open>What the thread does before its loop, after the first \<^verbatim>\<open>LOS_TaskDelay\<close>.\<close>

definition thread_WIFI_setup :: "app \<Rightarrow> app" where
  "thread_WIFI_setup s =
     (let s1 = WIFI_Init WIFI_STATION s;
          s2 = snd (WIFI_LinkSSID (bytes ''1302'' @ [0]) (bytes ''xiyukeji13+02'' @ [0]) s1);
          s3 = snd (WIFI_TCPConnect (bytes ''192.168.3.66'' @ [0]) (bytes ''11451'' @ [0]) s2)
      in snd (WIFI_SetTxMode 1 s3))"

section \<open>Buttons\<close>

text \<open>The pin reads low while the button is pressed; \<open>pressed\<close> is what is read.\<close>

definition Button_Scan :: "bool \<Rightarrow> Button_t \<Rightarrow> bool \<times> Button_t" where
  "Button_Scan pressed btn =
     (case btn_state btn of
        BUTTON_STATE_IDLE \<Rightarrow>
          (False, if pressed then btn\<lparr>debounce_counter := 0, btn_state := BUTTON_STATE_PRESSED\<rparr> else btn)
      | BUTTON_STATE_PRESSED \<Rightarrow>
          if pressed then
            let b1 = btn\<lparr>debounce_counter := debounce_counter btn + 1\<rparr>
            in if debounce_counter b1 \<ge> 2
               then (True, b1\<lparr>btn_state := BUTTON_STATE_WAIT_RELEASE, debounce_counter := 0\<rparr>)
               else (False, b1)
          else (False, btn\<lparr>btn_state := BUTTON_STATE_IDLE\<rparr>)
      | BUTTON_STATE_WAIT_RELEASE \<Rightarrow>
          (False, if \<not> pressed then
             let b1 = btn\<lparr>debounce_counter := debounce_counter btn + 1\<rparr>
             in if debounce_counter b1 \<ge> 2 then b1\<lparr>btn_state := BUTTON_STATE_IDLE, debounce_counter := 0\<rparr> else b1
           else btn\<lparr>debounce_counter := 0\<rparr>))"

section \<open>Start\<close>

text \<open>\<^verbatim>\<open>taskSample\<close>: the two threads are created from one parameter block; \<open>stk1\<close> and
  \<open>stk2\<close> are what the allocator returns for their stacks, and failures are only printed.\<close>

definition taskSample :: "symbols \<Rightarrow> u32 \<Rightarrow> u32 \<Rightarrow> u32 \<Rightarrow> u32 \<Rightarrow> kernel \<Rightarrow> kernel" where
  "taskSample ld eink_entry wifi_entry stk1 stk2 k =
     (let stTask = \<lparr>pfnTaskEntry = eink_entry, usTaskPrio = 6, param_uwArg = 0, uwStackSize = 0x800,
                    pcName = Some ''thread_Eink''\<rparr>;
          (r1, id1, k1) = LOS_TaskCreate ld False (Some stTask) stk1 k;
          stTask' = stTask\<lparr>pfnTaskEntry := wifi_entry, pcName := Some ''thread_WIFI'', usTaskPrio := 5\<rparr>;
          (r2, id2, k2) = LOS_TaskCreate ld False (Some stTask') stk2 k1
      in k2)"

end
