(* ===== verification/Image_Spec.thy ===== *)
theory Image_Spec
  imports App_Threads Esp_Spec
begin

text \<open>
  From the network to the display.  The display is specified by a decoder of the pin history: it
  samples the data pin at every rising edge of the clock while it is selected and reads a command or
  a data byte after eight bits, depending on the data/command pin.  The lemmas give what each
  routine of the driver sends; the property composes the receiver, the kernel's event, the thread
  and the driver for an image sent in packets.
\<close>

section \<open>The display's view of the pins\<close>

datatype epd_item = Cmd u8 | Dat u8 | Reset | Ready

record panel =
  p_mosi :: bool
  p_clk :: bool
  p_sel :: bool
  p_dc :: bool
  p_bits :: "bool list"
  p_log :: "epd_item list"

text \<open>Eight bits, most significant first.\<close>

definition byte_of :: "bool list \<Rightarrow> u8" where
  "byte_of bs = horner_sum of_bool 2 (rev bs)"

fun panel_step :: "epd_event \<Rightarrow> panel \<Rightarrow> panel" where
  "panel_step (Pin EPD_MOSI b) p = p\<lparr>p_mosi := b\<rparr>"
| "panel_step (Pin EPD_CLK b) p =
     (if b \<and> \<not> p_clk p \<and> p_sel p then
        let bits = p_bits p @ [p_mosi p]
        in if length bits = 8
           then p\<lparr>p_clk := b, p_bits := [], p_log := p_log p @ [if p_dc p then Dat (byte_of bits) else Cmd (byte_of bits)]\<rparr>
           else p\<lparr>p_clk := b, p_bits := bits\<rparr>
      else p\<lparr>p_clk := b\<rparr>)"
| "panel_step (Pin EPD_CS b) p = p\<lparr>p_sel := \<not> b, p_bits := []\<rparr>"
| "panel_step (Pin EPD_DC b) p = p\<lparr>p_dc := b\<rparr>"
| "panel_step (Pin EPD_RST b) p = (if b then p\<lparr>p_log := p_log p @ [Reset]\<rparr> else p)"
| "panel_step WaitBusy p = p\<lparr>p_log := p_log p @ [Ready]\<rparr>"
| "panel_step (Wait ms) p = p"

definition panel_start :: panel where
  "panel_start = \<lparr>p_mosi = False, p_clk = False, p_sel = False, p_dc = False, p_bits = [], p_log = []\<rparr>"

definition panel_of :: "app \<Rightarrow> panel" where
  "panel_of s = fold panel_step (epd_out s) panel_start"

definition shown :: "app \<Rightarrow> epd_item list" where
  "shown s = p_log (panel_of s)"

lemma panel_of_event [simp]: "panel_of (epd_event e s) = panel_step e (panel_of s)"
  by (simp add: panel_of_def epd_event_def)

text \<open>The state apart from the display; what a driver routine shows, changing nothing else.\<close>

definition quiet :: "app \<Rightarrow> app" where
  "quiet s = s\<lparr>epd_out := [], last_packet := 0\<rparr>"

definition displays :: "epd_item list \<Rightarrow> app \<Rightarrow> app \<Rightarrow> bool" where
  "displays items s s' \<longleftrightarrow> shown s' = shown s @ items \<and> quiet s' = quiet s"

lemma quiet_event [simp]: "quiet (epd_event e s) = quiet s"
  by (simp add: quiet_def epd_event_def)

lemma quietD:
  assumes "quiet s' = quiet s"
  shows "kern s' = kern s" "g_frame_data s' = g_frame_data s" "recState s' = recState s"
    "data_index s' = data_index s" "oob s' = oob s"
proof -
  have "\<And>f. f (quiet s') = f (quiet s)" using assms by simp
  from this [of kern] this [of recState] this [of data_index] this [of oob]
  show "kern s' = kern s" "recState s' = recState s" "data_index s' = data_index s" "oob s' = oob s"
    by (simp_all add: quiet_def)
  show "g_frame_data s' = g_frame_data s" using arg_cong [OF assms, of g_frame_data] by (simp add: quiet_def)
qed

lemma epd_bits_quiet [simp]: "quiet (epd_bits n d s) = quiet s"
  by (induction n arbitrary: d s) simp_all

lemma byte_bits_msb: "byte_of (map (\<lambda>i. bit d (7 - i)) [0..<8]) = (d :: u8)"
proof -
  have "rev (map (\<lambda>i. bit d (7 - i)) [0..<8]) = map (bit d) [0..<8]" by (simp add: upt_rec eval_nat_numeral)
  then show ?thesis
    unfolding byte_of_def by (intro bit_word_eqI) (simp add: bit_horner_sum_bit_word_iff)
qed

lemma msb_bit: "(d :: u8) AND 0x80 \<noteq> 0 \<longleftrightarrow> bit d 7"
  using tst_exp [of 7 d] by (simp add: tst_def)

lemma panel_bits:
  assumes "p_sel (panel_of s)" "length (p_bits (panel_of s)) + n = 8" "0 < n"
  shows "p_log (panel_of (epd_bits n d s)) = shown s @
      (let bits = p_bits (panel_of s) @ map (\<lambda>i. bit d (7 - i)) [0..<n]
       in [if p_dc (panel_of s) then Dat (byte_of bits) else Cmd (byte_of bits)])"
  using assms
proof (induction n arbitrary: d s)
  case (Suc n)
  let ?s = "epd_event (Pin EPD_CLK True) (epd_event (Pin EPD_MOSI (d AND 0x80 \<noteq> 0)) (epd_event (Pin EPD_CLK False) s))"
  have shift: "map (\<lambda>i. bit d (7 - i)) [0..<Suc n] = bit d 7 # map (\<lambda>i. bit (push_bit 1 d) (7 - i)) [0..<n]"
    if "n < 8"
  proof -
    have "bit (push_bit 1 d) (7 - i) = bit d (7 - Suc i)" if "i < n" for i
    proof -
      have "Suc 0 \<le> 7 - i" "7 - i < 8" using that \<open>n < 8\<close> by arith+
      then show ?thesis by (simp only: bit_push_bit_iff) simp
    qed
    then show ?thesis
      unfolding upt_conv_Cons [OF zero_less_Suc] map_Suc_upt [symmetric] by (simp del: push_bit_numeral)
  qed
  show ?case
  proof (cases "n = 0")
    case True
    then show ?thesis
      using Suc.prems by (simp add: Let_def shown_def msb_bit)
  next
    case False
    have "epd_bits (Suc n) d s = epd_bits n (push_bit 1 d) ?s" by simp
    moreover have "p_bits (panel_of ?s) = p_bits (panel_of s) @ [bit d 7]" "p_sel (panel_of ?s)"
      "p_dc (panel_of ?s) = p_dc (panel_of s)" "shown ?s = shown s"
      using Suc.prems False by (simp_all add: Let_def shown_def msb_bit)
    ultimately show ?thesis
      using Suc.IH [of ?s "push_bit 1 d"] Suc.prems False shift by simp
  qed
qed simp

lemma displays_trans: "displays a s s' \<Longrightarrow> displays b s' s'' \<Longrightarrow> displays (a @ b) s s''"
  by (simp add: displays_def)

lemma displays_CMD: "displays [Cmd c] s (EPD_WriteCMD c s)"
proof -
  let ?s = "epd_event (Pin EPD_DC False) (epd_event (Pin EPD_CS False) s)"
  have "p_log (panel_of (epd_bits 8 c ?s)) = shown s @ [Cmd c]"
    using panel_bits [of ?s 8 c] by (simp add: shown_def byte_bits_msb del: epd_bits.simps)
  then show ?thesis by (simp add: displays_def EPD_WriteCMD_def EPD_Write_def shown_def del: epd_bits.simps)
qed

lemma displays_DATA: "displays [Dat d] s (EPD_WriteDATA d s)"
proof -
  let ?s = "epd_event (Pin EPD_DC True) (epd_event (Pin EPD_CS False) s)"
  have "p_log (panel_of (epd_bits 8 d ?s)) = shown s @ [Dat d]"
    using panel_bits [of ?s 8 d] by (simp add: shown_def byte_bits_msb del: epd_bits.simps)
  then show ?thesis by (simp add: displays_def EPD_WriteDATA_def EPD_Write_def shown_def del: epd_bits.simps)
qed

lemma displays_event:
  "displays [Ready] s (EPD_CheckBusy s)" "displays [] s (EPD_Delay ms s)"
  "displays [] s (epd_event (Pin EPD_RST False) s)" "displays [Reset] s (epd_event (Pin EPD_RST True) s)"
  by (simp_all add: displays_def shown_def EPD_CheckBusy_def EPD_Delay_def)

lemma displays_Init_Fast: "displays [Reset, Ready, Cmd 0xE0, Dat 0x02, Cmd 0x04, Ready] s (EPD_Init_Fast s)"
  unfolding EPD_Init_Fast_def Let_def displays_def
  using displays_CMD displays_DATA displays_event by (simp add: displays_def)

lemma displays_Update: "displays [Cmd 0x12, Dat 0x00, Ready] s (EPD_Update s)"
  unfolding EPD_Update_def displays_def
  using displays_CMD displays_DATA displays_event by (simp add: displays_def)

lemma displays_Sleep: "displays [Cmd 0x02, Dat 0x00, Ready, Cmd 0x07, Dat 0xA5] s (EPD_Sleep s)"
  unfolding EPD_Sleep_def Let_def displays_def
  using displays_CMD displays_DATA displays_event by (simp add: displays_def)

section \<open>Colours\<close>

text \<open>The recolouring of the four pixels of a byte changes nothing.\<close>

lemma Color_get_same: "Color_get (w AND 0x03) = w AND 0x03"
proof -
  have "w AND 3 \<le> 3" by (rule word_and_le1)
  then have "unat (w AND 3) \<le> 3" by (simp add: word_le_nat_alt)
  then have "unat (w AND 3) \<in> {0, 1, 2, 3}" by auto
  then have "w AND 3 \<in> {0, 1, 2, 3}" by (auto simp: word_unat_eq_iff)
  then show ?thesis
    by (auto simp: Color_get_def EPD_COLOR_BLACK_def EPD_COLOR_WHITE_def EPD_COLOR_YELLOW_def EPD_COLOR_RED_def)
qed

lemma pixel_bits:
  assumes "n < 8"
  shows "bit (push_bit k (drop_bit k (b :: u8) AND 3)) n \<longleftrightarrow> k \<le> n \<and> n < k + 2 \<and> bit b n"
proof -
  have b3: "bit (3 :: u8) m \<longleftrightarrow> m < 2" for m
    using bit_mask_iff [of 2 m, where 'a = "8 word"] by (auto simp: mask_eq_exp_minus_1)
  have "bit (push_bit k (drop_bit k b AND 3)) n \<longleftrightarrow> k \<le> n \<and> n < LENGTH(8) \<and> bit b (k + (n - k)) \<and> n - k < 2"
    by (simp only: bit_push_bit_iff possible_bit_word bit_and_iff bit_drop_bit_eq o_def b3 conj_assoc)
  moreover have "k \<le> n \<Longrightarrow> k + (n - k) = n" by arith
  moreover have "k \<le> n \<Longrightarrow> n - k < 2 \<longleftrightarrow> n < k + 2" by arith
  ultimately show ?thesis using assms by (simp only: len_num1 len_bit0) (cases "k \<le> n"; auto)
qed

lemma recolour_id: "recolour b = b"
proof (rule bit_word_eqI)
  fix n
  assume "n < LENGTH(8)"
  then have n: "n < 8" by simp
  have low: "bit (b AND 3) n \<longleftrightarrow> n < 2 \<and> bit b n" using pixel_bits [OF n, of 0 b] by (simp add: numeral_2_eq_2)
  have "n < 2 \<or> 2 \<le> n \<and> n < 2 + 2 \<or> 4 \<le> n \<and> n < 4 + 2 \<or> 6 \<le> n \<and> n < 6 + 2" using n by arith
  then show "bit (recolour b) n = bit b n"
    unfolding recolour_def Let_def Color_get_same bit_or_iff pixel_bits [OF n] low by blast
qed

section \<open>Packets\<close>

lemma displays_refl: "displays [] s s"
  by (simp add: displays_def)

lemma displays_last_packet: "displays items s s' \<Longrightarrow> displays items s (s'\<lparr>last_packet := x\<rparr>)"
  by (simp add: displays_def quiet_def shown_def panel_of_def)

lemma displays_pixels:
  "n \<le> length xs \<Longrightarrow> displays (map Dat (take n xs)) s (fold (write_pixels xs) [0..<n] s)"
proof (induction n)
  case (Suc n)
  let ?s = "fold (write_pixels xs) [0..<n] s"
  have "write_pixels xs n ?s = EPD_WriteDATA (xs ! n) ?s"
    using Suc.prems by (simp add: write_pixels_def get_at_def recolour_id)
  then show ?case
    using displays_trans [OF Suc.IH displays_DATA [of "xs ! n" ?s]] Suc.prems by (simp add: take_Suc_conv_app_nth)
qed (simp add: displays_refl)

definition wake_items :: "epd_item list" where
  "wake_items = [Reset, Ready, Cmd 0xE0, Dat 0x02, Cmd 0x04, Ready, Cmd 0x10]"

definition refresh_items :: "epd_item list" where
  "refresh_items = [Cmd 0x12, Dat 0x00, Ready, Cmd 0x02, Dat 0x00, Ready, Cmd 0x07, Dat 0xA5]"

definition packet_items :: "u8 \<Rightarrow> u8 \<Rightarrow> u8 list \<Rightarrow> epd_item list" where
  "packet_items n i c = (if i = 1 then wake_items else []) @ map Dat c @ (if i = n then refresh_items else [])"

lemma displays_ProcessImageData:
  assumes "unat len \<le> length xs"
  shows "displays (packet_items n i (take (unat len) xs)) s (ProcessImageData n i xs len s)"
proof -
  have len: "unat (ucast len :: u32) = unat len" by (rule unat_ucast_up) simp
  let ?w = "if i = 1 then EPD_WriteCMD 0x10 (EPD_Init_Fast s) else s"
  have w: "displays (if i = 1 then wake_items else []) s ?w"
    using displays_trans [OF displays_Init_Fast displays_CMD [of "0x10"]]
    by (simp add: wake_items_def displays_refl)
  let ?p = "fold (write_pixels xs) [0..<unat len] ?w"
  have p: "displays ((if i = 1 then wake_items else []) @ map Dat (take (unat len) xs)) s ?p"
    using displays_trans [OF w displays_pixels [OF assms]] .
  have "EPD_DisplayImage_Paragraph xs (ucast len) i (if i = 1 then EPD_Init_Fast s else s) = ?p"
    by (simp add: EPD_DisplayImage_Paragraph_def len)
  then have e: "ProcessImageData n i xs len s =
      (if i = n then (EPD_Sleep (EPD_Update ?p))\<lparr>last_packet := 0\<rparr> else ?p\<lparr>last_packet := i\<rparr>)"
    unfolding ProcessImageData_def Let_def by (simp only:)
  show ?thesis
  proof (cases "i = n")
    case True
    then show ?thesis
      using displays_last_packet [OF displays_trans [OF p displays_trans [OF displays_Update displays_Sleep]]]
      unfolding e packet_items_def refresh_items_def by (simp only: True refl if_True append.simps append_assoc)
  next
    case False
    then show ?thesis using displays_last_packet [OF p] by (simp add: e packet_items_def)
  qed
qed

section \<open>The thread\<close>

text \<open>The event is initialised and clear and nobody waits; the caller is not an interrupt.\<close>

definition event_ready :: "kernel \<Rightarrow> bool" where
  "event_ready k \<longleftrightarrow> eventInit (eventCB k gWifiEventGroup) \<and> uwEventID (eventCB k gWifiEventGroup) = 0 \<and>
     pend k (EventList gWifiEventGroup) = [] \<and> \<not> OS_INT_ACTIVE k"

abbreviation "event_set k \<equiv> upd_event gWifiEventGroup (\<lambda>e. e\<lparr>uwEventID := WIFI_EVENT_RECV\<rparr>) k"

abbreviation "wifi_wait k \<equiv>
  LOS_EventRead gWifiEventGroup WIFI_EVENT_RECV (LOS_WAITMODE_AND OR LOS_WAITMODE_CLR) LOS_WAIT_FOREVER k"

lemma event_write_ready:
  assumes "event_ready k"
  shows "snd (LOS_EventWrite gWifiEventGroup WIFI_EVENT_RECV k) = event_set k"
    "snd (LOS_EventWrite gWifiEventGroup WIFI_EVENT_RECV (event_set k)) = event_set k"
  using assms by (simp_all add: event_ready_def LOS_EventWrite_def gWifiEventGroup_def WIFI_EVENT_RECV_def upd_event_def
      LOS_ERRTYPE_ERROR_def tst_def Let_def)

lemma event_read_ready:
  assumes "event_ready k"
  shows "wifi_wait (event_set k) = (Ret WIFI_EVENT_RECV, k)"
proof -
  have "OsEventReadParamCheck gWifiEventGroup WIFI_EVENT_RECV (LOS_WAITMODE_AND OR LOS_WAITMODE_CLR) (event_set k) = LOS_OK"
    using assms by (simp add: event_ready_def OsEventReadParamCheck_def gWifiEventGroup_def WIFI_EVENT_RECV_def upd_event_def
        LOS_WAITMODE_OR_def LOS_WAITMODE_AND_def LOS_WAITMODE_CLR_def LOS_ERRTYPE_ERROR_def tst_def)
  moreover have "upd_event gWifiEventGroup (\<lambda>e. e\<lparr>uwEventID := 0\<rparr>) (event_set k) = k"
  proof -
    have "(eventCB k gWifiEventGroup)\<lparr>uwEventID := 0\<rparr> = eventCB k gWifiEventGroup"
      using assms by (cases "eventCB k gWifiEventGroup") (simp add: event_ready_def)
    then show ?thesis by (simp add: upd_event_def)
  qed
  moreover have "poll_cb gWifiEventGroup WIFI_EVENT_RECV (LOS_WAITMODE_AND OR LOS_WAITMODE_CLR) (event_set k) =
      (WIFI_EVENT_RECV, upd_event gWifiEventGroup (\<lambda>e. e\<lparr>uwEventID := 0\<rparr>) (event_set k))"
    by (simp add: poll_cb_def LOS_EventPoll_def upd_event_def WIFI_EVENT_RECV_def LOS_WAITMODE_OR_def
        LOS_WAITMODE_AND_def LOS_WAITMODE_CLR_def tst_def clr_def)
  ultimately show ?thesis
    using assms by (simp add: LOS_EventRead_def event_ready_def WIFI_EVENT_RECV_def OS_INT_ACTIVE_def upd_event_def)
qed

section \<open>Packets of an image\<close>

definition packet_frame :: "u8 \<Rightarrow> u8 \<Rightarrow> u8 list \<Rightarrow> u8 list" where
  "packet_frame n i c = frame_bytes CMD_TYPE_IMAGE CMD_IMAGE_TRANSFER (n # i # c)"

definition rx_ready :: "app \<Rightarrow> bool" where
  "rx_ready s \<longleftrightarrow> recState s = RECV_STATE_HEADER1 \<and> length (data_buffer (g_frame_data s)) = MAX_DATA_LEN"

text \<open>The state after the bytes of a packet, apart from the kernel.\<close>

definition holds_packet :: "u8 \<Rightarrow> u8 \<Rightarrow> u8 list \<Rightarrow> app \<Rightarrow> app" where
  "holds_packet n i c s = s\<lparr>g_frame_data := stored CMD_TYPE_IMAGE CMD_IMAGE_TRANSFER (n # i # c)
      (crc16 (frame_body CMD_TYPE_IMAGE CMD_IMAGE_TRANSFER (n # i # c))) (g_frame_data s),
    data_index := 0, recState := RECV_STATE_HEADER1\<rparr>"

lemma rx_packet:
  assumes "rx_ready s" "length c \<le> 1022"
  shows "rx_run (packet_frame n i c) s =
    (holds_packet n i c s)\<lparr>kern := snd (LOS_EventWrite gWifiEventGroup WIFI_EVENT_RECV (kern s))\<rparr>"
proof -
  have "length (n # i # c) \<le> MAX_DATA_LEN" using assms(2) by (simp add: MAX_DATA_LEN_def)
  then show ?thesis
    using rx_frame [of s "n # i # c"] assms(1) by (simp add: rx_ready_def packet_frame_def frame_bytes_def holds_packet_def)
qed

lemma rx_ready_holds [simp]:
  "rx_ready s \<Longrightarrow> length c \<le> 1022 \<Longrightarrow> rx_ready (holds_packet n i c s)"
  by (simp add: rx_ready_def holds_packet_def stored_def splice_def MAX_DATA_LEN_def)

lemma ProcessFrame_packet:
  assumes "rx_ready s" "c \<noteq> []" "length c \<le> 1022"
  shows "displays (packet_items n i c) t (ProcessFrame (g_frame_data (holds_packet n i c s)) t)"
proof -
  let ?f = "g_frame_data (holds_packet n i c s)"
  have l: "unat (of_nat (length c + 2) :: u16) = length c + 2"
    using assms(3) by (intro unat_of_nat_small) simp
  have d: "data_len ?f = of_nat (length c + 2)" by (simp add: holds_packet_def stored_def)
  have "unat (of_nat (length c) :: u16) = length c" using assms(3) by (intro unat_of_nat_small) simp
  then have len: "unat (data_len ?f - 2) = length c" by (simp add: d)
  have gt: "data_len ?f > 2" unfolding word_less_nat_alt d l using assms(2) by simp
  have buf: "data_buffer ?f ! 0 = n" "data_buffer ?f ! 1 = i" "take (length c) (drop 2 (data_buffer ?f)) = c"
    "length c \<le> length (drop 2 (data_buffer ?f))"
    using assms(1,3) by (simp_all add: holds_packet_def stored_def splice_def numeral_2_eq_2 rx_ready_def)
  have ty: "cmd_type ?f = CMD_TYPE_IMAGE" "cmd ?f = CMD_IMAGE_TRANSFER" by (simp_all add: holds_packet_def stored_def)
  show ?thesis
    using displays_ProcessImageData [of "data_len ?f - 2" "drop 2 (data_buffer ?f)" n i t] len gt buf ty
    by (simp add: ProcessFrame_def)
qed

text \<open>A pass of the thread after a packet has arrived.\<close>

lemma pass_packet:
  fixes n i
  assumes "rx_ready s" "event_ready k" "c \<noteq> []" "length c \<le> 1022"
  defines "t \<equiv> (holds_packet n i c s)\<lparr>kern := event_set k\<rparr>"
  shows "shown (snd (thread_WIFI_pass t)) = shown s @ packet_items n i c \<and>
    rx_ready (snd (thread_WIFI_pass t)) \<and> kern (snd (thread_WIFI_pass t)) = k \<and> oob (snd (thread_WIFI_pass t)) = oob s"
proof -
  let ?t = "(holds_packet n i c s)\<lparr>kern := k\<rparr>"
  let ?g = "g_frame_data (holds_packet n i c s)"
  have e: "snd (thread_WIFI_pass t) = ProcessFrame ?g ?t"
    by (simp add: thread_WIFI_pass_def t_def event_read_ready [OF assms(2)] wifi_received_def)
  have d: "displays (packet_items n i c) ?t (ProcessFrame ?g ?t)" by (rule ProcessFrame_packet [OF assms(1,3,4)])
  then have q: "quiet (ProcessFrame ?g ?t) = quiet ?t" by (simp add: displays_def)
  have "shown ?t = shown s" by (simp add: shown_def panel_of_def holds_packet_def)
  moreover have "rx_ready ?t" using rx_ready_holds [OF assms(1,4)] by (simp add: rx_ready_def)
  ultimately show ?thesis
    using d quietD [OF q] unfolding e by (simp add: displays_def rx_ready_def holds_packet_def)
qed

definition receive_packet :: "u8 \<Rightarrow> nat \<Rightarrow> u8 list \<Rightarrow> app \<Rightarrow> app" where
  "receive_packet n i c s = snd (thread_WIFI_pass (rx_run (packet_frame n (of_nat i) c) s))"

definition receive_image :: "u8 list list \<Rightarrow> app \<Rightarrow> app" where
  "receive_image cs s = fold (\<lambda>(i, c). receive_packet (of_nat (length cs)) i c) (enumerate 1 cs) s"

lemma receive_packet_correct:
  assumes "rx_ready s" "event_ready (kern s)" "c \<noteq> []" "length c \<le> 1022"
  shows "shown (receive_packet n i c s) = shown s @ packet_items n (of_nat i) c \<and> rx_ready (receive_packet n i c s) \<and>
    kern (receive_packet n i c s) = kern s \<and> oob (receive_packet n i c s) = oob s"
  using pass_packet [OF assms(1,2,3,4), of n "of_nat i"]
  by (simp add: receive_packet_def rx_packet [OF assms(1,4)] event_write_ready [OF assms(2)])

lemma receive_packets:
  assumes "rx_ready s" "event_ready (kern s)" "\<forall>c\<in>set cs. c \<noteq> [] \<and> length c \<le> 1022" "1 < k" "k + length cs = Suc n" "n < 256"
  shows "let s' = fold (\<lambda>(i, c). receive_packet (of_nat n) i c) (enumerate k cs) s in
    shown s' = shown s @ map Dat (concat cs) @ (if cs = [] then [] else refresh_items) \<and> rx_ready s' \<and>
    kern s' = kern s \<and> oob s' = oob s"
  using assms
proof (induction cs arbitrary: k s)
  case (Cons c cs)
  let ?s = "receive_packet (of_nat n) k c s"
  have r: "shown ?s = shown s @ packet_items (of_nat n) (of_nat k) c" "rx_ready ?s" "kern ?s = kern s" "oob ?s = oob s"
    using receive_packet_correct [of s c "of_nat n" k] Cons.prems by simp_all
  have "unat (of_nat k :: u8) = k" "unat (of_nat n :: u8) = n" using Cons.prems(5,6) by (simp_all add: unat_of_nat_small)
  then have "(of_nat k :: u8) \<noteq> 1" "(of_nat k :: u8) = of_nat n \<longleftrightarrow> cs = []"
    using Cons.prems(4,5) by (auto simp: word_unat_eq_iff)
  then show ?case
    using Cons.IH [of ?s "Suc k"] Cons.prems r by (simp add: packet_items_def Let_def)
qed (simp add: Let_def)

text \<open>
  C35: An image that is sent is the image that is displayed.  When an image is sent in 1 to 255
  packets of 1 to 1022 bytes each, and the Wi-Fi thread runs after every packet, the pins of the
  display carry exactly this, read bit by bit: reset and wake-up, the start of the image data, every
  byte of the image in order and unchanged, the refresh, and the commands for deep sleep.  No access
  is outside an array, and receiver and event are ready for the next image.
\<close>

theorem image_transfer:
  assumes "rx_ready s" "event_ready (kern s)" "cs \<noteq> []" "length cs \<le> 255"
    and "\<forall>c\<in>set cs. c \<noteq> [] \<and> length c \<le> 1022"
  shows "shown (receive_image cs s) = shown s @ wake_items @ map Dat (concat cs) @ refresh_items \<and>
    oob (receive_image cs s) = oob s \<and> rx_ready (receive_image cs s) \<and> event_ready (kern (receive_image cs s))"
proof -
  obtain c cs' where cs: "cs = c # cs'" using assms(3) by (cases cs) auto
  let ?n = "of_nat (length cs) :: u8" and ?s = "receive_packet (of_nat (length cs)) 1 c s"
  have r: "shown ?s = shown s @ packet_items ?n 1 c" "rx_ready ?s" "kern ?s = kern s" "oob ?s = oob s"
    using receive_packet_correct [of s c ?n 1] assms by (simp_all add: cs)
  have "unat ?n = length cs" using assms(4) by (intro unat_of_nat_small) simp
  then have "1 = ?n \<longleftrightarrow> cs' = []" by (auto simp: word_unat_eq_iff cs)
  then have p: "packet_items ?n 1 c = wake_items @ map Dat c @ (if cs' = [] then refresh_items else [])"
    by (simp add: packet_items_def)
  show ?thesis
    using receive_packets [of ?s cs' 2 "length cs"] r assms p
    by (simp add: receive_image_def cs Let_def numeral_2_eq_2)
qed

lemma demo_app_ready: "rx_ready demo_app" "event_ready (kern demo_app)"
  by (simp_all add: rx_ready_def event_ready_def demo_app_def demo_kernel_def gWifiEventGroup_def OS_INT_ACTIVE_def)

theorem image_transfer_witness:
  "shown (receive_image [[0x1B, 0xFF], [0x55]] demo_app) =
     wake_items @ [Dat 0x1B, Dat 0xFF, Dat 0x55] @ refresh_items"
proof -
  have "shown demo_app = []" by (simp add: shown_def panel_of_def panel_start_def demo_app_def)
  then show ?thesis
    using image_transfer [OF demo_app_ready, of "[[0x1B, 0xFF], [0x55]]"] by simp
qed

lemma event_read_blocks:
  assumes "event_ready k" "g_losTaskLock k = 0"
  shows "fst (wifi_wait k) = Blocked"
proof -
  have "OsEventReadParamCheck gWifiEventGroup WIFI_EVENT_RECV (LOS_WAITMODE_AND OR LOS_WAITMODE_CLR) k = LOS_OK"
    using assms by (simp add: event_ready_def OsEventReadParamCheck_def gWifiEventGroup_def WIFI_EVENT_RECV_def
        LOS_WAITMODE_OR_def LOS_WAITMODE_AND_def LOS_WAITMODE_CLR_def LOS_ERRTYPE_ERROR_def tst_def)
  moreover have "fst (poll_cb gWifiEventGroup WIFI_EVENT_RECV (LOS_WAITMODE_AND OR LOS_WAITMODE_CLR) k) = 0"
    "g_losTaskLock (snd (poll_cb gWifiEventGroup WIFI_EVENT_RECV (LOS_WAITMODE_AND OR LOS_WAITMODE_CLR) k)) = 0"
    using assms by (simp_all add: poll_cb_def LOS_EventPoll_def upd_event_def event_ready_def WIFI_EVENT_RECV_def
        LOS_WAITMODE_OR_def LOS_WAITMODE_AND_def tst_def)
  ultimately show ?thesis
    using assms by (simp add: LOS_EventRead_def event_ready_def split_beta Let_def)
qed

text \<open>
  A packet is lost when the thread is late.  The receiver has one frame buffer and one event
  flag: when a second packet arrives before the Wi-Fi thread has run, the thread shows the second
  packet only and then waits for the next one, and the data of the first packet never reaches the
  display.
\<close>

theorem late_thread_loses_packet:
  fixes n i c j d
  assumes "rx_ready s" "event_ready (kern s)" "g_losTaskLock (kern s) = 0"
    and "length c \<le> 1022" "d \<noteq> []" "length d \<le> 1022"
  defines "s' \<equiv> snd (thread_WIFI_pass (rx_run (packet_frame n i c @ packet_frame n j d) s))"
  shows "shown s' = shown s @ packet_items n j d \<and> fst (thread_WIFI_pass s') \<and> shown (snd (thread_WIFI_pass s')) = shown s'"
proof -
  let ?s1 = "(holds_packet n i c s)\<lparr>kern := event_set (kern s)\<rparr>"
  have s1: "rx_run (packet_frame n i c) s = ?s1"
    by (simp add: rx_packet [OF assms(1,4)] event_write_ready [OF assms(2)])
  have r1: "rx_ready ?s1" using rx_ready_holds [OF assms(1,4)] by (simp add: rx_ready_def)
  have s2: "rx_run (packet_frame n j d) ?s1 = (holds_packet n j d ?s1)\<lparr>kern := event_set (kern s)\<rparr>"
    by (simp add: rx_packet [OF r1 assms(6)] event_write_ready [OF assms(2)])
  have "shown s' = shown s @ packet_items n j d" "kern s' = kern s"
    using pass_packet [OF r1 assms(2,5,6), of n j]
    by (simp_all add: s'_def s1 s2) (simp add: shown_def panel_of_def holds_packet_def)
  moreover obtain k' where "wifi_wait (kern s) = (Blocked, k')"
    using event_read_blocks [OF assms(2,3)] by (metis prod.collapse)
  ultimately show ?thesis by (simp add: thread_WIFI_pass_def shown_def panel_of_def)
qed

theorem late_thread_loses_packet_witness:
  "shown (snd (thread_WIFI_pass (rx_run (packet_frame 2 1 [7] @ packet_frame 2 2 [9]) demo_app))) =
     [Dat 9] @ refresh_items"
proof -
  have "shown demo_app = []" "g_losTaskLock (kern demo_app) = 0"
    by (simp_all add: shown_def panel_of_def panel_start_def demo_app_def demo_kernel_def)
  then show ?thesis
    using late_thread_loses_packet [OF demo_app_ready, of "[7]" "[9]" 2 1 2] by (simp add: packet_items_def)
qed

end
