(* ===== verification/Gui_Paint.thy ===== *)
theory Gui_Paint
  imports App_State
begin

text \<open>
  \<^verbatim>\<open>Device/GUI_Paint.c\<close>: drawing into an image buffer.  The global \<^verbatim>\<open>Paint\<close> is a record
  that every function takes and returns, with the bytes of the image and a flag \<open>img_oob\<close> for an
  access outside them or outside a font.  The loops of the line and the circle have no bound in
  the code: they are partial functions, and not returning is \<open>None\<close>.  Decimal fractions
  (\<^verbatim>\<open>Paint_DrawNumDecimals\<close>, floating point) are not modelled.
\<close>

section \<open>The image\<close>

record PAINT =
  Image :: "u8 list"
  Width :: u16
  Height :: u16
  WidthMemory :: u16
  HeightMemory :: u16
  Color :: u16
  Rotate :: u16
  Mirror :: u16
  WidthByte :: u16
  HeightByte :: u16
  Scale :: u16
  img_oob :: bool

abbreviation (input) ROTATE_0 :: u16 where "ROTATE_0 \<equiv> 0"
abbreviation (input) ROTATE_90 :: u16 where "ROTATE_90 \<equiv> 90"
abbreviation (input) ROTATE_180 :: u16 where "ROTATE_180 \<equiv> 180"
abbreviation (input) ROTATE_270 :: u16 where "ROTATE_270 \<equiv> 270"

abbreviation (input) MIRROR_NONE :: u16 where "MIRROR_NONE \<equiv> 0"
abbreviation (input) MIRROR_HORIZONTAL :: u16 where "MIRROR_HORIZONTAL \<equiv> 1"
abbreviation (input) MIRROR_VERTICAL :: u16 where "MIRROR_VERTICAL \<equiv> 2"
abbreviation (input) MIRROR_ORIGIN :: u16 where "MIRROR_ORIGIN \<equiv> 3"

abbreviation (input) WHITE :: u16 where "WHITE \<equiv> 1"
abbreviation (input) BLACK :: u16 where "BLACK \<equiv> 0"
abbreviation (input) YELLOW :: u16 where "YELLOW \<equiv> 2"
abbreviation (input) RED :: u16 where "RED \<equiv> 3"

definition Paint_NewImage :: "u8 list \<Rightarrow> u16 \<Rightarrow> u16 \<Rightarrow> u16 \<Rightarrow> u16 \<Rightarrow> PAINT \<Rightarrow> PAINT" where
  "Paint_NewImage img w h rot color p =
     (let p1 = p\<lparr>Image := img, WidthMemory := w, HeightMemory := h, Color := color, Scale := 2,
                 WidthByte := if w mod 8 = 0 then w div 8 else w div 8 + 1, HeightByte := h,
                 Rotate := rot, Mirror := MIRROR_NONE\<rparr>
      in if rot = ROTATE_0 \<or> rot = ROTATE_180 then p1\<lparr>Width := w, Height := h\<rparr>
         else p1\<lparr>Width := h, Height := w\<rparr>)"

text \<open>The buffer is shared: selecting the buffer that is drawn into changes nothing.\<close>

definition Paint_SelectImage :: "u8 list \<Rightarrow> PAINT \<Rightarrow> PAINT" where
  "Paint_SelectImage img p = p\<lparr>Image := img\<rparr>"

definition Paint_SetRotate :: "u16 \<Rightarrow> PAINT \<Rightarrow> PAINT" where
  "Paint_SetRotate rot p =
     (if rot = ROTATE_0 \<or> rot = ROTATE_90 \<or> rot = ROTATE_180 \<or> rot = ROTATE_270 then p\<lparr>Rotate := rot\<rparr> else p)"

definition Paint_SetScale :: "u8 \<Rightarrow> PAINT \<Rightarrow> PAINT" where
  "Paint_SetScale scale p =
     (let w = WidthMemory p in
      if scale = 2 then p\<lparr>Scale := ucast scale, WidthByte := if w mod 8 = 0 then w div 8 else w div 8 + 1\<rparr>
      else if scale = 4 then p\<lparr>Scale := ucast scale, WidthByte := if w mod 4 = 0 then w div 4 else w div 4 + 1\<rparr>
      else if scale = 6 \<or> scale = 7
      then p\<lparr>Scale := ucast scale, WidthByte := if w mod 2 = 0 then w div 2 else w div 2 + 1\<rparr>
      else p)"

definition Paint_SetMirroring :: "u8 \<Rightarrow> PAINT \<Rightarrow> PAINT" where
  "Paint_SetMirroring mirror p =
     (if mirror = 0 \<or> mirror = 1 \<or> mirror = 2 \<or> mirror = 3 then p\<lparr>Mirror := ucast mirror\<rparr> else p)"

section \<open>Pixels\<close>

text \<open>The two \<^verbatim>\<open>switch\<close> statements; \<open>None\<close> is their \<^verbatim>\<open>default: return\<close>.\<close>

definition rotate_point :: "PAINT \<Rightarrow> u16 \<times> u16 \<Rightarrow> (u16 \<times> u16) option" where
  "rotate_point p = (\<lambda>(x, y).
     if Rotate p = 0 then Some (x, y)
     else if Rotate p = 90 then Some (WidthMemory p - y - 1, x)
     else if Rotate p = 180 then Some (WidthMemory p - x - 1, HeightMemory p - y - 1)
     else if Rotate p = 270 then Some (y, HeightMemory p - x - 1)
     else None)"

definition mirror_point :: "PAINT \<Rightarrow> u16 \<times> u16 \<Rightarrow> (u16 \<times> u16) option" where
  "mirror_point p = (\<lambda>(x, y).
     if Mirror p = MIRROR_NONE then Some (x, y)
     else if Mirror p = MIRROR_HORIZONTAL then Some (WidthMemory p - x - 1, y)
     else if Mirror p = MIRROR_VERTICAL then Some (x, HeightMemory p - y - 1)
     else if Mirror p = MIRROR_ORIGIN then Some (WidthMemory p - x - 1, HeightMemory p - y - 1)
     else None)"

text \<open>Read, change and write back the byte at an address.\<close>

definition upd_byte :: "u32 \<Rightarrow> (u8 \<Rightarrow> u8) \<Rightarrow> PAINT \<Rightarrow> PAINT" where
  "upd_byte Addr f p =
     (let (bad, Rdata) = get_at (unat Addr) 0 (Image p); (bad', img) = put_at (unat Addr) (f Rdata) (Image p)
      in p\<lparr>Image := img, img_oob := img_oob p \<or> bad \<or> bad'\<rparr>)"

definition store_pixel :: "u16 \<Rightarrow> u16 \<Rightarrow> u16 \<Rightarrow> PAINT \<Rightarrow> PAINT" where
  "store_pixel X Y color p =
     (let row = ucast Y * ucast (WidthByte p) :: u32 in
      if Scale p = 2 then
        let m0 = drop_bit (unat (X mod 8)) 0x80 :: u8
        in upd_byte (ucast (X div 8) + row) (\<lambda>r. if color = BLACK then r AND NOT m0 else r OR m0) p
      else if Scale p = 4 then
        let c = color mod 4; k = unat ((X mod 4) * 2)
        in upd_byte (ucast (X div 4) + row)
             (\<lambda>r. (r AND NOT (drop_bit k 0xC0)) OR ucast (drop_bit k (push_bit 6 (ucast c :: u32)))) p
      else if Scale p = 6 \<or> Scale p = 7 then
        let k = unat ((X mod 2) * 4)
        in upd_byte (ucast (X div 2) + row)
             (\<lambda>r. (r AND NOT (drop_bit k 0xF0)) OR ucast (drop_bit k (push_bit 4 (ucast color :: u32)))) p
      else p)"

definition Paint_SetPixel :: "u16 \<Rightarrow> u16 \<Rightarrow> u16 \<Rightarrow> PAINT \<Rightarrow> PAINT" where
  "Paint_SetPixel Xpoint Ypoint color p =
     (if Xpoint > Width p \<or> Ypoint > Height p then p
      else case rotate_point p (Xpoint, Ypoint) of None \<Rightarrow> p
      | Some pt \<Rightarrow>
          (case mirror_point p pt of None \<Rightarrow> p
           | Some (X, Y) \<Rightarrow>
               if X > WidthMemory p \<or> Y > HeightMemory p then p else store_pixel X Y color p))"

text \<open>Two nested loops over rows and bytes.\<close>

definition for_bytes :: "(u32 \<Rightarrow> PAINT \<Rightarrow> PAINT) \<Rightarrow> PAINT \<Rightarrow> PAINT" where
  "for_bytes f p =
     fold (\<lambda>y. fold (\<lambda>x. f (of_nat x + of_nat y * ucast (WidthByte p))) [0..<unat (WidthByte p)])
       [0..<unat (HeightByte p)] p"

definition Paint_Clear :: "u16 \<Rightarrow> PAINT \<Rightarrow> PAINT" where
  "Paint_Clear color p =
     (let c = ucast color :: u32 in
      if Scale p = 2 then for_bytes (\<lambda>a. upd_byte a (\<lambda>_. ucast color)) p
      else if Scale p = 4
      then for_bytes (\<lambda>a. upd_byte a (\<lambda>_. ucast (push_bit 6 c OR push_bit 4 c OR push_bit 2 c OR c))) p
      else if Scale p = 6 \<or> Scale p = 7 then for_bytes (\<lambda>a. upd_byte a (\<lambda>_. ucast (push_bit 4 c OR c))) p
      else p)"

definition Paint_ClearWindows :: "u16 \<Rightarrow> u16 \<Rightarrow> u16 \<Rightarrow> u16 \<Rightarrow> u16 \<Rightarrow> PAINT \<Rightarrow> PAINT" where
  "Paint_ClearWindows Xstart Ystart Xend Yend color p =
     fold (\<lambda>y. fold (\<lambda>x. Paint_SetPixel (of_nat x) (of_nat y) color) [unat Xstart..<unat Xend])
       [unat Ystart..<unat Yend] p"

section \<open>Points\<close>

text \<open>\<^verbatim>\<open>DOT_PIXEL\<close> is an unsigned type, so the differences are unsigned and the test for a
  negative coordinate never holds.\<close>

fun point_column :: "u16 \<Rightarrow> u16 \<Rightarrow> u16 \<Rightarrow> u32 \<Rightarrow> nat \<Rightarrow> nat list \<Rightarrow> PAINT \<Rightarrow> PAINT" where
  "point_column Xpoint Ypoint color Dot_Pixel x [] p = p"
| "point_column Xpoint Ypoint color Dot_Pixel x (y # ys) p =
     (let a = ucast Xpoint + of_nat x - Dot_Pixel; b = ucast Ypoint + of_nat y - Dot_Pixel in
      if a < 0 \<or> b < 0 then p
      else point_column Xpoint Ypoint color Dot_Pixel x ys (Paint_SetPixel (ucast a) (ucast b) color p))"

abbreviation (input) DOT_FILL_AROUND :: u32 where "DOT_FILL_AROUND \<equiv> 1"
abbreviation (input) DOT_PIXEL_1X1 :: u32 where "DOT_PIXEL_1X1 \<equiv> 1"
abbreviation (input) DOT_PIXEL_2X2 :: u32 where "DOT_PIXEL_2X2 \<equiv> 2"

definition Paint_DrawPoint :: "u16 \<Rightarrow> u16 \<Rightarrow> u16 \<Rightarrow> u32 \<Rightarrow> u32 \<Rightarrow> PAINT \<Rightarrow> PAINT" where
  "Paint_DrawPoint Xpoint Ypoint color Dot_Pixel Dot_Style p =
     (if Xpoint > Width p \<or> Ypoint > Height p then p
      else if Dot_Style = DOT_FILL_AROUND then
        fold (\<lambda>x. point_column Xpoint Ypoint color Dot_Pixel x [0..<unat (2 * Dot_Pixel - 1)])
          [0..<unat (2 * Dot_Pixel - 1)] p
      else
        fold (\<lambda>x. fold (\<lambda>y. Paint_SetPixel (Xpoint + of_nat x - 1) (Ypoint + of_nat y - 1) color) [0..<unat Dot_Pixel])
          [0..<unat Dot_Pixel] p)"

section \<open>Lines\<close>

abbreviation (input) LINE_STYLE_SOLID :: u32 where "LINE_STYLE_SOLID \<equiv> 0"
abbreviation (input) LINE_STYLE_DOTTED :: u32 where "LINE_STYLE_DOTTED \<equiv> 1"

text \<open>The error term is an \<^verbatim>\<open>int\<close>; its size is at most twice the sum of the extents of the
  line, far below the limit of 32 bits, so it is an integer here.  \<open>line_step\<close> is the rest of
  the loop's body after the point: \<open>None\<close> is \<^verbatim>\<open>break\<close>.\<close>

definition line_step ::
  "u16 \<Rightarrow> u16 \<Rightarrow> int \<Rightarrow> int \<Rightarrow> u16 \<Rightarrow> u16 \<Rightarrow> u16 \<times> u16 \<times> int \<Rightarrow> (u16 \<times> u16 \<times> int) option" where
  "line_step Xend Yend dx dy XAddway YAddway = (\<lambda>(x, y, Esp).
     let second = (\<lambda>(x, y, Esp).
       if 2 * Esp \<le> dx then if y = Yend then None else Some (x, y + YAddway, Esp + dx) else Some (x, y, Esp))
     in if 2 * Esp \<ge> dy then if x = Xend then None else second (x + XAddway, y, Esp + dy)
        else second (x, y, Esp))"

partial_function (option) line_loop ::
  "(u16 \<times> u16 \<times> int \<Rightarrow> (u16 \<times> u16 \<times> int) option) \<Rightarrow> u16 \<Rightarrow> u32 \<Rightarrow> u32 \<Rightarrow> u8 \<Rightarrow> u16 \<times> u16 \<times> int \<Rightarrow> PAINT \<Rightarrow> PAINT option"
where
  "line_loop nxt color Line_width Line_Style Dotted_Len pos p =
     (let n = Dotted_Len + 1; dot = (Line_Style = LINE_STYLE_DOTTED \<and> n mod 3 = 0);
          p1 = Paint_DrawPoint (fst pos) (fst (snd pos)) (if dot then WHITE else color) Line_width DOT_FILL_AROUND p
      in case nxt pos of
           None \<Rightarrow> Some p1
         | Some pos' \<Rightarrow> line_loop nxt color Line_width Line_Style (if dot then 0 else n) pos' p1)"

definition Paint_DrawLine :: "u16 \<Rightarrow> u16 \<Rightarrow> u16 \<Rightarrow> u16 \<Rightarrow> u16 \<Rightarrow> u32 \<Rightarrow> u32 \<Rightarrow> PAINT \<Rightarrow> PAINT option" where
  "Paint_DrawLine Xstart Ystart Xend Yend color Line_width Line_Style p =
     (if Xstart > Width p \<or> Ystart > Height p \<or> Xend > Width p \<or> Yend > Height p then Some p
      else
        let ux = uint Xend - uint Xstart; uy = uint Yend - uint Ystart;
            dx = (if ux \<ge> 0 then ux else - ux); dy = (if uy \<le> 0 then uy else - uy);
            XAddway = (if Xstart < Xend then 1 else - 1); YAddway = (if Ystart < Yend then 1 else - 1)
        in line_loop (line_step Xend Yend dx dy XAddway YAddway) color Line_width Line_Style 0
             (Xstart, Ystart, dx + dy) p)"

text \<open>A loop over drawings that may not return.\<close>

fun draw_all :: "(PAINT \<Rightarrow> PAINT option) list \<Rightarrow> PAINT \<Rightarrow> PAINT option" where
  "draw_all [] p = Some p"
| "draw_all (f # fs) p = (case f p of None \<Rightarrow> None | Some p1 \<Rightarrow> draw_all fs p1)"

definition Paint_DrawRectangle :: "u16 \<Rightarrow> u16 \<Rightarrow> u16 \<Rightarrow> u16 \<Rightarrow> u16 \<Rightarrow> u32 \<Rightarrow> bool \<Rightarrow> PAINT \<Rightarrow> PAINT option" where
  "Paint_DrawRectangle Xstart Ystart Xend Yend color Line_width Draw_Fill p =
     (if Xstart > Width p \<or> Ystart > Height p \<or> Xend > Width p \<or> Yend > Height p then Some p
      else if Draw_Fill then
        draw_all (map (\<lambda>y. Paint_DrawLine Xstart (of_nat y) Xend (of_nat y) color Line_width LINE_STYLE_SOLID)
                    [unat Ystart..<unat Yend]) p
      else
        draw_all
          [Paint_DrawLine Xstart Ystart Xend Ystart color Line_width LINE_STYLE_SOLID,
           Paint_DrawLine Xstart Ystart Xstart Yend color Line_width LINE_STYLE_SOLID,
           Paint_DrawLine Xend Yend Xend Ystart color Line_width LINE_STYLE_SOLID,
           Paint_DrawLine Xend Yend Xstart Yend color Line_width LINE_STYLE_SOLID] p)"

section \<open>Circles\<close>

text \<open>The eight points of an octant, and the two loops; the coordinates are \<^verbatim>\<open>int16_t\<close>.\<close>

definition circle_points :: "u16 \<Rightarrow> u16 \<Rightarrow> u16 \<Rightarrow> u32 \<Rightarrow> u16 \<Rightarrow> u16 \<Rightarrow> PAINT \<Rightarrow> PAINT" where
  "circle_points xc yc color w a b p =
     fold (\<lambda>(x, y). Paint_DrawPoint x y color w DOT_FILL_AROUND)
       [(xc + a, yc + b), (xc - a, yc + b), (xc - b, yc + a), (xc - b, yc - a),
        (xc - a, yc - b), (xc + a, yc - b), (xc + b, yc - a), (xc + b, yc + a)] p"

partial_function (option) circle_fill :: "u16 \<Rightarrow> u16 \<Rightarrow> u16 \<Rightarrow> i16 \<Rightarrow> i16 \<Rightarrow> i16 \<Rightarrow> PAINT \<Rightarrow> PAINT option" where
  "circle_fill xc yc color XCurrent YCurrent sCountY p =
     (if sint sCountY \<le> sint YCurrent
      then circle_fill xc yc color XCurrent YCurrent (sCountY + 1)
             (circle_points xc yc color DOT_PIXEL_1X1 XCurrent sCountY p)
      else Some p)"

partial_function (option) circle_loop ::
  "u16 \<Rightarrow> u16 \<Rightarrow> u16 \<Rightarrow> u32 \<Rightarrow> bool \<Rightarrow> i16 \<Rightarrow> i16 \<Rightarrow> i16 \<Rightarrow> PAINT \<Rightarrow> PAINT option" where
  "circle_loop xc yc color Line_width Draw_Fill XCurrent YCurrent Esp p =
     (if sint XCurrent \<le> sint YCurrent then
        case (if Draw_Fill then circle_fill xc yc color XCurrent YCurrent XCurrent p
              else Some (circle_points xc yc color Line_width XCurrent YCurrent p)) of
          None \<Rightarrow> None
        | Some p1 \<Rightarrow>
            if sint Esp < 0
            then circle_loop xc yc color Line_width Draw_Fill (XCurrent + 1) YCurrent (Esp + 4 * XCurrent + 6) p1
            else circle_loop xc yc color Line_width Draw_Fill (XCurrent + 1) (YCurrent - 1)
                   (Esp + 10 + 4 * (XCurrent - YCurrent)) p1
      else Some p)"

definition Paint_DrawCircle :: "u16 \<Rightarrow> u16 \<Rightarrow> u16 \<Rightarrow> u16 \<Rightarrow> u32 \<Rightarrow> bool \<Rightarrow> PAINT \<Rightarrow> PAINT option" where
  "Paint_DrawCircle X_Center Y_Center Radius color Line_width Draw_Fill p =
     (if X_Center > Width p \<or> Y_Center \<ge> Height p then Some p
      else circle_loop X_Center Y_Center color Line_width Draw_Fill 0 (ucast Radius) (ucast (3 - push_bit 1 Radius)) p)"

end
