(* ===== verification/Gui_Text.thy ===== *)
theory Gui_Text
  imports Gui_Paint
begin

text \<open>
  The texts, numbers and bitmaps of \<^verbatim>\<open>Device/GUI_Paint.c\<close>.  The fonts of \<^verbatim>\<open>Fonts/\<close> are
  data: a font is an argument, with its table as a list of bytes or of glyphs.  A read outside a
  table, a bitmap or a text without terminator sets \<open>img_oob\<close>.
\<close>

record sFONT =
  sf_table :: "u8 list"
  sf_Width :: u16
  sf_Height :: u16

record CH_CN =
  cn_index :: "u8 list"
  cn_matrix :: "u8 list"

record cFONT =
  cf_table :: "CH_CN list"
  cf_size :: u16
  cf_ASCII_Width :: u16
  cf_Width :: u16
  cf_Height :: u16

abbreviation (input) FONT_BACKGROUND :: u16 where "FONT_BACKGROUND \<equiv> WHITE"

section \<open>Glyphs\<close>

text \<open>The nested loops over the pixels of a glyph, which the code has for each kind of text:
  \<open>ptr\<close> is the byte that is read, \<open>x\<close> and \<open>y\<close> the corner.\<close>

fun glyph_row :: "u8 list \<Rightarrow> u16 \<Rightarrow> u16 \<Rightarrow> u16 \<Rightarrow> u16 \<Rightarrow> nat list \<Rightarrow> nat \<Rightarrow> PAINT \<Rightarrow> nat \<times> PAINT" where
  "glyph_row tbl x y fg bg [] ptr p = (ptr, p)"
| "glyph_row tbl x y fg bg (i # is) ptr p =
     (let (bad, b) = get_at ptr 0 tbl;
          p1 = p\<lparr>img_oob := img_oob p \<or> bad\<rparr>;
          p2 = (if b AND drop_bit (i mod 8) 0x80 \<noteq> 0 then Paint_SetPixel (x + of_nat i) y fg p1
                else if FONT_BACKGROUND = bg then p1
                else Paint_SetPixel (x + of_nat i) y bg p1)
      in glyph_row tbl x y fg bg is (if i mod 8 = 7 then ptr + 1 else ptr) p2)"

fun glyph_rows :: "u8 list \<Rightarrow> u16 \<Rightarrow> u16 \<Rightarrow> u16 \<Rightarrow> u16 \<Rightarrow> u16 \<Rightarrow> nat list \<Rightarrow> nat \<Rightarrow> PAINT \<Rightarrow> PAINT" where
  "glyph_rows tbl w x y fg bg [] ptr p = p"
| "glyph_rows tbl w x y fg bg (j # js) ptr p =
     (let (ptr1, p1) = glyph_row tbl x (y + of_nat j) fg bg [0..<unat w] ptr p
      in glyph_rows tbl w x y fg bg js (if w mod 8 \<noteq> 0 then ptr1 + 1 else ptr1) p1)"

definition Paint_DrawChar :: "u16 \<Rightarrow> u16 \<Rightarrow> u8 \<Rightarrow> sFONT \<Rightarrow> u16 \<Rightarrow> u16 \<Rightarrow> PAINT \<Rightarrow> PAINT" where
  "Paint_DrawChar Xpoint Ypoint Acsii_Char Font fg bg p =
     (if Xpoint > Width p \<or> Ypoint > Height p then p
      else
        let Char_Offset = (ucast Acsii_Char - 32) * ucast (sf_Height Font) *
              (ucast (sf_Width Font) div 8 + (if sf_Width Font mod 8 \<noteq> 0 then 1 else 0)) :: u32
        in glyph_rows (sf_table Font) (sf_Width Font) Xpoint Ypoint fg bg [0..<unat (sf_Height Font)] (unat Char_Offset) p)"

section \<open>Texts\<close>

fun string_EN :: "u8 list \<Rightarrow> u16 \<Rightarrow> u16 \<Rightarrow> sFONT \<Rightarrow> u16 \<Rightarrow> u16 \<Rightarrow> u16 \<Rightarrow> u16 \<Rightarrow> PAINT \<Rightarrow> PAINT" where
  "string_EN [] Xstart Ystart Font fg bg x y p = p\<lparr>img_oob := True\<rparr>"
| "string_EN (c # cs) Xstart Ystart Font fg bg x y p =
     (if c = 0 then p
      else
        let full = unat x + unat (sf_Width Font) > unat (Width p);
            x1 = (if full then Xstart else x); y1 = (if full then y + sf_Height Font else y);
            over = unat y1 + unat (sf_Height Font) > unat (Height p);
            x2 = (if over then Xstart else x1); y2 = (if over then Ystart else y1)
        in string_EN cs Xstart Ystart Font fg bg (x2 + sf_Width Font) y2 (Paint_DrawChar x2 y2 c Font bg fg p))"

definition Paint_DrawString_EN :: "u16 \<Rightarrow> u16 \<Rightarrow> u8 list \<Rightarrow> sFONT \<Rightarrow> u16 \<Rightarrow> u16 \<Rightarrow> PAINT \<Rightarrow> PAINT" where
  "Paint_DrawString_EN Xstart Ystart pString Font fg bg p =
     (if Xstart > Width p \<or> Ystart > Height p then p
      else string_EN pString Xstart Ystart Font fg bg Xstart Ystart p)"

text \<open>The glyph found by a linear search of the font; one or three bytes of the text are compared.\<close>

definition find_glyph :: "cFONT \<Rightarrow> u8 list \<Rightarrow> CH_CN option" where
  "find_glyph font key = find (\<lambda>g. take (length key) (cn_index g) = key) (take (unat (cf_size font)) (cf_table font))"

definition draw_CN :: "cFONT \<Rightarrow> u32 \<Rightarrow> u32 \<Rightarrow> u16 \<Rightarrow> u16 \<Rightarrow> CH_CN option \<Rightarrow> PAINT \<Rightarrow> PAINT" where
  "draw_CN font x y fg bg g p =
     (case g of None \<Rightarrow> p
      | Some g \<Rightarrow> glyph_rows (cn_matrix g) (cf_Width font) (ucast x) (ucast y) fg bg [0..<unat (cf_Height font)] 0 p)"

fun string_CN :: "u8 list \<Rightarrow> cFONT \<Rightarrow> u16 \<Rightarrow> u16 \<Rightarrow> u32 \<Rightarrow> u32 \<Rightarrow> PAINT \<Rightarrow> PAINT" where
  "string_CN [] font fg bg x y p = p\<lparr>img_oob := True\<rparr>"
| "string_CN (c # cs) font fg bg x y p =
     (if c = 0 then p
      else if c \<le> 0x7F
      then string_CN cs font fg bg (x + ucast (cf_ASCII_Width font)) y (draw_CN font x y fg bg (find_glyph font [c]) p)
      else string_CN (drop 2 cs) font fg bg (x + ucast (cf_Width font)) y
             (draw_CN font x y fg bg (find_glyph font (take 3 (c # cs))) p))"

definition Paint_DrawString_CN :: "u16 \<Rightarrow> u16 \<Rightarrow> u8 list \<Rightarrow> cFONT \<Rightarrow> u16 \<Rightarrow> u16 \<Rightarrow> PAINT \<Rightarrow> PAINT" where
  "Paint_DrawString_CN Xstart Ystart pString font fg bg p =
     string_CN pString font fg bg (ucast Xstart) (ucast Ystart) p"

section \<open>Numbers and times\<close>

text \<open>Division by ten as C has it, towards zero; the digits, least significant first.\<close>

definition c_div10 :: "int \<Rightarrow> int" where
  "c_div10 n = sgn n * (\<bar>n\<bar> div 10)"

function number_digits :: "int \<Rightarrow> u8 list" where
  "number_digits n = of_int (n - 10 * c_div10 n + 48) # (if c_div10 n = 0 then [] else number_digits (c_div10 n))"
  by pat_completeness auto
termination
  by (relation "measure (\<lambda>n. nat \<bar>n\<bar>)") (auto simp: c_div10_def abs_mult sgn_if)

declare number_digits.simps [simp del]

definition Paint_DrawNum :: "u16 \<Rightarrow> u16 \<Rightarrow> i32 \<Rightarrow> sFONT \<Rightarrow> u16 \<Rightarrow> u16 \<Rightarrow> PAINT \<Rightarrow> PAINT" where
  "Paint_DrawNum Xpoint Ypoint Nummber Font fg bg p =
     (if Xpoint > Width p \<or> Ypoint > Height p then p
      else Paint_DrawString_EN Xpoint Ypoint (rev (number_digits (sint Nummber)) @ [0]) Font bg fg p)"

record PAINT_TIME =
  Hour :: u8
  Min :: u8
  Sec :: u8

definition time_digit :: "u16 \<Rightarrow> u16 \<Rightarrow> nat \<Rightarrow> sFONT \<Rightarrow> u16 \<Rightarrow> u16 \<Rightarrow> PAINT \<Rightarrow> PAINT" where
  "time_digit x y i Font fg bg p =
     (let (bad, c) = get_at i 0 [48, 49, 50, 51, 52, 53, 54, 55, 56, 57]
      in Paint_DrawChar x y c Font fg bg (p\<lparr>img_oob := img_oob p \<or> bad\<rparr>))"

definition Paint_DrawTime :: "u16 \<Rightarrow> u16 \<Rightarrow> PAINT_TIME \<Rightarrow> sFONT \<Rightarrow> u16 \<Rightarrow> u16 \<Rightarrow> PAINT \<Rightarrow> PAINT" where
  "Paint_DrawTime Xstart Ystart t Font fg bg p =
     (let Dx = sf_Width Font;
          p1 = time_digit Xstart Ystart (unat (Hour t) div 10) Font bg fg p;
          p2 = time_digit (Xstart + Dx) Ystart (unat (Hour t) mod 10) Font bg fg p1;
          p3 = Paint_DrawChar (Xstart + Dx + Dx div 4 + Dx div 2) Ystart 58 Font bg fg p2;
          p4 = time_digit (Xstart + Dx * 2 + Dx div 2) Ystart (unat (Min t) div 10) Font bg fg p3;
          p5 = time_digit (Xstart + Dx * 3 + Dx div 2) Ystart (unat (Min t) mod 10) Font bg fg p4;
          p6 = Paint_DrawChar (Xstart + Dx * 4 + Dx div 2 - Dx div 4) Ystart 58 Font bg fg p5;
          p7 = time_digit (Xstart + Dx * 5) Ystart (unat (Sec t) div 10) Font bg fg p6
      in time_digit (Xstart + Dx * 6) Ystart (unat (Sec t) mod 10) Font bg fg p7)"

section \<open>Bitmaps\<close>

definition copy_byte :: "u8 list \<Rightarrow> u32 \<Rightarrow> u32 \<Rightarrow> PAINT \<Rightarrow> PAINT" where
  "copy_byte src off a p =
     (let (bad, v) = get_at (unat (a + off)) 0 src in upd_byte a (\<lambda>_. v) (p\<lparr>img_oob := img_oob p \<or> bad\<rparr>))"

definition Paint_DrawBitMap :: "u8 list \<Rightarrow> PAINT \<Rightarrow> PAINT" where
  "Paint_DrawBitMap image_buffer p = for_bytes (copy_byte image_buffer 0) p"

definition Paint_DrawBitMap_Block :: "u8 list \<Rightarrow> u8 \<Rightarrow> PAINT \<Rightarrow> PAINT" where
  "Paint_DrawBitMap_Block image_buffer Region p =
     for_bytes (copy_byte image_buffer (ucast (HeightByte p) * ucast (WidthByte p) * (ucast Region - 1))) p"

definition Paint_DrawBitMap_Paste :: "u8 list \<Rightarrow> u16 \<Rightarrow> u16 \<Rightarrow> u16 \<Rightarrow> u16 \<Rightarrow> bool \<Rightarrow> PAINT \<Rightarrow> PAINT" where
  "Paint_DrawBitMap_Paste image_buffer xStart yStart imageWidth imageHeight flipColor p =
     (let w = (if imageWidth mod 8 = 0 then imageWidth div 8 else imageWidth div 8 + 1) in
      fold (\<lambda>y. fold (\<lambda>x p.
          let (bad, srcImage) = get_at (y * unat w + x div 8) 0 image_buffer;
              off = push_bit (x mod 8) srcImage AND 0x80 = 0;
              color = (if flipColor then (if off then 1 else 0) else (if off then 0 else 1))
          in Paint_SetPixel (of_nat x + xStart) (of_nat y + yStart) color (p\<lparr>img_oob := img_oob p \<or> bad\<rparr>))
        [0..<unat imageWidth]) [0..<unat imageHeight] p)"

end
