(* ===== verification/Paint_Spec.thy ===== *)
theory Paint_Spec
  imports Gui_Text
begin

text \<open>
  Drawing: in the four-colour mode that the program uses, for every rotation and mirroring, setting
  a pixel inside the image changes exactly that pixel, whose place in the memory image is given
  independently of the code by quarter turns and reflections (\<open>place\<close>); which coordinates that the guards let
  through leave the buffer; and that lines, rectangles and texts return and stay in the buffer.
\<close>

section \<open>Well-formed images\<close>

definition oriented :: "PAINT \<Rightarrow> bool" where
  "oriented p \<longleftrightarrow> Mirror p \<in> {0, 1, 2, 3} \<and>
     (Rotate p \<in> {0, 180} \<and> Width p = WidthMemory p \<and> Height p = HeightMemory p \<or>
      Rotate p \<in> {90, 270} \<and> Width p = HeightMemory p \<and> Height p = WidthMemory p)"

definition paint_wf :: "PAINT \<Rightarrow> bool" where
  "paint_wf p \<longleftrightarrow> oriented p \<and> Scale p = 4 \<and> unat (WidthByte p) = (unat (WidthMemory p) + 3) div 4 \<and>
     HeightByte p = HeightMemory p \<and> WidthMemory p < 0xFFF0 \<and> HeightMemory p < 0xFFF0 \<and> 0 < WidthMemory p \<and> 0 < HeightMemory p \<and>
     length (Image p) = unat (WidthByte p) * unat (HeightMemory p)"

text \<open>The colour of a pixel, in memory coordinates and in those of the drawing functions.\<close>

definition byte_pixel :: "u8 \<Rightarrow> nat \<Rightarrow> u8" where
  "byte_pixel r i = drop_bit (6 - 2 * i) r AND 3"

definition pixel_at :: "PAINT \<Rightarrow> u16 \<times> u16 \<Rightarrow> u8" where
  "pixel_at p = (\<lambda>(X, Y).
     byte_pixel (Image p ! (unat X div 4 + unat Y * unat (WidthByte p))) (unat X mod 4))"

definition memory_point :: "PAINT \<Rightarrow> u16 \<times> u16 \<Rightarrow> u16 \<times> u16" where
  "memory_point p pt = the (mirror_point p (the (rotate_point p pt)))"

definition pixel :: "PAINT \<Rightarrow> u16 \<Rightarrow> u16 \<Rightarrow> u8" where
  "pixel p x y = pixel_at p (memory_point p (x, y))"

section \<open>Bytes\<close>

lemma bit_C0: "bit (0xC0 :: u8) n \<longleftrightarrow> n = 6 \<or> n = 7"
proof -
  have "(0xC0 :: u8) = push_bit 6 (mask 2)" by (simp add: mask_eq_exp_minus_1)
  then show ?thesis by (simp only: bit_push_bit_iff bit_mask_iff possible_bit_word) auto
qed

lemma bit_3: "bit (3 :: 'a::len word) n \<longleftrightarrow> n < 2 \<and> n < LENGTH('a)"
proof -
  have "(3 :: 'a word) = mask 2" by (simp add: mask_eq_exp_minus_1)
  then show ?thesis by (simp only: bit_mask_iff possible_bit_word) auto
qed

lemma bit_mod_4: "bit ((c :: u16) mod 4) n \<longleftrightarrow> n < 2 \<and> bit c n"
proof -
  have "c mod 4 = take_bit 2 c" by (simp add: take_bit_eq_mod)
  then show ?thesis by (simp add: bit_take_bit_iff)
qed

lemma set_pixel_bits:
  assumes "n < 8"
  shows "bit ((r AND NOT (drop_bit k 0xC0)) OR ucast (drop_bit k (push_bit 6 (ucast ((c :: u16) mod 4) :: u32))) :: u8) n \<longleftrightarrow>
    (if 6 \<le> k + n \<and> k + n < 8 then bit c (k + n - 6) else bit r n)"
proof -
  have c: "bit (drop_bit k (push_bit 6 (ucast (c mod 4) :: u32))) n \<longleftrightarrow> 6 \<le> k + n \<and> k + n < 8 \<and> bit c (k + n - 6)"
    by (simp only: bit_drop_bit_eq o_def bit_push_bit_iff bit_ucast_iff possible_bit_word bit_mod_4) auto
  have d: "bit (drop_bit k (0xC0 :: u8)) n \<longleftrightarrow> k + n = 6 \<or> k + n = 7"
    by (simp only: bit_drop_bit_eq o_def bit_C0)
  show ?thesis
    using assms by (simp only: bit_or_iff bit_and_iff bit_not_iff bit_ucast_iff c d possible_bit_word) auto
qed

lemma byte_pixel_set:
  fixes c :: u16
  assumes "i < 4" "j < 4"
  shows "byte_pixel ((r AND NOT (drop_bit (2 * i) 0xC0)) OR ucast (drop_bit (2 * i) (push_bit 6 (ucast (c mod 4) :: u32)))) j =
    (if j = i then ucast (c mod 4) else byte_pixel r j)"
proof (rule bit_word_eqI)
  fix n
  assume n: "n < LENGTH(8)"
  have bp: "bit (byte_pixel b j) n \<longleftrightarrow> n < 2 \<and> bit b (6 - 2 * j + n)" for b
    using n by (simp only: byte_pixel_def bit_and_iff bit_drop_bit_eq o_def bit_3) auto
  show "bit (byte_pixel ((r AND NOT (drop_bit (2 * i) 0xC0)) OR ucast (drop_bit (2 * i) (push_bit 6 (ucast (c mod 4) :: u32)))) j) n =
      bit (if j = i then ucast (c mod 4) else byte_pixel r j) n"
  proof (cases "n < 2")
    case True
    then have m: "6 - 2 * j + n < 8" by arith
    have "6 \<le> 2 * i + (6 - 2 * j + n) \<and> 2 * i + (6 - 2 * j + n) < 8 \<longleftrightarrow> i = j" using assms True by arith
    moreover have "i = j \<Longrightarrow> 2 * i + (6 - 2 * j + n) - 6 = n" using assms by arith
    ultimately show ?thesis
      unfolding bp set_pixel_bits [OF m] using True n by (auto simp: bit_ucast_iff bit_mod_4 bp)
  next
    case False
    then show ?thesis unfolding bp using n by (auto simp: bit_ucast_iff bit_mod_4 bp)
  qed
qed

section \<open>Addresses\<close>

lemma u16_product: "unat (ucast (a :: u16) * ucast (b :: u16) :: u32) = unat a * unat b"
proof -
  have "unat a < 2 ^ 16" "unat b < 2 ^ 16" using unsigned_less [of a] unsigned_less [of b] by simp_all
  then have "unat a * unat b < 2 ^ 16 * 2 ^ 16" by (intro mult_strict_mono) simp_all
  moreover have "(ucast a * ucast b :: u32) = of_nat (unat a * unat b)" by simp
  ultimately show ?thesis by (simp only: unat_of_nat_small len_num1 len_bit0 numeral_times_numeral mult_1_right
        semiring_norm power_add [symmetric] numeral_plus_numeral)
qed

lemma address_inj:
  assumes "X div 4 + Y * w = X' div 4 + Y' * w" "X mod 4 = X' mod 4" "X div 4 < w" "X' div 4 < (w :: nat)"
  shows "X = X' \<and> Y = Y'"
proof -
  have "(X div 4 + Y * w) div w = (X' div 4 + Y' * w) div w" using assms(1) by simp
  then have Y: "Y = Y'" using assms(3,4) by simp
  then have "X div 4 = X' div 4" using assms(1) by simp
  then show ?thesis using Y assms(2) by (metis div_mult_mod_eq)
qed

lemma paint_wfD:
  assumes "paint_wf p" "X < WidthMemory p" "Y < HeightMemory p"
  shows "unat X div 4 < unat (WidthByte p)" "unat X div 4 + unat Y * unat (WidthByte p) < length (Image p)"
    "unat (ucast (X div 4) + ucast Y * ucast (WidthByte p) :: u32) = unat X div 4 + unat Y * unat (WidthByte p)"
proof -
  have X: "unat X < unat (WidthMemory p)" "unat Y < unat (HeightMemory p)" using assms(2,3) by (simp_all add: word_less_nat_alt)
  have w: "unat (WidthByte p) = (unat (WidthMemory p) + 3) div 4" "length (Image p) = unat (WidthByte p) * unat (HeightMemory p)"
    using assms(1) by (simp_all add: paint_wf_def)
  show a: "unat X div 4 < unat (WidthByte p)" using X(1) w(1) by arith
  have "unat X div 4 + unat Y * unat (WidthByte p) < Suc (unat Y) * unat (WidthByte p)" using a by simp
  also have "\<dots> \<le> unat (HeightMemory p) * unat (WidthByte p)" using X(2) by (intro mult_right_mono) simp_all
  finally show b: "unat X div 4 + unat Y * unat (WidthByte p) < length (Image p)" by (simp add: w(2) mult.commute)
  have h: "unat (HeightMemory p) < 2 ^ 16" "unat (WidthMemory p) < 2 ^ 16"
    using unsigned_less [of "HeightMemory p"] unsigned_less [of "WidthMemory p"] by simp_all
  have "unat (WidthByte p) \<le> 2 ^ 15" using h(2) w(1) by simp
  then have "unat (WidthByte p) * unat (HeightMemory p) \<le> 2 ^ 15 * 2 ^ 16" using h(1) by (intro mult_le_mono) simp_all
  then have small: "unat X div 4 + unat Y * unat (WidthByte p) < 2 ^ 32" using b w(2) by simp
  have "(ucast (X div 4) + ucast Y * ucast (WidthByte p) :: u32) = of_nat (unat X div 4 + unat Y * unat (WidthByte p))"
  proof -
    have u: "(ucast v :: u32) = of_nat (unat v)" for v :: u16 by simp
    have "unat (X div 4) = unat X div 4" by (simp add: unat_div)
    then show ?thesis by (simp only: u of_nat_add of_nat_mult)
  qed
  then show "unat (ucast (X div 4) + ucast Y * ucast (WidthByte p) :: u32) = unat X div 4 + unat Y * unat (WidthByte p)"
    using small by (simp only: unat_of_nat_small len_num1 len_bit0 numeral_times_numeral mult_1_right semiring_norm)
qed

section \<open>Rotation and mirroring\<close>

lemma flip_less: "x < w \<Longrightarrow> w - x - 1 < (w :: u16)"
proof -
  assume x: "x < w"
  have "w - x - 1 = w - (x + 1)" by simp
  moreover have "unat (x + 1) = Suc (unat x)" by (rule u16_incr) (use x in \<open>simp add: word_less_nat_alt\<close>)
  ultimately show ?thesis using x by (simp add: word_less_nat_alt unat_sub word_le_nat_alt)
qed

lemma rotate_within:
  assumes "oriented p" "x < Width p" "y < Height p"
  obtains X Y where "rotate_point p (x, y) = Some (X, Y)" "X < WidthMemory p" "Y < HeightMemory p"
  using assms by (auto simp: oriented_def rotate_point_def flip_less)

lemma mirror_within:
  assumes "oriented p" "X < WidthMemory p" "Y < HeightMemory p"
  obtains X' Y' where "mirror_point p (X, Y) = Some (X', Y')" "X' < WidthMemory p" "Y' < HeightMemory p"
  using assms by (auto simp: oriented_def mirror_point_def flip_less)

lemma rotate_inj: "rotate_point p a = Some r \<Longrightarrow> rotate_point p b = Some r \<Longrightarrow> a = b"
  by (cases a; cases b) (auto simp: rotate_point_def split: if_splits)

lemma mirror_inj: "mirror_point p a = Some r \<Longrightarrow> mirror_point p b = Some r \<Longrightarrow> a = b"
  by (cases a; cases b) (auto simp: mirror_point_def split: if_splits)

lemma memory_within:
  assumes "oriented p" "x < Width p" "y < Height p"
  obtains pt X Y where "rotate_point p (x, y) = Some pt" "mirror_point p pt = Some (X, Y)"
    "X < WidthMemory p" "Y < HeightMemory p" "memory_point p (x, y) = (X, Y)"
proof -
  obtain X Y where r: "rotate_point p (x, y) = Some (X, Y)" "X < WidthMemory p" "Y < HeightMemory p"
    by (rule rotate_within [OF assms])
  obtain X' Y' where "mirror_point p (X, Y) = Some (X', Y')" "X' < WidthMemory p" "Y' < HeightMemory p"
    by (rule mirror_within [OF assms(1) r(2,3)])
  then show thesis using that r(1) by (simp add: memory_point_def)
qed

lemma memory_inj:
  assumes "oriented p" "x < Width p" "y < Height p" "x' < Width p" "y' < Height p"
    and "memory_point p (x, y) = memory_point p (x', y')"
  shows "x = x' \<and> y = y'"
proof -
  obtain pt X Y where a: "rotate_point p (x, y) = Some pt" "mirror_point p pt = Some (X, Y)" "memory_point p (x, y) = (X, Y)"
    by (rule memory_within [OF assms(1-3)])
  obtain pt' X' Y' where b: "rotate_point p (x', y') = Some pt'" "mirror_point p pt' = Some (X', Y')"
    "memory_point p (x', y') = (X', Y')"
    by (rule memory_within [OF assms(1,4,5)])
  have "pt = pt'" using mirror_inj [OF a(2), of pt'] a(3) b(2,3) assms(6) by simp
  then show ?thesis using rotate_inj [OF a(1), of "(x', y')"] b(1) by simp
qed

section \<open>Setting a pixel\<close>

text \<open>Only bytes of the image change.\<close>

definition only_image :: "PAINT \<Rightarrow> PAINT \<Rightarrow> bool" where
  "only_image p p' \<longleftrightarrow> length (Image p') = length (Image p) \<and> p' = p\<lparr>Image := Image p'\<rparr>"

lemma only_image_refl [simp]: "only_image p p"
  by (simp add: only_image_def)

lemma only_image_trans [trans]: "only_image p p' \<Longrightarrow> only_image p' p'' \<Longrightarrow> only_image p p''"
  unfolding only_image_def by (metis PAINT.surjective PAINT.update_convs(1))

lemma only_imageD:
  assumes "only_image p p'"
  shows "Width p' = Width p" "Height p' = Height p" "WidthByte p' = WidthByte p" "HeightByte p' = HeightByte p"
    "WidthMemory p' = WidthMemory p" "HeightMemory p' = HeightMemory p"
    "img_oob p' = img_oob p" "length (Image p') = length (Image p)" "paint_wf p' = paint_wf p"
    "rotate_point p' = rotate_point p" "mirror_point p' = mirror_point p" "memory_point p' = memory_point p"
proof -
  obtain img where "p' = p\<lparr>Image := img\<rparr>" "length img = length (Image p)" using assms by (auto simp: only_image_def)
  then show "Width p' = Width p" "Height p' = Height p" "WidthByte p' = WidthByte p" "HeightByte p' = HeightByte p"
    "WidthMemory p' = WidthMemory p" "HeightMemory p' = HeightMemory p"
    "img_oob p' = img_oob p" "length (Image p') = length (Image p)" "paint_wf p' = paint_wf p"
    "rotate_point p' = rotate_point p" "mirror_point p' = mirror_point p" "memory_point p' = memory_point p"
    by (simp_all add: paint_wf_def oriented_def rotate_point_def mirror_point_def memory_point_def fun_eq_iff)
qed

lemma upd_byte_within:
  assumes "unat a < length (Image p)"
  shows "upd_byte a f p = p\<lparr>Image := (Image p)[unat a := f (Image p ! unat a)]\<rparr>"
  using assms by (simp add: upd_byte_def get_at_def)

lemma store_pixel_within:
  assumes "paint_wf p" "X < WidthMemory p" "Y < HeightMemory p"
  shows "only_image p (store_pixel X Y c p)"
    "X' < WidthMemory p \<Longrightarrow> Y' < HeightMemory p \<Longrightarrow>
     pixel_at (store_pixel X Y c p) (X', Y') = (if (X', Y') = (X, Y) then ucast (c mod 4) else pixel_at p (X', Y'))"
proof -
  let ?a = "unat X div 4 + unat Y * unat (WidthByte p)"
  let ?f = "\<lambda>r :: u8. (r AND NOT (drop_bit (2 * (unat X mod 4)) 0xC0)) OR
      ucast (drop_bit (2 * (unat X mod 4)) (push_bit 6 (ucast (c mod 4) :: u32)))"
  have k: "unat ((X mod 4) * 2) = 2 * (unat X mod 4)"
  proof -
    have m: "unat (X mod 4) = unat X mod 4" by (simp add: unat_mod)
    have "unat X mod 4 < 4" by simp
    then have "unat (X mod 4) * unat (2 :: u16) < 2 ^ 16" unfolding m by simp
    then show ?thesis by (simp add: unat_mult_lem [THEN iffD1] m mult.commute)
  qed
  have s: "store_pixel X Y c p = p\<lparr>Image := (Image p)[?a := ?f (Image p ! ?a)]\<rparr>"
    using assms(1) paint_wfD(2,3) [OF assms]
    by (simp add: store_pixel_def paint_wf_def upd_byte_within k Let_def)
  show "only_image p (store_pixel X Y c p)" by (simp add: s only_image_def)
  assume X': "X' < WidthMemory p" "Y' < HeightMemory p"
  let ?a' = "unat X' div 4 + unat Y' * unat (WidthByte p)"
  show "pixel_at (store_pixel X Y c p) (X', Y') = (if (X', Y') = (X, Y) then ucast (c mod 4) else pixel_at p (X', Y'))"
  proof (cases "?a' = ?a")
    case True
    have e: "unat X' mod 4 = unat X mod 4 \<longleftrightarrow> (X', Y') = (X, Y)"
      using address_inj [OF True _ paint_wfD(1) [OF assms(1) X'] paint_wfD(1) [OF assms]] by (auto intro: unsigned_word_eqI)
    have "pixel_at (store_pixel X Y c p) (X', Y') = byte_pixel (?f (Image p ! ?a)) (unat X' mod 4)"
      using True paint_wfD(2) [OF assms] by (simp add: s pixel_at_def)
    also have "\<dots> = (if unat X' mod 4 = unat X mod 4 then ucast (c mod 4) else byte_pixel (Image p ! ?a) (unat X' mod 4))"
      by (rule byte_pixel_set) simp_all
    finally show ?thesis using True by (simp only: e) (simp add: pixel_at_def)
  next
    case False
    then show ?thesis by (auto simp: s pixel_at_def)
  qed
qed

lemma SetPixel_within:
  assumes "paint_wf p" "x < Width p" "y < Height p"
  shows "only_image p (Paint_SetPixel x y c p)"
    "x' < Width p \<Longrightarrow> y' < Height p \<Longrightarrow>
     pixel (Paint_SetPixel x y c p) x' y' = (if x' = x \<and> y' = y then ucast (c mod 4) else pixel p x' y')"
proof -
  have o: "oriented p" using assms(1) by (simp add: paint_wf_def)
  obtain pt X Y where m: "rotate_point p (x, y) = Some pt" "mirror_point p pt = Some (X, Y)"
    "X < WidthMemory p" "Y < HeightMemory p" "memory_point p (x, y) = (X, Y)"
    by (rule memory_within [OF o assms(2,3)])
  have s: "Paint_SetPixel x y c p = store_pixel X Y c p"
    using assms(2,3) m by (simp add: Paint_SetPixel_def)
  show i: "only_image p (Paint_SetPixel x y c p)" unfolding s by (rule store_pixel_within [OF assms(1) m(3,4)])
  assume x': "x' < Width p" "y' < Height p"
  obtain X' Y' where m': "X' < WidthMemory p" "Y' < HeightMemory p" "memory_point p (x', y') = (X', Y')"
    by (rule memory_within [OF o x'])
  have "(X', Y') = (X, Y) \<longleftrightarrow> x' = x \<and> y' = y"
    using memory_inj [OF o x' assms(2,3)] m(5) m'(3) by auto
  then show "pixel (Paint_SetPixel x y c p) x' y' = (if x' = x \<and> y' = y then ucast (c mod 4) else pixel p x' y')"
    using store_pixel_within(2) [OF assms(1) m(3,4) m'(1,2), of c] only_imageD(12) [OF i]
    by (simp add: pixel_def m'(3) s)
qed

text \<open>The guards accept the coordinate that equals the height.\<close>

lemma SetPixel_edge:
  fixes c
  assumes "paint_wf p" "Rotate p = 270" "Mirror p = 0" "WidthMemory p mod 4 = 0" "x < Width p"
  defines "p' \<equiv> Paint_SetPixel x (Height p) c p"
  shows "(x = 0 \<longrightarrow> img_oob p') \<and>
    (x \<noteq> 0 \<longrightarrow> only_image p p' \<and> pixel p' (x - 1) 0 = ucast (c mod 4))"
proof -
  have sz: "Width p = HeightMemory p" "Height p = WidthMemory p" "Scale p = 4"
    using assms(1,2) by (auto simp: paint_wf_def oriented_def)
  define Y where "Y = HeightMemory p - x - 1"
  have Y: "Y < HeightMemory p" using flip_less [of x "HeightMemory p"] assms(5) by (simp add: Y_def sz)
  have wm: "unat (WidthMemory p) mod 4 = 0" using arg_cong [OF assms(4), of unat] by (simp add: unat_mod)
  have wb: "WidthByte p = WidthMemory p div 4"
  proof (rule unsigned_word_eqI)
    have "unat (WidthByte p) = (unat (WidthMemory p) + 3) div 4" using assms(1) by (simp add: paint_wf_def)
    also have "\<dots> = unat (WidthMemory p) div 4" using wm by arith
    finally show "unat (WidthByte p) = unat (WidthMemory p div 4)" by (simp add: unat_div)
  qed
  have s: "p' = store_pixel (WidthMemory p) Y c p"
    using assms(2,3,5) Y by (simp add: p'_def Paint_SetPixel_def rotate_point_def mirror_point_def sz not_less flip: Y_def)
  have Ysuc: "unat (Y + 1) = Suc (unat Y)" by (rule u16_incr) (use Y in \<open>simp add: word_less_nat_alt\<close>)
  have row: "ucast (WidthMemory p div 4) + ucast Y * ucast (WidthByte p) = (ucast (Y + 1) * ucast (WidthByte p) :: u32)"
  proof -
    have "(ucast (Y + 1) :: u32) = of_nat (unat (Y + 1))" by simp
    also have "\<dots> = ucast Y + 1" unfolding Ysuc by simp
    finally have "(ucast (Y + 1) :: u32) = ucast Y + 1" .
    then show ?thesis by (simp add: wb distrib_right)
  qed
  have s': "p' = store_pixel 0 (Y + 1) c p" unfolding s by (simp add: store_pixel_def sz assms(4) Let_def row)
  show ?thesis
  proof (cases "x = 0")
    case True
    then have "unat (Y + 1) = unat (HeightMemory p)" by (simp add: Y_def)
    then have "Y + 1 = HeightMemory p" by (rule unsigned_word_eqI)
    moreover have "unat (ucast (HeightMemory p) * ucast (WidthByte p) :: u32) = length (Image p)"
      using assms(1) by (simp add: u16_product paint_wf_def mult.commute)
    ultimately show ?thesis using True by (simp add: s' store_pixel_def sz upd_byte_def get_at_def put_at_def Let_def)
  next
    case False
    have H: "Y + 1 = HeightMemory p - x" by (simp add: Y_def)
    have "unat (HeightMemory p - x) = unat (HeightMemory p) - unat x"
      using assms(5) by (simp add: unat_sub word_le_nat_alt word_less_nat_alt sz)
    moreover have "0 < unat x" "unat x < unat (HeightMemory p)" using False assms(5) by (simp_all add: unat_gt_0 word_less_nat_alt sz)
    ultimately have Yb: "Y + 1 < HeightMemory p" by (simp add: H word_less_nat_alt)
    have Xb: "0 < WidthMemory p" using assms(1) by (simp add: paint_wf_def)
    have "memory_point p (x - 1, 0) = (0, Y + 1)"
      using assms(2,3) by (simp add: memory_point_def rotate_point_def mirror_point_def H)
    then show ?thesis
      using False store_pixel_within(1) [OF assms(1) Xb Yb, of c] store_pixel_within(2) [OF assms(1) Xb Yb Xb Yb, of c] only_imageD(12) [OF store_pixel_within(1) [OF assms(1) Xb Yb, of c]] Xb Yb
      by (simp add: s' pixel_def)
  qed
qed

section \<open>Where a pixel belongs\<close>

text \<open>The geometry, written down on its own: an image of width \<open>w\<close> and height \<open>h\<close> is turned by quarter
  turns, each of which takes the point \<open>(x, y)\<close> to \<open>(h - 1 - y, x)\<close> in an image of width \<open>h\<close> and height
  \<open>w\<close>, and then mirrored left to right, top to bottom, or both.\<close>

fun turn :: "nat \<Rightarrow> nat \<times> nat \<Rightarrow> nat \<times> nat \<Rightarrow> nat \<times> nat" where
  "turn 0 (w, h) (x, y) = (x, y)"
| "turn (Suc n) (w, h) (x, y) = turn n (h, w) (h - 1 - y, x)"

definition place :: "PAINT \<Rightarrow> nat \<Rightarrow> nat \<Rightarrow> nat \<times> nat" where
  "place p x y =
     (let (X, Y) = turn (unat (Rotate p) div 90) (unat (Width p), unat (Height p)) (x, y) in
      (if Mirror p \<in> {MIRROR_HORIZONTAL, MIRROR_ORIGIN} then unat (WidthMemory p) - 1 - X else X,
       if Mirror p \<in> {MIRROR_VERTICAL, MIRROR_ORIGIN} then unat (HeightMemory p) - 1 - Y else Y))"

text \<open>The two bits of a place: four pixels to a byte, the leftmost in the highest bits, row after row.\<close>

definition stored_pixel :: "PAINT \<Rightarrow> nat \<times> nat \<Rightarrow> u8" where
  "stored_pixel p = (\<lambda>(X, Y). byte_pixel (Image p ! (X div 4 + Y * unat (WidthByte p))) (X mod 4))"

lemma unat_flip: "x < w \<Longrightarrow> unat (w - x - 1 :: u16) = unat w - 1 - unat x"
proof -
  assume x: "x < w"
  have "unat (w - x) = unat w - unat x" using x by (simp add: unat_sub word_le_nat_alt word_less_nat_alt)
  moreover have "w - x \<noteq> 0" using x by auto
  ultimately show ?thesis by (simp add: unat_minus_one)
qed

lemma memory_point_place:
  assumes o: "oriented p" and xy: "x < Width p" "y < Height p" and m: "memory_point p (x, y) = (X, Y)"
  shows "place p (unat x) (unat y) = (unat X, unat Y)"
proof -
  obtain X1 Y1 where r: "rotate_point p (x, y) = Some (X1, Y1)" "X1 < WidthMemory p" "Y1 < HeightMemory p"
    by (rule rotate_within [OF o xy])
  have t: "turn (unat (Rotate p) div 90) (unat (Width p), unat (Height p)) (unat x, unat y) = (unat X1, unat Y1)"
  proof -
    have q: "turn 2 = turn (Suc (Suc 0))" "turn 3 = turn (Suc (Suc (Suc 0)))" by (simp_all add: numeral_2_eq_2 numeral_3_eq_3)
    consider "Rotate p = 0" | "Rotate p = 90" | "Rotate p = 180" | "Rotate p = 270" using o by (auto simp: oriented_def)
    then show ?thesis
      using o r(1) xy by cases (auto simp: oriented_def rotate_point_def unat_flip q word_less_nat_alt)
  qed
  have "mirror_point p (X1, Y1) = Some (X, Y)"
    using m r o by (auto simp: memory_point_def mirror_point_def oriented_def)
  then show ?thesis
    using r(2,3) by (auto simp: place_def t mirror_point_def unat_flip split: if_split_asm)
qed

lemma pixel_stored:
  assumes "oriented p" "x < Width p" "y < Height p"
  shows "pixel p x y = stored_pixel p (place p (unat x) (unat y))"
  using memory_point_place [OF assms]
  by (cases "memory_point p (x, y)") (simp add: pixel_def pixel_at_def stored_pixel_def)

lemma SetPixel_stored:
  assumes "paint_wf p" "x < Width p" "y < Height p" "X < unat (WidthMemory p)" "Y < unat (HeightMemory p)"
  shows "stored_pixel (Paint_SetPixel x y c p) (X, Y) =
    (if (X, Y) = place p (unat x) (unat y) then ucast (c mod 4) else stored_pixel p (X, Y))"
proof -
  have o: "oriented p" using assms(1) by (simp add: paint_wf_def)
  obtain pt X1 Y1 where m: "rotate_point p (x, y) = Some pt" "mirror_point p pt = Some (X1, Y1)"
    "X1 < WidthMemory p" "Y1 < HeightMemory p" "memory_point p (x, y) = (X1, Y1)"
    by (rule memory_within [OF o assms(2,3)])
  have s: "Paint_SetPixel x y c p = store_pixel X1 Y1 c p"
    using assms(2,3) m by (simp add: Paint_SetPixel_def)
  have u: "unat (of_nat X :: u16) = X" "unat (of_nat Y :: u16) = Y"
    using less_trans [OF assms(4) unsigned_less] less_trans [OF assms(5) unsigned_less] by (simp_all add: unat_of_nat)
  then have b: "of_nat X < WidthMemory p" "of_nat Y < HeightMemory p" using assms(4,5) by (simp_all add: word_less_nat_alt)
  have at: "stored_pixel q (X, Y) = pixel_at q (of_nat X, of_nat Y)" for q by (simp add: stored_pixel_def pixel_at_def u)
  have "(of_nat X, of_nat Y) = (X1, Y1) \<longleftrightarrow> (X, Y) = (unat X1, unat Y1)" using u by (auto simp: word_unat_eq_iff)
  then show ?thesis
    using store_pixel_within(2) [OF assms(1) m(3,4) b, of c] memory_point_place [OF o assms(2,3) m(5)]
    by (simp add: at s)
qed

lemma place_within:
  assumes "oriented p" "x < Width p" "y < Height p"
  shows "fst (place p (unat x) (unat y)) < unat (WidthMemory p)" "snd (place p (unat x) (unat y)) < unat (HeightMemory p)"
proof -
  obtain pt X Y where m: "rotate_point p (x, y) = Some pt" "mirror_point p pt = Some (X, Y)"
    "X < WidthMemory p" "Y < HeightMemory p" "memory_point p (x, y) = (X, Y)"
    by (rule memory_within [OF assms])
  then show "fst (place p (unat x) (unat y)) < unat (WidthMemory p)" "snd (place p (unat x) (unat y)) < unat (HeightMemory p)"
    using memory_point_place [OF assms m(5)] by (simp_all add: word_less_nat_alt)
qed

text \<open>
  C36: Setting a pixel.  In the four-colour mode, for every rotation and mirroring and a buffer of the
  right size, \<^verbatim>\<open>Paint_SetPixel\<close> at coordinates inside the image changes only the buffer: the place of
  the pixel, which is its point turned by as many quarter turns as the rotation says and then mirrored
  left to right, top to bottom or both, lies inside the memory image and gets the colour, and every
  other place keeps its own.  So, seen through the same rotation and mirroring, that pixel has the
  colour and every other pixel is as it was.  The routine does nothing at coordinates
  beyond width or height.  The last row is let through: the guards accept the coordinate that equals the
  height.  In the orientation of the display, with a width that is a multiple of four, the pixel
  (0, height) is then written behind the end of the buffer, and (x, height) for any other x paints the
  pixel (x - 1, 0) at the opposite edge.
\<close>

theorem set_pixel_correct:
  fixes x y c
  assumes "paint_wf p"
  defines "p' \<equiv> Paint_SetPixel x y c p"
  shows "(x < Width p \<and> y < Height p \<longrightarrow> only_image p p' \<and>
      pixel p x y = stored_pixel p (place p (unat x) (unat y)) \<and>
      fst (place p (unat x) (unat y)) < unat (WidthMemory p) \<and> snd (place p (unat x) (unat y)) < unat (HeightMemory p) \<and>
      (\<forall>X Y. X < unat (WidthMemory p) \<and> Y < unat (HeightMemory p) \<longrightarrow> stored_pixel p' (X, Y) =
         (if (X, Y) = place p (unat x) (unat y) then ucast (c mod 4) else stored_pixel p (X, Y))) \<and>
      (\<forall>x' y'. x' < Width p \<and> y' < Height p \<longrightarrow>
         pixel p' x' y' = (if x' = x \<and> y' = y then ucast (c mod 4) else pixel p x' y'))) \<and>
    (x > Width p \<or> y > Height p \<longrightarrow> p' = p) \<and>
    (Rotate p = 270 \<and> Mirror p = 0 \<and> WidthMemory p mod 4 = 0 \<and> x < Width p \<and> y = Height p \<longrightarrow>
      (x = 0 \<longrightarrow> img_oob p') \<and> (x \<noteq> 0 \<longrightarrow> only_image p p' \<and> pixel p' (x - 1) 0 = ucast (c mod 4)))"
proof -
  have o: "oriented p" using assms(1) by (simp add: paint_wf_def)
  have "x > Width p \<or> y > Height p \<Longrightarrow> p' = p" by (auto simp: p'_def Paint_SetPixel_def)
  moreover have "x < Width p \<and> y < Height p \<Longrightarrow> pixel p x y = stored_pixel p (place p (unat x) (unat y)) \<and>
      fst (place p (unat x) (unat y)) < unat (WidthMemory p) \<and> snd (place p (unat x) (unat y)) < unat (HeightMemory p) \<and>
      (\<forall>X Y. X < unat (WidthMemory p) \<and> Y < unat (HeightMemory p) \<longrightarrow> stored_pixel p' (X, Y) =
         (if (X, Y) = place p (unat x) (unat y) then ucast (c mod 4) else stored_pixel p (X, Y)))"
    unfolding p'_def using o pixel_stored place_within SetPixel_stored [OF assms(1)] by blast
  moreover have "x < Width p \<and> y < Height p \<Longrightarrow> only_image p p' \<and> (\<forall>x' y'. x' < Width p \<and> y' < Height p \<longrightarrow>
      pixel p' x' y' = (if x' = x \<and> y' = y then ucast (c mod 4) else pixel p x' y'))"
    unfolding p'_def using SetPixel_within [OF assms(1)] by blast
  moreover have "(x = 0 \<longrightarrow> img_oob p') \<and> (x \<noteq> 0 \<longrightarrow> only_image p p' \<and> pixel p' (x - 1) 0 = ucast (c mod 4))"
    if "Rotate p = 270 \<and> Mirror p = 0 \<and> WidthMemory p mod 4 = 0 \<and> x < Width p \<and> y = Height p"
    using SetPixel_edge [OF assms(1), of x c] that by (simp add: p'_def)
  ultimately show ?thesis by blast
qed

definition demo_paint :: "u8 list \<Rightarrow> PAINT" where
  "demo_paint img = Paint_SetScale 4 (Paint_NewImage img 8 3 ROTATE_270 WHITE
     \<lparr>Image = [], Width = 0, Height = 0, WidthMemory = 0, HeightMemory = 0, Color = 0, Rotate = 0, Mirror = 0,
      WidthByte = 0, HeightByte = 0, Scale = 0, img_oob = False\<rparr>)"

lemma demo_paint_wf: "length img = 6 \<Longrightarrow> paint_wf (demo_paint img)"
  by (simp add: demo_paint_def Paint_SetScale_def Paint_NewImage_def paint_wf_def oriented_def Let_def)

theorem set_pixel_correct_witness:
  "pixel (Paint_SetPixel 1 2 RED (demo_paint [0, 0, 0, 0, 0, 0])) 1 2 = 3 \<and>
   img_oob (Paint_SetPixel 0 8 RED (demo_paint [0, 0, 0, 0, 0, 0]))"
proof -
  let ?p = "demo_paint [0, 0, 0, 0, 0, 0]"
  have "1 < Width ?p" "2 < Height ?p" "Rotate ?p = 270" "Mirror ?p = 0" "WidthMemory ?p mod 4 = 0" "0 < Width ?p" "Height ?p = 8"
    by (simp_all add: demo_paint_def Paint_SetScale_def Paint_NewImage_def Let_def)
  then show ?thesis
    using set_pixel_correct [OF demo_paint_wf, of "[0, 0, 0, 0, 0, 0]" 1 2 RED]
      set_pixel_correct [OF demo_paint_wf, of "[0, 0, 0, 0, 0, 0]" 0 8 RED] by simp
qed

end
