(* ===== verification/Eink_Thread.thy ===== *)
theory Eink_Thread
  imports Gui_Text App_Threads
begin

text \<open>
  \<^verbatim>\<open>User/thread_Eink.c\<close>: the first picture and the loop over the buttons.  The font of the
  picture and the stored image are data, given as arguments; so is what lies at the address of the
  picture's buffer when the loop displays it, because the buffer has been freed by then.
\<close>

text \<open>The six characters of the text, three bytes each.\<close>

definition first_text :: "u8 list" where
  "first_text = [0xE8, 0x8B, 0x8F, 0xE5, 0xB7, 0x9E, 0xE6, 0x9E, 0x90, 0xE7, 0xBE, 0xBD, 0xE4, 0xBF, 0xA1, 0xE6, 0x81, 0xAF, 0]"

definition Display_First :: "cFONT \<Rightarrow> u8 list \<Rightarrow> PAINT \<Rightarrow> PAINT option" where
  "Display_First Font24CN img p =
     (let p1 = Paint_NewImage img (of_nat EPD_WIDTH) (of_nat EPD_HEIGHT) ROTATE_270 WHITE p;
          p2 = Paint_SetScale 4 p1;
          p3 = Paint_SelectImage (Image p2) p2;
          p4 = Paint_Clear WHITE p3
      in draw_all
           [Paint_DrawRectangle 2 2 248 120 BLACK DOT_PIXEL_2X2 False,
            Paint_DrawRectangle 5 5 245 117 YELLOW DOT_PIXEL_1X1 False,
            Paint_DrawRectangle 8 8 35 114 RED DOT_PIXEL_1X1 True,
            (\<lambda>p. Some (Paint_DrawString_CN 45 15 first_text Font24CN BLACK WHITE p)),
            Paint_DrawLine 45 58 240 58 BLACK DOT_PIXEL_1X1 LINE_STYLE_SOLID,
            Paint_DrawLine 45 105 240 105 YELLOW DOT_PIXEL_2X2 LINE_STYLE_SOLID] p4)"

text \<open>One pass of the loop of \<^verbatim>\<open>thread_Eink_Start\<close> up to its delay: the levels of the two
  pins, and the two images.\<close>

definition show_image :: "u8 list \<Rightarrow> app \<Rightarrow> app" where
  "show_image img s = EPD_Sleep (EPD_DisplayImage img (EPD_Init_Fast s))"

definition thread_Eink_pass ::
  "bool \<Rightarrow> bool \<Rightarrow> u8 list \<Rightarrow> u8 list \<Rightarrow> Button_t \<times> Button_t \<times> app \<Rightarrow> Button_t \<times> Button_t \<times> app" where
  "thread_Eink_pass low1 low2 image_test Image_Asuka = (\<lambda>(button1, button2, s).
     let (hit1, b1) = Button_Scan low1 button1;
         s1 = (if hit1 then show_image image_test s else s);
         (hit2, b2) = Button_Scan low2 button2;
         s2 = (if hit2 then show_image Image_Asuka s1 else s1)
     in (b1, b2, s2))"

end
