(* ===== verification/Line_Spec.thy ===== *)
theory Line_Spec
  imports Paint_Spec Eink_Thread
begin

text \<open>
  Points, lines, rectangles and texts: every drawing returns and changes no pixel outside the area
  it is meant for.  The first picture of the program is drawn inside its buffer.
\<close>

section \<open>What a drawing may change\<close>

text \<open>Pixels outside the set keep their colour, and nothing but the image changes.\<close>

definition paints :: "(nat \<times> nat) set \<Rightarrow> PAINT \<Rightarrow> PAINT \<Rightarrow> bool" where
  "paints S p p' \<longleftrightarrow> only_image p p' \<and>
     (\<forall>x y. x < Width p \<and> y < Height p \<and> (unat x, unat y) \<notin> S \<longrightarrow> pixel p' x y = pixel p x y)"

lemma paints_refl [simp]: "paints S p p"
  by (simp add: paints_def)

lemma paints_trans:
  assumes "paints S p p'" "paints S p' p''"
  shows "paints S p p''"
  using assms only_image_trans [of p p' p''] only_imageD [of p p'] by (auto simp: paints_def)

lemma paints_mono: "paints S p p' \<Longrightarrow> S \<subseteq> T \<Longrightarrow> paints T p p'"
  by (auto simp: paints_def)

lemma paints_wf: "paints S p p' \<Longrightarrow> paint_wf p \<Longrightarrow> paint_wf p'"
  using only_imageD [of p p'] by (simp add: paints_def)

lemma paints_size: "paints S p p' \<Longrightarrow> Width p' = Width p \<and> Height p' = Height p \<and> img_oob p' = img_oob p"
  using only_imageD [of p p'] by (simp add: paints_def)

text \<open>A sequence of drawings.\<close>

lemma paints_fold:
  assumes "\<And>x p. x \<in> set xs \<Longrightarrow> paint_wf p \<Longrightarrow> Width p = W \<Longrightarrow> Height p = H \<Longrightarrow> paints S p (f x p)"
    and "paint_wf p" "Width p = W" "Height p = H"
  shows "paints S p (fold f xs p)"
  using assms
proof (induction xs arbitrary: p)
  case (Cons x xs)
  have s: "paints S p (f x p)" using Cons.prems by simp
  have "paints S (f x p) (fold f xs (f x p))"
    using Cons.prems(1,3,4) paints_wf [OF s Cons.prems(2)] paints_size [OF s] by (intro Cons.IH) simp_all
  then show ?case using paints_trans [OF s] by simp
qed simp

text \<open>The same, with everything but the image known to be as at the start.\<close>

lemma paints_sequence:
  assumes "\<And>x q. x \<in> set xs \<Longrightarrow> only_image p q \<Longrightarrow> paint_wf q \<Longrightarrow> paints S q (f x q)" and "paint_wf p"
  shows "paints S p (fold f xs p)"
proof -
  have "paints S q (fold f xs q)" if "only_image p q" "paint_wf q" "\<forall>x\<in>set xs. \<forall>r. only_image p r \<and> paint_wf r \<longrightarrow> paints S r (f x r)" for q
    using that
  proof (induction xs arbitrary: q)
    case (Cons x xs)
    have s: "paints S q (f x q)" using Cons.prems by simp
    then have "only_image p (f x q)" using Cons.prems(1) only_image_trans by (auto simp: paints_def)
    then have "paints S (f x q) (fold f xs (f x q))"
      using Cons.prems(3) paints_wf [OF s Cons.prems(2)] by (intro Cons.IH) simp_all
    then show ?case using paints_trans [OF s] by simp
  qed simp
  then show ?thesis using assms by simp
qed

lemma paints_SetPixel:
  assumes "paint_wf p" "x < Width p \<and> y < Height p \<or> Width p < x \<or> Height p < y"
  shows "paints {(unat x, unat y)} p (Paint_SetPixel x y c p)"
proof (cases "x < Width p \<and> y < Height p")
  case True
  then show ?thesis
    using SetPixel_within(1) [OF assms(1), of x y c] SetPixel_within(2) [OF assms(1), of x y _ _ c] by (simp add: paints_def)
next
  case False
  then have "Paint_SetPixel x y c p = p" using assms(2) by (auto simp: Paint_SetPixel_def)
  then show ?thesis by simp
qed

section \<open>Points\<close>

text \<open>The coordinate of a pixel of a point: inside, or so large that it is rejected.\<close>

lemma point_coordinate:
  fixes x :: u16 and w :: u32
  assumes "unat w \<le> 8" "unat x < 0xFFF0" "i < 16"
  defines "v \<equiv> ucast (ucast x + of_nat i - w :: u32) :: u16"
  shows "if unat w \<le> unat x + i then unat v = unat x + i - unat w else 0xFFF0 < unat v"
proof -
  have down: "unat (ucast u :: u16) = unat u mod 2 ^ 16" for u :: u32
    by (simp add: unsigned_ucast_eq take_bit_eq_mod)
  have x: "(ucast x :: u32) = of_nat (unat x)" and w: "w = of_nat (unat w)" by simp_all
  show ?thesis
  proof (cases "unat w \<le> unat x + i")
    case True
    then have e: "ucast x + of_nat i - w = (of_nat (unat x + i - unat w) :: u32)"
      by (subst w, subst x) (simp only: of_nat_diff of_nat_add)
    have "unat (of_nat (unat x + i - unat w) :: u32) = unat x + i - unat w"
      using assms by (intro unat_of_nat_small) simp
    then show ?thesis using True assms(2,3) unfolding v_def down e by simp
  next
    case False
    then have e: "ucast x + of_nat i - w = (of_nat (2 ^ 32 + (unat x + i) - unat w) :: u32)"
      using assms(1) by (subst w, subst x) (subst of_nat_diff, simp_all)
    have "unat (of_nat (2 ^ 32 + (unat x + i) - unat w) :: u32) = 2 ^ 32 + (unat x + i) - unat w"
      using False assms(1) by (intro unat_of_nat_small) simp
    moreover have "(2 ^ 32 + (unat x + i) - unat w) mod 2 ^ 16 = 2 ^ 16 + (unat x + i) - unat w"
    proof -
      have "2 ^ 32 + (unat x + i) - unat w = (2 ^ 16 + (unat x + i) - unat w) + 65535 * 2 ^ 16"
        using False assms(1) by simp
      moreover have "2 ^ 16 + (unat x + i) - unat w < 2 ^ 16" using False by simp
      ultimately show ?thesis by (simp only: mod_mult_self1 mod_less)
    qed
    ultimately show ?thesis using False assms(1) unfolding v_def down e by simp
  qed
qed

text \<open>The pixels of a point of width \<open>w\<close> at (x, y).\<close>

definition point_area :: "u32 \<Rightarrow> u16 \<Rightarrow> u16 \<Rightarrow> (nat \<times> nat) set" where
  "point_area w x y = {(a, b). unat x \<le> a + unat w \<and> a + 2 \<le> unat x + unat w \<and>
     unat y \<le> b + unat w \<and> b + 2 \<le> unat y + unat w}"

text \<open>The whole point is inside the image or cut off at the left or upper edge.\<close>

definition point_ok :: "u32 \<Rightarrow> u16 \<Rightarrow> u16 \<Rightarrow> PAINT \<Rightarrow> bool" where
  "point_ok w x y p \<longleftrightarrow> 1 \<le> unat w \<and> unat w \<le> 8 \<and>
     unat x + unat w \<le> unat (Width p) + 1 \<and> unat y + unat w \<le> unat (Height p) + 1"

lemma image_bounds:
  assumes "paint_wf p"
  shows "unat (Width p) < 0xFFF0" "unat (Height p) < 0xFFF0"
  using assms by (auto simp: paint_wf_def oriented_def word_less_nat_alt)

lemma paints_SetPixel_point:
  fixes x y :: u16 and w :: u32
  assumes "paint_wf p" "point_ok w x y p" "i < 2 * unat w - 1" "j < 2 * unat w - 1"
  defines "a \<equiv> ucast (ucast x + of_nat i - w :: u32) :: u16" and "b \<equiv> ucast (ucast y + of_nat j - w :: u32) :: u16"
  shows "paints (point_area w x y) p (Paint_SetPixel a b c p)"
proof -
  note sz = image_bounds [OF assms(1)]
  have w: "1 \<le> unat w" "unat w \<le> 8" "unat x + unat w \<le> unat (Width p) + 1" "unat y + unat w \<le> unat (Height p) + 1"
    using assms(2) by (simp_all add: point_ok_def)
  have ij: "i < 16" "j < 16" using assms(3,4) w(2) by simp_all
  have xy: "unat x < 0xFFF0" "unat y < 0xFFF0" using w sz by simp_all
  note ca = point_coordinate [OF w(2) xy(1) ij(1), folded a_def] and cb = point_coordinate [OF w(2) xy(2) ij(2), folded b_def]
  have ok: "a < Width p \<and> b < Height p \<or> Width p < a \<or> Height p < b"
    using ca cb w assms(3,4) sz unfolding word_less_nat_alt by (auto split: if_splits)
  show ?thesis
  proof (cases "a < Width p \<and> b < Height p")
    case True
    then have "unat a < unat (Width p)" "unat b < unat (Height p)" by (simp_all add: word_less_nat_alt)
    then have "(unat a, unat b) \<in> point_area w x y"
      using ca cb assms(3,4) sz unfolding point_area_def by (auto split: if_splits)
    then show ?thesis using paints_mono [OF paints_SetPixel [OF assms(1) ok]] by blast
  next
    case False
    then have "Paint_SetPixel a b c p = p" using ok by (auto simp: Paint_SetPixel_def)
    then show ?thesis by simp
  qed
qed

lemma point_column_fold:
  "point_column x y c w i ys p = fold (\<lambda>j. Paint_SetPixel (ucast (ucast x + of_nat i - w :: u32)) (ucast (ucast y + of_nat j - w :: u32)) c) ys p"
  by (induction ys arbitrary: p) (simp_all add: Let_def)

lemma point_ok_size: "Width p' = Width p \<Longrightarrow> Height p' = Height p \<Longrightarrow> point_ok w x y p' = point_ok w x y p"
  by (simp add: point_ok_def)

lemma paints_DrawPoint:
  assumes "paint_wf p" "point_ok w x y p"
  shows "paints (point_area w x y) p (Paint_DrawPoint x y c w DOT_FILL_AROUND p)"
proof (cases "x > Width p \<or> y > Height p")
  case False
  have w: "1 \<le> unat w" "unat w \<le> 8" using assms(2) by (simp_all add: point_ok_def)
  have n: "unat (2 * w - 1) = 2 * unat w - 1"
  proof -
    have e: "w = of_nat (unat w)" by simp
    have "2 * w - 1 = of_nat (2 * unat w - 1)" using w by (subst e) (simp add: of_nat_diff)
    moreover have "2 * unat w - 1 < 2 ^ LENGTH(32)" using w by simp
    ultimately show ?thesis by (simp only: unat_of_nat_small)
  qed
  have "paints (point_area w x y) p (fold (\<lambda>i. point_column x y c w i [0..<2 * unat w - 1]) [0..<2 * unat w - 1] p)"
  proof (rule paints_fold [OF _ assms(1) refl refl])
    fix i q
    assume i: "i \<in> set [0..<2 * unat w - 1]" and q: "paint_wf q" "Width q = Width p" "Height q = Height p"
    show "paints (point_area w x y) q (point_column x y c w i [0..<2 * unat w - 1] q)"
      unfolding point_column_fold
    proof (rule paints_fold [OF _ q])
      fix j r
      assume "j \<in> set [0..<2 * unat w - 1]" "paint_wf r" "Width r = Width p" "Height r = Height p"
      then show "paints (point_area w x y) r
          (Paint_SetPixel (ucast (ucast x + of_nat i - w :: u32)) (ucast (ucast y + of_nat j - w :: u32)) c r)"
        using i point_ok_size [of r p] assms(2) by (intro paints_SetPixel_point) simp_all
    qed
  qed
  then show ?thesis using False by (simp add: Paint_DrawPoint_def n)
qed (auto simp: Paint_DrawPoint_def)

section \<open>Lines\<close>

text \<open>A coordinate on its way from \<open>a\<close> to \<open>e\<close>, one step of \<open>d\<close> at a time.\<close>

definition on_way :: "u16 \<Rightarrow> u16 \<Rightarrow> u16 \<Rightarrow> u16 \<Rightarrow> bool" where
  "on_way a e d x \<longleftrightarrow> a < e \<and> d = 1 \<and> a \<le> x \<and> x \<le> e \<or> \<not> a < e \<and> d = - 1 \<and> e \<le> x \<and> x \<le> a"

definition way_left :: "u16 \<Rightarrow> u16 \<Rightarrow> nat" where
  "way_left e x = (if x \<le> e then unat e - unat x else unat x - unat e)"

lemma on_way_start: "on_way a e (if a < e then 1 else - 1) a"
  by (auto simp: on_way_def)

lemma on_way_step:
  assumes "on_way a e d x" "x \<noteq> e"
  shows "on_way a e d (x + d)" "way_left e x = Suc (way_left e (x + d))"
proof -
  have ne: "unat x \<noteq> unat e" using assms(2) by (auto intro: unsigned_word_eqI)
  consider (up) "a < e" "d = 1" "a \<le> x" "x \<le> e" | (down) "\<not> a < e" "d = - 1" "e \<le> x" "x \<le> a"
    using assms(1) by (auto simp: on_way_def)
  then have "on_way a e d (x + d) \<and> way_left e x = Suc (way_left e (x + d))"
  proof cases
    case up
    then have "unat (x + 1) = Suc (unat x)" using ne by (intro u16_incr [of x e]) (simp add: word_le_nat_alt)
    then show ?thesis using up ne by (auto simp: on_way_def way_left_def word_le_nat_alt word_less_nat_alt)
  next
    case down
    then have "0 < unat x" using ne by (simp add: word_le_nat_alt)
    then have "unat (x - 1) = unat x - 1" by (simp add: unat_sub word_le_nat_alt)
    then show ?thesis using down ne by (auto simp: on_way_def way_left_def word_le_nat_alt word_less_nat_alt)
  qed
  then show "on_way a e d (x + d)" "way_left e x = Suc (way_left e (x + d))" by simp_all
qed

lemma on_way_between: "on_way a e d x \<Longrightarrow> min (unat a) (unat e) \<le> unat x \<and> unat x \<le> max (unat a) (unat e)"
  by (auto simp: on_way_def word_le_nat_alt word_less_nat_alt)

text \<open>A turn of the loop comes closer to the end.\<close>

lemma line_step_progress:
  assumes "line_step xe ye dx dy sx sy (x, y, E) = Some (x', y', E')" "dy \<le> 0" "0 \<le> dx"
    and "on_way xs xe sx x" "on_way ys ye sy y"
  shows "on_way xs xe sx x'" "on_way ys ye sy y'" "way_left xe x' + way_left ye y' < way_left xe x + way_left ye y"
  using assms on_way_step [OF assms(4)] on_way_step [OF assms(5)]
  by (auto simp: line_step_def Let_def split: if_splits)

text \<open>The loop returns when every turn comes closer to the end, and paints points only.\<close>

lemma line_loop_returns:
  assumes step: "\<And>pos pos'. I pos \<Longrightarrow> nxt pos = Some pos' \<Longrightarrow> I pos' \<and> m pos' < (m pos :: nat)"
    and pt: "\<And>pos c p. I pos \<Longrightarrow> paint_wf p \<Longrightarrow> Width p = W \<Longrightarrow> Height p = H \<Longrightarrow>
      paints S p (Paint_DrawPoint (fst pos) (fst (snd pos)) c w DOT_FILL_AROUND p)"
  shows "I pos \<Longrightarrow> paint_wf p \<Longrightarrow> Width p = W \<Longrightarrow> Height p = H \<Longrightarrow>
    \<exists>p'. line_loop nxt color w style n pos p = Some p' \<and> paints S p p'"
proof (induction "m pos" arbitrary: pos p n rule: less_induct)
  case less
  let ?c = "if style = LINE_STYLE_DOTTED \<and> (n + 1) mod 3 = 0 then WHITE else color"
  let ?p = "Paint_DrawPoint (fst pos) (fst (snd pos)) ?c w DOT_FILL_AROUND p"
  let ?n = "if style = LINE_STYLE_DOTTED \<and> (n + 1) mod 3 = 0 then 0 else n + 1"
  have s: "paints S p ?p" by (rule pt [OF less.prems])
  have e: "line_loop nxt color w style n pos p =
      (case nxt pos of None \<Rightarrow> Some ?p | Some pos' \<Rightarrow> line_loop nxt color w style ?n pos' ?p)"
    by (subst line_loop.simps) (simp only: Let_def)
  show ?case
  proof (cases "nxt pos")
    case None
    then show ?thesis using e s by simp
  next
    case (Some pos')
    obtain p' where p': "line_loop nxt color w style ?n pos' ?p = Some p'" "paints S ?p p'"
    proof -
      have "\<exists>p'. line_loop nxt color w style ?n pos' ?p = Some p' \<and> paints S ?p p'"
        using step [OF less.prems(1) Some] paints_wf [OF s less.prems(2)] paints_size [OF s] less.prems(3,4)
        by (intro less.hyps) simp_all
      then show thesis using that by blast
    qed
    show ?thesis unfolding e Some option.case p'(1) using paints_trans [OF s p'(2)] by blast
  qed
qed

definition line_area :: "u32 \<Rightarrow> u16 \<Rightarrow> u16 \<Rightarrow> u16 \<Rightarrow> u16 \<Rightarrow> (nat \<times> nat) set" where
  "line_area w xs ys xe ye = {(a, b).
     min (unat xs) (unat xe) \<le> a + unat w \<and> a + 2 \<le> max (unat xs) (unat xe) + unat w \<and>
     min (unat ys) (unat ye) \<le> b + unat w \<and> b + 2 \<le> max (unat ys) (unat ye) + unat w}"

lemma DrawLine_paints:
  assumes "paint_wf p" "point_ok w xs ys p" "point_ok w xe ye p"
  shows "\<exists>p'. Paint_DrawLine xs ys xe ye c w style p = Some p' \<and> paints (line_area w xs ys xe ye) p p'"
proof (cases "xs > Width p \<or> ys > Height p \<or> xe > Width p \<or> ye > Height p")
  case False
  define sx sy :: u16 where "sx = (if xs < xe then 1 else - 1)" and "sy = (if ys < ye then 1 else - 1)"
  define dx where "dx = (if uint xe - uint xs \<ge> 0 then uint xe - uint xs else - (uint xe - uint xs))"
  define dy where "dy = (if uint ye - uint ys \<le> 0 then uint ye - uint ys else - (uint ye - uint ys))"
  define I where "I = (\<lambda>pos :: u16 \<times> u16 \<times> int. on_way xs xe sx (fst pos) \<and> on_way ys ye sy (fst (snd pos)))"
  define m where "m = (\<lambda>pos :: u16 \<times> u16 \<times> int. way_left xe (fst pos) + way_left ye (fst (snd pos)))"
  have e: "Paint_DrawLine xs ys xe ye c w style p =
      line_loop (line_step xe ye dx dy sx sy) c w style 0 (xs, ys, dx + dy) p"
    using False unfolding Paint_DrawLine_def sx_def sy_def dx_def dy_def Let_def by (simp only: if_False)
  have I0: "I (xs, ys, dx + dy)" unfolding I_def sx_def sy_def by (simp add: on_way_start)
  show ?thesis
    unfolding e
  proof (rule line_loop_returns [of I _ m, OF _ _ I0 assms(1) refl refl])
    fix pos pos'
    assume "I pos" "line_step xe ye dx dy sx sy pos = Some pos'"
    then show "I pos' \<and> m pos' < m pos"
      using line_step_progress [of xe ye dx dy sx sy "fst pos" "fst (snd pos)" "snd (snd pos)"
          "fst pos'" "fst (snd pos')" "snd (snd pos')" xs ys]
      by (simp add: I_def m_def dx_def dy_def)
  next
    fix pos c q
    assume pos: "I pos" and q: "paint_wf q" "Width q = Width p" "Height q = Height p"
    then have b: "min (unat xs) (unat xe) \<le> unat (fst pos)" "unat (fst pos) \<le> max (unat xs) (unat xe)"
      "min (unat ys) (unat ye) \<le> unat (fst (snd pos))" "unat (fst (snd pos)) \<le> max (unat ys) (unat ye)"
      using on_way_between by (simp_all only: I_def) blast+
    have ok: "point_ok w (fst pos) (fst (snd pos)) q"
      using b assms(2,3) q unfolding point_ok_def by (auto simp: max_def split: if_splits)
    have "point_area w (fst pos) (fst (snd pos)) \<subseteq> line_area w xs ys xe ye"
      using b unfolding point_area_def line_area_def by auto
    then show "paints (line_area w xs ys xe ye) q (Paint_DrawPoint (fst pos) (fst (snd pos)) c w DOT_FILL_AROUND q)"
      using paints_mono [OF paints_DrawPoint [OF q(1) ok]] by blast
  qed
qed (auto simp: Paint_DrawLine_def)

section \<open>Lines along an axis\<close>

text \<open>The positions a loop goes through.\<close>

fun traverses :: "('a \<Rightarrow> 'a option) \<Rightarrow> 'a list \<Rightarrow> bool" where
  "traverses nxt [] = False"
| "traverses nxt [q] = (nxt q = None)"
| "traverses nxt (q # r # qs) = (nxt q = Some r \<and> traverses nxt (r # qs))"

lemma line_loop_solid:
  "traverses nxt qs \<Longrightarrow> line_loop nxt c w LINE_STYLE_SOLID n (hd qs) p =
     Some (fold (\<lambda>q. Paint_DrawPoint (fst q) (fst (snd q)) c w DOT_FILL_AROUND) qs p)"
  by (induction nxt qs arbitrary: n p rule: traverses.induct) (subst line_loop.simps, simp add: Let_def)+

definition segment :: "u16 \<Rightarrow> u16 \<Rightarrow> u16 set" where
  "segment x e = {v. min (unat x) (unat e) \<le> unat v \<and> unat v \<le> max (unat x) (unat e)}"

lemma segment_end: "segment e e = {e}"
  by (auto simp: segment_def word_unat_eq_iff)

lemma segment_step:
  assumes "on_way a e d x" "x \<noteq> e"
  shows "segment x e = insert x (segment (x + d) e)"
proof -
  have ne: "unat x \<noteq> unat e" using assms(2) by (auto intro: unsigned_word_eqI)
  note next_ = on_way_step [OF assms]
  consider (up) "unat x < unat e" "unat (x + d) = Suc (unat x)" | (down) "unat e < unat x" "Suc (unat (x + d)) = unat x"
    using next_(2) ne on_way_between [OF next_(1)] assms(1) on_way_between [OF assms(1)] next_(1)
    by (auto simp: on_way_def way_left_def word_le_nat_alt word_less_nat_alt split: if_splits)
  then show ?thesis
  proof cases
    case up
    then show ?thesis by (auto simp: segment_def word_unat_eq_iff)
  next
    case down
    then show ?thesis by (auto simp: segment_def word_unat_eq_iff)
  qed
qed

text \<open>Along an axis a turn of the loop moves one coordinate and leaves the error term.\<close>

lemma line_step_horizontal:
  assumes "0 < dx \<or> x = xe" "0 \<le> dx"
  shows "line_step xe ye dx 0 sx sy (x, y, dx) = (if x = xe then None else Some (x + sx, y, dx))"
  using assms by (auto simp: line_step_def)

lemma line_step_vertical:
  assumes "dy < 0"
  shows "line_step xe ye 0 dy sx sy (x, y, dy) = (if y = ye then None else Some (x, y + sy, dy))"
  using assms by (simp add: line_step_def)

lemma traverses_horizontal:
  assumes "0 < dx \<or> xs = xe" "0 \<le> dx"
  shows "on_way xs xe sx x \<Longrightarrow> \<exists>qs. traverses (line_step xe ye dx 0 sx sy) qs \<and> hd qs = (x, y, dx) \<and>
    set qs = (\<lambda>v. (v, y, dx)) ` segment x xe"
proof (induction "way_left xe x" arbitrary: x rule: less_induct)
  case less
  have x: "0 < dx \<or> x = xe" using assms(1) less.prems by (auto simp: on_way_def)
  show ?case
  proof (cases "x = xe")
    case True
    then show ?thesis
      using line_step_horizontal [OF x assms(2)] by (intro exI [of _ "[(x, y, dx)]"]) (simp add: segment_end)
  next
    case False
    obtain qs where qs: "traverses (line_step xe ye dx 0 sx sy) qs" "hd qs = (x + sx, y, dx)"
      "set qs = (\<lambda>v. (v, y, dx)) ` segment (x + sx) xe"
      using less.hyps [of "x + sx"] on_way_step [OF less.prems False] by auto
    then obtain r where "qs = (x + sx, y, dx) # r" by (cases qs) auto
    then show ?thesis
      using qs False line_step_horizontal [OF x assms(2), of ye sx sy y] segment_step [OF less.prems False]
      by (intro exI [of _ "(x, y, dx) # qs"]) simp
  qed
qed

lemma traverses_vertical:
  assumes "dy < 0"
  shows "on_way ys ye sy y \<Longrightarrow> \<exists>qs. traverses (line_step xe ye 0 dy sx sy) qs \<and> hd qs = (x, y, dy) \<and>
    set qs = (\<lambda>v. (x, v, dy)) ` segment y ye"
proof (induction "way_left ye y" arbitrary: y rule: less_induct)
  case less
  show ?case
  proof (cases "y = ye")
    case True
    then show ?thesis
      using line_step_vertical [OF assms] by (intro exI [of _ "[(x, y, dy)]"]) (simp add: segment_end)
  next
    case False
    obtain qs where qs: "traverses (line_step xe ye 0 dy sx sy) qs" "hd qs = (x, y + sy, dy)"
      "set qs = (\<lambda>v. (x, v, dy)) ` segment (y + sy) ye"
      using less.hyps [of "y + sy"] on_way_step [OF less.prems False] by auto
    then obtain r where "qs = (x, y + sy, dy) # r" by (cases qs) auto
    then show ?thesis
      using qs False line_step_vertical [OF assms, of xe ye sx sy x y] segment_step [OF less.prems False]
      by (intro exI [of _ "(x, y, dy) # qs"]) simp
  qed
qed

lemma DrawPoint_one:
  assumes "paint_wf p" "0 < x" "x \<le> Width p" "0 < y" "y \<le> Height p"
  shows "Paint_DrawPoint x y c DOT_PIXEL_1X1 DOT_FILL_AROUND p = Paint_SetPixel (x - 1) (y - 1) c p"
    "x - 1 < Width p" "y - 1 < Height p"
proof -
  have "(ucast (ucast v + of_nat 0 - 1 :: u32) :: u16) = v - 1" if "0 < v" for v :: u16
  proof -
    have v: "1 \<le> unat v" "unat v < 2 ^ 16" using that unsigned_less [of v] by (simp_all add: word_less_nat_alt)
    have "(ucast v + of_nat 0 - 1 :: u32) = of_nat (unat v - 1)" using v by (simp add: of_nat_diff)
    moreover have "unat (of_nat (unat v - 1) :: u32) = unat v - 1" using v by (intro unat_of_nat_small) simp
    moreover have "unat (v - 1) = unat v - 1" using v by (simp add: unat_sub word_le_nat_alt)
    ultimately show ?thesis using v by (simp add: word_unat_eq_iff unsigned_ucast_eq take_bit_nat_eq_self)
  qed
  then show "Paint_DrawPoint x y c DOT_PIXEL_1X1 DOT_FILL_AROUND p = Paint_SetPixel (x - 1) (y - 1) c p"
    using assms by (simp add: Paint_DrawPoint_def point_column_fold not_less)
  have "unat (v - 1) = unat v - 1" if "0 < v" for v :: u16
    using that by (simp add: unat_sub word_le_nat_alt word_less_nat_alt)
  then show "x - 1 < Width p" "y - 1 < Height p"
    using assms by (auto simp: word_less_nat_alt word_le_nat_alt)
qed

lemma pixels_of_points:
  assumes "paint_wf p" "\<And>q. q \<in> set qs \<Longrightarrow> 0 < fst q \<and> fst q \<le> Width p \<and> 0 < fst (snd q) \<and> fst (snd q) \<le> Height p"
    and "x < Width p" "y < Height p"
  shows "pixel (fold (\<lambda>q. Paint_DrawPoint (fst q) (fst (snd q)) c DOT_PIXEL_1X1 DOT_FILL_AROUND) qs p) x y =
    (if \<exists>q\<in>set qs. fst q = x + 1 \<and> fst (snd q) = y + 1 then ucast (c mod 4) else pixel p x y)"
  using assms
proof (induction qs arbitrary: p)
  case (Cons q qs)
  let ?p = "Paint_SetPixel (fst q - 1) (fst (snd q) - 1) c p"
  have q: "0 < fst q" "fst q \<le> Width p" "0 < fst (snd q)" "fst (snd q) \<le> Height p" using Cons.prems(2) by simp_all
  note d = DrawPoint_one(1) [OF Cons.prems(1) q, of c] DrawPoint_one(2,3) [OF Cons.prems(1) q]
  note i = only_imageD [OF SetPixel_within(1) [OF Cons.prems(1) d(2,3), of c]]
  have A: "pixel (fold (\<lambda>q. Paint_DrawPoint (fst q) (fst (snd q)) c DOT_PIXEL_1X1 DOT_FILL_AROUND) qs ?p) x y =
    (if \<exists>q\<in>set qs. fst q = x + 1 \<and> fst (snd q) = y + 1 then ucast (c mod 4) else pixel ?p x y)"
    using Cons.prems i by (intro Cons.IH) simp_all
  have B: "pixel ?p x y = (if x = fst q - 1 \<and> y = fst (snd q) - 1 then ucast (c mod 4) else pixel p x y)"
    by (rule SetPixel_within(2) [OF Cons.prems(1) d(2,3) Cons.prems(3,4)])
  have C: "x = fst q - 1 \<longleftrightarrow> fst q = x + 1" "y = fst (snd q) - 1 \<longleftrightarrow> fst (snd q) = y + 1" by auto
  show ?case unfolding fold_simps(2) d(1) A B C by auto
qed simp

text \<open>The axis-parallel lines of one pixel.\<close>

lemma DrawLine_axis:
  assumes "paint_wf p" "xs = xe \<or> ys = ye" "0 < xs" "0 < xe" "0 < ys" "0 < ye"
    and "xs \<le> Width p" "xe \<le> Width p" "ys \<le> Height p" "ye \<le> Height p" "x < Width p" "y < Height p"
  shows "pixel (the (Paint_DrawLine xs ys xe ye c DOT_PIXEL_1X1 LINE_STYLE_SOLID p)) x y =
    (if x + 1 \<in> segment xs xe \<and> y + 1 \<in> segment ys ye then ucast (c mod 4) else pixel p x y)"
proof -
  define sx sy :: u16 where "sx = (if xs < xe then 1 else - 1)" and "sy = (if ys < ye then 1 else - 1)"
  define dx where "dx = (if uint xe - uint xs \<ge> 0 then uint xe - uint xs else - (uint xe - uint xs))"
  define dy where "dy = (if uint ye - uint ys \<le> 0 then uint ye - uint ys else - (uint ye - uint ys))"
  have e: "Paint_DrawLine xs ys xe ye c DOT_PIXEL_1X1 LINE_STYLE_SOLID p =
      line_loop (line_step xe ye dx dy sx sy) c DOT_PIXEL_1X1 LINE_STYLE_SOLID 0 (xs, ys, dx + dy) p"
    using assms(7-10) unfolding Paint_DrawLine_def sx_def sy_def dx_def dy_def Let_def
    by (simp only: if_False not_less [symmetric] simp_thms)
  have prods: "(\<lambda>(u, v). (u, v, E)) ` (A \<times> {b}) = (\<lambda>u. (u, b, E)) ` A"
    "(\<lambda>(u, v). (u, v, E)) ` ({a} \<times> B) = (\<lambda>v. (a, v, E)) ` B" for A B :: "u16 set" and a b and E :: int
    by auto
  have "\<exists>qs. traverses (line_step xe ye dx dy sx sy) qs \<and> hd qs = (xs, ys, dx + dy) \<and>
    set qs = (\<lambda>(u, v). (u, v, dx + dy)) ` (segment xs xe \<times> segment ys ye)"
  proof (cases "ys = ye")
    case True
    then have dy: "dy = 0" by (simp add: dy_def)
    have "on_way xs xe sx xs" unfolding sx_def by (rule on_way_start)
    moreover have "0 < dx \<or> xs = xe" "0 \<le> dx" by (auto simp: dx_def word_uint_eq_iff)
    ultimately show ?thesis
      using traverses_horizontal [of dx xs xe sx xs ye sy ys] True by (simp add: dy segment_end prods)
  next
    case False
    then have xe: "xs = xe" and dx: "dx = 0" using assms(2) by (simp_all add: dx_def)
    have "on_way ys ye sy ys" unfolding sy_def by (rule on_way_start)
    moreover have "dy < 0" using False by (auto simp: dy_def word_uint_eq_iff)
    ultimately show ?thesis
      using traverses_vertical [of dy ys ye sy ys xe sx xs] xe by (simp add: dx segment_end prods)
  qed
  then obtain qs where qs: "traverses (line_step xe ye dx dy sx sy) qs" "hd qs = (xs, ys, dx + dy)"
    "set qs = (\<lambda>(u, v). (u, v, dx + dy)) ` (segment xs xe \<times> segment ys ye)" by blast
  have in_: "0 < u \<and> u \<le> Width p \<and> 0 < v \<and> v \<le> Height p" if "u \<in> segment xs xe" "v \<in> segment ys ye" for u v
    using that assms(3-10) unfolding segment_def word_less_nat_alt word_le_nat_alt
    by (auto simp: min_def max_def split: if_splits)
  have "Paint_DrawLine xs ys xe ye c DOT_PIXEL_1X1 LINE_STYLE_SOLID p =
      Some (fold (\<lambda>q. Paint_DrawPoint (fst q) (fst (snd q)) c DOT_PIXEL_1X1 DOT_FILL_AROUND) qs p)"
    unfolding e qs(2) [symmetric] by (rule line_loop_solid [OF qs(1)])
  then show ?thesis
    using pixels_of_points [OF assms(1) _ assms(11,12), of qs c] in_ by (force simp: qs(3))
qed

text \<open>
  C37: Lines.  When both end points of a line of width \<open>w\<close> lie so that its points fit into the
  image, \<^verbatim>\<open>Paint_DrawLine\<close> returns and changes no pixel outside the box around the end
  points, widened by the point size, and nothing but the image.  A solid line of width one that is
  parallel to an axis colours exactly the pixels of the segment from one end point to the other,
  shifted by one pixel to the left and one up: a point given as \<open>(x, y)\<close> is painted at the pixel
  \<open>(x - 1, y - 1)\<close>, so the coordinates count from one, while \<^verbatim>\<open>Paint_SetPixel\<close> counts from zero.
\<close>

theorem line_drawing:
  assumes "paint_wf p" "point_ok w xs ys p" "point_ok w xe ye p"
  shows "\<exists>p'. Paint_DrawLine xs ys xe ye c w style p = Some p' \<and> paints (line_area w xs ys xe ye) p p' \<and>
    (w = DOT_PIXEL_1X1 \<and> style = LINE_STYLE_SOLID \<and> (xs = xe \<or> ys = ye) \<and> 0 < xs \<and> 0 < xe \<and> 0 < ys \<and> 0 < ye \<longrightarrow>
       (\<forall>x y. x < Width p \<and> y < Height p \<longrightarrow>
          pixel p' x y = (if x + 1 \<in> segment xs xe \<and> y + 1 \<in> segment ys ye then ucast (c mod 4) else pixel p x y)))"
proof -
  obtain p' where p': "Paint_DrawLine xs ys xe ye c w style p = Some p'" "paints (line_area w xs ys xe ye) p p'"
    using DrawLine_paints [OF assms, of c style] by blast
  have "pixel p' x y = (if x + 1 \<in> segment xs xe \<and> y + 1 \<in> segment ys ye then ucast (c mod 4) else pixel p x y)"
    if "w = DOT_PIXEL_1X1 \<and> style = LINE_STYLE_SOLID \<and> (xs = xe \<or> ys = ye) \<and> 0 < xs \<and> 0 < xe \<and> 0 < ys \<and> 0 < ye"
      "x < Width p \<and> y < Height p" for x y
    using DrawLine_axis [OF assms(1), of xs xe ys ye x y c] that assms(2,3) p'(1)
    by (simp add: point_ok_def word_le_nat_alt)
  then show ?thesis using p' by blast
qed

theorem line_drawing_witness:
  "pixel (the (Paint_DrawLine 1 4 3 4 RED 1 0 (demo_paint [0, 0, 0, 0, 0, 0]))) 1 3 = 3"
proof -
  let ?p = "demo_paint [0, 0, 0, 0, 0, 0]"
  have "Width ?p = 3" "Height ?p = 8"
    by (simp_all add: demo_paint_def Paint_SetScale_def Paint_NewImage_def Let_def)
  then show ?thesis
    using line_drawing [OF demo_paint_wf, of "[0, 0, 0, 0, 0, 0]" 1 1 4 3 4 RED 0]
    by (auto simp: point_ok_def segment_def)
qed

text \<open>An oblique line can miss its end point: from (1, 1) to (3, 2) the pixel of the end point keeps
  its colour.\<close>

lemma line_misses_end:
  assumes "paint_wf p" "3 \<le> Width p" "2 \<le> Height p"
  shows "pixel (the (Paint_DrawLine 1 1 3 2 c DOT_PIXEL_1X1 LINE_STYLE_SOLID p)) 2 1 = pixel p 2 1"
proof -
  let ?nxt = "line_step 3 2 2 (- 1) 1 1"
  have t: "traverses ?nxt [(1, 1, 1), (2, 2, 2)]" by (simp add: line_step_def)
  have sz: "1 \<le> Width p" "2 \<le> Width p" "1 \<le> Height p" "2 < Width p" "1 < Height p"
    using assms(2,3) by (auto simp: word_le_nat_alt word_less_nat_alt)
  have "Paint_DrawLine 1 1 3 2 c DOT_PIXEL_1X1 LINE_STYLE_SOLID p = line_loop ?nxt c DOT_PIXEL_1X1 LINE_STYLE_SOLID 0 (1, 1, 1) p"
  proof -
    have "\<not> (1 > Width p \<or> 1 > Height p \<or> 3 > Width p \<or> 2 > Height p)"
      using sz assms(2,3) by (simp only: not_less de_Morgan_disj simp_thms)
    then show ?thesis unfolding Paint_DrawLine_def by (simp only: if_False) simp
  qed
  then have e: "Paint_DrawLine 1 1 3 2 c DOT_PIXEL_1X1 LINE_STYLE_SOLID p =
      Some (fold (\<lambda>q. Paint_DrawPoint (fst q) (fst (snd q)) c DOT_PIXEL_1X1 DOT_FILL_AROUND) [(1, 1, 1), (2, 2, 2 :: int)] p)"
    using line_loop_solid [OF t, of c DOT_PIXEL_1X1 0 p] by simp
  have q: "\<And>q. q \<in> set [(1, 1, 1), (2, 2, 2 :: int)] \<Longrightarrow> 0 < fst q \<and> fst q \<le> Width p \<and> 0 < fst (snd q) \<and> fst (snd q) \<le> Height p"
    using sz assms(3) by auto
  show ?thesis using pixels_of_points [where qs = "[(1, 1, 1), (2, 2, 2 :: int)]" and c = c, OF assms(1) q sz(4,5)] by (simp add: e)
qed

section \<open>Clearing and texts\<close>

lemma image_small: "paint_wf p \<Longrightarrow> length (Image p) < 2 ^ 32"
proof -
  assume wf: "paint_wf p"
  have "unat (WidthByte p) < 2 ^ 16" "unat (HeightMemory p) < 2 ^ 16"
    using unsigned_less [of "WidthByte p"] unsigned_less [of "HeightMemory p"] by simp_all
  then have "unat (WidthByte p) * unat (HeightMemory p) < 2 ^ 16 * 2 ^ 16" by (intro mult_strict_mono) simp_all
  then show ?thesis using wf by (simp add: paint_wf_def)
qed

lemma only_image_paints: "only_image p p' \<Longrightarrow> paints UNIV p p'"
  by (simp add: paints_def)

lemma paints_upd_byte: "unat a < length (Image p) \<Longrightarrow> paints UNIV p (upd_byte a f p)"
  by (intro only_image_paints) (simp add: upd_byte_within only_image_def)

lemma paints_for_bytes:
  assumes "paint_wf p" "\<And>a q. paint_wf q \<Longrightarrow> unat a < length (Image q) \<Longrightarrow> paints UNIV q (f a q)"
  shows "paints UNIV p (for_bytes f p)"
proof -
  have addr: "unat (of_nat x + of_nat y * ucast (WidthByte p) :: u32) < length (Image p)"
    if "y < unat (HeightByte p)" "x < unat (WidthByte p)" for x y
  proof -
    have "x + y * unat (WidthByte p) < Suc y * unat (WidthByte p)" using that(2) by simp
    also have "\<dots> \<le> unat (HeightByte p) * unat (WidthByte p)" using that(1) by (intro mult_right_mono) simp_all
    also have "\<dots> = length (Image p)" using assms(1) by (simp add: paint_wf_def)
    finally have l: "x + y * unat (WidthByte p) < length (Image p)" .
    have e: "of_nat x + of_nat y * ucast (WidthByte p) = (of_nat (x + y * unat (WidthByte p)) :: u32)" by simp
    have "x + y * unat (WidthByte p) < 2 ^ LENGTH(32)" using l image_small [OF assms(1)] by simp
    then show ?thesis unfolding e using l by (simp only: unat_of_nat_small)
  qed
  have "paints UNIV p (fold (\<lambda>y. fold (\<lambda>x. f (of_nat x + of_nat y * ucast (WidthByte p))) [0..<unat (WidthByte p)])
       [0..<unat (HeightByte p)] p)"
  proof (rule paints_sequence [OF _ assms(1)], rule paints_sequence)
    fix y q x r
    assume "y \<in> set [0..<unat (HeightByte p)]" "only_image p q" "x \<in> set [0..<unat (WidthByte p)]" "only_image q r" "paint_wf r"
    then show "paints UNIV r (f (of_nat x + of_nat y * ucast (WidthByte p)) r)"
      using addr [of y x] only_imageD(8) [of p q] only_imageD(8) [of q r] by (intro assms(2)) simp_all
  qed
  then show ?thesis by (simp add: for_bytes_def)
qed

lemma paints_Clear: "paint_wf p \<Longrightarrow> paints UNIV p (Paint_Clear c p)"
  unfolding Paint_Clear_def Let_def by (auto intro!: paints_for_bytes paints_upd_byte)

text \<open>A glyph whose pixels and bytes all exist.\<close>

definition row_bytes :: "u16 \<Rightarrow> nat" where
  "row_bytes w = (if w mod 8 \<noteq> 0 then unat w div 8 + 1 else unat w div 8)"

lemma paints_glyph_row:
  assumes "base + (unat w - 1) div 8 < length tbl" "unat x + unat w < 0xFFF0"
  shows "i \<le> unat w \<Longrightarrow> paint_wf p \<Longrightarrow> unat x + unat w \<le> unat (Width p) \<Longrightarrow> y < Height p \<Longrightarrow>
    \<exists>p'. glyph_row tbl x y fg bg [i..<unat w] (base + i div 8) p = (base + unat w div 8, p') \<and> paints UNIV p p'"
proof (induction "unat w - i" arbitrary: i p)
  case 0
  then show ?case by simp
next
  case (Suc n)
  then have i: "i < unat w" by simp
  have up: "[i..<unat w] = i # [Suc i..<unat w]" using i by (simp add: upt_conv_Cons)
  have "i div 8 \<le> (unat w - 1) div 8" using i by (intro div_le_mono) simp
  then have rd: "get_at (base + i div 8) 0 tbl = (False, tbl ! (base + i div 8))" using assms(1) by (simp add: get_at_def)
  have "x + of_nat i = (of_nat (unat x + i) :: u16)" by simp
  then have "unat (x + of_nat i) = unat x + i" using assms(2) i by (simp only:) (rule unat_of_nat_small, simp)
  then have xi: "x + of_nat i < Width p" using Suc.prems(3) i by (simp add: word_less_nat_alt)
  have same: "p\<lparr>img_oob := img_oob p \<or> False\<rparr> = p" by simp
  let ?b = "tbl ! (base + i div 8) AND drop_bit (i mod 8) 0x80 \<noteq> 0"
  let ?p = "if ?b then Paint_SetPixel (x + of_nat i) y fg p
            else if FONT_BACKGROUND = bg then p else Paint_SetPixel (x + of_nat i) y bg p"
  have s: "paints UNIV p ?p"
    using paints_mono [OF paints_SetPixel [OF Suc.prems(2)]] xi Suc.prems(4) by auto
  have ptr: "(if i mod 8 = 7 then base + i div 8 + 1 else base + i div 8) = base + Suc i div 8"
    by (simp add: div_Suc) arith
  have "\<exists>p'. glyph_row tbl x y fg bg [Suc i..<unat w] (base + Suc i div 8) ?p = (base + unat w div 8, p') \<and> paints UNIV ?p p'"
    using Suc.hyps(2) i paints_wf [OF s Suc.prems(2)] paints_size [OF s] Suc.prems(3,4)
    by (intro Suc.hyps(1)) simp_all
  then obtain p' where p': "glyph_row tbl x y fg bg [Suc i..<unat w] (base + Suc i div 8) ?p = (base + unat w div 8, p')"
    "paints UNIV ?p p'" by blast
  have "glyph_row tbl x y fg bg [i..<unat w] (base + i div 8) p = (base + unat w div 8, p')"
    by (simp only: up glyph_row.simps Let_def rd prod.case same ptr p'(1))
  then show ?case using paints_trans [OF s p'(2)] by blast
qed

lemma paints_glyph_rows:
  assumes "paint_wf p" "1 \<le> unat w" "unat x + unat w \<le> unat (Width p)" "unat y + h \<le> unat (Height p)"
    and "h * row_bytes w \<le> length tbl"
  shows "j \<le> h \<Longrightarrow> paints UNIV p (glyph_rows tbl w x y fg bg [j..<h] (j * row_bytes w) p)"
  using assms
proof (induction "h - j" arbitrary: j p)
  case 0
  then show ?case by simp
next
  case (Suc n)
  note pr = Suc.prems
  note sz = image_bounds [OF pr(2)]
  have j: "j < h" and up: "[j..<h] = j # [Suc j..<h]" using Suc.hyps(2) by (simp_all add: upt_conv_Cons)
  have rb: "(unat w - 1) div 8 < row_bytes w"
  proof -
    have "w mod 8 \<noteq> 0 \<longleftrightarrow> unat w mod 8 \<noteq> 0" by (simp add: word_unat_eq_iff unat_mod)
    then show ?thesis using pr(3) unfolding row_bytes_def by (simp split: if_splits) arith+
  qed
  have "Suc j * row_bytes w \<le> h * row_bytes w" using j by (intro mult_le_mono1) simp
  then have base: "j * row_bytes w + (unat w - 1) div 8 < length tbl" using rb pr(6) by simp
  have "y + of_nat j = (of_nat (unat y + j) :: u16)" by simp
  then have "unat (y + of_nat j) = unat y + j" using pr(5) sz j by (simp only:) (rule unat_of_nat_small, simp)
  then have y: "y + of_nat j < Height p" using pr(5) j by (simp add: word_less_nat_alt)
  have "unat x + unat w < 0xFFF0" using pr(4) sz by simp
  then obtain p1 where p1: "glyph_row tbl x (y + of_nat j) fg bg [0..<unat w] (j * row_bytes w) p =
      (j * row_bytes w + unat w div 8, p1)" "paints UNIV p p1"
    using paints_glyph_row [OF base, of x 0 p "y + of_nat j" fg bg] pr(2,4) y by auto
  have ptr: "(if w mod 8 \<noteq> 0 then j * row_bytes w + unat w div 8 + 1 else j * row_bytes w + unat w div 8) = Suc j * row_bytes w"
    by (simp add: row_bytes_def)
  have "paints UNIV p1 (glyph_rows tbl w x y fg bg [Suc j..<h] (Suc j * row_bytes w) p1)"
    using Suc.hyps(2) j pr(3,6) paints_wf [OF p1(2) pr(2)] paints_size [OF p1(2)] pr(4,5) by (intro Suc.hyps(1)) simp_all
  then show ?case
    using paints_trans [OF p1(2)] by (simp only: up glyph_rows.simps p1(1) Let_def prod.case ptr)
qed

text \<open>Three-byte characters next to each other.\<close>

definition font_ok :: "cFONT \<Rightarrow> bool" where
  "font_ok font \<longleftrightarrow> 1 \<le> unat (cf_Width font) \<and>
     (\<forall>g\<in>set (cf_table font). unat (cf_Height font) * row_bytes (cf_Width font) \<le> length (cn_matrix g))"

lemma paints_draw_CN:
  assumes "font_ok font" "paint_wf p" "unat x + unat (cf_Width font) \<le> unat (Width p)"
    and "unat y + unat (cf_Height font) \<le> unat (Height p)"
  shows "paints UNIV p (draw_CN font x y fg bg (find_glyph font key) p)"
proof (cases "find_glyph font key")
  case (Some g)
  note sz = image_bounds [OF assms(2)]
  have "g \<in> set (take (unat (cf_size font)) (cf_table font))"
    using Some unfolding find_glyph_def by (metis (no_types, lifting) find_Some_iff nth_mem)
  then have g: "unat (cf_Height font) * row_bytes (cf_Width font) \<le> length (cn_matrix g)"
    using assms(1) by (auto simp: font_ok_def dest: in_set_takeD)
  have u: "unat (ucast x :: u16) = unat x" "unat (ucast y :: u16) = unat y"
    using assms(3,4) sz by (simp_all add: unsigned_ucast_eq take_bit_nat_eq_self)
  have "paints UNIV p (glyph_rows (cn_matrix g) (cf_Width font) (ucast x) (ucast y) fg bg [0..<unat (cf_Height font)]
      (0 * row_bytes (cf_Width font)) p)"
    using assms g u by (intro paints_glyph_rows) (simp_all add: font_ok_def)
  then show ?thesis by (simp add: draw_CN_def Some)
qed (simp add: draw_CN_def)

fun wide_text :: "u8 list \<Rightarrow> bool" where
  "wide_text (a # b # c # cs) = (0x7F < a \<and> wide_text cs)"
| "wide_text [a] = (a = 0)"
| "wide_text _ = False"

lemma paints_string_CN:
  assumes "font_ok font"
  shows "wide_text cs \<Longrightarrow> paint_wf p \<Longrightarrow> unat x + (length cs div 3) * unat (cf_Width font) \<le> unat (Width p) \<Longrightarrow>
    unat y + unat (cf_Height font) \<le> unat (Height p) \<Longrightarrow> paints UNIV p (string_CN cs font fg bg x y p)"
proof (induction cs arbitrary: x p rule: wide_text.induct)
  case (1 a b c cs)
  note sz = image_bounds [OF "1.prems"(2)]
  have "length (a # b # c # cs) div 3 = Suc (length cs div 3)" by simp
  then have room: "unat x + unat (cf_Width font) + length cs div 3 * unat (cf_Width font) \<le> unat (Width p)"
    using "1.prems"(3) by (simp only: mult_Suc add.assoc)
  have a: "a \<noteq> 0" "\<not> a \<le> 0x7F" using "1.prems"(1) by (auto simp: word_less_nat_alt word_le_nat_alt)
  let ?p = "draw_CN font x y fg bg (find_glyph font (take 3 (a # b # c # cs))) p"
  have s: "paints UNIV p ?p" using "1.prems"(2,4) room by (intro paints_draw_CN [OF assms]) simp_all
  have "x + ucast (cf_Width font) = (of_nat (unat x + unat (cf_Width font)) :: u32)" by simp
  then have "unat (x + ucast (cf_Width font)) = unat x + unat (cf_Width font)"
    using room sz by (simp only:) (rule unat_of_nat_small, simp)
  then have "paints UNIV ?p (string_CN cs font fg bg (x + ucast (cf_Width font)) y ?p)"
    using "1.prems"(1,4) room paints_wf [OF s "1.prems"(2)] paints_size [OF s] by (intro "1.IH") simp_all
  then have "paints UNIV p (string_CN cs font fg bg (x + ucast (cf_Width font)) y ?p)" by (rule paints_trans [OF s])
  then show ?case using a by simp
qed simp_all

section \<open>Rectangles and the first picture\<close>

definition draws :: "PAINT \<Rightarrow> (PAINT \<Rightarrow> PAINT option) \<Rightarrow> bool" where
  "draws p f \<longleftrightarrow> (\<forall>q. paint_wf q \<and> Width q = Width p \<and> Height q = Height p \<longrightarrow> (\<exists>q'. f q = Some q' \<and> paints UNIV q q'))"

lemma draws_all:
  assumes "\<forall>f\<in>set fs. draws p f"
  shows "draws p (draw_all fs)"
  using assms
proof (induction fs)
  case (Cons f fs)
  show ?case
    unfolding draws_def
  proof (intro allI impI)
    fix q
    assume q: "paint_wf q \<and> Width q = Width p \<and> Height q = Height p"
    then obtain r where r: "f q = Some r" "paints UNIV q r" using Cons.prems by (auto simp: draws_def)
    then obtain r' where "draw_all fs r = Some r'" "paints UNIV r r'"
      using Cons q paints_wf [OF r(2)] paints_size [OF r(2)] by (auto simp: draws_def)
    then show "\<exists>q'. draw_all (f # fs) q = Some q' \<and> paints UNIV q q'"
      using r paints_trans [OF r(2)] by auto
  qed
qed (simp add: draws_def)

lemma draws_line:
  assumes "point_ok w xs ys p" "point_ok w xe ye p"
  shows "draws p (Paint_DrawLine xs ys xe ye c w style)"
  unfolding draws_def
proof (intro allI impI)
  fix q
  assume q: "paint_wf q \<and> Width q = Width p \<and> Height q = Height p"
  then have "point_ok w xs ys q" "point_ok w xe ye q" using assms by (simp_all add: point_ok_def)
  from DrawLine_paints [OF conjunct1 [OF q] this] show "\<exists>q'. Paint_DrawLine xs ys xe ye c w style q = Some q' \<and> paints UNIV q q'"
    using paints_mono by blast
qed

lemma draws_rectangle:
  assumes "point_ok w xs ys p" "point_ok w xe ye p"
  shows "draws p (Paint_DrawRectangle xs ys xe ye c w fill)"
proof -
  have ok: "point_ok w xe ys p" "point_ok w xs ye p" using assms by (simp_all add: point_ok_def)
  have row: "point_ok w x (of_nat y) p" if "y < unat ye" "point_ok w x ye p" for x y
  proof -
    have "unat ye < 2 ^ LENGTH(16)" by (rule unsigned_less)
    then have "unat (of_nat y :: u16) = y" using that(1) by (intro unat_of_nat_small) simp
    then show ?thesis using that by (simp add: point_ok_def)
  qed
  define fs where "fs = (if fill
      then map (\<lambda>y. Paint_DrawLine xs (of_nat y) xe (of_nat y) c w LINE_STYLE_SOLID) [unat ys..<unat ye]
      else [Paint_DrawLine xs ys xe ys c w LINE_STYLE_SOLID, Paint_DrawLine xs ys xs ye c w LINE_STYLE_SOLID,
           Paint_DrawLine xe ye xe ys c w LINE_STYLE_SOLID, Paint_DrawLine xe ye xs ye c w LINE_STYLE_SOLID])"
  have "\<forall>f\<in>set fs. draws p f"
    using assms ok row by (auto simp: fs_def intro!: draws_line)
  then have "draws p (draw_all fs)" by (rule draws_all)
  moreover have "Paint_DrawRectangle xs ys xe ye c w fill q =
      (if xs > Width q \<or> ys > Height q \<or> xe > Width q \<or> ye > Height q then Some q else draw_all fs q)" for q
    by (simp add: Paint_DrawRectangle_def fs_def)
  ultimately show ?thesis by (auto simp: draws_def)
qed

lemma draws_step:
  assumes "draws p f" "paint_wf q" "Width q = Width p" "Height q = Height p"
  obtains r where "f q = Some r" "paints UNIV q r" "paint_wf r" "Width r = Width p" "Height r = Height p"
    "img_oob r = img_oob q" "length (Image r) = length (Image q)"
proof -
  obtain r where r: "f q = Some r" "paints UNIV q r" using assms by (auto simp: draws_def)
  have "length (Image r) = length (Image q)" using r(2) only_imageD(8) [of q r] by (simp add: paints_def)
  then show thesis using that [OF r paints_wf [OF r(2) assms(2)]] paints_size [OF r(2)] assms(3,4) by simp
qed

text \<open>
  C38: The first picture.  With the buffer of the display's size and the font's glyphs of 32 by 41
  pixels, \<^verbatim>\<open>Display_First\<close> returns, no drawing in it accesses memory outside the buffer or
  the font, and the black line under the title is there in the end.
\<close>

theorem first_picture:
  assumes "length img = EPD_BUFFER_SIZE" "font_ok font" "cf_Width font = 32" "cf_Height font = 41"
  shows "\<exists>p'. Display_First font img p = Some p' \<and> img_oob p' = img_oob p \<and> length (Image p') = EPD_BUFFER_SIZE \<and>
    (\<forall>x. 44 \<le> unat x \<and> unat x \<le> 239 \<longrightarrow> pixel p' x 57 = 0)"
proof -
  define p3 where "p3 = Paint_SetScale 4 (Paint_NewImage img (of_nat EPD_WIDTH) (of_nat EPD_HEIGHT) ROTATE_270 WHITE p)"
  have sz: "Width p3 = 250" "Height p3 = 128" "img_oob p3 = img_oob p" "Image p3 = img"
    by (simp_all add: p3_def Paint_SetScale_def Paint_NewImage_def EPD_WIDTH_def EPD_HEIGHT_def Let_def)
  have wf: "paint_wf p3"
    using assms(1) by (simp add: p3_def Paint_SetScale_def Paint_NewImage_def EPD_WIDTH_def EPD_HEIGHT_def
        EPD_BUFFER_SIZE_def paint_wf_def oriented_def Let_def)
  have sel: "Paint_SelectImage (Image p3) p3 = p3" by (simp add: Paint_SelectImage_def)
  let ?p4 = "Paint_Clear WHITE p3"
  have c: "paints UNIV p3 ?p4" by (rule paints_Clear [OF wf])
  note s4 = paints_wf [OF c wf] paints_size [OF c]
  have l4: "length (Image ?p4) = EPD_BUFFER_SIZE"
    using c only_imageD(8) [of p3 ?p4] assms(1) sz(4) by (simp add: paints_def)
  have ok: "point_ok w x y p3" if "1 \<le> unat w" "unat w \<le> 2" "unat x \<le> 248" "unat y \<le> 120" for w x y
    using that by (simp add: point_ok_def sz)
  have r: "draws p3 (Paint_DrawRectangle xs ys xe ye c w fill)"
    if "1 \<le> unat w" "unat w \<le> 2" "unat xs \<le> 248" "unat ys \<le> 120" "unat xe \<le> 248" "unat ye \<le> 120" for xs ys xe ye c w fill
    using that ok by (intro draws_rectangle) simp_all
  obtain q1 where q1: "Paint_DrawRectangle 2 2 248 120 BLACK DOT_PIXEL_2X2 False ?p4 = Some q1" "paint_wf q1"
    "Width q1 = Width p3" "Height q1 = Height p3" "img_oob q1 = img_oob ?p4" "length (Image q1) = length (Image ?p4)"
    using draws_step [OF r, of DOT_PIXEL_2X2 2 2 248 120 ?p4 BLACK False] s4 by auto
  obtain q2 where q2: "Paint_DrawRectangle 5 5 245 117 YELLOW DOT_PIXEL_1X1 False q1 = Some q2" "paint_wf q2"
    "Width q2 = Width p3" "Height q2 = Height p3" "img_oob q2 = img_oob q1" "length (Image q2) = length (Image q1)"
    using draws_step [OF r, of DOT_PIXEL_1X1 5 5 245 117 q1 YELLOW False] q1 by auto
  obtain q3 where q3: "Paint_DrawRectangle 8 8 35 114 RED DOT_PIXEL_1X1 True q2 = Some q3" "paint_wf q3"
    "Width q3 = Width p3" "Height q3 = Height p3" "img_oob q3 = img_oob q2" "length (Image q3) = length (Image q2)"
    using draws_step [OF r, of DOT_PIXEL_1X1 8 8 35 114 q2 RED True] q2 by auto
  let ?q4 = "Paint_DrawString_CN 45 15 first_text font BLACK WHITE q3"
  have t: "wide_text first_text" "length first_text div 3 = 6" by (simp_all add: first_text_def)
  have "paints UNIV q3 ?q4"
    unfolding Paint_DrawString_CN_def using assms(2-4) t q3 sz by (intro paints_string_CN) simp_all
  note q4 = paints_wf [OF this q3(2)] paints_size [OF this] only_imageD(8) [of q3 ?q4] this
  have l5: "point_ok DOT_PIXEL_1X1 45 58 ?q4" "point_ok DOT_PIXEL_1X1 240 58 ?q4"
    using q4(2) q3 sz by (simp_all add: point_ok_def)
  obtain q5 where q5: "Paint_DrawLine 45 58 240 58 BLACK DOT_PIXEL_1X1 LINE_STYLE_SOLID ?q4 = Some q5"
    "paints (line_area DOT_PIXEL_1X1 45 58 240 58) ?q4 q5"
    using DrawLine_paints [OF q4(1) l5, of BLACK LINE_STYLE_SOLID] by blast
  note s5 = paints_wf [OF q5(2) q4(1)] paints_size [OF q5(2)]
  have line: "pixel q5 x 57 = 0" if "44 \<le> unat x" "unat x \<le> 239" for x
  proof -
    have "unat (x + 1) = Suc (unat x)" by (rule u16_incr [of x 240]) (use that in simp)
    then have "x + 1 \<in> segment 45 240" "57 + 1 \<in> segment 58 58" "x < Width ?q4" "57 < Height ?q4"
      using that q4(2) q3 sz by (simp_all add: segment_def word_less_nat_alt)
    then show ?thesis
      using DrawLine_axis [OF q4(1), of 45 240 58 58 x 57 BLACK] q5(1) q4(2) q3 sz by simp
  qed
  have l6: "point_ok DOT_PIXEL_2X2 45 105 q5" "point_ok DOT_PIXEL_2X2 240 105 q5"
    using s5(2) q4(2) q3 sz by (simp_all add: point_ok_def)
  obtain q6 where q6: "Paint_DrawLine 45 105 240 105 YELLOW DOT_PIXEL_2X2 LINE_STYLE_SOLID q5 = Some q6"
    "paints (line_area DOT_PIXEL_2X2 45 105 240 105) q5 q6"
    using DrawLine_paints [OF s5(1) l6, of YELLOW LINE_STYLE_SOLID] by blast
  have "Display_First font img p = Some q6"
    unfolding Display_First_def Let_def p3_def [symmetric] sel by (simp add: q1(1) q2(1) q3(1) q5(1) q6(1))
  moreover have "pixel q6 x 57 = 0" if "44 \<le> unat x" "unat x \<le> 239" for x
  proof -
    have "x < Width q5" "57 < Height q5" using that s5(2) q4(2) q3 sz by (simp_all add: word_less_nat_alt)
    then have "pixel q6 x 57 = pixel q5 x 57" using q6(2) by (simp add: paints_def line_area_def)
    then show ?thesis using line [OF that] by simp
  qed
  moreover have "img_oob q6 = img_oob p"
    using paints_size [OF q6(2)] s5(2) q4(2) q3(5) q2(5) q1(5) s4(2) sz(3) by simp
  moreover have "length (Image q6) = EPD_BUFFER_SIZE"
    using q6(2) q5(2) q4(3,4) q3(6) q2(6) q1(6) l4 only_imageD(8) [of q5 q6] only_imageD(8) [of ?q4 q5]
    by (simp add: paints_def)
  ultimately show ?thesis by blast
qed

definition demo_font :: cFONT where
  "demo_font = \<lparr>cf_table = [\<lparr>cn_index = [0xE8, 0x8B, 0x8F, 0], cn_matrix = replicate 164 0xF0\<rparr>],
     cf_size = 1, cf_ASCII_Width = 17, cf_Width = 32, cf_Height = 41\<rparr>"

theorem first_picture_witness:
  "\<exists>p'. Display_First demo_font (replicate EPD_BUFFER_SIZE 0) (demo_paint []) = Some p' \<and> pixel p' 44 57 = 0"
proof -
  have f: "font_ok demo_font" "cf_Width demo_font = 32" "cf_Height demo_font = 41"
    by (simp_all add: demo_font_def font_ok_def row_bytes_def)
  show ?thesis
    using first_picture [OF _ f, of "replicate EPD_BUFFER_SIZE 0" "demo_paint []"] by auto
qed

end
