(* ===== verification/Los_Memory.thy ===== *)
theory Los_Memory
  imports Los_Task
begin

text \<open>
  \<^verbatim>\<open>kernel/src/mm/los_memory.c\<close>: the heap, a two-level segregated fit allocator, as it is
  configured (no integrity magic, no leak records, one pool, no expansion, with the water line).
  The pool's head is a record.  The memory behind it is a map from the addresses of words, so that
  the headers of the nodes, the links of free nodes and the contents of allocated blocks share it as
  in the program; addresses are natural numbers below \<open>2\<^sup>3\<^sup>2\<close>, 0 is \<^verbatim>\<open>NULL\<close>.  A
  search that may not end on a corrupted list is an option, \<^verbatim>\<open>LOS_Panic\<close> sets \<open>mem_panic\<close>.
\<close>

record OsMemPoolHead =
  info_pool :: nat
  totalSize :: u32
  attr :: u32
  waterLine :: u32
  curUsedSize :: u32
  freeListBitmap :: "nat \<Rightarrow> u32"
  freeList :: "nat \<Rightarrow> nat"
  mem :: "nat \<Rightarrow> u32"
  mem_panic :: bool

section \<open>Sizes and flags\<close>

text \<open>A head is 20 bytes of information, 7 words of bitmap and 223 list heads; a used node has a
  header of two words, a free node two links more.\<close>

abbreviation (input) OS_MEM_SLI :: nat where "OS_MEM_SLI \<equiv> 3"
abbreviation (input) OS_MEM_SMALL_BUCKET_COUNT :: u32 where "OS_MEM_SMALL_BUCKET_COUNT \<equiv> 31"
abbreviation (input) OS_MEM_SMALL_BUCKET_MAX_SIZE :: u32 where "OS_MEM_SMALL_BUCKET_MAX_SIZE \<equiv> 128"
abbreviation (input) OS_MEM_LARGE_START_BUCKET :: u32 where "OS_MEM_LARGE_START_BUCKET \<equiv> 7"
abbreviation (input) OS_MEM_FREE_LIST_COUNT :: u32 where "OS_MEM_FREE_LIST_COUNT \<equiv> 223"
abbreviation (input) OS_MEM_BITMAP_MASK :: u32 where "OS_MEM_BITMAP_MASK \<equiv> 0x1F"
abbreviation (input) OS_MEM_POOL_HEAD_SIZE :: nat where "OS_MEM_POOL_HEAD_SIZE \<equiv> 940"
abbreviation (input) OS_MEM_NODE_HEAD_SIZE :: nat where "OS_MEM_NODE_HEAD_SIZE \<equiv> 8"
abbreviation (input) OS_MEM_MIN_LEFT_SIZE :: u32 where "OS_MEM_MIN_LEFT_SIZE \<equiv> 16"
abbreviation (input) OS_MEM_MIN_ALLOC_SIZE :: u32 where "OS_MEM_MIN_ALLOC_SIZE \<equiv> 8"
abbreviation (input) OS_MEM_NODE_USED_FLAG :: u32 where "OS_MEM_NODE_USED_FLAG \<equiv> 0x80000000"
abbreviation (input) OS_MEM_NODE_ALIGNED_FLAG :: u32 where "OS_MEM_NODE_ALIGNED_FLAG \<equiv> 0x40000000"
abbreviation (input) OS_MEM_POOL_UNLOCK_ENABLE :: u32 where "OS_MEM_POOL_UNLOCK_ENABLE \<equiv> 2"

definition OS_MEM_NODE_GET_SIZE :: "u32 \<Rightarrow> u32" where
  "OS_MEM_NODE_GET_SIZE w = w AND NOT (OS_MEM_NODE_USED_FLAG OR OS_MEM_NODE_ALIGNED_FLAG)"

definition OS_MEM_ALIGN :: "u32 \<Rightarrow> u32 \<Rightarrow> u32" where
  "OS_MEM_ALIGN p alignSize = (p + alignSize - 1) AND NOT (alignSize - 1)"

section \<open>Fields of a node\<close>

text \<open>The word at an offset of a node: the previous node, the size with its flags, and the links of
  a free node.\<close>

definition node_prev :: "nat \<Rightarrow> OsMemPoolHead \<Rightarrow> nat" where
  "node_prev node h = unat (mem h node)"

definition sizeAndFlag :: "nat \<Rightarrow> OsMemPoolHead \<Rightarrow> u32" where
  "sizeAndFlag node h = mem h (node + 4)"

definition free_prev :: "nat \<Rightarrow> OsMemPoolHead \<Rightarrow> nat" where
  "free_prev node h = unat (mem h (node + 8))"

definition free_next :: "nat \<Rightarrow> OsMemPoolHead \<Rightarrow> nat" where
  "free_next node h = unat (mem h (node + 12))"

definition put_word :: "nat \<Rightarrow> u32 \<Rightarrow> OsMemPoolHead \<Rightarrow> OsMemPoolHead" where
  "put_word a w h = h\<lparr>mem := (mem h)(a := w)\<rparr>"

abbreviation set_prev :: "nat \<Rightarrow> nat \<Rightarrow> OsMemPoolHead \<Rightarrow> OsMemPoolHead" where
  "set_prev node p \<equiv> put_word node (of_nat p)"
abbreviation set_size :: "nat \<Rightarrow> u32 \<Rightarrow> OsMemPoolHead \<Rightarrow> OsMemPoolHead" where
  "set_size node w \<equiv> put_word (node + 4) w"
abbreviation set_free_prev :: "nat \<Rightarrow> nat \<Rightarrow> OsMemPoolHead \<Rightarrow> OsMemPoolHead" where
  "set_free_prev node p \<equiv> put_word (node + 8) (of_nat p)"
abbreviation set_free_next :: "nat \<Rightarrow> nat \<Rightarrow> OsMemPoolHead \<Rightarrow> OsMemPoolHead" where
  "set_free_next node p \<equiv> put_word (node + 12) (of_nat p)"

definition OS_MEM_NEXT_NODE :: "nat \<Rightarrow> OsMemPoolHead \<Rightarrow> nat" where
  "OS_MEM_NEXT_NODE node h = node + unat (OS_MEM_NODE_GET_SIZE (sizeAndFlag node h))"

definition OS_MEM_FIRST_NODE :: "nat \<Rightarrow> nat" where
  "OS_MEM_FIRST_NODE pool = pool + OS_MEM_POOL_HEAD_SIZE"

definition OS_MEM_END_NODE :: "nat \<Rightarrow> u32 \<Rightarrow> nat" where
  "OS_MEM_END_NODE pool sz = pool + unat sz - OS_MEM_NODE_HEAD_SIZE"

section \<open>The index of a size\<close>

definition OsMemFLS :: "u32 \<Rightarrow> u16" where
  "OsMemFLS bitmap = ucast (OS_MEM_BITMAP_MASK - of_nat (CLZ bitmap) :: u32)"

definition OsMemFFS :: "u32 \<Rightarrow> u16" where
  "OsMemFFS bitmap = (let b = bitmap AND (NOT bitmap + 1) in ucast (OS_MEM_BITMAP_MASK - of_nat (CLZ b) :: u32))"

definition OsMemLog2 :: "u32 \<Rightarrow> u32" where
  "OsMemLog2 sz = (if sz > 0 then ucast (OsMemFLS sz) else 0)"

definition OsMemFlGet :: "u32 \<Rightarrow> u32" where
  "OsMemFlGet sz =
     (if sz < OS_MEM_SMALL_BUCKET_MAX_SIZE then drop_bit 2 sz - 1
      else OsMemLog2 sz - OS_MEM_LARGE_START_BUCKET + OS_MEM_SMALL_BUCKET_COUNT)"

definition OsMemSlGet :: "u32 \<Rightarrow> u32 \<Rightarrow> u32" where
  "OsMemSlGet sz fl =
     (if fl < OS_MEM_SMALL_BUCKET_COUNT \<or> sz < OS_MEM_SMALL_BUCKET_MAX_SIZE then 0
      else drop_bit (unat (fl - OS_MEM_SMALL_BUCKET_COUNT + OS_MEM_LARGE_START_BUCKET)) (push_bit OS_MEM_SLI sz)
             - push_bit OS_MEM_SLI 1)"

definition OsMemFreeListIndexGet :: "u32 \<Rightarrow> u32" where
  "OsMemFreeListIndexGet sz =
     (let fl = OsMemFlGet sz
      in if fl < OS_MEM_SMALL_BUCKET_COUNT then fl
         else OS_MEM_SMALL_BUCKET_COUNT + push_bit OS_MEM_SLI (fl - OS_MEM_SMALL_BUCKET_COUNT) + OsMemSlGet sz fl)"

section \<open>Finding a free node\<close>

partial_function (option) OsMemFindCurSuitableBlock :: "nat \<Rightarrow> u32 \<Rightarrow> OsMemPoolHead \<Rightarrow> nat option" where
  "OsMemFindCurSuitableBlock node sz h =
     (if node = 0 then Some 0
      else if sizeAndFlag node h \<ge> sz then Some node
      else OsMemFindCurSuitableBlock (free_next node h) sz h)"

text \<open>The mask \<^verbatim>\<open>(1 << n) - 1\<close> is computed in 32 bits that wrap around.\<close>

definition OsMemNotEmptyIndexGet :: "u32 \<Rightarrow> OsMemPoolHead \<Rightarrow> u32" where
  "OsMemNotEmptyIndexGet index h =
     (let bits = freeListBitmap h (unat (drop_bit 5 index)) AND NOT (push_bit (unat (index AND OS_MEM_BITMAP_MASK)) 1 - 1)
      in if bits \<noteq> 0 then ucast (OsMemFFS bits) + (index AND NOT OS_MEM_BITMAP_MASK) else OS_MEM_FREE_LIST_COUNT)"

function scan_bitmap :: "u32 \<Rightarrow> OsMemPoolHead \<Rightarrow> u32 option" where
  "scan_bitmap index h =
     (if index < OS_MEM_FREE_LIST_COUNT
      then let bits = freeListBitmap h (unat (drop_bit 5 index))
           in if bits \<noteq> 0 then Some (ucast (OsMemFFS bits) + index) else scan_bitmap (index + 32) h
      else None)"
  by pat_completeness auto
termination
  by (relation "measure (\<lambda>(i, h). 223 - unat i)") (auto simp: word_less_nat_alt unat_word_ariths)

declare scan_bitmap.simps [simp del]

text \<open>The node found (or 0) and the index of its list, which is only set when a node may be found.\<close>

definition OsMemFindNextSuitableBlock :: "u32 \<Rightarrow> OsMemPoolHead \<Rightarrow> (nat \<times> u32) option" where
  "OsMemFindNextSuitableBlock sz h =
     (let fl = OsMemFlGet sz;
          curIndex = (if fl < OS_MEM_SMALL_BUCKET_COUNT then OS_MEM_FREE_LIST_COUNT
                      else push_bit OS_MEM_SLI (fl - OS_MEM_SMALL_BUCKET_COUNT) + OsMemSlGet sz fl + OS_MEM_SMALL_BUCKET_COUNT);
          index = (if fl < OS_MEM_SMALL_BUCKET_COUNT then fl else curIndex + 1);
          tmp = OsMemNotEmptyIndexGet index h
      in if tmp \<noteq> OS_MEM_FREE_LIST_COUNT then Some (freeList h (unat tmp), tmp)
         else case scan_bitmap (LOS_Align (index + 1) 32) h of
             Some i \<Rightarrow> Some (freeList h (unat i), i)
           | None \<Rightarrow>
               if curIndex = OS_MEM_FREE_LIST_COUNT then Some (0, curIndex)
               else map_option (\<lambda>node. (node, curIndex)) (OsMemFindCurSuitableBlock (freeList h (unat curIndex)) sz h))"

section \<open>The free lists\<close>

definition OsMemSetFreeListBit :: "u32 \<Rightarrow> OsMemPoolHead \<Rightarrow> OsMemPoolHead" where
  "OsMemSetFreeListBit index h = (let i = unat (drop_bit 5 index)
     in h\<lparr>freeListBitmap := (freeListBitmap h)(i := freeListBitmap h i OR push_bit (unat (index AND 0x1F)) 1)\<rparr>)"

definition OsMemClearFreeListBit :: "u32 \<Rightarrow> OsMemPoolHead \<Rightarrow> OsMemPoolHead" where
  "OsMemClearFreeListBit index h = (let i = unat (drop_bit 5 index)
     in h\<lparr>freeListBitmap := (freeListBitmap h)(i := freeListBitmap h i AND NOT (push_bit (unat (index AND 0x1F)) 1))\<rparr>)"

definition set_freeList :: "u32 \<Rightarrow> nat \<Rightarrow> OsMemPoolHead \<Rightarrow> OsMemPoolHead" where
  "set_freeList index node h = h\<lparr>freeList := (freeList h)(unat index := node)\<rparr>"

definition OsMemListAdd :: "u32 \<Rightarrow> nat \<Rightarrow> OsMemPoolHead \<Rightarrow> OsMemPoolHead" where
  "OsMemListAdd listIndex node h =
     (let firstNode = freeList h (unat listIndex);
          h1 = (if firstNode \<noteq> 0 then set_free_prev firstNode node h else h);
          h2 = set_free_next node firstNode (set_free_prev node 0 h1)
      in OsMemSetFreeListBit listIndex (set_freeList listIndex node h2))"

definition OsMemListDelete :: "u32 \<Rightarrow> nat \<Rightarrow> OsMemPoolHead \<Rightarrow> OsMemPoolHead" where
  "OsMemListDelete listIndex node h =
     (let nxt = free_next node h; prv = free_prev node h
      in if node = freeList h (unat listIndex)
         then let h1 = set_freeList listIndex nxt h
              in if nxt = 0 then OsMemClearFreeListBit listIndex h1 else set_free_prev nxt 0 h1
         else let h1 = set_free_next prv nxt h
              in if nxt \<noteq> 0 then set_free_prev nxt prv h1 else h1)"

definition OsMemFreeNodeAdd :: "nat \<Rightarrow> OsMemPoolHead \<Rightarrow> OsMemPoolHead" where
  "OsMemFreeNodeAdd node h =
     (let index = OsMemFreeListIndexGet (sizeAndFlag node h)
      in if index \<ge> OS_MEM_FREE_LIST_COUNT then h\<lparr>mem_panic := True\<rparr> else OsMemListAdd index node h)"

definition OsMemFreeNodeDelete :: "nat \<Rightarrow> OsMemPoolHead \<Rightarrow> OsMemPoolHead" where
  "OsMemFreeNodeDelete node h = OsMemListDelete (OsMemFreeListIndexGet (sizeAndFlag node h)) node h"

definition OsMemFreeNodeGet :: "u32 \<Rightarrow> OsMemPoolHead \<Rightarrow> (nat \<times> OsMemPoolHead) option" where
  "OsMemFreeNodeGet sz h =
     map_option (\<lambda>(firstNode, index). if firstNode = 0 then (0, h) else (firstNode, OsMemListDelete index firstNode h))
       (OsMemFindNextSuitableBlock sz h)"

section \<open>Merging and splitting\<close>

definition OsMemMergeNode :: "nat \<Rightarrow> OsMemPoolHead \<Rightarrow> OsMemPoolHead" where
  "OsMemMergeNode node h =
     (let prv = node_prev node h;
          h1 = set_size prv (sizeAndFlag prv h + sizeAndFlag node h) h;
          nextNode = node + unat (sizeAndFlag node h1)
      in set_prev nextNode (node_prev node h1) h1)"

definition OsMemSplitNode :: "nat \<Rightarrow> u32 \<Rightarrow> OsMemPoolHead \<Rightarrow> OsMemPoolHead" where
  "OsMemSplitNode allocNode allocSize h =
     (let newFreeNode = allocNode + unat allocSize;
          h1 = set_prev newFreeNode allocNode h;
          h2 = set_size newFreeNode (sizeAndFlag allocNode h1 - allocSize) h1;
          h3 = set_size allocNode allocSize h2;
          nextNode = OS_MEM_NEXT_NODE newFreeNode h3;
          h4 = set_prev nextNode newFreeNode h3;
          h5 = (if \<not> tst (sizeAndFlag nextNode h4) OS_MEM_NODE_USED_FLAG
                then OsMemMergeNode nextNode (OsMemFreeNodeDelete nextNode h4) else h4)
      in OsMemFreeNodeAdd newFreeNode h5)"

section \<open>Initialisation\<close>

definition OsMemPoolInit :: "nat \<Rightarrow> u32 \<Rightarrow> (nat \<Rightarrow> u32) \<Rightarrow> OsMemPoolHead" where
  "OsMemPoolInit pool sz m =
     (let h = \<lparr>info_pool = pool, totalSize = sz, attr = 0, waterLine = 0, curUsedSize = 0,
               freeListBitmap = (\<lambda>_. 0), freeList = (\<lambda>_. 0), mem = m, mem_panic = False\<rparr>;
          newNode = OS_MEM_FIRST_NODE pool; endNode = OS_MEM_END_NODE pool sz;
          h1 = set_size newNode (sz - of_nat OS_MEM_POOL_HEAD_SIZE - of_nat OS_MEM_NODE_HEAD_SIZE) h;
          h2 = OsMemFreeNodeAdd newNode (set_prev newNode endNode h1);
          h3 = set_prev endNode newNode (set_size endNode 0 h2);
          h4 = set_size endNode (sizeAndFlag endNode h3 OR OS_MEM_NODE_USED_FLAG) h3;
          used = of_nat OS_MEM_POOL_HEAD_SIZE + of_nat OS_MEM_NODE_HEAD_SIZE
      in h4\<lparr>curUsedSize := used, waterLine := used\<rparr>)"

text \<open>The result and the pool made of the memory \<open>m\<close>, when one is made.\<close>

definition LOS_MemInit :: "nat \<Rightarrow> u32 \<Rightarrow> (nat \<Rightarrow> u32) \<Rightarrow> u32 \<times> OsMemPoolHead option" where
  "LOS_MemInit pool sz m =
     (if pool = 0 \<or> sz \<le> of_nat (OS_MEM_NODE_HEAD_SIZE + OS_MEM_POOL_HEAD_SIZE) then (OS_INVALID, None)
      else if pool mod 4 \<noteq> 0 \<or> sz AND 3 \<noteq> 0 then (OS_INVALID, None)
      else (LOS_OK, Some (OsMemPoolInit pool sz m)))"

section \<open>Allocation\<close>

definition OsMemWaterUsedRecord :: "u32 \<Rightarrow> OsMemPoolHead \<Rightarrow> OsMemPoolHead" where
  "OsMemWaterUsedRecord sz h =
     (let used = curUsedSize h + sz
      in h\<lparr>curUsedSize := used, waterLine := (if used > waterLine h then used else waterLine h)\<rparr>)"

definition OsMemAlloc :: "u32 \<Rightarrow> OsMemPoolHead \<Rightarrow> (nat \<times> OsMemPoolHead) option" where
  "OsMemAlloc sz h =
     (let allocSize = OS_MEM_ALIGN (sz + of_nat OS_MEM_NODE_HEAD_SIZE) 4
      in map_option (\<lambda>(allocNode, h1).
           if allocNode = 0 then (0, h1)
           else
             let h2 = (if allocSize + OS_MEM_MIN_LEFT_SIZE \<le> sizeAndFlag allocNode h1
                       then OsMemSplitNode allocNode allocSize h1 else h1);
                 h3 = set_size allocNode (sizeAndFlag allocNode h2 OR OS_MEM_NODE_USED_FLAG) h2
             in (allocNode + OS_MEM_NODE_HEAD_SIZE,
                 OsMemWaterUsedRecord (OS_MEM_NODE_GET_SIZE (sizeAndFlag allocNode h3)) h3))
         (OsMemFreeNodeGet allocSize h))"

abbreviation mem_flagged :: "u32 \<Rightarrow> bool" where
  "mem_flagged sz \<equiv> tst sz OS_MEM_NODE_USED_FLAG \<or> tst sz OS_MEM_NODE_ALIGNED_FLAG"

definition LOS_MemAlloc :: "nat \<Rightarrow> u32 \<Rightarrow> OsMemPoolHead \<Rightarrow> (nat \<times> OsMemPoolHead) option" where
  "LOS_MemAlloc pool sz h =
     (if pool = 0 \<or> sz = 0 then Some (0, h)
      else
        let sz1 = (if sz < OS_MEM_MIN_ALLOC_SIZE then OS_MEM_MIN_ALLOC_SIZE else sz)
        in if mem_flagged sz1 then Some (0, h) else OsMemAlloc sz1 h)"

text \<open>An aligned block remembers its distance from the node's payload in the word before it.\<close>

definition LOS_MemAllocAlign :: "nat \<Rightarrow> u32 \<Rightarrow> u32 \<Rightarrow> OsMemPoolHead \<Rightarrow> (nat \<times> OsMemPoolHead) option" where
  "LOS_MemAllocAlign pool sz boundary h =
     (if pool = 0 \<or> sz = 0 \<or> boundary = 0 \<or> boundary AND (boundary - 1) \<noteq> 0 \<or> boundary AND 3 \<noteq> 0 then Some (0, h)
      else
        let sz1 = (if sz < OS_MEM_MIN_ALLOC_SIZE then OS_MEM_MIN_ALLOC_SIZE else sz)
        in if boundary - 4 > 0xFFFFFFFF - sz1 then Some (0, h)
           else
             let useSize = sz1 + boundary - 4
             in if mem_flagged useSize then Some (0, h)
                else map_option (\<lambda>(ptr, h1).
                       let alignedPtr = unat (OS_MEM_ALIGN (of_nat ptr) boundary)
                       in if ptr = alignedPtr then (ptr, h1)
                          else
                            let gapSize = of_nat (alignedPtr - ptr); allocNode = ptr - OS_MEM_NODE_HEAD_SIZE;
                                h2 = set_size allocNode (sizeAndFlag allocNode h1 OR OS_MEM_NODE_ALIGNED_FLAG) h1
                            in (alignedPtr, put_word (alignedPtr - 4) (gapSize OR OS_MEM_NODE_ALIGNED_FLAG) h2))
                     (OsMemAlloc useSize h))"

section \<open>Release\<close>

definition OsMemAddrValidCheck :: "nat \<Rightarrow> nat \<Rightarrow> OsMemPoolHead \<Rightarrow> bool" where
  "OsMemAddrValidCheck pool a h \<longleftrightarrow> pool + OS_MEM_POOL_HEAD_SIZE \<le> a \<and> a < pool + unat (totalSize h)"

definition OsMemIsNodeValid :: "nat \<Rightarrow> nat \<Rightarrow> nat \<Rightarrow> nat \<Rightarrow> OsMemPoolHead \<Rightarrow> bool" where
  "OsMemIsNodeValid node startNode endNode pool h \<longleftrightarrow>
     startNode \<le> node \<and> node \<le> endNode \<and>
     (tst (sizeAndFlag node h) OS_MEM_NODE_USED_FLAG \<or> OsMemAddrValidCheck pool (node_prev node h) h)"

definition OsMemCheckUsedNode :: "nat \<Rightarrow> nat \<Rightarrow> OsMemPoolHead \<Rightarrow> u32" where
  "OsMemCheckUsedNode pool node h =
     (let startNode = OS_MEM_FIRST_NODE pool; endNode = OS_MEM_END_NODE pool (totalSize h);
          nextNode = OS_MEM_NEXT_NODE node h
      in if OsMemIsNodeValid node startNode endNode pool h \<and> tst (sizeAndFlag node h) OS_MEM_NODE_USED_FLAG \<and>
            OsMemIsNodeValid nextNode startNode endNode pool h \<and> node_prev nextNode h = node \<and>
            (node \<noteq> startNode \<longrightarrow>
               OsMemIsNodeValid (node_prev node h) startNode endNode pool h \<and>
               OS_MEM_NEXT_NODE (node_prev node h) h = node)
         then LOS_OK else LOS_NOK)"

definition OsMemFree :: "nat \<Rightarrow> nat \<Rightarrow> OsMemPoolHead \<Rightarrow> u32 \<times> OsMemPoolHead" where
  "OsMemFree pool node h =
     (let ret = OsMemCheckUsedNode pool node h
      in if ret \<noteq> LOS_OK then (ret, h)
         else
           let sz = OS_MEM_NODE_GET_SIZE (sizeAndFlag node h);
               h1 = set_size node sz (h\<lparr>curUsedSize := curUsedSize h - sz\<rparr>);
               preNode = node_prev node h1;
               (node', h2) =
                 (if preNode \<noteq> 0 \<and> \<not> tst (sizeAndFlag preNode h1) OS_MEM_NODE_USED_FLAG
                  then (preNode, OsMemMergeNode node (OsMemFreeNodeDelete preNode h1)) else (node, h1));
               nextNode = OS_MEM_NEXT_NODE node' h2;
               h3 = (if nextNode \<noteq> 0 \<and> \<not> tst (sizeAndFlag nextNode h2) OS_MEM_NODE_USED_FLAG
                     then OsMemMergeNode nextNode (OsMemFreeNodeDelete nextNode h2) else h2)
           in (ret, OsMemFreeNodeAdd node' h3))"

definition OsGetRealPtr :: "nat \<Rightarrow> nat \<Rightarrow> OsMemPoolHead \<Rightarrow> nat" where
  "OsGetRealPtr pool ptr h =
     (let gapSize = mem h (ptr - 4)
      in if tst gapSize OS_MEM_NODE_ALIGNED_FLAG \<and> tst gapSize OS_MEM_NODE_USED_FLAG then 0
         else if tst gapSize OS_MEM_NODE_ALIGNED_FLAG
         then let gap = clr gapSize OS_MEM_NODE_ALIGNED_FLAG
              in if gap AND 3 \<noteq> 0 \<or> gap > of_nat ptr - of_nat OS_MEM_NODE_HEAD_SIZE - of_nat pool then 0
                 else ptr - unat gap
         else ptr)"

definition LOS_MemFree :: "nat \<Rightarrow> nat \<Rightarrow> OsMemPoolHead \<Rightarrow> u32 \<times> OsMemPoolHead" where
  "LOS_MemFree pool ptr h =
     (if pool = 0 \<or> ptr = 0 \<or> pool mod 4 \<noteq> 0 \<or> ptr mod 4 \<noteq> 0 then (LOS_NOK, h)
      else
        let ptr1 = OsGetRealPtr pool ptr h
        in if ptr1 = 0 then (LOS_NOK, h) else OsMemFree pool (ptr1 - OS_MEM_NODE_HEAD_SIZE) h)"

section \<open>Reallocation\<close>

definition OsMemReAllocSmaller :: "u32 \<Rightarrow> nat \<Rightarrow> u32 \<Rightarrow> OsMemPoolHead \<Rightarrow> OsMemPoolHead" where
  "OsMemReAllocSmaller allocSize node nodeSize h =
     (let h1 = set_size node nodeSize h;
          h2 = (if allocSize + OS_MEM_MIN_LEFT_SIZE \<le> nodeSize
                then let h' = OsMemSplitNode node allocSize h1
                     in h'\<lparr>curUsedSize := curUsedSize h' - (nodeSize - allocSize)\<rparr> else h1)
      in set_size node (sizeAndFlag node h2 OR OS_MEM_NODE_USED_FLAG) h2)"

definition OsMemMergeNodeForReAllocBigger :: "u32 \<Rightarrow> nat \<Rightarrow> u32 \<Rightarrow> nat \<Rightarrow> OsMemPoolHead \<Rightarrow> OsMemPoolHead" where
  "OsMemMergeNodeForReAllocBigger allocSize node nodeSize nextNode h =
     (let h1 = OsMemMergeNode nextNode (OsMemFreeNodeDelete nextNode (set_size node nodeSize h));
          h2 = (if allocSize + OS_MEM_MIN_LEFT_SIZE \<le> sizeAndFlag node h1 then OsMemSplitNode node allocSize h1 else h1);
          h3 = set_size node (sizeAndFlag node h2 OR OS_MEM_NODE_USED_FLAG) h2
      in OsMemWaterUsedRecord (sizeAndFlag node h3 - nodeSize) h3)"

text \<open>\<^verbatim>\<open>memcpy_s\<close> between two blocks, in words; \<open>None\<close> is its refusal of a count above the
  size of the destination.  The blocks are different nodes, so they do not overlap.\<close>

definition copy_words :: "nat \<Rightarrow> nat \<Rightarrow> nat \<Rightarrow> (nat \<Rightarrow> u32) \<Rightarrow> nat \<Rightarrow> u32" where
  "copy_words dst src n m = (\<lambda>a. if dst \<le> a \<and> a < dst + n then m (a - dst + src) else m a)"

definition OsMemRealloc :: "nat \<Rightarrow> nat \<Rightarrow> nat \<Rightarrow> u32 \<Rightarrow> OsMemPoolHead \<Rightarrow> (nat \<times> OsMemPoolHead) option" where
  "OsMemRealloc pool ptr node sz h =
     (let allocSize = OS_MEM_ALIGN (sz + of_nat OS_MEM_NODE_HEAD_SIZE) 4;
          nodeSize = OS_MEM_NODE_GET_SIZE (sizeAndFlag node h);
          nextNode = OS_MEM_NEXT_NODE node h
      in if nodeSize \<ge> allocSize then Some (ptr, OsMemReAllocSmaller allocSize node nodeSize h)
         else if \<not> tst (sizeAndFlag nextNode h) OS_MEM_NODE_USED_FLAG \<and> sizeAndFlag nextNode h + nodeSize \<ge> allocSize
         then Some (ptr, OsMemMergeNodeForReAllocBigger allocSize node nodeSize nextNode h)
         else map_option (\<lambda>(tmpPtr, h1).
                if tmpPtr = 0 then (0, h1)
                else
                  let n = nodeSize - of_nat OS_MEM_NODE_HEAD_SIZE
                  in if n > sz then (0, snd (LOS_MemFree pool tmpPtr h1))
                     else (tmpPtr, snd (OsMemFree pool node (h1\<lparr>mem := copy_words tmpPtr ptr (unat n) (mem h1)\<rparr>))))
              (OsMemAlloc sz h))"

definition LOS_MemRealloc :: "nat \<Rightarrow> nat \<Rightarrow> u32 \<Rightarrow> OsMemPoolHead \<Rightarrow> (nat \<times> OsMemPoolHead) option" where
  "LOS_MemRealloc pool ptr sz h =
     (if pool = 0 \<or> mem_flagged sz then Some (0, h)
      else if ptr = 0 then LOS_MemAlloc pool sz h
      else if sz = 0 then Some (0, snd (LOS_MemFree pool ptr h))
      else
        let sz1 = (if sz < OS_MEM_MIN_ALLOC_SIZE then OS_MEM_MIN_ALLOC_SIZE else sz);
            ptr1 = OsGetRealPtr pool ptr h; node = ptr1 - OS_MEM_NODE_HEAD_SIZE
        in if ptr1 = 0 \<or> OsMemCheckUsedNode pool node h \<noteq> LOS_OK then Some (0, h)
           else OsMemRealloc pool ptr1 node sz1 h)"

section \<open>Queries\<close>

definition LOS_MemPoolSizeGet :: "nat \<Rightarrow> OsMemPoolHead \<Rightarrow> u32" where
  "LOS_MemPoolSizeGet pool h = (if pool = 0 then LOS_NOK else totalSize h)"

text \<open>The walk over all nodes, which does not end when a size is 0.\<close>

partial_function (option) fold_nodes :: "(nat \<Rightarrow> 'a \<Rightarrow> 'a) \<Rightarrow> nat \<Rightarrow> nat \<Rightarrow> OsMemPoolHead \<Rightarrow> 'a \<Rightarrow> 'a option" where
  "fold_nodes f node endNode h s =
     (if node < endNode then fold_nodes f (OS_MEM_NEXT_NODE node h) endNode h (f node s) else Some s)"

definition LOS_MemTotalUsedGet :: "nat \<Rightarrow> OsMemPoolHead \<Rightarrow> u32 option" where
  "LOS_MemTotalUsedGet pool h =
     (if pool = 0 then Some LOS_NOK
      else fold_nodes (\<lambda>node memUsed. if tst (sizeAndFlag node h) OS_MEM_NODE_USED_FLAG
               then memUsed + OS_MEM_NODE_GET_SIZE (sizeAndFlag node h) else memUsed)
             (OS_MEM_FIRST_NODE pool) (OS_MEM_END_NODE pool (totalSize h)) h 0)"

record LOS_MEM_POOL_STATUS =
  totalUsedSize :: u32
  totalFreeSize :: u32
  maxFreeNodeSize :: u32
  usedNodeNum :: u32
  freeNodeNum :: u32
  usageWaterLine :: u32

definition OsMemInfoGet :: "OsMemPoolHead \<Rightarrow> nat \<Rightarrow> LOS_MEM_POOL_STATUS \<Rightarrow> LOS_MEM_POOL_STATUS" where
  "OsMemInfoGet h node st =
     (let sz = OS_MEM_NODE_GET_SIZE (sizeAndFlag node h)
      in if \<not> tst (sizeAndFlag node h) OS_MEM_NODE_USED_FLAG
         then st\<lparr>totalFreeSize := totalFreeSize st + sz, freeNodeNum := freeNodeNum st + 1,
                 maxFreeNodeSize := (if maxFreeNodeSize st > sz then maxFreeNodeSize st else sz)\<rparr>
         else st\<lparr>totalUsedSize := totalUsedSize st + sz, usedNodeNum := usedNodeNum st + 1\<rparr>)"

text \<open>The status that is filled in, and the result.\<close>

definition LOS_MemInfoGet :: "nat \<Rightarrow> OsMemPoolHead \<Rightarrow> (u32 \<times> LOS_MEM_POOL_STATUS option) option" where
  "LOS_MemInfoGet pool h =
     (if pool = 0 \<or> info_pool h \<noteq> pool then Some (LOS_NOK, None)
      else map_option (\<lambda>st. (LOS_OK, Some (st\<lparr>usageWaterLine := waterLine h\<rparr>)))
             (fold_nodes (OsMemInfoGet h) (OS_MEM_FIRST_NODE pool) (OS_MEM_END_NODE pool (totalSize h)) h
               \<lparr>totalUsedSize = 0, totalFreeSize = 0, maxFreeNodeSize = 0, usedNodeNum = 0, freeNodeNum = 0,
                usageWaterLine = 0\<rparr>))"

text \<open>The integrity check looks at every node's pointers; what it prints about the free lists does not
  change its result.\<close>

definition OsMemIntegrityCheckSub :: "nat \<Rightarrow> nat \<Rightarrow> OsMemPoolHead \<Rightarrow> u32" where
  "OsMemIntegrityCheckSub node pool h =
     (if \<not> OsMemAddrValidCheck pool (node_prev node h) h then LOS_NOK
      else if \<not> tst (sizeAndFlag node h) OS_MEM_NODE_USED_FLAG \<and>
        (free_prev node h \<noteq> 0 \<and> \<not> OsMemAddrValidCheck pool (free_prev node h) h \<or>
         free_next node h \<noteq> 0 \<and> \<not> OsMemAddrValidCheck pool (free_next node h) h) then LOS_NOK
      else LOS_OK)"

partial_function (option) OsMemIntegrityCheck :: "nat \<Rightarrow> nat \<Rightarrow> OsMemPoolHead \<Rightarrow> u32 option" where
  "OsMemIntegrityCheck node pool h =
     (if node < OS_MEM_END_NODE pool (totalSize h)
      then if OsMemIntegrityCheckSub node pool h = LOS_NOK then Some LOS_NOK
           else OsMemIntegrityCheck (OS_MEM_NEXT_NODE node h) pool h
      else Some LOS_OK)"

definition LOS_MemIntegrityCheck :: "nat \<Rightarrow> OsMemPoolHead \<Rightarrow> (u32 \<times> OsMemPoolHead) option" where
  "LOS_MemIntegrityCheck pool h =
     (if pool = 0 then Some (LOS_NOK, h)
      else map_option (\<lambda>r. (r, if r = LOS_OK then h else h\<lparr>mem_panic := True\<rparr>))
             (OsMemIntegrityCheck (OS_MEM_FIRST_NODE pool) pool h))"

definition LOS_MemUnlockEnable :: "nat \<Rightarrow> OsMemPoolHead \<Rightarrow> OsMemPoolHead" where
  "LOS_MemUnlockEnable pool h = (if pool = 0 then h else h\<lparr>attr := attr h OR OS_MEM_POOL_UNLOCK_ENABLE\<rparr>)"

definition OsMemSystemInit :: "nat \<Rightarrow> (nat \<Rightarrow> u32) \<Rightarrow> u32 \<times> OsMemPoolHead option" where
  "OsMemSystemInit g_memStart m = LOS_MemInit g_memStart 0x8000 m"

end
