(* ===== verification/Mem_Index.thy ===== *)
theory Mem_Index
  imports Los_Memory Sched_Switch
begin

text \<open>
  The arithmetic of the heap's free lists: the list of a size, and the search of the bitmap for the
  first list that is not empty.
\<close>

section \<open>Bits\<close>

lemma word_bit_length: "bit (w :: u32) j \<Longrightarrow> j < 32"
  using bit_imp_le_length by fastforce

lemma exp_less: "(2 :: nat) ^ a < 2 ^ b \<Longrightarrow> a < b"
  by (rule power_less_imp_less_exp [of 2]) simp_all

lemma unat_drop: "unat (drop_bit n (w :: u32)) = unat w div 2 ^ n"
  by (rule trans [OF unat_drop_bit_eq drop_bit_eq_div])

lemma nat_bit_le: "bit (x :: nat) k \<Longrightarrow> 2 ^ k \<le> x"
  by (metis bit_take_bit_iff not_le order_less_irrefl take_bit_nat_eq_self)

lemma highest_bit:
  assumes "bit (w :: u32) k" "\<And>j. k < j \<Longrightarrow> \<not> bit w j"
  shows "2 ^ k \<le> unat w" "unat w < 2 * 2 ^ k"
proof -
  have b: "bit (unat w) j = bit w j" for j by (auto simp: bit_unsigned_iff dest: word_bit_length)
  show "2 ^ k \<le> unat w" using assms(1) b by (intro nat_bit_le) simp
  have "take_bit (Suc k) (unat w) = unat w"
    using assms(2) by (intro bit_eqI) (auto simp: bit_take_bit_iff b less_Suc_eq_le not_less [symmetric])
  then have "unat w < 2 ^ Suc k" by (metis take_bit_nat_less_exp)
  then show "unat w < 2 * 2 ^ k" by simp
qed

lemma OsMemFLS_bit:
  assumes "w \<noteq> 0"
  shows "unat (OsMemFLS w) = 31 - CLZ w" "unat (OsMemFLS w) < 32" "bit w (unat (OsMemFLS w))"
    "\<And>j. unat (OsMemFLS w) < j \<Longrightarrow> \<not> bit w j"
proof -
  note c = CLZ_spec [OF assms]
  have "unat (of_nat (CLZ w) :: u32) = CLZ w" using c(1) by (intro unat_of_nat_small) simp
  then have "unat (0x1F - of_nat (CLZ w) :: u32) = 31 - CLZ w"
    using c(1) by (simp add: unat_sub word_le_nat_alt)
  then show e: "unat (OsMemFLS w) = 31 - CLZ w"
    using c(1) by (simp add: OsMemFLS_def unsigned_ucast_eq take_bit_nat_eq_self)
  show "unat (OsMemFLS w) < 32" "bit w (unat (OsMemFLS w))" using c(2) by (simp_all add: e)
  show "\<not> bit w j" if "unat (OsMemFLS w) < j" for j
  proof
    assume b: "bit w j"
    then have "31 - j < CLZ w" using that e word_bit_length [OF b] by simp
    then have "\<not> bit w (31 - (31 - j))" using c(3) by blast
    then show False using b word_bit_length [OF b] by simp
  qed
qed

text \<open>\<^verbatim>\<open>bitmap & (~bitmap + 1)\<close> is the lowest bit that is set.\<close>

lemma lowest_bit:
  assumes "bit (w :: u32) k" "\<And>j. j < k \<Longrightarrow> \<not> bit w j"
  shows "w AND (NOT w + 1) = 2 ^ k"
proof -
  let ?A = "NOT w AND NOT (mask (Suc k))"
  have k: "k < 32" using assms(1) by (rule word_bit_length)
  have "NOT w = ?A OR mask k"
    using assms by (intro bit_word_eqI) (auto simp: bit_or_iff bit_and_iff bit_not_iff bit_mask_iff less_Suc_eq_le not_less
        le_less)
  also have "\<dots> = ?A + mask k"
    by (rule disjunctive_add [symmetric]) (auto simp: bit_and_iff bit_not_iff bit_mask_iff)
  finally have "NOT w + 1 = ?A + (mask k + 1)" by simp
  also have "mask k + 1 = (2 :: u32) ^ k" by (simp add: mask_eq_exp_minus_1)
  also have "?A + 2 ^ k = ?A OR 2 ^ k"
    by (rule disjunctive_add) (auto simp: bit_and_iff bit_not_iff bit_mask_iff bit_exp_iff)
  finally have e: "NOT w + 1 = ?A OR 2 ^ k" .
  show ?thesis unfolding e
    using assms k by (intro bit_word_eqI) (auto simp: bit_or_iff bit_and_iff bit_not_iff bit_mask_iff bit_exp_iff)
qed

lemma OsMemFFS_bit:
  assumes "w \<noteq> 0"
  shows "unat (OsMemFFS w) < 32" "bit w (unat (OsMemFFS w))" "\<And>j. j < unat (OsMemFFS w) \<Longrightarrow> \<not> bit w j"
proof -
  define k where "k = (LEAST j. bit w j)"
  have ex: "\<exists>j. bit w j" using assms by (auto simp: bit_eq_iff)
  then have k: "bit w k" "\<And>j. j < k \<Longrightarrow> \<not> bit w j"
    unfolding k_def by (auto intro: LeastI_ex dest: not_less_Least)
  have k32: "k < 32" using k(1) by (rule word_bit_length)
  let ?b = "w AND (NOT w + 1)"
  have b: "?b = 2 ^ k" by (rule lowest_bit [OF k])
  have bb: "bit ?b j \<longleftrightarrow> j = k" for j using k32 by (simp only: b) (simp add: bit_exp_word)
  then have nz: "?b \<noteq> 0" by (metis bit_0_eq bot_apply bot_bool_def)
  have "OsMemFFS w = OsMemFLS ?b" by (simp add: OsMemFFS_def OsMemFLS_def Let_def)
  moreover have "unat (OsMemFLS ?b) = k" using OsMemFLS_bit(3) [OF nz] bb by blast
  ultimately have e: "unat (OsMemFFS w) = k" by simp
  show "unat (OsMemFFS w) < 32" "bit w (unat (OsMemFFS w))" using k(1) k32 by (simp_all add: e)
  show "\<not> bit w j" if "j < unat (OsMemFFS w)" for j using k(2) that by (simp add: e)
qed

section \<open>The list of a size\<close>

lemma OsMemLog2_bounds:
  assumes "0 < sz"
  shows "2 ^ unat (OsMemLog2 sz) \<le> unat sz" "unat sz < 2 * 2 ^ unat (OsMemLog2 sz)" "unat (OsMemLog2 sz) < 32"
proof -
  have nz: "sz \<noteq> 0" using assms by simp
  note f = OsMemFLS_bit [OF nz]
  have "unat (OsMemLog2 sz) = unat (OsMemFLS sz)" using nz by (simp add: OsMemLog2_def unat_ucast_up word_gt_0)
  then show "2 ^ unat (OsMemLog2 sz) \<le> unat sz" "unat sz < 2 * 2 ^ unat (OsMemLog2 sz)" "unat (OsMemLog2 sz) < 32"
    using highest_bit [OF f(3,4)] f(2) by simp_all
qed

lemma index_small:
  assumes "4 \<le> unat sz" "unat sz < 128"
  shows "OsMemFlGet sz < 31" "unat (OsMemFreeListIndexGet sz) = unat sz div 4 - 1"
proof -
  have "unat (drop_bit 2 sz) = unat sz div 2 ^ 2" by (rule unat_drop)
  then have "unat (drop_bit 2 sz - 1) = unat sz div 4 - 1"
    using assms by (simp add: unat_sub word_le_nat_alt div_greater_zero_iff Suc_le_eq)
  moreover have "sz < 128" using assms by (simp add: word_less_nat_alt)
  ultimately have e: "unat (OsMemFlGet sz) = unat sz div 4 - 1" by (simp add: OsMemFlGet_def)
  moreover have "unat sz div 4 - 1 < 31" using assms by linarith
  ultimately show "OsMemFlGet sz < 31" by (simp add: word_less_nat_alt)
  then show "unat (OsMemFreeListIndexGet sz) = unat sz div 4 - 1" using e by (simp add: OsMemFreeListIndexGet_def Let_def)
qed

text \<open>For a large size with highest bit \<open>L\<close>; the shift by three does not overflow below
  \<open>2\<^sup>2\<^sup>9\<close>.\<close>

lemma index_large:
  assumes "128 \<le> unat sz" "unat sz < 2 ^ 29"
  obtains L where "7 \<le> L" "L < 29" "2 ^ L \<le> unat sz" "unat sz < 2 * 2 ^ L"
    "unat (OsMemFlGet sz) = L + 24"
    "unat (OsMemFreeListIndexGet sz) = 31 + (L - 7) * 8 + (unat sz * 8 div 2 ^ L - 8)"
    "8 \<le> unat sz * 8 div 2 ^ L" "unat sz * 8 div 2 ^ L < 16"
proof -
  let ?L = "unat (OsMemLog2 sz)"
  have pos: "0 < sz" using assms by (simp add: word_less_nat_alt)
  note l = OsMemLog2_bounds [OF pos]
  have L7: "7 \<le> ?L"
  proof (rule ccontr)
    assume "\<not> 7 \<le> ?L"
    then have "(2 :: nat) ^ ?L \<le> 2 ^ 6" by (intro power_increasing) simp_all
    then show False using l(2) assms(1) by simp
  qed
  have "(2 :: nat) ^ ?L < 2 ^ 29" using l(1) assms(2) by simp
  then have L29: "?L < 29" by (rule exp_less)
  have ge: "\<not> sz < 128" using assms by (simp add: word_less_nat_alt)
  have w: "OsMemLog2 sz = of_nat ?L" by simp
  have fl: "unat (OsMemFlGet sz) = ?L + 24"
  proof -
    have "OsMemFlGet sz = of_nat (?L + 24)" using ge by (simp add: OsMemFlGet_def algebra_simps)
    then show ?thesis using L29 by (simp only:) (rule unat_of_nat_small, simp)
  qed
  have fl31: "\<not> OsMemFlGet sz < 31" using fl L7 by (simp add: word_less_nat_alt)
  have sh: "unat (OsMemFlGet sz - 31 + 7) = ?L"
  proof -
    have "OsMemFlGet sz - 31 + 7 = of_nat ?L" using ge by (simp add: OsMemFlGet_def)
    then show ?thesis by simp
  qed
  have "unat (push_bit 3 sz) = unat sz * 8"
    using assms(2) by (simp add: push_bit_eq_mult unat_word_ariths mult.commute)
  then have db: "unat (drop_bit ?L (push_bit 3 sz)) = unat sz * 8 div 2 ^ ?L"
    by (simp add: unat_drop)
  have d8: "8 \<le> unat sz * 8 div 2 ^ ?L" using l(1) by (simp add: less_eq_div_iff_mult_less_eq)
  have d16: "unat sz * 8 div 2 ^ ?L < 16" using l(2) by (simp add: div_less_iff_less_mult)
  have "unat (drop_bit ?L (push_bit 3 sz) - 8) = unat sz * 8 div 2 ^ ?L - 8"
    using db d8 by (simp add: unat_sub word_le_nat_alt)
  moreover have "push_bit 3 1 = (8 :: u32)" by simp
  ultimately have sl: "unat (OsMemSlGet sz (OsMemFlGet sz)) = unat sz * 8 div 2 ^ ?L - 8"
    using fl31 ge sh by (simp only: OsMemSlGet_def simp_thms if_False)
  have "push_bit 3 (OsMemFlGet sz - 31) = of_nat ((?L - 7) * 8)"
    using ge L7 by (simp add: OsMemFlGet_def push_bit_eq_mult of_nat_diff algebra_simps)
  then have "OsMemFreeListIndexGet sz = of_nat (31 + (?L - 7) * 8 + unat (OsMemSlGet sz (OsMemFlGet sz)))"
    using fl31 by (simp add: OsMemFreeListIndexGet_def Let_def)
  then have "unat (OsMemFreeListIndexGet sz) = 31 + (?L - 7) * 8 + (unat sz * 8 div 2 ^ ?L - 8)"
    using sl L29 d16 by (simp only:) (rule unat_of_nat_small, simp)
  then show thesis using that [OF L7 L29 l(1,2) fl _ d8 d16] by simp
qed

lemma index_bound:
  assumes "4 \<le> unat sz" "unat sz < 2 ^ 28"
  shows "unat (OsMemFreeListIndexGet sz) < 199"
proof (cases "unat sz < 128")
  case False
  then have "128 \<le> unat sz" "unat sz < 2 ^ 29" using assms(2) by simp_all
  from index_large [OF this] obtain L where L: "2 ^ L \<le> unat sz"
    "unat (OsMemFreeListIndexGet sz) = 31 + (L - 7) * 8 + (unat sz * 8 div 2 ^ L - 8)" "unat sz * 8 div 2 ^ L < 16"
    by metis
  have "(2 :: nat) ^ L < 2 ^ 28" using L(1) assms(2) by simp
  then have "L < 28" by (rule exp_less)
  then show ?thesis using L(2,3) by linarith
qed (use index_small [OF assms(1)] in simp)

text \<open>A larger size never has a smaller index.\<close>

lemma index_mono:
  assumes "4 \<le> unat v" "unat v \<le> unat w" "unat w < 2 ^ 29"
  shows "unat (OsMemFreeListIndexGet v) \<le> unat (OsMemFreeListIndexGet w)"
proof (cases "unat w < 128")
  case True
  then show ?thesis using assms index_small [of v] index_small [of w] by (simp add: div_le_mono diff_le_mono)
next
  case False
  then have "128 \<le> unat w" by simp
  from index_large [OF this assms(3)] obtain L where L: "2 ^ L \<le> unat w" "7 \<le> L"
    "unat (OsMemFreeListIndexGet w) = 31 + (L - 7) * 8 + (unat w * 8 div 2 ^ L - 8)" "8 \<le> unat w * 8 div 2 ^ L"
    "unat w < 2 * 2 ^ L"
    by metis
  show ?thesis
  proof (cases "unat v < 128")
    case True
    then show ?thesis using index_small [OF assms(1) True] L(3) by simp
  next
    case F: False
    then have "128 \<le> unat v" "unat v < 2 ^ 29" using assms by simp_all
    from index_large [OF this] obtain M where M: "2 ^ M \<le> unat v" "7 \<le> M"
      "unat (OsMemFreeListIndexGet v) = 31 + (M - 7) * 8 + (unat v * 8 div 2 ^ M - 8)" "unat v * 8 div 2 ^ M < 16"
      by metis
    have "(2 :: nat) ^ M < 2 ^ Suc L" using M(1) assms(2) L(5) by simp
    then have "M \<le> L" using exp_less [of M "Suc L"] by simp
    show ?thesis
    proof (cases "M = L")
      case True
      then show ?thesis using M(3) L(3) assms(2) by (simp add: div_le_mono diff_le_mono)
    next
      case False
      then have "M - 7 + 1 \<le> L - 7" using \<open>M \<le> L\<close> M(2) by simp
      then have "(M - 7) * 8 + 8 \<le> (L - 7) * 8" by simp
      then show ?thesis using M(3,4) L(3) by linarith
    qed
  qed
qed

section \<open>The bitmap of the lists\<close>

lemma div32: "32 * q \<le> (j :: nat) \<Longrightarrow> j < 32 * q + 32 \<Longrightarrow> j div 32 = q"
  by (rule div_nat_eqI) simp_all

lemma word_224: "(i :: nat) < 223 \<Longrightarrow> f < 32 \<Longrightarrow> 32 * (i div 32) + f < 224"
  using less_mult_imp_div_less [of i 7 32] by simp

definition marked :: "OsMemPoolHead \<Rightarrow> nat \<Rightarrow> bool" where
  "marked h i \<longleftrightarrow> bit (freeListBitmap h (i div 32)) (i mod 32)"

lemma word_split32: "(i :: u32) AND NOT 0x1F = push_bit 5 (drop_bit 5 i)" "unat (i AND 0x1F) = unat i mod 32"
proof -
  have m: "(0x1F :: u32) = mask 5" by (simp add: mask_eq_exp_minus_1)
  show "i AND NOT 0x1F = push_bit 5 (drop_bit 5 i)"
    unfolding m by (intro bit_word_eqI) (auto simp: bit_and_iff bit_not_iff bit_mask_iff bit_push_bit_iff bit_drop_bit_eq)
  show "unat (i AND 0x1F) = unat i mod 32"
    unfolding m by (simp only: take_bit_eq_mask [symmetric] unsigned_take_bit_eq) (simp add: take_bit_eq_mod)
qed

lemma unat_align32: "unat (i :: u32) < 256 \<Longrightarrow> unat (i AND NOT 0x1F) = 32 * (unat i div 32)"
proof -
  assume i: "unat i < 256"
  have d: "unat (drop_bit 5 i) = unat i div 32" by (simp add: unat_drop)
  then have "unat (push_bit 5 (drop_bit 5 i)) = unat (drop_bit 5 i) * 32"
    using i by (simp only: push_bit_eq_mult) (simp add: unat_word_ariths)
  then show ?thesis using d by (simp only: word_split32)
qed

lemma LOS_Align_32:
  assumes "unat i < 223"
  shows "unat (LOS_Align (i + 1) 32) = 32 * (unat i div 32 + 1)"
proof -
  have s: "unat (i + 1) = unat i + 1" "unat (i + 1 + 31) = unat i + 32" using assms by (simp_all add: unat_word_ariths)
  then have "i + 1 < i + 1 + 31" by (simp add: word_less_nat_alt)
  then have "LOS_Align (i + 1) 32 = (i + 1 + 31) AND NOT 0x1F" by (simp add: LOS_Align_def)
  moreover have "(unat i + 32) div 32 = unat i div 32 + 1" by simp
  ultimately show ?thesis using unat_align32 [of "i + 1 + 31"] assms s(2) by simp
qed

lemma unat_ffs_index:
  assumes "bits \<noteq> 0" "unat (i :: u32) < 223" "unat i mod 32 = 0"
  shows "unat (ucast (OsMemFFS bits) + i) = unat i + unat (OsMemFFS bits)"
proof -
  have "unat (ucast (OsMemFFS bits) :: u32) = unat (OsMemFFS bits)" by (simp add: unat_ucast_up)
  then show ?thesis using OsMemFFS_bit(1) [OF assms(1)] assms(2) by (simp add: unat_word_ariths)
qed

text \<open>The first list that is not empty in the word of an index, from that index on.\<close>

lemma OsMemNotEmptyIndexGet_spec:
  assumes "unat index < 223" "\<not> marked h 223"
  defines "r \<equiv> unat (OsMemNotEmptyIndexGet index h)"
  shows "if r = 223 then \<forall>j. unat index \<le> j \<and> j div 32 = unat index div 32 \<longrightarrow> \<not> marked h j
    else unat index \<le> r \<and> r < 223 \<and> marked h r"
proof -
  let ?w = "freeListBitmap h (unat index div 32)" and ?m = "mask (unat index mod 32) :: u32"
  let ?b = "?w AND NOT ?m" and ?i = "index AND NOT 0x1F"
  have m: "push_bit (unat (index AND 0x1F)) 1 - 1 = ?m"
    by (simp add: word_split32 push_bit_eq_mult mask_eq_exp_minus_1)
  have e: "OsMemNotEmptyIndexGet index h = (if ?b \<noteq> 0 then ucast (OsMemFFS ?b) + ?i else 223)"
    by (simp only: OsMemNotEmptyIndexGet_def Let_def m) (simp add: unat_drop)
  have i: "unat ?i = 32 * (unat index div 32)" using assms(1) by (intro unat_align32) simp
  have bb: "bit ?b k \<longleftrightarrow> bit ?w k \<and> unat index mod 32 \<le> k" for k
    by (auto simp: bit_and_iff bit_not_iff bit_mask_iff not_less dest: word_bit_length)
  show ?thesis
  proof (cases "?b = 0")
    case True
    have "\<not> marked h j" if "unat index \<le> j" "j div 32 = unat index div 32" for j
    proof
      assume "marked h j"
      then have "bit ?w (j mod 32)" using that(2) by (simp add: marked_def)
      moreover have "unat index mod 32 \<le> j mod 32"
        using that div_mult_mod_eq [of j 32] div_mult_mod_eq [of "unat index" 32] by linarith
      ultimately have "bit ?b (j mod 32)" using bb by blast
      then show False using True by simp
    qed
    then show ?thesis using True by (simp add: r_def e)
  next
    case False
    note f = OsMemFFS_bit [OF False]
    have r: "r = 32 * (unat index div 32) + unat (OsMemFFS ?b)"
      using False unat_ffs_index [OF False, of ?i] i assms(1) by (simp add: r_def e)
    then have q: "r div 32 = unat index div 32" "r mod 32 = unat (OsMemFFS ?b)" using f(1) by simp_all
    have "bit ?b (unat (OsMemFFS ?b))" by (rule f(2))
    then have "marked h r" "unat index mod 32 \<le> unat (OsMemFFS ?b)"
      using bb by (simp_all only: marked_def q)
    moreover have "unat index \<le> r"
      using calculation(2) r div_mult_mod_eq [of "unat index" 32] by linarith
    moreover have "r \<noteq> 223" using calculation(1) assms(2) by blast
    moreover have "r < 224" unfolding r by (rule word_224 [OF assms(1) f(1)])
    ultimately show ?thesis by simp
  qed
qed

lemma scan_bitmap_spec:
  "unat index mod 32 = 0 \<Longrightarrow> unat index < 256 \<Longrightarrow> \<not> marked h 223 \<Longrightarrow>
    (case scan_bitmap index h of
       Some i \<Rightarrow> unat index \<le> unat i \<and> unat i < 223 \<and> marked h (unat i)
     | None \<Rightarrow> \<forall>j. unat index \<le> j \<and> j < 223 \<longrightarrow> \<not> marked h j)"
proof (induction index h rule: scan_bitmap.induct)
  case (1 index h)
  let ?w = "freeListBitmap h (unat index div 32)"
  have d: "unat (drop_bit 5 index) = unat index div 32" by (simp add: unat_drop)
  show ?case
  proof (cases "index < 223")
    case False
    then show ?thesis by (subst scan_bitmap.simps) (auto simp: word_less_nat_alt)
  next
    case lt: True
    then have lt': "unat index < 223" by (simp add: word_less_nat_alt)
    show ?thesis
    proof (cases "?w = 0")
      case True
      have s: "scan_bitmap index h = scan_bitmap (index + 32) h"
        using lt True by (subst scan_bitmap.simps) (simp add: d Let_def)
      have u: "unat (index + 32) = unat index + 32" using lt' by (simp add: unat_word_ariths)
      have none: "\<not> marked h j" if "unat index \<le> j" "j < unat index + 32" for j
      proof -
        have "j div 32 = unat index div 32"
          by (rule div32) (use that "1.prems"(1) div_mult_mod_eq [of "unat index" 32] in linarith)+
        then show ?thesis using True by (simp add: marked_def)
      qed
      have ih: "case scan_bitmap (index + 32) h of
         Some i \<Rightarrow> unat (index + 32) \<le> unat i \<and> unat i < 223 \<and> marked h (unat i)
       | None \<Rightarrow> \<forall>j. unat (index + 32) \<le> j \<and> j < 223 \<longrightarrow> \<not> marked h j"
        using "1.prems" lt' u by (intro "1.IH" [OF lt refl]) (simp_all add: d True)
      show ?thesis
      proof (cases "scan_bitmap (index + 32) h")
        case None
        then have "\<not> marked h j" if "unat index \<le> j" "j < 223" for j
          using ih none [OF that(1)] that(2) u by (cases "j < unat index + 32") simp_all
        then show ?thesis using None s by simp
      next
        case (Some i)
        then show ?thesis using ih u s by simp
      qed
    next
      case False
      note f = OsMemFFS_bit [OF False]
      let ?r = "ucast (OsMemFFS ?w) + index"
      have s: "scan_bitmap index h = Some ?r" using lt False by (subst scan_bitmap.simps) (simp add: d Let_def)
      have r: "unat ?r = unat index + unat (OsMemFFS ?w)" by (rule unat_ffs_index [OF False lt' "1.prems"(1)])
      then have q: "unat ?r div 32 = unat index div 32" "unat ?r mod 32 = unat (OsMemFFS ?w)"
        using f(1) "1.prems"(1) by (auto elim!: dvdE simp: mod_eq_0_iff_dvd)
      have mk: "marked h (unat ?r)" using f(2) by (simp add: marked_def q)
      then have "unat ?r \<noteq> 223" using "1.prems"(3) by metis
      moreover have "unat ?r < 224" using r f(1) lt' "1.prems"(1) by presburger
      ultimately show ?thesis using mk r by (simp add: s)
    qed
  qed
qed

text \<open>Both searches together.\<close>

lemma find_marked:
  assumes "unat index < 223" "\<not> marked h 223"
  shows "case (if OsMemNotEmptyIndexGet index h \<noteq> 223 then Some (OsMemNotEmptyIndexGet index h)
      else scan_bitmap (LOS_Align (index + 1) 32) h) of
      Some i \<Rightarrow> unat index \<le> unat i \<and> unat i < 223 \<and> marked h (unat i)
    | None \<Rightarrow> \<forall>j. unat index \<le> j \<and> j < 223 \<longrightarrow> \<not> marked h j"
proof -
  note n = OsMemNotEmptyIndexGet_spec [OF assms]
  have u: "(OsMemNotEmptyIndexGet index h = 223) = (unat (OsMemNotEmptyIndexGet index h) = 223)"
    by (simp add: word_unat_eq_iff)
  show ?thesis
  proof (cases "OsMemNotEmptyIndexGet index h = 223")
    case False
    then show ?thesis using n u by simp
  next
    case True
    have a: "unat (LOS_Align (index + 1) 32) = 32 * (unat index div 32 + 1)" by (rule LOS_Align_32 [OF assms(1)])
    then have "unat (LOS_Align (index + 1) 32) mod 32 = 0" "unat (LOS_Align (index + 1) 32) < 256"
      using assms(1) by (simp_all, linarith?)
    note s = scan_bitmap_spec [OF this assms(2)]
    have below: "\<not> marked h j" if "unat index \<le> j" "j < 32 * (unat index div 32 + 1)" for j
    proof -
      have "j div 32 = unat index div 32"
        by (rule div32) (use that div_mult_mod_eq [of "unat index" 32] in \<open>linarith | simp\<close>)+
      then show ?thesis using n u True that(1) by simp
    qed
    have le: "unat index \<le> 32 * (unat index div 32 + 1)" using div_mult_mod_eq [of "unat index" 32] by simp
    show ?thesis
    proof (cases "scan_bitmap (LOS_Align (index + 1) 32) h")
      case None
      then have "\<not> marked h j" if "unat index \<le> j" "j < 223" for j
        using s a below [OF that(1)] that(2) by (cases "j < 32 * (unat index div 32 + 1)") simp_all
      then show ?thesis using None True by simp
    next
      case (Some i)
      then show ?thesis using s a le True by simp
    qed
  qed
qed

end
