(* ===== verification/Mem_Lists.thy ===== *)
theory Mem_Lists
  imports Mem_Index
begin

text \<open>
  The free lists of the heap: linked lists in the memory, one for each index, and the bitmap of those
  that are not empty.  Adding and deleting a node, and the search for a node that is large enough.
\<close>

section \<open>Linked lists in the memory\<close>

text \<open>\<open>dll m p xs n\<close>: the nodes \<open>xs\<close> are linked in this order, the first one points back to \<open>p\<close>
  and the last one on to \<open>n\<close>.\<close>

fun dll :: "(nat \<Rightarrow> u32) \<Rightarrow> nat \<Rightarrow> nat list \<Rightarrow> nat \<Rightarrow> bool" where
  "dll m p [] n = True"
| "dll m p (x # xs) n = (unat (m (x + 8)) = p \<and> unat (m (x + 12)) = hd (xs @ [n]) \<and> dll m x xs n)"

text \<open>The words of a set of nodes that hold their links.\<close>

definition link_words :: "nat set \<Rightarrow> nat set" where
  "link_words A = {a. \<exists>x\<in>A. a = x + 8 \<or> a = x + 12}"

lemma link_words_insert [simp]: "a \<in> link_words (insert x A) \<longleftrightarrow> a = x + 8 \<or> a = x + 12 \<or> a \<in> link_words A"
  by (auto simp: link_words_def)

lemma link_words_empty [simp]: "link_words {} = {}"
  by (simp add: link_words_def)

lemma link_words_mono: "A \<subseteq> B \<Longrightarrow> a \<in> link_words A \<Longrightarrow> a \<in> link_words B"
  by (auto simp: link_words_def)

lemma dll_cong: "(\<And>a. a \<in> link_words (set xs) \<Longrightarrow> m' a = m a) \<Longrightarrow> dll m' p xs n = dll m p xs n"
  by (induction xs arbitrary: p) simp_all

lemma dll_append: "dll m p (xs @ ys) n \<longleftrightarrow> dll m p xs (hd (ys @ [n])) \<and> dll m (last (p # xs)) ys n"
  by (induction xs arbitrary: p) auto

text \<open>Nodes that do not overlap.\<close>

definition apart :: "nat set \<Rightarrow> bool" where
  "apart A \<longleftrightarrow> (\<forall>x\<in>A. \<forall>y\<in>A. x \<noteq> y \<longrightarrow> x + 16 \<le> y \<or> y + 16 \<le> x)"

lemma apartD: "apart A \<Longrightarrow> x \<in> A \<Longrightarrow> y \<in> A \<Longrightarrow> i < 16 \<Longrightarrow> j < 16 \<Longrightarrow> x + i = y + j \<longleftrightarrow> x = y \<and> i = j"
  unfolding apart_def by (metis add_left_cancel add_less_cancel_left leD le_add1 less_le_trans order_le_less_trans add_right_cancel
      nat_add_left_cancel_less)

lemma apart_subset: "apart A \<Longrightarrow> B \<subseteq> A \<Longrightarrow> apart B"
  by (auto simp: apart_def)

lemma not_link_word:
  assumes "apart A" "x \<in> A" "B \<subseteq> A" "x \<notin> B" "i < 16"
  shows "x + i \<notin> link_words B"
  using assms apartD [of A x _ i] by (fastforce simp: link_words_def)

text \<open>A new first node.\<close>

lemma dll_push:
  assumes "dll m 0 xs 0" "apart (insert a (set xs))" "a \<notin> set xs" "distinct xs" "0 \<notin> set xs"
    and "\<forall>x\<in>insert a (set xs). x < 2 ^ 32"
  defines "f \<equiv> hd (xs @ [0])"
  defines "m' \<equiv> ((if f \<noteq> 0 then m(f + 8 := of_nat a) else m)(a + 8 := 0))(a + 12 := of_nat f)"
  shows "dll m' 0 (a # xs) 0"
proof (cases xs)
  case Nil
  then show ?thesis by (simp add: m'_def f_def)
next
  case (Cons x ys)
  have s: "set ys \<subseteq> insert a (set xs)" "set xs \<subseteq> insert a (set xs)" "x \<in> insert a (set xs)" using Cons by auto
  have l: "x + i \<notin> link_words (set ys)" "a + i \<notin> link_words (set xs)" if "i < 16" for i
    using assms(3,4) Cons that not_link_word [OF assms(2) s(3,1)] not_link_word [OF assms(2) _ s(2)] by simp_all
  have u: "unat (of_nat a :: u32) = a" "unat (of_nat x :: u32) = x"
    using assms(6) Cons by (auto intro!: unat_of_nat_small)
  have "dll m' x ys 0 = dll m x ys 0"
    using l [of 8] l [of 12] Cons by (intro dll_cong) (auto simp: m'_def f_def)
  then show ?thesis using assms(1,5) Cons l(2) [of 8] l(2) [of 12] u by (simp add: m'_def f_def)
qed

text \<open>A node taken out.\<close>

lemma dll_unlink:
  assumes "dll m 0 (ys @ x # zs) 0" "apart (set (ys @ x # zs))" "distinct (ys @ x # zs)"
    and "\<forall>x\<in>set (ys @ x # zs). x < 2 ^ 32"
  defines "m1 \<equiv> if ys = [] then m else m(last ys + 12 := of_nat (hd (zs @ [0])))"
  defines "m' \<equiv> if zs = [] then m1 else m1(hd zs + 8 := of_nat (last (0 # ys)))"
  shows "dll m' 0 (ys @ zs) 0" "unat (m (x + 8)) = last (0 # ys)" "unat (m (x + 12)) = hd (zs @ [0])"
proof -
  let ?A = "set (ys @ x # zs)"
  have d: "dll m 0 ys x" "unat (m (x + 8)) = last (0 # ys)" "unat (m (x + 12)) = hd (zs @ [0])" "dll m x zs 0"
    using assms(1) by (simp_all add: dll_append)
  then show "unat (m (x + 8)) = last (0 # ys)" "unat (m (x + 12)) = hd (zs @ [0])" by simp_all
  have u: "unat (of_nat (hd (zs @ [0])) :: u32) = hd (zs @ [0])" "unat (of_nat (last (0 # ys)) :: u32) = last (0 # ys)"
  proof -
    have "hd (zs @ [0]) < 2 ^ LENGTH(32)" using assms(4) by (cases zs) simp_all
    then show "unat (of_nat (hd (zs @ [0])) :: u32) = hd (zs @ [0])" by (rule unat_of_nat_small)
    have "last (0 # ys) < 2 ^ LENGTH(32)" using assms(4) by (cases ys rule: rev_cases) simp_all
    then show "unat (of_nat (last (0 # ys)) :: u32) = last (0 # ys)" by (rule unat_of_nat_small)
  qed
  have "dll m' 0 ys (hd (zs @ [0]))"
  proof (cases ys rule: rev_cases)
    case (snoc us w)
    have w: "w \<notin> set us" "hd zs \<notin> set ys \<or> zs = []" using assms(3) snoc by (cases zs; simp)+
    have s: "set us \<subseteq> ?A" "set ys \<subseteq> ?A" "w \<in> ?A" "zs \<noteq> [] \<longrightarrow> hd zs \<in> ?A" using snoc by (auto intro: hd_in_set)
    have lw: "w + 12 \<notin> link_words (set us)" by (rule not_link_word [OF assms(2) s(3,1) w(1)]) simp
    have lz: "hd zs + 8 \<notin> link_words (set ys)" if "zs \<noteq> []"
      using not_link_word [OF assms(2) _ s(2), of "hd zs" 8] s(4) w(2) that by simp
    have lu: "a \<in> link_words (set ys)" if "a \<in> link_words (set us)" for a using that snoc by simp
    have same: "m' a = m a" if "a \<in> link_words (set us)" for a
    proof -
      have "a \<noteq> w + 12" "zs \<noteq> [] \<longrightarrow> a \<noteq> hd zs + 8" using that lu [OF that] lw lz by metis+
      then show ?thesis using snoc by (simp add: m'_def m1_def)
    qed
    have "dll m' 0 us w = dll m 0 us w" by (rule dll_cong) (rule same)
    moreover have "m' (w + 8) = m (w + 8)" "m' (w + 12) = of_nat (hd (zs @ [0]))"
      using lz snoc by (auto simp: m'_def m1_def)
    ultimately show ?thesis using d(1) snoc u by (simp add: dll_append)
  qed simp
  moreover have "dll m' (last (0 # ys)) zs 0"
  proof (cases zs)
    case (Cons z zs')
    have "set ys \<inter> set zs = {}" using assms(3) by auto
    then have n: "z \<notin> set zs'" "ys \<noteq> [] \<longrightarrow> last ys \<notin> set zs" using assms(3) Cons last_in_set [of ys] by (simp, blast)
    have s: "set zs' \<subseteq> ?A" "set zs \<subseteq> ?A" "z \<in> ?A" "ys \<noteq> [] \<longrightarrow> last ys \<in> ?A" using Cons by auto
    have lz: "z + 8 \<notin> link_words (set zs')" by (rule not_link_word [OF assms(2) s(3,1) n(1)]) simp
    have ly: "last ys + 12 \<notin> link_words (set zs)" if "ys \<noteq> []"
      using not_link_word [OF assms(2) _ s(2), of "last ys" 12] s(4) n(2) that by simp
    have lz': "a \<in> link_words (set zs)" if "a \<in> link_words (set zs')" for a using that Cons by simp
    have same: "m' a = m a" if "a \<in> link_words (set zs)" "a \<noteq> z + 8" for a
    proof -
      have "ys \<noteq> [] \<longrightarrow> a \<noteq> last ys + 12" using that ly by metis
      then show ?thesis using Cons that(2) by (cases "ys = []") (simp_all add: m'_def m1_def)
    qed
    have "dll m' z zs' 0 = dll m z zs' 0" by (rule dll_cong) (use same lz' lz in metis)
    moreover have "m' (z + 12) = m (z + 12)" using Cons by (intro same) simp_all
    moreover have "m' (z + 8) = of_nat (last (0 # ys))" using Cons by (simp add: m'_def)
    ultimately show ?thesis using d(4) Cons u by simp
  qed simp
  ultimately show "dll m' 0 (ys @ zs) 0" by (simp add: dll_append)
qed

section \<open>The lists of a pool\<close>

text \<open>The fields of a pool that the list operations leave alone, and what they do to its memory.\<close>

definition same_info :: "OsMemPoolHead \<Rightarrow> OsMemPoolHead \<Rightarrow> bool" where
  "same_info h h' \<longleftrightarrow> info_pool h' = info_pool h \<and> totalSize h' = totalSize h \<and> attr h' = attr h \<and>
     waterLine h' = waterLine h \<and> curUsedSize h' = curUsedSize h \<and> mem_panic h' = mem_panic h"

definition changes :: "nat set \<Rightarrow> OsMemPoolHead \<Rightarrow> OsMemPoolHead \<Rightarrow> bool" where
  "changes S h h' \<longleftrightarrow> same_info h h' \<and> (\<forall>a. a \<notin> S \<longrightarrow> mem h' a = mem h a)"

text \<open>The free nodes \<open>A\<close> are in the lists \<open>F\<close>, each in the list of its size.\<close>

definition links :: "(nat \<Rightarrow> nat list) \<Rightarrow> OsMemPoolHead \<Rightarrow> bool" where
  "links F h \<longleftrightarrow>
     (\<forall>i<223. dll (mem h) 0 (F i) 0 \<and> distinct (F i) \<and> freeList h i = hd (F i @ [0]) \<and> (marked h i \<longleftrightarrow> F i \<noteq> [])) \<and>
     \<not> marked h 223"

definition listed :: "nat set \<Rightarrow> OsMemPoolHead \<Rightarrow> bool" where
  "listed A h \<longleftrightarrow> apart A \<and> (\<forall>x\<in>A. 0 < x \<and> x < 2 ^ 32 \<and> unat (OsMemFreeListIndexGet (sizeAndFlag x h)) < 223) \<and>
     (\<exists>F. links F h \<and> (\<forall>i<223. set (F i) = {x\<in>A. unat (OsMemFreeListIndexGet (sizeAndFlag x h)) = i}))"

lemma listed_apart: "listed A h \<Longrightarrow> apart A"
  by (simp add: listed_def)

lemma listed_cong:
  assumes "listed A h" "freeList h' = freeList h" "freeListBitmap h' = freeListBitmap h"
    and "\<And>x i. x \<in> A \<Longrightarrow> i \<in> {4, 8, 12} \<Longrightarrow> mem h' (x + i) = mem h (x + i)"
  shows "listed A h'"
proof -
  obtain F where F: "links F h" "\<forall>i<223. set (F i) = {x\<in>A. unat (OsMemFreeListIndexGet (sizeAndFlag x h)) = i}"
    using assms(1) by (auto simp: listed_def)
  have s: "sizeAndFlag x h' = sizeAndFlag x h" if "x \<in> A" for x using assms(4) [OF that, of 4] by (simp add: sizeAndFlag_def)
  have d: "dll (mem h') 0 (F i) 0 = dll (mem h) 0 (F i) 0" if "i < 223" for i
  proof (rule dll_cong)
    fix a assume "a \<in> link_words (set (F i))"
    then show "mem h' a = mem h a" using F(2) that assms(4) [of _ 8] assms(4) [of _ 12] by (auto simp: link_words_def)
  qed
  have "links F h'" using F(1) d assms(2,3) by (simp add: links_def marked_def)
  moreover have "\<forall>i<223. set (F i) = {x\<in>A. unat (OsMemFreeListIndexGet (sizeAndFlag x h')) = i}"
    using F(2) s by auto
  ultimately show ?thesis using assms(1) s by (auto simp: listed_def)
qed

lemma bit_or_exp: "r < 32 \<Longrightarrow> bit (w OR (2 :: u32) ^ r) j \<longleftrightarrow> bit w j \<or> j = r"
  by (auto simp: bit_or_iff push_bit_eq_mult bit_exp_iff)

lemma bit_clear_exp: "r < 32 \<Longrightarrow> bit (w AND NOT ((2 :: u32) ^ r)) j \<longleftrightarrow> bit w j \<and> j \<noteq> r"
  by (auto simp: bit_and_iff bit_not_iff push_bit_eq_mult bit_exp_iff dest: word_bit_length)

lemma marked_set:
  "marked (OsMemSetFreeListBit index h) i \<longleftrightarrow> marked h i \<or> i = unat index"
  "marked (OsMemClearFreeListBit index h) i \<longleftrightarrow> marked h i \<and> i \<noteq> unat index"
proof -
  have e: "i div 32 = unat index div 32 \<and> i mod 32 = unat index mod 32 \<longleftrightarrow> i = unat index"
    using div_mult_mod_eq [of i 32] div_mult_mod_eq [of "unat index" 32] by metis
  have m: "unat index mod 32 < 32" by simp
  show "marked (OsMemSetFreeListBit index h) i \<longleftrightarrow> marked h i \<or> i = unat index"
    using e by (simp add: marked_def OsMemSetFreeListBit_def Let_def unat_drop word_split32(2) bit_or_exp [OF m]) blast
  show "marked (OsMemClearFreeListBit index h) i \<longleftrightarrow> marked h i \<and> i \<noteq> unat index"
    using e by (simp add: marked_def OsMemClearFreeListBit_def Let_def unat_drop word_split32(2) bit_clear_exp [OF m]) blast
qed

lemma listedE:
  assumes "listed A h"
  obtains F where "links F h" "\<forall>i<223. set (F i) = {x\<in>A. unat (OsMemFreeListIndexGet (sizeAndFlag x h)) = i}"
    "\<And>i. i < 223 \<Longrightarrow> set (F i) \<subseteq> A" "\<And>i j. i < 223 \<Longrightarrow> j < 223 \<Longrightarrow> i \<noteq> j \<Longrightarrow> set (F i) \<inter> set (F j) = {}"
    "apart A" "\<forall>x\<in>A. x < 2 ^ 32" "0 \<notin> A"
proof -
  obtain F where F: "links F h" "\<forall>i<223. set (F i) = {x\<in>A. unat (OsMemFreeListIndexGet (sizeAndFlag x h)) = i}"
    using assms by (auto simp: listed_def)
  show thesis by (rule that [OF F]) (use F(2) assms in \<open>auto simp: listed_def\<close>)
qed

lemma OsMemListAdd_fields:
  fixes h :: OsMemPoolHead and a :: nat and index :: u32
  defines "f \<equiv> freeList h (unat index)"
  shows "mem (OsMemListAdd index a h) = ((if f \<noteq> 0 then (mem h)(f + 8 := of_nat a) else mem h)(a + 8 := 0))(a + 12 := of_nat f)"
    "freeList (OsMemListAdd index a h) = (freeList h)(unat index := a)"
    "marked (OsMemListAdd index a h) i \<longleftrightarrow> marked h i \<or> i = unat index"
    "same_info h (OsMemListAdd index a h)"
  unfolding OsMemListAdd_def Let_def f_def [symmetric] marked_set
  by (simp_all add: OsMemSetFreeListBit_def set_freeList_def put_word_def Let_def same_info_def marked_def)

lemma listed_add:
  assumes "listed A h" "a \<notin> A" "apart (insert a A)" "0 < a" "a < 2 ^ 32"
    and "unat (OsMemFreeListIndexGet (sizeAndFlag a h)) < 223"
  shows "listed (insert a A) (OsMemFreeNodeAdd a h)" "changes (link_words (insert a A)) h (OsMemFreeNodeAdd a h)"
proof -
  define index where "index = OsMemFreeListIndexGet (sizeAndFlag a h)"
  let ?i = "unat index" and ?f = "freeList h (unat index)"
  define h' where "h' = OsMemListAdd index a h"
  have i: "?i < 223" using assms(6) by (simp add: index_def)
  then have "\<not> index \<ge> 223" by (simp add: word_le_nat_alt)
  then have e: "OsMemFreeNodeAdd a h = h'" by (simp add: OsMemFreeNodeAdd_def h'_def index_def Let_def)
  note m = OsMemListAdd_fields [where h = h and a = a and index = index, folded h'_def]
  obtain F where F: "links F h"
    "\<forall>i<223. set (F i) = {x\<in>A. unat (OsMemFreeListIndexGet (sizeAndFlag x h)) = i}"
    "\<And>i. i < 223 \<Longrightarrow> set (F i) \<subseteq> A" "\<And>i j. i < 223 \<Longrightarrow> j < 223 \<Longrightarrow> i \<noteq> j \<Longrightarrow> set (F i) \<inter> set (F j) = {}"
    "apart A" "\<forall>x\<in>A. x < 2 ^ 32" "0 \<notin> A"
    by (rule listedE [OF assms(1)]) blast
  have f: "?f = hd (F ?i @ [0])" "?f \<noteq> 0 \<longrightarrow> ?f \<in> set (F ?i)"
    using F(1) i by (cases "F ?i"; simp add: links_def)+
  have link: "mem h' b = mem h b" if "b \<notin> link_words (insert a (set (F ?i)))" for b
    using that f(2) by (auto simp: m(1) link_words_def)
  then have out: "mem h' b = mem h b" if "b \<notin> link_words (insert a A)" for b
    using that F(3) [OF i] link_words_mono [of "insert a (set (F ?i))" "insert a A" b] by blast
  then show "changes (link_words (insert a A)) h (OsMemFreeNodeAdd a h)" using m(4) by (simp add: changes_def e)
  have sz: "sizeAndFlag x h' = sizeAndFlag x h" if "x \<in> insert a A" for x
  proof -
    have "x + 4 \<notin> link_words (insert a A)"
      using that assms(3) apartD [OF assms(3) that, of _ 4 8] apartD [OF assms(3) that, of _ 4 12] by (auto simp: link_words_def)
    then show ?thesis using out by (simp add: sizeAndFlag_def)
  qed
  let ?F = "F(?i := a # F ?i)"
  have "dll (mem h') 0 (?F j) 0 \<and> distinct (?F j)" if "j < 223" for j
  proof (cases "j = ?i")
    case True
    have "dll (mem h') 0 (a # F ?i) 0"
      unfolding m(1) f(1)
    proof (rule dll_push)
      show "apart (insert a (set (F ?i)))" by (rule apart_subset [OF assms(3)]) (use F(3) [OF i] in blast)
    qed (use F(1,3,6,7) i assms(2,5) in \<open>auto simp: links_def\<close>)
    then show ?thesis using True F(1,3) i assms(2) by (auto simp: links_def)
  next
    case False
    have "set (F j) \<subseteq> A - set (F ?i)" using F(3) [OF that] F(4) [OF that i False] by blast
    then have "b \<notin> link_words (insert a (set (F ?i)))" if b: "b \<in> link_words (set (F j))" for b
    proof -
      obtain x k where x: "x \<in> set (F j)" "b = x + k" "k \<in> {8, 12}" using b by (auto simp: link_words_def)
      then have "x \<in> insert a A" "insert a (set (F ?i)) \<subseteq> insert a A" "x \<notin> insert a (set (F ?i))"
        using \<open>set (F j) \<subseteq> A - set (F ?i)\<close> F(3) [OF i] assms(2) by auto
      from not_link_word [OF assms(3) this, of k] show ?thesis using x by auto
    qed
    then have "dll (mem h') 0 (F j) 0 = dll (mem h) 0 (F j) 0" using link by (intro dll_cong) blast
    then show ?thesis using F(1) that False by (simp add: links_def)
  qed
  then have "links ?F h'" using F(1) i by (auto simp: links_def m(2,3))
  moreover have "\<forall>j<223. set (?F j) = {x\<in>insert a A. unat (OsMemFreeListIndexGet (sizeAndFlag x h')) = j}"
    using F(2) sz assms(2) by (auto simp: index_def)
  moreover have "\<forall>x\<in>insert a A. 0 < x \<and> x < 2 ^ 32 \<and> unat (OsMemFreeListIndexGet (sizeAndFlag x h')) < 223"
    using assms(1,4-6) sz by (auto simp: listed_def)
  ultimately show "listed (insert a A) (OsMemFreeNodeAdd a h)" using assms(3) by (auto simp: listed_def e)
qed

lemma listed_delete:
  assumes "listed A h" "a \<in> A"
  shows "listed (A - {a}) (OsMemFreeNodeDelete a h)" "changes (link_words (A - {a})) h (OsMemFreeNodeDelete a h)"
proof -
  define index where "index = OsMemFreeListIndexGet (sizeAndFlag a h)"
  let ?i = "unat index"
  define h' where "h' = OsMemListDelete index a h"
  have e: "OsMemFreeNodeDelete a h = h'" by (simp add: OsMemFreeNodeDelete_def h'_def index_def)
  have i: "?i < 223" using assms by (simp add: listed_def index_def)
  obtain F where F: "links F h"
    "\<forall>i<223. set (F i) = {x\<in>A. unat (OsMemFreeListIndexGet (sizeAndFlag x h)) = i}"
    "\<And>i. i < 223 \<Longrightarrow> set (F i) \<subseteq> A" "\<And>i j. i < 223 \<Longrightarrow> j < 223 \<Longrightarrow> i \<noteq> j \<Longrightarrow> set (F i) \<inter> set (F j) = {}"
    "apart A" "\<forall>x\<in>A. x < 2 ^ 32" "0 \<notin> A"
    by (rule listedE [OF assms(1)]) blast
  have "a \<in> set (F ?i)" using F(2) i assms(2) by (simp add: index_def)
  then obtain ys zs where s: "F ?i = ys @ a # zs" by (auto simp: in_set_conv_decomp)
  have d: "distinct (ys @ a # zs)" "dll (mem h) 0 (ys @ a # zs) 0" "freeList h ?i = hd (ys @ a # zs @ [0])"
  proof -
    have "dll (mem h) 0 (F ?i) 0 \<and> distinct (F ?i) \<and> freeList h ?i = hd (F ?i @ [0])"
      using F(1) i unfolding links_def by blast
    then show "distinct (ys @ a # zs)" "dll (mem h) 0 (ys @ a # zs) 0" "freeList h ?i = hd (ys @ a # zs @ [0])"
      by (simp_all only: s append_assoc append_Cons)
  qed
  have sub: "set (ys @ a # zs) \<subseteq> A" using F(3) [OF i] s by simp
  have ap: "apart (set (ys @ a # zs))" by (rule apart_subset [OF F(5) sub])
  have lt: "\<forall>x\<in>set (ys @ a # zs). x < 2 ^ 32" using F(6) sub by blast
  have nz: "0 \<notin> set (ys @ a # zs)" using F(7) sub by blast
  note u = dll_unlink [OF d(2) ap d(1) lt]
  let ?m1 = "if ys = [] then mem h else (mem h)(last ys + 12 := of_nat (hd (zs @ [0])))"
  let ?m = "if zs = [] then ?m1 else ?m1(hd zs + 8 := of_nat (last (0 # ys)))"
  have first: "a = freeList h ?i \<longleftrightarrow> ys = []" using d(1,3) by (cases ys) auto
  have nxt: "free_next a h = hd (zs @ [0])" "hd (zs @ [0]) = 0 \<longleftrightarrow> zs = []"
    using u(3) nz by (cases zs; simp add: free_next_def)+
  have prv: "ys \<noteq> [] \<Longrightarrow> free_prev a h = last ys" using u(2) by (simp add: free_prev_def)
  have hdz: "zs \<noteq> [] \<Longrightarrow> hd (zs @ [0]) = hd zs" by simp
  have h': "h' = (if ys = []
      then if zs = [] then OsMemClearFreeListBit index (set_freeList index 0 h)
           else set_free_prev (hd zs) 0 (set_freeList index (hd zs) h)
      else if zs = [] then set_free_next (last ys) 0 h
      else set_free_prev (hd zs) (last ys) (set_free_next (last ys) (hd zs) h))"
  proof (cases "ys = []")
    case True
    then have af: "a = freeList h ?i" using first by blast
    have "h' = (if free_next a h = 0 then OsMemClearFreeListBit index (set_freeList index (free_next a h) h)
        else set_free_prev (free_next a h) 0 (set_freeList index (free_next a h) h))"
      unfolding h'_def OsMemListDelete_def Let_def by (rule if_P [OF af])
    then show ?thesis using nxt True by (cases "zs = []") simp_all
  next
    case False
    then have af: "a \<noteq> freeList h ?i" using first by blast
    have "h' = (if free_next a h \<noteq> 0
        then set_free_prev (free_next a h) (free_prev a h) (set_free_next (free_prev a h) (free_next a h) h)
        else set_free_next (free_prev a h) (free_next a h) h)"
      unfolding h'_def OsMemListDelete_def Let_def by (rule if_not_P [OF af])
    then show ?thesis using nxt False prv [OF False] by (cases "zs = []") simp_all
  qed
  have m: "mem h' = ?m" "same_info h h'"
    "freeList h' = (if ys = [] then (freeList h)(?i := hd (zs @ [0])) else freeList h)"
    by (simp_all add: h' put_word_def set_freeList_def OsMemClearFreeListBit_def Let_def same_info_def)
  have mk: "marked h' j \<longleftrightarrow> marked h j \<and> \<not> (j = ?i \<and> ys = [] \<and> zs = [])" for j
    by (simp add: h' marked_set) (simp add: put_word_def set_freeList_def marked_def)
  have link: "mem h' b = mem h b" if "b \<notin> link_words (set ys \<union> set zs)" for b
  proof -
    have "ys \<noteq> [] \<longrightarrow> b \<noteq> last ys + 12" "zs \<noteq> [] \<longrightarrow> b \<noteq> hd zs + 8"
      using that by (auto simp: link_words_def)
    then show ?thesis by (simp add: m(1))
  qed
  have subA: "set ys \<union> set zs \<subseteq> A - {a}" using sub d(1) by auto
  then have out: "mem h' b = mem h b" if "b \<notin> link_words (A - {a})" for b
    using that link link_words_mono [OF subA, of b] by blast
  then show "changes (link_words (A - {a})) h (OsMemFreeNodeDelete a h)" using m(2) by (simp add: changes_def e)
  have sz: "sizeAndFlag x h' = sizeAndFlag x h" if "x \<in> A" for x
  proof -
    have "x + 4 \<notin> link_words (A - {a})"
      using that apartD [OF F(5) that, of _ 4 8] apartD [OF F(5) that, of _ 4 12] by (auto simp: link_words_def)
    then show ?thesis using out by (simp add: sizeAndFlag_def)
  qed
  let ?F = "F(?i := ys @ zs)"
  have "dll (mem h') 0 (?F j) 0 \<and> distinct (?F j)" if "j < 223" for j
  proof (cases "j = ?i")
    case True
    then show ?thesis using u(1) d(1) by (simp add: m(1))
  next
    case False
    have dj: "set (F j) \<inter> set (F ?i) = {}" by (rule F(4) [OF that i False])
    have "b \<notin> link_words (set ys \<union> set zs)" if b: "b \<in> link_words (set (F j))" for b
    proof -
      obtain x k where x: "x \<in> set (F j)" "b = x + k" "k \<in> {8, 12}" using b by (auto simp: link_words_def)
      then have "x \<in> A" "set ys \<union> set zs \<subseteq> A" "x \<notin> set ys \<union> set zs"
        using F(3) [OF \<open>j < 223\<close>] subA dj s by auto
      from not_link_word [OF F(5) this, of k] show ?thesis using x by auto
    qed
    then have "dll (mem h') 0 (F j) 0 = dll (mem h) 0 (F j) 0" using link by (intro dll_cong) blast
    then show ?thesis using F(1) that False by (simp add: links_def)
  qed
  moreover have "freeList h' j = hd (?F j @ [0]) \<and> (marked h' j \<longleftrightarrow> ?F j \<noteq> [])" if "j < 223" for j
    using F(1) that s d(3) by (auto simp: links_def m(3) mk)
  ultimately have "links ?F h'" using F(1) by (auto simp: links_def mk)
  moreover have "\<forall>j<223. set (?F j) = {x\<in>A - {a}. unat (OsMemFreeListIndexGet (sizeAndFlag x h')) = j}"
  proof (intro allI impI)
    fix j :: nat
    assume j: "j < 223"
    have "set (?F j) = set (F j) - {a}"
      using s d(1) F(4) [OF j i] by (cases "j = ?i") auto
    then show "set (?F j) = {x\<in>A - {a}. unat (OsMemFreeListIndexGet (sizeAndFlag x h')) = j}"
      using F(2) j sz by auto
  qed
  moreover have "\<forall>x\<in>A - {a}. 0 < x \<and> x < 2 ^ 32 \<and> unat (OsMemFreeListIndexGet (sizeAndFlag x h')) < 223"
    using assms(1) sz by (auto simp: listed_def)
  moreover have "apart (A - {a})" by (rule apart_subset [OF F(5)]) blast
  ultimately show "listed (A - {a}) (OsMemFreeNodeDelete a h)" by (auto simp: listed_def e)
qed

section \<open>The search\<close>

lemma OsMemFindCurSuitableBlock_list:
  assumes "dll (mem h) p xs 0" "0 \<notin> set xs"
  shows "OsMemFindCurSuitableBlock (hd (xs @ [0])) sz h =
    Some (case find (\<lambda>x. sizeAndFlag x h \<ge> sz) xs of None \<Rightarrow> 0 | Some x \<Rightarrow> x)"
  using assms
proof (induction xs arbitrary: p)
  case Nil
  show ?case by (subst OsMemFindCurSuitableBlock.simps) simp
next
  case (Cons x xs)
  then have d: "free_next x h = hd (xs @ [0])" "dll (mem h) x xs 0" "0 \<notin> set xs"
    by (simp_all add: free_next_def)
  note Cons.IH [OF d(2,3)]
  with d(1) Cons.prems show ?case by (subst OsMemFindCurSuitableBlock.simps) simp
qed

abbreviation class_of :: "u32 \<Rightarrow> nat" where
  "class_of sz \<equiv> unat (OsMemFreeListIndexGet sz)"

text \<open>A size of 512 megabytes or more: the shift overflows, and the index is one of no node.\<close>

lemma index_huge:
  assumes "2 ^ 29 \<le> unat sz" "unat sz \<le> 2 ^ 30 + 8"
  defines "cur \<equiv> push_bit 3 (OsMemFlGet sz - 31) + OsMemSlGet sz (OsMemFlGet sz) + 31"
  shows "\<not> OsMemFlGet sz < 31" "199 \<le> unat cur" "unat cur \<le> 207"
proof -
  let ?L = "unat (OsMemLog2 sz)"
  have pos: "0 < sz" using assms(1) by (simp add: word_less_nat_alt)
  note l = OsMemLog2_bounds [OF pos]
  have "(2 :: nat) ^ ?L < 2 ^ 31" "(2 :: nat) ^ 29 < 2 ^ Suc ?L" using l(1,2) assms(1,2) by simp_all
  then have L: "?L < 31" "29 < Suc ?L" using exp_less by blast+
  have ge: "\<not> sz < 128" using assms(1) by (simp add: word_less_nat_alt)
  have "OsMemFlGet sz = of_nat (?L + 24)" using ge by (simp add: OsMemFlGet_def algebra_simps)
  then have fl: "unat (OsMemFlGet sz) = ?L + 24" using L by (simp only:) (rule unat_of_nat_small, simp)
  then show nf: "\<not> OsMemFlGet sz < 31" using L by (simp add: word_less_nat_alt)
  have sh: "unat (OsMemFlGet sz - 31 + 7) = ?L"
  proof -
    have "OsMemFlGet sz - 31 + 7 = of_nat ?L" using ge by (simp add: OsMemFlGet_def)
    then show ?thesis by simp
  qed
  let ?v = "unat (push_bit 3 sz) div 2 ^ ?L"
  have "unat (push_bit 3 sz) < 2 ^ LENGTH(32)" by (rule unsigned_less)
  moreover have "(2 :: nat) ^ 29 \<le> 2 ^ ?L" using L by (intro power_increasing) simp_all
  ultimately have "unat (push_bit 3 sz) < 8 * 2 ^ ?L" by simp
  then have "?v < 8" by (rule less_mult_imp_div_less)
  have "push_bit 3 1 = (8 :: u32)" by simp
  then have sl: "OsMemSlGet sz (OsMemFlGet sz) = drop_bit ?L (push_bit 3 sz) - 8"
    using nf ge sh by (simp only: OsMemSlGet_def simp_thms if_False)
  have "unat (of_nat ?v :: u32) = ?v" by (rule unat_of_nat_small) (use \<open>?v < 8\<close> in simp)
  then have "drop_bit ?L (push_bit 3 sz) = of_nat ?v" by (simp only: word_unat_eq_iff unat_drop)
  then have c: "cur = push_bit 3 (OsMemFlGet sz - 31) + (of_nat ?v - 8) + 31" by (simp only: cur_def sl)
  have "OsMemFlGet sz - 31 = of_nat (?L - 7)"
    using L ge by (simp add: OsMemFlGet_def of_nat_diff)
  then have "cur = of_nat (31 + (?L - 7) * 8 + ?v - 8)"
    unfolding c by (simp add: push_bit_eq_mult of_nat_diff)
  then have "unat cur = 31 + (?L - 7) * 8 + ?v - 8"
    using L \<open>?v < 8\<close> by (simp only:) (rule unat_of_nat_small, simp)
  then show "199 \<le> unat cur" using L by linarith
  show "unat cur \<le> 207"
  proof (cases "?L = 30")
    case True
    have "unat (push_bit 3 sz) = (unat sz * 8) mod 2 ^ 32" by (simp add: push_bit_eq_mult unat_word_ariths mult.commute)
    also have "\<dots> \<le> 64"
    proof -
      have "2 ^ 30 \<le> unat sz" using l(1) True by simp
      then obtain d where d: "unat sz = 2 ^ 30 + d" by (auto simp: le_iff_add)
      then have "unat sz * 8 = d * 8 + 2 * 2 ^ 32" by simp
      then have "(unat sz * 8) mod 2 ^ 32 = (d * 8) mod 2 ^ 32" by (simp only: mod_mult_self1)
      also have "\<dots> \<le> d * 8" by (rule mod_less_eq_dividend)
      finally show ?thesis using assms(2) d by simp
    qed
    finally have "?v = 0" using True by simp
    then show ?thesis using True \<open>unat cur = _\<close> by simp
  next
    case False
    then show ?thesis using L \<open>?v < 8\<close> \<open>unat cur = _\<close> by linarith
  qed
qed

lemma class_members:
  assumes "links F h" "\<forall>i<223. set (F i) = {x\<in>A. class_of (sizeAndFlag x h) = i}" "i < 223" "marked h i"
  shows "freeList h i \<in> A" "class_of (sizeAndFlag (freeList h i) h) = i"
proof -
  have "F i \<noteq> []" "freeList h i = hd (F i @ [0])" using assms(1,3,4) by (simp_all add: links_def)
  then have "freeList h i \<in> set (F i)" by (cases "F i") simp_all
  then show "freeList h i \<in> A" "class_of (sizeAndFlag (freeList h i) h) = i" using assms(2,3) by auto
qed

lemma class_inj:
  assumes "4 \<le> unat v" "unat v < 128" "4 \<le> unat w" "unat w < 128" "4 dvd unat v" "4 dvd unat w" "class_of v = class_of w"
  shows "v = w"
proof -
  have "1 \<le> unat v div 4" "1 \<le> unat w div 4" using assms(1,3) by (simp_all add: Suc_le_eq div_greater_zero_iff)
  moreover have "unat v div 4 - 1 = unat w div 4 - 1"
    using index_small(2) [OF assms(1,2)] index_small(2) [OF assms(3,4)] assms(7) by simp
  ultimately have "unat v div 4 = unat w div 4" by linarith
  then have "unat v = unat w" using assms(5,6) by (metis dvd_div_mult_self)
  then show ?thesis by (simp add: word_unat_eq_iff)
qed

text \<open>A node is found exactly when one is large enough, and it is taken from its list.\<close>

lemma listed_find:
  assumes "listed A h" "\<forall>x\<in>A. 16 \<le> unat (sizeAndFlag x h) \<and> unat (sizeAndFlag x h) < 2 ^ 28 \<and> 4 dvd unat (sizeAndFlag x h)"
    and "16 \<le> unat sz" "unat sz \<le> 2 ^ 30 + 8" "4 dvd unat sz"
  shows "if \<exists>x\<in>A. sz \<le> sizeAndFlag x h
    then \<exists>a\<in>A. sz \<le> sizeAndFlag a h \<and> OsMemFreeNodeGet sz h = Some (a, OsMemFreeNodeDelete a h)
    else OsMemFreeNodeGet sz h = Some (0, h)"
proof -
  obtain F where F: "links F h" "\<forall>i<223. set (F i) = {x\<in>A. class_of (sizeAndFlag x h) = i}"
    "\<And>i. i < 223 \<Longrightarrow> set (F i) \<subseteq> A" "\<And>i j. i < 223 \<Longrightarrow> j < 223 \<Longrightarrow> i \<noteq> j \<Longrightarrow> set (F i) \<inter> set (F j) = {}"
    "apart A" "\<forall>x\<in>A. x < 2 ^ 32" "0 \<notin> A"
    by (rule listedE [OF assms(1)]) blast
  define fl where "fl = OsMemFlGet sz"
  define cur where "cur = (if fl < 31 then 223 else push_bit 3 (fl - 31) + OsMemSlGet sz fl + 31)"
  define index where "index = (if fl < 31 then fl else cur + 1)"
  define found where "found = (if OsMemNotEmptyIndexGet index h \<noteq> 223 then Some (OsMemNotEmptyIndexGet index h)
      else scan_bitmap (LOS_Align (index + 1) 32) h)"
  have m223: "\<not> marked h 223" using F(1) by (simp add: links_def)
  have cls: "class_of (sizeAndFlag x h) < 199" if "x \<in> A" for x using index_bound assms(2) that by fastforce
  have le: "class_of sz \<le> class_of (sizeAndFlag x h)" if "x \<in> A" "sz \<le> sizeAndFlag x h" for x
    using that assms(2,3) by (intro index_mono) (auto simp: word_le_nat_alt)
  have mem_marked: "marked h (class_of (sizeAndFlag x h))" if "x \<in> A" for x
  proof -
    have "x \<in> set (F (class_of (sizeAndFlag x h)))" "class_of (sizeAndFlag x h) < 223" using F(2) cls [OF that] that by auto
    then show ?thesis using F(1) by (auto simp: links_def)
  qed
  have search: "OsMemFindNextSuitableBlock sz h = (case found of
      Some i \<Rightarrow> Some (freeList h (unat i), i)
    | None \<Rightarrow> if cur = 223 then Some (0, cur)
        else map_option (\<lambda>node. (node, cur)) (OsMemFindCurSuitableBlock (freeList h (unat cur)) sz h))"
    unfolding OsMemFindNextSuitableBlock_def Let_def found_def index_def cur_def fl_def by (simp split: option.split)
  have get_hit: "\<exists>a\<in>A. sz \<le> sizeAndFlag a h \<and> OsMemFreeNodeGet sz h = Some (a, OsMemFreeNodeDelete a h)"
    if "OsMemFindNextSuitableBlock sz h = Some (a, i)" "a \<in> A" "sz \<le> sizeAndFlag a h" "class_of (sizeAndFlag a h) = unat i" for a i
  proof -
    have "OsMemFreeListIndexGet (sizeAndFlag a h) = i" using that(4) by (simp add: word_unat_eq_iff)
    moreover have "a \<noteq> 0" using that(2) F(7) by metis
    ultimately show ?thesis using that(1-3) by (auto simp: OsMemFreeNodeGet_def OsMemFreeNodeDelete_def)
  qed
  have get_miss: "OsMemFreeNodeGet sz h = Some (0, h)" if "OsMemFindNextSuitableBlock sz h = Some (0, i)" for i
    using that by (simp add: OsMemFreeNodeGet_def)
  show ?thesis
  proof (cases "unat sz < 128")
    case small: True
    have s4: "4 \<le> unat sz" using assms(3) by simp
    note si = index_small [OF s4 small]
    have fl: "fl < 31" using si(1) by (simp add: fl_def)
    have ix: "unat index = class_of sz" using fl si(1) by (simp add: index_def fl_def OsMemFreeListIndexGet_def Let_def)
    have "class_of sz < 223" using si(2) small by simp
    note fm = find_marked [of index h, folded found_def, unfolded ix, OF this m223]
    show ?thesis
    proof (cases found)
      case None
      have none: "\<not> (\<exists>x\<in>A. sz \<le> sizeAndFlag x h)"
      proof
        assume "\<exists>x\<in>A. sz \<le> sizeAndFlag x h"
        then obtain x where x: "x \<in> A" "sz \<le> sizeAndFlag x h" by blast
        have "class_of (sizeAndFlag x h) < 223" using cls [OF x(1)] by simp
        then show False using fm None le [OF x] mem_marked [OF x(1)] by simp
      qed
      have "cur = 223" using fl by (simp add: cur_def)
      then have "OsMemFreeNodeGet sz h = Some (0, h)" using search None by (intro get_miss) simp
      then show ?thesis using none by simp
    next
      case (Some i)
      then have i: "class_of sz \<le> unat i" "unat i < 223" "marked h (unat i)" using fm by simp_all
      let ?a = "freeList h (unat i)"
      have a: "?a \<in> A" "class_of (sizeAndFlag ?a h) = unat i" using class_members [OF F(1,2) i(2,3)] by simp_all
      have "sz \<le> sizeAndFlag ?a h"
      proof (rule ccontr)
        assume "\<not> sz \<le> sizeAndFlag ?a h"
        then have lt: "unat (sizeAndFlag ?a h) < unat sz" by (simp add: word_le_nat_alt)
        have "class_of (sizeAndFlag ?a h) \<le> class_of sz"
          using lt assms(2) a(1) small by (intro index_mono) auto
        then have "class_of (sizeAndFlag ?a h) = class_of sz" using a(2) i(1) by simp
        then have "sizeAndFlag ?a h = sz"
          using lt small assms(2,3,5) a(1) by (intro class_inj) auto
        then show False using lt by simp
      qed
      then show ?thesis using get_hit [OF _ a(1) _ a(2)] search Some a(1) by auto
    qed
  next
    case large: False
    have cur: "\<not> fl < 31" "unat cur < 222"
      and cl: "if unat sz < 2 ^ 29 then class_of sz = unat cur else 199 \<le> unat cur"
    proof -
      consider "unat sz < 2 ^ 29" | "2 ^ 29 \<le> unat sz" by linarith
      then have "\<not> fl < 31 \<and> unat cur < 222 \<and> (if unat sz < 2 ^ 29 then class_of sz = unat cur else 199 \<le> unat cur)"
      proof cases
        case 1
        obtain L where L: "7 \<le> L" "L < 29" "unat (OsMemFlGet sz) = L + 24"
          "class_of sz = 31 + (L - 7) * 8 + (unat sz * 8 div 2 ^ L - 8)" "unat sz * 8 div 2 ^ L < 16"
          by (rule index_large [OF _ 1]) (use large in auto)
        have nf: "\<not> fl < 31" using L(1,3) by (simp add: fl_def word_less_nat_alt)
        then have "OsMemFreeListIndexGet sz = cur" by (simp add: OsMemFreeListIndexGet_def Let_def cur_def fl_def)
        then show ?thesis using nf 1 L(2,4,5) by simp
      next
        case 2
        note h = index_huge [OF 2 assms(4), folded fl_def]
        have "cur = push_bit 3 (fl - 31) + OsMemSlGet sz fl + 31" using h(1) by (simp add: cur_def)
        then show ?thesis using 2 h by simp
      qed
      then show "\<not> fl < 31" "unat cur < 222" "if unat sz < 2 ^ 29 then class_of sz = unat cur else 199 \<le> unat cur"
        by simp_all
    qed
    have ix: "unat index = unat cur + 1" using cur by (simp add: index_def unat_word_ariths)
    have "unat cur + 1 < 223" using cur(2) by simp
    note fm = find_marked [of index h, folded found_def, unfolded ix, OF this m223]
    show ?thesis
    proof (cases found)
      case None
      have hi: "class_of (sizeAndFlag x h) \<le> unat cur" if "x \<in> A" for x
      proof (rule ccontr)
        assume "\<not> class_of (sizeAndFlag x h) \<le> unat cur"
        then have "unat cur + 1 \<le> class_of (sizeAndFlag x h)" "class_of (sizeAndFlag x h) < 223" using cls [OF that] by simp_all
        then show False using fm None mem_marked [OF that] by simp
      qed
      have c223: "unat cur < 223" "cur \<noteq> 223" using cur(2) by (simp_all add: word_unat_eq_iff)
      have Fc: "dll (mem h) 0 (F (unat cur)) 0" "freeList h (unat cur) = hd (F (unat cur) @ [0])"
        using F(1) c223(1) by (simp_all add: links_def)
      have z: "0 \<notin> set (F (unat cur))" using F(3) [OF c223(1)] F(7) by blast
      let ?r = "case find (\<lambda>x. sizeAndFlag x h \<ge> sz) (F (unat cur)) of None \<Rightarrow> 0 | Some x \<Rightarrow> x"
      have s: "OsMemFindNextSuitableBlock sz h = Some (?r, cur)"
        using search None c223(2) OsMemFindCurSuitableBlock_list [OF Fc(1) z, of sz] by (simp add: Fc(2))
      show ?thesis
      proof (cases "find (\<lambda>x. sizeAndFlag x h \<ge> sz) (F (unat cur))")
        case n: None
        have "\<not> sz \<le> sizeAndFlag x h" if "x \<in> A" for x
        proof
          assume g: "sz \<le> sizeAndFlag x h"
          then have "unat sz < 2 ^ 29" using assms(2) that by (fastforce simp: word_le_nat_alt)
          then have "class_of (sizeAndFlag x h) = unat cur" using cl hi [OF that] le [OF that g] by simp
          then have "x \<in> set (F (unat cur))" using F(2) c223(1) that by auto
          then show False using n g by (auto simp: find_None_iff)
        qed
        then show ?thesis using get_miss [of cur] s n by auto
      next
        case (Some a)
        then have "a \<in> set (F (unat cur))" "sz \<le> sizeAndFlag a h"
          by (auto simp: find_Some_iff)
        then show ?thesis using get_hit [of a cur] s Some F(2) c223(1) by auto
      qed
    next
      case (Some i)
      then have i: "unat cur + 1 \<le> unat i" "unat i < 223" "marked h (unat i)" using fm by simp_all
      let ?a = "freeList h (unat i)"
      have a: "?a \<in> A" "class_of (sizeAndFlag ?a h) = unat i" using class_members [OF F(1,2) i(2,3)] by simp_all
      have sm: "unat sz < 2 ^ 29" using cl i(1) cls [OF a(1)] a(2) by (auto split: if_splits)
      have "sz \<le> sizeAndFlag ?a h"
      proof (rule ccontr)
        assume "\<not> sz \<le> sizeAndFlag ?a h"
        then have "class_of (sizeAndFlag ?a h) \<le> class_of sz"
          using assms(2) a(1) sm by (intro index_mono) (auto simp: word_le_nat_alt)
        then show False using cl sm a(2) i(1) by simp
      qed
      then show ?thesis using get_hit [OF _ a(1) _ a(2)] search Some a(1) by auto
    qed
  qed
qed

end
