(* ===== verification/Mem_Nodes.thy ===== *)
theory Mem_Nodes
  imports Mem_Lists
begin

text \<open>
  The nodes of the heap: they tile the memory between the pool's head and its end node, each points
  back to the one before it.  Setting flags, merging two nodes and splitting one keep the tiling.
\<close>

section \<open>Sizes\<close>

definition nsz :: "nat \<Rightarrow> OsMemPoolHead \<Rightarrow> nat" where
  "nsz a h = unat (OS_MEM_NODE_GET_SIZE (sizeAndFlag a h))"

definition used_node :: "nat \<Rightarrow> OsMemPoolHead \<Rightarrow> bool" where
  "used_node a h \<longleftrightarrow> tst (sizeAndFlag a h) OS_MEM_NODE_USED_FLAG"

text \<open>A size word without flags.\<close>

definition plain :: "u32 \<Rightarrow> bool" where
  "plain w \<longleftrightarrow> unat w < 2 ^ 30"

lemma flag_bits:
  "bit (OS_MEM_NODE_USED_FLAG) n \<longleftrightarrow> n = 31" "bit (OS_MEM_NODE_ALIGNED_FLAG) n \<longleftrightarrow> n = 30"
proof -
  have e: "OS_MEM_NODE_USED_FLAG = 2 ^ 31" "OS_MEM_NODE_ALIGNED_FLAG = 2 ^ 30" by simp_all
  show "bit (OS_MEM_NODE_USED_FLAG) n \<longleftrightarrow> n = 31" unfolding e(1) by (rule bit_exp_word) simp
  show "bit (OS_MEM_NODE_ALIGNED_FLAG) n \<longleftrightarrow> n = 30" unfolding e(2) by (rule bit_exp_word) simp
qed

lemma tst_flags:
  "tst w OS_MEM_NODE_USED_FLAG \<longleftrightarrow> bit w 31" "tst w OS_MEM_NODE_ALIGNED_FLAG \<longleftrightarrow> bit w 30"
  by (simp_all only: tst_bit flag_bits) blast+

lemma tst_used_used [simp]: "tst OS_MEM_NODE_USED_FLAG OS_MEM_NODE_USED_FLAG"
  by (simp only: tst_flags flag_bits)

lemma bit_size: "bit (OS_MEM_NODE_GET_SIZE w) n \<longleftrightarrow> bit w n \<and> n < 30"
  unfolding OS_MEM_NODE_GET_SIZE_def bit_and_iff bit_not_iff bit_or_iff flag_bits
  by (auto dest: word_bit_length)

lemma size_of_flags [simp]:
  "OS_MEM_NODE_GET_SIZE (w OR OS_MEM_NODE_USED_FLAG) = OS_MEM_NODE_GET_SIZE w"
  "OS_MEM_NODE_GET_SIZE (w OR OS_MEM_NODE_ALIGNED_FLAG) = OS_MEM_NODE_GET_SIZE w"
  "OS_MEM_NODE_GET_SIZE (OS_MEM_NODE_GET_SIZE w) = OS_MEM_NODE_GET_SIZE w"
  by (rule bit_word_eqI, simp only: bit_size bit_or_iff flag_bits, auto)+

lemma size_plain: "plain w \<Longrightarrow> OS_MEM_NODE_GET_SIZE w = w"
proof (rule bit_word_eqI)
  fix n
  assume "plain w" "n < LENGTH(32)"
  have "n < 30" if "bit w n"
  proof -
    have "bit (unat w) n" using that by (auto simp: bit_unsigned_iff dest: word_bit_length)
    then have "2 ^ n \<le> unat w" by (rule nat_bit_le)
    then have "(2 :: nat) ^ n < 2 ^ 30" using \<open>plain w\<close> by (simp add: plain_def)
    then show ?thesis by (rule exp_less)
  qed
  then show "bit (OS_MEM_NODE_GET_SIZE w) n = bit w n" by (auto simp: bit_size)
qed

lemma plain_size: "plain (OS_MEM_NODE_GET_SIZE w)"
proof -
  have "OS_MEM_NODE_GET_SIZE w = take_bit 30 w" by (rule bit_word_eqI) (auto simp: bit_size bit_take_bit_iff)
  then have "unat (OS_MEM_NODE_GET_SIZE w) = take_bit 30 (unat w)" by (simp only: unsigned_take_bit_eq)
  then show ?thesis unfolding plain_def by (simp only: take_bit_nat_less_exp)
qed

lemma plain_flags: "plain w \<Longrightarrow> \<not> tst w OS_MEM_NODE_USED_FLAG" "plain w \<Longrightarrow> \<not> tst w OS_MEM_NODE_ALIGNED_FLAG"
  using bit_size [of w 31] bit_size [of w 30] by (simp_all add: size_plain tst_flags)

lemma used_flag [simp]: "tst (w OR OS_MEM_NODE_USED_FLAG) OS_MEM_NODE_USED_FLAG"
  by (simp only: tst_flags bit_or_iff flag_bits simp_thms)

section \<open>The tiling\<close>

definition tiled :: "nat \<Rightarrow> nat \<Rightarrow> nat set \<Rightarrow> OsMemPoolHead \<Rightarrow> bool" where
  "tiled s e N h \<longleftrightarrow>
     0 < s \<and> 4 dvd s \<and> e + 8 \<le> 2 ^ 32 \<and> e < s + 2 ^ 28 \<and> s \<in> N \<and> node_prev s h = e \<and> sizeAndFlag e h = OS_MEM_NODE_USED_FLAG \<and>
     (\<forall>a\<in>N. s \<le> a \<and> 4 dvd a \<and> 16 \<le> nsz a h \<and> 4 dvd nsz a h \<and> a + nsz a h \<le> e \<and>
        (a + nsz a h = e \<or> a + nsz a h \<in> N) \<and> node_prev (a + nsz a h) h = a \<and>
        (\<forall>b\<in>N. a < b \<longrightarrow> a + nsz a h \<le> b))"

lemma tiledD:
  assumes "tiled s e N h" "a \<in> N"
  shows "s \<le> a" "4 dvd a" "16 \<le> nsz a h" "4 dvd nsz a h" "a + nsz a h \<le> e" "a + nsz a h \<in> insert e N"
    "node_prev (a + nsz a h) h = a" "b \<in> N \<Longrightarrow> a < b \<Longrightarrow> a + nsz a h \<le> b" "a < e" "0 < a" "a < 2 ^ 32"
    "nsz a h < 2 ^ 28"
  using assms by (auto simp: tiled_def)

lemma tiled_frame:
  assumes "tiled s e N h"
  shows "0 < s" "4 dvd s" "e + 8 \<le> 2 ^ 32" "e < s + 2 ^ 28" "s \<in> N" "node_prev s h = e" "sizeAndFlag e h = OS_MEM_NODE_USED_FLAG"
    "e \<notin> N" "finite N"
proof -
  have "N \<subseteq> {..<e}" using tiledD(9) [OF assms] by blast
  then show "finite N" by (rule finite_subset) simp
  show "e \<notin> N" using tiledD(9) [OF assms] by blast
qed (use assms in \<open>simp_all add: tiled_def\<close>)

lemma tiled_order:
  assumes "tiled s e N h" "a \<in> insert e N" "b \<in> insert e N" "a < b"
  shows "a + 16 \<le> b" "a + nsz a h \<le> b" "a \<in> N"
proof -
  have "b \<le> e" using assms(1,3) tiledD(9) by fastforce
  then show a: "a \<in> N" using assms(2,4) by auto
  show "a + nsz a h \<le> b" using assms(3,4) tiledD(5,8) [OF assms(1) a] by blast
  then show "a + 16 \<le> b" using tiledD(3) [OF assms(1) a] by simp
qed

lemma tiled_apart: "tiled s e N h \<Longrightarrow> apart N"
  unfolding apart_def using tiled_order by (metis insertCI linorder_neqE_nat)

lemma tiled_words:
  assumes "tiled s e N h" "a \<in> insert e N" "b \<in> insert e N"
  shows "a + 4 \<noteq> b" "b \<noteq> a + 4" "a + 8 \<noteq> b" "a + 12 \<noteq> b" "a + 8 \<noteq> b + 4" "a + 12 \<noteq> b + 4"
  using tiled_order(1) [OF assms] tiled_order(1) [OF assms(1,3,2)] by (cases a b rule: linorder_cases; simp)+

lemma tiled_cong:
  assumes "tiled s e N h" "\<And>a. a \<in> insert e N \<Longrightarrow> node_prev a h' = node_prev a h"
    and "\<And>a. a \<in> N \<Longrightarrow> nsz a h' = nsz a h" "sizeAndFlag e h' = sizeAndFlag e h"
  shows "tiled s e N h'"
proof -
  have n: "node_prev (a + nsz a h) h' = a" if "a \<in> N" for a using assms(2) tiledD(6,7) [OF assms(1) that] by metis
  then show ?thesis using assms unfolding tiled_def by (metis insertCI)
qed

lemma put_fields:
  "sizeAndFlag b (put_word x w h) = (if b + 4 = x then w else sizeAndFlag b h)"
  "node_prev b (put_word x w h) = (if b = x then unat w else node_prev b h)"
  "freeList (put_word x w h) = freeList h" "freeListBitmap (put_word x w h) = freeListBitmap h"
  "mem (put_word x w h) = (mem h)(x := w)" "same_info h (put_word x w h)"
  by (simp_all add: sizeAndFlag_def node_prev_def put_word_def same_info_def)

text \<open>The flags of a node do not matter for the tiling.\<close>

lemma tiled_flag:
  assumes "tiled s e N h" "a \<in> N" "OS_MEM_NODE_GET_SIZE w = OS_MEM_NODE_GET_SIZE (sizeAndFlag a h)"
  shows "tiled s e N (set_size a w h)"
proof (rule tiled_cong [OF assms(1)])
  show "node_prev b (set_size a w h) = node_prev b h" if "b \<in> insert e N" for b
    using tiled_words [OF assms(1) _ that, of a] assms(2) by (simp add: put_fields)
  show "nsz b (set_size a w h) = nsz b h" if "b \<in> N" for b
    using assms(3) by (simp add: nsz_def put_fields)
  show "sizeAndFlag e (set_size a w h) = sizeAndFlag e h"
    using tiled_frame(8) [OF assms(1)] assms(2) by (auto simp: put_fields)
qed

text \<open>Nor do the links of free nodes.\<close>

lemma tiled_links:
  assumes "tiled s e N h" "changes (link_words A) h h'" "A \<subseteq> N" "a \<in> insert e N"
  shows "node_prev a h' = node_prev a h" "sizeAndFlag a h' = sizeAndFlag a h" "nsz a h' = nsz a h"
    "used_node a h' = used_node a h"
proof -
  have "a \<notin> link_words A" "a + 4 \<notin> link_words A"
    using tiled_words(3-6) [OF assms(1) _ assms(4)] assms(3) by (auto simp: link_words_def) (metis insertCI subsetD)+
  then show "node_prev a h' = node_prev a h" "sizeAndFlag a h' = sizeAndFlag a h"
    using assms(2) by (simp_all add: changes_def node_prev_def sizeAndFlag_def)
  then show "nsz a h' = nsz a h" "used_node a h' = used_node a h" by (simp_all add: nsz_def used_node_def)
qed

lemma tiled_changes_links:
  assumes "tiled s e N h" "changes (link_words A) h h'" "A \<subseteq> N"
  shows "tiled s e N h'"
  using tiled_links [OF assms] by (intro tiled_cong [OF assms(1)]) simp_all

section \<open>Merging and splitting\<close>

lemma plain_nsz: "plain (sizeAndFlag a h) \<Longrightarrow> unat (sizeAndFlag a h) = nsz a h"
  by (simp add: nsz_def size_plain)

lemma merge_node:
  assumes t: "tiled s e N h" and p: "p \<in> N" and n: "n = p + nsz p h" "n \<in> N"
    and pl: "plain (sizeAndFlag p h)" "plain (sizeAndFlag n h)"
  defines "h' \<equiv> OsMemMergeNode n h"
  shows "tiled s e (N - {n}) h'" "nsz p h' = nsz p h + nsz n h" "plain (sizeAndFlag p h')"
    "\<And>a. a \<in> insert e N \<Longrightarrow> a \<noteq> p \<Longrightarrow> sizeAndFlag a h' = sizeAndFlag a h"
    "changes {p + 4, n + nsz n h} h h'" "freeList h' = freeList h" "freeListBitmap h' = freeListBitmap h"
proof -
  let ?w = "sizeAndFlag p h + sizeAndFlag n h"
  define x where "x = n + nsz n h"
  note tp = tiledD [OF t p] and tn = tiledD [OF t n(2)]
  have pn: "p < n" using n(1) tp(3) by simp
  have pe: "p \<in> insert e N" "n \<in> insert e N" "x \<in> insert e N" using p n(2) tn(6) by (simp_all add: x_def)
  have xn: "x \<noteq> n" "x \<noteq> p" using tn(3) pn by (simp_all add: x_def)
  have prv: "node_prev n h = p" using tp(7) n(1) by simp
  have h': "h' = set_prev x p (set_size p ?w h)"
    using pn by (simp add: h'_def OsMemMergeNode_def Let_def prv put_fields plain_nsz [OF pl(2)] x_def)
      (use tiled_words(1) [OF t pe(1,2)] prv in \<open>simp add: put_fields\<close>)?
  have upp: "unat (of_nat p :: u32) = p" using tp(11) by (intro unat_of_nat_small) simp
  have sz: "sizeAndFlag a h' = (if a = p then ?w else sizeAndFlag a h)" if "a \<in> insert e N" for a
    using tiled_words(1) [OF t that pe(3)] by (simp add: h' put_fields)
  have pr: "node_prev a h' = (if a = x then p else node_prev a h)" if "a \<in> insert e N" for a
    using tiled_words(2) [OF t pe(1) that] upp by (simp add: h' put_fields)
  show "sizeAndFlag a h' = sizeAndFlag a h" if "a \<in> insert e N" "a \<noteq> p" for a using sz [OF that(1)] that(2) by simp
  have "nsz p h + nsz n h < 2 ^ 28"
    using tn(5) n(1) tp(1) tiled_frame(4) [OF t] by linarith
  then have uw: "unat ?w = nsz p h + nsz n h"
    by (simp add: unat_word_ariths plain_nsz [OF pl(1)] plain_nsz [OF pl(2)])
  then show plain: "plain (sizeAndFlag p h')" using \<open>nsz p h + nsz n h < 2 ^ 28\<close> sz [OF pe(1)] by (simp add: plain_def)
  then show np: "nsz p h' = nsz p h + nsz n h" using plain_nsz [OF plain] sz [OF pe(1)] uw by simp
  show "changes {p + 4, n + nsz n h} h h'" "freeList h' = freeList h" "freeListBitmap h' = freeListBitmap h"
    by (simp_all add: h' changes_def put_fields x_def) (simp add: same_info_def put_word_def)
  have na: "nsz a h' = nsz a h" if "a \<in> N" "a \<noteq> p" for a using sz [of a] that by (simp add: nsz_def)
  have s: "s \<noteq> n" using pn tp(1) by simp
  have node: "s \<le> a \<and> 4 dvd a \<and> 16 \<le> nsz a h' \<and> 4 dvd nsz a h' \<and> a + nsz a h' \<le> e \<and>
        (a + nsz a h' = e \<or> a + nsz a h' \<in> N - {n}) \<and> node_prev (a + nsz a h') h' = a \<and>
        (\<forall>b\<in>N - {n}. a < b \<longrightarrow> a + nsz a h' \<le> b)" if a: "a \<in> N - {n}" for a
  proof (cases "a = p")
    case True
    have ax: "p + nsz p h' = x" using n(1) np by (simp add: x_def)
    have "x \<le> b" if b: "b \<in> N - {n}" "p < b" for b
    proof -
      have "n \<le> b" using tp(8) [of b] b n(1) by simp
      then show ?thesis using tn(8) [of b] b by (auto simp: x_def)
    qed
    moreover have "4 dvd nsz p h'" "16 \<le> nsz p h'" using np tp(3,4) tn(4) by simp_all
    moreover have "x = e \<or> x \<in> N - {n}" "x \<le> e" using tn(5,6) xn by (auto simp: x_def)
    moreover have "node_prev x h' = p" using pr [OF pe(3)] by simp
    ultimately show ?thesis unfolding True ax using tp(1,2) by blast
  next
    case False
    have aN: "a \<in> N" "a \<noteq> n" using a by auto
    note ta = tiledD [OF t aN(1)]
    have "a + nsz a h \<noteq> n" using ta(7) prv False by metis
    moreover have "a + nsz a h \<noteq> x" using ta(7) tn(7) aN(2) by (metis x_def)
    ultimately show ?thesis using ta na [OF aN(1) False] pr [OF ta(6)] by auto
  qed
  have "x \<noteq> s" using tn(1,3) pn by (simp add: x_def)
  then have "node_prev s h' = e" using pr [of s] tiled_frame(5,6) [OF t] by simp
  moreover have "sizeAndFlag e h' = OS_MEM_NODE_USED_FLAG" using sz [of e] tp(9) tiled_frame(7) [OF t] by simp
  ultimately show "tiled s e (N - {n}) h'"
    unfolding tiled_def using node s tiled_frame(1-5) [OF t] by blast
qed

text \<open>The first writes of \<^verbatim>\<open>OsMemSplitNode\<close>: the header of the new node behind \<open>k\<close> bytes.\<close>

definition split_words :: "nat \<Rightarrow> u32 \<Rightarrow> OsMemPoolHead \<Rightarrow> OsMemPoolHead" where
  "split_words a k h =
     (let f = a + unat k; h1 = set_prev f a h; h3 = set_size a k (set_size f (sizeAndFlag a h1 - k) h1)
      in set_prev (OS_MEM_NEXT_NODE f h3) f h3)"

lemma split_node:
  assumes t: "tiled s e N h" and a: "a \<in> N" and pl: "plain (sizeAndFlag a h)"
    and k: "16 \<le> unat k" "4 dvd unat k" "unat k + 16 \<le> nsz a h"
  defines "f \<equiv> a + unat k" and "h' \<equiv> split_words a k h"
  shows "tiled s e (insert f N) h'" "f \<notin> insert e N" "sizeAndFlag a h' = k" "nsz a h' = unat k" "nsz f h' = nsz a h - unat k"
    "plain (sizeAndFlag f h')" "plain k"
    "\<And>b. b \<in> insert e N \<Longrightarrow> b \<noteq> a \<Longrightarrow> sizeAndFlag b h' = sizeAndFlag b h"
    "changes {f, f + 4, a + 4, a + nsz a h} h h'" "freeList h' = freeList h" "freeListBitmap h' = freeListBitmap h"
    "OS_MEM_NEXT_NODE f (set_size a k (set_size f (sizeAndFlag a (set_prev f a h) - k) (set_prev f a h))) = a + nsz a h"
proof -
  define x where "x = a + nsz a h"
  let ?w = "sizeAndFlag a h - k"
  note ta = tiledD [OF t a]
  have us: "unat (sizeAndFlag a h) = nsz a h" by (rule plain_nsz [OF pl])
  have uw: "unat ?w = nsz a h - unat k" using k(3) us by (simp add: unat_sub word_le_nat_alt)
  have fa: "a + 16 \<le> f" "f + 16 \<le> x" using k by (simp_all add: f_def x_def)
  have pe: "a \<in> insert e N" "x \<in> insert e N" using a ta(6) by (simp_all add: x_def)
  have far: "f + 16 \<le> b \<or> b + 16 \<le> f" if "b \<in> insert e N" for b
  proof (cases "a < b")
    case True
    then have "x \<le> b" using tiled_order(2) [OF t pe(1) that] by (simp add: x_def)
    then show ?thesis using fa by simp
  next
    case False
    then have "b \<le> a" by simp
    then have "b + 16 \<le> a \<or> b = a" using tiled_order(1) [OF t that pe(1)] by fastforce
    then show ?thesis using fa by auto
  qed
  show fN: "f \<notin> insert e N" using far by fastforce
  have pw: "plain ?w" "plain k" using uw ta(12) k(3) by (simp_all add: plain_def)
  have nx: "f + unat (OS_MEM_NODE_GET_SIZE ?w) = x"
    using k(3) uw by (simp add: size_plain [OF pw(1)] f_def x_def)
  have n: "OS_MEM_NEXT_NODE f (set_size a k (set_size f ?w (set_prev f a h))) = x"
    using nx fa(1) by (simp add: OS_MEM_NEXT_NODE_def put_fields)
  have sa: "sizeAndFlag a (set_prev f a h) = sizeAndFlag a h" using fa(1) by (simp add: put_fields)
  show "OS_MEM_NEXT_NODE f (set_size a k (set_size f (sizeAndFlag a (set_prev f a h) - k) (set_prev f a h))) = a + nsz a h"
    unfolding sa n by (rule x_def)
  have h': "h' = set_prev x f (set_size a k (set_size f ?w (set_prev f a h)))"
    by (simp add: h'_def split_words_def Let_def f_def [symmetric] n sa)
  have uf: "unat (of_nat a :: u32) = a" "unat (of_nat f :: u32) = f"
    using ta(5,11) fa tiled_frame(3) [OF t] by (auto intro!: unat_of_nat_small simp: x_def)
  have sz: "sizeAndFlag b h' = (if b = a then k else sizeAndFlag b h)" if "b \<in> insert e N" for b
    using tiled_words(1) [OF t that pe(2)] far [OF that] fa by (auto simp: h' put_fields)
  have szf: "sizeAndFlag f h' = ?w" using far [OF pe(2)] fa by (simp add: h' put_fields)
  have pr: "node_prev b h' = (if b = x then f else node_prev b h)" if "b \<in> insert e N" for b
    using tiled_words(2) [OF t pe(1) that] far [OF that] uf by (auto simp: h' put_fields)
  have pvf: "node_prev f h' = a" using fa uf by (simp add: h' put_fields)
  show "sizeAndFlag a h' = k" "\<And>b. b \<in> insert e N \<Longrightarrow> b \<noteq> a \<Longrightarrow> sizeAndFlag b h' = sizeAndFlag b h"
    using sz pe(1) by simp_all
  show na: "nsz a h' = unat k" using sz [OF pe(1)] by (simp add: nsz_def size_plain [OF pw(2)])
  show nf: "nsz f h' = nsz a h - unat k" by (simp add: nsz_def szf size_plain [OF pw(1)] uw)
  show "plain (sizeAndFlag f h')" "plain k" using szf pw by simp_all
  show "changes {f, f + 4, a + 4, a + nsz a h} h h'" "freeList h' = freeList h" "freeListBitmap h' = freeListBitmap h"
    by (simp_all add: h' changes_def put_fields x_def) (simp add: same_info_def put_word_def)
  have nb: "nsz b h' = nsz b h" if "b \<in> N" "b \<noteq> a" for b using sz [of b] that by (simp add: nsz_def)
  have node: "s \<le> c \<and> 4 dvd c \<and> 16 \<le> nsz c h' \<and> 4 dvd nsz c h' \<and> c + nsz c h' \<le> e \<and>
        (c + nsz c h' = e \<or> c + nsz c h' \<in> insert f N) \<and> node_prev (c + nsz c h') h' = c \<and>
        (\<forall>b\<in>insert f N. c < b \<longrightarrow> c + nsz c h' \<le> b)" if c: "c \<in> insert f N" for c
  proof -
    consider "c = f" | "c = a" | "c \<in> N" "c \<noteq> a" "c \<noteq> f" using c by blast
    then show ?thesis
    proof cases
      case 1
      have fx: "f + nsz f h' = x" using nf k(3) by (simp add: f_def x_def)
      have "x \<le> b" if "b \<in> N" "f < b" for b using ta(8) [of b] that fa(1) by (simp add: x_def)
      moreover have "4 dvd f" using ta(2) k(2) by (simp add: f_def)
      moreover have "4 dvd nsz f h'" using ta(4) k(2) nf by (simp add: dvd_diff_nat)
      ultimately show ?thesis unfolding 1 fx
        using pr [OF pe(2)] ta(1,5,6) nf k(3) by (auto simp: f_def x_def)
    next
      case 2
      have ax: "a + nsz a h' = f" by (simp add: na f_def)
      have "f \<le> b" if "b \<in> N" "a < b" for b using ta(8) [OF that] fa(2) by (simp add: x_def)
      then show ?thesis unfolding 2 ax using ta(1,2,5) pvf na k fa(2) by (auto simp: x_def)
    next
      case 3
      note tc = tiledD [OF t 3(1)]
      have "c + nsz c h \<noteq> x" using tc(7) ta(7) 3(2) by (metis x_def)
      moreover have "c + nsz c h \<le> f" if "c < f"
      proof -
        have "c < a" using far [of c] 3 that fa tiled_order(2) [OF t pe(1), of c] by (fastforce simp: x_def)
        then show ?thesis using tc(8) [OF a] fa(1) by simp
      qed
      ultimately show ?thesis using tc pr [OF tc(6)] nb [OF 3(1,2)] by auto
    qed
  qed
  have "x \<noteq> s" using ta(1,3) by (simp add: x_def)
  then have "node_prev s h' = e" using pr [of s] tiled_frame(5,6) [OF t] by simp
  moreover have "sizeAndFlag e h' = OS_MEM_NODE_USED_FLAG" using sz [of e] ta(9) tiled_frame(7) [OF t] by simp
  ultimately show "tiled s e (insert f N) h'"
    unfolding tiled_def using node tiled_frame(1-5) [OF t] by blast
qed

section \<open>Nodes and lists together\<close>

definition heap_st :: "nat \<Rightarrow> nat \<Rightarrow> nat set \<Rightarrow> nat set \<Rightarrow> OsMemPoolHead \<Rightarrow> bool" where
  "heap_st s e N A h \<longleftrightarrow> tiled s e N h \<and> listed A h \<and> A \<subseteq> N \<and> (\<forall>b\<in>A. plain (sizeAndFlag b h))"

lemma heap_stD:
  "heap_st s e N A h \<Longrightarrow> tiled s e N h" "heap_st s e N A h \<Longrightarrow> listed A h" "heap_st s e N A h \<Longrightarrow> A \<subseteq> N"
  "heap_st s e N A h \<Longrightarrow> b \<in> A \<Longrightarrow> plain (sizeAndFlag b h)"
  by (simp_all add: heap_st_def)

lemma changes_mono: "changes S h h' \<Longrightarrow> S \<subseteq> T \<Longrightarrow> changes T h h'"
  by (auto simp: changes_def)

lemma changes_trans: "changes S h h' \<Longrightarrow> changes S h' h'' \<Longrightarrow> changes S h h''"
  by (simp add: changes_def same_info_def)

lemma changes_refl: "changes S h h"
  by (simp add: changes_def same_info_def)

text \<open>The words of the headers of a set of nodes.\<close>

definition header_words :: "nat set \<Rightarrow> nat set" where
  "header_words N = {w. \<exists>b\<in>N. w = b \<or> w = b + 4}"

lemma header_words_I: "b \<in> N \<Longrightarrow> b \<in> header_words N" "b \<in> N \<Longrightarrow> b + 4 \<in> header_words N"
  by (auto simp: header_words_def)

lemma header_words_mono: "N \<subseteq> M \<Longrightarrow> header_words N \<subseteq> header_words M"
  by (auto simp: header_words_def)

lemma link_words_subset: "A \<subseteq> B \<Longrightarrow> link_words A \<subseteq> link_words B"
  by (auto simp: link_words_def)

lemma nsz_cong: "sizeAndFlag b h' = sizeAndFlag b h \<Longrightarrow> nsz b h' = nsz b h"
  "sizeAndFlag b h' = sizeAndFlag b h \<Longrightarrow> used_node b h' = used_node b h"
  by (simp_all add: nsz_def used_node_def)

lemma index_of_node:
  assumes "tiled s e N h" "b \<in> N" "plain (sizeAndFlag b h)"
  shows "class_of (sizeAndFlag b h) < 223"
  using tiledD(3,12) [OF assms(1,2)] index_bound [of "sizeAndFlag b h"] plain_nsz [OF assms(3)] by simp

lemma st_del:
  assumes "heap_st s e N A h" "x \<in> A"
  defines "h' \<equiv> OsMemFreeNodeDelete x h"
  shows "heap_st s e N (A - {x}) h'" "\<And>b. b \<in> insert e N \<Longrightarrow> sizeAndFlag b h' = sizeAndFlag b h"
    "changes (link_words A) h h'"
proof -
  note d = listed_delete [OF heap_stD(2) [OF assms(1)] assms(2), folded h'_def]
  show c: "changes (link_words A) h h'" by (rule changes_mono [OF d(2)]) (rule link_words_subset, blast)
  note l = tiled_links [OF heap_stD(1) [OF assms(1)] c heap_stD(3) [OF assms(1)]]
  show "sizeAndFlag b h' = sizeAndFlag b h" if "b \<in> insert e N" for b using l(2) [OF that] .
  then show "heap_st s e N (A - {x}) h'"
    using d(1) tiled_changes_links [OF heap_stD(1) [OF assms(1)] c heap_stD(3) [OF assms(1)]] assms(1)
    by (auto simp: heap_st_def)
qed

lemma st_add:
  assumes "heap_st s e N A h" "x \<in> N" "x \<notin> A" "plain (sizeAndFlag x h)"
  defines "h' \<equiv> OsMemFreeNodeAdd x h"
  shows "heap_st s e N (insert x A) h'" "\<And>b. b \<in> insert e N \<Longrightarrow> sizeAndFlag b h' = sizeAndFlag b h"
    "changes (link_words (insert x A)) h h'"
proof -
  note t = heap_stD(1) [OF assms(1)]
  have sub: "insert x A \<subseteq> N" using heap_stD(3) [OF assms(1)] assms(2) by blast
  note d = listed_add [OF heap_stD(2) [OF assms(1)] assms(3) apart_subset [OF tiled_apart [OF t] sub]
      tiledD(10,11) [OF t assms(2)] index_of_node [OF t assms(2,4)], folded h'_def]
  note l = tiled_links [OF t d(2) sub]
  show "sizeAndFlag b h' = sizeAndFlag b h" if "b \<in> insert e N" for b using l(2) [OF that] .
  then show "heap_st s e N (insert x A) h'"
    using d(1) tiled_changes_links [OF t d(2) sub] sub assms(1,4) by (auto simp: heap_st_def)
  show "changes (link_words (insert x A)) h h'" by (rule d(2))
qed

text \<open>Writes to words that no listed node uses keep the lists.\<close>

lemma listed_changes:
  assumes "listed A h" "changes W h h'" "freeList h' = freeList h" "freeListBitmap h' = freeListBitmap h"
    and "\<And>x i. x \<in> A \<Longrightarrow> i \<in> {4, 8, 12} \<Longrightarrow> x + i \<notin> W"
  shows "listed A h'"
  by (rule listed_cong [OF assms(1,3,4)]) (use assms(2,5) in \<open>auto simp: changes_def\<close>)

lemma st_merge:
  assumes st: "heap_st s e N A h" and p: "p \<in> N" "p \<notin> A" and x: "x = p + nsz p h" "x \<in> N" "x \<notin> A"
    and pl: "plain (sizeAndFlag p h)" "plain (sizeAndFlag x h)"
  defines "h' \<equiv> OsMemMergeNode x h"
  shows "heap_st s e (N - {x}) A h'" "nsz p h' = nsz p h + nsz x h" "plain (sizeAndFlag p h')"
    "\<And>b. b \<in> insert e N \<Longrightarrow> b \<noteq> p \<Longrightarrow> sizeAndFlag b h' = sizeAndFlag b h"
    "changes (header_words (insert e N)) h h'"
proof -
  note t = heap_stD(1) [OF st]
  note m = merge_node [OF t p(1) x(1,2) pl, folded h'_def]
  have nx: "x + nsz x h \<in> insert e N" by (rule tiledD(6) [OF t x(2)])
  have l: "listed A h'"
  proof (rule listed_changes [OF heap_stD(2) [OF st] m(5-7)])
    fix y i assume y: "y \<in> A" "i \<in> {4, 8, 12 :: nat}"
    then have "y \<in> N" "y \<noteq> p" using heap_stD(3) [OF st] p(2) by auto
    then show "y + i \<notin> {p + 4, x + nsz x h}"
      using tiled_words [OF t, of y p] tiled_words [OF t _ nx, of y] p(1) y(2) by auto
  qed
  show "heap_st s e (N - {x}) A h'"
  proof -
    have "plain (sizeAndFlag b h')" if "b \<in> A" for b
      using m(4) [of b] heap_stD(3,4) [OF st] that p(2) by fastforce
    then show ?thesis using m(1) l heap_stD(3) [OF st] x(3) by (auto simp: heap_st_def)
  qed
  show "changes (header_words (insert e N)) h h'"
    by (rule changes_mono [OF m(5)]) (use p(1) nx in \<open>auto intro: header_words_I\<close>)
  show "nsz p h' = nsz p h + nsz x h" "plain (sizeAndFlag p h')"
    "\<And>b. b \<in> insert e N \<Longrightarrow> b \<noteq> p \<Longrightarrow> sizeAndFlag b h' = sizeAndFlag b h"
    by (fact m(2-4))+
qed

lemma st_flag:
  assumes st: "heap_st s e N A h" and a: "a \<in> N" "a \<notin> A" "OS_MEM_NODE_GET_SIZE w = OS_MEM_NODE_GET_SIZE (sizeAndFlag a h)"
  defines "h' \<equiv> set_size a w h"
  shows "heap_st s e N A h'" "sizeAndFlag a h' = w" "nsz a h' = nsz a h"
    "\<And>b. b \<noteq> a \<Longrightarrow> sizeAndFlag b h' = sizeAndFlag b h" "changes (header_words N) h h'"
proof -
  note t = heap_stD(1) [OF st]
  show c: "changes (header_words N) h h'"
    using header_words_I(2) [OF a(1)] by (auto simp: changes_def h'_def put_fields)
  show sz: "sizeAndFlag a h' = w" "\<And>b. b \<noteq> a \<Longrightarrow> sizeAndFlag b h' = sizeAndFlag b h"
    by (simp_all add: h'_def put_fields)
  show "nsz a h' = nsz a h" using sz(1) a(3) by (simp add: nsz_def)
  have "listed A h'"
  proof (rule listed_changes [OF heap_stD(2) [OF st], where W = "{a + 4}"])
    fix y i assume y: "y \<in> A" "i \<in> {4, 8, 12 :: nat}"
    then have "y \<in> N" "y \<noteq> a" using heap_stD(3) [OF st] a(2) by auto
    then show "y + i \<notin> {a + 4}" using tiled_words [OF t, of y a] a(1) y(2) by auto
  qed (simp_all add: h'_def put_fields changes_def)
  then show "heap_st s e N A h'"
    using tiled_flag [OF t a(1,3)] heap_stD(3,4) [OF st] a(2) sz(2) by (fastforce simp: heap_st_def h'_def)
qed

lemma st_split:
  assumes st: "heap_st s e N A h" and a: "a \<in> N" "a \<notin> A" "plain (sizeAndFlag a h)"
    and k: "16 \<le> unat k" "4 dvd unat k" "unat k + 16 \<le> nsz a h"
  defines "f \<equiv> a + unat k" and "h' \<equiv> split_words a k h"
  shows "heap_st s e (insert f N) A h'" "f \<notin> insert e N"
    "changes (header_words (insert e (insert f N))) h h'"
proof -
  note t = heap_stD(1) [OF st]
  note m = split_node [OF t a(1,3) k, folded f_def h'_def]
  have nx: "a + nsz a h \<in> insert e N" by (rule tiledD(6) [OF t a(1)])
  show "f \<notin> insert e N" by (rule m(2))
  show "changes (header_words (insert e (insert f N))) h h'"
    by (rule changes_mono [OF m(9)]) (use a(1) nx in \<open>auto intro: header_words_I\<close>)
  have "listed A h'"
  proof (rule listed_changes [OF heap_stD(2) [OF st] m(9-11)])
    fix y i assume y: "y \<in> A" "i \<in> {4, 8, 12 :: nat}"
    then have yN: "y \<in> N" "y \<noteq> a" using heap_stD(3) [OF st] a(2) by auto
    have w: "y + i \<noteq> a + 4" "y + i \<noteq> a + nsz a h"
      using tiled_words [OF t, of y a] tiled_words [OF t _ nx, of y] a(1) yN y(2) by auto
    have "y + 16 \<le> a \<or> a + nsz a h \<le> y"
      using tiled_order [OF t, of y a] tiled_order [OF t, of a y] yN a(1) by (cases y a rule: linorder_cases) auto
    then have "y + i \<noteq> f" "y + i \<noteq> f + 4" using y(2) k by (auto simp: f_def)
    then show "y + i \<notin> {f, f + 4, a + 4, a + nsz a h}" using w by simp
  qed
  then show "heap_st s e (insert f N) A h'"
    using m(1,8) heap_stD(3,4) [OF st] a(2) by (fastforce simp: heap_st_def)
qed

text \<open>The whole split: the rest becomes a free node, together with the next node if that is free.\<close>

lemma st_OsMemSplitNode:
  assumes st: "heap_st s e N A h" and a: "a \<in> N" "a \<notin> A" "plain (sizeAndFlag a h)"
    and k: "16 \<le> unat k" "4 dvd unat k" "unat k + 16 \<le> nsz a h"
  defines "f \<equiv> a + unat k" and "x \<equiv> a + nsz a h"
  assumes nx: "x \<in> N \<Longrightarrow> used_node x h \<longleftrightarrow> x \<notin> A"
  defines "X \<equiv> if used_node x h then {} else {x}" and "h' \<equiv> OsMemSplitNode a k h"
  shows "heap_st s e (insert f (N - X)) (insert f (A - X)) h'" "f \<notin> insert e N"
    "sizeAndFlag a h' = k" "plain (sizeAndFlag f h')" "X \<subseteq> A"
    "nsz f h' = nsz a h - unat k + (if used_node x h then 0 else nsz x h)"
    "\<And>b. b \<in> insert e (N - X) \<Longrightarrow> b \<noteq> a \<Longrightarrow> sizeAndFlag b h' = sizeAndFlag b h"
    "changes (header_words (insert e (insert f N)) \<union> link_words (insert f A)) h h'"
proof -
  note t = heap_stD(1) [OF st]
  define h4 where "h4 = split_words a k h"
  note m = split_node [OF t a(1,3) k, folded f_def h4_def]
  note sp = st_split [OF st a k, folded f_def h4_def]
  let ?N = "insert f N"
  have AN: "A \<subseteq> N" by (rule heap_stD(3) [OF st])
  have fA: "f \<notin> A" "f \<noteq> a" "f \<noteq> x" "x \<noteq> a"
    using sp(2) AN a(1) tiledD(3,6) [OF t a(1)] by (auto simp: x_def)
  have xe: "x \<in> insert e N" using tiledD(6) [OF t a(1)] by (simp add: x_def)
  have sx: "sizeAndFlag x h4 = sizeAndFlag x h" using m(8) [OF xe] fA(4) by simp
  then have ux: "tst (sizeAndFlag x h4) OS_MEM_NODE_USED_FLAG = used_node x h" by (simp add: used_node_def)
  have h': "h' = OsMemFreeNodeAdd f (if used_node x h then h4 else OsMemMergeNode x (OsMemFreeNodeDelete x h4))"
    unfolding h'_def OsMemSplitNode_def Let_def f_def [symmetric] m(12) x_def [symmetric]
    using ux m(12) by (simp add: h4_def split_words_def Let_def f_def [symmetric] x_def [symmetric])
  have c4: "changes (header_words (insert e ?N) \<union> link_words (insert f A)) h h4"
    by (rule changes_mono [OF sp(3)]) blast
  have lA: "link_words B \<subseteq> header_words (insert e ?N) \<union> link_words (insert f A)" if "B \<subseteq> insert f A" for B
    using link_words_subset [OF that] by blast
  show "f \<notin> insert e N" by (rule sp(2))
  have fx: "f + nsz f h4 = x" using m(5) k(3) by (simp add: f_def x_def)
  have "X \<subseteq> A \<and> heap_st s e (insert f (N - X)) (insert f (A - X)) h' \<and> sizeAndFlag a h' = k \<and> plain (sizeAndFlag f h') \<and>
    nsz f h' = nsz a h - unat k + (if used_node x h then 0 else nsz x h) \<and>
    (\<forall>b\<in>insert e (N - X). b \<noteq> a \<longrightarrow> sizeAndFlag b h' = sizeAndFlag b h) \<and>
    changes (header_words (insert e ?N) \<union> link_words (insert f A)) h h'"
  proof (cases "used_node x h")
    case True
    have e5: "h' = OsMemFreeNodeAdd f h4" using True by (simp add: h')
    note ad = st_add [OF sp(1) insertI1 fA(1) m(6), folded e5]
    have sz: "sizeAndFlag b h' = sizeAndFlag b h4" if "b \<in> insert e ?N" for b by (rule ad(2) [OF that])
    have "changes (header_words (insert e ?N) \<union> link_words (insert f A)) h h'"
      by (rule changes_trans [OF c4 changes_mono [OF ad(3)]]) (rule lA, simp)
    then show ?thesis
      using ad(1) True sz [of a] sz [of f] a(1) m(3,5,6) sz m(8) fA by (auto simp: X_def nsz_def)
  next
    case False
    have xN: "x \<in> N" using xe False tiled_frame(7) [OF t] by (auto simp: used_node_def)
    have xA: "x \<in> A" using nx [OF xN] False by simp
    define h5 where "h5 = OsMemFreeNodeDelete x h4"
    define h6 where "h6 = OsMemMergeNode x h5"
    have e5: "h' = OsMemFreeNodeAdd f h6" using False by (simp add: h' h5_def h6_def)
    note de = st_del [OF sp(1) xA, folded h5_def]
    have s5: "sizeAndFlag b h5 = sizeAndFlag b h4" if "b \<in> insert e ?N" for b by (rule de(2) [OF that])
    have f5: "nsz f h5 = nsz f h4" "plain (sizeAndFlag f h5)" using s5 [of f] m(6) by (simp_all add: nsz_def)
    have p5: "plain (sizeAndFlag x h5)" using s5 [of x] xN heap_stD(4) [OF sp(1) xA] by simp
    have "x = f + nsz f h5" using fx f5(1) by simp
    note me = st_merge [OF de(1) _ _ this _ _ f5(2) p5, folded h6_def]
    have N6: "insert f N - {x} = insert f (N - {x})" using fA(3) by auto
    have me': "heap_st s e (insert f (N - {x})) (A - {x}) h6" "nsz f h6 = nsz f h5 + nsz x h5" "plain (sizeAndFlag f h6)"
      "\<And>b. b \<in> insert e ?N \<Longrightarrow> b \<noteq> f \<Longrightarrow> sizeAndFlag b h6 = sizeAndFlag b h5"
      "changes (header_words (insert e ?N)) h5 h6"
      using me xN fA(1) unfolding N6 by simp_all
    have fA6: "f \<notin> A - {x}" using fA(1) by blast
    note ad = st_add [OF me'(1) insertI1 fA6 me'(3), folded e5]
    have sz: "sizeAndFlag b h' = sizeAndFlag b h" if "b \<in> insert e N" "b \<noteq> a" "b \<noteq> x" for b
    proof -
      have "b \<noteq> f" "b \<in> insert e ?N" "b \<in> insert e (insert f (N - {x}))" using that sp(2) by auto
      then show ?thesis using ad(2) [of b] me'(4) [of b] s5 [of b] m(8) [OF that(1,2)] by simp
    qed
    have sa: "sizeAndFlag a h' = k" using ad(2) [of a] me'(4) [of a] s5 [of a] m(3) a(1) fA by auto
    have sf: "sizeAndFlag f h' = sizeAndFlag f h6" by (rule ad(2)) simp
    have "changes (header_words (insert e ?N) \<union> link_words (insert f A)) h h5"
      by (rule changes_trans [OF c4 changes_mono [OF de(3)]]) (rule lA, blast)
    then have "changes (header_words (insert e ?N) \<union> link_words (insert f A)) h h6"
      by (rule changes_trans [OF _ changes_mono [OF me'(5)]]) blast
    then have "changes (header_words (insert e ?N) \<union> link_words (insert f A)) h h'"
      by (rule changes_trans [OF _ changes_mono [OF ad(3)]]) (rule lA, blast)
    moreover have "plain (sizeAndFlag f h')" using sf me'(3) by simp
    moreover have "nsz f h' = nsz a h - unat k + nsz x h"
      using sf me'(2) f5(1) m(5) s5 [of x] sx xN by (simp add: nsz_def)
    moreover have X: "X = {x}" using False by (simp add: X_def)
    moreover have "\<forall>b\<in>insert e (N - X). b \<noteq> a \<longrightarrow> sizeAndFlag b h' = sizeAndFlag b h"
    proof (intro ballI impI)
      fix b assume b: "b \<in> insert e (N - X)" "b \<noteq> a"
      moreover have "b \<noteq> x" using b(1) X xN tiled_frame(8) [OF t] by blast
      ultimately show "sizeAndFlag b h' = sizeAndFlag b h" by (intro sz) auto
    qed
    ultimately show ?thesis using ad(1) sa xA False by simp
  qed
  then show "heap_st s e (insert f (N - X)) (insert f (A - X)) h'"
    "sizeAndFlag a h' = k" "plain (sizeAndFlag f h')" "X \<subseteq> A"
    "nsz f h' = nsz a h - unat k + (if used_node x h then 0 else nsz x h)"
    "\<And>b. b \<in> insert e (N - X) \<Longrightarrow> b \<noteq> a \<Longrightarrow> sizeAndFlag b h' = sizeAndFlag b h"
    "changes (header_words (insert e (insert f N)) \<union> link_words (insert f A)) h h'"
    by blast+
qed

end
