(* ===== verification/Mem_Spec.thy ===== *)
theory Mem_Spec
  imports Mem_Nodes
begin

text \<open>
  The properties of the heap.  A pool whose invariant holds is seen from outside as the set of its
  allocated blocks, each with an address and a length; the operations change this set and leave the
  contents of the blocks alone.
\<close>

section \<open>The invariant and the blocks\<close>

definition free_nodes :: "nat set \<Rightarrow> OsMemPoolHead \<Rightarrow> nat set" where
  "free_nodes N h = {a\<in>N. \<not> used_node a h}"

definition used_nodes :: "nat set \<Rightarrow> OsMemPoolHead \<Rightarrow> nat set" where
  "used_nodes N h = {a\<in>N. used_node a h}"

abbreviation pool_end :: "nat \<Rightarrow> OsMemPoolHead \<Rightarrow> nat" where
  "pool_end pool h \<equiv> OS_MEM_END_NODE pool (totalSize h)"

text \<open>The nodes tile the pool, exactly the free ones are listed, two free nodes are never next to each
  other, and the size in use is accounted for.\<close>

definition heap_inv :: "nat \<Rightarrow> nat set \<Rightarrow> OsMemPoolHead \<Rightarrow> bool" where
  "heap_inv pool N h \<longleftrightarrow> 0 < pool \<and> pool mod 4 = 0 \<and> info_pool h = pool \<and> \<not> mem_panic h \<and>
     heap_st (OS_MEM_FIRST_NODE pool) (pool_end pool h) N (free_nodes N h) h \<and>
     (\<forall>a\<in>free_nodes N h. used_node (a + nsz a h) h) \<and>
     unat (curUsedSize h) = OS_MEM_POOL_HEAD_SIZE + OS_MEM_NODE_HEAD_SIZE + (\<Sum>a\<in>used_nodes N h. nsz a h)"

lemma heap_invD:
  assumes "heap_inv pool N h"
  shows "heap_st (OS_MEM_FIRST_NODE pool) (pool_end pool h) N (free_nodes N h) h"
    "tiled (OS_MEM_FIRST_NODE pool) (pool_end pool h) N h" "a \<in> free_nodes N h \<Longrightarrow> used_node (a + nsz a h) h"
    "0 < pool" "pool mod 4 = 0"
    "unat (curUsedSize h) = OS_MEM_POOL_HEAD_SIZE + OS_MEM_NODE_HEAD_SIZE + (\<Sum>a\<in>used_nodes N h. nsz a h)"
  using assms by (auto simp: heap_inv_def heap_st_def)

text \<open>The nodes do not fill more than the pool.\<close>

lemma sum_sizes:
  assumes "tiled s e N h" "U \<subseteq> N"
  shows "(\<Sum>a\<in>U. nsz a h) \<le> e - s"
proof -
  have fin: "finite U" using tiled_frame(9) [OF assms(1)] assms(2) by (rule finite_subset [rotated])
  have "(\<Sum>a\<in>U. nsz a h) = (\<Sum>a\<in>U. card {a..<a + nsz a h})" by simp
  also have "\<dots> = card (\<Union>a\<in>U. {a..<a + nsz a h})"
  proof (rule card_UN_disjoint [symmetric, OF fin])
    show "\<forall>a\<in>U. \<forall>b\<in>U. a \<noteq> b \<longrightarrow> {a..<a + nsz a h} \<inter> {b..<b + nsz b h} = {}"
      using tiledD(8) [OF assms(1)] assms(2) by (fastforce simp: linorder_neq_iff)
  qed simp
  also have "\<dots> \<le> card {s..<e}"
    using tiledD(1,5) [OF assms(1)] assms(2) by (intro card_mono) fastforce+
  finally show ?thesis by simp
qed

text \<open>No header and no link lies in the payload of another node.\<close>

lemma payload_safe:
  assumes "tiled s e N h" "b \<in> N" "B \<subseteq> N" "b \<notin> B" "b + 8 \<le> w" "w < b + nsz b h"
  shows "w \<notin> header_words (insert e N)" "w \<notin> link_words B"
proof -
  have far: "c + 16 \<le> b \<or> c = b \<or> b + nsz b h \<le> c" if "c \<in> insert e N" for c
    using tiled_order [OF assms(1) that, of b] tiled_order [OF assms(1) _ that, of b] assms(2)
    by (cases c b rule: linorder_cases) auto
  show "w \<notin> header_words (insert e N)" using far assms(5,6) by (fastforce simp: header_words_def)
  have "c + 16 \<le> b \<or> b + nsz b h \<le> c" if "c \<in> B" for c using far [of c] that assms(3,4) by blast
  then show "w \<notin> link_words B" using assms(5,6) by (fastforce simp: link_words_def)
qed

text \<open>The sizes asked for, rounded up.\<close>

lemma unflagged: "\<not> mem_flagged w \<longleftrightarrow> unat w < 2 ^ 30"
proof
  assume "\<not> mem_flagged w"
  then have b: "\<not> bit w 31" "\<not> bit w 30" by (simp_all only: tst_flags simp_thms de_Morgan_disj)
  have "OS_MEM_NODE_GET_SIZE w = w"
  proof (rule bit_word_eqI)
    fix n :: nat
    assume "n < LENGTH(32)"
    then have "n < 30 \<or> n = 30 \<or> n = 31" by auto
    then show "bit (OS_MEM_NODE_GET_SIZE w) n = bit w n" using b by (auto simp: bit_size)
  qed
  then show "unat w < 2 ^ 30" using plain_size [of w] by (simp add: plain_def)
next
  assume "unat w < 2 ^ 30"
  then have "plain w" by (simp add: plain_def)
  then show "\<not> mem_flagged w" using plain_flags by blast
qed

lemma align4:
  assumes "8 \<le> unat sz" "unat sz < 2 ^ 30"
  defines "k \<equiv> OS_MEM_ALIGN (sz + 8) 4"
  shows "unat sz + 8 \<le> unat k" "unat k < unat sz + 12" "4 dvd unat k" "16 \<le> unat k"
proof -
  have m: "(3 :: u32) = mask 2" by (simp add: mask_eq_exp_minus_1)
  have "k = (sz + 11) AND NOT 3" by (simp add: k_def OS_MEM_ALIGN_def add.commute)
  also have "\<dots> = push_bit 2 (drop_bit 2 (sz + 11))"
  proof (unfold m, rule bit_word_eqI)
    fix n :: nat
    have "Suc (Suc (n - 2)) = n" if "2 \<le> n" using that by simp
    then show "bit ((sz + 11) AND NOT (mask 2)) n = bit (push_bit 2 (drop_bit 2 (sz + 11))) n" if "n < LENGTH(32)"
      using that by (auto simp: bit_and_iff bit_not_iff bit_mask_iff bit_push_bit_iff bit_drop_bit_eq not_less)
  qed
  finally have k: "k = push_bit 2 (drop_bit 2 (sz + 11))" .
  have "unat (sz + 11) = unat sz + 11" using assms(2) by (simp add: unat_word_ariths)
  then have d: "unat (drop_bit 2 (sz + 11)) = (unat sz + 11) div 4" by (simp add: unat_drop)
  have "unat k = 4 * ((unat sz + 11) div 4)"
  proof -
    have "unat (push_bit 2 (drop_bit 2 (sz + 11))) = unat (drop_bit 2 (sz + 11)) * 4"
      using d assms(2) by (simp only: push_bit_eq_mult) (simp add: unat_word_ariths)
    then show ?thesis using k d by simp
  qed
  then show "unat sz + 8 \<le> unat k" "unat k < unat sz + 12" "4 dvd unat k" "16 \<le> unat k" using assms(1) by simp_all
qed

section \<open>Allocation\<close>

lemma heap_st_info [simp]:
  "heap_st s e N A (h\<lparr>curUsedSize := c\<rparr>) = heap_st s e N A h"
  "heap_st s e N A (h\<lparr>waterLine := c\<rparr>) = heap_st s e N A h"
  "sizeAndFlag a (h\<lparr>curUsedSize := c\<rparr>) = sizeAndFlag a h" "sizeAndFlag a (h\<lparr>waterLine := c\<rparr>) = sizeAndFlag a h"
  "nsz a (h\<lparr>curUsedSize := c\<rparr>) = nsz a h" "nsz a (h\<lparr>waterLine := c\<rparr>) = nsz a h"
  "used_node a (h\<lparr>curUsedSize := c\<rparr>) = used_node a h" "used_node a (h\<lparr>waterLine := c\<rparr>) = used_node a h"
  by (simp_all add: heap_st_def tiled_def listed_def links_def marked_def node_prev_def sizeAndFlag_def nsz_def used_node_def)

lemma free_used:
  "free_nodes N h \<union> used_nodes N h = N" "free_nodes N h \<inter> used_nodes N h = {}" "free_nodes N h \<subseteq> N" "used_nodes N h \<subseteq> N"
  by (auto simp: free_nodes_def used_nodes_def)

text \<open>What is written into headers, into links of free nodes and into the free rest \<open>f\<close> of a node \<open>a\<close>
  is not part of the payload of another node.\<close>

lemma kept_words:
  assumes t: "tiled s e N h" and c: "changes (header_words (insert e (F \<union> N)) \<union> link_words (F \<union> A)) h h'"
    and A: "A \<subseteq> N" and F: "\<And>f. f \<in> F \<Longrightarrow> a \<in> N \<and> a + 8 \<le> f \<and> f + 16 \<le> a + nsz a h"
    and b: "b \<in> N" "b \<notin> A" "a \<noteq> b \<or> F = {}" and w: "b + 8 \<le> w" "w < b + nsz b h"
  shows "mem h' w = mem h w"
proof -
  have "w \<notin> header_words F \<union> link_words F"
  proof
    assume "w \<in> header_words F \<union> link_words F"
    then obtain f where f: "f \<in> F" "f \<le> w" "w < f + 16" by (auto simp: header_words_def link_words_def)
    then have a: "a \<in> N" "a < w" "w < a + nsz a h" "a \<noteq> b" using F [OF f(1)] b(3) by auto
    show False
      using tiledD(8) [OF t a(1), of b] tiledD(8) [OF t b(1), of a] a b(1) w by (cases a b rule: linorder_cases) auto
  qed
  moreover have "w \<notin> header_words (insert e N)" "w \<notin> link_words A" by (rule payload_safe [OF t b(1) A b(2) w])+
  ultimately have "w \<notin> header_words (insert e (F \<union> N)) \<union> link_words (F \<union> A)"
    by (auto simp: header_words_def link_words_def)
  then show ?thesis using c by (simp add: changes_def)
qed

lemma WaterUsed_fields [simp]:
  "mem (OsMemWaterUsedRecord n h) = mem h" "totalSize (OsMemWaterUsedRecord n h) = totalSize h"
  "info_pool (OsMemWaterUsedRecord n h) = info_pool h" "mem_panic (OsMemWaterUsedRecord n h) = mem_panic h"
  "curUsedSize (OsMemWaterUsedRecord n h) = curUsedSize h + n"
  "heap_st s e N A (OsMemWaterUsedRecord n h) = heap_st s e N A h"
  "nsz a (OsMemWaterUsedRecord n h) = nsz a h" "used_node a (OsMemWaterUsedRecord n h) = used_node a h"
  "sizeAndFlag a (OsMemWaterUsedRecord n h) = sizeAndFlag a h"
  by (simp_all add: OsMemWaterUsedRecord_def Let_def)

text \<open>The account is exact as long as the sizes fit into the pool.\<close>

lemma pool_bound:
  assumes "heap_inv pool N h"
  shows "pool_end pool h - OS_MEM_FIRST_NODE pool < 2 ^ 28" "OS_MEM_FIRST_NODE pool \<le> pool_end pool h"
  using tiled_frame(4) [OF heap_invD(2) [OF assms]] tiledD(1,9) [OF heap_invD(2) [OF assms] tiled_frame(5) [OF heap_invD(2) [OF assms]]]
  by simp_all

lemma same_infoD: "changes S h h' \<Longrightarrow> info_pool h' = info_pool h \<and> totalSize h' = totalSize h \<and>
    curUsedSize h' = curUsedSize h \<and> mem_panic h' = mem_panic h"
  by (simp add: changes_def same_info_def)

lemma OsMemAlloc_spec:
  assumes inv: "heap_inv pool N h" and sz: "8 \<le> unat sz" "unat sz < 2 ^ 30"
  shows "if \<exists>a\<in>free_nodes N h. unat sz + 8 \<le> nsz a h
    then \<exists>a h' N'. OsMemAlloc sz h = Some (a + 8, h') \<and> heap_inv pool N' h' \<and> a \<in> free_nodes N h \<and>
      used_nodes N' h' = insert a (used_nodes N h) \<and> unat sz + 8 \<le> nsz a h' \<and> nsz a h' \<le> nsz a h \<and>
      \<not> tst (sizeAndFlag a h') OS_MEM_NODE_ALIGNED_FLAG \<and> totalSize h' = totalSize h \<and>
      (\<forall>b\<in>used_nodes N h. sizeAndFlag b h' = sizeAndFlag b h \<and>
         (\<forall>w. b + 8 \<le> w \<and> w < b + nsz b h \<longrightarrow> mem h' w = mem h w))
    else OsMemAlloc sz h = Some (0, h)"
proof -
  let ?s = "OS_MEM_FIRST_NODE pool" and ?e = "pool_end pool h" and ?A = "free_nodes N h"
  note st = heap_invD(1) [OF inv] and t = heap_invD(2) [OF inv]
  define k where "k = OS_MEM_ALIGN (sz + of_nat OS_MEM_NODE_HEAD_SIZE) 4"
  have k: "unat sz + 8 \<le> unat k" "unat k < unat sz + 12" "4 dvd unat k" "16 \<le> unat k"
    using align4 [OF sz] by (simp_all add: k_def)
  have fits: "k \<le> sizeAndFlag a h \<longleftrightarrow> unat sz + 8 \<le> nsz a h" if "a \<in> ?A" for a
  proof -
    have "unat (sizeAndFlag a h) = nsz a h" by (rule plain_nsz [OF heap_stD(4) [OF st that]])
    moreover have "4 dvd nsz a h" using tiledD(4) [OF t] that by (auto simp: free_nodes_def)
    ultimately show ?thesis using k(1-3) by (auto simp: word_le_nat_alt elim!: dvdE)
  qed
  have sizes: "\<forall>x\<in>?A. 16 \<le> unat (sizeAndFlag x h) \<and> unat (sizeAndFlag x h) < 2 ^ 28 \<and> 4 dvd unat (sizeAndFlag x h)"
    using tiledD(3,4,12) [OF t] plain_nsz [OF heap_stD(4) [OF st]] by (auto simp: free_nodes_def)
  have "unat k \<le> 2 ^ 30 + 8"
  proof -
    obtain q where "unat k = 4 * q" using k(3) by (rule dvdE)
    then show ?thesis using k(2) sz(2) by simp
  qed
  note find = listed_find [OF heap_stD(2) [OF st] sizes k(4) this k(3)]
  show ?thesis
  proof (cases "\<exists>a\<in>?A. unat sz + 8 \<le> nsz a h")
    case False
    then have "OsMemFreeNodeGet k h = Some (0, h)" using find fits by auto
    then show ?thesis using False by (simp add: OsMemAlloc_def Let_def k_def)
  next
    case True
    then obtain a where a: "a \<in> ?A" "k \<le> sizeAndFlag a h" "OsMemFreeNodeGet k h = Some (a, OsMemFreeNodeDelete a h)"
      using find fits by auto
    define h1 where "h1 = OsMemFreeNodeDelete a h"
    note d = st_del [OF st a(1), folded h1_def]
    let ?x = "a + nsz a h"
    have aN: "a \<in> N" "\<not> used_node a h" "a \<notin> ?A - {a}" using a(1) by (auto simp: free_nodes_def)
    have pa: "plain (sizeAndFlag a h)" by (rule heap_stD(4) [OF st a(1)])
    have s1: "sizeAndFlag a h1 = sizeAndFlag a h" using d(2) [of a] aN by simp
    have n1: "nsz a h1 = nsz a h" "plain (sizeAndFlag a h1)" using s1 pa by (simp_all add: nsz_def)
    have xe: "?x \<in> insert ?e N" "used_node ?x h" "?x \<noteq> a"
      using tiledD(3,6) [OF t aN(1)] heap_invD(3) [OF inv a(1)] by simp_all
    have ux: "used_node ?x h1" using d(2) [OF xe(1)] xe(2) by (simp add: used_node_def)
    have room: "unat sz + 8 \<le> nsz a h" using fits [OF a(1)] a(2) by blast
    have cond: "k + 16 \<le> sizeAndFlag a h1 \<longleftrightarrow> unat k + 16 \<le> nsz a h"
      using \<open>unat k \<le> 2 ^ 30 + 8\<close> plain_nsz [OF pa] by (simp add: s1 word_le_nat_alt unat_word_ariths)
    define h2 where "h2 = (if k + 16 \<le> sizeAndFlag a h1 then OsMemSplitNode a k h1 else h1)"
    have "\<exists>F. (\<forall>f\<in>F. f \<notin> insert ?e N \<and> a + 16 \<le> f \<and> f + 16 \<le> ?x \<and> plain (sizeAndFlag f h2) \<and> f + nsz f h2 = ?x) \<and>
      heap_st ?s ?e (F \<union> N) (F \<union> (?A - {a})) h2 \<and> plain (sizeAndFlag a h2) \<and> unat sz + 8 \<le> nsz a h2 \<and> nsz a h2 \<le> nsz a h \<and>
      (\<forall>b\<in>insert ?e N. b \<noteq> a \<longrightarrow> sizeAndFlag b h2 = sizeAndFlag b h) \<and>
      changes (header_words (insert ?e (F \<union> N)) \<union> link_words (F \<union> ?A)) h h2"
    proof (cases "unat k + 16 \<le> nsz a h")
      case True
      have e2: "h2 = OsMemSplitNode a k h1" using True cond by (simp add: h2_def)
      let ?f = "a + unat k"
      have k1: "unat k + 16 \<le> nsz a h1" using True n1 by simp
      have nx: "used_node (a + nsz a h1) h1 \<longleftrightarrow> a + nsz a h1 \<notin> ?A - {a}"
        using ux xe(2) n1 by (auto simp: free_nodes_def)
      note sp = st_OsMemSplitNode [OF d(1) aN(1,3) n1(2) k(4,3) k1 nx, unfolded n1(1), folded e2]
      have X: "used_node ?x h1" by (rule ux)
      show ?thesis
      proof (intro exI [of _ "{?f}"] conjI ballI)
        show "heap_st ?s ?e ({?f} \<union> N) ({?f} \<union> (?A - {a})) h2" using sp(1) X by simp
        show "changes (header_words (insert ?e ({?f} \<union> N)) \<union> link_words ({?f} \<union> ?A)) h h2"
        proof (rule changes_trans)
          show "changes (header_words (insert ?e ({?f} \<union> N)) \<union> link_words ({?f} \<union> ?A)) h h1"
            by (rule changes_mono [OF d(3)]) (use link_words_subset [of ?A "{?f} \<union> ?A"] in blast)
          show "changes (header_words (insert ?e ({?f} \<union> N)) \<union> link_words ({?f} \<union> ?A)) h1 h2"
            by (rule changes_mono [OF sp(8)]) (use link_words_subset [of "insert ?f (?A - {a})" "{?f} \<union> ?A"] in auto)
        qed
        show "plain (sizeAndFlag a h2)" using sp(3) k(1,2) True tiledD(12) [OF t aN(1)] by (simp add: plain_def)
        then have "nsz a h2 = unat k" using plain_nsz [of a h2] sp(3) by simp
        then show "unat sz + 8 \<le> nsz a h2" "nsz a h2 \<le> nsz a h" using k(1) True by simp_all
        show "b \<noteq> a \<longrightarrow> sizeAndFlag b h2 = sizeAndFlag b h" if "b \<in> insert ?e N" for b
          using sp(7) [of b] d(2) [OF that] that X by simp
      qed (use sp(2,4,6) X k(4) True in auto)
    next
      case False
      have e2: "h2 = h1" using False cond by (simp add: h2_def)
      show ?thesis
        by (intro exI [of _ "{}"]) (use d n1 room in \<open>auto simp: e2 intro!: changes_mono [OF d(3)]\<close>)
    qed
    then obtain F where F: "\<And>f. f \<in> F \<Longrightarrow> f \<notin> insert ?e N \<and> a + 16 \<le> f \<and> f + 16 \<le> ?x \<and> plain (sizeAndFlag f h2) \<and> f + nsz f h2 = ?x"
      "heap_st ?s ?e (F \<union> N) (F \<union> (?A - {a})) h2" "plain (sizeAndFlag a h2)" "unat sz + 8 \<le> nsz a h2" "nsz a h2 \<le> nsz a h"
      "\<And>b. b \<in> insert ?e N \<Longrightarrow> b \<noteq> a \<Longrightarrow> sizeAndFlag b h2 = sizeAndFlag b h"
      "changes (header_words (insert ?e (F \<union> N)) \<union> link_words (F \<union> ?A)) h h2"
      by blast
    define w where "w = sizeAndFlag a h2 OR OS_MEM_NODE_USED_FLAG"
    define h3 where "h3 = set_size a w h2"
    define h' where "h' = OsMemWaterUsedRecord (OS_MEM_NODE_GET_SIZE w) h3"
    have aF: "a \<in> F \<union> N" "a \<notin> F \<union> (?A - {a})" using aN(1) F(1) [of a] by auto
    note fl = st_flag [OF F(2) aF, of w, folded h3_def]
    have fl': "heap_st ?s ?e (F \<union> N) (F \<union> (?A - {a})) h3" "sizeAndFlag a h3 = w" "nsz a h3 = nsz a h2"
      "\<And>b. b \<noteq> a \<Longrightarrow> sizeAndFlag b h3 = sizeAndFlag b h2" "changes (header_words (F \<union> N)) h2 h3"
      using fl by (simp_all add: w_def)
    have c: "changes (header_words (insert ?e (F \<union> N)) \<union> link_words (F \<union> ?A)) h h3"
      by (rule changes_trans [OF F(7) changes_mono [OF fl'(5)]]) (use header_words_mono [of "F \<union> N" "insert ?e (F \<union> N)"] in blast)
    have r: "OsMemAlloc sz h = Some (a + 8, h')"
      using tiledD(10) [OF t aN(1)]
      by (simp add: OsMemAlloc_def Let_def k_def [symmetric, simplified] a(3) h1_def [symmetric] h2_def [symmetric]
          w_def [symmetric] h3_def [symmetric] fl'(2) h'_def)
    have i: "info_pool h3 = info_pool h" "totalSize h3 = totalSize h" "curUsedSize h3 = curUsedSize h" "mem_panic h3 = mem_panic h"
      using same_infoD [OF c] by simp_all
    have sb: "sizeAndFlag b h' = sizeAndFlag b h" if "b \<in> insert ?e N" "b \<noteq> a" for b
      using F(6) [OF that] fl'(4) [OF that(2)] by (simp add: h'_def)
    have sf: "sizeAndFlag f h' = sizeAndFlag f h2" if "f \<in> F" for f
      using fl'(4) [of f] F(1) [OF that] aN(1) by (auto simp: h'_def)
    have ua: "used_node a h'" "nsz a h' = nsz a h2" by (simp_all add: h'_def used_node_def fl'(2,3) w_def)
    have fN: "free_nodes (F \<union> N) h' = F \<union> (?A - {a})" "used_nodes (F \<union> N) h' = insert a (used_nodes N h)"
    proof -
      have "\<not> used_node f h'" if "f \<in> F" for f using F(1) [OF that] sf [OF that] plain_flags by (simp add: used_node_def)
      moreover have "used_node b h' = used_node b h" if "b \<in> N" "b \<noteq> a" for b using sb [of b] that by (simp add: used_node_def)
      ultimately show "free_nodes (F \<union> N) h' = F \<union> (?A - {a})" "used_nodes (F \<union> N) h' = insert a (used_nodes N h)"
        using ua(1) aN(1) by (auto simp: free_nodes_def used_nodes_def)
    qed
    have nb: "nsz b h' = nsz b h" if "b \<in> N" "b \<noteq> a" for b using sb [of b] that by (simp add: nsz_def)
    have e': "pool_end pool h' = ?e" by (simp add: h'_def i)
    have st': "heap_st ?s ?e (F \<union> N) (F \<union> (?A - {a})) h'" using fl'(1) by (simp add: h'_def)
    have co: "used_node (b + nsz b h') h'" if b: "b \<in> F \<union> (?A - {a})" for b
    proof (cases "b \<in> F")
      case True
      have "b + nsz b h' = ?x" using F(1) [OF True] sf [OF True] by (simp add: nsz_def)
      then show ?thesis using sb [OF xe(1,3)] xe(2) by (simp add: used_node_def)
    next
      case False
      then have bN: "b \<in> N" "b \<noteq> a" "b \<in> ?A" using b by (auto simp: free_nodes_def)
      have "used_node (b + nsz b h) h" "b + nsz b h \<in> insert ?e N" using heap_invD(3) [OF inv bN(3)] tiledD(6) [OF t bN(1)] by simp_all
      moreover then have "b + nsz b h \<noteq> a" using aN(2) by metis
      ultimately show ?thesis using sb [of "b + nsz b h"] nb [OF bN(1,2)] by (simp add: used_node_def)
    qed
    have fin: "finite (used_nodes N h)" using tiled_frame(9) [OF t] by (simp add: used_nodes_def)
    have an: "a \<notin> used_nodes N h" using aN(2) by (simp add: used_nodes_def)
    have sum: "(\<Sum>b\<in>used_nodes (F \<union> N) h'. nsz b h') = nsz a h' + (\<Sum>b\<in>used_nodes N h. nsz b h)"
      using fin an nb by (simp add: fN(2)) (rule sum.cong, auto simp: used_nodes_def)
    have "(\<Sum>b\<in>used_nodes (F \<union> N) h'. nsz b h') \<le> ?e - ?s"
      by (rule sum_sizes [OF heap_stD(1) [OF st']]) (rule free_used(4))
    then have "unat (curUsedSize h) + nsz a h' < 2 ^ 32" using sum pool_bound(1) [OF inv] heap_invD(6) [OF inv] by simp
    then have "unat (curUsedSize h') = unat (curUsedSize h) + nsz a h'"
      using fl'(2,3) ua(2) by (simp add: h'_def i nsz_def unat_word_ariths w_def)
    then have "heap_inv pool (F \<union> N) h'"
      using inv st' co sum by (simp add: heap_inv_def e' fN(1)) (simp add: h'_def i)
    moreover have F': "a \<in> N \<and> a + 8 \<le> f \<and> f + 16 \<le> ?x" if "f \<in> F" for f using F(1) [OF that] aN(1) by linarith
    moreover have "mem h' u = mem h u" if b: "b \<in> used_nodes N h" "b + 8 \<le> u" "u < b + nsz b h" for b u
    proof -
      have "mem h3 u = mem h u"
        by (rule kept_words [OF t c free_used(3), where a = a and b = b, OF F']) (use b an in \<open>auto simp: used_nodes_def free_nodes_def\<close>)
      then show ?thesis by (simp add: h'_def)
    qed
    moreover have "\<not> tst (sizeAndFlag a h') OS_MEM_NODE_ALIGNED_FLAG"
      using fl'(2) plain_flags(2) [OF F(3)] by (simp only: h'_def WaterUsed_fields w_def tst_or_left) (simp only: tst_flags flag_bits; simp)
    moreover have "sizeAndFlag b h' = sizeAndFlag b h" if "b \<in> used_nodes N h" for b
      using that an by (intro sb) (auto simp: used_nodes_def)
    moreover have "totalSize h' = totalSize h" by (simp add: h'_def i)
    ultimately show ?thesis using True r a(1) fN(2) F(4,5) ua(2) by auto
  qed
qed

section \<open>Release\<close>

lemma st_absorb_next:
  assumes st: "heap_st s e N A h" and p: "p \<in> N" "p \<notin> A" "plain (sizeAndFlag p h)"
  defines "x \<equiv> p + nsz p h"
  assumes nx: "x \<in> N \<Longrightarrow> used_node x h \<longleftrightarrow> x \<notin> A"
  defines "X \<equiv> if used_node x h then {} else {x}"
    and "h' \<equiv> if used_node x h then h else OsMemMergeNode x (OsMemFreeNodeDelete x h)"
  shows "heap_st s e (N - X) (A - X) h'" "plain (sizeAndFlag p h')" "X \<subseteq> A" "e \<notin> X" "p \<notin> X"
    "nsz p h' = nsz p h + (if used_node x h then 0 else nsz x h)"
    "\<And>b. b \<in> insert e (N - X) \<Longrightarrow> b \<noteq> p \<Longrightarrow> sizeAndFlag b h' = sizeAndFlag b h"
    "changes (header_words (insert e N) \<union> link_words A) h h'"
proof -
  note t = heap_stD(1) [OF st]
  have xe: "x \<in> insert e N" using tiledD(6) [OF t p(1)] by (simp add: x_def)
  have "heap_st s e (N - X) (A - X) h' \<and> plain (sizeAndFlag p h') \<and> X \<subseteq> A \<and> e \<notin> X \<and> p \<notin> X \<and>
    nsz p h' = nsz p h + (if used_node x h then 0 else nsz x h) \<and>
    (\<forall>b\<in>insert e (N - X). b \<noteq> p \<longrightarrow> sizeAndFlag b h' = sizeAndFlag b h) \<and>
    changes (header_words (insert e N) \<union> link_words A) h h'"
  proof (cases "used_node x h")
    case True
    then show ?thesis using st p(3) by (simp add: h'_def X_def changes_refl)
  next
    case False
    have xN: "x \<in> N" using xe False tiled_frame(7) [OF t] by (auto simp: used_node_def)
    have xA: "x \<in> A" using nx [OF xN] False by simp
    have px: "p \<noteq> x" using tiledD(3) [OF t p(1)] by (simp add: x_def)
    define h1 where "h1 = OsMemFreeNodeDelete x h"
    have e: "h' = OsMemMergeNode x h1" and X: "X = {x}" using False by (simp_all add: h'_def h1_def X_def)
    note de = st_del [OF st xA, folded h1_def]
    have s1: "sizeAndFlag b h1 = sizeAndFlag b h" if "b \<in> insert e N" for b by (rule de(2) [OF that])
    have f1: "nsz p h1 = nsz p h" "plain (sizeAndFlag p h1)" "plain (sizeAndFlag x h1)" "nsz x h1 = nsz x h"
      using s1 [of p] s1 [of x] p xN heap_stD(4) [OF st xA] by (simp_all add: nsz_def)
    have xp: "x = p + nsz p h1" "p \<notin> A - {x}" "x \<notin> A - {x}" using f1(1) p(2) by (simp_all add: x_def)
    note me = st_merge [OF de(1) p(1) xp(2,1) xN xp(3) f1(2,3), folded e]
    have "changes (header_words (insert e N) \<union> link_words A) h h'"
      by (rule changes_trans [OF changes_mono [OF de(3)] changes_mono [OF me(5)]]) blast+
    moreover have "\<forall>b\<in>insert e (N - X). b \<noteq> p \<longrightarrow> sizeAndFlag b h' = sizeAndFlag b h"
      using me(4) s1 by auto
    moreover have "e \<noteq> x" using xN tiled_frame(8) [OF t] by blast
    ultimately show ?thesis using me(1-3) f1 xA px False by (simp add: X)
  qed
  then show "heap_st s e (N - X) (A - X) h'" "plain (sizeAndFlag p h')" "X \<subseteq> A" "e \<notin> X" "p \<notin> X"
    "nsz p h' = nsz p h + (if used_node x h then 0 else nsz x h)"
    "\<And>b. b \<in> insert e (N - X) \<Longrightarrow> b \<noteq> p \<Longrightarrow> sizeAndFlag b h' = sizeAndFlag b h"
    "changes (header_words (insert e N) \<union> link_words A) h h'"
    by blast+
qed

text \<open>Every node but the first one has a predecessor, to which it points back.\<close>

lemma predecessor:
  assumes t: "tiled s e N h" and b: "b \<in> N" "b \<noteq> s"
  shows "node_prev b h \<in> N" "node_prev b h + nsz (node_prev b h) h = b"
proof -
  let ?S = "{c\<in>N. c < b}"
  define c where "c = Max ?S"
  have "s \<in> ?S" using tiled_frame(5) [OF t] tiledD(1) [OF t b(1)] b(2) by simp
  moreover have fin: "finite ?S" using tiled_frame(9) [OF t] by simp
  ultimately have "c \<in> ?S" using Max_in [of ?S] unfolding c_def by blast
  then have c: "c \<in> N" "c < b" by simp_all
  have mx: "d \<le> c" if "d \<in> N" "d < b" for d using Max_ge [OF fin] that by (simp add: c_def)
  note tc = tiledD [OF t c(1)]
  have "c + nsz c h \<le> b" using tc(8) [OF b(1) c(2)] .
  moreover have "\<not> c + nsz c h < b"
  proof
    assume lt: "c + nsz c h < b"
    then have "c + nsz c h \<in> N" using tc(6) tiledD(9) [OF t b(1)] by auto
    then show False using mx [OF _ lt] tc(3) by simp
  qed
  ultimately have "c + nsz c h = b" by simp
  then show "node_prev b h \<in> N" "node_prev b h + nsz (node_prev b h) h = b" using tc(7) c(1) by simp_all
qed

lemma OS_MEM_NEXT_NODE_nsz: "OS_MEM_NEXT_NODE a h = a + nsz a h"
  by (simp add: OS_MEM_NEXT_NODE_def nsz_def)

lemma node_valid:
  assumes "heap_inv pool N h" "b \<in> insert (pool_end pool h) N"
  shows "OsMemIsNodeValid b (OS_MEM_FIRST_NODE pool) (pool_end pool h) pool h"
proof -
  let ?s = "OS_MEM_FIRST_NODE pool" and ?e = "pool_end pool h"
  note t = heap_invD(2) [OF assms(1)]
  have ends: "?s = pool + 940" "?e < pool + unat (totalSize h)" "?s < ?e"
    using tiledD(1,9) [OF t tiled_frame(5) [OF t]] by (auto simp: OS_MEM_FIRST_NODE_def OS_MEM_END_NODE_def)
  have "tst (sizeAndFlag b h) OS_MEM_NODE_USED_FLAG \<or> OsMemAddrValidCheck pool (node_prev b h) h"
  proof (cases "b = ?e")
    case True
    then show ?thesis using tiled_frame(7) [OF t] by simp
  next
    case False
    then have b: "b \<in> N" using assms(2) by simp
    have "?s \<le> node_prev b h \<and> node_prev b h \<le> ?e"
    proof (cases "b = ?s")
      case True
      then show ?thesis using tiled_frame(6) [OF t] ends by simp
    next
      case False
      then show ?thesis using tiledD(1,9) [OF t predecessor(1) [OF t b False]] by simp
    qed
    then show ?thesis using ends by (simp add: OsMemAddrValidCheck_def)
  qed
  moreover have "?s \<le> b" "b \<le> ?e" using assms(2) ends tiledD(1,9) [OF t] by (auto intro: less_imp_le)
  ultimately show ?thesis by (simp add: OsMemIsNodeValid_def)
qed

text \<open>A header passes the check when its node is allocated, and only then.\<close>

lemma OsMemCheckUsedNode_spec:
  assumes inv: "heap_inv pool N h" and a: "a \<in> insert (pool_end pool h) N"
  shows "OsMemCheckUsedNode pool a h = (if a \<in> used_nodes N h then LOS_OK else LOS_NOK)"
proof -
  let ?s = "OS_MEM_FIRST_NODE pool" and ?e = "pool_end pool h"
  note t = heap_invD(2) [OF inv]
  consider "a = ?e" | "a \<in> N" "\<not> used_node a h" | "a \<in> N" "used_node a h" using a by blast
  then show ?thesis
  proof cases
    case 1
    obtain l where l: "l \<in> N" "l + nsz l h = ?e"
    proof -
      let ?l = "Max N"
      have "?l \<in> N" using tiled_frame(5,9) [OF t] by (intro Max_in) auto
      moreover have "?l + nsz ?l h \<notin> N"
        using Max_ge [OF tiled_frame(9) [OF t], of "?l + nsz ?l h"] tiledD(3) [OF t calculation] by auto
      ultimately show thesis using that tiledD(6) [OF t] by blast
    qed
    have "node_prev ?e h = l" using tiledD(7) [OF t l(1)] l(2) by simp
    moreover have "nsz ?e h = 0" using tiled_frame(7) [OF t] size_of_flags(1) [of 0]
      by (simp add: nsz_def) (simp add: OS_MEM_NODE_GET_SIZE_def)
    ultimately have "node_prev (OS_MEM_NEXT_NODE ?e h) h \<noteq> ?e"
      using tiledD(9) [OF t l(1)] by (simp add: OS_MEM_NEXT_NODE_nsz)
    moreover have "a \<notin> used_nodes N h" using 1 tiled_frame(8) [OF t] by (simp add: used_nodes_def)
    ultimately show ?thesis using 1 by (simp add: OsMemCheckUsedNode_def Let_def)
  next
    case 2
    then show ?thesis by (simp add: OsMemCheckUsedNode_def Let_def used_nodes_def used_node_def)
  next
    case 3
    have "OsMemIsNodeValid a ?s ?e pool h" "OsMemIsNodeValid (a + nsz a h) ?s ?e pool h"
      using node_valid [OF inv] 3(1) tiledD(6) [OF t 3(1)] by blast+
    moreover have "OsMemIsNodeValid (node_prev a h) ?s ?e pool h \<and> OS_MEM_NEXT_NODE (node_prev a h) h = a" if "a \<noteq> ?s"
      using node_valid [OF inv] predecessor [OF t 3(1) that] by (simp add: OS_MEM_NEXT_NODE_nsz)
    ultimately show ?thesis
      using 3 tiledD(7) [OF t 3(1)] by (simp add: OsMemCheckUsedNode_def Let_def used_nodes_def used_node_def OS_MEM_NEXT_NODE_nsz)
  qed
qed

text \<open>The first half of a release: the node is no longer in use, and joins the free node before it.\<close>

lemma free_joins_previous:
  assumes inv: "heap_inv pool N h" and a: "a \<in> used_nodes N h"
  defines "s \<equiv> OS_MEM_FIRST_NODE pool" and "e \<equiv> pool_end pool h" and "A \<equiv> free_nodes N h"
  defines "h1 \<equiv> set_size a (OS_MEM_NODE_GET_SIZE (sizeAndFlag a h)) h"
  defines "pre \<equiv> node_prev a h"
  defines "p \<equiv> if used_node pre h1 then a else pre"
    and "h2 \<equiv> if used_node pre h1 then h1 else OsMemMergeNode a (OsMemFreeNodeDelete pre h1)"
  shows "heap_st s e (N - ({a} - {p})) (A - {p}) h2" "p \<in> N" "plain (sizeAndFlag p h2)" "p + nsz p h2 = a + nsz a h"
    "\<And>b. b \<in> insert e (N - {a}) \<Longrightarrow> b \<noteq> p \<Longrightarrow> sizeAndFlag b h2 = sizeAndFlag b h"
    "changes (header_words (insert e N) \<union> link_words A) h h2" "p = a \<or> p \<in> A" "p \<noteq> a \<Longrightarrow> p + nsz p h = a"
    "p = a \<Longrightarrow> pre \<notin> A"
proof -
  note st = heap_invD(1) [OF inv, folded s_def e_def A_def] and t = heap_invD(2) [OF inv, folded s_def e_def]
  have aN: "a \<in> N" "a \<notin> A" using a by (auto simp: used_nodes_def A_def free_nodes_def)
  note fl = st_flag [OF st aN size_of_flags(3), folded h1_def]
  have ea: "e \<noteq> a" using aN(1) tiled_frame(8) [OF t] by blast
  have pl: "plain (sizeAndFlag a h1)" using fl(2) plain_size by simp
  have c1: "changes (header_words (insert e N) \<union> link_words A) h h1"
    by (rule changes_mono [OF fl(5)]) (use header_words_mono [of N "insert e N"] in blast)
  have "heap_st s e (N - ({a} - {p})) (A - {p}) h2 \<and> p \<in> N \<and> plain (sizeAndFlag p h2) \<and> p + nsz p h2 = a + nsz a h \<and>
    (\<forall>b\<in>insert e (N - {a}). b \<noteq> p \<longrightarrow> sizeAndFlag b h2 = sizeAndFlag b h) \<and>
    changes (header_words (insert e N) \<union> link_words A) h h2 \<and> (p = a \<or> p \<in> A) \<and> (p \<noteq> a \<longrightarrow> p + nsz p h = a) \<and>
    (p = a \<longrightarrow> pre \<notin> A)"
  proof (cases "used_node pre h1")
    case True
    have "pre \<notin> A"
    proof
      assume "pre \<in> A"
      then have "pre \<noteq> a" "\<not> used_node pre h" using aN(2) by (auto simp: A_def free_nodes_def)
      then show False using True fl(4) [of pre] by (simp add: used_node_def)
    qed
    moreover have "p = a" "h2 = h1" using True by (simp_all add: p_def h2_def)
    ultimately show ?thesis using fl aN pl c1 by auto
  next
    case False
    have p: "p = pre" "h2 = OsMemMergeNode a (OsMemFreeNodeDelete pre h1)" using False by (simp_all add: p_def h2_def)
    have "a \<noteq> s"
    proof
      assume "a = s"
      then have "pre = e" using tiled_frame(6) [OF t] by (simp add: pre_def)
      then show False using False fl(4) [of e] ea tiled_frame(7) [OF t] by (simp add: used_node_def)
    qed
    note pd = predecessor [OF t aN(1) this, folded pre_def]
    have pa: "pre \<noteq> a" using pd(2) tiledD(3) [OF t pd(1)] by auto
    have "\<not> used_node pre h" using False fl(4) [OF pa] by (simp add: used_node_def)
    then have pA: "pre \<in> A" using pd(1) by (simp add: A_def free_nodes_def)
    define h' where "h' = OsMemFreeNodeDelete pre h1"
    note de = st_del [OF fl(1) pA, folded h'_def]
    have s': "sizeAndFlag b h' = sizeAndFlag b h1" if "b \<in> insert e N" for b by (rule de(2) [OF that])
    have pp: "plain (sizeAndFlag pre h')" "nsz pre h' = nsz pre h" "plain (sizeAndFlag a h')" "nsz a h' = nsz a h"
      using s' [of pre] s' [of a] pd(1) aN(1) fl(3) fl(4) [OF pa] heap_stD(4) [OF st pA] pl by (simp_all add: nsz_def)
    have x: "a = pre + nsz pre h'" "pre \<notin> A - {pre}" "a \<notin> A - {pre}" using pd(2) pp(2) aN(2) by simp_all
    note me = st_merge [OF de(1) pd(1) x(2,1) aN(1) x(3) pp(1,3), folded h'_def, folded p(2) [folded h'_def]]
    have "changes (header_words (insert e N) \<union> link_words A) h h2"
    proof (rule changes_trans [OF c1])
      show "changes (header_words (insert e N) \<union> link_words A) h1 h2"
        by (rule changes_trans [OF changes_mono [OF de(3)] changes_mono [OF me(5)]]) blast+
    qed
    moreover have "\<forall>b\<in>insert e (N - {a}). b \<noteq> p \<longrightarrow> sizeAndFlag b h2 = sizeAndFlag b h"
      using me(4) s' fl(4) ea by (auto simp: p(1))
    moreover have "N - ({a} - {p}) = N - {a}" using pa p(1) by blast
    ultimately show ?thesis using me(1-3) pp pd pA pa by (simp add: p(1))
  qed
  then show "heap_st s e (N - ({a} - {p})) (A - {p}) h2" "p \<in> N" "plain (sizeAndFlag p h2)" "p + nsz p h2 = a + nsz a h"
    "\<And>b. b \<in> insert e (N - {a}) \<Longrightarrow> b \<noteq> p \<Longrightarrow> sizeAndFlag b h2 = sizeAndFlag b h"
    "changes (header_words (insert e N) \<union> link_words A) h h2" "p = a \<or> p \<in> A" "p \<noteq> a \<Longrightarrow> p + nsz p h = a"
    "p = a \<Longrightarrow> pre \<notin> A"
    by blast+
qed

text \<open>The size in use is set independently of everything else.\<close>

lemma put_word_used: "put_word x w (h\<lparr>curUsedSize := c\<rparr>) = (put_word x w h)\<lparr>curUsedSize := c\<rparr>"
  by (simp add: put_word_def)

lemma node_fields_used [simp]:
  "node_prev a (h\<lparr>curUsedSize := c\<rparr>) = node_prev a h" "free_next a (h\<lparr>curUsedSize := c\<rparr>) = free_next a h"
  "free_prev a (h\<lparr>curUsedSize := c\<rparr>) = free_prev a h" "OS_MEM_NEXT_NODE a (h\<lparr>curUsedSize := c\<rparr>) = OS_MEM_NEXT_NODE a h"
  by (simp_all add: node_prev_def free_next_def free_prev_def OS_MEM_NEXT_NODE_def)

lemma list_ops_used:
  "OsMemFreeNodeDelete a (h\<lparr>curUsedSize := c\<rparr>) = (OsMemFreeNodeDelete a h)\<lparr>curUsedSize := c\<rparr>"
  "OsMemFreeNodeAdd a (h\<lparr>curUsedSize := c\<rparr>) = (OsMemFreeNodeAdd a h)\<lparr>curUsedSize := c\<rparr>"
  "OsMemMergeNode a (h\<lparr>curUsedSize := c\<rparr>) = (OsMemMergeNode a h)\<lparr>curUsedSize := c\<rparr>"
  by (simp_all add: OsMemFreeNodeDelete_def OsMemListDelete_def OsMemFreeNodeAdd_def OsMemListAdd_def OsMemMergeNode_def
      set_freeList_def OsMemSetFreeListBit_def OsMemClearFreeListBit_def put_word_used Let_def)
    (simp_all add: put_word_def)

lemma OsMemFree_spec:
  assumes inv: "heap_inv pool N h" and a: "a \<in> used_nodes N h"
  shows "\<exists>h' N'. OsMemFree pool a h = (LOS_OK, h') \<and> heap_inv pool N' h' \<and>
    used_nodes N' h' = used_nodes N h - {a} \<and> totalSize h' = totalSize h \<and>
    (\<forall>b\<in>used_nodes N h - {a}. sizeAndFlag b h' = sizeAndFlag b h \<and>
       (\<forall>w. b + 8 \<le> w \<and> w < b + nsz b h \<longrightarrow> mem h' w = mem h w)) \<and>
    (\<exists>p\<in>free_nodes N' h'. nsz a h \<le> nsz p h')"
proof -
  let ?s = "OS_MEM_FIRST_NODE pool" and ?e = "pool_end pool h" and ?A = "free_nodes N h"
  note st = heap_invD(1) [OF inv] and t = heap_invD(2) [OF inv]
  define h1 where "h1 = set_size a (OS_MEM_NODE_GET_SIZE (sizeAndFlag a h)) h"
  define pre where "pre = node_prev a h"
  define p where "p = (if used_node pre h1 then a else pre)"
  define h2 where "h2 = (if used_node pre h1 then h1 else OsMemMergeNode a (OsMemFreeNodeDelete pre h1))"
  note j = free_joins_previous [OF inv a, folded h1_def pre_def, folded p_def h2_def]
  let ?x = "p + nsz p h2" and ?N = "N - ({a} - {p})"
  define h3 where "h3 = (if used_node ?x h2 then h2 else OsMemMergeNode ?x (OsMemFreeNodeDelete ?x h2))"
  define h4 where "h4 = OsMemFreeNodeAdd p h3"
  let ?c = "curUsedSize h - OS_MEM_NODE_GET_SIZE (sizeAndFlag a h)"
  let ?h = "h4\<lparr>curUsedSize := ?c\<rparr>"
  have aN: "a \<in> N" "used_node a h" "a \<notin> ?A" using a by (auto simp: used_nodes_def free_nodes_def)
  have x: "?x = a + nsz a h" by (rule j(4))
  have xe: "?x \<in> insert ?e N" "?x \<noteq> a" "?x \<noteq> p"
    using tiledD(3,6) [OF t aN(1)] tiledD(3) [OF heap_stD(1) [OF j(1)], of p] j(2) x by auto
  have pN: "p \<in> ?N" "p \<notin> ?A - {p}" using j(2) by auto
  have pz: "p \<noteq> 0" "pre \<noteq> 0"
  proof -
    show "p \<noteq> 0" using tiledD(10) [OF t j(2)] by simp
    show "pre \<noteq> 0"
      using tiledD(10) [OF t predecessor(1) [OF t aN(1)]] tiled_frame(6) [OF t] tiledD(9) [OF t aN(1)]
      by (cases "a = ?s") (auto simp: pre_def)
  qed
  have ux: "used_node ?x h2 = used_node ?x h" using j(5) [of ?x] xe by (simp add: used_node_def)
  have nx: "used_node ?x h2 \<longleftrightarrow> ?x \<notin> ?A - {p}" if "?x \<in> ?N" using ux that xe(3) by (auto simp: free_nodes_def)
  note ab = st_absorb_next [OF j(1) pN j(3) nx, folded h3_def]
  define X where "X = (if used_node ?x h2 then {} else {?x})"
  note ab = ab [folded X_def]
  have pX: "p \<in> ?N - X" "p \<notin> ?A - {p} - X" using pN ab(5) by auto
  note ad = st_add [OF ab(1) pX ab(2), folded h4_def]
  have r: "OsMemFree pool a h = (LOS_OK, ?h)"
  proof -
    have ok: "OsMemCheckUsedNode pool a h = LOS_OK" using OsMemCheckUsedNode_spec [OF inv, of a] aN(1) a by simp
    have np: "node_prev a (set_size a w h') = node_prev a h'" for w h' by (simp add: put_fields)
    have e1: "set_size a (OS_MEM_NODE_GET_SIZE (sizeAndFlag a h)) (h\<lparr>curUsedSize := ?c\<rparr>) = h1\<lparr>curUsedSize := ?c\<rparr>"
      by (simp add: h1_def put_word_used)
    have pr: "node_prev a h1 = pre" by (simp add: h1_def np pre_def)
    have e2: "(if pre \<noteq> 0 \<and> \<not> tst (sizeAndFlag pre h1) OS_MEM_NODE_USED_FLAG
        then (pre, OsMemMergeNode a (OsMemFreeNodeDelete pre (h1\<lparr>curUsedSize := ?c\<rparr>))) else (a, h1\<lparr>curUsedSize := ?c\<rparr>)) =
        (p, h2\<lparr>curUsedSize := ?c\<rparr>)"
      using pz(2) by (simp add: p_def h2_def used_node_def list_ops_used)
    show ?thesis
      using pz(1)
      by (simp only: OsMemFree_def ok Let_def e1 node_fields_used heap_st_info pr e2 prod.case simp_thms if_False)
        (simp add: OS_MEM_NEXT_NODE_nsz list_ops_used used_node_def [symmetric] h3_def h4_def)
  qed
  let ?M = "?N - X" and ?B = "insert p (?A - {p} - X)"
  have pa: "p \<le> a" using j(8) by (cases "p = a") auto
  have Xx: "b \<in> X \<Longrightarrow> b = ?x \<and> \<not> used_node ?x h" for b using ux by (auto simp: X_def split: if_splits)
  have same: "sizeAndFlag b ?h = sizeAndFlag b h" if b: "b \<in> insert ?e N" "b \<noteq> a" "b \<noteq> p" "b \<notin> X" for b
  proof -
    have "b \<in> insert ?e ?M" "b \<in> insert ?e (N - {a})" using b by auto
    then show ?thesis using ad(2) [of b] ab(7) [of b] j(5) [of b] b(3) by simp
  qed
  have sameF: "nsz b ?h = nsz b h" "used_node b ?h = used_node b h" if "b \<in> insert ?e N" "b \<noteq> a" "b \<noteq> p" "b \<notin> X" for b
    using same [OF that] by (simp_all add: nsz_def used_node_def)
  have sp: "sizeAndFlag p ?h = sizeAndFlag p h3" using ad(2) [of p] pX(1) by simp
  have np: "nsz p ?h = nsz p h2 + (if used_node ?x h2 then 0 else nsz ?x h2)" "\<not> used_node p ?h"
    using sp ab(2,6) plain_flags(1) [OF ab(2)] by (simp_all add: nsz_def used_node_def)
  have fu: "free_nodes ?M ?h = ?B" "used_nodes ?M ?h = used_nodes N h - {a}"
  proof -
    have "b \<in> N \<and> b \<noteq> a \<and> b \<noteq> p \<and> b \<notin> X \<longleftrightarrow> b \<in> ?M \<and> b \<noteq> p" for b using j(2) by blast
    note M = this
    show "free_nodes ?M ?h = ?B"
    proof (intro set_eqI iffI)
      fix b assume "b \<in> free_nodes ?M ?h"
      then show "b \<in> ?B" using M [of b] sameF(2) [of b] by (cases "b = p") (auto simp: free_nodes_def)
    next
      fix b assume b: "b \<in> ?B"
      show "b \<in> free_nodes ?M ?h"
      proof (cases "b = p")
        case True
        then show ?thesis using np(2) pX(1) by (simp add: free_nodes_def)
      next
        case False
        then show ?thesis using b M [of b] sameF(2) [of b] aN(2) by (auto simp: free_nodes_def)
      qed
    qed
    have pu: "p \<in> used_nodes N h \<Longrightarrow> p = a" using j(7) by (auto simp: used_nodes_def free_nodes_def)
    have Xu: "b \<in> used_nodes N h \<Longrightarrow> b \<notin> X" for b using Xx [of b] by (auto simp: used_nodes_def)
    show "used_nodes ?M ?h = used_nodes N h - {a}"
    proof (intro set_eqI iffI)
      fix b assume b: "b \<in> used_nodes ?M ?h"
      then have "b \<noteq> p" using np(2) by (auto simp: used_nodes_def)
      then show "b \<in> used_nodes N h - {a}" using b M [of b] sameF(2) [of b] by (auto simp: used_nodes_def)
    next
      fix b assume b: "b \<in> used_nodes N h - {a}"
      then have "b \<in> N" "b \<noteq> a" "b \<noteq> p" "b \<notin> X" using pu Xu by (auto simp: used_nodes_def)
      then show "b \<in> used_nodes ?M ?h" using b M [of b] sameF(2) [of b] by (auto simp: used_nodes_def)
    qed
  qed
  have co: "used_node (b + nsz b ?h) ?h" if b: "b \<in> ?B" for b
  proof (cases "b = p")
    case True
    show ?thesis
    proof (cases "used_node ?x h2")
      case u: True
      then show ?thesis using True np(1) sameF(2) [OF xe(1)] xe ux by (simp add: X_def)
    next
      case u: False
      have xA: "?x \<in> ?A" using xe(1) u ux tiled_frame(7) [OF t] by (auto simp: free_nodes_def used_node_def)
      then have xN: "?x \<in> N" by (simp add: free_nodes_def)
      have nz: "nsz ?x h2 = nsz ?x h" using j(5) [of ?x] xe by (simp add: nsz_def)
      let ?y = "?x + nsz ?x h"
      have y: "?y \<in> insert ?e N" "used_node ?y h" using tiledD(6) [OF t xN] heap_invD(3) [OF inv xA] by simp_all
      have "?x < ?y" using tiledD(3) [OF t xN] by simp
      then have "?y \<noteq> a" "?y \<noteq> p" "?y \<notin> X" using x pa by (auto simp: X_def)
      then have "used_node ?y ?h" using sameF(2) [OF y(1)] y(2) by simp
      then show ?thesis using True np(1) u nz by (simp add: add.assoc)
    qed
  next
    case False
    then have bA: "b \<in> ?A" "b \<notin> X" "b \<in> N" "b \<noteq> a" using b aN(2) by (auto simp: free_nodes_def)
    let ?z = "b + nsz b h"
    have z: "?z \<in> insert ?e N" "used_node ?z h" "node_prev ?z h = b"
      using tiledD(6,7) [OF t bA(3)] heap_invD(3) [OF inv bA(1)] by simp_all
    have "?z \<noteq> a"
    proof
      assume "?z = a"
      then have "pre = b" using z(3) by (simp add: pre_def)
      then show False using j(9) bA(1) False by (auto simp: p_def split: if_splits)
    qed
    moreover have "?z \<noteq> p" using j(7) calculation z(2) by (auto simp: free_nodes_def)
    moreover have "?z \<notin> X" using Xx [of ?z] z(2) by auto
    ultimately have "used_node ?z ?h" using sameF(2) [OF z(1)] z(2) by simp
    moreover have "nsz b ?h = nsz b h" using sameF(1) [of b] bA False by simp
    ultimately show ?thesis by simp
  qed
  have c: "changes (header_words (insert ?e N) \<union> link_words (insert p ?A)) h h4"
  proof -
    have "changes (header_words (insert ?e N) \<union> link_words (insert p ?A)) h h2"
      by (rule changes_mono [OF j(6)]) (use link_words_subset [of ?A "insert p ?A"] in blast)
    moreover have "changes (header_words (insert ?e N) \<union> link_words (insert p ?A)) h2 h3"
    proof (rule changes_mono [OF ab(8)])
      have "header_words (insert ?e ?N) \<subseteq> header_words (insert ?e N)" by (rule header_words_mono) (use j(2) in blast)
      moreover have "link_words (?A - {p}) \<subseteq> link_words (insert p ?A)" by (rule link_words_subset) blast
      ultimately show "header_words (insert ?e ?N) \<union> link_words (?A - {p})
          \<subseteq> header_words (insert ?e N) \<union> link_words (insert p ?A)" by blast
    qed
    moreover have "changes (header_words (insert ?e N) \<union> link_words (insert p ?A)) h3 h4"
    proof (rule changes_mono [OF ad(3)])
      have "link_words ?B \<subseteq> link_words (insert p ?A)" by (rule link_words_subset) blast
      then show "link_words ?B \<subseteq> header_words (insert ?e N) \<union> link_words (insert p ?A)" by blast
    qed
    ultimately show ?thesis using changes_trans by blast
  qed
  have info: "info_pool ?h = info_pool h" "totalSize ?h = totalSize h" "mem_panic ?h = mem_panic h"
    using same_infoD [OF c] by simp_all
  have fin: "finite (used_nodes N h)" using tiled_frame(9) [OF t] by (simp add: used_nodes_def)
  have sum: "(\<Sum>b\<in>used_nodes N h. nsz b h) = nsz a h + (\<Sum>b\<in>used_nodes ?M ?h. nsz b ?h)"
  proof -
    have "(\<Sum>b\<in>used_nodes ?M ?h. nsz b ?h) = (\<Sum>b\<in>used_nodes N h - {a}. nsz b h)"
    proof (rule sum.cong [OF fu(2)])
      fix b assume b: "b \<in> used_nodes N h - {a}"
      then have "b \<notin> X" "b \<noteq> p" using Xx [of b] j(7) by (auto simp: used_nodes_def free_nodes_def)
      then show "nsz b ?h = nsz b h" using sameF(1) [of b] b by (simp add: used_nodes_def)
    qed
    then show ?thesis using sum.remove [OF fin a, of "\<lambda>b. nsz b h"] by simp
  qed
  have "unat (curUsedSize ?h) + nsz a h = unat (curUsedSize h)"
  proof -
    have "OS_MEM_NODE_GET_SIZE (sizeAndFlag a h) \<le> curUsedSize h"
      using heap_invD(6) [OF inv] sum by (simp add: word_le_nat_alt nsz_def)
    then show ?thesis by (simp add: unat_sub nsz_def word_le_nat_alt)
  qed
  moreover have "pool_end pool ?h = ?e" by (simp only: info)
  ultimately have "heap_inv pool ?M ?h"
    using inv ad(1) co sum by (simp only: heap_inv_def fu(1) info heap_st_info) simp
  moreover have "sizeAndFlag b ?h = sizeAndFlag b h \<and> (\<forall>w. b + 8 \<le> w \<and> w < b + nsz b h \<longrightarrow> mem ?h w = mem h w)"
    if b: "b \<in> used_nodes N h - {a}" for b
  proof -
    have bp: "b \<in> N" "b \<noteq> a" "b \<noteq> p" "b \<notin> X" "b \<notin> insert p ?A"
      using b Xx [of b] j(7) by (auto simp: used_nodes_def free_nodes_def)
    have "insert p ?A \<subseteq> N" using j(2) by (auto simp: free_nodes_def)
    from kept_words [OF t, where F = "{}", simplified, OF c this bp(1,5)] show ?thesis using same [of b] bp by simp
  qed
  moreover have "p \<in> free_nodes ?M ?h" "nsz a h \<le> nsz p ?h" using fu(1) np(1) j(4) pa by simp_all
  moreover have "used_nodes ?M ?h = used_nodes N h - {a}" by (rule fu(2))
  ultimately show ?thesis using r info(2) by blast
qed

end
