(* ===== verification/Heap_Spec.thy ===== *)
theory Heap_Spec
  imports Mem_Spec
begin

text \<open>
  What the heap's operations do, seen from outside: a pool is the set of its allocated blocks.
\<close>

section \<open>Blocks\<close>

definition mem_blocks :: "nat set \<Rightarrow> OsMemPoolHead \<Rightarrow> (nat \<times> nat) set" where
  "mem_blocks N h = (\<lambda>a. (a + OS_MEM_NODE_HEAD_SIZE, nsz a h - OS_MEM_NODE_HEAD_SIZE)) ` used_nodes N h"

text \<open>The contents of blocks are kept, and the word before each of them; a block lies apart from
  others, with room for a header between them.\<close>

definition kept :: "(nat \<times> nat) set \<Rightarrow> OsMemPoolHead \<Rightarrow> OsMemPoolHead \<Rightarrow> bool" where
  "kept B h h' \<longleftrightarrow> (\<forall>(p, n)\<in>B. mem h' (p - 4) = mem h (p - 4) \<and> (\<forall>w. p \<le> w \<and> w < p + n \<longrightarrow> mem h' w = mem h w))"

definition separate :: "nat \<times> nat \<Rightarrow> (nat \<times> nat) set \<Rightarrow> bool" where
  "separate b B \<longleftrightarrow> (\<forall>(q, m)\<in>B. fst b + snd b + OS_MEM_NODE_HEAD_SIZE \<le> q \<or> q + m + OS_MEM_NODE_HEAD_SIZE \<le> fst b)"

text \<open>The block of \<^verbatim>\<open>LOS_MemAllocAlign\<close> whose pointer was moved is marked in its node.\<close>

definition aligned_block :: "nat \<Rightarrow> OsMemPoolHead \<Rightarrow> bool" where
  "aligned_block p h \<longleftrightarrow> tst (mem h (p - 4)) OS_MEM_NODE_ALIGNED_FLAG"

lemma blocks_node:
  assumes "heap_inv pool N h" "(p, n) \<in> mem_blocks N h"
  obtains a where "a \<in> used_nodes N h" "p = a + 8" "nsz a h = n + 8" "mem h (p - 4) = sizeAndFlag a h"
proof -
  obtain a where a: "a \<in> used_nodes N h" "p = a + 8" "n = nsz a h - 8" using assms(2) by (auto simp: mem_blocks_def)
  have "16 \<le> nsz a h" using tiledD(3) [OF heap_invD(2) [OF assms(1)]] a(1) by (simp add: used_nodes_def)
  then show thesis using that [OF a(1,2)] a(2,3) by (simp add: sizeAndFlag_def add.commute)
qed

lemma block_of_node: "a \<in> used_nodes N h \<Longrightarrow> (a + 8, nsz a h - 8) \<in> mem_blocks N h"
  by (auto simp: mem_blocks_def)

lemma blocks_kept:
  assumes "\<forall>b\<in>U. sizeAndFlag b h' = sizeAndFlag b h \<and> (\<forall>w. b + 8 \<le> w \<and> w < b + nsz b h \<longrightarrow> mem h' w = mem h w)"
  defines "B \<equiv> (\<lambda>a. (a + OS_MEM_NODE_HEAD_SIZE, nsz a h - OS_MEM_NODE_HEAD_SIZE)) ` U"
  shows "(\<lambda>a. (a + OS_MEM_NODE_HEAD_SIZE, nsz a h' - OS_MEM_NODE_HEAD_SIZE)) ` U = B" "kept B h h'"
proof -
  have "nsz b h' = nsz b h" if "b \<in> U" for b using assms(1) that by (simp add: nsz_def)
  then show "(\<lambda>a. (a + OS_MEM_NODE_HEAD_SIZE, nsz a h' - OS_MEM_NODE_HEAD_SIZE)) ` U = B"
    unfolding B_def by (intro image_cong) simp_all
  show "kept B h h'" using assms(1) by (auto simp: B_def kept_def sizeAndFlag_def add.commute)
qed

lemma block_separate:
  assumes "heap_inv pool N h" "a \<in> used_nodes N h" "U \<subseteq> used_nodes N h - {a}" "\<And>b. b \<in> U \<Longrightarrow> nsz b h0 = nsz b h"
  shows "separate (a + 8, nsz a h - 8) ((\<lambda>a. (a + OS_MEM_NODE_HEAD_SIZE, nsz a h0 - OS_MEM_NODE_HEAD_SIZE)) ` U)"
proof -
  note t = heap_invD(2) [OF assms(1)]
  have a: "a \<in> N" using assms(2) by (simp add: used_nodes_def)
  have "a + nsz a h \<le> b \<or> b + nsz b h \<le> a" if "b \<in> U" for b
  proof -
    have b: "b \<in> N" "b \<noteq> a" using that assms(3) by (auto simp: used_nodes_def)
    then show ?thesis
      using tiledD(8) [OF t a b(1)] tiledD(8) [OF t b(1) a] by (cases a b rule: linorder_cases) auto
  qed
  moreover have "16 \<le> nsz a h" "\<And>b. b \<in> U \<Longrightarrow> 16 \<le> nsz b h"
    using tiledD(3) [OF t] a assms(3) by (auto simp: used_nodes_def)
  ultimately show ?thesis using assms(4) by (fastforce simp: separate_def)
qed

section \<open>Initialisation\<close>

lemma listed_empty:
  assumes "freeListBitmap h = (\<lambda>_. 0)" "freeList h = (\<lambda>_. 0)"
  shows "listed {} h"
proof -
  have "links (\<lambda>_. []) h" using assms by (simp add: links_def marked_def)
  then show ?thesis unfolding listed_def by (auto simp: apart_def)
qed

lemma init_inv:
  fixes m :: "nat \<Rightarrow> u32"
  assumes pool: "0 < pool" "4 dvd pool" and sz: "4 dvd unat sz" "964 \<le> unat sz" "unat sz < 2 ^ 28" "pool + unat sz \<le> 2 ^ 32"
  defines "h \<equiv> OsMemPoolInit pool sz m" and "s \<equiv> OS_MEM_FIRST_NODE pool"
  shows "heap_inv pool {s} h" "used_nodes {s} h = {}" "nsz s h = unat sz - 948" "totalSize h = sz"
    "\<And>w. w < pool \<or> pool + unat sz \<le> w \<Longrightarrow> mem h w = m w"
proof -
  define e where "e = OS_MEM_END_NODE pool sz"
  define n :: u32 where "n = sz - of_nat OS_MEM_POOL_HEAD_SIZE - of_nat OS_MEM_NODE_HEAD_SIZE"
  have n: "unat n = unat sz - 948"
  proof -
    have "n = sz - 948" by (simp add: n_def)
    then show ?thesis using sz(2) by (simp add: unat_sub word_le_nat_alt)
  qed
  have s: "s = pool + 940" "0 < s" "4 dvd s" "s < 2 ^ 32" and e: "e = s + unat n" "e + 8 = pool + unat sz" "e < 2 ^ 32"
    using pool sz n by (simp_all add: s_def e_def OS_MEM_FIRST_NODE_def OS_MEM_END_NODE_def)
  have n': "16 \<le> unat n" "4 dvd unat n" "unat n < 2 ^ 28" using n sz by (simp_all add: dvd_diff_nat)
  have pl: "plain n" using n'(3) by (simp add: plain_def)
  have u32: "unat (of_nat e :: u32) = e" "unat (of_nat s :: u32) = s" using s(4) e(3) by (simp_all add: unat_of_nat_small)
  define h0 where "h0 = \<lparr>info_pool = pool, totalSize = sz, attr = 0, waterLine = 0, curUsedSize = 0,
    freeListBitmap = (\<lambda>_. 0), freeList = (\<lambda>_. 0), mem = m, mem_panic = False\<rparr>"
  define h1 where "h1 = set_prev s e (set_size s n h0)"
  define h2 where "h2 = OsMemFreeNodeAdd s h1"
  define h3 where "h3 = set_prev e s (set_size e 0 h2)"
  define h4 where "h4 = set_size e (sizeAndFlag e h3 OR OS_MEM_NODE_USED_FLAG) h3"
  have h: "h = h4\<lparr>curUsedSize := 948, waterLine := 948\<rparr>"
    by (simp add: h_def OsMemPoolInit_def Let_def h4_def h3_def h2_def h1_def h0_def s_def e_def n_def)
  have l1: "listed {} h1" by (rule listed_empty) (simp_all add: h1_def h0_def put_word_def)
  have s1: "sizeAndFlag s h1 = n" by (simp add: h1_def put_word_def sizeAndFlag_def)
  have "class_of n < 223" using index_bound [of n] n' by simp
  then have l2: "listed {s} h2" "changes {s + 8, s + 12} h1 h2"
    using listed_add [OF l1, of s] s s1 by (simp_all add: h2_def apart_def link_words_def changes_def)
  have m1: "mem h1 s = of_nat e" "mem h1 (s + 4) = n" "w \<noteq> s \<Longrightarrow> w \<noteq> s + 4 \<Longrightarrow> mem h1 w = m w" for w
    by (simp_all add: h1_def h0_def put_word_def)
  have m2: "w \<noteq> s + 8 \<Longrightarrow> w \<noteq> s + 12 \<Longrightarrow> mem h2 w = mem h1 w" for w using l2(2) by (simp add: changes_def)
  have m4: "mem h e = of_nat s" "mem h (e + 4) = OS_MEM_NODE_USED_FLAG" "w \<noteq> e \<Longrightarrow> w \<noteq> e + 4 \<Longrightarrow> mem h w = mem h2 w" for w
    by (simp_all add: h h4_def h3_def put_word_def sizeAndFlag_def)
  have i: "info_pool h = pool" "totalSize h = sz" "\<not> mem_panic h" "freeList h = freeList h2" "freeListBitmap h = freeListBitmap h2"
    using l2(2) by (simp_all add: h h4_def h3_def put_word_def changes_def same_info_def h1_def h0_def)
  show "totalSize h = sz" by (rule i(2))
  have "s < e" "s + 4 < e" using n'(1) e(1) by simp_all
  then have ps: "sizeAndFlag s h = n" "node_prev s h = e" by (simp_all add: sizeAndFlag_def node_prev_def m4 m2 m1 u32)
  have pe: "sizeAndFlag e h = OS_MEM_NODE_USED_FLAG" "node_prev e h = s" by (simp_all add: sizeAndFlag_def node_prev_def m4 u32)
  show nz: "nsz s h = unat sz - 948" using ps(1) by (simp add: nsz_def size_plain [OF pl] n)
  have u: "\<not> used_node s h" "used_node e h" using ps(1) pe(1) plain_flags(1) [OF pl] by (simp_all add: used_node_def)
  show U: "used_nodes {s} h = {}" using u(1) by (auto simp: used_nodes_def)
  have F: "free_nodes {s} h = {s}" using u(1) by (auto simp: free_nodes_def)
  have se: "s + nsz s h = e" using nz n e(1) by simp
  have t: "tiled s e {s} h"
    unfolding tiled_def using s(2,3) e(1,2) sz n' ps pe nz n by simp
  have l: "listed {s} h"
    by (rule listed_cong [OF l2(1) i(4,5)]) (use m4(3) e(1) n'(1) in auto)
  have "heap_st s e {s} {s} h" using t l ps(1) pl by (simp add: heap_st_def)
  then show "heap_inv pool {s} h"
    using pool i u se unfolding heap_inv_def F U
    by (simp add: s_def [symmetric] e_def [symmetric] mod_eq_0_iff_dvd) (simp add: h)
  show "mem h w = m w" if "w < pool \<or> pool + unat sz \<le> w" for w
  proof -
    have "w \<noteq> e" "w \<noteq> e + 4" "w \<noteq> s + 8" "w \<noteq> s + 12" "w \<noteq> s" "w \<noteq> s + 4"
      using that s(1) e(1,2) n'(1) by auto
    then show ?thesis by (simp add: m4(3) m2 m1(3))
  qed
qed

text \<open>The smallest pool that is accepted: its only node has no room for the links of a free node.\<close>

lemma init_smallest: "mem (OsMemPoolInit pool 952 m) (pool + 952) = 0"
proof -
  define h1 where "h1 = put_word (pool + 940) (944 + of_nat pool) (set_size (pool + 940) 4
    \<lparr>info_pool = pool, totalSize = 952, attr = 0, waterLine = 0, curUsedSize = 0,
     freeListBitmap = (\<lambda>_. 0), freeList = (\<lambda>_. 0), mem = m, mem_panic = False\<rparr>)"
  have "OsMemFreeListIndexGet 4 = 0" by (simp add: OsMemFreeListIndexGet_def OsMemFlGet_def Let_def)
  moreover have "sizeAndFlag (pool + 940) h1 = 4" by (simp add: h1_def sizeAndFlag_def put_word_def)
  moreover have "freeList h1 0 = 0" by (simp add: h1_def put_word_def)
  ultimately have "mem (OsMemFreeNodeAdd (pool + 940) h1) (pool + 952) = 0"
    by (simp add: OsMemFreeNodeAdd_def OsMemListAdd_fields)
  moreover have "mem (OsMemPoolInit pool 952 m) (pool + 952) = mem (OsMemFreeNodeAdd (pool + 940) h1) (pool + 952)"
    by (simp add: OsMemPoolInit_def Let_def OS_MEM_FIRST_NODE_def OS_MEM_END_NODE_def h1_def put_word_def)
  ultimately show ?thesis by simp
qed

text \<open>C12: \<^verbatim>\<open>LOS_MemInit\<close> refuses a null or misaligned pool and a size that is not above the
  pool's head and one header, or not a multiple of 4.  A pool with room for a free node satisfies the
  invariant, has no block and one free node over all of the rest; no word outside the pool changes.
  A size of 952, which is accepted, is too small for that: the links of the first node are written over
  the end of the pool, so that the word behind it becomes 0.\<close>

theorem mem_init_correct:
  shows "(pool = 0 \<or> unat sz \<le> 948 \<or> pool mod 4 \<noteq> 0 \<or> unat sz mod 4 \<noteq> 0 \<longrightarrow> LOS_MemInit pool sz m = (OS_INVALID, None)) \<and>
    (0 < pool \<and> 4 dvd pool \<and> 4 dvd unat sz \<and> 964 \<le> unat sz \<and> unat sz < 2 ^ 28 \<and> pool + unat sz \<le> 2 ^ 32 \<longrightarrow>
      (\<exists>h N a. LOS_MemInit pool sz m = (LOS_OK, Some h) \<and> heap_inv pool N h \<and> mem_blocks N h = {} \<and>
         free_nodes N h = {a} \<and> nsz a h = unat sz - 948 \<and>
         (\<forall>w. w < pool \<or> pool + unat sz \<le> w \<longrightarrow> mem h w = m w))) \<and>
    (0 < pool \<and> 4 dvd pool \<and> sz = 952 \<longrightarrow>
      (\<exists>h. LOS_MemInit pool sz m = (LOS_OK, Some h) \<and> mem h (pool + unat sz) = 0))"
proof (intro conjI impI)
  have and3: "sz AND 3 = 0 \<longleftrightarrow> unat sz mod 4 = 0"
  proof -
    have "sz AND 3 = sz AND mask 2" by (simp add: mask_eq_exp_minus_1)
    then have "sz AND 3 = take_bit 2 sz" by (simp only: take_bit_eq_mask)
    moreover have "unat (take_bit 2 sz) = unat sz mod 4" by (simp only: unsigned_take_bit_eq) (simp add: take_bit_eq_mod)
    ultimately show ?thesis by (simp add: word_unat_eq_iff)
  qed
  show "LOS_MemInit pool sz m = (OS_INVALID, None)" if "pool = 0 \<or> unat sz \<le> 948 \<or> pool mod 4 \<noteq> 0 \<or> unat sz mod 4 \<noteq> 0"
    using that and3 by (auto simp: LOS_MemInit_def word_le_nat_alt)
  show "\<exists>h N a. LOS_MemInit pool sz m = (LOS_OK, Some h) \<and> heap_inv pool N h \<and> mem_blocks N h = {} \<and>
      free_nodes N h = {a} \<and> nsz a h = unat sz - 948 \<and> (\<forall>w. w < pool \<or> pool + unat sz \<le> w \<longrightarrow> mem h w = m w)"
    if "0 < pool \<and> 4 dvd pool \<and> 4 dvd unat sz \<and> 964 \<le> unat sz \<and> unat sz < 2 ^ 28 \<and> pool + unat sz \<le> 2 ^ 32"
  proof (intro exI conjI)
    have c: "0 < pool" "4 dvd pool" "4 dvd unat sz" "964 \<le> unat sz" "unat sz < 2 ^ 28" "pool + unat sz \<le> 2 ^ 32"
      using that by simp_all
    let ?h = "OsMemPoolInit pool sz m" and ?s = "OS_MEM_FIRST_NODE pool"
    note i = init_inv [OF c, where m = m]
    show "LOS_MemInit pool sz m = (LOS_OK, Some ?h)"
      using c and3 by (simp add: LOS_MemInit_def word_le_nat_alt mod_eq_0_iff_dvd)
    show "heap_inv pool {?s} ?h" "nsz ?s ?h = unat sz - 948" by (rule i)+
    show "mem_blocks {?s} ?h = {}" by (simp add: mem_blocks_def i(2))
    show "free_nodes {?s} ?h = {?s}" using i(2) by (auto simp: free_nodes_def used_nodes_def)
    show "\<forall>w. w < pool \<or> pool + unat sz \<le> w \<longrightarrow> mem ?h w = m w" using i(5) by blast
  qed
  show "\<exists>h. LOS_MemInit pool sz m = (LOS_OK, Some h) \<and> mem h (pool + unat sz) = 0" if "0 < pool \<and> 4 dvd pool \<and> sz = 952"
    using that init_smallest [of pool m] by (simp add: LOS_MemInit_def mod_eq_0_iff_dvd)
qed

text \<open>The pool of \<^verbatim>\<open>OsMemSystemInit\<close>, 32 kB in the RAM.\<close>

definition demo_heap :: OsMemPoolHead where
  "demo_heap = OsMemPoolInit 0x20001000 0x8000 (\<lambda>_. 0)"

lemma demo_heap_inv:
  "heap_inv 0x20001000 {0x200013AC} demo_heap" "used_nodes {0x200013AC} demo_heap = {}"
  "free_nodes {0x200013AC} demo_heap = {0x200013AC}" "nsz 0x200013AC demo_heap = 31820"
proof -
  have c: "0 < (0x20001000 :: nat)" "4 dvd (0x20001000 :: nat)" "4 dvd unat (0x8000 :: u32)" "964 \<le> unat (0x8000 :: u32)"
    "unat (0x8000 :: u32) < 2 ^ 28" "0x20001000 + unat (0x8000 :: u32) \<le> 2 ^ 32"
    by simp_all
  have s: "OS_MEM_FIRST_NODE 0x20001000 = 0x200013AC" by (simp add: OS_MEM_FIRST_NODE_def)
  note i = init_inv [OF c, where m = "\<lambda>_. 0", folded demo_heap_def, unfolded s]
  show "heap_inv 0x20001000 {0x200013AC} demo_heap" "used_nodes {0x200013AC} demo_heap = {}" by (rule i(1,2))+
  then show "free_nodes {0x200013AC} demo_heap = {0x200013AC}" by (auto simp: free_nodes_def used_nodes_def)
  show "nsz 0x200013AC demo_heap = 31820" using i(3) by simp
qed

theorem mem_init_correct_witness:
  "LOS_MemInit 0 0x8000 (\<lambda>_. 0) = (OS_INVALID, None) \<and>
   (\<exists>h N. LOS_MemInit 0x20001000 0x8000 (\<lambda>_. 5) = (LOS_OK, Some h) \<and> heap_inv 0x20001000 N h \<and> mem h 0x20009000 = 5) \<and>
   (\<exists>h. LOS_MemInit 0x20001000 952 (\<lambda>_. 5) = (LOS_OK, Some h) \<and> mem h 0x200013B8 = 0)"
proof -
  have "4 dvd (0x20001000 :: nat) \<and> 4 dvd unat (0x8000 :: u32)" by simp
  then have "\<exists>h N. LOS_MemInit 0x20001000 0x8000 (\<lambda>_. 5) = (LOS_OK, Some h) \<and> heap_inv 0x20001000 N h \<and> mem h 0x20009000 = 5"
    using mem_init_correct [where pool = "0x20001000" and sz = "0x8000" and m = "\<lambda>_. 5"] by fastforce
  then show ?thesis
    using mem_init_correct [where pool = 0 and sz = "0x8000" and m = "\<lambda>_. 0"]
      mem_init_correct [where pool = "0x20001000" and sz = 952 and m = "\<lambda>_. 5"] by simp
qed

section \<open>Allocation\<close>

lemma alloc_block_spec:
  assumes inv: "heap_inv pool N h" and sz: "8 \<le> unat sz" "unat sz < 2 ^ 30"
  shows "if \<exists>a\<in>free_nodes N h. unat sz + 8 \<le> nsz a h
    then \<exists>p n h' N'. OsMemAlloc sz h = Some (p, h') \<and> heap_inv pool N' h' \<and> kept (mem_blocks N h) h h' \<and> unat sz \<le> n \<and>
      mem_blocks N' h' = insert (p, n) (mem_blocks N h) \<and> separate (p, n) (mem_blocks N h) \<and> 4 dvd p \<and>
      OS_MEM_FIRST_NODE pool < p \<and> p + n \<le> pool_end pool h \<and> \<not> aligned_block p h' \<and> totalSize h' = totalSize h
    else OsMemAlloc sz h = Some (0, h)"
proof (cases "\<exists>a\<in>free_nodes N h. unat sz + 8 \<le> nsz a h")
  case False
  then show ?thesis using OsMemAlloc_spec [OF inv sz] by simp
next
  case True
  note t = heap_invD(2) [OF inv]
  obtain a h' N' where r: "OsMemAlloc sz h = Some (a + 8, h')" "heap_inv pool N' h'" "a \<in> free_nodes N h"
    "used_nodes N' h' = insert a (used_nodes N h)" "unat sz + 8 \<le> nsz a h'" "nsz a h' \<le> nsz a h"
    "\<not> tst (sizeAndFlag a h') OS_MEM_NODE_ALIGNED_FLAG" "totalSize h' = totalSize h"
    "\<forall>b\<in>used_nodes N h. sizeAndFlag b h' = sizeAndFlag b h \<and> (\<forall>w. b + 8 \<le> w \<and> w < b + nsz b h \<longrightarrow> mem h' w = mem h w)"
    using OsMemAlloc_spec [OF inv sz] True by (simp only: if_True) blast
  have aN: "a \<in> N" "a \<notin> used_nodes N h" using r(3) by (auto simp: free_nodes_def used_nodes_def)
  note bk = blocks_kept [OF r(9), folded mem_blocks_def]
  have b: "mem_blocks N' h' = insert (a + 8, nsz a h' - 8) (mem_blocks N h)"
    using bk(1) by (simp add: mem_blocks_def r(4))
  have s: "separate (a + 8, nsz a h' - 8) (mem_blocks N h)"
  proof -
    have "nsz b h = nsz b h'" if "b \<in> used_nodes N h" for b using r(9) that by (simp add: nsz_def)
    then show ?thesis
      using block_separate [OF r(2), of a "used_nodes N h" h] r(4) aN(2) by (simp add: mem_blocks_def)
  qed
  have "4 dvd a + 8" using tiledD(2) [OF t aN(1)] by simp
  moreover have "a + 8 + (nsz a h' - 8) \<le> pool_end pool h" "OS_MEM_FIRST_NODE pool < a + 8"
    using tiledD(1,5) [OF t aN(1)] r(5,6) by simp_all
  moreover have "\<not> aligned_block (a + 8) h'" using r(7) by (simp add: aligned_block_def sizeAndFlag_def add.commute)
  moreover have "unat sz \<le> nsz a h' - 8" using r(5) by simp
  ultimately show ?thesis using True b s bk(2) r(1,2,8) by fastforce
qed

text \<open>C13: \<^verbatim>\<open>LOS_MemAlloc\<close> returns (the search ends).  A request that is not 0, has no flag
  bits and fits into some free node with its header succeeds: one new block appears, at least as
  large as asked for, aligned to 4, inside the pool and apart from all others, whose contents do not
  change.  Any other request is answered with \<^verbatim>\<open>NULL\<close> and changes nothing.  Either way the
  invariant of the pool is kept.\<close>

theorem mem_alloc_correct:
  assumes "heap_inv pool N h"
  shows "\<exists>p h' N'. LOS_MemAlloc pool sz h = Some (p, h') \<and> heap_inv pool N' h' \<and> kept (mem_blocks N h) h h' \<and>
    (if sz \<noteq> 0 \<and> unat sz < 2 ^ 30 \<and> (\<exists>a\<in>free_nodes N h. max 8 (unat sz) + 8 \<le> nsz a h)
     then \<exists>n. unat sz \<le> n \<and> mem_blocks N' h' = insert (p, n) (mem_blocks N h) \<and> separate (p, n) (mem_blocks N h) \<and>
       4 dvd p \<and> OS_MEM_FIRST_NODE pool < p \<and> p + n \<le> pool_end pool h \<and> \<not> aligned_block p h'
     else p = 0 \<and> h' = h)"
proof -
  define k where "k = (if sz < OS_MEM_MIN_ALLOC_SIZE then OS_MEM_MIN_ALLOC_SIZE else sz)"
  have k: "unat k = max 8 (unat sz)" by (simp add: k_def word_less_nat_alt)
  have kk: "kept (mem_blocks N h) h h" by (auto simp: kept_def)
  show ?thesis
  proof (cases "sz \<noteq> 0 \<and> unat sz < 2 ^ 30")
    case False
    then have "sz = 0 \<or> mem_flagged k" using unflagged [of k] k by auto
    then have "LOS_MemAlloc pool sz h = Some (0, h)" unfolding LOS_MemAlloc_def Let_def k_def [symmetric] by auto
    then show ?thesis using assms False kk by auto
  next
    case True
    have l: "LOS_MemAlloc pool sz h = OsMemAlloc k h"
      using True unflagged [of k] k heap_invD(4) [OF assms] unfolding LOS_MemAlloc_def Let_def k_def [symmetric] by simp
    have "8 \<le> unat k" "unat k < 2 ^ 30" using k True by auto
    note sp = alloc_block_spec [OF assms this, unfolded k]
    show ?thesis
    proof (cases "\<exists>a\<in>free_nodes N h. max 8 (unat sz) + 8 \<le> nsz a h")
      case False
      then have "OsMemAlloc k h = Some (0, h)" using sp by simp
      then show ?thesis using False assms kk l by auto
    next
      case fits: True
      then obtain p n h' N' where "OsMemAlloc k h = Some (p, h')" "heap_inv pool N' h'" "kept (mem_blocks N h) h h'"
        "max 8 (unat sz) \<le> n" "mem_blocks N' h' = insert (p, n) (mem_blocks N h)" "separate (p, n) (mem_blocks N h)" "4 dvd p"
        "OS_MEM_FIRST_NODE pool < p" "p + n \<le> pool_end pool h" "\<not> aligned_block p h'"
        using sp by (simp only: if_True) blast
      moreover then have "unat sz \<le> n" by simp
      ultimately show ?thesis using True fits l by fastforce
    qed
  qed
qed

theorem mem_alloc_correct_witness:
  "(\<exists>p n h' N'. LOS_MemAlloc 0x20001000 100 demo_heap = Some (p, h') \<and> heap_inv 0x20001000 N' h' \<and>
     mem_blocks N' h' = {(p, n)} \<and> 100 \<le> n \<and> 0x200013AC < p) \<and>
   LOS_MemAlloc 0x20001000 0x8000 demo_heap = Some (0, demo_heap)"
proof -
  have "mem_blocks {0x200013AC} demo_heap = {}" "OS_MEM_FIRST_NODE 0x20001000 = 0x200013AC"
    by (simp_all add: mem_blocks_def demo_heap_inv(2) OS_MEM_FIRST_NODE_def)
  then show ?thesis
    using mem_alloc_correct [OF demo_heap_inv(1), of 100] mem_alloc_correct [OF demo_heap_inv(1), of "0x8000"]
    by (simp add: demo_heap_inv(3,4)) blast
qed

text \<open>A pool with one block.\<close>

lemma demo_block:
  assumes "8 \<le> unat sz" "unat sz < 1000"
  obtains p n h N where "OsMemAlloc sz demo_heap = Some (p, h)" "heap_inv 0x20001000 N h" "mem_blocks N h = {(p, n)}"
    "\<not> aligned_block p h" "0x200013AC < p" "4 dvd p" "p < 2 ^ 31"
proof -
  have b: "mem_blocks {0x200013AC} demo_heap = {}" "OS_MEM_FIRST_NODE 0x20001000 = 0x200013AC"
    by (simp_all add: mem_blocks_def demo_heap_inv(2) OS_MEM_FIRST_NODE_def)
  have "totalSize demo_heap = 0x8000" by (simp add: demo_heap_def init_inv(4))
  then have e: "pool_end 0x20001000 demo_heap < 2 ^ 31" by (simp add: OS_MEM_END_NODE_def)
  have "\<exists>a\<in>free_nodes {0x200013AC} demo_heap. unat sz + 8 \<le> nsz a demo_heap" using assms(2) by (simp add: demo_heap_inv(3,4))
  then obtain p n h N where "OsMemAlloc sz demo_heap = Some (p, h)" "heap_inv 0x20001000 N h" "mem_blocks N h = {(p, n)}"
    "\<not> aligned_block p h" "0x200013AC < p" "4 dvd p" "p + n \<le> pool_end 0x20001000 demo_heap"
    using alloc_block_spec [OF demo_heap_inv(1) assms(1)] assms(2) unfolding b by (simp only: if_True) force
  then show thesis using e by (intro that [of p h N n]) simp_all
qed

section \<open>Release\<close>

text \<open>What the owner of a block writes into it does not concern the heap.\<close>

lemma heap_inv_payload:
  fixes v :: u32
  assumes inv: "heap_inv pool N h" and a: "a \<in> used_nodes N h" and w: "a + 8 \<le> w" "w < a + nsz a h"
  defines "h' \<equiv> put_word w v h"
  shows "heap_inv pool N h'" "\<And>b. b \<in> N \<Longrightarrow> sizeAndFlag b h' = sizeAndFlag b h" "used_nodes N h' = used_nodes N h"
    "free_nodes N h' = free_nodes N h"
proof -
  let ?s = "OS_MEM_FIRST_NODE pool" and ?e = "pool_end pool h" and ?A = "free_nodes N h"
  note st = heap_invD(1) [OF inv] and t = heap_invD(2) [OF inv]
  have aN: "a \<in> N" "a \<notin> ?A" using a by (auto simp: used_nodes_def free_nodes_def)
  have nw: "w \<notin> header_words (insert ?e N)" "w \<notin> link_words ?A" by (rule payload_safe [OF t aN(1) free_used(3) aN(2) w])+
  have m: "mem h' u = mem h u" if "u \<noteq> w" for u using that by (simp add: h'_def put_word_def)
  have f: "node_prev b h' = node_prev b h" "sizeAndFlag b h' = sizeAndFlag b h" if "b \<in> insert ?e N" for b
  proof -
    have "b \<noteq> w" "b + 4 \<noteq> w" using nw(1) header_words_I [OF that] by auto
    then show "node_prev b h' = node_prev b h" "sizeAndFlag b h' = sizeAndFlag b h"
      by (simp_all add: node_prev_def sizeAndFlag_def m)
  qed
  then show g: "sizeAndFlag b h' = sizeAndFlag b h" if "b \<in> N" for b using that by blast
  have n: "nsz b h' = nsz b h" "used_node b h' = used_node b h" if "b \<in> insert ?e N" for b
    using f(2) [OF that] by (simp_all add: nsz_def used_node_def)
  show U: "used_nodes N h' = used_nodes N h" "free_nodes N h' = ?A" using n(2) by (auto simp: used_nodes_def free_nodes_def)
  have t': "tiled ?s ?e N h'" by (rule tiled_cong [OF t]) (use f n in auto)
  have l': "listed ?A h'"
  proof (rule listed_changes [OF heap_stD(2) [OF st], of "{w}"])
    show "changes {w} h h'" by (simp add: h'_def changes_def put_word_def same_info_def)
    show "freeList h' = freeList h" "freeListBitmap h' = freeListBitmap h" by (simp_all add: h'_def put_word_def)
    show "x + i \<notin> {w}" if "x \<in> ?A" "i \<in> {4, 8, 12}" for x i
      using that nw header_words_I(2) [of x "insert ?e N"] by (auto simp: link_words_def free_nodes_def)
  qed
  have st': "heap_st ?s ?e N ?A h'" using st t' l' g by (auto simp: heap_st_def)
  have c: "used_node (b + nsz b h') h'" if "b \<in> ?A" for b
  proof -
    have "b \<in> N" using that by (simp add: free_nodes_def)
    then show ?thesis using n [of b] n(2) [of "b + nsz b h"] tiledD(6) [OF t] heap_invD(3) [OF inv that] by simp
  qed
  have "(\<Sum>b\<in>used_nodes N h. nsz b h') = (\<Sum>b\<in>used_nodes N h. nsz b h)"
    by (rule sum.cong) (use n(1) in \<open>auto simp: used_nodes_def\<close>)
  then show "heap_inv pool N h'"
    using inv st' c unfolding heap_inv_def U by (simp add: h'_def put_word_def)
qed

text \<open>Nor does the flag of an aligned block.\<close>

lemma heap_inv_flag:
  assumes inv: "heap_inv pool N h" and a: "a \<in> used_nodes N h"
  defines "h' \<equiv> set_size a (sizeAndFlag a h OR OS_MEM_NODE_ALIGNED_FLAG) h"
  shows "heap_inv pool N h'" "used_nodes N h' = used_nodes N h" "\<And>b. nsz b h' = nsz b h"
proof -
  note st = heap_invD(1) [OF inv]
  have aN: "a \<in> N" "a \<notin> free_nodes N h" using a by (auto simp: used_nodes_def free_nodes_def)
  note fl = st_flag [OF st aN size_of_flags(2), folded h'_def]
  show n: "nsz b h' = nsz b h" for b using fl(3) fl(4) [of b] by (cases "b = a") (simp_all add: nsz_def)
  have u: "used_node b h' = used_node b h" for b
    using fl(2) fl(4) [of b] a by (cases "b = a") (simp_all add: used_node_def used_nodes_def)
  then show U: "used_nodes N h' = used_nodes N h" by (simp add: used_nodes_def)
  have F: "free_nodes N h' = free_nodes N h" using u by (simp add: free_nodes_def)
  show "heap_inv pool N h'"
    using inv fl(1) n u unfolding heap_inv_def U F by (simp add: h'_def put_word_def)
qed

lemma free_node_spec:
  assumes inv: "heap_inv pool N h" and a: "a \<in> used_nodes N h"
  shows "\<exists>h' N'. OsMemFree pool a h = (LOS_OK, h') \<and> heap_inv pool N' h' \<and>
    mem_blocks N' h' = mem_blocks N h - {(a + 8, nsz a h - 8)} \<and> kept (mem_blocks N' h') h h' \<and>
    (\<exists>p\<in>free_nodes N' h'. nsz a h \<le> nsz p h')"
proof -
  obtain h' N' where r: "OsMemFree pool a h = (LOS_OK, h')" "heap_inv pool N' h'"
    "used_nodes N' h' = used_nodes N h - {a}"
    "\<forall>b\<in>used_nodes N h - {a}. sizeAndFlag b h' = sizeAndFlag b h \<and>
       (\<forall>w. b + 8 \<le> w \<and> w < b + nsz b h \<longrightarrow> mem h' w = mem h w)"
    "\<exists>p\<in>free_nodes N' h'. nsz a h \<le> nsz p h'"
    using OsMemFree_spec [OF inv a] by blast
  note bk = blocks_kept [OF r(4)]
  have "mem_blocks N' h' = (\<lambda>a. (a + OS_MEM_NODE_HEAD_SIZE, nsz a h - OS_MEM_NODE_HEAD_SIZE)) ` (used_nodes N h - {a})"
    using bk(1) by (simp add: mem_blocks_def r(3))
  moreover have "\<dots> = mem_blocks N h - {(a + 8, nsz a h - 8)}" by (auto simp: mem_blocks_def)
  ultimately show ?thesis using r(1,2,5) bk(2) by auto
qed

lemma OsMemFree_refuses:
  assumes "heap_inv pool N h" "a \<in> free_nodes N h"
  shows "OsMemFree pool a h = (LOS_NOK, h)"
  using OsMemCheckUsedNode_spec [OF assms(1), of a] assms(2)
  by (auto simp: OsMemFree_def Let_def free_nodes_def used_nodes_def)

lemma kept_trans: "kept B h h' \<Longrightarrow> kept C h' h'' \<Longrightarrow> B \<subseteq> C \<Longrightarrow> kept B h h''"
  by (fastforce simp: kept_def)

text \<open>The pointer of a node whose block was not moved is the payload itself.\<close>

lemma OsGetRealPtr_plain:
  assumes "used_node a h \<or> \<not> tst (sizeAndFlag a h) OS_MEM_NODE_ALIGNED_FLAG"
  shows "OsGetRealPtr pool (a + 8) h = (if tst (sizeAndFlag a h) OS_MEM_NODE_ALIGNED_FLAG then 0 else a + 8)"
  using assms by (auto simp: OsGetRealPtr_def Let_def sizeAndFlag_def used_node_def add.commute)

lemma LOS_MemFree_real:
  assumes "heap_inv pool N h" "q \<noteq> 0" "q mod 4 = 0" "OsGetRealPtr pool q h = a + 8"
  shows "LOS_MemFree pool q h = OsMemFree pool a h"
  using assms heap_invD(4,5) [OF assms(1)] by (simp add: LOS_MemFree_def Let_def)

text \<open>A pointer before the first block or behind the end node, unless the word before it says that the
  block was moved, in which case that word decides which node is looked at.\<close>

lemma LOS_MemFree_outside:
  assumes "\<not> tst (mem h (p - 4)) OS_MEM_NODE_ALIGNED_FLAG"
    and "p < OS_MEM_FIRST_NODE pool + 8 \<or> OS_MEM_END_NODE pool (totalSize h) + 8 < p"
  shows "LOS_MemFree pool p h = (LOS_NOK, h)"
proof -
  have "\<not> OsMemIsNodeValid (p - 8) (OS_MEM_FIRST_NODE pool) (OS_MEM_END_NODE pool (totalSize h)) pool h"
    using assms(2) by (auto simp: OsMemIsNodeValid_def OS_MEM_FIRST_NODE_def)
  then have "OsMemFree pool (p - 8) h = (LOS_NOK, h)" by (simp add: OsMemFree_def OsMemCheckUsedNode_def Let_def)
  then show ?thesis using assms(1) by (simp add: LOS_MemFree_def OsGetRealPtr_def Let_def)
qed

text \<open>C14: \<^verbatim>\<open>LOS_MemFree\<close> of an allocated block gives its memory back: the block disappears,
  nothing happens to the contents of the others, its bytes lie in one free node afterwards and the
  invariant is kept, so the free memory is merged with what is free next to it.  These pointers are refused
  and change nothing: a null or misaligned pointer; the payload of a node that is free (so a block freed
  before and not yet merged or given out again); the payload of a node whose block was moved for alignment; and
  a pointer before the first or behind the last node of the pool whose preceding word does not have the flag of
  a moved block.  Of any other pointer the code looks at the header before it only, so nothing is claimed
  for pointers into the middle of a block or to a node that has been merged.\<close>

theorem mem_free_correct:
  assumes "heap_inv pool N h"
  shows "((p, n) \<in> mem_blocks N h \<and> \<not> aligned_block p h \<longrightarrow>
      (\<exists>h' N'. LOS_MemFree pool p h = (LOS_OK, h') \<and> heap_inv pool N' h' \<and> mem_blocks N' h' = mem_blocks N h - {(p, n)} \<and>
        kept (mem_blocks N' h') h h' \<and> (\<exists>a\<in>free_nodes N' h'. n + 8 \<le> nsz a h'))) \<and>
    (p = 0 \<or> p mod 4 \<noteq> 0 \<or> (\<exists>a\<in>free_nodes N h. p = a + 8) \<or> (p, n) \<in> mem_blocks N h \<and> aligned_block p h \<longrightarrow>
      LOS_MemFree pool p h = (LOS_NOK, h)) \<and>
    ((p < OS_MEM_FIRST_NODE pool + 8 \<or> OS_MEM_END_NODE pool (totalSize h) + 8 < p) \<and>
      \<not> tst (mem h (p - 4)) OS_MEM_NODE_ALIGNED_FLAG \<longrightarrow> LOS_MemFree pool p h = (LOS_NOK, h))"
proof (intro conjI impI)
  show "LOS_MemFree pool p h = (LOS_NOK, h)"
    if "(p < OS_MEM_FIRST_NODE pool + 8 \<or> OS_MEM_END_NODE pool (totalSize h) + 8 < p) \<and>
      \<not> tst (mem h (p - 4)) OS_MEM_NODE_ALIGNED_FLAG"
    by (rule LOS_MemFree_outside) (use that in blast)+
  note t = heap_invD(2) [OF assms] and pool = heap_invD(4,5) [OF assms]
  have al: "(a + 8) mod 4 = 0" if "a \<in> N" for a using tiledD(2) [OF t that] by (simp add: mod_eq_0_iff_dvd)
  note real = OsGetRealPtr_plain [of _ h pool]
  show "\<exists>h' N'. LOS_MemFree pool p h = (LOS_OK, h') \<and> heap_inv pool N' h' \<and> mem_blocks N' h' = mem_blocks N h - {(p, n)} \<and>
      kept (mem_blocks N' h') h h' \<and> (\<exists>a\<in>free_nodes N' h'. n + 8 \<le> nsz a h')"
    if p: "(p, n) \<in> mem_blocks N h \<and> \<not> aligned_block p h"
  proof -
    obtain a where a: "a \<in> used_nodes N h" "p = a + 8" "nsz a h = n + 8" "mem h (p - 4) = sizeAndFlag a h"
      using blocks_node [OF assms conjunct1 [OF p]] .
    have "LOS_MemFree pool p h = OsMemFree pool a h"
      by (rule LOS_MemFree_real [OF assms]) (use real [of a] a p al [of a] in \<open>simp_all add: aligned_block_def used_nodes_def\<close>)
    then show ?thesis using free_node_spec [OF assms a(1)] a(2,3) by simp
  qed
  show "LOS_MemFree pool p h = (LOS_NOK, h)"
    if p: "p = 0 \<or> p mod 4 \<noteq> 0 \<or> (\<exists>a\<in>free_nodes N h. p = a + 8) \<or> (p, n) \<in> mem_blocks N h \<and> aligned_block p h"
  proof -
    consider "p = 0 \<or> p mod 4 \<noteq> 0" | a where "a \<in> free_nodes N h" "p = a + 8" | "(p, n) \<in> mem_blocks N h \<and> aligned_block p h"
      using p by blast
    then show ?thesis
    proof cases
      case 1
      then show ?thesis by (auto simp: LOS_MemFree_def)
    next
      case 2
      have "a \<in> N" "plain (sizeAndFlag a h)" using 2(1) heap_stD(4) [OF heap_invD(1) [OF assms]] by (auto simp: free_nodes_def)
      then show ?thesis
        using real [of a] plain_flags(2) [of "sizeAndFlag a h"] OsMemFree_refuses [OF assms 2(1)] al [of a] pool 2(2)
        by (simp add: LOS_MemFree_def Let_def)
    next
      case 3
      obtain a where a: "a \<in> used_nodes N h" "p = a + 8" "mem h (p - 4) = sizeAndFlag a h"
        using blocks_node [OF assms conjunct1 [OF 3]] by metis
      then show ?thesis using real [of a] 3 by (simp add: LOS_MemFree_def Let_def aligned_block_def used_nodes_def)
    qed
  qed
qed

theorem mem_free_correct_witness:
  "\<exists>p h h' N'. OsMemAlloc 100 demo_heap = Some (p, h) \<and> LOS_MemFree 0x20001000 p h = (LOS_OK, h') \<and>
     heap_inv 0x20001000 N' h' \<and> mem_blocks N' h' = {} \<and> LOS_MemFree 0x20001000 0 h = (LOS_NOK, h)"
proof -
  have b: "8 \<le> unat (100 :: u32)" "unat (100 :: u32) < 1000" by simp_all
  obtain p n h N where h: "OsMemAlloc 100 demo_heap = Some (p, h)" "heap_inv 0x20001000 N h" "mem_blocks N h = {(p, n)}"
    "\<not> aligned_block p h"
    by (rule demo_block [OF b]) blast
  show ?thesis
    using h mem_free_correct [OF h(2), of p n] mem_free_correct [OF h(2), of 0 n] by simp blast
qed

section \<open>Alignment\<close>

lemma and_not_mask: "(x :: u32) AND NOT (mask j) = push_bit j (drop_bit j x)"
proof (rule bit_word_eqI)
  fix n :: nat
  have "j + (n - j) = n" if "j \<le> n" using that by simp
  then show "bit (x AND NOT (mask j)) n = bit (push_bit j (drop_bit j x)) n" if "n < LENGTH(32)"
    using that by (auto simp: bit_and_iff bit_not_iff bit_mask_iff bit_push_bit_iff bit_drop_bit_eq not_less)
qed

lemma unat_round_down: "unat ((x :: u32) AND NOT (mask j)) = unat x div 2 ^ j * 2 ^ j"
proof (cases "j < 32")
  case True
  have "unat x < 2 ^ 32" using unsigned_less [of x] by simp
  then have "unat x div 2 ^ j * 2 ^ j < 2 ^ 32" by (rule le_less_trans [OF div_times_less_eq_dividend])
  moreover have "(2 :: nat) ^ j < 2 ^ 32" by (rule power_strict_increasing [OF True]) simp
  then have "unat ((2 :: u32) ^ j) = 2 ^ j" using unat_of_nat_small [of "2 ^ j", where 'a = 32] by simp
  ultimately show ?thesis by (simp only: and_not_mask push_bit_eq_mult unat_word_ariths unat_drop) simp
next
  case False
  then have "(2 :: nat) ^ 32 \<le> 2 ^ j" by (intro power_increasing) simp_all
  moreover have "unat x < 2 ^ 32" using unsigned_less [of x] by simp
  ultimately have "unat x < 2 ^ j" by (rule less_le_trans [rotated])
  moreover have "drop_bit j x = 0" using calculation by (simp add: word_unat_eq_iff unat_drop)
  ultimately show ?thesis by (simp add: and_not_mask)
qed

lemma power_of_two:
  assumes "(b :: nat) \<noteq> 0" "b AND (b - 1) = 0"
  shows "\<exists>j. b = 2 ^ j"
  using assms
proof (induction b rule: less_induct)
  case (less b)
  show ?case
  proof (cases "odd b")
    case True
    then obtain c where c: "b = 2 * c + 1" by (rule oddE)
    have "b AND (b - 1) = 2 * c" by (subst and_nat_rec) (simp add: c)
    then show ?thesis using less.prems(2) c by (intro exI [of _ 0]) simp
  next
    case False
    then obtain c where c: "b = 2 * c" by auto
    then have "c \<noteq> 0" "c < b" "(b - 1) div 2 = c - 1" "b div 2 = c" using less.prems(1) by auto
    moreover then have "c AND (c - 1) = 0" using less.prems(2) False by (subst (asm) and_nat_rec) simp
    ultimately obtain j where "c = 2 ^ j" using less.IH by blast
    then show ?thesis using c by (intro exI [of _ "Suc j"]) simp
  qed
qed

lemma OS_MEM_ALIGN_up:
  assumes "unat bd = 2 ^ j" "2 \<le> j" "x + 2 ^ j \<le> 2 ^ 32" "4 dvd x"
  defines "q \<equiv> unat (OS_MEM_ALIGN (of_nat x) bd)"
  shows "2 ^ j dvd q" "x \<le> q" "q + 4 \<le> x + 2 ^ j" "4 dvd q"
proof -
  have bd: "bd = of_nat (2 ^ j)" unfolding assms(1) [symmetric] by simp
  have m: "bd - 1 = mask j" by (simp add: bd mask_eq_exp_minus_1)
  obtain k where k: "2 ^ j = Suc k" by (metis not0_implies_Suc power_not_zero zero_neq_numeral)
  have "of_nat x + bd - 1 = (of_nat (x + (2 ^ j - 1)) :: u32)" by (simp add: bd k)
  moreover have "x + (2 ^ j - 1) < 2 ^ LENGTH(32)"
  proof -
    have "(0 :: nat) < 2 ^ j" by simp
    then show ?thesis using assms(3) unfolding len_num0 by simp
  qed
  ultimately have "unat (of_nat x + bd - 1) = x + (2 ^ j - 1)" by (simp only: unat_of_nat_small)
  then have q: "q = (x + (2 ^ j - 1)) div 2 ^ j * 2 ^ j" by (simp only: q_def OS_MEM_ALIGN_def m unat_round_down)
  then show d: "2 ^ j dvd q" by simp
  have "(4 :: nat) dvd 2 ^ j" using le_imp_power_dvd [OF assms(2), of "2 :: nat"] by simp
  then show d4: "4 dvd q" using d dvd_trans by blast
  have "q \<le> x + (2 ^ j - 1)" unfolding q by (rule div_times_less_eq_dividend)
  moreover have "x + (2 ^ j - 1) < q + 2 ^ j"
    using dividend_less_div_times [of "2 ^ j" "x + (2 ^ j - 1)"] unfolding q by (simp add: add.commute)
  ultimately show x: "x \<le> q" by simp
  have lt: "q < x + 2 ^ j" using \<open>q \<le> x + (2 ^ j - 1)\<close> by (simp add: k)
  have "4 dvd x + 2 ^ j" using assms(4) \<open>4 dvd 2 ^ j\<close> by simp
  then obtain u v where "q = 4 * u" "x + 2 ^ j = 4 * v" using d4 by (auto elim!: dvdE)
  then show "q + 4 \<le> x + 2 ^ j" using lt by simp
qed

text \<open>The pointer is found again from the distance in front of it.\<close>

lemma OsGetRealPtr_moved:
  assumes g: "mem h (q - 4) = of_nat (q - p) OR OS_MEM_NODE_ALIGNED_FLAG"
    and p: "4 dvd p" "4 dvd q" "pool + 8 \<le> p" "p \<le> q" "q - p < 2 ^ 30" "q < 2 ^ 32"
  shows "OsGetRealPtr pool q h = p"
proof -
  let ?g = "of_nat (q - p) :: u32"
  have u: "unat ?g = q - p" using p(5) by (intro unat_of_nat_small) simp
  then have pl: "plain ?g" using p(5) by (simp add: plain_def)
  have t: "\<not> tst (?g OR OS_MEM_NODE_ALIGNED_FLAG) OS_MEM_NODE_USED_FLAG" "tst (?g OR OS_MEM_NODE_ALIGNED_FLAG) OS_MEM_NODE_ALIGNED_FLAG"
    using plain_flags(1) [OF pl] by (simp_all only: tst_flags bit_or_iff flag_bits) simp_all
  have c: "clr (?g OR OS_MEM_NODE_ALIGNED_FLAG) OS_MEM_NODE_ALIGNED_FLAG = ?g"
  proof (rule bit_word_eqI)
    show "bit (clr (?g OR OS_MEM_NODE_ALIGNED_FLAG) OS_MEM_NODE_ALIGNED_FLAG) n = bit ?g n" for n
      using plain_flags(2) [OF pl] by (auto simp only: tst_flags bit_clr bit_or_iff flag_bits)
  qed
  have m: "?g AND 3 = 0"
  proof -
    have e: "(3 :: u32) = mask 2" by (simp add: mask_eq_exp_minus_1)
    have "?g AND 3 = take_bit 2 ?g" unfolding e by (simp only: take_bit_eq_mask)
    moreover have "unat (take_bit 2 ?g) = (q - p) mod 4" by (simp only: unsigned_take_bit_eq u) (simp add: take_bit_eq_mod)
    moreover have "4 dvd q - p" using p(1,2) by (simp add: dvd_diff_nat)
    ultimately show ?thesis by (simp add: word_unat_eq_iff)
  qed
  have "(of_nat q :: u32) - of_nat 8 - of_nat pool = of_nat (q - (pool + 8))"
    using p(3,4) by (simp add: of_nat_diff algebra_simps)
  then have "unat ((of_nat q :: u32) - of_nat 8 - of_nat pool) = q - (pool + 8)"
    using p(6) by (simp only:) (rule unat_of_nat_small, simp)
  then have l: "\<not> ?g > of_nat q - of_nat 8 - of_nat pool" using p(3) u by (simp add: word_less_nat_alt)
  show ?thesis
    unfolding OsGetRealPtr_def Let_def g c
    using t m l u p(4) by (simp only: simp_thms if_True if_False)
qed


text \<open>C15: An aligned allocation and its release are inverse.  The pointer of \<^verbatim>\<open>LOS_MemAllocAlign\<close>
  is a multiple of the boundary inside one new block, and the bytes asked for lie behind it in the block;
  no other block changes.  \<^verbatim>\<open>LOS_MemFree\<close> of this pointer finds the node again from the distance
  stored in front of the pointer, and leaves exactly the blocks there were before.\<close>

theorem mem_align_roundtrip:
  assumes inv: "heap_inv pool N h" and r: "LOS_MemAllocAlign pool sz bd h = Some (q, h1)" and q: "q \<noteq> 0"
  shows "\<exists>N1 p n. heap_inv pool N1 h1 \<and> mem_blocks N1 h1 = insert (p, n) (mem_blocks N h) \<and> separate (p, n) (mem_blocks N h) \<and>
    kept (mem_blocks N h) h h1 \<and> p \<le> q \<and> q + unat sz \<le> p + n \<and> unat bd dvd q \<and>
    (\<exists>N2 h2. LOS_MemFree pool q h1 = (LOS_OK, h2) \<and> heap_inv pool N2 h2 \<and> mem_blocks N2 h2 = mem_blocks N h \<and>
       kept (mem_blocks N h) h h2)"
proof -
  define k where "k = (if sz < OS_MEM_MIN_ALLOC_SIZE then OS_MEM_MIN_ALLOC_SIZE else sz)"
  define u where "u = k + bd - 4"
  have c: "sz \<noteq> 0" "bd \<noteq> 0" "bd AND (bd - 1) = 0" "bd AND 3 = 0" "\<not> bd - 4 > 0xFFFFFFFF - k" "\<not> mem_flagged u"
    using r q unfolding LOS_MemAllocAlign_def Let_def k_def [symmetric] u_def [symmetric] by (auto split: if_splits)
  obtain p h0 where o: "OsMemAlloc u h = Some (p, h0)"
    and m: "(q, h1) = (if p = unat (OS_MEM_ALIGN (of_nat p) bd) then (p, h0)
      else (unat (OS_MEM_ALIGN (of_nat p) bd), put_word (unat (OS_MEM_ALIGN (of_nat p) bd) - 4)
        (of_nat (unat (OS_MEM_ALIGN (of_nat p) bd) - p) OR OS_MEM_NODE_ALIGNED_FLAG)
        (set_size (p - 8) (sizeAndFlag (p - 8) h0 OR OS_MEM_NODE_ALIGNED_FLAG) h0)))"
    using r c heap_invD(4) [OF inv] unfolding LOS_MemAllocAlign_def Let_def k_def [symmetric] u_def [symmetric]
    by (auto split del: if_split)
  have k: "unat k = max 8 (unat sz)" by (simp add: k_def word_less_nat_alt)
  have "unat bd AND (unat bd - 1) = 0"
  proof -
    have "unat (bd - 1) = unat bd - 1" using c(2) by (simp add: unat_minus_one)
    then show ?thesis using arg_cong [OF c(3), of unat] by (simp add: unsigned_and_eq)
  qed
  then obtain j where j: "unat bd = 2 ^ j" using power_of_two [of "unat bd"] c(2) by (auto simp: unat_eq_0)
  have j2: "2 \<le> j"
  proof (rule ccontr)
    assume "\<not> 2 \<le> j"
    then have "j = 0 \<or> j = 1" by auto
    then have "bd = 1 \<or> bd = 2" using j by (auto simp: word_unat_eq_iff)
    then show False using c(4) by auto
  qed
  then have b4: "4 \<le> unat bd" using j power_increasing [OF j2, of "2 :: nat"] by simp
  have u: "unat u + 4 = unat k + unat bd"
  proof -
    have e: "unat (bd - 4) = unat bd - 4" using b4 by (simp add: unat_sub word_le_nat_alt)
    have kl: "unat k < 2 ^ LENGTH(32)" "unat bd < 2 ^ LENGTH(32)" by (rule unsigned_less)+
    then have f: "unat (0xFFFFFFFF - k) = 0xFFFFFFFF - unat k" by (simp add: unat_sub word_le_nat_alt)
    have "unat (bd - 4) \<le> unat (0xFFFFFFFF - k)" using c(5) by (simp add: word_less_nat_alt not_less)
    then have lt: "unat (bd - 4) + unat k < 2 ^ 32" using e f kl by simp
    have "u = k + (bd - 4)" by (simp add: u_def)
    then have "unat u = unat k + (unat bd - 4)" using lt e by (simp add: unat_word_ariths)
    then show ?thesis using b4 by simp
  qed
  have ub: "8 \<le> unat u" "unat u < 2 ^ 30" using u b4 k unflagged [of u] c(6) by simp_all
  have "p \<noteq> 0"
  proof
    assume "p = 0"
    then have "unat (OS_MEM_ALIGN (of_nat p) bd) = p" by (simp add: OS_MEM_ALIGN_def)
    then show False using m q \<open>p = 0\<close> by simp
  qed
  then obtain n N1 where a: "heap_inv pool N1 h0" "kept (mem_blocks N h) h h0" "unat u \<le> n"
    "mem_blocks N1 h0 = insert (p, n) (mem_blocks N h)" "separate (p, n) (mem_blocks N h)" "4 dvd p"
    "OS_MEM_FIRST_NODE pool < p" "p + n \<le> pool_end pool h" "\<not> aligned_block p h0"
    using alloc_block_spec [OF inv ub] o by (auto split: if_splits)
  have new: "(p, n) \<notin> mem_blocks N h" using a(3,5) ub by (auto simp: separate_def)
  have "p + n < 2 ^ 32" "n < 2 ^ 28"
    using a(7,8) tiled_frame(3) [OF heap_invD(2) [OF inv]] pool_bound [OF inv] by simp_all
  note pn = this
  define al where "al = unat (OS_MEM_ALIGN (of_nat p) bd)"
  have al: "unat bd dvd al" "p \<le> al" "al + 4 \<le> p + unat bd" "4 dvd al"
  proof -
    have "p + 2 ^ j \<le> 2 ^ 32" using pn(1) a(3) u k unfolding j by simp
    from OS_MEM_ALIGN_up [OF j j2 this a(6), folded al_def] show "unat bd dvd al" "p \<le> al" "al + 4 \<le> p + unat bd" "4 dvd al"
      by (simp_all add: j)
  qed
  have fits: "al + unat sz \<le> p + n" using al(3) a(3) u k by simp
  note m = m [folded al_def]
  have qal: "q = al" using m by (simp split: if_splits)
  obtain b where b: "b \<in> used_nodes N1 h0" "p = b + 8" "nsz b h0 = n + 8" "mem h0 (p - 4) = sizeAndFlag b h0"
    by (rule blocks_node [OF a(1), of p n]) (use a(4) in auto)
  have freed: "\<exists>N2 h2. LOS_MemFree pool q h1 = (LOS_OK, h2) \<and> heap_inv pool N2 h2 \<and> mem_blocks N2 h2 = mem_blocks N h \<and>
       kept (mem_blocks N h) h h2"
    if h1: "heap_inv pool N1 h1" "b \<in> used_nodes N1 h1" "nsz b h1 = n + 8" "kept (mem_blocks N h) h h1"
      "mem_blocks N1 h1 = insert (p, n) (mem_blocks N h)" "OsGetRealPtr pool q h1 = b + 8"
  proof -
    have "q mod 4 = 0" using al(4) qal by (simp add: mod_eq_0_iff_dvd)
    then have "LOS_MemFree pool q h1 = OsMemFree pool b h1" by (rule LOS_MemFree_real [OF h1(1) q _ h1(6)])
    moreover have "mem_blocks N1 h1 - {(b + 8, nsz b h1 - 8)} = mem_blocks N h" using h1(3,5) new b(2) by simp
    ultimately show ?thesis using free_node_spec [OF h1(1,2)] kept_trans [OF h1(4)] by fastforce
  qed
  have fits': "q + unat sz \<le> p + n" "p \<le> q" "unat bd dvd q" using fits al qal by simp_all
  show ?thesis
  proof (cases "p = al")
    case True
    then have h1: "h1 = h0" "q = p" using m by simp_all
    have "OsGetRealPtr pool q h1 = b + 8"
      using OsGetRealPtr_plain [of b h0 pool] a(9) b(2,4) by (simp add: h1 aligned_block_def)
    then show ?thesis using freed [of] a(1,2,4,5) b(1,3) fits' h1(1) by blast
  next
    case False
    let ?g = "of_nat (al - p) OR OS_MEM_NODE_ALIGNED_FLAG :: u32" and ?w = "sizeAndFlag b h0 OR OS_MEM_NODE_ALIGNED_FLAG"
    define h2 where "h2 = set_size b ?w h0"
    have h1: "h1 = put_word (al - 4) ?g h2" using m False b(2) by (simp add: h2_def)
    have f: "heap_inv pool N1 h2" "used_nodes N1 h2 = used_nodes N1 h0" "\<And>c. c \<in> N1 \<Longrightarrow> nsz c h2 = nsz c h0"
      using heap_inv_flag [OF a(1) b(1)] by (simp_all add: h2_def)
    have p4: "p + 4 \<le> al" using al(2,4) a(6) False by (auto elim!: dvdE)
    have w: "b + 8 \<le> al - 4" "al - 4 < b + nsz b h2"
      using p4 b(2,3) f(3) [of b] b(1) fits k u a(3) by (auto simp: used_nodes_def)
    note pw = heap_inv_payload [OF f(1) _ w, where v = ?g, folded h1, unfolded f(2), OF b(1)]
    have n1: "nsz c h1 = nsz c h0" if "c \<in> N1" for c using pw(2) [OF that] f(3) [OF that] by (simp add: nsz_def)
    have bl: "mem_blocks N1 h1 = insert (p, n) (mem_blocks N h)"
    proof -
      have "mem_blocks N1 h1 = mem_blocks N1 h0"
        unfolding mem_blocks_def pw(3) by (rule image_cong [OF refl]) (use n1 in \<open>auto simp: used_nodes_def\<close>)
      then show ?thesis by (simp add: a(4))
    qed
    have kp: "kept (mem_blocks N h) h h1"
    proof -
      have "mem h1 w = mem h0 w" if "w \<noteq> al - 4" "w \<noteq> b + 4" for w
        using that by (simp add: h1 h2_def put_word_def)
      moreover have "c - 4 \<noteq> al - 4 \<and> c - 4 \<noteq> b + 4 \<and> (c \<le> w \<and> w < c + d \<longrightarrow> w \<noteq> al - 4 \<and> w \<noteq> b + 4)"
        if "(c, d) \<in> mem_blocks N h" for c d w
      proof -
        have "8 \<le> c" by (rule blocks_node [OF inv that]) simp
        moreover have "p + n + 8 \<le> c \<or> c + d + 8 \<le> p" using a(5) that by (auto simp: separate_def)
        moreover have "al - 4 < p + n" "b + 4 < p" "b + 4 < al - 4" using b(2) p4 fits a(3) ub by simp_all
        ultimately show ?thesis using b(2) by linarith
      qed
      ultimately have "kept (mem_blocks N h) h0 h1" unfolding kept_def by blast
      then show ?thesis using kept_trans [OF a(2)] by blast
    qed
    have "OsGetRealPtr pool q h1 = b + 8"
      unfolding b(2) [symmetric] qal
    proof (rule OsGetRealPtr_moved)
      show "mem h1 (al - 4) = ?g" by (simp add: h1 put_word_def)
      show "pool + 8 \<le> p" using a(7) by (simp add: OS_MEM_FIRST_NODE_def)
      show "al - p < 2 ^ 30" "al < 2 ^ 32" using fits pn by simp_all
    qed (rule a(6) al)+
    moreover have "nsz b h1 = n + 8" using n1 [of b] b(1,3) by (simp add: used_nodes_def)
    moreover have "b \<in> used_nodes N1 h1" using b(1) pw(3) by simp
    ultimately have "\<exists>N2 h2. LOS_MemFree pool q h1 = (LOS_OK, h2) \<and> heap_inv pool N2 h2 \<and> mem_blocks N2 h2 = mem_blocks N h \<and>
       kept (mem_blocks N h) h h2" by (intro freed pw(1) kp bl)
    then show ?thesis using pw(1) bl kp fits' a(5) by blast
  qed
qed

theorem mem_align_roundtrip_witness:
  "\<exists>q h h' N'. LOS_MemAllocAlign 0x20001000 100 64 demo_heap = Some (q, h) \<and> 64 dvd q \<and> 0 < q \<and>
     LOS_MemFree 0x20001000 q h = (LOS_OK, h') \<and> heap_inv 0x20001000 N' h' \<and> mem_blocks N' h' = {}"
proof -
  have b: "8 \<le> unat (160 :: u32)" "unat (160 :: u32) < 1000" by simp_all
  obtain p n h N where h: "OsMemAlloc 160 demo_heap = Some (p, h)" "heap_inv 0x20001000 N h" "mem_blocks N h = {(p, n)}"
    "0x200013AC < p" "4 dvd p" "p < 2 ^ 31"
    by (rule demo_block [OF b]) blast
  have "unat (64 :: u32) = 2 ^ 6" "2 \<le> (6 :: nat)" "p + 2 ^ 6 \<le> 2 ^ 32" using h(6) by simp_all
  then have al: "p \<le> unat (OS_MEM_ALIGN (of_nat p) 64)" using OS_MEM_ALIGN_up(2) h(5) by blast
  have "\<not> mem_flagged (160 :: u32)" by (simp add: unflagged del: de_Morgan_disj)
  then have "\<exists>q h. LOS_MemAllocAlign 0x20001000 100 64 demo_heap = Some (q, h) \<and> 0 < q"
    using al h(4) by (simp add: LOS_MemAllocAlign_def Let_def h(1))
  then obtain q h' where q: "LOS_MemAllocAlign 0x20001000 100 64 demo_heap = Some (q, h')" "q \<noteq> 0" by auto
  have "mem_blocks {0x200013AC} demo_heap = {}" by (simp add: mem_blocks_def demo_heap_inv(2))
  then show ?thesis using mem_align_roundtrip [OF demo_heap_inv(1) q] q by (simp add: q(1)) blast
qed

end
