(* ===== verification/Los_Pm.thy ===== *)
theory Los_Pm
  imports Los_Task
begin

text \<open>
  \<^verbatim>\<open>LiteOS/components/power/los_pm.c\<close>: low-power modes, in the configuration of the program
  (\<^verbatim>\<open>LOSCFG_KERNEL_PM\<close> is 1, its debug option 0, the tick is not a wake-up timer).  The idle
  task enters a mode on every round of its loop.  Device drivers register structures of function
  pointers; a pointer is an address with 0 for \<^verbatim>\<open>NULL\<close>, and the structures lie in the memory of
  the state.  A call through a pointer is appended to \<open>pm_out\<close>; following a null pointer is
  recorded in \<open>pm_null\<close>.  What a driver returns is an argument.
\<close>

abbreviation "LOS_ERRNO_PM_INVALID_MODE \<equiv> LOS_ERRNO_OS_ERROR 0x20 1"
abbreviation "LOS_ERRNO_PM_INVALID_PARAM \<equiv> LOS_ERRNO_OS_ERROR 0x20 2"
abbreviation "LOS_ERRNO_PM_NOT_LOCK \<equiv> LOS_ERRNO_OS_ERROR 0x20 3"
abbreviation "LOS_ERRNO_PM_INVALID_NODE \<equiv> LOS_ERRNO_OS_ERROR 0x20 5"
abbreviation "LOS_ERRNO_PM_INVALID_TYPE \<equiv> LOS_ERRNO_OS_ERROR 0x20 6"
abbreviation "LOS_ERRNO_PM_HANDLER_NULL \<equiv> LOS_ERRNO_OS_ERROR 0x20 7"
abbreviation "LOS_ERRNO_PM_TICK_TIMER_NULL \<equiv> LOS_ERRNO_OS_ERROR 0x20 8"
abbreviation "LOS_ERRNO_PM_DEVICE_NULL \<equiv> LOS_ERRNO_OS_ERROR 0x20 9"

section \<open>State\<close>

datatype LOS_SysSleepEnum = LOS_SYS_NORMAL_SLEEP | LOS_SYS_LIGHT_SLEEP | LOS_SYS_DEEP_SLEEP | LOS_SYS_SHUTDOWN

datatype LOS_PmNodeType = LOS_PM_TYPE_DEVICE | LOS_PM_TYPE_TICK_TIMER | LOS_PM_TYPE_SYSCTRL | PM_TYPE_OTHER

record LosPmDevice =
  dev_suspend :: u32
  dev_resume :: u32

record LosPmTickTimer =
  timer_freq :: u32
  timerStart :: u32
  timerStop :: u32
  timerCycleGet :: u32
  tickLock :: u32
  tickUnlock :: u32

record LosPmSysctrl =
  normalSuspend :: u32
  normalResume :: u32
  lightSuspend :: u32
  lightResume :: u32
  deepSuspend :: u32
  deepResume :: u32
  shutdownSuspend :: u32
  shutdownResume :: u32

datatype pm_call =
    DeviceSuspend LOS_SysSleepEnum
  | DeviceResume LOS_SysSleepEnum
  | TickLock
  | TickUnlock
  | TimerStart u64
  | TimerStop
  | TimerCycleGet
  | CpuSuspend LOS_SysSleepEnum
  | CpuResume LOS_SysSleepEnum

text \<open>The control block \<^verbatim>\<open>g_pmCB\<close>, the block \<^verbatim>\<open>OsPmInit\<close> allocates, and the kernel.\<close>

record LosPmCB =
  pmMode :: LOS_SysSleepEnum
  sysMode :: LOS_SysSleepEnum
  pm_lock :: u16
  isWake :: bool
  pm_device :: u32
  pm_sysctrl :: u32
  pm_tickTimer :: u32
  enterSleepTime :: u64
  g_sysctrl :: u32
  device_at :: "u32 \<Rightarrow> LosPmDevice"
  timer_at :: "u32 \<Rightarrow> LosPmTickTimer"
  sysctrl_at :: "u32 \<Rightarrow> LosPmSysctrl"
  pm_out :: "pm_call list"
  pm_null :: bool
  pm_freed :: "u32 list" \<comment> \<open>what was given to \<^verbatim>\<open>LOS_MemFree\<close>\<close>
  pm_kernel :: kernel

definition pm_call :: "u32 \<Rightarrow> pm_call \<Rightarrow> LosPmCB \<Rightarrow> LosPmCB" where
  "pm_call f c s = (if f = 0 then s\<lparr>pm_null := True\<rparr> else s\<lparr>pm_out := pm_out s @ [c]\<rparr>)"

text \<open>Reading a structure through a pointer.\<close>

definition pm_deref :: "u32 \<Rightarrow> LosPmCB \<Rightarrow> LosPmCB" where
  "pm_deref p s = (if p = 0 then s\<lparr>pm_null := True\<rparr> else s)"

definition upd_kernel :: "(kernel \<Rightarrow> kernel) \<Rightarrow> LosPmCB \<Rightarrow> LosPmCB" where
  "upd_kernel f s = s\<lparr>pm_kernel := f (pm_kernel s)\<rparr>"

section \<open>The tick timer\<close>

definition OS_SYS_NS_PER_SECOND :: u64 where "OS_SYS_NS_PER_SECOND = 1000000000"

definition OS_SYS_CYCLE_TO_NS :: "u64 \<Rightarrow> u64 \<Rightarrow> u64 \<Rightarrow> u64" where
  "OS_SYS_CYCLE_TO_NS clk cycle freq =
     (cycle div freq) * OS_SYS_NS_PER_SECOND + (cycle mod clk) * OS_SYS_NS_PER_SECOND div freq"

definition OS_SYS_NS_TO_CYCLE :: "u64 \<Rightarrow> u64 \<Rightarrow> u64" where
  "OS_SYS_NS_TO_CYCLE time freq =
     (time div OS_SYS_NS_PER_SECOND) * freq + (time mod OS_SYS_NS_PER_SECOND) * freq div OS_SYS_NS_PER_SECOND"

text \<open>\<open>cycles\<close> is what \<^verbatim>\<open>timerCycleGet\<close> returns.\<close>

definition OsPmTickTimerStart :: "u64 \<Rightarrow> LosPmCB \<Rightarrow> LosPmCB" where
  "OsPmTickTimerStart cycles s =
     (let s0 = pm_deref (pm_tickTimer s) s; tm = timer_at s (pm_tickTimer s); clk = ucast (sysClock (pm_kernel s));
          s1 = pm_call (timerStop tm) TimerStop (pm_call (timerCycleGet tm) TimerCycleGet s0);
          realSleepTime = OS_SYS_NS_TO_CYCLE (OS_SYS_CYCLE_TO_NS clk cycles (ucast (timer_freq tm))) clk;
          currTime = enterSleepTime s1 + realSleepTime;
          s2 = s1\<lparr>enterSleepTime := 0\<rparr>;
          s3 = upd_kernel (\<lambda>k. OsSchedUpdateExpireTime currTime False (OsSchedTimerBaseReset currTime k)) s2
      in pm_call (tickUnlock tm) TickUnlock s3)"

definition OsPmTickTimerStop :: "LosPmCB \<Rightarrow> LosPmCB" where
  "OsPmTickTimerStop s =
     (let realSleepTime = g_pmSleepTime (pm_kernel s); tm = timer_at s (pm_tickTimer s);
          clk = ucast (sysClock (pm_kernel s)) in
      if realSleepTime = 0 then s
      else
        let sleepCycle = OS_SYS_NS_TO_CYCLE (OS_SYS_CYCLE_TO_NS clk realSleepTime clk) (ucast (timer_freq tm));
            (now, k1) = OsGetCurrSchedTimeCycle (pm_kernel s);
            s1 = s\<lparr>pm_kernel := k1, enterSleepTime := now\<rparr>
        in pm_call (timerStart tm) (TimerStart sleepCycle) (pm_call (tickLock tm) TickLock s1))"

definition OsPmTickTimerResume :: "u64 \<Rightarrow> LosPmCB \<Rightarrow> LosPmCB" where
  "OsPmTickTimerResume cycles s =
     (let tm = timer_at s (pm_tickTimer s);
          s1 = (if sysMode s = LOS_SYS_DEEP_SLEEP then pm_deref (pm_tickTimer s) s else s)
      in if sysMode s = LOS_SYS_DEEP_SLEEP \<and> tickUnlock tm \<noteq> 0 then pm_call (tickUnlock tm) TickUnlock s1
         else if enterSleepTime s1 \<noteq> 0 then OsPmTickTimerStart cycles s1 else s1)"

definition OsPmTickTimerSuspend :: "LosPmCB \<Rightarrow> LosPmCB" where
  "OsPmTickTimerSuspend s =
     (let tm = timer_at s (pm_tickTimer s); deep = (sysMode s = LOS_SYS_DEEP_SLEEP \<or> sysMode s = LOS_SYS_SHUTDOWN);
          s1 = (if deep then pm_deref (pm_tickTimer s) s else s)
      in if deep \<and> tickLock tm \<noteq> 0 then pm_call (tickLock tm) TickLock s1
         else if pm_tickTimer s1 = 0 then s1
         else if timerStart tm \<noteq> 0 \<and> timerStop tm \<noteq> 0 \<and> timerCycleGet tm = 0 \<and> timer_freq tm \<noteq> 0
         then OsPmTickTimerStop s1 else s1)"

section \<open>The CPU\<close>

definition OsPmCpuResume :: "LosPmCB \<Rightarrow> LosPmCB" where
  "OsPmCpuResume s =
     (let c = sysctrl_at s (pm_sysctrl s);
          f = (case sysMode s of LOS_SYS_NORMAL_SLEEP \<Rightarrow> normalResume c | LOS_SYS_LIGHT_SLEEP \<Rightarrow> lightResume c
                 | LOS_SYS_DEEP_SLEEP \<Rightarrow> deepResume c | LOS_SYS_SHUTDOWN \<Rightarrow> 0);
          s1 = (if sysMode s = LOS_SYS_SHUTDOWN then s else pm_deref (pm_sysctrl s) s)
      in if f \<noteq> 0 then pm_call f (CpuResume (sysMode s)) s1 else s1)"

definition OsPmCpuSuspend :: "LosPmCB \<Rightarrow> u32 \<times> LosPmCB" where
  "OsPmCpuSuspend s =
     (let s1 = pm_deref (pm_sysctrl s) (upd_kernel (LOS_ASSERT (pm_sysctrl s \<noteq> 0)) s);
          c = sysctrl_at s (pm_sysctrl s);
          f = (case sysMode s of LOS_SYS_NORMAL_SLEEP \<Rightarrow> normalSuspend c | LOS_SYS_LIGHT_SLEEP \<Rightarrow> lightSuspend c
                 | LOS_SYS_DEEP_SLEEP \<Rightarrow> deepSuspend c | LOS_SYS_SHUTDOWN \<Rightarrow> shutdownSuspend c)
      in (f, upd_kernel (LOS_ASSERT (f \<noteq> 0)) s1))"

section \<open>Entering a mode\<close>

text \<open>How the first part of \<^verbatim>\<open>OsPmEnter\<close>, which runs with interrupts off, ends: a return, the
  jump to \<^verbatim>\<open>EXIT\<close> with the scheduler locked, or a sleep with the function that suspends the CPU
  and the value of \<^verbatim>\<open>isTaskLock\<close>.\<close>

datatype sleep_plan = Return | Exit | Sleep u32 bool

definition OsPmEnter_suspend :: "bool \<Rightarrow> u32 \<Rightarrow> LosPmCB \<Rightarrow> sleep_plan \<times> LosPmCB" where
  "OsPmEnter_suspend isIdle devRet s =
     (let s1 = s\<lparr>sysMode := pmMode s\<rparr>;
          s2 = (if isIdle \<and> sysMode s1 \<noteq> LOS_SYS_NORMAL_SLEEP \<and> sysMode s1 \<noteq> LOS_SYS_LIGHT_SLEEP
                then s1\<lparr>sysMode := LOS_SYS_NORMAL_SLEEP\<rparr> else s1)
      in if \<not> isIdle \<and> sysMode s1 \<noteq> LOS_SYS_DEEP_SLEEP \<and> sysMode s1 \<noteq> LOS_SYS_SHUTDOWN then (Return, s1)
         else if sysMode s2 \<noteq> LOS_SYS_NORMAL_SLEEP \<and> sysMode s2 \<noteq> LOS_SYS_LIGHT_SLEEP \<and> pm_lock s2 > 0
         then (Return, s2)
         else
           let s3 = (if (sysMode s2 = LOS_SYS_NORMAL_SLEEP \<or> sysMode s2 = LOS_SYS_LIGHT_SLEEP) \<and> pm_lock s2 > 0
                     then s2\<lparr>sysMode := LOS_SYS_NORMAL_SLEEP\<rparr> else s2);
               isTaskLock = (sysMode s3 \<noteq> LOS_SYS_NORMAL_SLEEP);
               s4 = (if isTaskLock
                     then pm_call (dev_suspend (device_at s3 (pm_device s3))) (DeviceSuspend (sysMode s3))
                            (pm_deref (pm_device s3) (upd_kernel LOS_TaskLock (s3\<lparr>isWake := False\<rparr>)))
                     else s3)
           in if isTaskLock \<and> devRet \<noteq> LOS_OK then (Exit, s4)
              else let (f, s5) = OsPmCpuSuspend (OsPmTickTimerSuspend s4) in (Sleep f isTaskLock, s5))"

definition OsPmEnter_resume :: "bool \<Rightarrow> u64 \<Rightarrow> LosPmCB \<Rightarrow> LosPmCB" where
  "OsPmEnter_resume isTaskLock cycles s =
     (let s1 = OsPmTickTimerResume cycles (OsPmCpuResume s);
          s2 = (if sysMode s1 \<noteq> LOS_SYS_NORMAL_SLEEP
                then pm_call (dev_resume (device_at s1 (pm_device s1))) (DeviceResume (sysMode s1)) (pm_deref (pm_device s1) s1)
                else s1);
          s3 = (if pmMode s2 = LOS_SYS_DEEP_SLEEP then s2\<lparr>pmMode := LOS_SYS_NORMAL_SLEEP\<rparr> else s2)
      in if isTaskLock then upd_kernel LOS_TaskUnlock s3 else s3)"

text \<open>The interrupts that arrive before the CPU sleeps, and those that wake it and come until interrupts
  are off again, are functions on the state.\<close>

definition OsPmEnter :: "bool \<Rightarrow> u32 \<Rightarrow> (LosPmCB \<Rightarrow> LosPmCB) \<Rightarrow> (LosPmCB \<Rightarrow> LosPmCB) \<Rightarrow> u64 \<Rightarrow> LosPmCB \<Rightarrow> LosPmCB" where
  "OsPmEnter isIdle devRet irq1 irq2 cycles s =
     (case OsPmEnter_suspend isIdle devRet s of
        (Return, s1) \<Rightarrow> s1
      | (Exit, s1) \<Rightarrow> upd_kernel LOS_TaskUnlock s1
      | (Sleep f isTaskLock, s1) \<Rightarrow>
          let s2 = irq1 s1;
              s3 = (if \<not> isTaskLock \<or> \<not> isWake s2 then pm_call f (CpuSuspend (sysMode s2)) s2 else s2)
          in OsPmEnter_resume isTaskLock cycles (irq2 s3))"

text \<open>The task \<^verbatim>\<open>OsPmTask\<close> that \<^verbatim>\<open>LOS_PmModeSet\<close> creates, and a round of the idle task.\<close>

definition OsPmTask :: "u32 \<Rightarrow> (LosPmCB \<Rightarrow> LosPmCB) \<Rightarrow> (LosPmCB \<Rightarrow> LosPmCB) \<Rightarrow> u64 \<Rightarrow> LosPmCB \<Rightarrow> LosPmCB" where
  "OsPmTask = OsPmEnter False"

text \<open>\<open>pmSet\<close> is \<^verbatim>\<open>PmEnter != NULL\<close>; without it the round is \<^verbatim>\<open>HalEnterSleep\<close> alone.\<close>

definition OsPmEnterHandlerSet :: "bool \<Rightarrow> bool \<Rightarrow> u32 \<times> bool" where
  "OsPmEnterHandlerSet func pmSet = (if \<not> func then (LOS_NOK, pmSet) else (LOS_OK, True))"

definition OsIdleTask_round ::
  "bool \<Rightarrow> u32 \<Rightarrow> (LosPmCB \<Rightarrow> LosPmCB) \<Rightarrow> (LosPmCB \<Rightarrow> LosPmCB) \<Rightarrow> u64 \<Rightarrow> LosPmCB \<Rightarrow> LosPmCB" where
  "OsIdleTask_round pmSet devRet irq1 irq2 cycles s =
     (let s1 = upd_kernel OsRecyleFinishedTask s
      in if pmSet then OsPmEnter True devRet irq1 irq2 cycles s1 else irq2 (irq1 s1))"

section \<open>Registration\<close>

definition OsPmDeviceRegister :: "u32 \<Rightarrow> LosPmCB \<Rightarrow> u32 \<times> LosPmCB" where
  "OsPmDeviceRegister dev s =
     (if dev_suspend (device_at s dev) = 0 \<or> dev_resume (device_at s dev) = 0 then (LOS_ERRNO_PM_INVALID_PARAM, s)
      else (LOS_OK, s\<lparr>pm_device := dev\<rparr>))"

definition OsPmTickTimerRegister :: "u32 \<Rightarrow> LosPmCB \<Rightarrow> u32 \<times> LosPmCB" where
  "OsPmTickTimerRegister tm s = (LOS_OK, s\<lparr>enterSleepTime := 0, pm_tickTimer := tm\<rparr>)"

definition OsPmSysctrlRegister :: "u32 \<Rightarrow> LosPmCB \<Rightarrow> u32 \<times> LosPmCB" where
  "OsPmSysctrlRegister ctl s =
     (if normalSuspend (sysctrl_at s ctl) = 0 then (LOS_ERRNO_PM_INVALID_PARAM, s)
      else (LOS_OK, s\<lparr>pm_sysctrl := ctl\<rparr>))"

definition LOS_PmRegister :: "LOS_PmNodeType \<Rightarrow> u32 \<Rightarrow> LosPmCB \<Rightarrow> u32 \<times> LosPmCB" where
  "LOS_PmRegister ty node s =
     (if node = 0 then (LOS_ERRNO_PM_INVALID_PARAM, s)
      else case ty of
          LOS_PM_TYPE_DEVICE \<Rightarrow> OsPmDeviceRegister node s
        | LOS_PM_TYPE_TICK_TIMER \<Rightarrow> OsPmTickTimerRegister node s
        | LOS_PM_TYPE_SYSCTRL \<Rightarrow> OsPmSysctrlRegister node s
        | PM_TYPE_OTHER \<Rightarrow> (LOS_ERRNO_PM_INVALID_TYPE, s))"

definition OsPmDeviceUnregister :: "u32 \<Rightarrow> LosPmCB \<Rightarrow> u32 \<times> LosPmCB" where
  "OsPmDeviceUnregister dev s =
     (if pm_device s = dev then (LOS_OK, s\<lparr>pm_device := 0, pmMode := LOS_SYS_NORMAL_SLEEP\<rparr>)
      else (LOS_ERRNO_PM_INVALID_NODE, s))"

definition OsPmTickTimerUnregister :: "u32 \<Rightarrow> LosPmCB \<Rightarrow> u32 \<times> LosPmCB" where
  "OsPmTickTimerUnregister tm s =
     (if pm_tickTimer s = tm
      then (LOS_OK, s\<lparr>pm_tickTimer := 0,
              pmMode := (if pmMode s \<noteq> LOS_SYS_NORMAL_SLEEP \<and> pmMode s \<noteq> LOS_SYS_LIGHT_SLEEP
                         then LOS_SYS_NORMAL_SLEEP else pmMode s)\<rparr>)
      else (LOS_ERRNO_PM_INVALID_NODE, s))"

definition OsPmSysctrlUnregister :: "u32 \<Rightarrow> LosPmCB \<Rightarrow> u32 \<times> LosPmCB" where
  "OsPmSysctrlUnregister ctl s =
     (if pm_sysctrl s = ctl
      then let own = (pm_sysctrl s = g_sysctrl s);
               freeNode = (if own then pm_sysctrl s else 0);
               s1 = (if own then s\<lparr>g_sysctrl := 0\<rparr> else s)\<lparr>pm_sysctrl := 0\<rparr>
           in (LOS_OK, if freeNode \<noteq> 0 then s1\<lparr>pm_freed := pm_freed s1 @ [freeNode]\<rparr> else s1)
      else (LOS_ERRNO_PM_INVALID_NODE, s))"

definition LOS_PmUnregister :: "LOS_PmNodeType \<Rightarrow> u32 \<Rightarrow> LosPmCB \<Rightarrow> u32 \<times> LosPmCB" where
  "LOS_PmUnregister ty node s =
     (if node = 0 then (LOS_ERRNO_PM_INVALID_PARAM, s)
      else case ty of
          LOS_PM_TYPE_DEVICE \<Rightarrow> OsPmDeviceUnregister node s
        | LOS_PM_TYPE_TICK_TIMER \<Rightarrow> OsPmTickTimerUnregister node s
        | LOS_PM_TYPE_SYSCTRL \<Rightarrow> OsPmSysctrlUnregister node s
        | PM_TYPE_OTHER \<Rightarrow> (LOS_ERRNO_PM_INVALID_TYPE, s))"

section \<open>The programming interface\<close>

definition LOS_PmWakeSet :: "LosPmCB \<Rightarrow> LosPmCB" where
  "LOS_PmWakeSet s = s\<lparr>isWake := True\<rparr>"

definition LOS_PmModeGet :: "LosPmCB \<Rightarrow> LOS_SysSleepEnum" where
  "LOS_PmModeGet s = pmMode s"

definition sleep_mode :: "i32 \<Rightarrow> LOS_SysSleepEnum option" where
  "sleep_mode n =
     (if sint n < 0 \<or> sint n > 3 then None
      else Some (if n = 0 then LOS_SYS_NORMAL_SLEEP else if n = 1 then LOS_SYS_LIGHT_SLEEP
                 else if n = 2 then LOS_SYS_DEEP_SLEEP else LOS_SYS_SHUTDOWN))"

text \<open>The entry \<^verbatim>\<open>OsPmTask\<close> is at the address \<open>pmTask\<close>; \<open>stk\<close> is the stack allocated for it.\<close>

definition LOS_PmModeSet :: "symbols \<Rightarrow> u32 \<Rightarrow> u32 \<Rightarrow> i32 \<Rightarrow> LosPmCB \<Rightarrow> u32 \<times> LosPmCB" where
  "LOS_PmModeSet ld pmTask stk n s =
     (case sleep_mode n of
        None \<Rightarrow> (LOS_ERRNO_PM_INVALID_MODE, s)
      | Some mode \<Rightarrow>
          let c = sysctrl_at s (pm_sysctrl s); tm = timer_at s (pm_tickTimer s);
              s1 = (if mode \<noteq> LOS_SYS_NORMAL_SLEEP then pm_deref (pm_sysctrl s) s else s);
              deep = (mode = LOS_SYS_DEEP_SLEEP \<or> mode = LOS_SYS_SHUTDOWN) in
          if mode \<noteq> LOS_SYS_NORMAL_SLEEP \<and> pm_device s = 0 then (LOS_ERRNO_PM_DEVICE_NULL, s)
          else if mode = LOS_SYS_LIGHT_SLEEP \<and> lightSuspend c = 0 then (LOS_ERRNO_PM_HANDLER_NULL, s1)
          else if mode = LOS_SYS_DEEP_SLEEP \<and> deepSuspend c = 0 then (LOS_ERRNO_PM_HANDLER_NULL, s1)
          else if mode = LOS_SYS_SHUTDOWN \<and> shutdownSuspend c = 0 then (LOS_ERRNO_PM_HANDLER_NULL, s1)
          else if deep \<and> (pm_tickTimer s = 0 \<or> tickLock tm = 0 \<or> tickUnlock tm = 0)
          then (LOS_ERRNO_PM_TICK_TIMER_NULL, s1)
          else
            let s2 = s1\<lparr>pmMode := mode\<rparr> in
            if deep
            then case LOS_TaskCreate ld False (Some \<lparr>pfnTaskEntry = pmTask, usTaskPrio = 1, param_uwArg = 0,
                     uwStackSize = 0x800, pcName = Some ''pm''\<rparr>) stk (pm_kernel s2) of
                   (ret, _, k1) \<Rightarrow> (ret, s2\<lparr>pm_kernel := k1\<rparr>)
            else (LOS_OK, s2))"

definition OS_PM_LOCK_MAX :: u16 where "OS_PM_LOCK_MAX = 0xFFFF"

definition LOS_PmLockRequest :: "LosPmCB \<Rightarrow> u32 \<times> LosPmCB" where
  "LOS_PmLockRequest s =
     (if pm_lock s < OS_PM_LOCK_MAX then (LOS_OK, s\<lparr>pm_lock := pm_lock s + 1\<rparr>) else (LOS_ERRNO_PM_NOT_LOCK, s))"

definition LOS_PmLockRelease :: "LosPmCB \<Rightarrow> u32 \<times> LosPmCB" where
  "LOS_PmLockRelease s =
     (if pm_lock s > 0 then (LOS_OK, s\<lparr>pm_lock := pm_lock s - 1\<rparr>) else (LOS_ERRNO_PM_NOT_LOCK, s))"

text \<open>\<open>ctl\<close> is the block the allocator returns, 0 when there is none, \<open>halEnterSleep\<close> the address of
  \<^verbatim>\<open>HalEnterSleep\<close>.\<close>

definition OsPmInit :: "u32 \<Rightarrow> u32 \<Rightarrow> bool \<Rightarrow> LosPmCB \<Rightarrow> u32 \<times> bool \<times> LosPmCB" where
  "OsPmInit halEnterSleep ctl pmSet s =
     (let s1 = s\<lparr>pmMode := LOS_SYS_NORMAL_SLEEP, sysMode := LOS_SYS_NORMAL_SLEEP, pm_lock := 0, isWake := False,
                 pm_device := 0, pm_sysctrl := 0, pm_tickTimer := 0, enterSleepTime := 0\<rparr>;
          (ret, k1) = OsSchedRealSleepTimeSet True (pm_kernel s1);
          s2 = s1\<lparr>pm_kernel := k1\<rparr>
      in if ret \<noteq> LOS_OK then (ret, pmSet, s2)
         else case OsPmEnterHandlerSet True pmSet of (ret, pmSet) \<Rightarrow>
           if ret \<noteq> LOS_OK then (ret, pmSet, s2)
           else
             let s3 = s2\<lparr>g_sysctrl := ctl\<rparr> in
             if ctl = 0 then (LOS_NOK, pmSet, s3)
             else
               let z = \<lparr>normalSuspend = halEnterSleep, normalResume = 0, lightSuspend = 0, lightResume = 0,
                        deepSuspend = 0, deepResume = 0, shutdownSuspend = 0, shutdownResume = 0\<rparr>;
                   s4 = s3\<lparr>sysctrl_at := (sysctrl_at s3)(ctl := z)\<rparr>
               in case LOS_PmRegister LOS_PM_TYPE_SYSCTRL ctl s4 of (ret, s5) \<Rightarrow>
                 if ret \<noteq> LOS_OK then (ret, pmSet, s5\<lparr>pm_freed := pm_freed s5 @ [ctl], g_sysctrl := 0\<rparr>)
                 else (ret, pmSet, s5))"

end
