(* ===== verification/Pm_Spec.thy ===== *)
theory Pm_Spec
  imports Los_Pm Task_Spec
begin

text \<open>
  Low-power modes: which mode is entered, in which order devices, tick timer and CPU are suspended and
  resumed, that no null pointer is followed and no assertion fails as long as the registered structures
  support the mode that is set, and the one case in which a null pointer is followed all the same: a tick
  timer that cannot be read is started.
\<close>

section \<open>The invariant\<close>

text \<open>The mode that is set is one the registered structures support.\<close>

definition supports :: "LosPmCB \<Rightarrow> LOS_SysSleepEnum \<Rightarrow> bool" where
  "supports s m \<longleftrightarrow> (let c = sysctrl_at s (pm_sysctrl s); tm = timer_at s (pm_tickTimer s) in
     (m \<noteq> LOS_SYS_NORMAL_SLEEP \<longrightarrow> pm_device s \<noteq> 0) \<and>
     (m = LOS_SYS_LIGHT_SLEEP \<longrightarrow> lightSuspend c \<noteq> 0) \<and> (m = LOS_SYS_DEEP_SLEEP \<longrightarrow> deepSuspend c \<noteq> 0) \<and>
     (m = LOS_SYS_SHUTDOWN \<longrightarrow> shutdownSuspend c \<noteq> 0) \<and>
     (m = LOS_SYS_DEEP_SLEEP \<or> m = LOS_SYS_SHUTDOWN \<longrightarrow> pm_tickTimer s \<noteq> 0 \<and> tickLock tm \<noteq> 0 \<and> tickUnlock tm \<noteq> 0))"

text \<open>A timer that can be started and stopped but not read is the only one the code starts: the test of
  \<^verbatim>\<open>timerCycleGet\<close> is the wrong way round.  It does so when the scheduler has left a time to sleep.\<close>

definition readable :: "LosPmTickTimer \<Rightarrow> bool" where
  "readable tm \<longleftrightarrow> timerStart tm = 0 \<or> timerStop tm = 0 \<or> timerCycleGet tm \<noteq> 0 \<or> timer_freq tm = 0"

definition pm_inv :: "LosPmCB \<Rightarrow> bool" where
  "pm_inv s \<longleftrightarrow> pm_sysctrl s \<noteq> 0 \<and> normalSuspend (sysctrl_at s (pm_sysctrl s)) \<noteq> 0 \<and>
     (pm_device s \<noteq> 0 \<longrightarrow> dev_suspend (device_at s (pm_device s)) \<noteq> 0 \<and> dev_resume (device_at s (pm_device s)) \<noteq> 0) \<and>
     enterSleepTime s = 0 \<and> supports s (pmMode s) \<and> \<not> pm_null s"

definition arms_timer :: "LosPmCB \<Rightarrow> bool" where
  "arms_timer s \<longleftrightarrow> pm_tickTimer s \<noteq> 0 \<and> \<not> readable (timer_at s (pm_tickTimer s)) \<and> g_pmSleepTime (pm_kernel s) \<noteq> 0"

text \<open>What interrupts do not touch while the system goes to sleep and wakes up: they may set the wake-up
  flag, take and release locks, and work on the kernel outside the task lock.\<close>

definition irq_wf :: "(LosPmCB \<Rightarrow> LosPmCB) \<Rightarrow> bool" where
  "irq_wf f \<longleftrightarrow> (\<forall>s. pmMode (f s) = pmMode s \<and> sysMode (f s) = sysMode s \<and> pm_device (f s) = pm_device s \<and>
     pm_sysctrl (f s) = pm_sysctrl s \<and> pm_tickTimer (f s) = pm_tickTimer s \<and> enterSleepTime (f s) = enterSleepTime s \<and>
     device_at (f s) = device_at s \<and> timer_at (f s) = timer_at s \<and> sysctrl_at (f s) = sysctrl_at s \<and>
     pm_out (f s) = pm_out s \<and> pm_null (f s) = pm_null s \<and>
     g_losTaskLock (pm_kernel (f s)) = g_losTaskLock (pm_kernel s) \<and>
     assertFailed (pm_kernel (f s)) = assertFailed (pm_kernel s))"

lemma irq_wfD:
  assumes "irq_wf f"
  shows "pmMode (f s) = pmMode s" "sysMode (f s) = sysMode s" "pm_device (f s) = pm_device s"
    "pm_sysctrl (f s) = pm_sysctrl s" "pm_tickTimer (f s) = pm_tickTimer s" "enterSleepTime (f s) = enterSleepTime s"
    "device_at (f s) = device_at s" "timer_at (f s) = timer_at s" "sysctrl_at (f s) = sysctrl_at s"
    "pm_out (f s) = pm_out s" "pm_null (f s) = pm_null s"
    "g_losTaskLock (pm_kernel (f s)) = g_losTaskLock (pm_kernel s)"
    "assertFailed (pm_kernel (f s)) = assertFailed (pm_kernel s)"
  using spec [OF assms [unfolded irq_wf_def], of s] by blast+

lemma irq_examples:
  "irq_wf (\<lambda>s. s)" "irq_wf LOS_PmWakeSet" "irq_wf (\<lambda>s. snd (LOS_PmLockRequest s))" "irq_wf (\<lambda>s. snd (LOS_PmLockRelease s))"
  by (simp_all add: irq_wf_def LOS_PmWakeSet_def LOS_PmLockRequest_def LOS_PmLockRelease_def)

section \<open>Entering a mode\<close>

text \<open>The mode that is entered: a lock or the idle task keep the system out of the deep modes.\<close>

definition entered_mode :: "bool \<Rightarrow> LosPmCB \<Rightarrow> LOS_SysSleepEnum option" where
  "entered_mode isIdle s =
     (let m = pmMode s in
      if isIdle
      then Some (if pm_lock s = 0 \<and> m = LOS_SYS_LIGHT_SLEEP then LOS_SYS_LIGHT_SLEEP else LOS_SYS_NORMAL_SLEEP)
      else if (m = LOS_SYS_DEEP_SLEEP \<or> m = LOS_SYS_SHUTDOWN) \<and> pm_lock s = 0 then Some m else None)"

text \<open>The sleeps in which such a timer is started: the tick is not simply locked, and the device has not
  refused.\<close>

definition starts_timer :: "bool \<Rightarrow> u32 \<Rightarrow> LosPmCB \<Rightarrow> bool" where
  "starts_timer isIdle devRet s \<longleftrightarrow> arms_timer s \<and>
     (entered_mode isIdle s = Some LOS_SYS_NORMAL_SLEEP \<or> entered_mode isIdle s = Some LOS_SYS_LIGHT_SLEEP \<and> devRet = LOS_OK)"

text \<open>The calls of a sleep in a mode: devices first, then the tick, then the CPU, and back in the
  opposite order.  The CPU is not suspended when a wake-up has come in between.  After a shutdown that
  ends the tick stays locked.\<close>

fun sleep_calls :: "LOS_SysSleepEnum \<Rightarrow> bool \<Rightarrow> LosPmSysctrl \<Rightarrow> pm_call list" where
  "sleep_calls LOS_SYS_NORMAL_SLEEP woken c =
     [CpuSuspend LOS_SYS_NORMAL_SLEEP] @ (if normalResume c \<noteq> 0 then [CpuResume LOS_SYS_NORMAL_SLEEP] else [])"
| "sleep_calls LOS_SYS_LIGHT_SLEEP woken c =
     [DeviceSuspend LOS_SYS_LIGHT_SLEEP] @ (if woken then [] else [CpuSuspend LOS_SYS_LIGHT_SLEEP]) @
     (if lightResume c \<noteq> 0 then [CpuResume LOS_SYS_LIGHT_SLEEP] else []) @ [DeviceResume LOS_SYS_LIGHT_SLEEP]"
| "sleep_calls LOS_SYS_DEEP_SLEEP woken c =
     [DeviceSuspend LOS_SYS_DEEP_SLEEP, TickLock] @ (if woken then [] else [CpuSuspend LOS_SYS_DEEP_SLEEP]) @
     (if deepResume c \<noteq> 0 then [CpuResume LOS_SYS_DEEP_SLEEP] else []) @ [TickUnlock, DeviceResume LOS_SYS_DEEP_SLEEP]"
| "sleep_calls LOS_SYS_SHUTDOWN woken c =
     [DeviceSuspend LOS_SYS_SHUTDOWN, TickLock] @ (if woken then [] else [CpuSuspend LOS_SYS_SHUTDOWN]) @
     [DeviceResume LOS_SYS_SHUTDOWN]"

lemma pm_call_nonnull [simp]: "f \<noteq> 0 \<Longrightarrow> pm_call f c s = s\<lparr>pm_out := pm_out s @ [c]\<rparr>"
  by (simp add: pm_call_def)

lemma pm_deref_nonnull [simp]: "p \<noteq> 0 \<Longrightarrow> pm_deref p s = s"
  by (simp add: pm_deref_def)

lemma assert_true [simp]: "LOS_ASSERT True k = k"
  by (simp add: LOS_ASSERT_def)

lemma upd_kernel_id [simp]: "upd_kernel (\<lambda>k. k) s = s"
  by (simp add: upd_kernel_def)

lemma upd_kernel_fields [simp]:
  "pmMode (upd_kernel f s) = pmMode s" "sysMode (upd_kernel f s) = sysMode s" "pm_device (upd_kernel f s) = pm_device s"
  "pm_sysctrl (upd_kernel f s) = pm_sysctrl s" "pm_tickTimer (upd_kernel f s) = pm_tickTimer s"
  "enterSleepTime (upd_kernel f s) = enterSleepTime s" "device_at (upd_kernel f s) = device_at s"
  "timer_at (upd_kernel f s) = timer_at s" "sysctrl_at (upd_kernel f s) = sysctrl_at s" "pm_out (upd_kernel f s) = pm_out s"
  "pm_null (upd_kernel f s) = pm_null s" "pm_lock (upd_kernel f s) = pm_lock s" "isWake (upd_kernel f s) = isWake s"
  "pm_kernel (upd_kernel f s) = f (pm_kernel s)"
  by (simp_all add: upd_kernel_def)

text \<open>The first part, with interrupts off.\<close>

definition tick_calls :: "LOS_SysSleepEnum \<Rightarrow> pm_call list" where
  "tick_calls m = (if m = LOS_SYS_DEEP_SLEEP \<or> m = LOS_SYS_SHUTDOWN then [TickLock] else [])"

definition suspend_fun :: "LOS_SysSleepEnum \<Rightarrow> LosPmSysctrl \<Rightarrow> u32" where
  "suspend_fun m c = (case m of LOS_SYS_NORMAL_SLEEP \<Rightarrow> normalSuspend c | LOS_SYS_LIGHT_SLEEP \<Rightarrow> lightSuspend c
     | LOS_SYS_DEEP_SLEEP \<Rightarrow> deepSuspend c | LOS_SYS_SHUTDOWN \<Rightarrow> shutdownSuspend c)"

lemma TickTimerSuspend_spec:
  assumes "supports s (sysMode s)" "arms_timer s \<longrightarrow> sysMode s = LOS_SYS_DEEP_SLEEP \<or> sysMode s = LOS_SYS_SHUTDOWN"
  shows "OsPmTickTimerSuspend s = s\<lparr>pm_out := pm_out s @ tick_calls (sysMode s)\<rparr>"
  using assms
  by (auto simp: OsPmTickTimerSuspend_def OsPmTickTimerStop_def Let_def tick_calls_def supports_def arms_timer_def readable_def)

lemma CpuSuspend_spec:
  assumes "pm_sysctrl s \<noteq> 0" "suspend_fun (sysMode s) (sysctrl_at s (pm_sysctrl s)) \<noteq> 0"
  shows "OsPmCpuSuspend s = (suspend_fun (sysMode s) (sysctrl_at s (pm_sysctrl s)), s)"
  using assms by (simp add: OsPmCpuSuspend_def Let_def suspend_fun_def upd_kernel_def)

lemma suspend_fun_nonnull:
  assumes "pm_inv s" "supports s m"
  shows "suspend_fun m (sysctrl_at s (pm_sysctrl s)) \<noteq> 0"
  using assms by (cases m) (simp_all add: suspend_fun_def pm_inv_def supports_def Let_def)

lemma lock_sleep [simp]: "g_pmSleepTime (LOS_TaskLock k) = g_pmSleepTime k"
  by (simp add: LOS_TaskLock_def Let_def)

lemma OsPmEnter_suspend_shape:
  assumes "entered_mode isIdle s = Some m"
  defines "s3 \<equiv> s\<lparr>sysMode := m\<rparr>"
  shows "OsPmEnter_suspend isIdle devRet s =
    (let isTaskLock = (m \<noteq> LOS_SYS_NORMAL_SLEEP);
         s4 = (if isTaskLock
               then pm_call (dev_suspend (device_at s (pm_device s))) (DeviceSuspend m)
                      (pm_deref (pm_device s) (upd_kernel LOS_TaskLock (s3\<lparr>isWake := False\<rparr>)))
               else s3)
     in if isTaskLock \<and> devRet \<noteq> LOS_OK then (Exit, s4)
        else let (f, s5) = OsPmCpuSuspend (OsPmTickTimerSuspend s4) in (Sleep f isTaskLock, s5))"
  using assms(1) by (cases "pmMode s"; cases isIdle)
    (auto simp: OsPmEnter_suspend_def entered_mode_def Let_def s3_def word_gt_0 split: if_splits)

lemma OsPmEnter_suspend_spec:
  assumes inv: "pm_inv s" and quiet: "\<not> starts_timer isIdle devRet s"
  defines "c \<equiv> sysctrl_at s (pm_sysctrl s)"
  shows "OsPmEnter_suspend isIdle devRet s =
    (case entered_mode isIdle s of
       None \<Rightarrow> (Return, s\<lparr>sysMode := pmMode s\<rparr>)
     | Some m \<Rightarrow>
         if m = LOS_SYS_NORMAL_SLEEP then (Sleep (suspend_fun m c) False, s\<lparr>sysMode := m\<rparr>)
         else let s' = s\<lparr>sysMode := m, isWake := False, pm_kernel := LOS_TaskLock (pm_kernel s)\<rparr> in
           if devRet \<noteq> LOS_OK then (Exit, s'\<lparr>pm_out := pm_out s @ [DeviceSuspend m]\<rparr>)
           else (Sleep (suspend_fun m c) True, s'\<lparr>pm_out := pm_out s @ [DeviceSuspend m] @ tick_calls m\<rparr>))"
proof (cases "entered_mode isIdle s")
  case None
  then show ?thesis
    by (cases "pmMode s"; cases isIdle) (auto simp: OsPmEnter_suspend_def Let_def entered_mode_def word_gt_0 split: if_splits)
next
  case (Some m)
  define s3 where "s3 = s\<lparr>sysMode := m\<rparr>"
  have sup: "supports s m"
    using Some inv by (cases "pmMode s") (auto simp: entered_mode_def Let_def pm_inv_def supports_def split: if_splits)
  note f = suspend_fun_nonnull [OF inv sup, folded c_def]
  have e: "OsPmEnter_suspend isIdle devRet s =
    (let isTaskLock = (m \<noteq> LOS_SYS_NORMAL_SLEEP);
         s4 = (if isTaskLock
               then pm_call (dev_suspend (device_at s (pm_device s))) (DeviceSuspend m)
                      (pm_deref (pm_device s) (upd_kernel LOS_TaskLock (s3\<lparr>isWake := False\<rparr>)))
               else s3)
     in if isTaskLock \<and> devRet \<noteq> LOS_OK then (Exit, s4)
        else let (f, s5) = OsPmCpuSuspend (OsPmTickTimerSuspend s4) in (Sleep f isTaskLock, s5))"
    unfolding s3_def by (rule OsPmEnter_suspend_shape [OF Some])
  show ?thesis
  proof (cases "m = LOS_SYS_NORMAL_SLEEP")
    case True
    have "OsPmTickTimerSuspend s3 = s3"
      using inv quiet Some True
      by (subst TickTimerSuspend_spec) (simp_all add: s3_def supports_def pm_inv_def tick_calls_def starts_timer_def arms_timer_def)
    moreover have "OsPmCpuSuspend s3 = (suspend_fun m c, s3)"
      using inv f by (subst CpuSuspend_spec) (simp_all add: s3_def pm_inv_def c_def)
    ultimately show ?thesis using Some True by (simp add: e s3_def)
  next
    case False
    have d: "pm_device s \<noteq> 0" "dev_suspend (device_at s (pm_device s)) \<noteq> 0"
      using inv sup False by (simp_all add: pm_inv_def supports_def Let_def)
    define s4 where "s4 = s\<lparr>sysMode := m, isWake := False, pm_kernel := LOS_TaskLock (pm_kernel s),
      pm_out := pm_out s @ [DeviceSuspend m]\<rparr>"
    have s4: "pm_call (dev_suspend (device_at s (pm_device s))) (DeviceSuspend m)
        (pm_deref (pm_device s) (upd_kernel LOS_TaskLock (s3\<lparr>isWake := False\<rparr>))) = s4"
      using d by (simp add: s3_def s4_def upd_kernel_def)
    have "OsPmTickTimerSuspend s4 = s4\<lparr>pm_out := pm_out s4 @ tick_calls m\<rparr>" if "devRet = LOS_OK"
    proof -
      have "arms_timer s4 \<longrightarrow> m = LOS_SYS_DEEP_SLEEP \<or> m = LOS_SYS_SHUTDOWN"
        using quiet Some False that by (cases m) (simp_all add: starts_timer_def arms_timer_def s4_def)
      then show ?thesis using sup by (subst TickTimerSuspend_spec) (simp_all add: s4_def supports_def)
    qed
    moreover have "OsPmCpuSuspend (s4\<lparr>pm_out := pm_out s4 @ tick_calls m\<rparr>) = (suspend_fun m c, s4\<lparr>pm_out := pm_out s4 @ tick_calls m\<rparr>)"
      using inv f by (subst CpuSuspend_spec) (simp_all add: s4_def pm_inv_def c_def)
    ultimately show ?thesis using Some False by (simp add: e s4) (simp add: s4_def)
  qed
qed

text \<open>The part after the CPU has woken up.\<close>

definition resume_calls :: "LOS_SysSleepEnum \<Rightarrow> LosPmSysctrl \<Rightarrow> pm_call list" where
  "resume_calls m c =
     (if (case m of LOS_SYS_NORMAL_SLEEP \<Rightarrow> normalResume c | LOS_SYS_LIGHT_SLEEP \<Rightarrow> lightResume c
            | LOS_SYS_DEEP_SLEEP \<Rightarrow> deepResume c | LOS_SYS_SHUTDOWN \<Rightarrow> 0) \<noteq> 0 then [CpuResume m] else []) @
     (if m = LOS_SYS_DEEP_SLEEP then [TickUnlock] else []) @
     (if m = LOS_SYS_NORMAL_SLEEP then [] else [DeviceResume m])"

lemma OsPmEnter_resume_spec:
  assumes "supports s (sysMode s)" "pm_sysctrl s \<noteq> 0" "enterSleepTime s = 0"
    and "pm_device s \<noteq> 0 \<longrightarrow> dev_resume (device_at s (pm_device s)) \<noteq> 0"
  shows "OsPmEnter_resume isTaskLock cycles s =
    s\<lparr>pm_out := pm_out s @ resume_calls (sysMode s) (sysctrl_at s (pm_sysctrl s)),
      pmMode := (if pmMode s = LOS_SYS_DEEP_SLEEP then LOS_SYS_NORMAL_SLEEP else pmMode s),
      pm_kernel := (if isTaskLock then LOS_TaskUnlock (pm_kernel s) else pm_kernel s)\<rparr>"
proof -
  let ?f = "case sysMode s of LOS_SYS_NORMAL_SLEEP \<Rightarrow> normalResume (sysctrl_at s (pm_sysctrl s))
    | LOS_SYS_LIGHT_SLEEP \<Rightarrow> lightResume (sysctrl_at s (pm_sysctrl s))
    | LOS_SYS_DEEP_SLEEP \<Rightarrow> deepResume (sysctrl_at s (pm_sysctrl s)) | LOS_SYS_SHUTDOWN \<Rightarrow> 0"
  define cs where "cs = (if ?f \<noteq> 0 then [CpuResume (sysMode s)] else [])"
  have c: "OsPmCpuResume s = s\<lparr>pm_out := pm_out s @ cs\<rparr>"
    using assms(2) by (simp add: OsPmCpuResume_def Let_def cs_def)
  define ts where "ts = (if sysMode s = LOS_SYS_DEEP_SLEEP then [TickUnlock] else [])"
  have t: "OsPmTickTimerResume cycles (s\<lparr>pm_out := pm_out s @ cs\<rparr>) = s\<lparr>pm_out := pm_out s @ cs @ ts\<rparr>"
    using assms(1,3) by (simp add: OsPmTickTimerResume_def Let_def ts_def supports_def)
  show ?thesis
  proof (cases "sysMode s = LOS_SYS_NORMAL_SLEEP")
    case True
    then show ?thesis
      by (simp add: OsPmEnter_resume_def Let_def c t) (simp add: resume_calls_def cs_def ts_def upd_kernel_def)
  next
    case False
    then have d: "pm_device s \<noteq> 0" "dev_resume (device_at s (pm_device s)) \<noteq> 0"
      using assms(1,4) by (simp_all add: supports_def Let_def)
    have "resume_calls (sysMode s) (sysctrl_at s (pm_sysctrl s)) = cs @ ts @ [DeviceResume (sysMode s)]"
      using False by (simp add: resume_calls_def cs_def ts_def)
    then show ?thesis using False d by (simp add: OsPmEnter_resume_def Let_def c t upd_kernel_def)
  qed
qed

lemma sleep_calls_parts:
  "sleep_calls m woken c =
     (if m = LOS_SYS_NORMAL_SLEEP then [] else [DeviceSuspend m]) @ tick_calls m @
     (if m \<noteq> LOS_SYS_NORMAL_SLEEP \<and> woken then [] else [CpuSuspend m]) @ resume_calls m c"
  by (cases m) (simp_all add: tick_calls_def resume_calls_def)

lemma lock_unlock:
  assumes "g_losTaskLock k < 0xFFFF" and that: "g_losTaskLock k' = g_losTaskLock (LOS_TaskLock k)"
  shows "g_losTaskLock (LOS_TaskUnlock k') = g_losTaskLock k"
proof -
  have "g_losTaskLock k + 1 > 0" using assms by (simp add: word_less_nat_alt unat_word_ariths)
  then show ?thesis using that by (simp add: LOS_TaskUnlock_def LOS_TaskLock_def Let_def schedule_defs)
qed

lemma lock_assert [simp]: "assertFailed (LOS_TaskUnlock k) = assertFailed k" "assertFailed (LOS_TaskLock k) = assertFailed k"
  by (simp_all add: LOS_TaskUnlock_def LOS_TaskLock_def Let_def schedule_defs)

lemma pm_enter_sound:
  fixes isIdle :: bool and devRet :: u32 and cycles :: u64
  assumes inv: "pm_inv s" and irq: "irq_wf irq1" "irq_wf irq2"
    and woken: "\<And>s. isWake (irq1 s) \<longleftrightarrow> isWake s \<or> woken" and lk: "g_losTaskLock (pm_kernel s) < 0xFFFF"
    and quiet: "\<not> starts_timer isIdle devRet s"
  defines "s' \<equiv> OsPmEnter isIdle devRet irq1 irq2 cycles s"
  shows "pm_inv s' \<and> g_losTaskLock (pm_kernel s') = g_losTaskLock (pm_kernel s) \<and>
    assertFailed (pm_kernel s') = assertFailed (pm_kernel s) \<and>
    (isIdle \<longrightarrow> entered_mode isIdle s \<in> {Some LOS_SYS_NORMAL_SLEEP, Some LOS_SYS_LIGHT_SLEEP}) \<and>
    (pm_lock s > 0 \<longrightarrow> entered_mode isIdle s \<in> {None, Some LOS_SYS_NORMAL_SLEEP}) \<and>
    (case entered_mode isIdle s of
       None \<Rightarrow> pm_out s' = pm_out s \<and> pmMode s' = pmMode s
     | Some m \<Rightarrow>
         if m \<noteq> LOS_SYS_NORMAL_SLEEP \<and> devRet \<noteq> LOS_OK
         then pm_out s' = pm_out s @ [DeviceSuspend m] \<and> pmMode s' = pmMode s
         else pm_out s' = pm_out s @ sleep_calls m woken (sysctrl_at s (pm_sysctrl s)) \<and>
           pmMode s' = (if pmMode s = LOS_SYS_DEEP_SLEEP then LOS_SYS_NORMAL_SLEEP else pmMode s))"
proof -
  note i1 = irq_wfD [OF irq(1)] and i2 = irq_wfD [OF irq(2)]
  let ?c = "sysctrl_at s (pm_sysctrl s)"
  have lim: "(isIdle \<longrightarrow> entered_mode isIdle s \<in> {Some LOS_SYS_NORMAL_SLEEP, Some LOS_SYS_LIGHT_SLEEP}) \<and>
    (pm_lock s > 0 \<longrightarrow> entered_mode isIdle s \<in> {None, Some LOS_SYS_NORMAL_SLEEP})"
    by (auto simp: entered_mode_def Let_def)
  have sup0: "supports (t\<lparr>pmMode := LOS_SYS_NORMAL_SLEEP\<rparr>) LOS_SYS_NORMAL_SLEEP" for t by (simp add: supports_def)
  note lu = lock_unlock [OF lk]
  show ?thesis
  proof (cases "entered_mode isIdle s")
    case None
    then have "s' = s\<lparr>sysMode := pmMode s\<rparr>" by (simp add: s'_def OsPmEnter_def OsPmEnter_suspend_spec [OF inv quiet])
    then show ?thesis using inv None lim by (simp add: pm_inv_def supports_def)
  next
    case (Some m)
    have sup: "supports s m"
      using Some inv by (cases "pmMode s") (auto simp: entered_mode_def Let_def pm_inv_def supports_def split: if_splits)
    note f = suspend_fun_nonnull [OF inv sup]
    show ?thesis
    proof (cases "m \<noteq> LOS_SYS_NORMAL_SLEEP \<and> devRet \<noteq> LOS_OK")
      case True
      then have "s' = s\<lparr>sysMode := m, isWake := False, pm_out := pm_out s @ [DeviceSuspend m],
          pm_kernel := LOS_TaskUnlock (LOS_TaskLock (pm_kernel s))\<rparr>"
        using Some by (simp add: s'_def OsPmEnter_def OsPmEnter_suspend_spec [OF inv quiet] upd_kernel_def Let_def)
      then show ?thesis using inv Some True lim lu [OF refl] by (simp add: pm_inv_def supports_def)
    next
      case False
      define tl where "tl = (m \<noteq> LOS_SYS_NORMAL_SLEEP)"
      define s1 where "s1 = (if tl then s\<lparr>sysMode := m, isWake := False, pm_kernel := LOS_TaskLock (pm_kernel s),
        pm_out := pm_out s @ [DeviceSuspend m] @ tick_calls m\<rparr> else s\<lparr>sysMode := m\<rparr>)"
      define s2 where "s2 = irq1 s1"
      define cs where "cs = (if tl \<and> woken then [] else [CpuSuspend m])"
      define s3 where "s3 = irq2 (s2\<lparr>pm_out := pm_out s2 @ cs\<rparr>)"
      have e: "OsPmEnter_suspend isIdle devRet s = (Sleep (suspend_fun m ?c) tl, s1)"
        using Some False by (auto simp: OsPmEnter_suspend_spec [OF inv quiet] s1_def tl_def Let_def)
      have w: "isWake s2 \<longleftrightarrow> woken" if tl using that by (simp add: s2_def woken s1_def)
      have x: "(if \<not> tl \<or> \<not> isWake s2 then pm_call (suspend_fun m ?c) (CpuSuspend (sysMode s2)) s2 else s2) =
          s2\<lparr>pm_out := pm_out s2 @ cs\<rparr>"
      proof -
        have "sysMode s2 = m" by (simp add: s2_def i1 s1_def)
        then show ?thesis using w f by (cases tl; cases woken) (simp_all add: cs_def)
      qed
      have s': "s' = OsPmEnter_resume tl cycles s3"
        by (simp only: s'_def OsPmEnter_def e prod.case sleep_plan.case Let_def s2_def [symmetric] x s3_def)
      have g: "pmMode s3 = pmMode s" "sysMode s3 = m" "pm_device s3 = pm_device s" "pm_sysctrl s3 = pm_sysctrl s"
        "pm_tickTimer s3 = pm_tickTimer s" "enterSleepTime s3 = enterSleepTime s" "device_at s3 = device_at s"
        "timer_at s3 = timer_at s" "sysctrl_at s3 = sysctrl_at s" "pm_null s3 = pm_null s" "pm_out s3 = pm_out s1 @ cs"
        "g_losTaskLock (pm_kernel s3) = g_losTaskLock (pm_kernel s1)" "assertFailed (pm_kernel s3) = assertFailed (pm_kernel s)"
        by (simp_all add: s3_def i2) (simp_all add: s2_def i1 s1_def)
      have sup3: "supports s3 (sysMode s3)" using sup by (simp add: supports_def g)
      have r: "s' = s3\<lparr>pm_out := pm_out s3 @ resume_calls m ?c,
          pmMode := (if pmMode s3 = LOS_SYS_DEEP_SLEEP then LOS_SYS_NORMAL_SLEEP else pmMode s3),
          pm_kernel := (if tl then LOS_TaskUnlock (pm_kernel s3) else pm_kernel s3)\<rparr>"
        using inv sup3 unfolding s' by (subst OsPmEnter_resume_spec) (simp_all add: g pm_inv_def)
      have "pm_out s' = pm_out s @ sleep_calls m woken ?c"
        by (simp add: r g sleep_calls_parts cs_def s1_def tl_def) (simp add: tick_calls_def)
      moreover have "g_losTaskLock (pm_kernel s') = g_losTaskLock (pm_kernel s)"
        using lu [of "pm_kernel s3"] by (simp add: r g s1_def)
      moreover have "assertFailed (pm_kernel s') = assertFailed (pm_kernel s)" by (simp add: r g)
      moreover have "pmMode s' = (if pmMode s = LOS_SYS_DEEP_SLEEP then LOS_SYS_NORMAL_SLEEP else pmMode s)"
        by (simp add: r g)
      moreover have "pm_inv s'" using inv by (auto simp: pm_inv_def supports_def r g Let_def)
      ultimately show ?thesis
        unfolding Some option.case if_not_P [OF False] using lim [unfolded Some] by blast
    qed
  qed
qed

section \<open>The timer that is started\<close>

lemma pm_call_fields [simp]:
  "sysMode (pm_call f c s) = sysMode s" "pmMode (pm_call f c s) = pmMode s" "pm_tickTimer (pm_call f c s) = pm_tickTimer s"
  "timer_at (pm_call f c s) = timer_at s" "enterSleepTime (pm_call f c s) = enterSleepTime s"
  "pm_kernel (pm_call f c s) = pm_kernel s" "pm_null (pm_call f c s) \<longleftrightarrow> pm_null s \<or> f = 0"
  "sysMode (pm_deref p s) = sysMode s" "pmMode (pm_deref p s) = pmMode s" "pm_tickTimer (pm_deref p s) = pm_tickTimer s"
  "timer_at (pm_deref p s) = timer_at s" "enterSleepTime (pm_deref p s) = enterSleepTime s"
  "pm_kernel (pm_deref p s) = pm_kernel s" "pm_null (pm_deref p s) \<longleftrightarrow> pm_null s \<or> p = 0"
  by (simp_all add: pm_call_def pm_deref_def)

text \<open>What \<open>starts_timer\<close> leads to: the sleep is entered with the timer running, and its end reads it.\<close>

definition timer_runs :: "LosPmCB \<Rightarrow> bool" where
  "timer_runs s \<longleftrightarrow> (sysMode s = LOS_SYS_NORMAL_SLEEP \<or> sysMode s = LOS_SYS_LIGHT_SLEEP) \<and> enterSleepTime s \<noteq> 0 \<and>
     timerCycleGet (timer_at s (pm_tickTimer s)) = 0"

lemma resume_null: "timer_runs s \<Longrightarrow> pm_null (OsPmEnter_resume locked cycles s)"
proof -
  assume r: "timer_runs s"
  have "timer_runs (OsPmCpuResume s)" using r by (auto simp: OsPmCpuResume_def Let_def timer_runs_def)
  then have "pm_null (OsPmTickTimerResume cycles (OsPmCpuResume s))"
    by (auto simp: OsPmTickTimerResume_def OsPmTickTimerStart_def Let_def timer_runs_def)
  then show ?thesis by (simp add: OsPmEnter_resume_def Let_def)
qed

lemma pm_enter_null:
  assumes irq: "irq_wf irq1" "irq_wf irq2" and st: "starts_timer isIdle devRet s"
    and time: "fst (OsGetCurrSchedTimeCycle (pm_kernel s)) \<noteq> 0"
  shows "pm_null (OsPmEnter isIdle devRet irq1 irq2 cycles s)"
proof -
  note i1 = irq_wfD [OF irq(1)] and i2 = irq_wfD [OF irq(2)]
  obtain m where m: "entered_mode isIdle s = Some m" "m = LOS_SYS_NORMAL_SLEEP \<or> m = LOS_SYS_LIGHT_SLEEP \<and> devRet = LOS_OK"
    using st by (auto simp: starts_timer_def)
  define tl where "tl = (m \<noteq> LOS_SYS_NORMAL_SLEEP)"
  define s4 where "s4 = (if tl then pm_call (dev_suspend (device_at s (pm_device s))) (DeviceSuspend m)
      (pm_deref (pm_device s) (upd_kernel LOS_TaskLock (s\<lparr>sysMode := m, isWake := False\<rparr>))) else s\<lparr>sysMode := m\<rparr>)"
  define f where "f = fst (OsPmCpuSuspend (OsPmTickTimerSuspend s4))"
  define s5 where "s5 = snd (OsPmCpuSuspend (OsPmTickTimerSuspend s4))"
  have e: "OsPmEnter_suspend isIdle devRet s = (Sleep f tl, s5)"
    using m(2) by (auto simp: OsPmEnter_suspend_shape [OF m(1)] Let_def tl_def s4_def f_def s5_def split_beta)
  have s4: "sysMode s4 = m" "pm_tickTimer s4 = pm_tickTimer s" "timer_at s4 = timer_at s"
    "pm_kernel s4 = (if tl then LOS_TaskLock (pm_kernel s) else pm_kernel s)"
    by (simp_all add: s4_def)
  have now: "fst (OsGetCurrSchedTimeCycle (pm_kernel s4)) = fst (OsGetCurrSchedTimeCycle (pm_kernel s))"
    by (simp add: s4 LOS_TaskLock_def OsGetCurrSchedTimeCycle_def HalGetTickCycle_def LOS_ASSERT_def Let_def)
  have tm: "pm_tickTimer s \<noteq> 0" "timerStart (timer_at s (pm_tickTimer s)) \<noteq> 0" "timerStop (timer_at s (pm_tickTimer s)) \<noteq> 0"
    "timerCycleGet (timer_at s (pm_tickTimer s)) = 0" "timer_freq (timer_at s (pm_tickTimer s)) \<noteq> 0" "g_pmSleepTime (pm_kernel s4) \<noteq> 0"
    using st by (simp_all add: starts_timer_def arms_timer_def readable_def s4)
  have "OsPmTickTimerSuspend s4 = OsPmTickTimerStop s4"
    using tm m(2) by (auto simp: OsPmTickTimerSuspend_def Let_def s4)
  then have "timer_runs (OsPmTickTimerSuspend s4)"
    using tm m(2) time now by (auto simp: OsPmTickTimerStop_def Let_def split_beta timer_runs_def s4)
  then have "timer_runs s5" by (simp add: s5_def OsPmCpuSuspend_def Let_def timer_runs_def)
  then have "timer_runs (irq1 s5)" by (simp add: timer_runs_def i1)
  then have "timer_runs (irq2 (if \<not> tl \<or> \<not> isWake (irq1 s5) then pm_call f (CpuSuspend (sysMode (irq1 s5))) (irq1 s5) else irq1 s5))"
    by (simp add: timer_runs_def i2)
  then show ?thesis using resume_null by (simp add: OsPmEnter_def e Let_def)
qed

text \<open>C39: Going to sleep.  With structures that support the mode that is set, \<^verbatim>\<open>OsPmEnter\<close> follows
  no null pointer and fails no assertion, whatever interrupts do meanwhile (they may set the wake-up flag,
  take locks and work on the kernel, but do not change the mode or the structures), except in one case, in
  which it does follow one: with a tick timer that can be started and stopped but not read, a time to sleep left by the
  scheduler and a clock that has started, normal and light sleep start the timer and then call its null
  \<^verbatim>\<open>timerCycleGet\<close>.  The idle task never enters a
  mode deeper than light sleep; a power lock allows normal sleep only, and keeps the power task from
  entering a mode at all.  In all cases but that one the driver functions called are exactly these: device,
  tick (in the deep modes) and CPU are suspended in this order and resumed in the opposite
  one, but after a shutdown CPU and tick are not resumed, so that the tick stays locked; the CPU is not suspended
  when a wake-up came in between, and nothing else is touched when the device
  refuses.  The scheduler's lock is given back, and the mode is normal again after a deep sleep.\<close>

theorem pm_enter_correct:
  fixes isIdle :: bool and devRet :: u32 and cycles :: u64
  assumes inv: "pm_inv s" and irq: "irq_wf irq1" "irq_wf irq2"
    and woken: "\<And>s. isWake (irq1 s) \<longleftrightarrow> isWake s \<or> woken" and lk: "g_losTaskLock (pm_kernel s) < 0xFFFF"
  defines "s' \<equiv> OsPmEnter isIdle devRet irq1 irq2 cycles s"
  shows "(starts_timer isIdle devRet s \<and> fst (OsGetCurrSchedTimeCycle (pm_kernel s)) \<noteq> 0 \<longrightarrow> pm_null s') \<and>
    (isIdle \<longrightarrow> entered_mode isIdle s \<in> {Some LOS_SYS_NORMAL_SLEEP, Some LOS_SYS_LIGHT_SLEEP}) \<and>
    (pm_lock s > 0 \<longrightarrow> entered_mode isIdle s \<in> {None, Some LOS_SYS_NORMAL_SLEEP}) \<and>
    (\<not> starts_timer isIdle devRet s \<longrightarrow>
      pm_inv s' \<and> g_losTaskLock (pm_kernel s') = g_losTaskLock (pm_kernel s) \<and>
      assertFailed (pm_kernel s') = assertFailed (pm_kernel s) \<and>
      (case entered_mode isIdle s of
         None \<Rightarrow> pm_out s' = pm_out s \<and> pmMode s' = pmMode s
       | Some m \<Rightarrow>
           if m \<noteq> LOS_SYS_NORMAL_SLEEP \<and> devRet \<noteq> LOS_OK
           then pm_out s' = pm_out s @ [DeviceSuspend m] \<and> pmMode s' = pmMode s
           else pm_out s' = pm_out s @ sleep_calls m woken (sysctrl_at s (pm_sysctrl s)) \<and>
             pmMode s' = (if pmMode s = LOS_SYS_DEEP_SLEEP then LOS_SYS_NORMAL_SLEEP else pmMode s)))"
proof -
  have "(isIdle \<longrightarrow> entered_mode isIdle s \<in> {Some LOS_SYS_NORMAL_SLEEP, Some LOS_SYS_LIGHT_SLEEP}) \<and>
    (pm_lock s > 0 \<longrightarrow> entered_mode isIdle s \<in> {None, Some LOS_SYS_NORMAL_SLEEP})"
    by (auto simp: entered_mode_def Let_def)
  then show ?thesis
    using pm_enter_null [OF irq, of isIdle devRet s cycles] pm_enter_sound [OF inv irq woken lk, of isIdle devRet cycles]
    unfolding s'_def by blast
qed

section \<open>Operations\<close>

lemma pm_inv_kernel [simp]: "pm_inv (s\<lparr>pm_kernel := k\<rparr>) = pm_inv s"
  by (simp add: pm_inv_def supports_def)

lemma pm_inv_mode:
  assumes "pm_inv s"
  shows "supports s m \<Longrightarrow> pm_inv (s\<lparr>pmMode := m\<rparr>)" "pm_inv (s\<lparr>pmMode := LOS_SYS_NORMAL_SLEEP\<rparr>)"
  using assms by (simp_all add: pm_inv_def supports_def)

text \<open>The task a deep mode starts, and the error of a mode that is not supported.\<close>

definition pm_task_create :: "symbols \<Rightarrow> u32 \<Rightarrow> u32 \<Rightarrow> LosPmCB \<Rightarrow> u32 \<times> u32 option \<times> kernel" where
  "pm_task_create ld pmTask stk s = LOS_TaskCreate ld False (Some \<lparr>pfnTaskEntry = pmTask, usTaskPrio = 1,
     param_uwArg = 0, uwStackSize = 0x800, pcName = Some ''pm''\<rparr>) stk (pm_kernel s)"

definition pm_mode_error :: "LOS_SysSleepEnum \<Rightarrow> LosPmCB \<Rightarrow> u32" where
  "pm_mode_error m s =
     (if pm_device s = 0 then LOS_ERRNO_PM_DEVICE_NULL
      else if suspend_fun m (sysctrl_at s (pm_sysctrl s)) = 0 then LOS_ERRNO_PM_HANDLER_NULL
      else LOS_ERRNO_PM_TICK_TIMER_NULL)"

lemma pm_mode_set:
  assumes inv: "pm_inv s" and n: "sleep_mode n = Some m"
  shows "supports s m \<Longrightarrow> snd (LOS_PmModeSet ld pmTask stk n s) =
      s\<lparr>pmMode := m, pm_kernel := pm_kernel (snd (LOS_PmModeSet ld pmTask stk n s))\<rparr>"
    "supports s m \<Longrightarrow> fst (LOS_PmModeSet ld pmTask stk n s) =
      (if m = LOS_SYS_DEEP_SLEEP \<or> m = LOS_SYS_SHUTDOWN then fst (pm_task_create ld pmTask stk s) else LOS_OK)"
    "\<not> supports s m \<Longrightarrow> LOS_PmModeSet ld pmTask stk n s = (pm_mode_error m s, s)"
proof -
  have c: "pm_sysctrl s \<noteq> 0" "normalSuspend (sysctrl_at s (pm_sysctrl s)) \<noteq> 0" using inv by (simp_all add: pm_inv_def)
  show "supports s m \<Longrightarrow> snd (LOS_PmModeSet ld pmTask stk n s) =
      s\<lparr>pmMode := m, pm_kernel := pm_kernel (snd (LOS_PmModeSet ld pmTask stk n s))\<rparr>"
    using c n by (cases m) (simp_all add: LOS_PmModeSet_def supports_def Let_def split_beta)
  show "supports s m \<Longrightarrow> fst (LOS_PmModeSet ld pmTask stk n s) =
      (if m = LOS_SYS_DEEP_SLEEP \<or> m = LOS_SYS_SHUTDOWN then fst (pm_task_create ld pmTask stk s) else LOS_OK)"
    using c n by (cases m) (simp_all add: LOS_PmModeSet_def supports_def Let_def split_beta pm_task_create_def)
  show "\<not> supports s m \<Longrightarrow> LOS_PmModeSet ld pmTask stk n s = (pm_mode_error m s, s)"
    using c n by (cases m) (auto simp: LOS_PmModeSet_def supports_def Let_def pm_mode_error_def suspend_fun_def)
qed

lemma idle_without_sysctrl:
  assumes "pm_sysctrl s = 0" "enterSleepTime s = 0" "\<not> arms_timer s"
    and "pm_lock s > 0 \<or> pmMode s \<noteq> LOS_SYS_LIGHT_SLEEP"
  shows "assertFailed (pm_kernel (OsPmEnter True devRet (\<lambda>s. s) (\<lambda>s. s) cycles s))"
proof -
  define s0 where "s0 = s\<lparr>sysMode := LOS_SYS_NORMAL_SLEEP\<rparr>"
  have "OsPmTickTimerSuspend s0 = s0"
    using assms(3) by (subst TickTimerSuspend_spec) (simp_all add: s0_def supports_def tick_calls_def arms_timer_def)
  then have "OsPmEnter_suspend True devRet s = (case OsPmCpuSuspend s0 of (f, s5) \<Rightarrow> (Sleep f False, s5))"
    using assms(4) by (cases "pmMode s") (auto simp: OsPmEnter_suspend_def Let_def s0_def word_gt_0)
  then obtain f t where t: "OsPmEnter_suspend True devRet s = (Sleep f False, t)" "assertFailed (pm_kernel t)"
    "sysMode t = LOS_SYS_NORMAL_SLEEP" "enterSleepTime t = 0"
    using assms(1,2) by (simp add: OsPmCpuSuspend_def Let_def LOS_ASSERT_def s0_def pm_deref_def)
  then have "assertFailed (pm_kernel (OsPmEnter_resume False cycles (pm_call f (CpuSuspend LOS_SYS_NORMAL_SLEEP) t)))"
    by (simp add: OsPmEnter_resume_def OsPmTickTimerResume_def OsPmCpuResume_def Let_def pm_call_def pm_deref_def)
  then show ?thesis using t by (simp add: OsPmEnter_def Let_def)
qed

text \<open>C40: The other operations.  \<^verbatim>\<open>OsPmInit\<close> establishes the invariant when the allocator has a
  block, and fails when it has none.  \<^verbatim>\<open>LOS_PmModeSet\<close> sets exactly the modes that the registered
  structures support, with the result of creating the power task for the deep ones, and refuses the others
  without effect, each with its error code; locks are counted up to their maximum and down to zero; setting the
  wake-up flag, registering a device,
  and taking away a device or the tick timer keep the invariant, because the latter fall back to normal sleep.
  Registering a tick timer or a system control block is not checked against the mode that is set: it is
  accepted, and keeps the invariant exactly if the new structure supports that mode.
  Taking away the system control block does not keep it: when the idle task then enters normal sleep, and has
  no tick timer to start before, it fails an assertion.\<close>

theorem pm_operations_correct:
  assumes inv: "pm_inv s"
  shows "pm_inv (LOS_PmWakeSet s) \<and> pm_inv (snd (LOS_PmLockRequest s)) \<and> pm_inv (snd (LOS_PmLockRelease s)) \<and>
    pm_inv (snd (LOS_PmRegister LOS_PM_TYPE_DEVICE node s)) \<and> pm_inv (snd (LOS_PmUnregister LOS_PM_TYPE_DEVICE node s)) \<and>
    pm_inv (snd (LOS_PmUnregister LOS_PM_TYPE_TICK_TIMER node s)) \<and> pm_inv (snd (LOS_PmModeSet ld pmTask stk n s)) \<and>
    (if pm_lock s < 0xFFFF then fst (LOS_PmLockRequest s) = LOS_OK \<and> LOS_PmLockRelease (snd (LOS_PmLockRequest s)) = (LOS_OK, s)
     else LOS_PmLockRequest s = (LOS_ERRNO_PM_NOT_LOCK, s)) \<and>
    (pm_lock s = 0 \<longrightarrow> LOS_PmLockRelease s = (LOS_ERRNO_PM_NOT_LOCK, s)) \<and>
    (case sleep_mode n of
       None \<Rightarrow> LOS_PmModeSet ld pmTask stk n s = (LOS_ERRNO_PM_INVALID_MODE, s)
     | Some m \<Rightarrow>
         if supports s m
         then LOS_PmModeGet (snd (LOS_PmModeSet ld pmTask stk n s)) = m \<and>
           fst (LOS_PmModeSet ld pmTask stk n s) =
             (if m = LOS_SYS_DEEP_SLEEP \<or> m = LOS_SYS_SHUTDOWN then fst (pm_task_create ld pmTask stk s) else LOS_OK)
         else LOS_PmModeSet ld pmTask stk n s = (pm_mode_error m s, s)) \<and>
    (node \<noteq> 0 \<longrightarrow> fst (LOS_PmRegister LOS_PM_TYPE_TICK_TIMER node s) = LOS_OK \<and>
      (pm_inv (snd (LOS_PmRegister LOS_PM_TYPE_TICK_TIMER node s)) \<longleftrightarrow> supports (s\<lparr>pm_tickTimer := node\<rparr>) (pmMode s))) \<and>
    (node \<noteq> 0 \<and> normalSuspend (sysctrl_at s node) \<noteq> 0 \<longrightarrow> fst (LOS_PmRegister LOS_PM_TYPE_SYSCTRL node s) = LOS_OK \<and>
      (pm_inv (snd (LOS_PmRegister LOS_PM_TYPE_SYSCTRL node s)) \<longleftrightarrow> supports (s\<lparr>pm_sysctrl := node\<rparr>) (pmMode s))) \<and>
    (hal \<noteq> 0 \<longrightarrow> (if ctl \<noteq> 0 then fst (OsPmInit hal ctl pmSet s) = LOS_OK \<and> pm_inv (snd (snd (OsPmInit hal ctl pmSet s)))
       else fst (OsPmInit hal ctl pmSet s) = LOS_NOK)) \<and>
    ((pm_lock s > 0 \<or> pmMode s \<noteq> LOS_SYS_LIGHT_SLEEP) \<and> \<not> arms_timer s \<longrightarrow>
      assertFailed (pm_kernel (OsPmEnter True devRet (\<lambda>s. s) (\<lambda>s. s) cycles
        (snd (LOS_PmUnregister LOS_PM_TYPE_SYSCTRL (pm_sysctrl s) s)))))"
proof (intro conjI)
  show "pm_inv (LOS_PmWakeSet s)" "pm_inv (snd (LOS_PmLockRequest s))" "pm_inv (snd (LOS_PmLockRelease s))"
    using inv by (simp_all add: LOS_PmWakeSet_def LOS_PmLockRequest_def LOS_PmLockRelease_def pm_inv_def supports_def)
  show "pm_inv (snd (LOS_PmRegister LOS_PM_TYPE_DEVICE node s))"
    using inv by (auto simp: LOS_PmRegister_def OsPmDeviceRegister_def pm_inv_def supports_def Let_def)
  show "pm_inv (snd (LOS_PmUnregister LOS_PM_TYPE_DEVICE node s))"
    "pm_inv (snd (LOS_PmUnregister LOS_PM_TYPE_TICK_TIMER node s))"
    using inv by (auto simp: LOS_PmUnregister_def OsPmDeviceUnregister_def OsPmTickTimerUnregister_def pm_inv_def supports_def Let_def)
  show "case sleep_mode n of
       None \<Rightarrow> LOS_PmModeSet ld pmTask stk n s = (LOS_ERRNO_PM_INVALID_MODE, s)
     | Some m \<Rightarrow>
         if supports s m
         then LOS_PmModeGet (snd (LOS_PmModeSet ld pmTask stk n s)) = m \<and>
           fst (LOS_PmModeSet ld pmTask stk n s) =
             (if m = LOS_SYS_DEEP_SLEEP \<or> m = LOS_SYS_SHUTDOWN then fst (pm_task_create ld pmTask stk s) else LOS_OK)
         else LOS_PmModeSet ld pmTask stk n s = (pm_mode_error m s, s)"
  proof (cases "sleep_mode n")
    case None
    then show ?thesis by (simp add: LOS_PmModeSet_def)
  next
    case (Some m)
    have "supports s m \<Longrightarrow> pmMode (snd (LOS_PmModeSet ld pmTask stk n s)) = m"
      by (subst pm_mode_set(1) [OF inv Some]) simp_all
    then show ?thesis using Some pm_mode_set(2,3) [OF inv Some] by (simp add: LOS_PmModeGet_def)
  qed
  show "pm_inv (snd (LOS_PmModeSet ld pmTask stk n s))"
  proof (cases "sleep_mode n")
    case None
    then show ?thesis using inv by (simp add: LOS_PmModeSet_def)
  next
    case (Some m)
    show ?thesis
    proof (cases "supports s m")
      case True
      show ?thesis by (subst pm_mode_set(1) [OF inv Some True]) (simp add: pm_inv_mode(1) [OF inv True])
    qed (use pm_mode_set(3) [OF inv Some] inv in simp)
  qed
  have "pm_lock s < 0xFFFF \<Longrightarrow> pm_lock s + 1 > 0" by (simp add: word_less_nat_alt unat_word_ariths)
  then show "if pm_lock s < 0xFFFF then fst (LOS_PmLockRequest s) = LOS_OK \<and> LOS_PmLockRelease (snd (LOS_PmLockRequest s)) = (LOS_OK, s)
     else LOS_PmLockRequest s = (LOS_ERRNO_PM_NOT_LOCK, s)"
    by (simp add: LOS_PmLockRequest_def LOS_PmLockRelease_def OS_PM_LOCK_MAX_def)
  show "pm_lock s = 0 \<longrightarrow> LOS_PmLockRelease s = (LOS_ERRNO_PM_NOT_LOCK, s)" by (simp add: LOS_PmLockRelease_def)
  show "node \<noteq> 0 \<longrightarrow> fst (LOS_PmRegister LOS_PM_TYPE_TICK_TIMER node s) = LOS_OK \<and>
      (pm_inv (snd (LOS_PmRegister LOS_PM_TYPE_TICK_TIMER node s)) \<longleftrightarrow> supports (s\<lparr>pm_tickTimer := node\<rparr>) (pmMode s))"
    using inv by (simp add: LOS_PmRegister_def OsPmTickTimerRegister_def pm_inv_def supports_def)
  show "node \<noteq> 0 \<and> normalSuspend (sysctrl_at s node) \<noteq> 0 \<longrightarrow> fst (LOS_PmRegister LOS_PM_TYPE_SYSCTRL node s) = LOS_OK \<and>
      (pm_inv (snd (LOS_PmRegister LOS_PM_TYPE_SYSCTRL node s)) \<longleftrightarrow> supports (s\<lparr>pm_sysctrl := node\<rparr>) (pmMode s))"
    using inv by (simp add: LOS_PmRegister_def OsPmSysctrlRegister_def pm_inv_def supports_def)
  show "hal \<noteq> 0 \<longrightarrow> (if ctl \<noteq> 0 then fst (OsPmInit hal ctl pmSet s) = LOS_OK \<and> pm_inv (snd (snd (OsPmInit hal ctl pmSet s)))
       else fst (OsPmInit hal ctl pmSet s) = LOS_NOK)"
    using inv by (simp add: OsPmInit_def Let_def OsSchedRealSleepTimeSet_def OsPmEnterHandlerSet_def LOS_PmRegister_def
        OsPmSysctrlRegister_def pm_inv_def supports_def)
  show "(pm_lock s > 0 \<or> pmMode s \<noteq> LOS_SYS_LIGHT_SLEEP) \<and> \<not> arms_timer s \<longrightarrow>
      assertFailed (pm_kernel (OsPmEnter True devRet (\<lambda>s. s) (\<lambda>s. s) cycles
        (snd (LOS_PmUnregister LOS_PM_TYPE_SYSCTRL (pm_sysctrl s) s))))"
    using inv idle_without_sysctrl [of _ devRet cycles]
    by (simp add: LOS_PmUnregister_def OsPmSysctrlUnregister_def Let_def pm_inv_def arms_timer_def)
qed

section \<open>Evaluation\<close>

text \<open>A system with a device, a tick timer that can be read, and a control block for every mode.\<close>

definition demo_pm :: "LOS_SysSleepEnum \<Rightarrow> LosPmCB" where
  "demo_pm m = \<lparr>pmMode = m, sysMode = LOS_SYS_NORMAL_SLEEP, pm_lock = 0, isWake = False, pm_device = 0x20000100,
     pm_sysctrl = 0x20000200, pm_tickTimer = 0x20000300, enterSleepTime = 0, g_sysctrl = 0x20000200,
     device_at = (\<lambda>_. \<lparr>dev_suspend = 0x1000, dev_resume = 0x1010\<rparr>),
     timer_at = (\<lambda>_. \<lparr>timer_freq = 32768, timerStart = 0x1020, timerStop = 0x1030, timerCycleGet = 0x1040,
       tickLock = 0x1050, tickUnlock = 0x1060\<rparr>),
     sysctrl_at = (\<lambda>_. \<lparr>normalSuspend = 0x1070, normalResume = 0, lightSuspend = 0x1080, lightResume = 0x1090,
       deepSuspend = 0x10A0, deepResume = 0x10B0, shutdownSuspend = 0x10C0, shutdownResume = 0\<rparr>),
     pm_out = [], pm_null = False, pm_freed = [], pm_kernel = demo_kernel\<rparr>"

lemma demo_pm_inv: "pm_inv (demo_pm m)"
  by (simp add: pm_inv_def demo_pm_def supports_def)

theorem pm_enter_correct_witness:
  "pm_out (OsPmEnter False LOS_OK (\<lambda>s. s) LOS_PmWakeSet 5 (demo_pm LOS_SYS_DEEP_SLEEP)) =
     [DeviceSuspend LOS_SYS_DEEP_SLEEP, TickLock, CpuSuspend LOS_SYS_DEEP_SLEEP, CpuResume LOS_SYS_DEEP_SLEEP,
      TickUnlock, DeviceResume LOS_SYS_DEEP_SLEEP] \<and>
   pmMode (OsPmEnter False LOS_OK (\<lambda>s. s) LOS_PmWakeSet 5 (demo_pm LOS_SYS_DEEP_SLEEP)) = LOS_SYS_NORMAL_SLEEP"
proof -
  have "g_losTaskLock (pm_kernel (demo_pm LOS_SYS_DEEP_SLEEP)) < 0xFFFF" by (simp add: demo_pm_def demo_fields)
  then show ?thesis
    using pm_enter_correct [OF demo_pm_inv [of LOS_SYS_DEEP_SLEEP] irq_examples(1,2), where woken = False and devRet = LOS_OK
        and cycles = 5 and isIdle = False]
    by (simp add: demo_pm_def entered_mode_def starts_timer_def)
qed

theorem pm_operations_correct_witness:
  "LOS_PmModeGet (snd (LOS_PmModeSet demo_symbols 0x2000 0 3 (demo_pm LOS_SYS_NORMAL_SLEEP))) = LOS_SYS_SHUTDOWN \<and>
   fst (OsPmInit 0x3000 0x20000200 False (demo_pm LOS_SYS_NORMAL_SLEEP)) = LOS_OK"
  using pm_operations_correct [OF demo_pm_inv [of LOS_SYS_NORMAL_SLEEP], where ld = demo_symbols and pmTask = "0x2000"
      and stk = 0 and n = 3 and ctl = "0x20000200" and hal = "0x3000" and pmSet = False]
  by (simp add: sleep_mode_def) (simp add: demo_pm_def supports_def)

end
