(* ===== verification/Spec2Isabelle.thy ===== *)
theory Spec2Isabelle
  imports Sched_Spec Los_Sem Los_Event Los_Mux Los_Membox Queue_Spec Task_Spec Tick_Spec
    Frame_Spec Esp_Spec Image_Spec Line_Spec Heap_Spec Pm_Spec
begin

text \<open>
  A verification development of the e-ink display firmware for the WCH CH32V307: the application
  under \<^verbatim>\<open>User/\<close> and \<^verbatim>\<open>Device/\<close> and the LiteOS-M kernel under \<^verbatim>\<open>LiteOS/kernel\<close> it
  runs on.  Paths are relative to \<^verbatim>\<open>src/\<close>.

  \<^bold>\<open>The program.\<close>  A Wi-Fi module (ESP8266) on a UART delivers the picture for an e-ink display
  in frames.  The receive interrupt (\<^verbatim>\<open>User/ch32v30x_it.c\<close>) assembles a frame byte by byte, checks
  its CRC and sets an event of the kernel; the Wi-Fi thread (\<^verbatim>\<open>User/thread_WiFi.c\<close>) waits for the
  event and forwards the packet to the display driver (\<^verbatim>\<open>Device/EPD.c\<close>, \<^verbatim>\<open>EPD_SPI.c\<close>), which
  drives the display pin by pin.  The same thread configures the module with AT commands
  (\<^verbatim>\<open>Device/ESP8266.c\<close>).  The display thread (\<^verbatim>\<open>User/thread_Eink.c\<close>) draws the first picture
  with \<^verbatim>\<open>Device/GUI_Paint.c\<close> and polls a button.  Threads, events, memory and time come from the
  kernel: a priority scheduler with time slices, a sort link of sleeping tasks, semaphores, mutexes
  with priority inheritance, events, message queues, software timers, a heap and pools of blocks.

  \<^bold>\<open>The kernel.\<close>
  \<^item> \<open>Prelude\<close> fixes the C integer types as words, flag tests, error numbers and the collections
    of simplification rules; \<open>Bytes\<close> has byte buffers and \<^verbatim>\<open>memcpy_s\<close>.
  \<^item> \<open>Los_List\<close> models \<^verbatim>\<open>utils/los_list.h\<close> on a store of pointers and shows that rings of
    pointers behave as a family of lists (\<open>lists_refine_families\<close>); the locale \<open>wait_lists\<close> is what
    the kernel needs of such a family.  \<open>Kernel_State\<close> has the control blocks and one record with
    the kernel's global variables, interprets the locale, and names a task by its index.
  \<^item> \<open>Los_SortLink\<close> (\<^verbatim>\<open>los_sortlink.c\<close>) has the insertion on pointers and on lists.
    \<open>Los_Sched\<close> (\<^verbatim>\<open>los_sched.c\<close>, \<^verbatim>\<open>los_timer.c\<close>, \<^verbatim>\<open>los_context.c\<close>) has the priority queues
    and their bitmap, waiting, waking, the scan of sleeping tasks, the choice of the next task, the
    switch and the tick timer.  \<open>Sched_Inv\<close> states \<open>sched_inv\<close>, the tie between status words, lists,
    bitmap and sort link, and proves that every operation keeps it; \<open>Sched_Switch\<close> adds the running
    task and that every task able to run is running or ready (\<open>none_lost\<close>; together \<open>kernel_inv\<close>); \<open>Sched_Spec\<close> has the properties.  \<open>Sched_Client\<close> states what the
    modules above rely on as the locale \<open>waker\<close> and interprets it, and what it means that a task has been
    woken and is not lost (\<open>awakened\<close>).
  \<^item> \<open>Los_Sem\<close>, \<open>Los_Mux\<close>, \<open>Los_Event\<close>, \<open>Los_Queue\<close> with \<open>Queue_Spec\<close> model
    \<^verbatim>\<open>los_sem.c\<close>, \<^verbatim>\<open>los_mux.c\<close>, \<^verbatim>\<open>los_event.c\<close>, \<^verbatim>\<open>los_queue.c\<close>.  Each has an
    invariant and an abstract object (a counting semaphore, a recursive mutex, a bounded queue with
    its waiting tasks) that the operations implement, on their error branches as well.  A call that
    blocks is cut at its \<^verbatim>\<open>LOS_Schedule\<close>: the first half returns \<open>Blocked\<close>, the second
    (\<open>\<dots>_resume\<close>) is what runs when the task is scheduled again.
  \<^item> \<open>Los_Task\<close> and \<open>Task_Spec\<close> (\<^verbatim>\<open>los_task.c\<close>): creation, suspension, deletion, delay and
    priorities of tasks, the recycling of control blocks and the initial stack frame.
    \<open>Los_Swtmr\<close> and \<open>Swtmr_Spec\<close> (\<^verbatim>\<open>los_swtmr.c\<close>): software timers with the alignment of
    periodic timers and the scan that sends expired handlers to the timer task's queue.
    \<open>Tick_Spec\<close> (\<^verbatim>\<open>los_tick.c\<close>) composes both scans; the locale \<open>timer_scan\<close> is what the
    scheduler relies on, interpreted on \<^verbatim>\<open>OsSwtmrScan\<close>.
  \<^item> \<open>Los_Membox\<close> (\<^verbatim>\<open>mm/los_membox.c\<close>): pools of blocks of one size.
  \<^item> \<open>Los_Memory\<close> (\<^verbatim>\<open>mm/los_memory.c\<close>): the heap, word by word.  \<open>Mem_Index\<close> has the
    arithmetic of the free lists' indices, \<open>Mem_Lists\<close> the linked free lists with their bitmap and
    the search, \<open>Mem_Nodes\<close> the tiling of the pool by nodes, merging and splitting, \<open>Mem_Spec\<close>
    the invariant \<open>heap_inv\<close> and its preservation by allocation and release, \<open>Heap_Spec\<close> the
    properties in terms of allocated blocks.
  \<^item> \<open>Los_Pm\<close> and \<open>Pm_Spec\<close> (\<^verbatim>\<open>components/power/los_pm.c\<close>): the low-power modes that the
    idle task and the power task enter.  The drivers' structures of function pointers are data of the
    state, a call through them is appended to \<open>pm_out\<close>, following a null pointer is recorded in
    \<open>pm_null\<close>, what drivers return is an argument, and the interrupts between suspension and wake-up
    are functions on the state.  A low-power timer that cannot be read is the one thing that makes
    \<^verbatim>\<open>OsPmEnter\<close> follow a null pointer (\<open>starts_timer\<close>).
  \<^item> \<open>Demo_State\<close> is a concrete kernel state on which properties are evaluated.

  \<^bold>\<open>The application.\<close>
  \<^item> \<open>App_State\<close> is the state of the application with the kernel below it, \<open>Frame_Rx\<close> the
    receive interrupt, and \<open>Frame_Spec\<close> shows that the CRC routine is the bit-serial CRC-16/MODBUS
    and detects bursts of up to 16 bits in type, command and data (not those that reach into the CRC,
    which is sent high byte first), that a frame that is sent is the frame received, and that nothing
    else is signalled and nothing stored outside the buffer, whatever bytes arrive.
  \<^item> \<open>Esp8266\<close> and \<open>Esp_Spec\<close>: the driver of the Wi-Fi module, its bounded waits and buffers.
  \<^item> \<open>Epd\<close>, \<open>App_Threads\<close> and \<open>Image_Spec\<close>: the display as a history of pin events, the two
    threads, and the composition from the received bytes through interrupt, event, thread and driver
    to the bytes the display decodes.
  \<^item> \<open>Gui_Paint\<close>, \<open>Gui_Text\<close>, \<open>Eink_Thread\<close> with \<open>Paint_Spec\<close> and \<open>Line_Spec\<close>: drawing,
    pixel by pixel, the frame conditions and termination of lines, rectangles and texts, and the first
    picture.

  \<^bold>\<open>Conventions.\<close>  Machine integers keep their width and wrap around.  A failed \<^verbatim>\<open>LOS_ASSERT\<close>
  sets \<open>assertFailed\<close>, an access outside an array sets \<open>oob\<close> (\<open>img_oob\<close> for images and
  fonts), \<^verbatim>\<open>LOS_Panic\<close> in the heap sets \<open>mem_panic\<close>.  The properties say where these stay as they
  were, and in which cases the code sets them.  A
  function of the kernel's model is a stretch of code that runs with interrupts off; the cycle counter
  does not advance in it.  Bytes that arrive at the UART are arguments of the handler; while a driver
  waits, \<open>rx_due\<close> gives one interleaving of the interrupt with it, and properties quantify over it.
  Results of the allocator in task, queue and timer creation are arguments of the definitions, as are
  the addresses that the linker chooses (record \<open>symbols\<close>), fonts and images.

  \<^bold>\<open>Loops without a bound in the code\<close> are partial functions with values in \<open>option\<close>, and that
  they return is proved where it holds: the search of the sort link on pointers, the scan of the
  software timers, the line, the first-fit search in a free list of the heap.  The loops of the
  circle and the walks over all nodes of the heap (\<open>fold_nodes\<close>) are modelled so, too.  No fuel is
  used.

  \<^bold>\<open>Bounds.\<close>  The heap's invariant asks for a pool of less than 2^28 bytes (the program's has
  2^15), so that sizes do not reach the flag bits and the indices are those of the 223 lists; a
  request of any size is covered, those from 2^29 on where the index shift overflows included.
  Properties about expiry times of software timers ask that the clock is not within 2^32 ticks of
  the end of 64 bits.

  \<^bold>\<open>Not modelled.\<close>  Register writes through the vendor's peripheral library (\<^verbatim>\<open>Peripheral/\<close>):
  clocks, pins, interrupt controller, UART and SPI set-up; start-up code and linker script
  (\<^verbatim>\<open>Startup/\<close>, \<^verbatim>\<open>Ld/\<close>, \<^verbatim>\<open>Core/\<close>, \<^verbatim>\<open>Debug/\<close>); the assembly of the context switch,
  of which only the effect on the scheduler's state is used; text on the debug port; floating point
  (\<^verbatim>\<open>Paint_DrawNumDecimals\<close>, the conversions of \<^verbatim>\<open>los_tick.c\<close> in nanoseconds); the tables of
  \<^verbatim>\<open>Fonts/\<close> and \<^verbatim>\<open>Device/generated\<close>, which are data; the compatibility layers
  (\<^verbatim>\<open>LiteOS/kal\<close>), the optional components under \<^verbatim>\<open>LiteOS/components\<close> other than power
  management, which the configuration leaves out, and the test suites.  Code that the configuration compiles out is not translated.  Copies of
  memory by \<^verbatim>\<open>memcpy_s\<close> are taken to be between blocks that do not overlap.
\<close>

end
